(* ===== verification/Mayhem_Prelude.thy ===== *)
theory Mayhem_Prelude
  imports Complex_Main
begin

text \<open>
  Shared vocabulary of the development: the typed failures of \<open>domain/errors.py\<close> (and the
  built-in exceptions the modelled code raises), instants and durations, the string helpers of
  Python the code relies on, and the two interfaces several components share: a guarded state
  machine (leases, campaigns and the recovery log all move through a transition table) and a
  canonically ordered set of reasons (approvals and promotions both report every reason, in the
  declaration order of an enumeration).
\<close>

section \<open>Time, failures\<close>

text \<open>
  An aware \<open>datetime\<close> is the number of microseconds since the epoch, a \<open>timedelta\<close> a number
  of microseconds: that is the resolution of Python's own arithmetic on them.
\<close>

type_synonym instant = int
type_synonym duration = int

text \<open>
  A \<open>datetime\<close> argument that the code checks for awareness. The naive form carries its wall
  clock; no operation of the model ever orders it against an aware one.
\<close>

datatype pydatetime = Aware instant | Naive int

text \<open>
  The exceptions. The text of a message is not modelled; the machine-readable part is: the entity
  and the two states of an \<open>InvalidTransitionError\<close>, the rule id of an
  \<open>InvariantViolationError\<close>, the holders named by a \<open>LeaseConflictError\<close>.
\<close>

datatype py_error =
    InvalidTransition string string string string
  | InvariantViolation string
  | TargetResolution string
  | SchemaInvalid string
  | SelectionFailed string
  | LeaseConflict "string list"
  | ValueErr
  | KeyErr
  | LookupErr
  | OSErr
  | AttributeErr
  | AssertionErr

fun is_domain_error :: "py_error \<Rightarrow> bool" where
  "is_domain_error (InvalidTransition _ _ _ _) = True"
| "is_domain_error (InvariantViolation _) = True"
| "is_domain_error (TargetResolution _) = True"
| "is_domain_error (SchemaInvalid _) = True"
| "is_domain_error (SelectionFailed _) = True"
| "is_domain_error _ = False"

section \<open>Durations in and out of text\<close>

text \<open>
  \<open>Duration\<close> (\<open>domain/common.py\<close>) is a non-negative number of seconds, held here in
  microseconds. Dumping a model writes it as \<open>f"{seconds:g}s"\<close>: six significant digits, and
  exponent notation outside \<open>[1e-4, 1e6)\<close>, which \<open>parse_duration\<close> does not read.
  \<open>dump_duration\<close> is a dump read back: the duration it yields, or \<open>None\<close> for the
  \<open>SchemaValidationError\<close>. A duration is taken as the decimal it denotes; a tie in the sixth
  digit goes to even.
\<close>

fun scale6 :: "nat \<Rightarrow> nat" where
  "scale6 n = (if n < 1000000 then 1 else 10 * scale6 (n div 10))"

declare scale6.simps [simp del]

definition round6 :: "nat \<Rightarrow> nat" where
  "round6 n =
     (let k = scale6 n; q = n div k; r = n mod k
      in (if k < 2 * r \<or> (2 * r = k \<and> odd q) then q + 1 else q) * k)"

definition dump_duration :: "duration \<Rightarrow> duration option" where
  "dump_duration t =
     (if t < 0 then None
      else let r = round6 (nat t)
           in if r = 0 \<or> (100 \<le> r \<and> r < 10 ^ 12) then Some (int r) else None)"

definition duration_stable :: "duration \<Rightarrow> bool" where
  "duration_stable t \<longleftrightarrow> dump_duration t = Some t"

lemma scale6_pos: "0 < scale6 n"
  by (induction n rule: scale6.induct) (subst scale6.simps, simp)

lemma scale6_bounds: "1000000 \<le> n \<Longrightarrow> 100000 * scale6 n \<le> n \<and> n < 1000000 * scale6 n"
proof (induction n rule: scale6.induct)
  case (1 n)
  have step: "scale6 n = 10 * scale6 (n div 10)"
    using "1.prems" by (simp add: scale6.simps [of n])
  show ?case
  proof (cases "n div 10 < 1000000")
    case True
    then have "scale6 n = 10" by (simp add: step scale6.simps [of "n div 10"])
    with True "1.prems" show ?thesis by auto
  next
    case False
    with "1.IH" "1.prems" have "100000 * scale6 (n div 10) \<le> n div 10"
      "n div 10 < 1000000 * scale6 (n div 10)" by auto
    then show ?thesis unfolding step by linarith
  qed
qed

lemma scale6_unique:
  assumes "100000 * 10 ^ j \<le> n" "n < 1000000 * 10 ^ j"
  shows "scale6 n = 10 ^ j"
  using assms
proof (induction j arbitrary: n)
  case 0
  then show ?case by (simp add: scale6.simps [of n])
next
  case (Suc j)
  have "scale6 (n div 10) = 10 ^ j"
    using Suc.prems by (intro Suc.IH) simp_all
  moreover have "\<not> n < 1000000"
  proof -
    have "1 \<le> (10::nat) ^ j" by simp
    moreover have "1000000 * 10 ^ j \<le> n" using Suc.prems(1) by simp
    ultimately show ?thesis by linarith
  qed
  ultimately show ?case by (simp add: scale6.simps [of n])
qed

lemma scale6_power: "\<exists>j. scale6 n = 10 ^ j"
proof (induction n rule: scale6.induct)
  case (1 n)
  show ?case
  proof (cases "n < 1000000")
    case True
    then show ?thesis by (intro exI [of _ 0]) (simp add: scale6.simps [of n])
  next
    case False
    then obtain j where "scale6 (n div 10) = 10 ^ j" using "1.IH" by blast
    with False show ?thesis by (intro exI [of _ "Suc j"]) (simp add: scale6.simps [of n])
  qed
qed

lemma round6_multiple: "scale6 n dvd m \<Longrightarrow> scale6 m dvd m \<Longrightarrow> round6 m = m"
  using scale6_pos [of m] by (simp add: round6_def Let_def)

lemma scale6_small: "n < 1000000 \<Longrightarrow> scale6 n = 1"
  by (simp add: scale6.simps [of n])

lemma round6_zero [simp]: "round6 0 = 0"
  by (simp add: round6_def scale6_small)

lemma round6_idem: "round6 (round6 n) = round6 n"
proof (cases "n < 1000000")
  case True
  then show ?thesis by (simp add: round6_def scale6_small)
next
  case False
  obtain j where j: "scale6 n = 10 ^ j" using scale6_power by blast
  let ?k = "10 ^ j :: nat"
  obtain q where q: "round6 n = q * ?k" "q = n div ?k \<or> q = n div ?k + 1"
    by (auto simp: round6_def Let_def j)
  have b: "100000 * ?k \<le> n" "n < 1000000 * ?k"
    using scale6_bounds [of n] False j by auto
  have "100000 \<le> n div ?k" using b(1) by (simp add: less_eq_div_iff_mult_less_eq)
  moreover have "n div ?k < 1000000" using b(2) by (simp add: div_less_iff_less_mult)
  ultimately have q2: "100000 \<le> q" "q \<le> 1000000" using q(2) by auto
  have "scale6 (q * ?k) dvd q * ?k"
  proof (cases "q = 1000000")
    case True
    have "scale6 (1000000 * 10 ^ j) = 10 ^ Suc j" by (intro scale6_unique) simp_all
    with True show ?thesis by simp
  next
    case False
    then have "scale6 (q * ?k) = ?k" using q2 by (intro scale6_unique) simp_all
    then show ?thesis by simp
  qed
  then show ?thesis using q(1) round6_multiple [of n "q * ?k"] j by simp
qed

lemma round6_large:
  assumes "10 ^ 12 \<le> n"
  shows "10 ^ 12 \<le> round6 n"
proof -
  obtain j where j: "scale6 n = 10 ^ j" using scale6_power by blast
  have b: "100000 * 10 ^ j \<le> n" "n < 1000000 * 10 ^ j"
    using scale6_bounds [of n] assms j by auto
  have "j \<ge> 7"
  proof (rule ccontr)
    assume "\<not> j \<ge> 7"
    then have "(10::nat) ^ j \<le> 10 ^ 6" by (intro power_increasing) auto
    with b(2) assms show False by simp
  qed
  then have "(10::nat) ^ 7 \<le> 10 ^ j" by (intro power_increasing) auto
  moreover have "100000 \<le> n div 10 ^ j" using b(1) by (simp add: less_eq_div_iff_mult_less_eq)
  ultimately have "100000 * 10 ^ 7 \<le> (n div 10 ^ j) * 10 ^ j"
    by (intro mult_le_mono) auto
  then show ?thesis by (simp add: round6_def Let_def j)
qed

lemma dump_duration_long: "10 ^ 12 \<le> t \<Longrightarrow> dump_duration t = None"
proof -
  assume "10 ^ 12 \<le> t"
  then have "10 ^ 12 \<le> round6 (nat t)" by (intro round6_large) simp
  then have "round6 (nat t) \<noteq> 0 \<and> \<not> round6 (nat t) < 10 ^ 12" by simp
  then show "dump_duration t = None" by (simp add: dump_duration_def Let_def)
qed

lemma dump_duration_stable: "dump_duration t = Some u \<Longrightarrow> duration_stable u"
  by (auto simp: duration_stable_def dump_duration_def Let_def round6_idem split: if_splits)

lemma dump_duration_nonneg: "dump_duration t = Some u \<Longrightarrow> 0 \<le> t \<and> 0 \<le> u"
  by (auto simp: dump_duration_def Let_def split: if_splits)

text \<open>The checks of awareness, and \<open>round(x, n)\<close>: exact halves go to even.\<close>

definition require_aware :: "string \<Rightarrow> pydatetime \<Rightarrow> py_error + instant" where
  "require_aware rule t = (case t of Aware i \<Rightarrow> Inr i | Naive _ \<Rightarrow> Inl (InvariantViolation rule))"

definition round_half_even :: "rat \<Rightarrow> int" where
  "round_half_even y =
     (let f = floor y; d = y - of_int f
      in if d < 1 / 2 then f else if 1 / 2 < d then f + 1 else if even f then f else f + 1)"

definition round_to :: "(rat \<Rightarrow> rat) \<Rightarrow> nat \<Rightarrow> rat \<Rightarrow> rat" where
  "round_to fl n x = fl (of_int (round_half_even (x * 10 ^ n)) / 10 ^ n)"

lemma sort_key_Nil_iff: "sort_key k xs = [] \<longleftrightarrow> xs = []"
  by (metis length_0_conv length_sort)

section \<open>Strings\<close>

text \<open>
  A \<open>str\<close> is a list of code points below 256. \<open>py_isspace\<close> is the set of those that
  \<open>str.strip()\<close> removes; \<open>py_lower\<close> lowers the ASCII letters, which is all the code's one use of
  \<open>lower()\<close> (a search for an ASCII word) can observe.
\<close>

definition py_isspace :: "char \<Rightarrow> bool" where
  "py_isspace c \<longleftrightarrow>
     (let n = of_char c :: nat
      in (9 \<le> n \<and> n \<le> 13) \<or> (28 \<le> n \<and> n \<le> 32) \<or> n = 133 \<or> n = 160)"

definition py_strip :: "string \<Rightarrow> string" where
  "py_strip s = rev (dropWhile py_isspace (rev (dropWhile py_isspace s)))"

definition py_lower :: "string \<Rightarrow> string" where
  "py_lower s = map (\<lambda>c. let n = of_char c :: nat in if 65 \<le> n \<and> n \<le> 90 then char_of (n + 32) else c) s"

fun py_startswith :: "string \<Rightarrow> string \<Rightarrow> bool" where
  "py_startswith s [] = True"
| "py_startswith [] (p # ps) = False"
| "py_startswith (c # s) (p # ps) = (c = p \<and> py_startswith s ps)"

fun py_contains :: "string \<Rightarrow> string \<Rightarrow> bool" where
  "py_contains w [] = (w = [])"
| "py_contains w (c # s) = (py_startswith (c # s) w \<or> py_contains w s)"

text \<open>\<open>bool(s)\<close> of an optional string, as in \<open>if not self.escalation_notes\<close>.\<close>

definition truthy :: "string option \<Rightarrow> bool" where
  "truthy s = (case s of None \<Rightarrow> False | Some t \<Rightarrow> t \<noteq> [])"

lemma truthy_simps [simp]: "\<not> truthy None" "truthy (Some t) \<longleftrightarrow> t \<noteq> []"
  by (simp_all add: truthy_def)

text \<open>The first of two optional values.\<close>

definition or_else :: "'a option \<Rightarrow> 'a option \<Rightarrow> 'a option" where
  "or_else x y = (case x of None \<Rightarrow> y | Some _ \<Rightarrow> x)"

lemma or_else_simps [simp]: "or_else None y = y" "or_else (Some a) y = Some a" "or_else y None = y"
  by (simp_all add: or_else_def split: option.split)

lemma or_else_assoc: "or_else (or_else x y) z = or_else x (or_else y z)"
  by (cases x) simp_all

lemma find_append: "find P (xs @ ys) = or_else (find P xs) (find P ys)"
  by (induction xs) simp_all

fun first_some :: "'a option list \<Rightarrow> 'a option" where
  "first_some [] = None"
| "first_some (x # xs) = or_else x (first_some xs)"

lemma first_some_append: "first_some (xs @ ys) = or_else (first_some xs) (first_some ys)"
  by (induction xs) (simp_all add: or_else_assoc)

text \<open>\<open>sep.join(xs)\<close> and \<open>tuple(dict.fromkeys(xs))\<close>, which keeps first occurrences.\<close>

fun py_join :: "string \<Rightarrow> string list \<Rightarrow> string" where
  "py_join sep [] = []"
| "py_join sep [x] = x"
| "py_join sep (x # y # ys) = x @ sep @ py_join sep (y # ys)"

definition dict_fromkeys :: "'a list \<Rightarrow> 'a list" where
  "dict_fromkeys xs = rev (remdups (rev xs))"

lemma set_dict_fromkeys [simp]: "set (dict_fromkeys xs) = set xs"
  by (simp add: dict_fromkeys_def)

lemma distinct_dict_fromkeys [simp]: "distinct (dict_fromkeys xs)"
  by (simp add: dict_fromkeys_def)

lemma dict_fromkeys_Nil_iff [simp]: "dict_fromkeys xs = [] \<longleftrightarrow> xs = []"
  by (simp add: dict_fromkeys_def)

section \<open>Guarded state machines\<close>

text \<open>
  Commands fired one after the other; the first refusal stops the run, as the exception does.
\<close>

fun run_all :: "('c \<Rightarrow> 'o \<Rightarrow> 'e + 'o) \<Rightarrow> 'c list \<Rightarrow> 'o \<Rightarrow> 'e + 'o" where
  "run_all fire [] x = Inr x"
| "run_all fire (c # cs) x = (case fire c x of Inl e \<Rightarrow> Inl e | Inr y \<Rightarrow> run_all fire cs y)"

lemma run_all_append:
  "run_all fire (cs @ ds) x =
     (case run_all fire cs x of Inl e \<Rightarrow> Inl e | Inr y \<Rightarrow> run_all fire ds y)"
  by (induction cs arbitrary: x) (auto split: sum.splits)

locale guarded_machine =
  fixes st :: "'o \<Rightarrow> 's"
    and succs :: "'s \<Rightarrow> 's set"
    and goal :: "'c \<Rightarrow> 's"
    and fire :: "'c \<Rightarrow> 'o \<Rightarrow> 'e + 'o"
  assumes fire_legal: "fire c x = Inr y \<Longrightarrow> goal c \<in> succs (st x)"
    and fire_goal: "fire c x = Inr y \<Longrightarrow> st y = goal c"
begin

lemma fire_illegal: "goal c \<notin> succs (st x) \<Longrightarrow> \<exists>e. fire c x = Inl e"
  by (cases "fire c x") (auto dest: fire_legal)

lemma fire_edge: "fire c x = Inr y \<Longrightarrow> st y \<in> succs (st x)"
  using fire_legal fire_goal by metis

lemma stuck_when_terminal: "succs (st x) = {} \<Longrightarrow> run_all fire cs x = Inr y \<Longrightarrow> cs = [] \<and> y = x"
  by (cases cs) (auto split: sum.splits dest: fire_legal)

lemma run_reaches:
  "run_all fire cs x = Inr y \<Longrightarrow> (\<lambda>s t. t \<in> succs s)\<^sup>*\<^sup>* (st x) (st y)"
proof (induction cs arbitrary: x)
  case Nil
  then show ?case by simp
next
  case (Cons c cs)
  then obtain z where z: "fire c x = Inr z" "run_all fire cs z = Inr y"
    by (auto split: sum.splits)
  then show ?case
    using Cons.IH [OF z(2)] fire_edge [OF z(1)] by (meson converse_rtranclp_into_rtranclp)
qed

lemma run_last_goal:
  "run_all fire (cs @ [c]) x = Inr y \<Longrightarrow> st y = goal c"
  by (auto simp: run_all_append split: sum.splits dest: fire_goal)

end

text \<open>A machine whose table has no cycle: a rank that falls on every transition.\<close>

locale ranked_machine = guarded_machine +
  fixes rank :: "'b \<Rightarrow> nat"
  assumes rank_falls: "t \<in> succs s \<Longrightarrow> rank t < rank s"
begin

lemma run_bounded: "run_all fire cs x = Inr y \<Longrightarrow> length cs + rank (st y) \<le> rank (st x)"
proof (induction cs arbitrary: x)
  case Nil
  then show ?case by simp
next
  case (Cons c cs)
  then obtain z where z: "fire c x = Inr z" "run_all fire cs z = Inr y"
    by (auto split: sum.splits)
  have "rank (st z) < rank (st x)"
    using rank_falls [OF fire_edge [OF z(1)]] .
  with Cons.IH [OF z(2)] show ?case by simp
qed

lemma never_revisits: "run_all fire cs x = Inr y \<Longrightarrow> cs \<noteq> [] \<Longrightarrow> st y \<noteq> st x"
  using run_bounded by fastforce

end

section \<open>Canonically ordered reasons\<close>

text \<open>
  \<open>order_reasons\<close> (\<open>domain/approval.py\<close>) and \<open>order_promotion_refusals\<close>
  (\<open>domain/failover.py\<close>) are the same comprehension over two enumerations.
\<close>

definition canon :: "'r list \<Rightarrow> 'r list \<Rightarrow> 'r list" where
  "canon universe reasons = filter (\<lambda>r. r \<in> set reasons) universe"

locale canonical_enum =
  fixes universe :: "'r list"
  assumes complete: "r \<in> set universe"
    and no_repeats: "distinct universe"
begin

lemma set_canon [simp]: "set (canon universe rs) = set rs"
  using complete by (auto simp: canon_def)

lemma distinct_canon: "distinct (canon universe rs)"
  by (simp add: canon_def no_repeats)

lemma canon_cong: "set rs = set rs' \<Longrightarrow> canon universe rs = canon universe rs'"
  by (simp add: canon_def)

lemma canon_idem: "canon universe (canon universe rs) = canon universe rs"
  by (rule canon_cong) simp

lemma canon_Nil_iff [simp]: "canon universe rs = [] \<longleftrightarrow> rs = []"
  by (metis set_canon set_empty)

end

section \<open>Generic list facts\<close>

lemma filter_empty_iff_all: "filter P xs = [] \<longleftrightarrow> (\<forall>x\<in>set xs. \<not> P x)"
  by (induction xs) auto

text \<open>Sequencing of calls that may raise.\<close>

definition and_then :: "'e + 'a \<Rightarrow> ('a \<Rightarrow> 'e + 'b) \<Rightarrow> 'e + 'b" where
  "and_then r f = (case r of Inl e \<Rightarrow> Inl e | Inr x \<Rightarrow> f x)"

lemma and_then_simps [simp]: "and_then (Inl e) f = Inl e" "and_then (Inr x) f = f x"
  by (simp_all add: and_then_def)

lemma and_then_Inr_iff: "and_then r f = Inr y \<longleftrightarrow> (\<exists>x. r = Inr x \<and> f x = Inr y)"
  by (cases r) simp_all

lemma and_then_Inl_iff: "and_then r f = Inl e \<longleftrightarrow> r = Inl e \<or> (\<exists>x. r = Inr x \<and> f x = Inl e)"
  by (cases r) simp_all

lemma Inr_caseE:
  assumes "(case r of Inl e \<Rightarrow> Inl e | Inr x \<Rightarrow> f x) = Inr y"
  obtains x where "r = Inr x" "f x = Inr y"
  using assms by (cases r) auto

end
