(* ===== verification/Python_Text.thy ===== *)
theory Python_Text
  imports Mayhem_Prelude
begin

text \<open>
  Python's conversions between numbers and text, and the splitting of strings, as the code uses
  them: decimal numerals, \<open>int(s)\<close>, \<open>str(n)\<close>, \<open>s.split\<close>; with the round trip of a numeral.
\<close>

section \<open>Numerals\<close>

definition digit_char :: "nat \<Rightarrow> char" where
  "digit_char d = char_of (48 + d)"

fun decimal :: "nat \<Rightarrow> string" where
  "decimal n = (if n < 10 then [digit_char n] else decimal (n div 10) @ [digit_char (n mod 10)])"

declare decimal.simps [simp del]

definition is_digit :: "char \<Rightarrow> bool" where
  "is_digit c \<longleftrightarrow> 48 \<le> (of_char c :: nat) \<and> (of_char c :: nat) \<le> 57"

text \<open>\<open>int(s)\<close>: surrounding blanks, one sign, digits with single underscores between them.\<close>

fun parse_digits :: "bool \<Rightarrow> int \<Rightarrow> string \<Rightarrow> int option" where
  "parse_digits seen acc [] = (if seen then Some acc else None)"
| "parse_digits seen acc (c # cs) =
     (if is_digit c then parse_digits True (acc * 10 + (of_char c - 48)) cs
      else if c = CHR ''_'' \<and> seen then parse_digits False acc cs
      else None)"

definition py_int :: "string \<Rightarrow> int option" where
  "py_int s =
     (case py_strip s of
        [] \<Rightarrow> None
      | c # cs \<Rightarrow>
          if c = CHR ''+'' then parse_digits False 0 cs
          else if c = CHR ''-'' then map_option uminus (parse_digits False 0 cs)
          else parse_digits False 0 (c # cs))"

definition py_str :: "int \<Rightarrow> string" where
  "py_str n = (if n < 0 then CHR ''-'' # decimal (nat (- n)) else decimal (nat n))"

section \<open>Splitting\<close>

text \<open>\<open>s.split(sep, maxsplit=n)\<close> for a separator of one character, and \<open>x or ''\<close>, \<open>x or None\<close>.\<close>

fun py_split :: "char \<Rightarrow> nat \<Rightarrow> string \<Rightarrow> string list" where
  "py_split sep 0 s = [s]"
| "py_split sep (Suc n) s =
     (case dropWhile (\<lambda>c. c \<noteq> sep) s of
        [] \<Rightarrow> [s]
      | _ # rest \<Rightarrow> takeWhile (\<lambda>c. c \<noteq> sep) s # py_split sep n rest)"

definition or_empty :: "string option \<Rightarrow> string" where
  "or_empty x = (case x of None \<Rightarrow> [] | Some s \<Rightarrow> s)"

definition or_none :: "string \<Rightarrow> string option" where
  "or_none s = (if s = [] then None else Some s)"

section \<open>Floats\<close>

text \<open>
  \<open>float(s)\<close>: surrounding blanks, one sign, an infinity or nan by name in any case, or a decimal with
  an optional fraction and exponent, digits with single underscores between them. The decimal is
  rounded by \<open>fl\<close>; from halfway above the largest double on it is an infinity.
\<close>

datatype pyfloat = PFinite rat | PInfinity bool | PNan

fun digit_run :: "bool \<Rightarrow> nat \<Rightarrow> nat \<Rightarrow> string \<Rightarrow> nat \<times> nat \<times> string" where
  "digit_run seen acc n [] = (acc, n, [])"
| "digit_run seen acc n (c # cs) =
     (if is_digit c then digit_run True (acc * 10 + (of_char c - 48)) (n + 1) cs
      else if c = CHR ''_'' \<and> seen \<and> (case cs of [] \<Rightarrow> False | d # _ \<Rightarrow> is_digit d) then digit_run False acc n cs
      else (acc, n, c # cs))"

definition py_sign :: "string \<Rightarrow> bool \<times> string" where
  "py_sign s = (case s of [] \<Rightarrow> (False, [])
     | c # cs \<Rightarrow> if c = CHR ''-'' then (True, cs) else if c = CHR ''+'' then (False, cs) else (False, s))"

definition py_exponent :: "string \<Rightarrow> int option" where
  "py_exponent s =
     (case s of [] \<Rightarrow> Some 0
      | c # cs \<Rightarrow>
          if c \<noteq> CHR ''e'' then None
          else let (neg, t) = py_sign cs; (v, n, rest) = digit_run False 0 0 t
               in if n = 0 \<or> rest \<noteq> [] then None else Some (if neg then - int v else int v))"

definition OVERFLOW :: rat where "OVERFLOW = 2 ^ 1024 - 2 ^ 970"

definition float_of :: "(rat \<Rightarrow> rat) \<Rightarrow> bool \<Rightarrow> nat \<Rightarrow> int \<Rightarrow> pyfloat" where
  "float_of fl neg m e =
     (let x = (if 0 \<le> e then of_nat m * 10 ^ nat e else of_nat m / 10 ^ nat (- e))
      in if OVERFLOW \<le> x then PInfinity neg else PFinite (fl (if neg then - x else x)))"

definition py_float :: "(rat \<Rightarrow> rat) \<Rightarrow> string \<Rightarrow> pyfloat option" where
  "py_float fl s =
     (let (neg, t) = py_sign (py_lower (py_strip s))
      in if t = ''inf'' \<or> t = ''infinity'' then Some (PInfinity neg)
         else if t = ''nan'' then Some PNan
         else let (a, na, r) = digit_run False 0 0 t;
                  (b, nb, r') = (case r of [] \<Rightarrow> (a, 0, [])
                                 | c # cs \<Rightarrow> if c = CHR ''.'' then digit_run False a 0 cs else (a, 0, r))
              in if na + nb = 0 then None
                 else (case py_exponent r' of None \<Rightarrow> None
                       | Some e \<Rightarrow> Some (float_of fl neg b (e - int nb))))"

text \<open>Comparison of doubles: nan is below nothing.\<close>

fun pf_le :: "pyfloat \<Rightarrow> pyfloat \<Rightarrow> bool" where
  "pf_le PNan _ = False"
| "pf_le _ PNan = False"
| "pf_le (PInfinity neg) y = (neg \<or> y = PInfinity False)"
| "pf_le (PFinite x) (PFinite y) = (x \<le> y)"
| "pf_le (PFinite x) (PInfinity neg) = (\<not> neg)"

section \<open>Lemmas\<close>

lemma of_char_digit: "d < 10 \<Longrightarrow> (of_char (digit_char d) :: nat) = 48 + d"
  by (simp add: digit_char_def)

lemma of_char_digit_int: "d < 10 \<Longrightarrow> (of_char (digit_char d) :: int) = 48 + int d"
  by (metis of_char_digit of_nat_add of_nat_numeral of_nat_of_char)

lemma is_digit_digit_char: "d < 10 \<Longrightarrow> is_digit (digit_char d)"
  by (simp add: is_digit_def of_char_digit)

lemma decimal_digits: "c \<in> set (decimal n) \<Longrightarrow> is_digit c"
proof (induction n rule: decimal.induct)
  case (1 n)
  show ?case
  proof (cases "n < 10")
    case True
    with "1.prems" show ?thesis
      by (simp add: decimal.simps [of n] is_digit_digit_char)
  next
    case False
    with "1.prems" have "c \<in> set (decimal (n div 10)) \<or> c = digit_char (n mod 10)"
      by (auto simp: decimal.simps [of n])
    with "1.IH" [OF False] show ?thesis by (auto simp: is_digit_digit_char)
  qed
qed

lemma decimal_nonempty [simp]: "decimal n \<noteq> []"
  by (subst decimal.simps) simp

definition digits_value :: "int \<Rightarrow> string \<Rightarrow> int" where
  "digits_value acc cs = foldl (\<lambda>a c. a * 10 + (of_char c - 48)) acc cs"

lemma parse_digits_append:
  "\<forall>c\<in>set cs. is_digit c \<Longrightarrow>
   parse_digits seen acc (cs @ ds) = parse_digits (seen \<or> cs \<noteq> []) (digits_value acc cs) ds"
  by (induction cs arbitrary: seen acc) (auto simp: digits_value_def)

lemma digits_value_decimal: "digits_value 0 (decimal n) = int n"
proof (induction n rule: decimal.induct)
  case (1 n)
  show ?case
  proof (cases "n < 10")
    case True
    then show ?thesis
      by (subst decimal.simps) (simp add: digits_value_def of_char_digit_int)
  next
    case False
    with "1.IH" show ?thesis
      by (subst decimal.simps) (simp add: digits_value_def of_char_digit_int zdiv_int zmod_int)
  qed
qed

lemma digits_value_zeros: "digits_value 0 (replicate k (CHR ''0'')) = 0"
  by (induction k) (simp_all add: digits_value_def)

lemma is_digit_zero: "is_digit (CHR ''0'')"
  by (simp add: is_digit_def)

lemma dropWhile_digits: "\<forall>c\<in>set cs. is_digit c \<Longrightarrow> dropWhile py_isspace cs = cs"
  by (cases cs) (auto simp: is_digit_def py_isspace_def Let_def)

lemma py_strip_digits: "\<forall>c\<in>set cs. is_digit c \<Longrightarrow> py_strip cs = cs"
  by (simp add: py_strip_def dropWhile_digits)

lemma py_int_digits:
  assumes "\<forall>c\<in>set cs. is_digit c" "cs \<noteq> []"
  shows "py_int cs = Some (digits_value 0 cs)"
proof -
  obtain c ds where cs: "cs = c # ds" using assms(2) by (cases cs) auto
  have "c \<noteq> CHR ''+''" "c \<noteq> CHR ''-''"
    using assms(1) by (auto simp: cs is_digit_def)
  then have "py_int cs = parse_digits False 0 (cs @ [])"
    using assms(1) by (simp add: py_int_def py_strip_digits cs)
  also have "\<dots> = Some (digits_value 0 cs)"
    using assms by (subst parse_digits_append) auto
  finally show ?thesis .
qed

lemma py_split_step: "sep \<notin> set a \<Longrightarrow> py_split (sep) (Suc n) (a @ sep # b) = a # py_split (sep) n b"
proof -
  assume a: "sep \<notin> set a"
  have "dropWhile (\<lambda>c. c \<noteq> sep) (a @ sep # b) = sep # b"
    "takeWhile (\<lambda>c. c \<noteq> sep) (a @ sep # b) = a"
    using a by (induction a) auto
  then show ?thesis by simp
qed

section \<open>Quoting\<close>

text \<open>
  \<open>repr(s)\<close>: single quotes unless the text holds one and no double quote; the quote, the backslash
  and what does not print are escaped.
\<close>

definition py_printable :: "char \<Rightarrow> bool" where
  "py_printable c \<longleftrightarrow>
     (let n = of_char c :: nat in (32 \<le> n \<and> n < 127) \<or> (161 \<le> n \<and> n \<noteq> 173))"

definition hex_digit :: "nat \<Rightarrow> char" where
  "hex_digit d = (if d < 10 then char_of (48 + d) else char_of (87 + d))"

definition repr_char :: "char \<Rightarrow> char \<Rightarrow> string" where
  "repr_char q c =
     (let n = of_char c :: nat; backslash = char_of (92 :: nat)
      in if c = q \<or> c = backslash then [backslash, c]
         else if n = 9 then [backslash, CHR ''t'']
         else if n = 10 then [backslash, CHR ''n'']
         else if n = 13 then [backslash, CHR ''r'']
         else if py_printable c then [c]
         else [backslash, CHR ''x'', hex_digit (n div 16), hex_digit (n mod 16)])"

definition py_repr :: "string \<Rightarrow> string" where
  "py_repr s =
     (let single = char_of (39 :: nat); double = char_of (34 :: nat);
          q = (if single \<in> set s \<and> double \<notin> set s then double else single)
      in [q] @ concat (map (repr_char q) s) @ [q])"

end
