(* ===== verification/Risk_Ladder.thy ===== *)
theory Risk_Ladder
  imports Mayhem_Prelude
begin

text \<open>
  \<open>domain/risks.py\<close>: the ordered severity ladder the gates compare with, and the deployment
  class. The ladder is made an instance of \<open>linorder\<close> through the code's own rank table.
\<close>

datatype RiskLevel = LOW | MEDIUM | HIGH | CRITICAL

fun risk_rank :: "RiskLevel \<Rightarrow> nat" where
  "risk_rank LOW = 0"
| "risk_rank MEDIUM = 1"
| "risk_rank HIGH = 2"
| "risk_rank CRITICAL = 3"

fun risk_value :: "RiskLevel \<Rightarrow> string" where
  "risk_value LOW = ''low''"
| "risk_value MEDIUM = ''medium''"
| "risk_value HIGH = ''high''"
| "risk_value CRITICAL = ''critical''"

fun next_higher :: "RiskLevel \<Rightarrow> RiskLevel" where
  "next_higher LOW = MEDIUM"
| "next_higher MEDIUM = HIGH"
| "next_higher HIGH = CRITICAL"
| "next_higher CRITICAL = CRITICAL"

definition risk_at_least :: "RiskLevel \<Rightarrow> RiskLevel \<Rightarrow> bool" where
  "risk_at_least self other \<longleftrightarrow> risk_rank self \<ge> risk_rank other"

definition risk_exceeds :: "RiskLevel \<Rightarrow> RiskLevel \<Rightarrow> bool" where
  "risk_exceeds self cap \<longleftrightarrow> risk_rank self > risk_rank cap"

lemma risk_rank_inject [simp]: "risk_rank a = risk_rank b \<longleftrightarrow> a = b"
  by (cases a; cases b) simp_all

instantiation RiskLevel :: linorder
begin

definition less_eq_RiskLevel :: "RiskLevel \<Rightarrow> RiskLevel \<Rightarrow> bool" where
  "less_eq_RiskLevel a b \<longleftrightarrow> risk_rank a \<le> risk_rank b"

definition less_RiskLevel :: "RiskLevel \<Rightarrow> RiskLevel \<Rightarrow> bool" where
  "less_RiskLevel a b \<longleftrightarrow> risk_rank a < risk_rank b"

instance
  by standard (auto simp: less_eq_RiskLevel_def less_RiskLevel_def)

end

lemma risk_at_least_iff: "risk_at_least a b \<longleftrightarrow> b \<le> a"
  by (simp add: risk_at_least_def less_eq_RiskLevel_def)

lemma risk_exceeds_iff: "risk_exceeds a b \<longleftrightarrow> b < a"
  by (simp add: risk_exceeds_def less_RiskLevel_def)

lemma next_higher_mono: "a \<le> b \<Longrightarrow> next_higher a \<le> next_higher b"
  by (cases a; cases b) (simp_all add: less_eq_RiskLevel_def)

lemma next_higher_ge: "a \<le> next_higher a"
  by (cases a) (simp_all add: less_eq_RiskLevel_def)

text \<open>
  The ceiling test of the admission gate, \<open>risk.at_least(ceiling.next_higher())\<close>, is "strictly
  above the ceiling" on every ceiling but the top one, where it also refuses the top itself.
\<close>

lemma at_least_next_higher:
  "risk_at_least r (next_higher c) \<longleftrightarrow> risk_exceeds r c \<or> (r = CRITICAL \<and> c = CRITICAL)"
  by (cases r; cases c) (simp_all add: risk_at_least_def risk_exceeds_def)

datatype EnvironmentClass = DEV | STAGING | PRODUCTION

definition is_production :: "EnvironmentClass \<Rightarrow> bool" where
  "is_production e \<longleftrightarrow> e = PRODUCTION"

end
