(* ===== verification/Lease_Model.thy ===== *)
theory Lease_Model
  imports Mayhem_Prelude
begin

text \<open>
  \<open>domain/leases.py\<close> and the resolution records of \<open>domain/resolution.py\<close>: the lease value
  object, its validators, its transition table and \<open>transition\<close>, the classification properties,
  and the run-completion check. A lease is immutable; a transition builds a new one through
  \<open>model_validate\<close>, so every invariant is checked again.
\<close>

section \<open>States and transition table\<close>

datatype LeaseState =
    L_PENDING | L_ACTIVE | L_RELEASING | L_RELEASED | L_EXPIRED | L_ORPHANED | L_DIRTY

fun lease_state_value :: "LeaseState \<Rightarrow> string" where
  "lease_state_value L_PENDING = ''pending''"
| "lease_state_value L_ACTIVE = ''active''"
| "lease_state_value L_RELEASING = ''releasing''"
| "lease_state_value L_RELEASED = ''released''"
| "lease_state_value L_EXPIRED = ''expired''"
| "lease_state_value L_ORPHANED = ''orphaned''"
| "lease_state_value L_DIRTY = ''dirty''"

fun lease_transitions :: "LeaseState \<Rightarrow> LeaseState set" where
  "lease_transitions L_PENDING = {L_ACTIVE, L_EXPIRED}"
| "lease_transitions L_ACTIVE = {L_RELEASING, L_EXPIRED, L_ORPHANED}"
| "lease_transitions L_ORPHANED = {L_RELEASING}"
| "lease_transitions L_RELEASING = {L_RELEASED, L_DIRTY}"
| "lease_transitions L_RELEASED = {}"
| "lease_transitions L_EXPIRED = {}"
| "lease_transitions L_DIRTY = {L_EXPIRED}"

definition safe_terminals :: "LeaseState set" where
  "safe_terminals = {L_RELEASED, L_EXPIRED}"

section \<open>Records\<close>

text \<open>
  The values of a probe's \<open>args\<close> are arbitrary objects; no modelled operation looks inside them.
\<close>

datatype pyobj =
    PyNone | PyBool bool | PyInt int | PyStr string | PyList "pyobj list"
  | PyDict "(string \<times> pyobj) list"

record UndoOp =
  op :: string
  undo_args :: "(string \<times> string) list"
  idempotent :: bool

record VerifyProbe =
  probe :: string
  probe_args :: "(string \<times> pyobj) list"
  expect_present :: bool

record ResolvedPodTarget =
  pod_namespace :: string
  pod_name :: string
  pod_container :: string
  pod_uid :: string
  pod_container_id :: string
  pod_node :: string
  pod_labels :: "(string \<times> string) list"
  pod_action :: string
  exec_argv :: "string list"

record ResolvedNodeTarget =
  node_name :: string
  node_namespace :: string
  node_uid :: string
  node_ready :: bool
  node_unschedulable :: bool
  node_labels :: "(string \<times> string) list"
  node_action :: string

datatype resolved_target = ResolvedPod ResolvedPodTarget | ResolvedNode ResolvedNodeTarget

record FaultLease =
  lease_id :: string
  lease_run_id :: string
  lease_fault_id :: string
  owner_agent :: string
  targets :: "string set"
  undo_ops :: "UndoOp list"
  verify_probes :: "VerifyProbe list"
  ttl :: duration
  lease_state :: LeaseState
  created_at :: instant
  injected_at :: "instant option"
  released_at :: "instant option"
  release_mechanism :: "string option"
  escalation_notes :: "string option"
  lease_identity :: "string option"
  lease_resolved :: "resolved_target option"
  epoch :: int
  served_at :: "instant option"

section \<open>Validation\<close>

text \<open>
  \<open>FaultLease.model_validate\<close>: the id-prefix field validator, the sign check of the
  \<open>Duration\<close> field, then the five checks of
  \<open>_check_invariants\<close> in their order. A validator that raises a domain error is not caught by
  the model library, so the rule of the first failed check is what the caller sees.
\<close>

definition check_invariants :: "FaultLease \<Rightarrow> py_error + FaultLease" where
  "check_invariants l =
     (if lease_state l = L_ACTIVE \<and> undo_ops l = []
      then Inl (InvariantViolation ''undo_required_before_active'')
      else if lease_state l \<in> {L_ACTIVE, L_RELEASING} \<and> verify_probes l = []
      then Inl (InvariantViolation ''verify_required_before_release'')
      else if lease_state l = L_DIRTY \<and> \<not> truthy (escalation_notes l)
      then Inl (InvariantViolation ''dirty_requires_escalation_notes'')
      else if (case injected_at l of None \<Rightarrow> False | Some t \<Rightarrow> created_at l > t)
      then Inl (InvariantViolation ''lease_time_ordering'')
      else if released_at l \<noteq> None \<and> lease_state l \<notin> safe_terminals
      then Inl (InvariantViolation ''lease_time_ordering'')
      else Inr l)"

definition id_prefix :: "FaultLease \<Rightarrow> py_error + FaultLease" where
  "id_prefix l = (if py_startswith (lease_id l) ''l-'' then Inr l
                  else Inl (InvariantViolation ''lease_id_prefix''))"

definition check_non_negative :: "FaultLease \<Rightarrow> py_error + FaultLease" where
  "check_non_negative l = (if ttl l < 0 then Inl (SchemaInvalid ''duration'') else Inr l)"

definition validate_lease :: "FaultLease \<Rightarrow> py_error + FaultLease" where
  "validate_lease l =
     (case id_prefix l of Inl e \<Rightarrow> Inl e
      | Inr l1 \<Rightarrow> (case check_non_negative l1 of Inl e \<Rightarrow> Inl e | Inr l2 \<Rightarrow> check_invariants l2))"

section \<open>Transitions\<close>

definition can_transition :: "FaultLease \<Rightarrow> LeaseState \<Rightarrow> bool" where
  "can_transition l target \<longleftrightarrow> target \<in> lease_transitions (lease_state l)"

text \<open>
  The arguments of \<open>transition\<close>; \<open>now\<close> is the resolved moment (\<open>now\<close> or \<open>utc_now()\<close>).
  The new lease is validated from \<open>model_dump()\<close> of the old one, whose serializer writes the TTL
  as text: the TTL of the new lease is what the parser reads back, and a TTL the dump writes in
  exponent notation makes the transition raise.
\<close>

record transition_args =
  to_state :: LeaseState
  trans_mechanism :: "string option"
  trans_now :: instant
  trans_notes :: "string option"

definition transition :: "transition_args \<Rightarrow> FaultLease \<Rightarrow> py_error + FaultLease" where
  "transition a l =
     (if \<not> can_transition l (to_state a)
      then Inl (InvalidTransition ''fault_lease'' (lease_id l)
                  (lease_state_value (lease_state l)) (lease_state_value (to_state a)))
      else
        (case dump_duration (ttl l) of None \<Rightarrow> Inl (SchemaInvalid ''duration'')
         | Some t \<Rightarrow>
        let l1 = l\<lparr>lease_state := to_state a, ttl := t\<rparr>;
            l2 = (if to_state a = L_ACTIVE
                  then l1\<lparr>injected_at := Some (trans_now a), served_at := Some (trans_now a),
                          epoch := epoch l + 1\<rparr>
                  else l1);
            l3 = (if to_state a \<in> {L_RELEASED, L_EXPIRED}
                  then l2\<lparr>released_at := Some (trans_now a)\<rparr> else l2);
            l4 = (case trans_mechanism a of None \<Rightarrow> l3
                  | Some m \<Rightarrow> l3\<lparr>release_mechanism := Some m\<rparr>);
            l5 = (case trans_notes a of None \<Rightarrow> l4
                  | Some n \<Rightarrow> l4\<lparr>escalation_notes := Some n\<rparr>)
        in validate_lease l5))"

section \<open>Classification\<close>

definition is_terminal :: "FaultLease \<Rightarrow> bool" where
  "is_terminal l \<longleftrightarrow> lease_transitions (lease_state l) = {}"

definition is_safe_terminal :: "FaultLease \<Rightarrow> bool" where
  "is_safe_terminal l \<longleftrightarrow> lease_state l \<in> safe_terminals"

definition needs_janitor_attention :: "FaultLease \<Rightarrow> bool" where
  "needs_janitor_attention l \<longleftrightarrow>
     lease_state l \<in> {L_PENDING, L_ACTIVE, L_ORPHANED, L_RELEASING, L_DIRTY}"

definition expires_at :: "FaultLease \<Rightarrow> instant" where
  "expires_at l = created_at l + ttl l"

definition lease_recovery :: "FaultLease \<Rightarrow> string" where
  "lease_recovery l =
     (if lease_state l = L_DIRTY
      then (if py_contains ''escalat''
                 (py_lower (case escalation_notes l of None \<Rightarrow> [] | Some n \<Rightarrow> n))
            then ''escalated'' else ''dirty'')
      else if lease_state l = L_RELEASING then ''running''
      else if lease_state l = L_RELEASED then ''recovered''
      else if lease_state l = L_EXPIRED then ''abandoned''
      else ''pending'')"

definition assert_all_recovered :: "FaultLease list \<Rightarrow> py_error + unit" where
  "assert_all_recovered leases =
     (if filter (\<lambda>l. \<not> is_safe_terminal l) leases \<noteq> []
      then Inl (InvariantViolation ''all_leases_recovered_before_run_completion'')
      else Inr ())"

section \<open>The invariant of a constructed lease\<close>

text \<open>
  What \<open>model_validate\<close> guarantees. Every lease the program holds was built by it.
\<close>

definition lease_wf :: "FaultLease \<Rightarrow> bool" where
  "lease_wf l \<longleftrightarrow>
     py_startswith (lease_id l) ''l-'' \<and> 0 \<le> ttl l
     \<and> (lease_state l = L_ACTIVE \<longrightarrow> undo_ops l \<noteq> [])
     \<and> (lease_state l \<in> {L_ACTIVE, L_RELEASING} \<longrightarrow> verify_probes l \<noteq> [])
     \<and> (lease_state l = L_DIRTY \<longrightarrow> truthy (escalation_notes l))
     \<and> (\<forall>t. injected_at l = Some t \<longrightarrow> created_at l \<le> t)
     \<and> (released_at l \<noteq> None \<longrightarrow> lease_state l \<in> safe_terminals)"

lemma check_invariants_Inr_iff:
  "check_invariants l = Inr m \<longleftrightarrow>
     m = l \<and> (lease_state l = L_ACTIVE \<longrightarrow> undo_ops l \<noteq> [])
     \<and> (lease_state l \<in> {L_ACTIVE, L_RELEASING} \<longrightarrow> verify_probes l \<noteq> [])
     \<and> (lease_state l = L_DIRTY \<longrightarrow> truthy (escalation_notes l))
     \<and> (\<forall>t. injected_at l = Some t \<longrightarrow> created_at l \<le> t)
     \<and> (released_at l \<noteq> None \<longrightarrow> lease_state l \<in> safe_terminals)"
  by (cases "injected_at l") (auto simp: check_invariants_def not_less)

lemma validate_lease_Inr_iff: "validate_lease l = Inr m \<longleftrightarrow> m = l \<and> lease_wf l"
  by (auto simp: validate_lease_def id_prefix_def check_non_negative_def lease_wf_def
      check_invariants_Inr_iff
      split: sum.splits if_splits)

lemma validate_lease_wf: "lease_wf l \<Longrightarrow> validate_lease l = Inr l"
  by (simp add: validate_lease_Inr_iff)

lemma transition_wf: "transition a l = Inr m \<Longrightarrow> lease_wf m"
  by (auto simp: transition_def Let_def validate_lease_Inr_iff split: if_splits option.splits)

lemma validate_lease_error: "validate_lease l = Inl e \<Longrightarrow> is_domain_error e"
  by (auto simp: validate_lease_def id_prefix_def check_non_negative_def check_invariants_def
      split: if_splits sum.splits)

lemma transition_error: "transition a l = Inl e \<Longrightarrow> is_domain_error e"
  by (auto simp: transition_def Let_def split: if_splits option.splits dest: validate_lease_error)

text \<open>What a transition may change, field by field.\<close>

lemma transition_frame:
  assumes "transition a l = Inr m"
  shows "lease_state m = to_state a" "to_state a \<in> lease_transitions (lease_state l)"
    "lease_id m = lease_id l" "lease_run_id m = lease_run_id l" "targets m = targets l"
    "created_at m = created_at l" "dump_duration (ttl l) = Some (ttl m)" "undo_ops m = undo_ops l"
    "verify_probes m = verify_probes l" "lease_fault_id m = lease_fault_id l"
    "owner_agent m = owner_agent l"
    "epoch m = (if to_state a = L_ACTIVE then epoch l + 1 else epoch l)"
  using assms
  by (auto simp: transition_def Let_def can_transition_def validate_lease_Inr_iff
      split: if_splits option.splits)

lemma transition_marks:
  assumes "transition a l = Inr m"
  shows "injected_at m = (if to_state a = L_ACTIVE then Some (trans_now a) else injected_at l)"
    "served_at m = (if to_state a = L_ACTIVE then Some (trans_now a) else served_at l)"
    "released_at m = (if to_state a \<in> {L_RELEASED, L_EXPIRED} then Some (trans_now a) else released_at l)"
    "release_mechanism m = (case trans_mechanism a of None \<Rightarrow> release_mechanism l | Some x \<Rightarrow> Some x)"
    "escalation_notes m = (case trans_notes a of None \<Rightarrow> escalation_notes l | Some x \<Rightarrow> Some x)"
  using assms
  by (auto simp: transition_def Let_def can_transition_def validate_lease_Inr_iff
      split: if_splits option.splits)

text \<open>The rank that falls along the table: the machine has no cycle.\<close>

fun lease_rank :: "LeaseState \<Rightarrow> nat" where
  "lease_rank L_PENDING = 5"
| "lease_rank L_ACTIVE = 4"
| "lease_rank L_ORPHANED = 3"
| "lease_rank L_RELEASING = 2"
| "lease_rank L_DIRTY = 1"
| "lease_rank L_RELEASED = 0"
| "lease_rank L_EXPIRED = 0"

interpretation lease: ranked_machine lease_state lease_transitions to_state transition lease_rank
proof unfold_locales
  fix c x y
  assume "transition c x = Inr y"
  then show "to_state c \<in> lease_transitions (lease_state x)" "lease_state y = to_state c"
    using transition_frame by blast+
next
  fix s t
  assume "t \<in> lease_transitions s"
  then show "lease_rank t < lease_rank s"
    by (cases s) auto
qed

text \<open>
  A transition from a well-formed lease succeeds exactly when the table has the edge and the
  target's own precondition holds.
\<close>

definition transition_ready :: "transition_args \<Rightarrow> FaultLease \<Rightarrow> bool" where
  "transition_ready a l \<longleftrightarrow>
     to_state a \<in> lease_transitions (lease_state l) \<and> dump_duration (ttl l) \<noteq> None
     \<and> (to_state a = L_ACTIVE \<longrightarrow>
          undo_ops l \<noteq> [] \<and> verify_probes l \<noteq> [] \<and> created_at l \<le> trans_now a)
     \<and> (to_state a = L_RELEASING \<longrightarrow> verify_probes l \<noteq> [])
     \<and> (to_state a = L_DIRTY \<longrightarrow>
          truthy (case trans_notes a of None \<Rightarrow> escalation_notes l | Some n \<Rightarrow> Some n))"

lemma lease_wf_released: "lease_wf l \<Longrightarrow> lease_transitions (lease_state l) \<noteq> {} \<Longrightarrow> released_at l = None"
  by (cases "lease_state l") (auto simp: lease_wf_def safe_terminals_def)

end
