(* ===== verification/Lease_Client.thy ===== *)
theory Lease_Client
  imports Lease_Model Python_Text "HOL-Library.AList"
begin

text \<open>
  \<open>agents/sinks.py\<close>, \<open>agents/lease_client.py\<close> and the row mapping of
  \<open>infra/lease_repository.py\<close>: the persistence protocol \<open>LeaseSink\<close>, its in-memory
  implementation, and \<open>LeaseClient\<close>, the only way an agent touches lease state. The protocol is
  a record of operations that the client's definitions take as an argument, as the Python class
  takes the sink; the laws a provider promises are the locale \<open>lease_sink\<close>, and the client's
  lemmas are proved from them alone.
\<close>

section \<open>Decimal ids\<close>

text \<open>\<open>f"l-{sequence:08d}"\<close>\<close>

definition lease_id_of :: "nat \<Rightarrow> string" where
  "lease_id_of seq =
     ''l-'' @ replicate (8 - length (decimal seq)) (CHR ''0'') @ decimal seq"

section \<open>The persistence protocol\<close>

record 's LeaseSink =
  sink_save :: "FaultLease \<Rightarrow> 's \<Rightarrow> py_error + 's"
  sink_load :: "'s \<Rightarrow> string \<Rightarrow> FaultLease option"
  sink_active :: "'s \<Rightarrow> FaultLease list"
  sink_next :: "'s \<Rightarrow> int"

text \<open>
  \<open>InMemoryLeaseSink\<close>: a \<open>dict\<close> from lease id to lease, in insertion order; storing under a
  present key keeps its place (\<open>AList.update\<close>).
\<close>

type_synonym lease_dict = "(string \<times> FaultLease) list"

definition mem_save :: "FaultLease \<Rightarrow> lease_dict \<Rightarrow> py_error + lease_dict" where
  "mem_save l s = Inr (AList.update (lease_id l) l s)"

definition mem_load :: "lease_dict \<Rightarrow> string \<Rightarrow> FaultLease option" where
  "mem_load s i = map_of s i"

definition mem_active :: "lease_dict \<Rightarrow> FaultLease list" where
  "mem_active s = filter (\<lambda>l. \<not> is_safe_terminal l) (map snd s)"

definition seq_step :: "string \<Rightarrow> int \<Rightarrow> int" where
  "seq_step i highest =
     (if \<not> py_startswith i ''l-'' then highest
      else (case py_int (drop 2 i) of None \<Rightarrow> highest | Some n \<Rightarrow> max highest n))"

definition mem_next_sequence :: "lease_dict \<Rightarrow> int" where
  "mem_next_sequence s = fold seq_step (map fst s) 0"

definition mem_all :: "lease_dict \<Rightarrow> FaultLease list" where
  "mem_all s = map snd s"

definition mem_sink :: "lease_dict LeaseSink" where
  "mem_sink = \<lparr>sink_save = mem_save, sink_load = mem_load, sink_active = mem_active,
               sink_next = mem_next_sequence\<rparr>"

section \<open>The client\<close>

record 's LeaseClient =
  sink_state :: 's
  agent_id :: string
  client_seq :: int

definition client_init :: "'s LeaseSink \<Rightarrow> string \<Rightarrow> 's \<Rightarrow> 's LeaseClient" where
  "client_init K agent s = \<lparr>sink_state = s, agent_id = agent, client_seq = sink_next K s\<rparr>"

text \<open>The arguments of \<open>acquire\<close>.\<close>

record acquire_args =
  acq_run_id :: string
  acq_fault_id :: string
  acq_targets :: "string set"
  acq_undo :: "UndoOp list"
  acq_probes :: "VerifyProbe list"
  acq_ttl :: duration
  acq_identity :: "string option"
  acq_resolved :: "resolved_target option"
  acq_epoch :: int

definition pending_lease :: "string \<Rightarrow> string \<Rightarrow> instant \<Rightarrow> acquire_args \<Rightarrow> FaultLease" where
  "pending_lease i agent created a =
     \<lparr>lease_id = i, lease_run_id = acq_run_id a, lease_fault_id = acq_fault_id a,
      owner_agent = agent, targets = acq_targets a, undo_ops = acq_undo a,
      verify_probes = acq_probes a, ttl = acq_ttl a, lease_state = L_PENDING,
      created_at = created, injected_at = None, released_at = None, release_mechanism = None,
      escalation_notes = None, lease_identity = acq_identity a, lease_resolved = acq_resolved a,
      epoch = acq_epoch a, served_at = None\<rparr>"

text \<open>\<open>_expire_quietly\<close>: every exception of the transition or the save is suppressed.\<close>

definition expire_quietly :: "'s LeaseSink \<Rightarrow> instant \<Rightarrow> FaultLease \<Rightarrow> 's \<Rightarrow> 's" where
  "expire_quietly K now l s =
     (case transition \<lparr>to_state = L_EXPIRED, trans_mechanism = Some ''past-ttl'',
                        trans_now = now, trans_notes = None\<rparr> l of
        Inl _ \<Rightarrow> s
      | Inr l' \<Rightarrow> (case sink_save K l' s of Inl _ \<Rightarrow> s | Inr s' \<Rightarrow> s'))"

fun reap_overlap ::
  "'s LeaseSink \<Rightarrow> instant \<Rightarrow> FaultLease list \<Rightarrow> 's \<Rightarrow> FaultLease list \<times> 's" where
  "reap_overlap K now [] s = ([], s)"
| "reap_overlap K now (x # xs) s =
     (if expires_at x < now then reap_overlap K now xs (expire_quietly K now x s)
      else (case reap_overlap K now xs s of (live, s') \<Rightarrow> (x # live, s')))"

lemma reap_overlap_Cons [simp]:
  "reap_overlap K now (x # xs) s =
     (if expires_at x < now then reap_overlap K now xs (expire_quietly K now x s)
      else (x # fst (reap_overlap K now xs s), snd (reap_overlap K now xs s)))"
  by (simp add: case_prod_beta)

declare reap_overlap.simps(2) [simp del]

text \<open>
  \<open>acquire\<close>. The clock is read twice: \<open>created\<close> by the default of the lease's \<open>created_at\<close>,
  \<open>now\<close> for the overlap scan. The sequence is advanced, and reaped leases stay reaped, also when
  the call raises.
\<close>

definition acquire ::
  "'s LeaseSink \<Rightarrow> instant \<Rightarrow> instant \<Rightarrow> acquire_args \<Rightarrow> 's LeaseClient
     \<Rightarrow> (py_error + FaultLease) \<times> 's LeaseClient" where
  "acquire K created now a c =
     (let c1 = c\<lparr>client_seq := client_seq c + 1\<rparr>
      in case validate_lease (pending_lease (lease_id_of (nat (client_seq c1))) (agent_id c) created a)
         of Inl e \<Rightarrow> (Inl e, c1)
          | Inr l \<Rightarrow>
            (let overlap = filter (\<lambda>x. targets x \<inter> acq_targets a \<noteq> {}) (sink_active K (sink_state c));
                 (live, s) = reap_overlap K now overlap (sink_state c);
                 c2 = c1\<lparr>sink_state := s\<rparr>
             in if live \<noteq> [] then (Inl (LeaseConflict (map lease_id live)), c2)
                else (case sink_save K l s of
                        Inl e \<Rightarrow> (Inl e, c2)
                      | Inr s' \<Rightarrow> (Inr l, c2\<lparr>sink_state := s'\<rparr>))))"

text \<open>
  \<open>activate\<close>, \<open>mark_releasing\<close>, \<open>confirm_release\<close>, \<open>mark_dirty\<close> and \<open>mark_orphaned\<close>
  are \<open>_require\<close>, one transition, one save.
\<close>

definition require_lease :: "'s LeaseSink \<Rightarrow> string \<Rightarrow> 's \<Rightarrow> py_error + FaultLease" where
  "require_lease K i s = (case sink_load K s i of None \<Rightarrow> Inl KeyErr | Some l \<Rightarrow> Inr l)"

definition advance_lease ::
  "'s LeaseSink \<Rightarrow> string \<Rightarrow> (FaultLease \<Rightarrow> transition_args) \<Rightarrow> 's
     \<Rightarrow> py_error + (FaultLease \<times> 's)" where
  "advance_lease K i args s =
     (case require_lease K i s of Inl e \<Rightarrow> Inl e
      | Inr l \<Rightarrow> (case transition (args l) l of Inl e \<Rightarrow> Inl e
                  | Inr l' \<Rightarrow> (case sink_save K l' s of Inl e \<Rightarrow> Inl e
                               | Inr s' \<Rightarrow> Inr (l', s'))))"

definition activate :: "'s LeaseSink \<Rightarrow> instant \<Rightarrow> string \<Rightarrow> 's \<Rightarrow> py_error + (FaultLease \<times> 's)" where
  "activate K now i = advance_lease K i
     (\<lambda>_. \<lparr>to_state = L_ACTIVE, trans_mechanism = None, trans_now = now, trans_notes = None\<rparr>)"

definition mark_releasing :: "'s LeaseSink \<Rightarrow> instant \<Rightarrow> string \<Rightarrow> 's \<Rightarrow> py_error + (FaultLease \<times> 's)" where
  "mark_releasing K now i = advance_lease K i
     (\<lambda>_. \<lparr>to_state = L_RELEASING, trans_mechanism = None, trans_now = now, trans_notes = None\<rparr>)"

definition confirm_release ::
  "'s LeaseSink \<Rightarrow> instant \<Rightarrow> string \<Rightarrow> string \<Rightarrow> 's \<Rightarrow> py_error + (FaultLease \<times> 's)" where
  "confirm_release K now mech i = advance_lease K i
     (\<lambda>_. \<lparr>to_state = L_RELEASED, trans_mechanism = Some mech, trans_now = now, trans_notes = None\<rparr>)"

definition mark_dirty ::
  "'s LeaseSink \<Rightarrow> instant \<Rightarrow> string \<Rightarrow> string \<Rightarrow> 's \<Rightarrow> py_error + (FaultLease \<times> 's)" where
  "mark_dirty K now n i = advance_lease K i
     (\<lambda>_. \<lparr>to_state = L_DIRTY, trans_mechanism = None, trans_now = now, trans_notes = Some n\<rparr>)"

definition mark_orphaned ::
  "'s LeaseSink \<Rightarrow> instant \<Rightarrow> string option \<Rightarrow> string \<Rightarrow> 's \<Rightarrow> py_error + (FaultLease \<times> 's)" where
  "mark_orphaned K now n i = advance_lease K i
     (\<lambda>l. \<lparr>to_state = L_ORPHANED, trans_mechanism = None, trans_now = now,
           trans_notes = Some (if truthy n then the n
                               else ''owner '' @ owner_agent l @ '' missed its heartbeat'')\<rparr>)"

section \<open>Ids are fresh\<close>

lemma py_int_lease_id: "py_int (drop 2 (lease_id_of n)) = Some (int n)"
proof -
  let ?cs = "replicate (8 - length (decimal n)) (CHR ''0'') @ decimal n"
  have "\<forall>c\<in>set ?cs. is_digit c"
    by (auto simp: is_digit_zero decimal_digits)
  then have "py_int ?cs = Some (digits_value 0 ?cs)"
    by (rule py_int_digits) simp
  also have "digits_value 0 ?cs = int n"
    by (simp add: digits_value_def) (metis digits_value_decimal digits_value_def digits_value_zeros)
  finally show ?thesis by (simp add: lease_id_of_def)
qed

lemma lease_id_of_inject [simp]: "lease_id_of m = lease_id_of n \<longleftrightarrow> m = n"
  by (metis py_int_lease_id of_nat_eq_iff option.inject)

lemma lease_id_of_prefix [simp]: "py_startswith (lease_id_of n) ''l-''"
  by (simp add: lease_id_of_def)

lemma seq_step_ge: "h \<le> seq_step k h"
  by (simp add: seq_step_def split: option.splits)

lemma fold_seq_step_ge: "h \<le> fold seq_step ks h"
  by (induction ks arbitrary: h) (auto intro: order_trans [OF seq_step_ge])

lemma fold_seq_step_member:
  "i \<in> set ks \<Longrightarrow> py_startswith i ''l-'' \<Longrightarrow> py_int (drop 2 i) = Some n \<Longrightarrow> n \<le> fold seq_step ks h"
proof (induction ks arbitrary: h)
  case Nil
  then show ?case by simp
next
  case (Cons k ks)
  show ?case
  proof (cases "i = k")
    case True
    with Cons.prems have "n \<le> seq_step k h" by (simp add: seq_step_def)
    also have "\<dots> \<le> fold seq_step ks (seq_step k h)" by (rule fold_seq_step_ge)
    finally show ?thesis by simp
  next
    case False
    with Cons show ?thesis by simp
  qed
qed

lemma mem_next_nonneg: "0 \<le> mem_next_sequence s"
  by (simp add: mem_next_sequence_def fold_seq_step_ge)

lemma mem_next_fresh:
  assumes "mem_next_sequence s < int n"
  shows "lease_id_of n \<notin> fst ` set s"
proof
  assume "lease_id_of n \<in> fst ` set s"
  then have "int n \<le> fold seq_step (map fst s) 0"
    by (intro fold_seq_step_member [of "lease_id_of n"]) (simp_all add: py_int_lease_id)
  with assms show False by (simp add: mem_next_sequence_def)
qed

section \<open>What the protocol promises\<close>

text \<open>
  The invariant of a lease that came from \<open>acquire\<close>: what validation checks, and the verify
  probes that reaching \<open>ORPHANED\<close> from \<open>ACTIVE\<close> carries along.
\<close>

definition lease_inv :: "FaultLease \<Rightarrow> bool" where
  "lease_inv l \<longleftrightarrow> lease_wf l \<and> (lease_state l = L_ORPHANED \<longrightarrow> verify_probes l \<noteq> [])"

lemma lease_inv_wf [simp]: "lease_inv l \<Longrightarrow> lease_wf l"
  by (simp add: lease_inv_def)

lemma transition_inv: "lease_inv l \<Longrightarrow> transition a l = Inr m \<Longrightarrow> lease_inv m"
  using transition_frame [of a l m] transition_wf [of a l m]
  by (cases "lease_state l") (auto simp: lease_inv_def lease_wf_def)

lemma pending_lease_inv: "py_startswith i ''l-'' \<Longrightarrow> 0 \<le> acq_ttl a \<Longrightarrow> lease_inv (pending_lease i ag t a)"
  by (simp add: lease_inv_def lease_wf_def pending_lease_def)

text \<open>
  A legal edge out of a lease of the system, apart from the two whose targets have preconditions
  of their own, always succeeds.
\<close>

lemma transition_succeeds:
  assumes "lease_inv l" "to_state a \<in> lease_transitions (lease_state l)" "dump_duration (ttl l) \<noteq> None"
    and "to_state a = L_ACTIVE \<Longrightarrow>
           undo_ops l \<noteq> [] \<and> verify_probes l \<noteq> [] \<and> created_at l \<le> trans_now a"
    and "to_state a = L_DIRTY \<Longrightarrow>
           truthy (case trans_notes a of None \<Rightarrow> escalation_notes l | Some n \<Rightarrow> Some n)"
  shows "\<exists>m. transition a l = Inr m"
proof -
  have rel: "released_at l = None"
    using assms(1,2) lease_wf_released [of l] by auto
  obtain u where u: "dump_duration (ttl l) = Some u" "0 \<le> u"
    using assms(3) dump_duration_nonneg by blast
  show ?thesis
    using assms rel u
    by (cases "lease_state l"; cases "trans_notes a")
      (auto simp: transition_def Let_def can_transition_def validate_lease_Inr_iff lease_inv_def
        lease_wf_def safe_terminals_def split: option.splits)
qed

locale lease_sink =
  fixes K :: "'s LeaseSink"
    and ok :: "'s \<Rightarrow> bool"
  assumes load_save: "ok s \<Longrightarrow> sink_save K l s = Inr s' \<Longrightarrow>
            sink_load K s' = (sink_load K s)(lease_id l \<mapsto> l)"
    and ok_save: "ok s \<Longrightarrow> lease_inv l \<Longrightarrow> sink_save K l s = Inr s' \<Longrightarrow> ok s'"
    and load_inv: "ok s \<Longrightarrow> sink_load K s i = Some l \<Longrightarrow> lease_id l = i \<and> lease_inv l"
    and active_iff: "ok s \<Longrightarrow> l \<in> set (sink_active K s) \<longleftrightarrow>
            sink_load K s (lease_id l) = Some l \<and> \<not> is_safe_terminal l"
    and active_distinct: "ok s \<Longrightarrow> distinct (map lease_id (sink_active K s))"
    and next_fresh: "ok s \<Longrightarrow> sink_next K s < int n \<Longrightarrow> sink_load K s (lease_id_of n) = None"
    and next_nonneg: "0 \<le> sink_next K s"
begin

lemma active_inv: "ok s \<Longrightarrow> l \<in> set (sink_active K s) \<Longrightarrow> lease_inv l"
  using active_iff load_inv by blast

lemma expire_quietly_cases:
  obtains "expire_quietly K now l s = s"
  | l' where "transition \<lparr>to_state = L_EXPIRED, trans_mechanism = Some ''past-ttl'',
                trans_now = now, trans_notes = None\<rparr> l = Inr l'"
      "sink_save K l' s = Inr (expire_quietly K now l s)"
proof (cases "transition \<lparr>to_state = L_EXPIRED, trans_mechanism = Some ''past-ttl'',
                trans_now = now, trans_notes = None\<rparr> l")
  case (Inl e)
  then show ?thesis using that(1) by (simp add: expire_quietly_def)
next
  case (Inr l')
  then show ?thesis
    using that by (cases "sink_save K l' s") (simp_all add: expire_quietly_def)
qed

lemma expire_quietly_ok:
  assumes "ok s" "lease_inv l"
  shows "ok (expire_quietly K now l s)"
  by (rule expire_quietly_cases [of now l s])
    (use assms in \<open>auto intro: ok_save transition_inv\<close>)

lemma expire_quietly_load:
  assumes "ok s" "sink_load K s (lease_id l) = Some l"
  shows "sink_load K (expire_quietly K now l s) i = sink_load K s i
     \<or> (i = lease_id l \<and> (\<exists>m. sink_load K (expire_quietly K now l s) i = Some m
                          \<and> lease_state m = L_EXPIRED))"
proof (rule expire_quietly_cases [of now l s])
  fix l'
  assume t: "transition \<lparr>to_state = L_EXPIRED, trans_mechanism = Some ''past-ttl'',
                trans_now = now, trans_notes = None\<rparr> l = Inr l'"
    and sv: "sink_save K l' s = Inr (expire_quietly K now l s)"
  have "lease_id l' = lease_id l" "lease_state l' = L_EXPIRED"
    using transition_frame [OF t] by simp_all
  then show ?thesis using load_save [OF assms(1) sv] by auto
qed simp

text \<open>
  The overlap scan returns the leases inside their TTL, and touches nothing but the others.
\<close>

lemma reap_live: "fst (reap_overlap K now xs s) = filter (\<lambda>x. now \<le> expires_at x) xs"
  by (induction xs arbitrary: s) auto

lemma reap_ok:
  assumes "ok s" "\<forall>x\<in>set xs. lease_inv x"
  shows "ok (snd (reap_overlap K now xs s))"
  using assms
  by (induction xs arbitrary: s) (auto simp: expire_quietly_ok)

lemma reap_load:
  assumes "ok s" "\<forall>x\<in>set xs. lease_inv x \<and> sink_load K s (lease_id x) = Some x"
    and "distinct (map lease_id xs)"
  shows "sink_load K (snd (reap_overlap K now xs s)) i = sink_load K s i
     \<or> (\<exists>x\<in>set xs. lease_id x = i \<and> expires_at x < now
          \<and> (\<exists>m. sink_load K (snd (reap_overlap K now xs s)) i = Some m
               \<and> lease_state m = L_EXPIRED))"
  using assms
proof (induction xs arbitrary: s)
  case Nil
  then show ?case by simp
next
  case (Cons x xs)
  show ?case
  proof (cases "expires_at x < now")
    case True
    let ?s = "expire_quietly K now x s"
    have ok: "ok ?s" using Cons.prems by (simp add: expire_quietly_ok)
    have ld: "sink_load K ?s j = sink_load K s j
        \<or> (j = lease_id x \<and> (\<exists>m. sink_load K ?s j = Some m \<and> lease_state m = L_EXPIRED))" for j
      using Cons.prems by (intro expire_quietly_load) auto
    have "\<forall>y\<in>set xs. lease_inv y \<and> sink_load K ?s (lease_id y) = Some y"
      using Cons.prems ld by (metis image_eqI list.set_intros(2) list.simps(9) distinct.simps(2) list.set_map)
    then have "sink_load K (snd (reap_overlap K now xs ?s)) i = sink_load K ?s i
     \<or> (\<exists>x\<in>set xs. lease_id x = i \<and> expires_at x < now
          \<and> (\<exists>m. sink_load K (snd (reap_overlap K now xs ?s)) i = Some m
               \<and> lease_state m = L_EXPIRED))"
      using Cons.prems(3) by (intro Cons.IH ok) auto
    then show ?thesis using ld [of i] True by auto
  next
    case False
    have "sink_load K (snd (reap_overlap K now xs s)) i = sink_load K s i
     \<or> (\<exists>x\<in>set xs. lease_id x = i \<and> expires_at x < now
          \<and> (\<exists>m. sink_load K (snd (reap_overlap K now xs s)) i = Some m
               \<and> lease_state m = L_EXPIRED))"
      using Cons.prems by (intro Cons.IH) auto
    with False show ?thesis by auto
  qed
qed

text \<open>A successful \<open>acquire\<close>, taken apart.\<close>

lemma acquire_Inr:
  assumes "acquire K created now a c = (Inr l, c')" "ok (sink_state c)"
  defines "s1 \<equiv> snd (reap_overlap K now
             (filter (\<lambda>x. targets x \<inter> acq_targets a \<noteq> {}) (sink_active K (sink_state c)))
             (sink_state c))"
  shows "l = pending_lease (lease_id_of (nat (client_seq c + 1))) (agent_id c) created a"
    and "sink_save K l s1 = Inr (sink_state c')"
    and "ok s1" and "ok (sink_state c')" and "lease_inv l"
    and "client_seq c' = client_seq c + 1" and "agent_id c' = agent_id c"
    and "\<forall>x\<in>set (sink_active K (sink_state c)).
           targets x \<inter> acq_targets a \<noteq> {} \<longrightarrow> expires_at x < now"
proof -
  let ?l = "pending_lease (lease_id_of (nat (client_seq c + 1))) (agent_id c) created a"
  let ?ov = "filter (\<lambda>x. targets x \<inter> acq_targets a \<noteq> {}) (sink_active K (sink_state c))"
  have "validate_lease ?l \<noteq> Inl e" for e
    using assms(1) by (auto simp: acquire_def Let_def)
  then have "lease_wf ?l"
    by (cases "validate_lease ?l") (auto simp: validate_lease_Inr_iff)
  then have inv: "lease_inv ?l" by (simp add: lease_inv_def pending_lease_def)
  then have val: "validate_lease ?l = Inr ?l" by (simp add: validate_lease_wf)
  have live: "fst (reap_overlap K now ?ov (sink_state c)) = []"
    using assms(1) val
    by (auto simp: acquire_def Let_def case_prod_beta split: if_splits sum.splits)
  then show "\<forall>x\<in>set (sink_active K (sink_state c)).
           targets x \<inter> acq_targets a \<noteq> {} \<longrightarrow> expires_at x < now"
    by (auto simp: reap_live filter_empty_conv)
  from assms(1) val live
  show l: "l = ?l" and sv: "sink_save K l s1 = Inr (sink_state c')"
    and "client_seq c' = client_seq c + 1" and "agent_id c' = agent_id c"
    by (auto simp: acquire_def Let_def case_prod_beta s1_def split: sum.splits)
  show "ok s1"
    unfolding s1_def using assms(2) active_inv by (intro reap_ok) auto
  then show "ok (sink_state c')" using inv l sv ok_save by blast
  show "lease_inv l" using inv l by simp
qed

lemma acquire_state:
  assumes "acquire K created now a c = (Inr l, c')" "ok (sink_state c)"
  shows "sink_load K (sink_state c') i =
           (if i = lease_id l then Some l else
            sink_load K (snd (reap_overlap K now
             (filter (\<lambda>x. targets x \<inter> acq_targets a \<noteq> {}) (sink_active K (sink_state c)))
             (sink_state c))) i)"
  using load_save [OF acquire_Inr(3,2) [OF assms]] by simp

text \<open>
  Exclusion: after a successful \<open>acquire\<close>, every other lease that still holds one of the
  targets is past its TTL.
\<close>

lemma acquire_exclusive:
  assumes acq: "acquire K created now a c = (Inr l, c')" and ok: "ok (sink_state c)"
    and m: "m \<in> set (sink_active K (sink_state c'))" "m \<noteq> l"
    and share: "targets m \<inter> targets l \<noteq> {}"
  shows "expires_at m < now \<and> m \<in> set (sink_active K (sink_state c))"
proof -
  let ?ov = "filter (\<lambda>x. targets x \<inter> acq_targets a \<noteq> {}) (sink_active K (sink_state c))"
  let ?s = "snd (reap_overlap K now ?ov (sink_state c))"
  note A = acquire_Inr [OF acq ok]
  have tg: "targets l = acq_targets a" using A(1) by (simp add: pending_lease_def)
  have ml: "sink_load K (sink_state c') (lease_id m) = Some m" "\<not> is_safe_terminal m"
    using m(1) active_iff A(4) by auto
  have "lease_id m \<noteq> lease_id l" using ml(1) m(2) acquire_state [OF acq ok] by auto
  then have ms: "sink_load K ?s (lease_id m) = Some m"
    using ml(1) acquire_state [OF acq ok] by simp
  have "\<forall>x\<in>set ?ov. lease_inv x \<and> sink_load K (sink_state c) (lease_id x) = Some x"
    using ok active_iff active_inv by auto
  moreover have "distinct (map lease_id ?ov)"
    using active_distinct [OF ok] by (rule distinct_map_filter)
  ultimately have "sink_load K ?s (lease_id m) = sink_load K (sink_state c) (lease_id m)"
    using reap_load [OF ok, of ?ov now "lease_id m"] ms ml(2)
    by (auto simp: is_safe_terminal_def safe_terminals_def)
  then have "m \<in> set (sink_active K (sink_state c))"
    using active_iff [OF ok] ms ml(2) by simp
  with A(8) share tg show ?thesis by auto
qed

end

text \<open>A provider whose writes do not fail.\<close>

locale reliable_sink = lease_sink K ok for K :: "'s LeaseSink" and ok :: "'s \<Rightarrow> bool" +
  assumes save_total: "\<exists>s'. sink_save K l s = Inr s'"
begin

lemma expire_quietly_expires:
  assumes "ok s" "lease_inv l" "lease_state l \<in> {L_PENDING, L_ACTIVE, L_DIRTY}"
    and "dump_duration (ttl l) \<noteq> None"
  shows "\<exists>m. sink_load K (expire_quietly K now l s) (lease_id l) = Some m \<and> lease_state m = L_EXPIRED"
proof -
  let ?a = "\<lparr>to_state = L_EXPIRED, trans_mechanism = Some ''past-ttl'', trans_now = now, trans_notes = None\<rparr>"
  have "\<exists>m. transition ?a l = Inr m"
    using assms by (intro transition_succeeds) auto
  then obtain m where m: "transition ?a l = Inr m" by blast
  obtain s' where s': "sink_save K m s = Inr s'" using save_total by blast
  have "expire_quietly K now l s = s'" by (simp add: expire_quietly_def m s')
  moreover have "sink_load K s' (lease_id l) = Some m"
    using load_save [OF assms(1) s'] transition_frame [OF m] by simp
  ultimately show ?thesis using transition_frame [OF m] by auto
qed

lemma reap_expires:
  assumes "ok s" "\<forall>x\<in>set xs. lease_inv x \<and> sink_load K s (lease_id x) = Some x"
    and "distinct (map lease_id xs)" "x \<in> set xs" "expires_at x < now"
    and "lease_state x \<in> {L_PENDING, L_ACTIVE, L_DIRTY}" "dump_duration (ttl x) \<noteq> None"
  shows "\<exists>m. sink_load K (snd (reap_overlap K now xs s)) (lease_id x) = Some m
             \<and> lease_state m = L_EXPIRED"
  using assms
proof (induction xs arbitrary: s)
  case Nil
  then show ?case by simp
next
  case (Cons y ys)
  let ?s = "if expires_at y < now then expire_quietly K now y s else s"
  have ok': "ok ?s" using Cons.prems by (simp add: expire_quietly_ok)
  have ld: "sink_load K ?s (lease_id z) = Some z" if "z \<in> set ys" for z
    using Cons.prems that expire_quietly_load [of s y now "lease_id z"] by fastforce
  have step: "snd (reap_overlap K now (y # ys) s) = snd (reap_overlap K now ys ?s)" by simp
  show ?case
  proof (cases "x = y")
    case True
    have pre: "\<forall>z\<in>set ys. lease_inv z \<and> sink_load K ?s (lease_id z) = Some z"
      using Cons.prems ld by auto
    have "lease_id x \<notin> lease_id ` set ys" using True Cons.prems by simp
    then have "sink_load K (snd (reap_overlap K now ys ?s)) (lease_id x) = sink_load K ?s (lease_id x)"
      using reap_load [OF ok' pre, of now "lease_id x"] Cons.prems(3) by (metis distinct.simps(2) image_eqI list.simps(9))
    moreover have "\<exists>m. sink_load K ?s (lease_id x) = Some m \<and> lease_state m = L_EXPIRED"
      using True Cons.prems expire_quietly_expires [of s x now] by auto
    ultimately show ?thesis unfolding step by metis
  next
    case False
    then show ?thesis
      unfolding step using Cons.prems ld by (intro Cons.IH ok') auto
  qed
qed

lemma acquire_exclusive_reliable:
  assumes acq: "acquire K created now a c = (Inr l, c')" and ok: "ok (sink_state c)"
    and m: "m \<in> set (sink_active K (sink_state c'))" "m \<noteq> l"
    and share: "targets m \<inter> targets l \<noteq> {}"
  shows "expires_at m < now
    \<and> (lease_state m \<in> {L_ORPHANED, L_RELEASING} \<or> dump_duration (ttl m) = None)"
proof -
  let ?ov = "filter (\<lambda>x. targets x \<inter> acq_targets a \<noteq> {}) (sink_active K (sink_state c))"
  let ?s = "snd (reap_overlap K now ?ov (sink_state c))"
  note A = acquire_Inr [OF acq ok]
  note E = acquire_exclusive [OF acq ok m share]
  have tg: "targets l = acq_targets a" using A(1) by (simp add: pending_lease_def)
  have ml: "sink_load K (sink_state c') (lease_id m) = Some m" "\<not> is_safe_terminal m"
    using m(1) active_iff A(4) by auto
  then have ne: "lease_id m \<noteq> lease_id l" using m(2) acquire_state [OF acq ok] by auto
  have ms: "sink_load K ?s (lease_id m) = Some m"
    using ne ml(1) acquire_state [OF acq ok] by simp
  have pre: "\<forall>x\<in>set ?ov. lease_inv x \<and> sink_load K (sink_state c) (lease_id x) = Some x"
    using ok active_iff active_inv by auto
  have dist: "distinct (map lease_id ?ov)"
    using active_distinct [OF ok] by (rule distinct_map_filter)
  have "m \<in> set ?ov" using E share tg by auto
  have "lease_state m \<notin> {L_PENDING, L_ACTIVE, L_DIRTY}" if "dump_duration (ttl m) \<noteq> None"
  proof
    assume "lease_state m \<in> {L_PENDING, L_ACTIVE, L_DIRTY}"
    with that obtain x where "sink_load K ?s (lease_id m) = Some x" "lease_state x = L_EXPIRED"
      using reap_expires [OF ok pre dist \<open>m \<in> set ?ov\<close>] E by blast
    with ms ml(2) show False by (auto simp: is_safe_terminal_def safe_terminals_def)
  qed
  then have "lease_state m \<in> {L_ORPHANED, L_RELEASING} \<or> dump_duration (ttl m) = None"
    using ml(2) by (cases "lease_state m"; cases "dump_duration (ttl m)") (auto simp: is_safe_terminal_def safe_terminals_def)
  with E show ?thesis by simp
qed

end

section \<open>The in-memory sink keeps the promises\<close>

definition mem_ok :: "lease_dict \<Rightarrow> bool" where
  "mem_ok s \<longleftrightarrow> distinct (map fst s) \<and> (\<forall>(i, l)\<in>set s. lease_id l = i \<and> lease_inv l)"

lemma mem_sink_simps [simp]:
  "sink_save mem_sink l s = Inr (AList.update (lease_id l) l s)"
  "sink_load mem_sink s i = map_of s i"
  "sink_active mem_sink s = filter (\<lambda>l. \<not> is_safe_terminal l) (map snd s)"
  "sink_next mem_sink s = mem_next_sequence s"
  by (simp_all add: mem_sink_def mem_save_def mem_load_def mem_active_def)

lemma mem_ok_entry: "mem_ok s \<Longrightarrow> (i, l) \<in> set s \<Longrightarrow> lease_id l = i \<and> lease_inv l"
  by (auto simp: mem_ok_def)

lemma set_alist_update: "set (AList.update k v xs) \<subseteq> insert (k, v) (set xs)"
  by (induction xs) auto

lemma mem_ok_update: "mem_ok s \<Longrightarrow> lease_inv l \<Longrightarrow> mem_ok (AList.update (lease_id l) l s)"
  using set_alist_update [of "lease_id l" l s]
  by (auto simp: mem_ok_def distinct_update)

lemma mem_ok_ids: "mem_ok s \<Longrightarrow> map (lease_id \<circ> snd) s = map fst s"
  by (rule map_cong [OF refl]) (auto simp: mem_ok_def)

lemma mem_member_iff: "mem_ok s \<Longrightarrow> l \<in> snd ` set s \<longleftrightarrow> map_of s (lease_id l) = Some l"
  by (force simp: mem_ok_def)

interpretation mem: reliable_sink mem_sink mem_ok
proof unfold_locales
  fix s l s' i n
  show "mem_ok s \<Longrightarrow> sink_save mem_sink l s = Inr s' \<Longrightarrow>
      sink_load mem_sink s' = (sink_load mem_sink s)(lease_id l \<mapsto> l)"
    by (auto simp: update_conv)
  show "mem_ok s \<Longrightarrow> lease_inv l \<Longrightarrow> sink_save mem_sink l s = Inr s' \<Longrightarrow> mem_ok s'"
    by (auto simp: mem_ok_update)
  show "mem_ok s \<Longrightarrow> sink_load mem_sink s i = Some l \<Longrightarrow> lease_id l = i \<and> lease_inv l"
    using mem_ok_entry map_of_SomeD by fastforce
  show "mem_ok s \<Longrightarrow> l \<in> set (sink_active mem_sink s) \<longleftrightarrow>
      sink_load mem_sink s (lease_id l) = Some l \<and> \<not> is_safe_terminal l"
    using mem_member_iff [of s l] by auto
  show "mem_ok s \<Longrightarrow> distinct (map lease_id (sink_active mem_sink s))"
    by (simp, rule distinct_map_filter) (simp add: mem_ok_ids, simp add: mem_ok_def)
  show "mem_ok s \<Longrightarrow> sink_next mem_sink s < int n \<Longrightarrow> sink_load mem_sink s (lease_id_of n) = None"
    by (simp add: mem_next_fresh map_of_eq_None_iff)
  show "0 \<le> sink_next mem_sink s"
    by (simp add: mem_next_nonneg)
  show "\<exists>s'. sink_save mem_sink l s = Inr s'"
    by simp
qed

end
