(* ===== verification/Lease_Runs.thy ===== *)
theory Lease_Runs
  imports Lease_Client
begin

text \<open>
  Whole runs of a lease client over a sink, and the properties of the lease state machine and of
  the client: when a transition succeeds, what a RELEASED lease proves, and mutual exclusion of
  live leases on a target.
\<close>

section \<open>Runs of one client\<close>

text \<open>
  The commands of a client, with the clock readings each makes; \<open>client_exec\<close> performs one and
  returns the client as the call leaves it, whether it returned or raised.
\<close>

datatype client_cmd =
    Acquire instant instant acquire_args
  | Activate instant string
  | MarkReleasing instant string
  | ConfirmRelease instant string string
  | MarkDirty instant string string
  | MarkOrphaned instant "string option" string

definition keep_state :: "'s LeaseClient \<Rightarrow> py_error + (FaultLease \<times> 's) \<Rightarrow> 's LeaseClient" where
  "keep_state c r = (case r of Inl _ \<Rightarrow> c | Inr (_, s) \<Rightarrow> c\<lparr>sink_state := s\<rparr>)"

fun client_exec :: "'s LeaseSink \<Rightarrow> client_cmd \<Rightarrow> 's LeaseClient \<Rightarrow> 's LeaseClient" where
  "client_exec K (Acquire created now a) c = snd (acquire K created now a c)"
| "client_exec K (Activate now i) c = keep_state c (activate K now i (sink_state c))"
| "client_exec K (MarkReleasing now i) c = keep_state c (mark_releasing K now i (sink_state c))"
| "client_exec K (ConfirmRelease now m i) c = keep_state c (confirm_release K now m i (sink_state c))"
| "client_exec K (MarkDirty now n i) c = keep_state c (mark_dirty K now n i (sink_state c))"
| "client_exec K (MarkOrphaned now n i) c = keep_state c (mark_orphaned K now n i (sink_state c))"

fun cmd_now :: "client_cmd \<Rightarrow> instant" where
  "cmd_now (Acquire created now a) = now"
| "cmd_now (Activate now i) = now"
| "cmd_now (MarkReleasing now i) = now"
| "cmd_now (ConfirmRelease now m i) = now"
| "cmd_now (MarkDirty now n i) = now"
| "cmd_now (MarkOrphaned now n i) = now"

text \<open>
  A run from a fresh client, under a clock that does not go backwards, whose leases ask for a TTL
  that survives the text round trip of a transition.
\<close>

fun stable_cmd :: "client_cmd \<Rightarrow> bool" where
  "stable_cmd (Acquire created now a) = duration_stable (acq_ttl a)"
| "stable_cmd _ = True"

inductive client_run :: "'s LeaseSink \<Rightarrow> 's LeaseClient \<Rightarrow> instant \<Rightarrow> 's LeaseClient \<Rightarrow> bool"
  for K :: "'s LeaseSink" and c0 :: "'s LeaseClient" where
  start: "client_run K c0 t c0"
| step: "client_run K c0 t c \<Longrightarrow> t \<le> cmd_now cmd \<Longrightarrow> stable_cmd cmd \<Longrightarrow>
         client_run K c0 (cmd_now cmd) (client_exec K cmd c)"

text \<open>No two leases inside their TTL hold a common target.\<close>

definition exclusive_at :: "'s LeaseSink \<Rightarrow> instant \<Rightarrow> 's \<Rightarrow> bool" where
  "exclusive_at K t s \<longleftrightarrow>
     (\<forall>x\<in>set (sink_active K s). \<forall>y\<in>set (sink_active K s).
        lease_id x \<noteq> lease_id y \<longrightarrow> targets x \<inter> targets y \<noteq> {} \<longrightarrow>
        expires_at x < t \<or> expires_at y < t)"

definition ttls_stable :: "'s LeaseSink \<Rightarrow> 's \<Rightarrow> bool" where
  "ttls_stable K s \<longleftrightarrow> (\<forall>x\<in>set (sink_active K s). duration_stable (ttl x))"

definition ids_below :: "'s LeaseSink \<Rightarrow> int \<Rightarrow> 's \<Rightarrow> bool" where
  "ids_below K n s \<longleftrightarrow> (\<forall>k. n < int k \<longrightarrow> sink_load K s (lease_id_of k) = None)"

lemma exclusive_at_mono: "exclusive_at K t s \<Longrightarrow> t \<le> t' \<Longrightarrow> exclusive_at K t' s"
  unfolding exclusive_at_def by (meson order_less_le_trans)

context lease_sink
begin

lemma reap_active:
  assumes "ok s" "\<forall>x\<in>set xs. lease_inv x \<and> sink_load K s (lease_id x) = Some x"
    and "distinct (map lease_id xs)"
  shows "set (sink_active K (snd (reap_overlap K now xs s))) \<subseteq> set (sink_active K s)"
proof
  fix m
  assume m: "m \<in> set (sink_active K (snd (reap_overlap K now xs s)))"
  have ok': "ok (snd (reap_overlap K now xs s))" using assms by (intro reap_ok) auto
  have ld: "sink_load K (snd (reap_overlap K now xs s)) (lease_id m) = Some m" "\<not> is_safe_terminal m"
    using m active_iff [OF ok'] by auto
  then show "m \<in> set (sink_active K s)"
    using reap_load [OF assms, of now "lease_id m"] active_iff [OF assms(1), of m]
    by (auto simp: is_safe_terminal_def safe_terminals_def)
qed

lemma reap_fresh:
  assumes "ok s" "\<forall>x\<in>set xs. lease_inv x \<and> sink_load K s (lease_id x) = Some x"
    and "distinct (map lease_id xs)" "sink_load K s i = None"
  shows "sink_load K (snd (reap_overlap K now xs s)) i = None"
  using reap_load [OF assms(1-3), of now i] assms(2,4) by fastforce

lemma overlap_ready:
  assumes "ok s"
  shows "\<forall>x\<in>set (filter P (sink_active K s)). lease_inv x \<and> sink_load K s (lease_id x) = Some x"
    and "distinct (map lease_id (filter P (sink_active K s)))"
proof -
  show "\<forall>x\<in>set (filter P (sink_active K s)). lease_inv x \<and> sink_load K s (lease_id x) = Some x"
    using active_iff [OF assms] active_inv [OF assms] by simp
  show "distinct (map lease_id (filter P (sink_active K s)))"
    by (rule distinct_map_filter [OF active_distinct [OF assms]])
qed

lemma acquire_Inl:
  assumes acq: "acquire K created now a c = (Inl e, c')" and ok: "ok (sink_state c)"
  shows "client_seq c' = client_seq c + 1 \<and> agent_id c' = agent_id c \<and> (sink_state c' = sink_state c
     \<or> sink_state c' = snd (reap_overlap K now
             (filter (\<lambda>x. targets x \<inter> acq_targets a \<noteq> {}) (sink_active K (sink_state c)))
             (sink_state c)))"
  using acq
  unfolding acquire_def Let_def case_prod_beta
  by (simp split: if_splits sum.splits) auto

lemma save_active:
  assumes "ok s" "ok s'" "sink_save K l s = Inr s'"
  shows "set (sink_active K s') \<subseteq> insert l (set (sink_active K s))"
proof
  fix x
  assume x: "x \<in> set (sink_active K s')"
  then have "sink_load K s' (lease_id x) = Some x" "\<not> is_safe_terminal x"
    using active_iff [OF assms(2), of x] by simp_all
  then show "x \<in> insert l (set (sink_active K s))"
    unfolding load_save [OF assms(1,3)] fun_upd_apply insert_iff active_iff [OF assms(1)]
    by (metis option.inject)
qed

lemma acquire_keeps_exclusive:
  assumes ok: "ok (sink_state c)" and ex: "exclusive_at K t (sink_state c)" and t: "t \<le> now"
    and st: "ttls_stable K (sink_state c)" "duration_stable (acq_ttl a)"
  shows "ok (sink_state (snd (acquire K created now a c)))
    \<and> exclusive_at K now (sink_state (snd (acquire K created now a c)))
    \<and> ttls_stable K (sink_state (snd (acquire K created now a c)))"
proof -
  obtain r c' where acq: "acquire K created now a c = (r, c')" by force
  let ?ov = "filter (\<lambda>x. targets x \<inter> acq_targets a \<noteq> {}) (sink_active K (sink_state c))"
  let ?s = "snd (reap_overlap K now ?ov (sink_state c))"
  note ready = overlap_ready [OF ok, of "\<lambda>x. targets x \<inter> acq_targets a \<noteq> {}"]
  have ok1: "ok ?s" using ready ok by (intro reap_ok) auto
  have sub: "set (sink_active K ?s) \<subseteq> set (sink_active K (sink_state c))"
    by (rule reap_active [OF ok ready])
  have ex': "exclusive_at K now (sink_state c)" by (rule exclusive_at_mono [OF ex t])
  have ex1: "exclusive_at K now ?s"
    using ex' sub unfolding exclusive_at_def by blast
  have st1: "ttls_stable K ?s"
    using st(1) sub unfolding ttls_stable_def by blast
  show ?thesis
  proof (cases r)
    case (Inl e)
    then show ?thesis using acquire_Inl [of created now a c e c'] acq ok ok1 ex' ex1 st st1 by auto
  next
    case (Inr l)
    note A = acquire_Inr [OF acq [unfolded Inr] ok]
    have act: "set (sink_active K (sink_state c')) \<subseteq> insert l (set (sink_active K ?s))"
      by (rule save_active [OF A(3,4,2)])
    have "expires_at m < now"
      if "m \<in> set (sink_active K (sink_state c'))" "lease_id m \<noteq> lease_id l" "targets m \<inter> targets l \<noteq> {}" for m
      using acquire_exclusive [OF acq [unfolded Inr] ok that(1) _ that(3)] that(2) by auto
    then have "exclusive_at K now (sink_state c')"
      using ex1 act unfolding exclusive_at_def by (smt (verit) Int_commute insert_iff subset_iff)
    moreover have "ttls_stable K (sink_state c')"
      using st1 act st(2) A(1) unfolding ttls_stable_def by (auto simp: pending_lease_def)
    ultimately show ?thesis using acq A(4) by simp
  qed
qed

lemma advance_Inr:
  assumes "advance_lease K i args s = Inr (m, s')"
  obtains l where "sink_load K s i = Some l" "transition (args l) l = Inr m" "sink_save K m s = Inr s'"
  using assms
  by (auto simp: advance_lease_def require_lease_def split: option.splits sum.splits)

lemma advance_keeps:
  assumes ok: "ok s" and adv: "advance_lease K i args s = Inr (m, s')"
  shows "ok s' \<and> sink_load K s' = (sink_load K s)(i \<mapsto> m)
     \<and> (\<exists>l. sink_load K s i = Some l \<and> transition (args l) l = Inr m \<and> lease_inv m \<and> lease_id m = i)"
proof -
  obtain l where l: "sink_load K s i = Some l" "transition (args l) l = Inr m" "sink_save K m s = Inr s'"
    by (rule advance_Inr [OF adv])
  have "lease_id l = i" "lease_inv l" using load_inv [OF ok l(1)] by auto
  then have m: "lease_id m = i" "lease_inv m"
    using transition_frame [OF l(2)] transition_inv [OF _ l(2)] by auto
  show ?thesis
    using load_save [OF ok l(3)] ok_save [OF ok m(2) l(3)] l m by auto
qed

lemma non_terminal_before:
  "transition a l = Inr m \<Longrightarrow> \<not> is_safe_terminal l"
  using transition_frame [of a l m]
  by (cases "lease_state l") (auto simp: is_safe_terminal_def safe_terminals_def)

lemma advance_exclusive:
  assumes ok: "ok s" and adv: "advance_lease K i args s = Inr (m, s')" and ex: "exclusive_at K t s"
    and st: "ttls_stable K s"
  shows "exclusive_at K t s' \<and> ttls_stable K s'"
proof -
  obtain l where l: "sink_load K s i = Some l" "transition (args l) l = Inr m" "sink_save K m s = Inr s'"
    by (rule advance_Inr [OF adv])
  have ok': "ok s'" using advance_keeps [OF ok adv] by simp
  have id: "lease_id l = i" using load_inv [OF ok l(1)] by simp
  have la: "l \<in> set (sink_active K s)"
    using active_iff [OF ok, of l] l(1) id non_terminal_before [OF l(2)] by simp
  have "ttl m = ttl l"
    using transition_frame(7) [OF l(2)] st la by (auto simp: ttls_stable_def duration_stable_def)
  then have same: "lease_id m = lease_id l" "targets m = targets l" "expires_at m = expires_at l"
    "ttl m = ttl l"
    using transition_frame [OF l(2)] by (auto simp: expires_at_def)
  have sub: "set (sink_active K s') \<subseteq> insert m (set (sink_active K s))"
    by (rule save_active [OF ok ok' l(3)])
  have old: "\<exists>x'\<in>set (sink_active K s). lease_id x' = lease_id x \<and> targets x' = targets x
      \<and> expires_at x' = expires_at x" if "x \<in> set (sink_active K s')" for x
    using sub that la same by (metis insertE subsetD)
  have "ttls_stable K s'"
    using sub st la same(4) unfolding ttls_stable_def by auto
  moreover have "exclusive_at K t s'"
    unfolding exclusive_at_def
  proof (intro ballI impI)
    fix x y
    assume x: "x \<in> set (sink_active K s')" and y: "y \<in> set (sink_active K s')"
      and d: "lease_id x \<noteq> lease_id y" "targets x \<inter> targets y \<noteq> {}"
    obtain x' y' where "x' \<in> set (sink_active K s)" "y' \<in> set (sink_active K s)"
      "lease_id x' = lease_id x" "targets x' = targets x" "expires_at x' = expires_at x"
      "lease_id y' = lease_id y" "targets y' = targets y" "expires_at y' = expires_at y"
      using old [OF x] old [OF y] by auto
    then show "expires_at x < t \<or> expires_at y < t"
      using ex d unfolding exclusive_at_def by metis
  qed
  ultimately show ?thesis by simp
qed

lemma client_exec_advance:
  assumes "\<nexists>created now a. cmd = Acquire created now a"
  obtains i args where "client_exec K cmd c = keep_state c (advance_lease K i args (sink_state c))"
  using assms
  by (cases cmd) (auto simp: activate_def mark_releasing_def confirm_release_def mark_dirty_def
      mark_orphaned_def)

definition client_ok :: "instant \<Rightarrow> 's LeaseClient \<Rightarrow> bool" where
  "client_ok t c \<longleftrightarrow> ok (sink_state c) \<and> exclusive_at K t (sink_state c)
     \<and> ttls_stable K (sink_state c)
     \<and> 0 \<le> client_seq c \<and> ids_below K (client_seq c) (sink_state c)"

lemma acquire_ids:
  assumes ok: "ok (sink_state c)" and ids: "ids_below K (client_seq c) (sink_state c)"
    and seq: "0 \<le> client_seq c"
  shows "ids_below K (client_seq c + 1) (sink_state (snd (acquire K created now a c)))
     \<and> client_seq (snd (acquire K created now a c)) = client_seq c + 1"
proof -
  obtain r c' where acq: "acquire K created now a c = (r, c')" by force
  let ?ov = "filter (\<lambda>x. targets x \<inter> acq_targets a \<noteq> {}) (sink_active K (sink_state c))"
  let ?s = "snd (reap_overlap K now ?ov (sink_state c))"
  note ready = overlap_ready [OF ok, of "\<lambda>x. targets x \<inter> acq_targets a \<noteq> {}"]
  have fresh: "sink_load K ?s (lease_id_of k) = None" if "client_seq c < int k" for k
    using ids that by (intro reap_fresh [OF ok ready]) (simp add: ids_below_def)
  show ?thesis
  proof (cases r)
    case (Inl e)
    have "client_seq c' = client_seq c + 1" "sink_state c' = sink_state c \<or> sink_state c' = ?s"
      using acquire_Inl [OF acq [unfolded Inl] ok] by auto
    then show ?thesis using acq fresh ids by (auto simp: ids_below_def)
  next
    case (Inr l)
    note A = acquire_Inr [OF acq [unfolded Inr] ok]
    have "lease_id l = lease_id_of (nat (client_seq c + 1))"
      using A(1) by (simp add: pending_lease_def)
    moreover have "sink_load K (sink_state c') (lease_id_of k) = None" if "client_seq c + 1 < int k" for k
      using that seq fresh [of k] calculation
      by (subst acquire_state [OF acq [unfolded Inr] ok]) auto
    ultimately show ?thesis using acq A(6) by (simp add: ids_below_def)
  qed
qed

lemma client_ok_step:
  assumes "client_ok t c" "t \<le> cmd_now cmd" "stable_cmd cmd"
  shows "client_ok (cmd_now cmd) (client_exec K cmd c)"
proof (cases "\<exists>created now a. cmd = Acquire created now a")
  case True
  then obtain created now a where cmd: "cmd = Acquire created now a" by blast
  show ?thesis
    using assms acquire_keeps_exclusive [of c t now a created] acquire_ids [of c created now a]
    by (simp add: cmd client_ok_def)
next
  case False
  then obtain i args where ex: "client_exec K cmd c = keep_state c (advance_lease K i args (sink_state c))"
    using client_exec_advance [of cmd c] by blast
  have ok: "ok (sink_state c)" and ids: "ids_below K (client_seq c) (sink_state c)"
    and exc: "exclusive_at K (cmd_now cmd) (sink_state c)" and st: "ttls_stable K (sink_state c)"
    using assms exclusive_at_mono by (auto simp: client_ok_def)
  show ?thesis
  proof (cases "advance_lease K i args (sink_state c)")
    case (Inl e)
    then show ?thesis using assms exc ex by (simp add: keep_state_def client_ok_def)
  next
    case (Inr r)
    obtain m s' where r: "r = (m, s')" by force
    note adv = Inr [unfolded r]
    have kp: "ok s'" "sink_load K s' = (sink_load K (sink_state c))(i \<mapsto> m)"
      "sink_load K (sink_state c) i \<noteq> None"
      using advance_keeps [OF ok adv] by auto
    have "ids_below K (client_seq c) s'"
      unfolding ids_below_def
    proof (intro allI impI)
      fix k
      assume "client_seq c < int k"
      then have "sink_load K (sink_state c) (lease_id_of k) = None"
        using ids by (simp add: ids_below_def)
      with kp(2,3) show "sink_load K s' (lease_id_of k) = None" by auto
    qed
    with kp(1) advance_exclusive [OF ok adv exc st] assms(1) adv show ?thesis
      by (simp add: ex keep_state_def client_ok_def r)
  qed
qed

lemma client_run_ok:
  assumes "client_run K c0 t c" "client_ok t0 c0" "\<And>u. exclusive_at K u (sink_state c0)"
  shows "client_ok t c"
  using assms
proof (induction rule: client_run.induct)
  case (start t)
  then show ?case by (simp add: client_ok_def)
next
  case (step t c cmd)
  then show ?case by (simp add: client_ok_step)
qed

end

section \<open>A concrete client\<close>

definition demo_undo :: "UndoOp list" where
  "demo_undo = [\<lparr>op = ''tc.del'', undo_args = [(''dev'', ''eth0'')], idempotent = True\<rparr>]"

definition demo_probes :: "VerifyProbe list" where
  "demo_probes = [\<lparr>probe = ''tc.absent'', probe_args = [(''dev'', PyStr ''eth0'')], expect_present = False\<rparr>]"

definition demo_args :: "string set \<Rightarrow> duration \<Rightarrow> acquire_args" where
  "demo_args ts d =
     \<lparr>acq_run_id = ''r-1'', acq_fault_id = ''net.delay'', acq_targets = ts, acq_undo = demo_undo,
      acq_probes = demo_probes, acq_ttl = d, acq_identity = None,
      acq_resolved = Some (ResolvedPod \<lparr>pod_namespace = ''default'', pod_name = ''web-0'',
        pod_container = ''app'', pod_uid = ''u'', pod_container_id = [], pod_node = ''n1'',
        pod_labels = [(''app'', ''web'')], pod_action = [], exec_argv = [''tc'', ''qdisc'']\<rparr>),
      acq_epoch = 3\<rparr>"

definition demo_client :: "lease_dict LeaseClient" where
  "demo_client = client_init mem_sink ''ag-1'' []"

section \<open>Properties of the lease state machine\<close>

text \<open>
  When a transition succeeds. On a lease the program can hold, \<open>transition\<close> returns a lease
  exactly when the table has the edge, the TTL survives the dump, and the target state's own
  precondition holds: undo operations, probes and an unskewed clock for ACTIVE, probes for
  RELEASING, notes for DIRTY. In every other case it raises.
\<close>

theorem transition_iff_ready:
  assumes "lease_inv l"
  shows "(\<exists>m. transition a l = Inr m) \<longleftrightarrow> transition_ready a l"
proof
  assume "transition_ready a l"
  then show "\<exists>m. transition a l = Inr m"
    using assms by (intro transition_succeeds) (auto simp: transition_ready_def)
next
  assume "\<exists>m. transition a l = Inr m"
  then obtain m where m: "transition a l = Inr m" by blast
  show "transition_ready a l"
    using transition_wf [OF m] transition_frame [OF m] transition_marks [OF m]
    by (auto simp: transition_ready_def lease_wf_def)
qed

theorem transition_iff_ready_witness:
  "\<exists>m. transition \<lparr>to_state = L_ACTIVE, trans_mechanism = None, trans_now = 5, trans_notes = None\<rparr>
     (pending_lease ''l-1'' ''ag-1'' 0 (demo_args {''n-1''} 60000000)) = Inr m"
proof -
  let ?l = "pending_lease ''l-1'' ''ag-1'' 0 (demo_args {''n-1''} 60000000)"
  have "lease_inv ?l" by (simp add: lease_inv_def lease_wf_def pending_lease_def demo_args_def)
  moreover have "dump_duration 60000000 = Some 60000000"
    by (simp add: dump_duration_def round6_def Let_def scale6.simps)
  ultimately show ?thesis
    by (subst transition_iff_ready)
      (simp_all add: transition_ready_def pending_lease_def demo_args_def demo_undo_def demo_probes_def)
qed

text \<open>The history a lease has behind it in each state, seen from its PENDING ancestor.\<close>

definition lease_history :: "FaultLease \<Rightarrow> FaultLease \<Rightarrow> bool" where
  "lease_history l0 x \<longleftrightarrow>
     undo_ops x = undo_ops l0 \<and> verify_probes x = verify_probes l0 \<and> created_at x = created_at l0
     \<and> (lease_state x = L_PENDING \<longrightarrow> epoch x = epoch l0)
     \<and> (lease_state x \<notin> {L_PENDING, L_EXPIRED} \<longrightarrow>
          undo_ops x \<noteq> [] \<and> verify_probes x \<noteq> [] \<and> epoch x = epoch l0 + 1
          \<and> (\<exists>t. injected_at x = Some t \<and> created_at x \<le> t))
     \<and> (lease_state x = L_RELEASED \<longrightarrow> released_at x \<noteq> None)"

lemma lease_history_step:
  assumes h: "lease_history l0 x" and t: "transition a x = Inr y"
  shows "lease_history l0 y"
proof -
  note f = transition_frame [OF t]
  have wf: "lease_state y = L_ACTIVE \<longrightarrow> undo_ops y \<noteq> [] \<and> verify_probes y \<noteq> []"
    "\<forall>t. injected_at y = Some t \<longrightarrow> created_at y \<le> t"
    using transition_wf [OF t] by (auto simp: lease_wf_def)
  have inj: "injected_at y = (if lease_state y = L_ACTIVE then Some (trans_now a) else injected_at x)"
    and rel: "lease_state y = L_RELEASED \<longrightarrow> released_at y \<noteq> None"
    and ep: "epoch y = (if lease_state y = L_ACTIVE then epoch x + 1 else epoch x)"
    using transition_marks(1,3) [OF t] f(1,12) by simp_all
  have edge: "lease_state y \<in> lease_transitions (lease_state x)" using f(1,2) by simp
  have same: "undo_ops y = undo_ops x" "verify_probes y = verify_probes x" "created_at y = created_at x"
    using f(6,8,9) by simp_all
  show ?thesis
  proof (cases "lease_state y = L_ACTIVE")
    case True
    then have "lease_state x = L_PENDING" using edge by (cases "lease_state x") auto
    with True show ?thesis
      using h wf inj ep same by (auto simp: lease_history_def)
  next
    case False
    have "lease_state y \<notin> {L_PENDING, L_EXPIRED} \<Longrightarrow> lease_state x \<notin> {L_PENDING, L_EXPIRED}"
      "lease_state y \<noteq> L_PENDING"
      using edge False by (cases "lease_state x"; auto)+
    with False show ?thesis
      using h inj ep same rel by (auto simp: lease_history_def)
  qed
qed

lemma lease_history_run:
  "lease_history l0 x \<Longrightarrow> run_all transition cs x = Inr y \<Longrightarrow> lease_history l0 y"
  by (induction cs arbitrary: x) (auto split: sum.splits intro: lease_history_step)

text \<open>
  C15. What RELEASED proves. A lease that some sequence of transitions took from PENDING to RELEASED
  was created with undo operations and verify probes, was activated exactly once at a moment not
  before its creation (its epoch is one more), and carries the moment of its release.
\<close>

theorem released_means_recoverable:
  assumes "lease_state l = L_PENDING" "run_all transition cs l = Inr m" "lease_state m = L_RELEASED"
  shows "undo_ops l \<noteq> [] \<and> verify_probes l \<noteq> [] \<and> undo_ops m = undo_ops l
    \<and> (\<exists>t. injected_at m = Some t \<and> created_at l \<le> t) \<and> released_at m \<noteq> None
    \<and> epoch m = epoch l + 1"
proof -
  have "lease_history l l" using assms(1) by (simp add: lease_history_def)
  from lease_history_run [OF this assms(2)] show ?thesis
    using assms(3) by (auto simp: lease_history_def)
qed

definition demo_path :: "transition_args list" where
  "demo_path = map (\<lambda>s. \<lparr>to_state = s, trans_mechanism = None, trans_now = 5, trans_notes = None\<rparr>)
     [L_ACTIVE, L_RELEASING, L_RELEASED]"

lemma demo_ttl: "dump_duration 60000000 = Some 60000000"
  by (simp add: dump_duration_def round6_def Let_def scale6.simps)

lemma demo_run:
  "\<exists>m. run_all transition demo_path (pending_lease ''l-1'' ''ag-1'' 0 (demo_args {''n-1''} 60000000)) = Inr m
     \<and> lease_state m = L_RELEASED"
  by (simp add: demo_path_def transition_def can_transition_def pending_lease_def demo_args_def
      demo_undo_def demo_probes_def demo_ttl validate_lease_def id_prefix_def check_non_negative_def
      check_invariants_def safe_terminals_def)

theorem released_means_recoverable_witness:
  "\<exists>m. run_all transition demo_path (pending_lease ''l-1'' ''ag-1'' 0 (demo_args {''n-1''} 60000000)) = Inr m
     \<and> epoch m = 4 \<and> released_at m \<noteq> None"
proof -
  let ?l = "pending_lease ''l-1'' ''ag-1'' 0 (demo_args {''n-1''} 60000000)"
  obtain m where m: "run_all transition demo_path ?l = Inr m" "lease_state m = L_RELEASED"
    using demo_run by blast
  have "lease_state ?l = L_PENDING" by (simp add: pending_lease_def)
  from released_means_recoverable [OF this m] m(1) show ?thesis
    by (simp add: pending_lease_def demo_args_def)
qed

text \<open>
  C17. No lease lives for ever in the machine: the number of transitions a lease can take is at most
  the fall of its rank, five from PENDING; a lease is never back in the state it left, and a
  RELEASED or EXPIRED lease takes no transition at all.
\<close>

theorem lease_run_bounded:
  assumes "run_all transition cs l = Inr m"
  shows "length cs + lease_rank (lease_state m) \<le> lease_rank (lease_state l)
    \<and> (cs \<noteq> [] \<longrightarrow> lease_state m \<noteq> lease_state l)
    \<and> (is_safe_terminal l \<longrightarrow> cs = [] \<and> m = l)"
proof (intro conjI impI)
  show "length cs + lease_rank (lease_state m) \<le> lease_rank (lease_state l)"
    by (rule lease.run_bounded [OF assms])
  show "lease_state m \<noteq> lease_state l" if "cs \<noteq> []"
    by (rule lease.never_revisits [OF assms that])
  assume "is_safe_terminal l"
  then have "lease_transitions (lease_state l) = {}"
    by (auto simp: is_safe_terminal_def safe_terminals_def)
  then show "cs = []" "m = l" using lease.stuck_when_terminal [OF _ assms] by auto
qed

theorem lease_run_bounded_witness:
  "\<exists>m. run_all transition demo_path (pending_lease ''l-1'' ''ag-1'' 0 (demo_args {''n-1''} 60000000)) = Inr m
     \<and> lease_rank (lease_state m) \<le> 2"
proof -
  let ?l = "pending_lease ''l-1'' ''ag-1'' 0 (demo_args {''n-1''} 60000000)"
  obtain m where m: "run_all transition demo_path ?l = Inr m"
    using demo_run by blast
  from lease_run_bounded [OF m] m show ?thesis
    by (simp add: pending_lease_def demo_path_def)
qed

text \<open>
  A TTL of a million seconds or more wedges a lease: the dump writes it in exponent notation,
  which the duration grammar refuses, so every legal transition of such a lease raises - the one to
  EXPIRED included - and the lease stays in the state it was created in.
\<close>

theorem long_ttl_wedges_lease:
  assumes "1000000000000 \<le> ttl l" "to_state a \<in> lease_transitions (lease_state l)"
  shows "transition a l = Inl (SchemaInvalid ''duration'')"
  using assms dump_duration_long [of "ttl l"] by (simp add: transition_def can_transition_def)

theorem long_ttl_wedges_lease_witness:
  "transition \<lparr>to_state = L_EXPIRED, trans_mechanism = None, trans_now = 2000000000001, trans_notes = None\<rparr>
     (pending_lease ''l-1'' ''ag-1'' 0 (demo_args {''n-1''} 2000000000000)) = Inl (SchemaInvalid ''duration'')"
  by (rule long_ttl_wedges_lease) (simp_all add: pending_lease_def demo_args_def)

section \<open>Properties of the client\<close>


text \<open>
  The run of the witness: a lease is acquired, activated and orphaned, and a hundred seconds later
  the same target is acquired again.
\<close>

lemma demo_ids:
  "lease_id_of (Suc 0) = ''l-00000001''" "lease_id_of 2 = ''l-00000002''" "lease_id_of 3 = ''l-00000003''"
  by code_simp+

definition demo_lease :: "nat \<Rightarrow> instant \<Rightarrow> FaultLease" where
  "demo_lease n t = pending_lease (lease_id_of n) ''ag-1'' t (demo_args {''n-1''} 60000000)"

definition demo_orphan :: FaultLease where
  "demo_orphan = (demo_lease 1 1)\<lparr>lease_state := L_ORPHANED, injected_at := Some 2, epoch := 4,
     served_at := Some 2, escalation_notes := Some ''lost''\<rparr>"

definition demo_held :: "lease_dict LeaseClient" where
  "demo_held = \<lparr>sink_state = [(''l-00000001'', demo_lease 1 1)], agent_id = ''ag-1'', client_seq = 1\<rparr>"

definition demo_lost :: "lease_dict LeaseClient" where
  "demo_lost = \<lparr>sink_state = [(''l-00000001'', demo_orphan)], agent_id = ''ag-1'', client_seq = 1\<rparr>"

definition demo_both :: "lease_dict LeaseClient" where
  "demo_both = \<lparr>sink_state = [(''l-00000001'', demo_orphan), (''l-00000002'', demo_lease 2 100000000)],
     agent_id = ''ag-1'', client_seq = 2\<rparr>"

lemmas demo_eval =
  transition_def can_transition_def pending_lease_def demo_args_def demo_undo_def
  demo_probes_def demo_ttl validate_lease_def id_prefix_def check_non_negative_def
  check_invariants_def safe_terminals_def is_safe_terminal_def expires_at_def acquire_def Let_def
  activate_def mark_releasing_def mark_orphaned_def advance_lease_def require_lease_def keep_state_def
  expire_quietly_def client_init_def mem_next_sequence_def demo_ids demo_lease_def demo_orphan_def

lemma demo_acquire: "client_exec mem_sink (Acquire 1 1 (demo_args {''n-1''} 60000000)) demo_client = demo_held"
  by (simp add: demo_eval demo_held_def demo_client_def)

lemma demo_activate_orphan:
  "client_exec mem_sink (MarkOrphaned 3 (Some ''lost'') ''l-00000001'')
     (client_exec mem_sink (Activate 2 ''l-00000001'') demo_held) = demo_lost"
  by (simp add: demo_eval demo_held_def demo_lost_def)

lemma demo_reacquire:
  "acquire mem_sink 100000000 100000000 (demo_args {''n-1''} 60000000) demo_lost
     = (Inr (demo_lease 2 100000000), demo_both)"
  by (simp add: demo_eval demo_lost_def demo_both_def)

lemma demo_run_both: "client_run mem_sink (client_init mem_sink ''ag-1'' []) 100000000 demo_both"
proof -
  let ?c0 = "client_init mem_sink ''ag-1'' []"
  have st: "duration_stable (acq_ttl (demo_args {''n-1''} 60000000))"
    by (simp add: duration_stable_def demo_args_def demo_ttl)
  have "client_run mem_sink ?c0 1 demo_held"
    using client_run.step [OF client_run.start, of 0 "Acquire 1 1 (demo_args {''n-1''} 60000000)" mem_sink ?c0]
    by (simp add: demo_acquire [unfolded demo_client_def] st del: client_exec.simps)
  from client_run.step [OF this, of "Activate 2 ''l-00000001''"]
  have "client_run mem_sink ?c0 2 (client_exec mem_sink (Activate 2 ''l-00000001'') demo_held)" by simp
  from client_run.step [OF this, of "MarkOrphaned 3 (Some ''lost'') ''l-00000001''"]
  have "client_run mem_sink ?c0 3 demo_lost"
    by (simp add: demo_activate_orphan del: client_exec.simps)
  from client_run.step [OF this, of "Acquire 100000000 100000000 (demo_args {''n-1''} 60000000)"]
  show ?thesis
    by (simp add: demo_reacquire st)
qed


text \<open>
  What a successful acquire leaves on its targets. Over the in-memory sink, every other live
  lease that shares a target with the lease just granted is past its TTL, and is one that could not
  be expired: it is ORPHANED or RELEASING, states with no transition to EXPIRED, or its TTL does not
  survive a dump. The overlap scan suppresses that failure and lets the acquire through.
\<close>

theorem acquire_overlap:
  assumes "acquire mem_sink created now a c = (Inr l, c')" "mem_ok (sink_state c)"
    and "m \<in> set (mem_active (sink_state c'))" "m \<noteq> l" "targets m \<inter> targets l \<noteq> {}"
  shows "expires_at m < now
    \<and> (lease_state m \<in> {L_ORPHANED, L_RELEASING} \<or> dump_duration (ttl m) = None)"
  using mem.acquire_exclusive_reliable [OF assms(1,2)] assms(3-5) by (simp add: mem_active_def)

theorem acquire_overlap_witness:
  "lease_state demo_orphan \<in> {L_ORPHANED, L_RELEASING} \<and> expires_at demo_orphan < 100000000
   \<and> targets demo_orphan = targets (demo_lease 2 100000000)"
proof -
  have ok: "mem_ok (sink_state demo_lost)"
    by (simp add: mem_ok_def demo_lost_def lease_inv_def lease_wf_def demo_eval)
  have m: "demo_orphan \<in> set (mem_active (sink_state demo_both))" "demo_orphan \<noteq> demo_lease 2 100000000"
    "targets demo_orphan \<inter> targets (demo_lease 2 100000000) \<noteq> {}"
    by (simp_all add: mem_active_def demo_both_def demo_eval)
  from acquire_overlap [OF demo_reacquire ok m] show ?thesis
    by (simp add: demo_eval)
qed

end
