(* ===== verification/Lease_Store.thy ===== *)
theory Lease_Store
  imports Lease_Runs "HOL-Library.List_Lexorder" "HOL-Library.Char_ord"
begin

text \<open>
  \<open>infra/lease_repository.py\<close>: the SQLite implementation of the lease sink. A row holds the
  columns \<open>save\<close> binds; the JSON columns hold the documents \<open>json.dumps\<close> is given, the
  timestamp columns the instants. The table is the rows in insertion order: \<open>INSERT OR REPLACE\<close>
  deletes the row with the same primary key and appends the new one.
\<close>

section \<open>Resolution evidence as a document\<close>

definition str_dict :: "(string \<times> string) list \<Rightarrow> pyobj" where
  "str_dict d = PyDict (map (\<lambda>(k, v). (k, PyStr v)) d)"

fun dump_resolved :: "resolved_target \<Rightarrow> (string \<times> pyobj) list" where
  "dump_resolved (ResolvedPod p) =
     [(''namespace'', PyStr (pod_namespace p)), (''pod'', PyStr (pod_name p)),
      (''container'', PyStr (pod_container p)), (''pod_uid'', PyStr (pod_uid p)),
      (''container_id'', PyStr (pod_container_id p)), (''node'', PyStr (pod_node p)),
      (''labels'', str_dict (pod_labels p)), (''pod_action'', PyStr (pod_action p)),
      (''exec_argv'', PyList (map PyStr (exec_argv p)))]"
| "dump_resolved (ResolvedNode n) =
     [(''node'', PyStr (node_name n)), (''namespace'', PyStr (node_namespace n)),
      (''node_uid'', PyStr (node_uid n)), (''ready'', PyBool (node_ready n)),
      (''unschedulable'', PyBool (node_unschedulable n)), (''labels'', str_dict (node_labels n)),
      (''node_action'', PyStr (node_action n))]"

text \<open>
  Field readers of a model: a missing key is the default (\<open>None\<close> when the field is required),
  a value of another type is a validation error.
\<close>

definition field_str :: "string option \<Rightarrow> (string \<times> pyobj) list \<Rightarrow> string \<Rightarrow> string option" where
  "field_str dflt d k =
     (case map_of d k of None \<Rightarrow> dflt | Some (PyStr s) \<Rightarrow> Some s | Some _ \<Rightarrow> None)"

definition field_bool :: "bool \<Rightarrow> (string \<times> pyobj) list \<Rightarrow> string \<Rightarrow> bool option" where
  "field_bool dflt d k =
     (case map_of d k of None \<Rightarrow> Some dflt | Some (PyBool b) \<Rightarrow> Some b | Some _ \<Rightarrow> None)"

fun as_str :: "pyobj \<Rightarrow> string option" where
  "as_str (PyStr s) = Some s"
| "as_str _ = None"

fun all_some :: "'a option list \<Rightarrow> 'a list option" where
  "all_some [] = Some []"
| "all_some (None # xs) = None"
| "all_some (Some x # xs) = map_option (Cons x) (all_some xs)"

definition field_strs :: "(string \<times> pyobj) list \<Rightarrow> string \<Rightarrow> string list option" where
  "field_strs d k =
     (case map_of d k of None \<Rightarrow> Some []
      | Some (PyList xs) \<Rightarrow> all_some (map as_str xs) | Some _ \<Rightarrow> None)"

definition field_labels :: "(string \<times> pyobj) list \<Rightarrow> string \<Rightarrow> (string \<times> string) list option" where
  "field_labels d k =
     (case map_of d k of None \<Rightarrow> Some []
      | Some (PyDict xs) \<Rightarrow> all_some (map (\<lambda>(i, v). map_option (Pair i) (as_str v)) xs)
      | Some _ \<Rightarrow> None)"

definition nonempty :: "string \<Rightarrow> string option" where
  "nonempty s = (if s = [] then None else Some s)"

definition extra_forbidden :: "string list \<Rightarrow> (string \<times> pyobj) list \<Rightarrow> bool" where
  "extra_forbidden known d = list_all (\<lambda>(k, v). k \<in> set known) d"

definition parse_node :: "(string \<times> pyobj) list \<Rightarrow> ResolvedNodeTarget option" where
  "parse_node d =
     (if \<not> extra_forbidden [''node'', ''namespace'', ''node_uid'', ''ready'', ''unschedulable'',
           ''labels'', ''node_action''] d then None
      else
        Option.bind (Option.bind (field_str None d ''node'') nonempty) (\<lambda>n.
        Option.bind (field_str (Some []) d ''namespace'') (\<lambda>ns.
        Option.bind (field_str (Some []) d ''node_uid'') (\<lambda>u.
        Option.bind (field_bool False d ''ready'') (\<lambda>r.
        Option.bind (field_bool False d ''unschedulable'') (\<lambda>us.
        Option.bind (field_labels d ''labels'') (\<lambda>l.
        Option.bind (field_str (Some []) d ''node_action'') (\<lambda>a.
        Some \<lparr>node_name = n, node_namespace = ns, node_uid = u, node_ready = r,
              node_unschedulable = us, node_labels = l, node_action = a\<rparr>))))))))"

definition parse_pod :: "(string \<times> pyobj) list \<Rightarrow> ResolvedPodTarget option" where
  "parse_pod d =
     (if \<not> extra_forbidden [''namespace'', ''pod'', ''container'', ''pod_uid'', ''container_id'',
           ''node'', ''labels'', ''pod_action'', ''exec_argv''] d then None
      else
        Option.bind (field_str (Some ''default'') d ''namespace'') (\<lambda>ns.
        Option.bind (Option.bind (field_str None d ''pod'') nonempty) (\<lambda>p.
        Option.bind (Option.bind (field_str None d ''container'') nonempty) (\<lambda>c.
        Option.bind (field_str (Some []) d ''pod_uid'') (\<lambda>u.
        Option.bind (field_str (Some []) d ''container_id'') (\<lambda>ci.
        Option.bind (field_str (Some []) d ''node'') (\<lambda>n.
        Option.bind (field_labels d ''labels'') (\<lambda>l.
        Option.bind (field_str (Some []) d ''pod_action'') (\<lambda>a.
        Option.bind (field_strs d ''exec_argv'') (\<lambda>x.
        Some \<lparr>pod_namespace = ns, pod_name = p, pod_container = c, pod_uid = u,
              pod_container_id = ci, pod_node = n, pod_labels = l, pod_action = a,
              exec_argv = x\<rparr>))))))))))"

text \<open>\<open>_resolved_target_or_none\<close>: the node model is tried first, then the pod model.\<close>

definition resolved_target_or_none :: "(string \<times> pyobj) list option \<Rightarrow> resolved_target option" where
  "resolved_target_or_none raw =
     (case raw of None \<Rightarrow> None
      | Some d \<Rightarrow> (case parse_node d of Some n \<Rightarrow> Some (ResolvedNode n)
                  | None \<Rightarrow> map_option ResolvedPod (parse_pod d)))"

section \<open>Rows\<close>

record LeaseRow =
  row_id :: string
  row_state :: string
  row_owner :: string
  row_undo :: "UndoOp list"
  row_probes :: "VerifyProbe list"
  row_ttl :: duration
  row_expires_at :: instant
  row_injected :: "instant option"
  row_released :: "instant option"
  row_mechanism :: "string option"
  row_notes :: "string option"
  row_run :: string
  row_fault :: string
  row_targets :: "string list"
  row_created :: instant
  row_identity :: "string option"
  row_resolved :: "(string \<times> pyobj) list option"

definition lease_state_of_value :: "string \<Rightarrow> LeaseState option" where
  "lease_state_of_value v =
     find (\<lambda>s. lease_state_value s = v)
       [L_PENDING, L_ACTIVE, L_RELEASING, L_RELEASED, L_EXPIRED, L_ORPHANED, L_DIRTY]"

definition lease_to_row :: "FaultLease \<Rightarrow> LeaseRow" where
  "lease_to_row l =
     \<lparr>row_id = lease_id l, row_state = lease_state_value (lease_state l), row_owner = owner_agent l,
      row_undo = undo_ops l, row_probes = verify_probes l, row_ttl = ttl l,
      row_expires_at = created_at l + ttl l, row_injected = injected_at l,
      row_released = released_at l, row_mechanism = release_mechanism l,
      row_notes = escalation_notes l, row_run = lease_run_id l, row_fault = lease_fault_id l,
      row_targets = sorted_list_of_set (targets l), row_created = created_at l,
      row_identity = lease_identity l, row_resolved = map_option dump_resolved (lease_resolved l)\<rparr>"

definition row_to_lease :: "LeaseRow \<Rightarrow> py_error + FaultLease" where
  "row_to_lease r =
     (case lease_state_of_value (row_state r) of None \<Rightarrow> Inl ValueErr
      | Some s \<Rightarrow> validate_lease
          \<lparr>lease_id = row_id r, lease_run_id = row_run r, lease_fault_id = row_fault r,
           owner_agent = row_owner r, targets = set (row_targets r), undo_ops = row_undo r,
           verify_probes = row_probes r, ttl = row_ttl r, lease_state = s,
           created_at = row_created r, injected_at = row_injected r, released_at = row_released r,
           release_mechanism = row_mechanism r, escalation_notes = row_notes r,
           lease_identity = row_identity r,
           lease_resolved = resolved_target_or_none (row_resolved r),
           epoch = 0, served_at = None\<rparr>)"

section \<open>The table\<close>

type_synonym lease_table = "LeaseRow list"

definition sql_save :: "FaultLease \<Rightarrow> lease_table \<Rightarrow> lease_table" where
  "sql_save l t = filter (\<lambda>r. row_id r \<noteq> lease_id l) t @ [lease_to_row l]"

definition sql_load :: "lease_table \<Rightarrow> string \<Rightarrow> (py_error + FaultLease) option" where
  "sql_load t i = map_option row_to_lease (find (\<lambda>r. row_id r = i) t)"

definition sql_active_rows :: "lease_table \<Rightarrow> lease_table" where
  "sql_active_rows t =
     sort_key row_created (filter (\<lambda>r. row_state r \<notin> {''released'', ''expired''}) t)"

definition sql_active :: "lease_table \<Rightarrow> (py_error + FaultLease) list" where
  "sql_active t = map row_to_lease (sql_active_rows t)"

definition sql_all :: "lease_table \<Rightarrow> (py_error + FaultLease) list" where
  "sql_all t = map row_to_lease (sort_key row_created t)"

definition sql_expired_pending :: "instant \<Rightarrow> lease_table \<Rightarrow> (py_error + FaultLease) list" where
  "sql_expired_pending now t =
     map row_to_lease (filter (\<lambda>r. row_created r + row_ttl r < now
                                  \<and> row_state r \<in> {''pending'', ''active''}) t)"

text \<open>\<open>CAST(x AS INTEGER)\<close>: the longest integer prefix, 0 without one.\<close>

definition sql_cast :: "string \<Rightarrow> int" where
  "sql_cast s =
     (let u = dropWhile py_isspace s;
          v = (if u \<noteq> [] \<and> hd u \<in> {CHR ''+'', CHR ''-''} then tl u else u);
          n = digits_value 0 (takeWhile is_digit v)
      in if u \<noteq> [] \<and> hd u = CHR ''-'' then - n else n)"

definition sql_next_sequence :: "lease_table \<Rightarrow> int" where
  "sql_next_sequence t =
     (case filter (\<lambda>i. py_startswith (py_lower i) ''l-'') (map row_id t) of
        [] \<Rightarrow> 0
      | i # is \<Rightarrow> fold (\<lambda>j m. max m (sql_cast (drop 2 j))) is (sql_cast (drop 2 i)))"

section \<open>Reading back what was written\<close>

text \<open>What the model's field constraints guarantee of resolution evidence.\<close>

fun resolved_wf :: "resolved_target \<Rightarrow> bool" where
  "resolved_wf (ResolvedPod p) \<longleftrightarrow> pod_name p \<noteq> [] \<and> pod_container p \<noteq> []"
| "resolved_wf (ResolvedNode n) \<longleftrightarrow> node_name n \<noteq> []"

lemma lease_state_of_value_inv [simp]: "lease_state_of_value (lease_state_value s) = Some s"
  by (cases s) (simp_all add: lease_state_of_value_def)

lemma all_some_strs [simp]: "all_some (map (as_str \<circ> PyStr) xs) = Some xs"
  by (induction xs) simp_all

lemma all_some_labels [simp]:
  "all_some (map ((\<lambda>(i, v). map_option (Pair i) (as_str v)) \<circ> (\<lambda>(k, v). (k, PyStr v))) d) = Some d"
  by (induction d) auto

lemma field_at [simp]:
  "map_of d k = Some (PyStr s) \<Longrightarrow> field_str f d k = Some s"
  "map_of d k = Some (PyBool b) \<Longrightarrow> field_bool g d k = Some b"
  "map_of d k = Some (PyList (map PyStr xs)) \<Longrightarrow> field_strs d k = Some xs"
  "map_of d k = Some (str_dict ls) \<Longrightarrow> field_labels d k = Some ls"
  by (simp_all add: field_str_def field_bool_def field_strs_def field_labels_def str_dict_def)

lemma parse_node_dump:
  assumes "node_name n \<noteq> []"
  shows "parse_node (dump_resolved (ResolvedNode n)) = Some n"
proof -
  have "\<not> \<not> extra_forbidden [''node'', ''namespace'', ''node_uid'', ''ready'', ''unschedulable'',
           ''labels'', ''node_action''] (dump_resolved (ResolvedNode n))"
    by (simp add: extra_forbidden_def)
  then show ?thesis
    unfolding parse_node_def if_not_P
    using assms by (simp add: nonempty_def)
qed

lemma parse_node_pod: "parse_node (dump_resolved (ResolvedPod p)) = None"
proof -
  have "\<not> extra_forbidden [''node'', ''namespace'', ''node_uid'', ''ready'', ''unschedulable'',
           ''labels'', ''node_action''] (dump_resolved (ResolvedPod p))"
    by (simp add: extra_forbidden_def)
  then show ?thesis unfolding parse_node_def by (rule if_P)
qed

lemma parse_pod_dump:
  assumes "pod_name p \<noteq> []" "pod_container p \<noteq> []"
  shows "parse_pod (dump_resolved (ResolvedPod p)) = Some p"
proof -
  have "\<not> \<not> extra_forbidden [''namespace'', ''pod'', ''container'', ''pod_uid'', ''container_id'',
           ''node'', ''labels'', ''pod_action'', ''exec_argv''] (dump_resolved (ResolvedPod p))"
    by (simp add: extra_forbidden_def)
  then show ?thesis
    unfolding parse_pod_def if_not_P
    using assms by (simp add: nonempty_def)
qed

lemma resolved_roundtrip:
  "resolved_wf t \<Longrightarrow> resolved_target_or_none (Some (dump_resolved t)) = Some t"
  by (cases t)
    (simp_all add: resolved_target_or_none_def parse_node_dump parse_node_pod parse_pod_dump
      del: dump_resolved.simps)

definition storable :: "FaultLease \<Rightarrow> bool" where
  "storable l \<longleftrightarrow> lease_wf l \<and> finite (targets l) \<and> (\<forall>t. lease_resolved l = Some t \<longrightarrow> resolved_wf t)"

lemma row_roundtrip:
  assumes "storable l"
  shows "row_to_lease (lease_to_row l) = Inr (l\<lparr>epoch := 0, served_at := None\<rparr>)"
proof -
  have res: "resolved_target_or_none (map_option dump_resolved (lease_resolved l)) = lease_resolved l"
    using assms
    by (cases "lease_resolved l") (simp_all add: storable_def resolved_roundtrip resolved_target_or_none_def [of None])
  have tg: "set (sorted_list_of_set (targets l)) = targets l"
    using assms by (simp add: storable_def)
  have "row_to_lease (lease_to_row l) = validate_lease (l\<lparr>epoch := 0, served_at := None\<rparr>)"
    by (simp add: row_to_lease_def lease_to_row_def res tg, rule arg_cong [of _ _ validate_lease])
      (cases l, simp)
  also have "\<dots> = Inr (l\<lparr>epoch := 0, served_at := None\<rparr>)"
    using assms by (intro validate_lease_wf) (simp add: storable_def lease_wf_def)
  finally show ?thesis .
qed

lemma find_filter_other: "i \<noteq> j \<Longrightarrow> find (\<lambda>r. row_id r = i) (filter (\<lambda>r. row_id r \<noteq> j) t) = find (\<lambda>r. row_id r = i) t"
  by (induction t) auto

lemma find_filter_same: "find (\<lambda>r. row_id r = i) (filter (\<lambda>r. row_id r \<noteq> i) t) = None"
  by (induction t) auto

lemma row_id_lease_to_row [simp]: "row_id (lease_to_row l) = lease_id l"
  by (simp add: lease_to_row_def)

lemma sql_load_save:
  "sql_load (sql_save l t) i =
     (if i = lease_id l then Some (row_to_lease (lease_to_row l)) else sql_load t i)"
  by (auto simp: sql_load_def sql_save_def find_append or_else_def find_filter_same
      find_filter_other
      split: option.splits)

section \<open>Properties\<close>

text \<open>
  C18. Round trip through SQLite: after \<open>save\<close>, \<open>load\<close> of the same id returns the lease with every
  persisted field as saved - resolution evidence included, whose kind is recovered from its shape -
  but with the epoch reset to 0 and the serve time gone, the two fields the row has no column for;
  every other id loads what it loaded before.
\<close>

theorem sqlite_roundtrip:
  assumes "storable l"
  shows "sql_load (sql_save l t) i =
     (if i = lease_id l then Some (Inr (l\<lparr>epoch := 0, served_at := None\<rparr>)) else sql_load t i)"
  by (simp add: sql_load_save row_roundtrip [OF assms])

theorem sqlite_roundtrip_witness:
  "sql_load (sql_save (pending_lease ''l-1'' ''ag-1'' 0 (demo_args {''n-1''} 60000000)) []) ''l-1''
     = Some (Inr ((pending_lease ''l-1'' ''ag-1'' 0 (demo_args {''n-1''} 60000000))\<lparr>epoch := 0\<rparr>))"
proof -
  let ?l = "pending_lease ''l-1'' ''ag-1'' 0 (demo_args {''n-1''} 60000000)"
  have "storable ?l"
    by (simp add: storable_def lease_wf_def pending_lease_def demo_args_def)
  from sqlite_roundtrip [OF this, of "[]" "''l-1''"] show ?thesis
    by (simp add: pending_lease_def)
qed

end
