(* ===== verification/Janitor_Sweep.thy ===== *)
theory Janitor_Sweep
  imports Lease_Runs
begin

text \<open>
  \<open>controller/janitor.py\<close>: the sweep that takes leases past their TTL, or whose owning run is
  provably gone, out of the way. It runs over any \<open>LeaseSink\<close>; the lemmas are proved from the
  protocol's laws, with and without saves that fail.
\<close>

section \<open>The sweep\<close>

record SweepResult =
  swept_expired :: "string list"
  swept_recovered :: "string list"
  swept_dirty :: "string list"

record SweepPlan =
  would_expire :: "string list"
  would_recover :: "string list"
  would_mark_dirty :: "string list"

definition sweep_quiet :: "SweepResult \<Rightarrow> bool" where
  "sweep_quiet r \<longleftrightarrow> swept_expired r = [] \<and> swept_recovered r = [] \<and> swept_dirty r = []"

definition plan_quiet :: "SweepPlan \<Rightarrow> bool" where
  "plan_quiet p \<longleftrightarrow> would_expire p = [] \<and> would_recover p = [] \<and> would_mark_dirty p = []"

type_synonym liveness = "(string \<Rightarrow> py_error + bool option) option"

text \<open>
  The arguments of a sweep: the clock reading, the instant deadlines are compared with, and the
  filters (an empty \<open>run_ids\<close> filters nothing).
\<close>

record sweep_args =
  jan_now :: instant
  jan_current :: instant
  jan_liveness :: liveness
  jan_run_ids :: "string list"
  jan_states :: "LeaseState list option"
  jan_execute :: bool

text \<open>\<open>_owner_gone\<close>: only a proof that the owner is gone counts; a failed lookup does not.\<close>

definition owner_gone :: "liveness \<Rightarrow> string \<Rightarrow> py_error + bool" where
  "owner_gone lv run =
     (case lv of None \<Rightarrow> Inr False
      | Some f \<Rightarrow> (case f run of
            Inl e \<Rightarrow> if e = LookupErr \<or> e = KeyErr then Inr False else Inl e
          | Inr verdict \<Rightarrow> Inr (verdict = Some False)))"

definition save_quietly :: "'s LeaseSink \<Rightarrow> FaultLease \<Rightarrow> 's \<Rightarrow> 's" where
  "save_quietly K l s = (case sink_save K l s of Inl _ \<Rightarrow> s | Inr s' \<Rightarrow> s')"

text \<open>The errors of \<open>except (DomainError, OSError)\<close>.\<close>

definition sweep_catches :: "py_error \<Rightarrow> bool" where
  "sweep_catches e \<longleftrightarrow> is_domain_error e \<or> e = OSErr"

definition janitor_args :: "LeaseState \<Rightarrow> instant \<Rightarrow> string option \<Rightarrow> transition_args" where
  "janitor_args t now n = \<lparr>to_state = t, trans_mechanism = Some ''janitor'', trans_now = now, trans_notes = n\<rparr>"

type_synonym 's sweep_acc = "SweepResult \<times> 's"

definition jan_expire ::
  "'s LeaseSink \<Rightarrow> instant \<Rightarrow> string option \<Rightarrow> FaultLease \<Rightarrow> 's sweep_acc \<Rightarrow> py_error option \<times> 's sweep_acc" where
  "jan_expire K now n l acc =
     (case acc of (r, s) \<Rightarrow>
        let r' = r\<lparr>swept_expired := swept_expired r @ [lease_id l]\<rparr>
        in (case transition (janitor_args L_EXPIRED now n) l of
              Inl e \<Rightarrow> (Some e, (r', s))
            | Inr m \<Rightarrow> (None, (r', save_quietly K m s))))"

lemma to_state_janitor [simp]: "to_state (janitor_args t now n) = t"
  by (simp add: janitor_args_def)

text \<open>A transition and its save, the body shared by the \<open>try\<close> blocks.\<close>

definition transition_save ::
  "'s LeaseSink \<Rightarrow> transition_args \<Rightarrow> FaultLease \<Rightarrow> 's \<Rightarrow> py_error + (FaultLease \<times> 's)" where
  "transition_save K a l s =
     (case transition a l of Inl e \<Rightarrow> Inl e
      | Inr m \<Rightarrow> (case sink_save K m s of Inl e \<Rightarrow> Inl e | Inr s' \<Rightarrow> Inr (m, s')))"

definition jan_surrender ::
  "'s LeaseSink \<Rightarrow> instant \<Rightarrow> FaultLease \<Rightarrow> 's sweep_acc \<Rightarrow> py_error option \<times> 's sweep_acc" where
  "jan_surrender K now l acc =
     (case acc of (r, s) \<Rightarrow>
        (case transition_save K (janitor_args L_EXPIRED now None) l s of
           Inl e \<Rightarrow> if sweep_catches e
                    then (None, (r\<lparr>swept_dirty := swept_dirty r @ [lease_id l]\<rparr>, s))
                    else (Some e, (r, s))
         | Inr (m, s') \<Rightarrow> (None, (r\<lparr>swept_expired := swept_expired r @ [lease_id l]\<rparr>, s'))))"

text \<open>
  \<open>_dirty_from\<close>: of the exception only the fact that the note is not empty is kept; no transition
  made here reads the clock.
\<close>

definition dirty_from :: "'s LeaseSink \<Rightarrow> instant \<Rightarrow> FaultLease \<Rightarrow> 's \<Rightarrow> 's" where
  "dirty_from K now l s =
     (let dirty = janitor_args L_DIRTY now (Some ''orphan recovery failed: '');
          stuck = (if lease_state l = L_RELEASING then transition dirty l
                   else run_all transition [janitor_args L_RELEASING now None, dirty] l)
      in case stuck of Inl _ \<Rightarrow> s | Inr m \<Rightarrow> save_quietly K m s)"

definition jan_finalize ::
  "'s LeaseSink \<Rightarrow> instant \<Rightarrow> FaultLease \<Rightarrow> 's sweep_acc \<Rightarrow> py_error option \<times> 's sweep_acc" where
  "jan_finalize K now l acc =
     (case acc of (r, s) \<Rightarrow>
        (case transition_save K (janitor_args L_RELEASED now None) l s of
           Inl e \<Rightarrow> if sweep_catches e
                    then (None, (r\<lparr>swept_dirty := swept_dirty r @ [lease_id l]\<rparr>, dirty_from K now l s))
                    else (Some e, (r, s))
         | Inr (m, s') \<Rightarrow> (None, (r\<lparr>swept_recovered := swept_recovered r @ [lease_id l]\<rparr>, s'))))"

text \<open>The \<open>try\<close> block of \<open>_recover_orphan\<close>: two transitions, each saved.\<close>

definition release_orphan :: "'s LeaseSink \<Rightarrow> instant \<Rightarrow> FaultLease \<Rightarrow> 's \<Rightarrow> py_error option \<times> 's" where
  "release_orphan K now l s =
     (case transition_save K (janitor_args L_RELEASING now None) l s of
        Inl e \<Rightarrow> (Some e, s)
      | Inr (m, s1) \<Rightarrow>
          (case transition_save K (janitor_args L_RELEASED now None) m s1 of
             Inl e \<Rightarrow> (Some e, s1)
           | Inr (m', s2) \<Rightarrow> (None, s2)))"

definition jan_recover_orphan ::
  "'s LeaseSink \<Rightarrow> instant \<Rightarrow> string option \<Rightarrow> FaultLease \<Rightarrow> 's sweep_acc \<Rightarrow> py_error option \<times> 's sweep_acc" where
  "jan_recover_orphan K now n l acc =
     (case acc of (r, s) \<Rightarrow>
        (case (if lease_state l = L_ACTIVE
               then transition (janitor_args L_ORPHANED now
                      (Some (if truthy n then the n
                             else ''lease '' @ lease_id l @ '' exceeded TTL without release''))) l
               else Inr l) of
           Inl e \<Rightarrow> (Some e, (r, s))
         | Inr orphaned \<Rightarrow>
             (case release_orphan K now orphaned s of
                (None, s') \<Rightarrow> (None, (r\<lparr>swept_recovered := swept_recovered r @ [lease_id orphaned]\<rparr>, s'))
              | (Some e, s') \<Rightarrow>
                  if sweep_catches e
                  then (None, (r\<lparr>swept_dirty := swept_dirty r @ [lease_id orphaned]\<rparr>,
                               dirty_from K now orphaned s'))
                  else (Some e, (r, s')))))"

text \<open>\<open>lost_owner\<close> is the note the sweep leaves when the owner, not the TTL, is the reason.\<close>

definition lost_owner :: string where
  "lost_owner = ''owner run no longer live; reclaimed before TTL''"

definition sweep_lease ::
  "'s LeaseSink \<Rightarrow> sweep_args \<Rightarrow> FaultLease \<Rightarrow> 's sweep_acc \<Rightarrow> py_error option \<times> 's sweep_acc" where
  "sweep_lease K a l acc =
     (if jan_run_ids a \<noteq> [] \<and> lease_run_id l \<notin> set (jan_run_ids a) then (None, acc)
      else if (case jan_states a of None \<Rightarrow> False | Some ss \<Rightarrow> lease_state l \<notin> set ss) then (None, acc)
      else (case owner_gone (jan_liveness a) (lease_run_id l) of
              Inl e \<Rightarrow> (Some e, acc)
            | Inr gone \<Rightarrow>
                if expires_at l \<ge> jan_current a \<and> \<not> gone then (None, acc)
                else if \<not> jan_execute a
                then (None, (if lease_state l \<in> {L_PENDING, L_DIRTY}
                             then apfst (\<lambda>r. r\<lparr>swept_expired := swept_expired r @ [lease_id l]\<rparr>) acc
                             else apfst (\<lambda>r. r\<lparr>swept_recovered := swept_recovered r @ [lease_id l]\<rparr>) acc))
                else (let n = (if gone then Some lost_owner else None); now = jan_now a
                      in if lease_state l = L_PENDING then jan_expire K now n l acc
                         else if lease_state l = L_DIRTY then jan_surrender K now l acc
                         else if lease_state l = L_RELEASING then jan_finalize K now l acc
                         else jan_recover_orphan K now n l acc)))"

fun sweep_loop ::
  "'s LeaseSink \<Rightarrow> sweep_args \<Rightarrow> FaultLease list \<Rightarrow> 's sweep_acc \<Rightarrow> (py_error + SweepResult) \<times> 's" where
  "sweep_loop K a [] acc = (Inr (fst acc), snd acc)"
| "sweep_loop K a (l # ls) acc =
     (case sweep_lease K a l acc of
        (Some e, acc') \<Rightarrow> (Inl e, snd acc')
      | (None, acc') \<Rightarrow> sweep_loop K a ls acc')"

definition no_sweep :: SweepResult where
  "no_sweep = \<lparr>swept_expired = [], swept_recovered = [], swept_dirty = []\<rparr>"

definition sweep :: "'s LeaseSink \<Rightarrow> sweep_args \<Rightarrow> 's \<Rightarrow> (py_error + SweepResult) \<times> 's" where
  "sweep K a s = sweep_loop K a (sink_active K s) (no_sweep, s)"

text \<open>\<open>plan\<close>: the operator's preview.\<close>

fun sweep_plan_loop ::
  "instant \<Rightarrow> liveness \<Rightarrow> string list \<Rightarrow> FaultLease list \<Rightarrow> SweepPlan \<Rightarrow> py_error + SweepPlan" where
  "sweep_plan_loop current lv runs [] p = Inr p"
| "sweep_plan_loop current lv runs (l # ls) p =
     (if runs \<noteq> [] \<and> lease_run_id l \<notin> set runs then sweep_plan_loop current lv runs ls p
      else (case owner_gone lv (lease_run_id l) of
              Inl e \<Rightarrow> Inl e
            | Inr gone \<Rightarrow>
                if expires_at l \<ge> current \<and> \<not> gone then sweep_plan_loop current lv runs ls p
                else sweep_plan_loop current lv runs ls
                  (if lease_state l \<in> {L_PENDING, L_DIRTY}
                   then p\<lparr>would_expire := would_expire p @ [lease_id l]\<rparr>
                   else p\<lparr>would_recover := would_recover p @ [lease_id l]\<rparr>)))"

definition sweep_plan :: "'s LeaseSink \<Rightarrow> instant \<Rightarrow> liveness \<Rightarrow> string list \<Rightarrow> 's \<Rightarrow> py_error + SweepPlan" where
  "sweep_plan K current lv runs s =
     sweep_plan_loop current lv runs (sink_active K s)
       \<lparr>would_expire = [], would_recover = [], would_mark_dirty = []\<rparr>"

section \<open>The preview\<close>

definition as_plan :: "SweepResult \<Rightarrow> SweepPlan" where
  "as_plan r = \<lparr>would_expire = swept_expired r, would_recover = swept_recovered r,
                would_mark_dirty = swept_dirty r\<rparr>"

lemma as_plan_simps [simp]:
  "would_expire (as_plan r) = swept_expired r" "would_recover (as_plan r) = swept_recovered r"
  "would_mark_dirty (as_plan r) = swept_dirty r"
  "(as_plan r)\<lparr>would_expire := x\<rparr> = as_plan (r\<lparr>swept_expired := x\<rparr>)"
  "(as_plan r)\<lparr>would_recover := x\<rparr> = as_plan (r\<lparr>swept_recovered := x\<rparr>)"
  by (simp_all add: as_plan_def)

lemma plan_loop_dry_run:
  assumes "\<not> jan_execute a" "jan_states a = None"
  shows "sweep_plan_loop (jan_current a) (jan_liveness a) (jan_run_ids a) ls (as_plan r)
     = map_sum id as_plan (fst (sweep_loop K a ls (r, s)))"
  using assms
proof (induction ls arbitrary: r)
  case (Cons l ls)
  then show ?case
    using Cons.IH [symmetric]
    by (auto simp: sweep_lease_def split: sum.splits)
qed simp

lemma dry_run_keeps_sink: "\<not> jan_execute a \<Longrightarrow> snd (sweep_loop K a ls (r, s)) = s"
  by (induction ls arbitrary: r) (auto simp: sweep_lease_def split: sum.splits)

section \<open>One lease\<close>

text \<open>Which leases a sweep acts on, when the liveness resolver answers.\<close>

definition sweep_due :: "sweep_args \<Rightarrow> FaultLease \<Rightarrow> bool" where
  "sweep_due a l \<longleftrightarrow>
     (jan_run_ids a = [] \<or> lease_run_id l \<in> set (jan_run_ids a))
     \<and> (\<forall>ss. jan_states a = Some ss \<longrightarrow> lease_state l \<in> set ss)
     \<and> (expires_at l < jan_current a \<or> owner_gone (jan_liveness a) (lease_run_id l) = Inr True)"

definition liveness_answers :: "sweep_args \<Rightarrow> bool" where
  "liveness_answers a \<longleftrightarrow> (\<forall>run e. owner_gone (jan_liveness a) run \<noteq> Inl e)"

lemma sweep_lease_skip: "liveness_answers a \<Longrightarrow> \<not> sweep_due a l \<Longrightarrow> sweep_lease K a l acc = (None, acc)"
  by (cases "owner_gone (jan_liveness a) (lease_run_id l)")
    (auto simp: sweep_lease_def sweep_due_def liveness_answers_def split: option.splits)

definition sweep_action ::
  "'s LeaseSink \<Rightarrow> sweep_args \<Rightarrow> string option \<Rightarrow> FaultLease \<Rightarrow> 's sweep_acc \<Rightarrow> py_error option \<times> 's sweep_acc" where
  "sweep_action K a n l acc =
     (if lease_state l = L_PENDING then jan_expire K (jan_now a) n l acc
      else if lease_state l = L_DIRTY then jan_surrender K (jan_now a) l acc
      else if lease_state l = L_RELEASING then jan_finalize K (jan_now a) l acc
      else jan_recover_orphan K (jan_now a) n l acc)"

lemma sweep_lease_due:
  assumes "liveness_answers a" "sweep_due a l" "jan_execute a"
  obtains n where "sweep_lease K a l acc = sweep_action K a n l acc"
proof -
  obtain g where g: "owner_gone (jan_liveness a) (lease_run_id l) = Inr g"
    using assms(1) by (cases "owner_gone (jan_liveness a) (lease_run_id l)") (auto simp: liveness_answers_def)
  have "sweep_lease K a l acc = sweep_action K a (if g then Some lost_owner else None) l acc"
    using assms(2,3) g
    by (auto simp: sweep_lease_def sweep_due_def sweep_action_def Let_def split: option.splits)
  then show thesis by (rule that)
qed

lemma sweep_loop_skip:
  assumes "liveness_answers a" "\<forall>l\<in>set ls. \<not> sweep_due a l"
  shows "sweep_loop K a ls acc = (Inr (fst acc), snd acc)"
  using assms(2) by (induction ls) (simp_all add: sweep_lease_skip [OF assms(1)])

text \<open>What a lease becomes when every save goes through.\<close>

definition sweep_record :: "FaultLease \<Rightarrow> SweepResult \<Rightarrow> SweepResult" where
  "sweep_record l r =
     (if lease_state l \<in> {L_PENDING, L_DIRTY}
      then r\<lparr>swept_expired := swept_expired r @ [lease_id l]\<rparr>
      else r\<lparr>swept_recovered := swept_recovered r @ [lease_id l]\<rparr>)"

definition sweep_goal :: "FaultLease \<Rightarrow> LeaseState" where
  "sweep_goal l = (if lease_state l \<in> {L_PENDING, L_DIRTY} then L_EXPIRED else L_RELEASED)"

context reliable_sink
begin

lemma transition_save_total:
  assumes "ok s" "lease_inv l" "dump_duration (ttl l) \<noteq> None"
    and "t \<in> lease_transitions (lease_state l)" "t \<notin> {L_ACTIVE, L_DIRTY}"
  shows "\<exists>m s'. transition_save K (janitor_args t now n) l s = Inr (m, s')
    \<and> ok s' \<and> lease_inv m \<and> lease_state m = t \<and> lease_id m = lease_id l
    \<and> sink_load K s' = (sink_load K s)(lease_id l \<mapsto> m) \<and> dump_duration (ttl m) \<noteq> None"
proof -
  obtain m where m: "transition (janitor_args t now n) l = Inr m"
    using transition_succeeds [of l "janitor_args t now n"] assms by (auto simp: janitor_args_def)
  obtain s' where s': "sink_save K m s = Inr s'" using save_total by blast
  have fr: "lease_id m = lease_id l" "lease_state m = t"
    using transition_frame [OF m] by (simp_all add: janitor_args_def)
  have inv: "lease_inv m" by (rule transition_inv [OF assms(2) m])
  have "dump_duration (ttl m) \<noteq> None"
    using transition_frame(7) [OF m] dump_duration_stable [of "ttl l" "ttl m"]
    by (simp add: duration_stable_def)
  moreover have "sink_load K s' = (sink_load K s)(lease_id l \<mapsto> m)"
    using load_save [OF assms(1) s'] fr(1) by simp
  moreover have "transition_save K (janitor_args t now n) l s = Inr (m, s')"
    using m s' by (simp add: transition_save_def)
  ultimately show ?thesis using ok_save [OF assms(1) inv s'] inv fr by blast
qed

lemma release_orphan_reliable:
  assumes "ok s" "lease_inv l" "dump_duration (ttl l) \<noteq> None" "lease_state l = L_ORPHANED"
  shows "\<exists>m s'. release_orphan K now l s = (None, s') \<and> ok s' \<and> lease_id m = lease_id l
    \<and> lease_state m = L_RELEASED \<and> sink_load K s' = (sink_load K s)(lease_id l \<mapsto> m)"
proof -
  have e1: "L_RELEASING \<in> lease_transitions (lease_state l)" "L_RELEASING \<notin> {L_ACTIVE, L_DIRTY}"
    using assms(4) by simp_all
  obtain m1 s1 where 1: "transition_save K (janitor_args L_RELEASING now None) l s = Inr (m1, s1)"
    "ok s1" "lease_inv m1" "lease_state m1 = L_RELEASING" "lease_id m1 = lease_id l"
    "sink_load K s1 = (sink_load K s)(lease_id l \<mapsto> m1)" "dump_duration (ttl m1) \<noteq> None"
    using transition_save_total [OF assms(1-3) e1, of now None] by blast
  have e2: "L_RELEASED \<in> lease_transitions (lease_state m1)" "L_RELEASED \<notin> {L_ACTIVE, L_DIRTY}"
    using 1(4) by simp_all
  obtain m2 s2 where 2: "transition_save K (janitor_args L_RELEASED now None) m1 s1 = Inr (m2, s2)"
    "ok s2" "lease_state m2 = L_RELEASED" "lease_id m2 = lease_id m1"
    "sink_load K s2 = (sink_load K s1)(lease_id m1 \<mapsto> m2)"
    using transition_save_total [OF 1(2,3,7) e2, of now None] by blast
  have "release_orphan K now l s = (None, s2)"
    by (simp add: release_orphan_def 1(1) 2(1))
  moreover have "sink_load K s2 = (sink_load K s)(lease_id l \<mapsto> m2)"
    by (simp add: 2(5) 1(5,6))
  ultimately show ?thesis using 2(2,3,4) 1(5) by metis
qed

text \<open>The shape of every action: its effect on the lease, the report and the sink.\<close>

definition swept :: "FaultLease \<Rightarrow> SweepResult \<Rightarrow> 's \<Rightarrow> py_error option \<times> 's sweep_acc \<Rightarrow> bool" where
  "swept l r s out \<longleftrightarrow>
     (\<exists>m s'. out = (None, (sweep_record l r, s')) \<and> ok s' \<and> lease_id m = lease_id l
        \<and> lease_state m = sweep_goal l \<and> sink_load K s' = (sink_load K s)(lease_id l \<mapsto> m))"

lemma sweep_action_reliable:
  assumes "ok s" "lease_inv l" "dump_duration (ttl l) \<noteq> None" "\<not> is_safe_terminal l"
  shows "swept l r s (sweep_action K a n l (r, s))"
proof (cases "lease_state l")
  case L_PENDING
  then have e: "L_EXPIRED \<in> lease_transitions (lease_state l)" "L_EXPIRED \<notin> {L_ACTIVE, L_DIRTY}"
    by simp_all
  obtain m s' where m: "transition_save K (janitor_args L_EXPIRED (jan_now a) n) l s = Inr (m, s')"
    "ok s'" "lease_state m = L_EXPIRED" "lease_id m = lease_id l"
    "sink_load K s' = (sink_load K s)(lease_id l \<mapsto> m)"
    using transition_save_total [OF assms(1-3) e, of "jan_now a" n] by blast
  have "sweep_action K a n l (r, s) = (None, (sweep_record l r, s'))"
    using m(1) L_PENDING
    by (auto simp: sweep_action_def jan_expire_def sweep_record_def transition_save_def save_quietly_def
        split: sum.splits)
  with m L_PENDING show ?thesis unfolding swept_def sweep_goal_def by auto
next
  case L_DIRTY
  then have e: "L_EXPIRED \<in> lease_transitions (lease_state l)" "L_EXPIRED \<notin> {L_ACTIVE, L_DIRTY}"
    by simp_all
  obtain m s' where m: "transition_save K (janitor_args L_EXPIRED (jan_now a) None) l s = Inr (m, s')"
    "ok s'" "lease_state m = L_EXPIRED" "lease_id m = lease_id l"
    "sink_load K s' = (sink_load K s)(lease_id l \<mapsto> m)"
    using transition_save_total [OF assms(1-3) e, of "jan_now a" None] by blast
  have "sweep_action K a n l (r, s) = (None, (sweep_record l r, s'))"
    using m(1) L_DIRTY by (simp add: sweep_action_def jan_surrender_def sweep_record_def)
  with m L_DIRTY show ?thesis unfolding swept_def sweep_goal_def by auto
next
  case L_RELEASING
  then have e: "L_RELEASED \<in> lease_transitions (lease_state l)" "L_RELEASED \<notin> {L_ACTIVE, L_DIRTY}"
    by simp_all
  obtain m s' where m: "transition_save K (janitor_args L_RELEASED (jan_now a) None) l s = Inr (m, s')"
    "ok s'" "lease_state m = L_RELEASED" "lease_id m = lease_id l"
    "sink_load K s' = (sink_load K s)(lease_id l \<mapsto> m)"
    using transition_save_total [OF assms(1-3) e, of "jan_now a" None] by blast
  have "sweep_action K a n l (r, s) = (None, (sweep_record l r, s'))"
    using m(1) L_RELEASING by (simp add: sweep_action_def jan_finalize_def sweep_record_def)
  with m L_RELEASING show ?thesis unfolding swept_def sweep_goal_def by auto
next
  case L_ORPHANED
  obtain m s' where m: "release_orphan K (jan_now a) l s = (None, s')" "ok s'" "lease_id m = lease_id l"
    "lease_state m = L_RELEASED" "sink_load K s' = (sink_load K s)(lease_id l \<mapsto> m)"
    using release_orphan_reliable [OF assms(1-3) L_ORPHANED, of "jan_now a"] by blast
  have "sweep_action K a n l (r, s) = (None, (sweep_record l r, s'))"
    using m(1) L_ORPHANED by (simp add: sweep_action_def jan_recover_orphan_def sweep_record_def)
  with m L_ORPHANED show ?thesis unfolding swept_def sweep_goal_def by auto
next
  case L_ACTIVE
  define x where "x = janitor_args L_ORPHANED (jan_now a)
    (Some (if truthy n then the n else ''lease '' @ lease_id l @ '' exceeded TTL without release''))"
  obtain o1 where o1: "transition x l = Inr o1"
    using transition_succeeds [of l x] assms(2,3) L_ACTIVE by (auto simp: x_def janitor_args_def)
  have fr: "lease_id o1 = lease_id l" "lease_state o1 = L_ORPHANED"
    using transition_frame [OF o1] by (simp_all add: x_def janitor_args_def)
  have d: "dump_duration (ttl o1) \<noteq> None"
    using transition_frame(7) [OF o1] dump_duration_stable [of "ttl l" "ttl o1"]
    by (simp add: duration_stable_def)
  obtain m s' where m: "release_orphan K (jan_now a) o1 s = (None, s')" "ok s'" "lease_id m = lease_id o1"
    "lease_state m = L_RELEASED" "sink_load K s' = (sink_load K s)(lease_id o1 \<mapsto> m)"
    using release_orphan_reliable [OF assms(1) transition_inv [OF assms(2) o1] d fr(2), of "jan_now a"]
    by blast
  have "sweep_action K a n l (r, s) = (None, (sweep_record l r, s'))"
    using m(1) L_ACTIVE o1 fr(1)
    by (simp add: sweep_action_def jan_recover_orphan_def sweep_record_def x_def)
  with m fr(1) L_ACTIVE show ?thesis unfolding swept_def sweep_goal_def by auto
qed (use assms(4) in \<open>simp_all add: is_safe_terminal_def safe_terminals_def\<close>)

text \<open>A whole sweep.\<close>

lemma sweep_loop_reliable:
  assumes "liveness_answers a" "jan_execute a" "ok s" "distinct (map lease_id ls)"
    and "\<forall>l\<in>set ls. lease_inv l \<and> dump_duration (ttl l) \<noteq> None \<and> \<not> is_safe_terminal l"
  shows "\<exists>s'. sweep_loop K a ls (r, s) = (Inr (fold sweep_record (filter (sweep_due a) ls) r), s')
    \<and> ok s'
    \<and> (\<forall>l\<in>set ls. sweep_due a l \<longrightarrow>
         (\<exists>m. sink_load K s' (lease_id l) = Some m \<and> lease_state m = sweep_goal l))
    \<and> (\<forall>i. i \<notin> lease_id ` set (filter (sweep_due a) ls) \<longrightarrow> sink_load K s' i = sink_load K s i)"
  using assms(3-)
proof (induction ls arbitrary: r s)
  case Nil
  then show ?case by simp
next
  case (Cons l ls)
  show ?case
  proof (cases "sweep_due a l")
    case False
    have step: "sweep_loop K a (l # ls) (r, s) = sweep_loop K a ls (r, s)"
      by (simp add: sweep_lease_skip [OF assms(1) False])
    show ?thesis
      unfolding step using Cons.IH [of s r] Cons.prems False by auto
  next
    case True
    obtain n where n: "sweep_lease K a l (r, s) = sweep_action K a n l (r, s)"
      by (rule sweep_lease_due [OF assms(1) True assms(2)])
    have "swept l r s (sweep_action K a n l (r, s))"
      using Cons.prems by (intro sweep_action_reliable) auto
    then obtain m s1 where m: "sweep_action K a n l (r, s) = (None, (sweep_record l r, s1))" "ok s1"
      "lease_state m = sweep_goal l" "sink_load K s1 = (sink_load K s)(lease_id l \<mapsto> m)"
      unfolding swept_def by blast
    have step: "sweep_loop K a (l # ls) (r, s) = sweep_loop K a ls (sweep_record l r, s1)"
      by (simp add: n m(1))
    obtain s' where s': "sweep_loop K a ls (sweep_record l r, s1)
        = (Inr (fold sweep_record (filter (sweep_due a) ls) (sweep_record l r)), s')" "ok s'"
      "\<forall>l\<in>set ls. sweep_due a l \<longrightarrow>
         (\<exists>m. sink_load K s' (lease_id l) = Some m \<and> lease_state m = sweep_goal l)"
      "\<forall>i. i \<notin> lease_id ` set (filter (sweep_due a) ls) \<longrightarrow> sink_load K s' i = sink_load K s1 i"
      using Cons.IH [OF m(2), of "sweep_record l r"] Cons.prems by auto
    have l: "sink_load K s' (lease_id l) = Some m"
      using s'(4) m(4) Cons.prems(2) by auto
    have other: "sink_load K s' i = sink_load K s i"
      if "i \<notin> lease_id ` set (filter (sweep_due a) (l # ls))" for i
      using s'(4) m(4) that True by auto
    show ?thesis
      unfolding step using s'(1,2,3) l m(3) True other by auto
  qed
qed

end

section \<open>Sinks that fail\<close>

text \<open>
  With saves that may fail, an action still touches one lease only, and reports it recovered only
  when the sink holds it as RELEASED.
\<close>

context lease_sink
begin

definition touches :: "string \<Rightarrow> 's \<Rightarrow> 's \<Rightarrow> bool" where
  "touches i s s' \<longleftrightarrow> ok s' \<and> (\<forall>j. j \<noteq> i \<longrightarrow> sink_load K s' j = sink_load K s j)"

lemma touches_refl: "ok s \<Longrightarrow> touches i s s"
  by (simp add: touches_def)

lemma touches_trans: "touches i s t \<Longrightarrow> touches i t u \<Longrightarrow> touches i s u"
  by (simp add: touches_def)

lemma transition_save_touches:
  assumes "ok s" "lease_inv l" "transition_save K a l s = Inr (m, s')"
  shows "touches (lease_id l) s s' \<and> sink_load K s' (lease_id l) = Some m
    \<and> lease_state m = to_state a \<and> lease_id m = lease_id l \<and> lease_inv m"
proof -
  obtain t: "transition a l = Inr m" and sv: "sink_save K m s = Inr s'"
    using assms(3) by (auto simp: transition_save_def split: sum.splits)
  have "lease_inv m" by (rule transition_inv [OF assms(2) t])
  then show ?thesis
    using transition_frame [OF t] load_save [OF assms(1) sv] ok_save [OF assms(1) _ sv]
    by (simp add: touches_def)
qed

lemma save_quietly_touches: "ok s \<Longrightarrow> lease_inv m \<Longrightarrow> touches (lease_id m) s (save_quietly K m s)"
  by (cases "sink_save K m s")
    (auto simp: save_quietly_def touches_def load_save ok_save)

lemma run_all_inv:
  "lease_inv l \<Longrightarrow> run_all transition cs l = Inr m \<Longrightarrow> lease_inv m \<and> lease_id m = lease_id l"
proof (induction cs arbitrary: l)
  case (Cons a cs)
  then obtain x where "transition a l = Inr x" "run_all transition cs x = Inr m"
    by (auto split: sum.splits)
  then show ?case
    using Cons.IH [of x] transition_inv [OF Cons.prems(1)] transition_frame(3) [of a l x] by simp
qed simp

lemma dirty_from_touches:
  assumes "ok s" "lease_inv l"
  shows "touches (lease_id l) s (dirty_from K now l s)"
proof -
  let ?d = "janitor_args L_DIRTY now (Some ''orphan recovery failed: '')"
  let ?cs = "if lease_state l = L_RELEASING then [?d] else [janitor_args L_RELEASING now None, ?d]"
  have eq: "dirty_from K now l s = (case run_all transition ?cs l of Inl _ \<Rightarrow> s | Inr m \<Rightarrow> save_quietly K m s)"
    by (simp add: dirty_from_def Let_def split: sum.splits)
  show ?thesis
  proof (cases "run_all transition ?cs l")
    case (Inl e)
    then show ?thesis using assms(1) by (simp add: eq touches_refl)
  next
    case (Inr m)
    then have "lease_inv m" "lease_id m = lease_id l"
      using run_all_inv [OF assms(2)] by blast+
    then show ?thesis using Inr save_quietly_touches [OF assms(1), of m] by (simp add: eq)
  qed
qed

definition honest_step :: "FaultLease \<Rightarrow> 's sweep_acc \<Rightarrow> py_error option \<times> 's sweep_acc \<Rightarrow> bool" where
  "honest_step l acc out \<longleftrightarrow>
     (case acc of (r, s) \<Rightarrow> case out of (e, (r', s')) \<Rightarrow>
        touches (lease_id l) s s'
        \<and> (swept_recovered r' = swept_recovered r
           \<or> swept_recovered r' = swept_recovered r @ [lease_id l]
             \<and> (\<exists>m. sink_load K s' (lease_id l) = Some m \<and> lease_state m = L_RELEASED)))"

lemma release_orphan_honest:
  assumes "ok s" "lease_inv l" "release_orphan K now l s = (e, s')"
  shows "touches (lease_id l) s s'
    \<and> (e = None \<longrightarrow> (\<exists>m. sink_load K s' (lease_id l) = Some m \<and> lease_state m = L_RELEASED))"
proof (cases "transition_save K (janitor_args L_RELEASING now None) l s")
  case (Inl x)
  then show ?thesis using assms by (auto simp: release_orphan_def touches_refl)
next
  case (Inr p)
  obtain m s1 where p: "p = (m, s1)" by force
  note T = transition_save_touches [OF assms(1,2) Inr [unfolded p]]
  then have ok1: "ok s1" by (simp add: touches_def)
  show ?thesis
  proof (cases "transition_save K (janitor_args L_RELEASED now None) m s1")
    case (Inl x)
    then show ?thesis using assms(3) Inr p T by (auto simp: release_orphan_def)
  next
    case (Inr q)
    obtain m2 s2 where q: "q = (m2, s2)" by force
    have T2: "touches (lease_id m) s1 s2 \<and> sink_load K s2 (lease_id m) = Some m2
        \<and> lease_state m2 = L_RELEASED"
      using transition_save_touches [OF ok1 _ Inr [unfolded q]] T by (simp add: janitor_args_def)
    have "(e, s') = (None, s2)"
      using assms(3) \<open>transition_save K _ l s = Inr p\<close> Inr p q by (simp add: release_orphan_def)
    then show ?thesis using T T2 touches_trans by auto
  qed
qed

lemma sweep_action_honest:
  assumes ok: "ok s" and inv: "lease_inv l"
  shows "honest_step l (r, s) (sweep_action K a n l (r, s))"
proof -
  consider "lease_state l = L_PENDING" | "lease_state l = L_DIRTY" | "lease_state l = L_RELEASING"
    | "lease_state l \<notin> {L_PENDING, L_DIRTY, L_RELEASING}" by blast
  then show ?thesis
  proof cases
    case 1
    show ?thesis
    proof (cases "transition (janitor_args L_EXPIRED (jan_now a) n) l")
      case (Inl e)
      with 1 show ?thesis
        by (simp add: sweep_action_def jan_expire_def honest_step_def ok touches_refl)
    next
      case (Inr m)
      have "lease_inv m" "lease_id m = lease_id l"
        using transition_inv [OF inv Inr] transition_frame [OF Inr] by simp_all
      then show ?thesis
        using 1 Inr save_quietly_touches [OF ok, of m]
        by (simp add: sweep_action_def jan_expire_def honest_step_def)
    qed
  next
    case 2
    show ?thesis
    proof (cases "transition_save K (janitor_args L_EXPIRED (jan_now a) None) l s")
      case (Inl e)
      with 2 show ?thesis
        by (simp add: sweep_action_def jan_surrender_def honest_step_def ok touches_refl)
    next
      case (Inr p)
      obtain m s' where p: "p = (m, s')" by force
      from 2 transition_save_touches [OF ok inv Inr [unfolded p]] show ?thesis
        by (simp add: sweep_action_def jan_surrender_def honest_step_def Inr p)
    qed
  next
    case 3
    show ?thesis
    proof (cases "transition_save K (janitor_args L_RELEASED (jan_now a) None) l s")
      case (Inl e)
      with 3 show ?thesis
        by (simp add: sweep_action_def jan_finalize_def honest_step_def ok touches_refl dirty_from_touches [OF ok inv])
    next
      case (Inr p)
      obtain m s' where p: "p = (m, s')" by force
      from 3 transition_save_touches [OF ok inv Inr [unfolded p]] show ?thesis
        by (simp add: sweep_action_def jan_finalize_def honest_step_def Inr p)
    qed
  next
    case 4
    then have act: "sweep_action K a n l (r, s) = jan_recover_orphan K (jan_now a) n l (r, s)"
      by (simp add: sweep_action_def)
    let ?t = "if lease_state l = L_ACTIVE
               then transition (janitor_args L_ORPHANED (jan_now a)
                      (Some (if truthy n then the n
                             else ''lease '' @ lease_id l @ '' exceeded TTL without release''))) l
               else Inr l"
    show ?thesis
    proof (cases ?t)
      case (Inl e)
      then show ?thesis
        unfolding act jan_recover_orphan_def by (simp add: honest_step_def ok touches_refl)
    next
      case (Inr x)
      have x: "lease_inv x" "lease_id x = lease_id l"
        using Inr inv transition_inv [OF inv] transition_frame(3) by (auto split: if_splits)
      obtain e s' where e: "release_orphan K (jan_now a) x s = (e, s')" by force
      note R = release_orphan_honest [OF ok x(1) e]
      then have ok': "ok s'" by (simp add: touches_def)
      note Dt = touches_trans [OF conjunct1 [OF R] dirty_from_touches [OF ok' x(1), of "jan_now a"]]
      show ?thesis
        unfolding act jan_recover_orphan_def prod.case Inr sum.case e
        using R Dt x(2) by (cases e) (auto simp: honest_step_def)
    qed
  qed
qed

lemma sweep_lease_cases:
  "sweep_lease K a l acc = (None, acc) \<or> (\<exists>e. sweep_lease K a l acc = (Some e, acc))
   \<or> \<not> jan_execute a \<or> (\<exists>n. sweep_lease K a l acc = sweep_action K a n l acc)"
proof (cases "owner_gone (jan_liveness a) (lease_run_id l)")
  case (Inl e)
  then show ?thesis by (simp add: sweep_lease_def)
next
  case (Inr g)
  have "sweep_lease K a l acc = (None, acc) \<or> \<not> jan_execute a
     \<or> sweep_lease K a l acc = sweep_action K a (if g then Some lost_owner else None) l acc"
    using Inr by (simp add: sweep_lease_def sweep_action_def Let_def)
  then show ?thesis by blast
qed

lemma sweep_lease_honest:
  assumes "jan_execute a" "ok s" "lease_inv l"
  shows "honest_step l (r, s) (sweep_lease K a l (r, s))"
proof -
  have "honest_step l (r, s) (e, (r, s))" for e
    using assms(2) by (simp add: honest_step_def touches_refl)
  then show ?thesis
    using sweep_lease_cases [of a l "(r, s)"] assms(1) sweep_action_honest [OF assms(2,3)] by metis
qed

lemma sweep_loop_honest:
  assumes "jan_execute a" "ok s" "distinct (map lease_id ls)" "\<forall>l\<in>set ls. lease_inv l"
    and "\<forall>i\<in>set (swept_recovered r). i \<notin> lease_id ` set ls
           \<and> (\<exists>m. sink_load K s i = Some m \<and> lease_state m = L_RELEASED)"
    and "sweep_loop K a ls (r, s) = (Inr r', s')"
  shows "\<forall>i\<in>set (swept_recovered r'). \<exists>m. sink_load K s' i = Some m \<and> lease_state m = L_RELEASED"
  using assms(2-)
proof (induction ls arbitrary: r s)
  case Nil
  then show ?case by simp
next
  case (Cons l ls)
  obtain e r1 s1 where one: "sweep_lease K a l (r, s) = (e, (r1, s1))" by (metis prod.collapse)
  have h: "honest_step l (r, s) (e, (r1, s1))"
    using sweep_lease_honest [OF assms(1) Cons.prems(1), of l r] Cons.prems(3) one by simp
  have e: "e = None" using Cons.prems(5) one by (cases e) simp_all
  have loop: "sweep_loop K a ls (r1, s1) = (Inr r', s')" using Cons.prems(5) one e by simp
  have t: "touches (lease_id l) s s1" using h by (simp add: honest_step_def)
  show ?case
  proof (rule Cons.IH [OF _ _ _ _ loop])
    show "ok s1" using t by (simp add: touches_def)
    show "distinct (map lease_id ls)" using Cons.prems(2) by simp
    show "\<forall>l\<in>set ls. lease_inv l" using Cons.prems(3) by simp
    have old: "i \<notin> lease_id ` set ls \<and> (\<exists>m. sink_load K s1 i = Some m \<and> lease_state m = L_RELEASED)"
      if "i \<in> set (swept_recovered r)" for i
    proof -
      have "i \<notin> lease_id ` set (l # ls)" "\<exists>m. sink_load K s i = Some m \<and> lease_state m = L_RELEASED"
        using Cons.prems(4) that by blast+
      then show ?thesis using t by (auto simp: touches_def)
    qed
    have new: "lease_id l \<notin> lease_id ` set ls" using Cons.prems(2) by simp
    show "\<forall>i\<in>set (swept_recovered r1). i \<notin> lease_id ` set ls
           \<and> (\<exists>m. sink_load K s1 i = Some m \<and> lease_state m = L_RELEASED)"
      using h old new unfolding honest_step_def prod.case by (metis Un_iff empty_set insert_iff list.set(2) set_append empty_iff)
  qed
qed

end

text \<open>
  The in-memory sink behind a store that refuses some writes: \<open>f\<close> names the error each lease's
  save runs into, if any.
\<close>

definition flaky_sink :: "(FaultLease \<Rightarrow> py_error option) \<Rightarrow> lease_dict LeaseSink" where
  "flaky_sink f = mem_sink\<lparr>sink_save := (\<lambda>l s. case f l of Some e \<Rightarrow> Inl e | None \<Rightarrow> mem_save l s)\<rparr>"

lemma flaky_sink_simps [simp]:
  "sink_save (flaky_sink f) l s = (case f l of Some e \<Rightarrow> Inl e | None \<Rightarrow> sink_save mem_sink l s)"
  "sink_load (flaky_sink f) = sink_load mem_sink"
  "sink_active (flaky_sink f) = sink_active mem_sink"
  "sink_next (flaky_sink f) = sink_next mem_sink"
  by (simp_all add: flaky_sink_def mem_sink_def mem_save_def split: option.splits)

interpretation flaky: lease_sink "flaky_sink f" mem_ok for f
proof unfold_locales
  fix s l s' i n
  show "mem_ok s \<Longrightarrow> sink_save (flaky_sink f) l s = Inr s' \<Longrightarrow>
      sink_load (flaky_sink f) s' = (sink_load (flaky_sink f) s)(lease_id l \<mapsto> l)"
    using mem.load_save [of s l s'] by (simp split: option.splits)
  show "mem_ok s \<Longrightarrow> lease_inv l \<Longrightarrow> sink_save (flaky_sink f) l s = Inr s' \<Longrightarrow> mem_ok s'"
    using mem.ok_save [of s l s'] by (simp split: option.splits)
  show "mem_ok s \<Longrightarrow> sink_load (flaky_sink f) s i = Some l \<Longrightarrow> lease_id l = i \<and> lease_inv l"
    using mem.load_inv [of s i l] by simp
  show "mem_ok s \<Longrightarrow> l \<in> set (sink_active (flaky_sink f) s) \<longleftrightarrow>
      sink_load (flaky_sink f) s (lease_id l) = Some l \<and> \<not> is_safe_terminal l"
    using mem.active_iff [of s l] by simp
  show "mem_ok s \<Longrightarrow> distinct (map lease_id (sink_active (flaky_sink f) s))"
    using mem.active_distinct [of s] by simp
  show "mem_ok s \<Longrightarrow> sink_next (flaky_sink f) s < int n \<Longrightarrow> sink_load (flaky_sink f) s (lease_id_of n) = None"
    using mem.next_fresh [of s n] by simp
  show "0 \<le> sink_next (flaky_sink f) s"
    using mem.next_nonneg [of s] by simp
qed

section \<open>Properties\<close>

text \<open>
  The operator's preview is the dry run. \<open>plan\<close> and \<open>sweep(execute=False)\<close> are two loops in
  the code; over every sink they report the same three lists (or the same failure of the liveness
  resolver), and the dry run leaves the sink as it was.
\<close>

theorem plan_is_dry_run:
  "sweep_plan K (jan_current a) (jan_liveness a) (jan_run_ids a) s
     = map_sum id as_plan (fst (sweep K (a\<lparr>jan_states := None, jan_execute := False\<rparr>) s))
   \<and> snd (sweep K (a\<lparr>jan_states := None, jan_execute := False\<rparr>) s) = s"
  using plan_loop_dry_run [of "a\<lparr>jan_states := None, jan_execute := False\<rparr>" "sink_active K s" no_sweep K s]
    dry_run_keeps_sink [of "a\<lparr>jan_states := None, jan_execute := False\<rparr>" K "sink_active K s" no_sweep s]
  by (simp add: sweep_plan_def sweep_def as_plan_def no_sweep_def)

lemma sweep_effect:
  assumes "mem_ok s" "liveness_answers a" "jan_execute a"
    and "\<forall>l\<in>set (mem_active s). dump_duration (ttl l) \<noteq> None"
  shows "\<exists>s'. sweep mem_sink a s = (Inr (fold sweep_record (filter (sweep_due a) (mem_active s)) no_sweep), s')
    \<and> mem_ok s'
    \<and> (\<forall>l\<in>set (mem_active s). sweep_due a l \<longrightarrow>
         (\<exists>m. mem_load s' (lease_id l) = Some m \<and> lease_state m = sweep_goal l))
    \<and> (\<forall>i. i \<notin> lease_id ` set (filter (sweep_due a) (mem_active s)) \<longrightarrow> mem_load s' i = mem_load s i)"
proof -
  have act: "sink_active mem_sink s = mem_active s" by (simp add: mem_active_def)
  have "\<forall>l\<in>set (mem_active s). lease_inv l \<and> dump_duration (ttl l) \<noteq> None \<and> \<not> is_safe_terminal l"
    using assms(4) mem.active_inv [OF assms(1)] mem.active_iff [OF assms(1)] unfolding act by blast
  moreover have "distinct (map lease_id (mem_active s))"
    using mem.active_distinct [OF assms(1)] unfolding act .
  ultimately show ?thesis
    using mem.sweep_loop_reliable [OF assms(2,3,1), of "mem_active s" no_sweep]
    unfolding sweep_def act by (simp add: mem_load_def)
qed


definition demo_sweep :: sweep_args where
  "demo_sweep = \<lparr>jan_now = 200000000, jan_current = 200000000,
     jan_liveness = Some (\<lambda>run. if run = ''r-1'' then Inr None else Inl LookupErr),
     jan_run_ids = [], jan_states = None, jan_execute = True\<rparr>"

lemma demo_sweep_answers: "liveness_answers demo_sweep"
  by (simp add: liveness_answers_def demo_sweep_def owner_gone_def split: sum.splits)

lemma demo_both_ok: "mem_ok (sink_state demo_both)"
  by (simp add: mem_ok_def demo_both_def lease_inv_def lease_wf_def demo_eval)

lemma demo_both_leases: "mem_active (sink_state demo_both) = [demo_orphan, demo_lease 2 100000000]"
  by (simp add: mem_active_def demo_both_def demo_eval)

lemma demo_due: "sweep_due demo_sweep demo_orphan" "sweep_due demo_sweep (demo_lease 2 100000000)"
  by (simp_all add: sweep_due_def demo_sweep_def demo_eval)


text \<open>
  After an executed sweep nothing that should have gone is left: over the in-memory sink, under
  the same conditions, no live lease of the selected runs and states is past its TTL or ownerless,
  so an immediate second sweep finds nothing to do and reports quiet.
\<close>

theorem sweep_idempotent:
  assumes "mem_ok s" "liveness_answers a" "jan_execute a"
    and "\<forall>l\<in>set (mem_active s). dump_duration (ttl l) \<noteq> None"
    and "sweep mem_sink a s = (r, s')"
  shows "(\<forall>l\<in>set (mem_active s'). \<not> sweep_due a l) \<and> sweep mem_sink a s' = (Inr no_sweep, s')"
proof -
  obtain s1 where s1: "sweep mem_sink a s = (Inr (fold sweep_record (filter (sweep_due a) (mem_active s)) no_sweep), s1)"
    "mem_ok s1"
    "\<forall>l\<in>set (mem_active s). sweep_due a l \<longrightarrow>
         (\<exists>m. mem_load s1 (lease_id l) = Some m \<and> lease_state m = sweep_goal l)"
    "\<forall>i. i \<notin> lease_id ` set (filter (sweep_due a) (mem_active s)) \<longrightarrow> mem_load s1 i = mem_load s i"
    using sweep_effect [OF assms(1-4)] by blast
  have eq: "s' = s1" using s1(1) assms(5) by simp
  have iff: "x \<in> set (mem_active t) \<longleftrightarrow> mem_load t (lease_id x) = Some x \<and> \<not> is_safe_terminal x"
    if "mem_ok t" for t x
    using mem.active_iff [OF that, of x] by (simp add: mem_active_def mem_load_def)
  have undue: "\<forall>l\<in>set (mem_active s'). \<not> sweep_due a l"
  proof
    fix l
    assume "l \<in> set (mem_active s')"
    then have l: "mem_load s1 (lease_id l) = Some l" "\<not> is_safe_terminal l"
      using iff [OF s1(2)] eq by simp_all
    show "\<not> sweep_due a l"
    proof (cases "lease_id l \<in> lease_id ` set (filter (sweep_due a) (mem_active s))")
      case True
      then obtain x where "x \<in> set (mem_active s)" "sweep_due a x" "lease_id l = lease_id x" by auto
      then have "\<exists>m x. mem_load s1 (lease_id l) = Some m \<and> lease_state m = sweep_goal x"
        using s1(3) by metis
      then have "is_safe_terminal l"
        using l(1) by (auto simp: is_safe_terminal_def safe_terminals_def sweep_goal_def split: if_splits)
      with l(2) show ?thesis by simp
    next
      case False
      then have "l \<in> set (mem_active s)" using s1(4) l iff [OF assms(1)] by simp
      with False show ?thesis by auto
    qed
  qed
  then have "sweep_loop mem_sink a (mem_active s') (no_sweep, s') = (Inr no_sweep, s')"
    by (simp add: sweep_loop_skip [OF assms(2)])
  then show ?thesis using undue by (simp add: sweep_def mem_active_def)
qed

theorem sweep_idempotent_witness:
  "\<exists>r s'. sweep mem_sink demo_sweep (sink_state demo_both) = (r, s')
     \<and> sweep mem_sink demo_sweep s' = (Inr no_sweep, s')"
proof -
  have "\<forall>l\<in>set (mem_active (sink_state demo_both)). dump_duration (ttl l) \<noteq> None"
    unfolding demo_both_leases by (simp add: demo_eval)
  moreover have "jan_execute demo_sweep" by (simp add: demo_sweep_def)
  moreover obtain r s' where "sweep mem_sink demo_sweep (sink_state demo_both) = (r, s')" by force
  ultimately show ?thesis
    using sweep_idempotent [OF demo_both_ok demo_sweep_answers] by blast
qed

text \<open>
  C16. The janitor never claims a recovery it could not record. Whatever saves the store refuses,
  and whatever error they raise, every lease a completed sweep reports as recovered is held by the
  sink as RELEASED.
\<close>

theorem sweep_honest_recovery:
  assumes "mem_ok s" "jan_execute a" "sweep (flaky_sink f) a s = (Inr r, s')"
    and "i \<in> set (swept_recovered r)"
  shows "\<exists>m. mem_load s' i = Some m \<and> lease_state m = L_RELEASED"
proof -
  have "\<forall>i\<in>set (swept_recovered r). \<exists>m. sink_load (flaky_sink f) s' i = Some m \<and> lease_state m = L_RELEASED"
  proof (rule flaky.sweep_loop_honest [OF assms(2,1)])
    show "distinct (map lease_id (sink_active (flaky_sink f) s))"
      by (rule flaky.active_distinct [OF assms(1)])
    show "\<forall>l\<in>set (sink_active (flaky_sink f) s). lease_inv l"
      using flaky.active_inv [OF assms(1)] by blast
    show "sweep_loop (flaky_sink f) a (sink_active (flaky_sink f) s) (no_sweep, s) = (Inr r, s')"
      using assms(3) by (simp only: sweep_def)
  qed (simp add: no_sweep_def)
  with assms(4) show ?thesis by (simp add: mem_load_def)
qed

definition demo_failures :: "FaultLease \<Rightarrow> py_error option" where
  "demo_failures l = (if lease_state l = L_EXPIRED then Some OSErr else None)"

lemma demo_flaky_sweep:
  "\<exists>s'. sweep (flaky_sink demo_failures) demo_sweep (sink_state demo_both)
     = (Inr \<lparr>swept_expired = [''l-00000002''], swept_recovered = [''l-00000001''], swept_dirty = []\<rparr>, s')
     \<and> mem_load s' ''l-00000002'' = Some (demo_lease 2 100000000)"
  by (simp add: sweep_def mem_active_def demo_both_def demo_sweep_def sweep_lease_def owner_gone_def
      jan_expire_def jan_recover_orphan_def release_orphan_def transition_save_def save_quietly_def
      janitor_args_def demo_failures_def no_sweep_def mem_load_def demo_eval)

theorem sweep_honest_recovery_witness:
  "\<exists>r s' m. sweep (flaky_sink demo_failures) demo_sweep (sink_state demo_both) = (Inr r, s')
     \<and> mem_load s' ''l-00000001'' = Some m \<and> lease_state m = L_RELEASED"
proof -
  obtain s' where s': "sweep (flaky_sink demo_failures) demo_sweep (sink_state demo_both)
     = (Inr \<lparr>swept_expired = [''l-00000002''], swept_recovered = [''l-00000001''], swept_dirty = []\<rparr>, s')"
    using demo_flaky_sweep by blast
  have "jan_execute demo_sweep" by (simp add: demo_sweep_def)
  from sweep_honest_recovery [OF demo_both_ok this s', of "''l-00000001''"] s'
  show ?thesis by simp
qed

text \<open>
  The expiry path has no such guarantee: its save is made quietly, after the id was reported, so a
  lease can be reported expired and still hold its target (\<open>demo_flaky_sweep\<close>). And one lease
  whose TTL does not survive a dump ends the whole sweep: the transition of an ACTIVE or PENDING
  lease stands outside every \<open>try\<close>.
\<close>

lemma long_ttl_stops_sweep:
  assumes "1000000000000 \<le> ttl l" "lease_state l \<in> {L_PENDING, L_ACTIVE}" "sweep_due a l"
    and "liveness_answers a" "jan_execute a"
  shows "fst (sweep_loop K a (l # ls) (r, s)) = Inl (SchemaInvalid ''duration'')"
proof -
  obtain n where n: "sweep_lease K a l (r, s) = sweep_action K a n l (r, s)"
    by (rule sweep_lease_due [OF assms(4,3,5)])
  have d: "dump_duration (ttl l) = None" using dump_duration_long [of "ttl l"] assms(1) by simp
  show ?thesis
    using assms(2) d
    by (auto simp: n sweep_action_def jan_expire_def jan_recover_orphan_def transition_def
        can_transition_def janitor_args_def)
qed

end
