(* ===== verification/Recovery_Log.thy ===== *)
theory Recovery_Log
  imports Janitor_Sweep "HOL-Library.List_Lexorder" "HOL-Library.Char_ord"
begin

text \<open>
  \<open>controller/recovery.py\<close>: the recovery state machine with its append-only audit trail, and the
  recovery service that plans and executes a sweep for selected runs.
\<close>

section \<open>The audit trail\<close>

datatype RecoveryStatus = R_IDLE | R_RECOVERING | R_VERIFIED | R_DIRTY

fun recovery_transitions :: "RecoveryStatus \<Rightarrow> RecoveryStatus set" where
  "recovery_transitions R_IDLE = {R_RECOVERING}"
| "recovery_transitions R_RECOVERING = {R_VERIFIED, R_DIRTY}"
| "recovery_transitions R_DIRTY = {R_RECOVERING}"
| "recovery_transitions R_VERIFIED = {}"

record RecoveryTransition =
  rt_resource :: string
  rt_from :: RecoveryStatus
  rt_to :: RecoveryStatus
  rt_reason :: string
  rt_attempt :: nat
  rt_timestamp :: instant
  rt_identity :: "string option"

text \<open>
  The log: the rows of the SQLite table when there is a store, and the in-memory list. An insert
  that fails leaves both as they were, since it runs first; \<open>ins\<close> is the error it meets, if any.
\<close>

record RecoveryAuditLog =
  audit_store :: "RecoveryTransition list option"
  audit_transitions :: "RecoveryTransition list"

definition audit_record ::
  "(RecoveryTransition \<Rightarrow> py_error option) \<Rightarrow> RecoveryTransition \<Rightarrow> RecoveryAuditLog \<Rightarrow> py_error + RecoveryAuditLog" where
  "audit_record ins t g =
     (case audit_store g of
        None \<Rightarrow> Inr (g\<lparr>audit_transitions := audit_transitions g @ [t]\<rparr>)
      | Some rows \<Rightarrow> (case ins t of
            Some e \<Rightarrow> Inl e
          | None \<Rightarrow> Inr (g\<lparr>audit_store := Some (rows @ [t]), audit_transitions := audit_transitions g @ [t]\<rparr>)))"

text \<open>
  The constructor. \<open>_load\<close> reads the optional identity column with \<open>row.get\<close>, a method the rows of
  the connection (\<open>sqlite3.Row\<close>) do not have: the first row raises.
\<close>

definition audit_load_row :: "RecoveryTransition \<Rightarrow> py_error + RecoveryTransition" where
  "audit_load_row row = Inl AttributeErr"

fun audit_load :: "RecoveryTransition list \<Rightarrow> py_error + RecoveryTransition list" where
  "audit_load [] = Inr []"
| "audit_load (row # rows) =
     (case audit_load_row row of Inl e \<Rightarrow> Inl e
      | Inr t \<Rightarrow> (case audit_load rows of Inl e \<Rightarrow> Inl e | Inr ts \<Rightarrow> Inr (t # ts)))"

definition audit_init :: "RecoveryTransition list option \<Rightarrow> py_error + RecoveryAuditLog" where
  "audit_init store =
     (case store of
        None \<Rightarrow> Inr \<lparr>audit_store = None, audit_transitions = []\<rparr>
      | Some rows \<Rightarrow> (case audit_load rows of Inl e \<Rightarrow> Inl e
                     | Inr ts \<Rightarrow> Inr \<lparr>audit_store = Some rows, audit_transitions = ts\<rparr>))"

definition for_resource :: "string \<Rightarrow> RecoveryAuditLog \<Rightarrow> RecoveryTransition list" where
  "for_resource i g = filter (\<lambda>t. rt_resource t = i) (audit_transitions g)"

definition current_status :: "string \<Rightarrow> RecoveryAuditLog \<Rightarrow> RecoveryStatus" where
  "current_status i g =
     (let ts = for_resource i g in if ts = [] then R_IDLE else rt_to (last ts))"

section \<open>The state machine\<close>

definition max_retries :: nat where "max_retries = 3"

definition retry_count :: "string \<Rightarrow> RecoveryAuditLog \<Rightarrow> nat" where
  "retry_count i g = length (filter (\<lambda>t. rt_to t = R_RECOVERING) (for_resource i g))"

definition can_retry :: "string \<Rightarrow> RecoveryAuditLog \<Rightarrow> bool" where
  "can_retry i g \<longleftrightarrow> retry_count i g < max_retries"

definition recovery_entry ::
  "instant \<Rightarrow> string \<Rightarrow> RecoveryStatus \<Rightarrow> RecoveryStatus \<Rightarrow> string \<Rightarrow> RecoveryAuditLog \<Rightarrow> RecoveryTransition" where
  "recovery_entry now i f t reason g =
     \<lparr>rt_resource = i, rt_from = f, rt_to = t, rt_reason = reason,
      rt_attempt = retry_count i g + 1, rt_timestamp = now, rt_identity = None\<rparr>"

definition start_recovery ::
  "(RecoveryTransition \<Rightarrow> py_error option) \<Rightarrow> instant \<Rightarrow> string \<Rightarrow> string \<Rightarrow> RecoveryAuditLog
     \<Rightarrow> py_error + RecoveryAuditLog" where
  "start_recovery ins now i reason g =
     (if R_RECOVERING \<notin> recovery_transitions (current_status i g)
      then Inl (InvariantViolation ''recovery_invalid_transition'')
      else audit_record ins (recovery_entry now i (current_status i g) R_RECOVERING reason g) g)"

definition recovery_step ::
  "(RecoveryTransition \<Rightarrow> py_error option) \<Rightarrow> instant \<Rightarrow> string \<Rightarrow> RecoveryStatus \<Rightarrow> RecoveryStatus \<Rightarrow> string
     \<Rightarrow> RecoveryAuditLog \<Rightarrow> py_error + RecoveryAuditLog" where
  "recovery_step ins now i f t reason g =
     (if current_status i g \<noteq> f then Inl (InvariantViolation ''recovery_invalid_transition'')
      else if t \<notin> recovery_transitions f then Inl (InvariantViolation ''recovery_invalid_transition'')
      else audit_record ins (recovery_entry now i f t reason g) g)"

definition mark_verified ::
  "(RecoveryTransition \<Rightarrow> py_error option) \<Rightarrow> instant \<Rightarrow> string \<Rightarrow> string \<Rightarrow> RecoveryAuditLog
     \<Rightarrow> py_error + RecoveryAuditLog" where
  "mark_verified ins now i reason g = recovery_step ins now i R_RECOVERING R_VERIFIED reason g"

definition mark_recovery_dirty ::
  "(RecoveryTransition \<Rightarrow> py_error option) \<Rightarrow> instant \<Rightarrow> string \<Rightarrow> string \<Rightarrow> RecoveryAuditLog
     \<Rightarrow> py_error + RecoveryAuditLog" where
  "mark_recovery_dirty ins now i reason g = recovery_step ins now i R_RECOVERING R_DIRTY reason g"

text \<open>The three operations as commands, so that runs of them can be written.\<close>

datatype recovery_cmd =
    StartRecovery instant string string
  | MarkVerified instant string string
  | MarkRecoveryDirty instant string string

fun recovery_exec ::
  "(RecoveryTransition \<Rightarrow> py_error option) \<Rightarrow> recovery_cmd \<Rightarrow> RecoveryAuditLog \<Rightarrow> py_error + RecoveryAuditLog" where
  "recovery_exec ins (StartRecovery now i r) g = start_recovery ins now i r g"
| "recovery_exec ins (MarkVerified now i r) g = mark_verified ins now i r g"
| "recovery_exec ins (MarkRecoveryDirty now i r) g = mark_recovery_dirty ins now i r g"

fun recovery_resource :: "recovery_cmd \<Rightarrow> string" where
  "recovery_resource (StartRecovery now i r) = i"
| "recovery_resource (MarkVerified now i r) = i"
| "recovery_resource (MarkRecoveryDirty now i r) = i"

fun recovery_goal :: "recovery_cmd \<Rightarrow> RecoveryStatus" where
  "recovery_goal (StartRecovery now i r) = R_RECOVERING"
| "recovery_goal (MarkVerified now i r) = R_VERIFIED"
| "recovery_goal (MarkRecoveryDirty now i r) = R_DIRTY"

section \<open>Legal trails\<close>

text \<open>
  A trail of one resource is legal when it starts at IDLE, each entry leaves the status the one
  before it reached, along an edge of the table, and its attempt is one more than the number of
  starts before it.
\<close>

fun legal_trail :: "RecoveryStatus \<Rightarrow> nat \<Rightarrow> RecoveryTransition list \<Rightarrow> bool" where
  "legal_trail st starts [] = True"
| "legal_trail st starts (t # ts) =
     (rt_from t = st \<and> rt_to t \<in> recovery_transitions st \<and> rt_attempt t = starts + 1
      \<and> legal_trail (rt_to t) (if rt_to t = R_RECOVERING then starts + 1 else starts) ts)"

lemma legal_trail_append:
  "legal_trail st n (ts @ [t]) \<longleftrightarrow>
     legal_trail st n ts
     \<and> rt_from t = (if ts = [] then st else rt_to (last ts))
     \<and> rt_to t \<in> recovery_transitions (if ts = [] then st else rt_to (last ts))
     \<and> rt_attempt t = n + length (filter (\<lambda>t. rt_to t = R_RECOVERING) ts) + 1"
  by (induction ts arbitrary: st n) auto

text \<open>
  The table allows no second VERIFIED, and every retry of a start passes through DIRTY.
\<close>

lemma recovery_exec_Inr:
  assumes "recovery_exec ins c g = Inr g'"
  obtains t where "audit_transitions g' = audit_transitions g @ [t]"
    "rt_resource t = recovery_resource c" "rt_from t = current_status (recovery_resource c) g"
    "rt_to t = recovery_goal c"
    "rt_to t \<in> recovery_transitions (current_status (recovery_resource c) g)"
    "rt_attempt t = retry_count (recovery_resource c) g + 1"
    "audit_store g' = map_option (\<lambda>rows. rows @ [t]) (audit_store g)"
proof -
  have rec: "audit_transitions g' = audit_transitions g @ [t]
      \<and> audit_store g' = map_option (\<lambda>rows. rows @ [t]) (audit_store g)"
    if "audit_record ins t g = Inr g'" for t
    using that by (auto simp: audit_record_def split: option.splits)
  show thesis
  proof (cases c)
    case (StartRecovery now i r)
    with assms have "R_RECOVERING \<in> recovery_transitions (current_status i g)"
      "audit_record ins (recovery_entry now i (current_status i g) R_RECOVERING r g) g = Inr g'"
      by (auto simp: start_recovery_def split: if_splits)
    then show thesis using rec that StartRecovery by (auto simp: recovery_entry_def)
  next
    case (MarkVerified now i r)
    with assms have "current_status i g = R_RECOVERING"
      "audit_record ins (recovery_entry now i R_RECOVERING R_VERIFIED r g) g = Inr g'"
      by (auto simp: mark_verified_def recovery_step_def split: if_splits)
    then show thesis using rec that MarkVerified by (auto simp: recovery_entry_def)
  next
    case (MarkRecoveryDirty now i r)
    with assms have "current_status i g = R_RECOVERING"
      "audit_record ins (recovery_entry now i R_RECOVERING R_DIRTY r g) g = Inr g'"
      by (auto simp: mark_recovery_dirty_def recovery_step_def split: if_splits)
    then show thesis using rec that MarkRecoveryDirty by (auto simp: recovery_entry_def)
  qed
qed

lemma for_resource_append:
  "audit_transitions g' = audit_transitions g @ [t] \<Longrightarrow>
   for_resource i g' = (if rt_resource t = i then for_resource i g @ [t] else for_resource i g)"
  by (simp add: for_resource_def)

lemma legal_trail_step:
  assumes "recovery_exec ins c g = Inr g'" "legal_trail R_IDLE 0 (for_resource i g)"
  shows "legal_trail R_IDLE 0 (for_resource i g')"
proof (rule recovery_exec_Inr [OF assms(1)])
  fix t
  assume "audit_transitions g' = audit_transitions g @ [t]"
    "rt_resource t = recovery_resource c" "rt_from t = current_status (recovery_resource c) g"
    "rt_to t \<in> recovery_transitions (current_status (recovery_resource c) g)"
    "rt_attempt t = retry_count (recovery_resource c) g + 1"
  then show ?thesis
    using assms(2)
    by (auto simp: for_resource_append legal_trail_append current_status_def retry_count_def Let_def)
qed

lemma legal_trail_run:
  "run_all (recovery_exec ins) cs g = Inr g' \<Longrightarrow> legal_trail R_IDLE 0 (for_resource i g)
     \<Longrightarrow> legal_trail R_IDLE 0 (for_resource i g')"
proof (induction cs arbitrary: g)
  case (Cons c cs)
  then obtain x where x: "recovery_exec ins c g = Inr x" "run_all (recovery_exec ins) cs x = Inr g'"
    by (auto split: sum.splits)
  then show ?case using Cons.IH [OF x(2)] legal_trail_step [OF x(1)] Cons.prems(2) by blast
qed simp

lemma store_mirrors_step:
  assumes "recovery_exec ins c g = Inr g'" "audit_store g = Some (audit_transitions g)"
  shows "audit_store g' = Some (audit_transitions g')"
  by (rule recovery_exec_Inr [OF assms(1)]) (use assms(2) in simp)

lemma store_mirrors_run:
  "run_all (recovery_exec ins) cs g = Inr g' \<Longrightarrow> audit_store g = Some (audit_transitions g)
     \<Longrightarrow> audit_store g' = Some (audit_transitions g')"
proof (induction cs arbitrary: g)
  case (Cons c cs)
  then obtain x where x: "recovery_exec ins c g = Inr x" "run_all (recovery_exec ins) cs x = Inr g'"
    by (auto split: sum.splits)
  then show ?case using Cons.IH [OF x(2)] store_mirrors_step [OF x(1)] Cons.prems(2) by blast
qed simp

text \<open>
  For one resource the log is a guarded machine over the table; commands for other resources do
  not move it.
\<close>

definition fire_on :: "string \<Rightarrow> recovery_cmd \<Rightarrow> RecoveryAuditLog \<Rightarrow> py_error + RecoveryAuditLog" where
  "fire_on i c g = (if recovery_resource c = i then recovery_exec (\<lambda>_. None) c g
                    else Inl (InvariantViolation ''recovery_other_resource''))"

lemma current_status_append:
  "audit_transitions g' = audit_transitions g @ [t] \<Longrightarrow>
   current_status i g' = (if rt_resource t = i then rt_to t else current_status i g)"
  by (simp add: current_status_def for_resource_append Let_def)

interpretation recovery: guarded_machine "current_status i" recovery_transitions recovery_goal "fire_on i" for i
proof unfold_locales
  fix c g g'
  assume "fire_on i c g = Inr g'"
  then have c: "recovery_resource c = i" "recovery_exec (\<lambda>_. None) c g = Inr g'"
    by (auto simp: fire_on_def split: if_splits)
  show "recovery_goal c \<in> recovery_transitions (current_status i g)"
    by (rule recovery_exec_Inr [OF c(2)]) (use c(1) in simp)
  show "current_status i g' = recovery_goal c"
    by (rule recovery_exec_Inr [OF c(2)]) (use c(1) in \<open>simp add: current_status_append\<close>)
qed

section \<open>The recovery service\<close>

datatype RecoveryState =
    RS_NOT_NEEDED | RS_PENDING | RS_RUNNING | RS_RECOVERED | RS_DIRTY | RS_ESCALATED | RS_ABANDONED

record RecoveryLeasePlan =
  rp_id :: string
  rp_run_id :: string
  rp_owner :: string
  rp_ttl :: duration
  rp_expires_at :: instant
  rp_target :: "string list"
  rp_fault :: string
  rp_state :: string
  rp_recovery :: RecoveryState
  rp_compensation :: "UndoOp list"
  rp_probes :: "VerifyProbe list"
  rp_escalation :: "string list"

record RecoveryPlan =
  plan_run_ids :: "string list"
  plan_targets :: "string list"
  plan_state :: RecoveryState
  plan_leases :: "RecoveryLeasePlan list"

text \<open>The handoff document \<open>execute\<close> writes when dirty leases remain; \<open>slug\<close> names its file.\<close>

record RecoveryHandoff =
  handoff_slug :: string
  handoff_state :: RecoveryState
  handoff_dirty :: "string list"
  handoff_leases :: "RecoveryLeasePlan list"

record RecoveryExecutionResult =
  exec_state :: RecoveryState
  exec_run_ids :: "string list"
  exec_expired :: "string list"
  exec_recovered :: "string list"
  exec_dirty :: "string list"
  exec_handoff :: "RecoveryHandoff option"

definition recovery_lease_state :: "FaultLease \<Rightarrow> RecoveryState" where
  "recovery_lease_state l =
     (if lease_state l = L_DIRTY
      then (if py_contains ''escalat''
                 (py_lower (case escalation_notes l of None \<Rightarrow> [] | Some n \<Rightarrow> n))
            then RS_ESCALATED else RS_DIRTY)
      else if lease_state l = L_RELEASING then RS_RUNNING
      else if lease_state l = L_RELEASED then RS_RECOVERED
      else if lease_state l = L_EXPIRED then RS_ABANDONED
      else RS_PENDING)"

definition recovery_lease_plan :: "FaultLease \<Rightarrow> RecoveryLeasePlan" where
  "recovery_lease_plan l =
     \<lparr>rp_id = lease_id l, rp_run_id = lease_run_id l, rp_owner = owner_agent l, rp_ttl = ttl l,
      rp_expires_at = created_at l + ttl l, rp_target = sorted_list_of_set (targets l),
      rp_fault = lease_fault_id l, rp_state = lease_state_value (lease_state l),
      rp_recovery = recovery_lease_state l, rp_compensation = undo_ops l,
      rp_probes = verify_probes l,
      rp_escalation = (case escalation_notes l of None \<Rightarrow> [] | Some n \<Rightarrow> if n = [] then [] else [n])\<rparr>"

definition aggregate_order :: "RecoveryState list" where
  "aggregate_order = [RS_ESCALATED, RS_DIRTY, RS_RUNNING, RS_PENDING, RS_ABANDONED, RS_RECOVERED]"

definition aggregate_state :: "FaultLease list \<Rightarrow> RecoveryState" where
  "aggregate_state ls =
     (if ls = [] then RS_NOT_NEEDED
      else (case find (\<lambda>s. s \<in> set (map recovery_lease_state ls)) aggregate_order of
              Some s \<Rightarrow> s | None \<Rightarrow> RS_NOT_NEEDED))"

text \<open>
  \<open>_leases\<close>: \<open>all_leases\<close> when the sink has that method (\<open>all = Some f\<close>), else the active ones.
\<close>

definition recovery_leases ::
  "'s LeaseSink \<Rightarrow> ('s \<Rightarrow> FaultLease list) option \<Rightarrow> string list \<Rightarrow> 's \<Rightarrow> FaultLease list" where
  "recovery_leases K all runs s =
     (let ls = (case all of Some f \<Rightarrow> f s | None \<Rightarrow> sink_active K s)
      in if runs = [] then ls else filter (\<lambda>l. lease_run_id l \<in> set runs) ls)"

definition recovery_plan ::
  "'s LeaseSink \<Rightarrow> ('s \<Rightarrow> FaultLease list) option \<Rightarrow> string list \<Rightarrow> string list \<Rightarrow> 's \<Rightarrow> RecoveryPlan" where
  "recovery_plan K all runs tgts s =
     (let rs = dict_fromkeys runs; ls = recovery_leases K all rs s
      in \<lparr>plan_run_ids = rs, plan_targets = dict_fromkeys tgts, plan_state = aggregate_state ls,
          plan_leases = map recovery_lease_plan ls\<rparr>)"

definition recovery_sweep_args :: "instant \<Rightarrow> instant option \<Rightarrow> liveness \<Rightarrow> string list \<Rightarrow> sweep_args" where
  "recovery_sweep_args now epoch_s lv runs =
     \<lparr>jan_now = now, jan_current = (case epoch_s of None \<Rightarrow> now | Some e \<Rightarrow> e), jan_liveness = lv,
      jan_run_ids = runs, jan_states = Some [L_PENDING, L_ACTIVE, L_ORPHANED, L_RELEASING],
      jan_execute = True\<rparr>"

definition recovery_execute ::
  "'s LeaseSink \<Rightarrow> ('s \<Rightarrow> FaultLease list) option \<Rightarrow> liveness \<Rightarrow> instant \<Rightarrow> instant option \<Rightarrow> bool
     \<Rightarrow> RecoveryPlan \<Rightarrow> 's \<Rightarrow> (py_error + RecoveryExecutionResult) \<times> 's" where
  "recovery_execute K all lv now epoch_s artifacts p s =
     (case sweep K (recovery_sweep_args now epoch_s lv (plan_run_ids p)) s of
        (Inl e, s') \<Rightarrow> (Inl e, s')
      | (Inr r, s') \<Rightarrow>
          (let final = recovery_plan K all (plan_run_ids p) (plan_targets p) s';
               dirty = map rp_id (filter (\<lambda>i. rp_recovery i \<in> {RS_DIRTY, RS_ESCALATED}) (plan_leases final));
               slug = (let j = py_join ''_'' (plan_run_ids p) in if j = [] then ''unscoped'' else j)
           in (Inr \<lparr>exec_state = plan_state final, exec_run_ids = plan_run_ids p,
                    exec_expired = swept_expired r, exec_recovered = swept_recovered r,
                    exec_dirty = dirty,
                    exec_handoff = (if dirty \<noteq> [] \<and> artifacts
                                    then Some \<lparr>handoff_slug = slug, handoff_state = plan_state final,
                                               handoff_dirty = dirty, handoff_leases = plan_leases final\<rparr>
                                    else None)\<rparr>, s')))"

lemma recovery_state_in_order: "recovery_lease_state l \<in> set aggregate_order"
  by (simp add: recovery_lease_state_def aggregate_order_def)

lemma aggregate_not_needed: "aggregate_state ls = RS_NOT_NEEDED \<longleftrightarrow> ls = []"
proof (cases ls)
  case (Cons l ls')
  then have "find (\<lambda>s. s \<in> set (map recovery_lease_state ls)) aggregate_order \<noteq> None"
    using recovery_state_in_order [of l] by (auto simp: find_None_iff)
  moreover have "find P aggregate_order \<noteq> Some RS_NOT_NEEDED" for P
    by (simp add: aggregate_order_def)
  ultimately show ?thesis using Cons by (auto simp: aggregate_state_def split: option.splits)
qed (simp add: aggregate_state_def)

lemma aggregate_dirty:
  "aggregate_state ls \<in> {RS_ESCALATED, RS_DIRTY} \<longleftrightarrow> (\<exists>l\<in>set ls. lease_state l = L_DIRTY)"
proof -
  have st: "recovery_lease_state l \<in> {RS_ESCALATED, RS_DIRTY} \<longleftrightarrow> lease_state l = L_DIRTY" for l
    by (simp add: recovery_lease_state_def)
  have "aggregate_state ls \<in> {RS_ESCALATED, RS_DIRTY} \<longleftrightarrow>
      RS_ESCALATED \<in> recovery_lease_state ` set ls \<or> RS_DIRTY \<in> recovery_lease_state ` set ls"
    by (cases "ls = []") (simp_all add: aggregate_state_def aggregate_order_def)
  also have "\<dots> \<longleftrightarrow> (\<exists>l\<in>set ls. recovery_lease_state l \<in> {RS_ESCALATED, RS_DIRTY})"
    by (metis (no_types, lifting) image_iff insert_iff empty_iff)
  finally have "aggregate_state ls \<in> {RS_ESCALATED, RS_DIRTY} \<longleftrightarrow>
      (\<exists>l\<in>set ls. recovery_lease_state l \<in> {RS_ESCALATED, RS_DIRTY})" .
  then show ?thesis by (simp only: st)
qed

section \<open>Properties\<close>


lemmas recovery_eval =
  start_recovery_def mark_verified_def mark_recovery_dirty_def recovery_step_def current_status_def
  for_resource_def retry_count_def audit_record_def recovery_entry_def Let_def

definition demo_entry :: "RecoveryStatus \<Rightarrow> RecoveryStatus \<Rightarrow> nat \<Rightarrow> RecoveryTransition" where
  "demo_entry f t n = \<lparr>rt_resource = ''q'', rt_from = f, rt_to = t, rt_reason = [], rt_attempt = n,
     rt_timestamp = 1, rt_identity = None\<rparr>"

definition demo_log :: "RecoveryTransition list \<Rightarrow> RecoveryAuditLog" where
  "demo_log ts = \<lparr>audit_store = Some ts, audit_transitions = ts\<rparr>"

lemma demo_recovery_run:
  "run_all (recovery_exec (\<lambda>_. None)) [StartRecovery 1 ''q'' [], MarkRecoveryDirty 1 ''q'' [], StartRecovery 1 ''q'' []]
     (demo_log []) = Inr (demo_log [demo_entry R_IDLE R_RECOVERING 1, demo_entry R_RECOVERING R_DIRTY 2,
                                    demo_entry R_DIRTY R_RECOVERING 2])"
proof -
  have "recovery_exec (\<lambda>_. None) (StartRecovery 1 ''q'' []) (demo_log []) = Inr (demo_log [demo_entry R_IDLE R_RECOVERING 1])"
    by (simp add: recovery_eval demo_log_def demo_entry_def)
  moreover have "recovery_exec (\<lambda>_. None) (MarkRecoveryDirty 1 ''q'' []) (demo_log [demo_entry R_IDLE R_RECOVERING 1])
      = Inr (demo_log [demo_entry R_IDLE R_RECOVERING 1, demo_entry R_RECOVERING R_DIRTY 2])"
    by (simp add: recovery_eval demo_log_def demo_entry_def)
  moreover have "recovery_exec (\<lambda>_. None) (StartRecovery 1 ''q'' [])
        (demo_log [demo_entry R_IDLE R_RECOVERING 1, demo_entry R_RECOVERING R_DIRTY 2])
      = Inr (demo_log [demo_entry R_IDLE R_RECOVERING 1, demo_entry R_RECOVERING R_DIRTY 2,
                       demo_entry R_DIRTY R_RECOVERING 2])"
    by (simp add: recovery_eval demo_log_def demo_entry_def)
  ultimately show ?thesis by (simp del: recovery_exec.simps)
qed


text \<open>
  A log with entries cannot be opened again: the reload that was to make recovery safe to retry
  after a crash raises on its first row.
\<close>

lemma audit_log_not_reloadable: "rows \<noteq> [] \<Longrightarrow> audit_init (Some rows) = Inl AttributeErr"
  by (cases rows) (simp_all add: audit_init_def audit_load_row_def)

fun failed_cycles :: "nat \<Rightarrow> instant \<Rightarrow> string \<Rightarrow> recovery_cmd list" where
  "failed_cycles 0 now i = []"
| "failed_cycles (Suc n) now i = failed_cycles n now i @ [StartRecovery now i [], MarkRecoveryDirty now i []]"

lemma failed_cycles_run:
  "\<exists>g. run_all (recovery_exec (\<lambda>_. None)) (failed_cycles n now i) \<lparr>audit_store = None, audit_transitions = []\<rparr> = Inr g
     \<and> audit_store g = None \<and> retry_count i g = n \<and> current_status i g = (if n = 0 then R_IDLE else R_DIRTY)"
proof (induction n)
  case 0
  then show ?case by (simp add: retry_count_def current_status_def for_resource_def Let_def)
next
  case (Suc n)
  then obtain g where g: "run_all (recovery_exec (\<lambda>_. None)) (failed_cycles n now i)
      \<lparr>audit_store = None, audit_transitions = []\<rparr> = Inr g"
    "audit_store g = None" "retry_count i g = n" "current_status i g = (if n = 0 then R_IDLE else R_DIRTY)"
    by blast
  let ?t = "recovery_entry now i (current_status i g) R_RECOVERING [] g"
  let ?g1 = "g\<lparr>audit_transitions := audit_transitions g @ [?t]\<rparr>"
  let ?u = "recovery_entry now i R_RECOVERING R_DIRTY [] ?g1"
  let ?g2 = "?g1\<lparr>audit_transitions := audit_transitions ?g1 @ [?u]\<rparr>"
  have t: "rt_resource ?t = i" "rt_to ?t = R_RECOVERING" "rt_resource ?u = i" "rt_to ?u = R_DIRTY"
    by (simp_all add: recovery_entry_def)
  have 1: "recovery_exec (\<lambda>_. None) (StartRecovery now i []) g = Inr ?g1"
    using g(2,4) by (simp add: start_recovery_def audit_record_def)
  have s1: "current_status i ?g1 = R_RECOVERING" "retry_count i ?g1 = Suc n"
    using t g(3) by (simp_all add: current_status_def retry_count_def for_resource_def Let_def)
  have 2: "recovery_exec (\<lambda>_. None) (MarkRecoveryDirty now i []) ?g1 = Inr ?g2"
    using s1(1) g(2) by (simp add: mark_recovery_dirty_def recovery_step_def audit_record_def)
  have s2: "current_status i ?g2 = R_DIRTY" "retry_count i ?g2 = Suc n" "audit_store ?g2 = None"
    using t s1(2) g(2) by (simp_all add: current_status_def retry_count_def for_resource_def Let_def)
  show ?case
    using 1 2 s2 g(1) by (auto simp del: recovery_exec.simps simp: run_all_append)
qed

text \<open>
  The retry limit limits nothing. After any number \<open>n\<close> of failed recoveries of a resource,
  \<open>can_retry\<close> answers as \<open>n < 3\<close>, and \<open>start_recovery\<close> succeeds all the same, recording
  attempt \<open>n + 1\<close>: only a caller that asks \<open>can_retry\<close> first is ever stopped.
\<close>

theorem start_ignores_retry_limit:
  "\<exists>g g'. run_all (recovery_exec (\<lambda>_. None)) (failed_cycles n now i) \<lparr>audit_store = None, audit_transitions = []\<rparr> = Inr g
     \<and> can_retry i g = (n < 3)
     \<and> start_recovery (\<lambda>_. None) now i reason g = Inr g'
     \<and> rt_attempt (last (audit_transitions g')) = n + 1"
proof -
  obtain g where g: "run_all (recovery_exec (\<lambda>_. None)) (failed_cycles n now i)
      \<lparr>audit_store = None, audit_transitions = []\<rparr> = Inr g"
    "audit_store g = None" "retry_count i g = n" "current_status i g = (if n = 0 then R_IDLE else R_DIRTY)"
    using failed_cycles_run by blast
  moreover have "start_recovery (\<lambda>_. None) now i reason g = Inr (g\<lparr>audit_transitions :=
      audit_transitions g @ [recovery_entry now i (current_status i g) R_RECOVERING reason g]\<rparr>)"
    using g(2,4) by (simp add: start_recovery_def audit_record_def)
  ultimately show ?thesis
    by (intro exI [of _ g] exI conjI)
      (auto simp: can_retry_def max_retries_def recovery_entry_def)
qed

text \<open>
  What \<open>RecoveryService.execute\<close> achieves. Over the in-memory sink, with a liveness resolver
  that answers and TTLs that survive a dump, it returns; every due lease of the selected runs that
  is not DIRTY is terminal afterwards, every DIRTY lease is left exactly as it was, and the result
  names exactly the DIRTY leases of those runs as dirty, its state being ESCALATED or DIRTY when and
  only when there is one.
\<close>

theorem recovery_execute_effect:
  assumes "mem_ok s" "liveness_answers (recovery_sweep_args now e lv (plan_run_ids p))"
    and "\<forall>l\<in>set (mem_active s). dump_duration (ttl l) \<noteq> None"
    and "recovery_execute mem_sink (Some mem_all) lv now e art p s = (r, s')"
  shows "\<exists>x. r = Inr x
    \<and> (\<forall>l\<in>set (mem_active s). sweep_due (recovery_sweep_args now e lv (plan_run_ids p)) l \<longrightarrow>
         (\<exists>m. mem_load s' (lease_id l) = Some m \<and> is_safe_terminal m))
    \<and> (\<forall>l\<in>set (mem_active s). lease_state l = L_DIRTY \<longrightarrow> mem_load s' (lease_id l) = Some l)
    \<and> set (exec_dirty x) = lease_id ` {l \<in> set (recovery_leases mem_sink (Some mem_all) (dict_fromkeys (plan_run_ids p)) s').
                                          lease_state l = L_DIRTY}
    \<and> (exec_state x \<in> {RS_ESCALATED, RS_DIRTY} \<longleftrightarrow> exec_dirty x \<noteq> [])"
proof -
  let ?a = "recovery_sweep_args now e lv (plan_run_ids p)"
  have ex: "jan_execute ?a" by (simp add: recovery_sweep_args_def)
  obtain s1 where s1: "sweep mem_sink ?a s = (Inr (fold sweep_record (filter (sweep_due ?a) (mem_active s)) no_sweep), s1)"
    "\<forall>l\<in>set (mem_active s). sweep_due ?a l \<longrightarrow>
         (\<exists>m. mem_load s1 (lease_id l) = Some m \<and> lease_state m = sweep_goal l)"
    "\<forall>i. i \<notin> lease_id ` set (filter (sweep_due ?a) (mem_active s)) \<longrightarrow> mem_load s1 i = mem_load s i"
    using sweep_effect [OF assms(1,2) ex assms(3)] by blast
  let ?ls = "recovery_leases mem_sink (Some mem_all) (dict_fromkeys (plan_run_ids p)) s1"
  have s': "s' = s1" using assms(4) s1(1) by (simp add: recovery_execute_def Let_def)
  have r: "\<exists>x. r = Inr x \<and> exec_dirty x = map rp_id (filter (\<lambda>i. rp_recovery i \<in> {RS_DIRTY, RS_ESCALATED}) (map recovery_lease_plan ?ls))
      \<and> exec_state x = aggregate_state ?ls"
    using assms(4) s1(1) by (auto simp: recovery_execute_def recovery_plan_def Let_def)
  have st: "recovery_lease_state l \<in> {RS_DIRTY, RS_ESCALATED} \<longleftrightarrow> lease_state l = L_DIRTY" for l
    by (simp add: recovery_lease_state_def)
  have dirty: "map rp_id (filter (\<lambda>i. rp_recovery i \<in> {RS_DIRTY, RS_ESCALATED}) (map recovery_lease_plan ls))
      = map lease_id (filter (\<lambda>l. lease_state l = L_DIRTY) ls)" for ls
    by (induction ls) (simp_all add: recovery_lease_plan_def st del: insert_iff)
  obtain x where x: "r = Inr x" "exec_dirty x = map lease_id (filter (\<lambda>l. lease_state l = L_DIRTY) ?ls)"
    "exec_state x = aggregate_state ?ls" using r unfolding dirty by blast
  have goal: "lease_state m = sweep_goal l \<Longrightarrow> is_safe_terminal m" for m l
    by (simp add: is_safe_terminal_def safe_terminals_def sweep_goal_def split: if_splits)
  have keep: "mem_load s1 (lease_id l) = Some l" if l: "l \<in> set (mem_active s)" "lease_state l = L_DIRTY" for l
  proof -
    have nd: "\<not> sweep_due ?a l" using l(2) by (simp add: sweep_due_def recovery_sweep_args_def)
    have "x = l" if "x \<in> set (mem_active s)" "lease_id x = lease_id l" for x
      using mem.active_iff [OF assms(1)] that l(1) by (metis mem_active_def mem_sink_simps(3) option.inject)
    then have "lease_id l \<notin> lease_id ` set (filter (sweep_due ?a) (mem_active s))" using nd by auto
    then show ?thesis
      using s1(3) mem.active_iff [OF assms(1), of l] l(1) by (simp add: mem_active_def mem_load_def)
  qed
  have agg: "exec_state x \<in> {RS_ESCALATED, RS_DIRTY} \<longleftrightarrow> exec_dirty x \<noteq> []"
    unfolding x(2,3) aggregate_dirty by (auto simp: filter_empty_conv)
  have "set (exec_dirty x) = lease_id ` {l \<in> set ?ls. lease_state l = L_DIRTY}"
    by (simp add: x(2))
  moreover have "\<forall>l\<in>set (mem_active s). sweep_due ?a l \<longrightarrow>
         (\<exists>m. mem_load s1 (lease_id l) = Some m \<and> is_safe_terminal m)"
    using s1(2) goal by blast
  ultimately show ?thesis
    using x(1) keep agg unfolding s' by blast
qed

theorem recovery_execute_effect_witness:
  "\<exists>x s'. recovery_execute mem_sink (Some mem_all) None 200000000 None True
       (recovery_plan mem_sink (Some mem_all) [''r-1''] [] (sink_state demo_both)) (sink_state demo_both) = (Inr x, s')
     \<and> (\<exists>m. mem_load s' ''l-00000001'' = Some m \<and> is_safe_terminal m)"
proof -
  let ?p = "recovery_plan mem_sink (Some mem_all) [''r-1''] [] (sink_state demo_both)"
  obtain r s' where rs: "recovery_execute mem_sink (Some mem_all) None 200000000 None True ?p (sink_state demo_both) = (r, s')"
    by force
  have lv: "liveness_answers (recovery_sweep_args 200000000 None None (plan_run_ids ?p))"
    by (simp add: liveness_answers_def owner_gone_def recovery_sweep_args_def)
  have "\<forall>l\<in>set (mem_active (sink_state demo_both)). dump_duration (ttl l) \<noteq> None"
    unfolding demo_both_leases by (simp add: demo_eval)
  from recovery_execute_effect [OF demo_both_ok lv this rs]
  obtain x where x: "r = Inr x" and
    P: "\<forall>l\<in>set (mem_active (sink_state demo_both)).
          sweep_due (recovery_sweep_args 200000000 None None (plan_run_ids ?p)) l \<longrightarrow>
          (\<exists>m. mem_load s' (lease_id l) = Some m \<and> is_safe_terminal m)"
    by (elim exE conjE) (rule that)
  have "plan_run_ids ?p = [''r-1'']" by (simp add: recovery_plan_def Let_def dict_fromkeys_def)
  then have "sweep_due (recovery_sweep_args 200000000 None None (plan_run_ids ?p)) demo_orphan"
    by (simp add: sweep_due_def recovery_sweep_args_def demo_eval)
  moreover have "demo_orphan \<in> set (mem_active (sink_state demo_both))"
    unfolding demo_both_leases by simp
  ultimately have "\<exists>m. mem_load s' (lease_id demo_orphan) = Some m \<and> is_safe_terminal m"
    using P by blast
  moreover have "lease_id demo_orphan = ''l-00000001''" by (simp add: demo_eval)
  ultimately show ?thesis using x rs by auto
qed

end
