(* ===== verification/Stop_Ladder.thy ===== *)
theory Stop_Ladder
  imports Mayhem_Prelude "HOL-Library.Sublist"
begin

text \<open>
  \<open>domain/cancellation.py\<close> and \<open>domain/stop.py\<close>: the cancellation token, the stop flow and its
  ladder, the validated records of a stop (trigger, command, postflight check and report) and the
  escalation that walks the ladder.
\<close>

section \<open>The cancellation token\<close>

datatype CancellationLevel = C_NONE | C_GRACE | C_TERM | C_KILL

fun level_rank :: "CancellationLevel \<Rightarrow> nat" where
  "level_rank C_NONE = 0"
| "level_rank C_GRACE = 1"
| "level_rank C_TERM = 2"
| "level_rank C_KILL = 3"

lemma level_rank_inject [simp]: "level_rank a = level_rank b \<longleftrightarrow> a = b"
  by (cases a; cases b) simp_all

instantiation CancellationLevel :: linorder
begin

definition less_eq_CancellationLevel :: "CancellationLevel \<Rightarrow> CancellationLevel \<Rightarrow> bool" where
  "less_eq_CancellationLevel a b \<longleftrightarrow> level_rank a \<le> level_rank b"

definition less_CancellationLevel :: "CancellationLevel \<Rightarrow> CancellationLevel \<Rightarrow> bool" where
  "less_CancellationLevel a b \<longleftrightarrow> level_rank a < level_rank b"

instance
  by standard (auto simp: less_eq_CancellationLevel_def less_CancellationLevel_def)

end

fun level_next :: "CancellationLevel \<Rightarrow> CancellationLevel option" where
  "level_next C_NONE = Some C_GRACE"
| "level_next C_GRACE = Some C_TERM"
| "level_next C_TERM = Some C_KILL"
| "level_next C_KILL = None"

record CancellationToken =
  token_level :: CancellationLevel
  token_mutations :: nat

definition token_init :: "CancellationLevel \<Rightarrow> CancellationToken" where
  "token_init l = \<lparr>token_level = l, token_mutations = 0\<rparr>"

definition token_request :: "CancellationLevel \<Rightarrow> CancellationToken \<Rightarrow> bool \<times> CancellationToken" where
  "token_request l t =
     (if token_level t < l
      then (True, t\<lparr>token_level := l, token_mutations := token_mutations t + 1\<rparr>)
      else (False, t))"

definition token_escalate :: "CancellationToken \<Rightarrow> CancellationLevel \<times> CancellationToken" where
  "token_escalate t =
     (case level_next (token_level t) of
        None \<Rightarrow> (token_level t, t)
      | Some n \<Rightarrow> (n, t\<lparr>token_level := n, token_mutations := token_mutations t + 1\<rparr>))"

definition token_cancelled :: "CancellationToken \<Rightarrow> bool" where
  "token_cancelled t \<longleftrightarrow> token_level t \<noteq> C_NONE"

definition token_is_kill :: "CancellationToken \<Rightarrow> bool" where
  "token_is_kill t \<longleftrightarrow> token_level t = C_KILL"

definition token_snapshot :: "CancellationToken \<Rightarrow> CancellationLevel \<times> nat" where
  "token_snapshot t = (token_level t, token_mutations t)"

text \<open>
  The calls of the signal layer, each atomic under the token's lock, in the order the lock grants.
\<close>

datatype token_call = Request CancellationLevel | Escalate

fun token_exec :: "token_call \<Rightarrow> CancellationToken \<Rightarrow> CancellationToken" where
  "token_exec (Request l) t = snd (token_request l t)"
| "token_exec Escalate t = snd (token_escalate t)"

section \<open>Reasons, states, stages\<close>

datatype StopReason = SR_HUMAN | SR_CONDITION_FIRED | SR_PREFLIGHT_FAILED | SR_CONTROLLER_LOST | SR_OVERRIDE

datatype StopSignal =
  OPERATOR_REQUEST | CONDITION_TRIPPED | PREFLIGHT_REFUSAL | SIG_CONTROLLER_LOST | OVERRIDE_APPLIED

fun reason_for :: "StopSignal \<Rightarrow> StopReason" where
  "reason_for OPERATOR_REQUEST = SR_HUMAN"
| "reason_for CONDITION_TRIPPED = SR_CONDITION_FIRED"
| "reason_for PREFLIGHT_REFUSAL = SR_PREFLIGHT_FAILED"
| "reason_for SIG_CONTROLLER_LOST = SR_CONTROLLER_LOST"
| "reason_for OVERRIDE_APPLIED = SR_OVERRIDE"

fun reason_value :: "StopReason \<Rightarrow> string" where
  "reason_value SR_HUMAN = ''human''"
| "reason_value SR_CONDITION_FIRED = ''condition_fired''"
| "reason_value SR_PREFLIGHT_FAILED = ''preflight_failed''"
| "reason_value SR_CONTROLLER_LOST = ''controller_lost''"
| "reason_value SR_OVERRIDE = ''override''"

datatype RunState = RUN_PENDING | RUN_RUNNING | RUN_FINISHED | RUN_STOPPED

definition run_is_terminal :: "RunState \<Rightarrow> bool" where
  "run_is_terminal s \<longleftrightarrow> s \<in> {RUN_FINISHED, RUN_STOPPED}"

datatype StopStage =
  FREEZE | CANCEL_PENDING | COMPENSATE_ACTIVE | RECONCILE | RESIDUE_SCAN | VERIFY | SEAL

definition stop_flow_all :: "StopStage list" where
  "stop_flow_all = [FREEZE, CANCEL_PENDING, COMPENSATE_ACTIVE, RECONCILE, RESIDUE_SCAN, VERIFY, SEAL]"

fun required_level :: "StopStage \<Rightarrow> CancellationLevel" where
  "required_level FREEZE = C_GRACE"
| "required_level CANCEL_PENDING = C_GRACE"
| "required_level COMPENSATE_ACTIVE = C_TERM"
| "required_level RECONCILE = C_TERM"
| "required_level RESIDUE_SCAN = C_KILL"
| "required_level VERIFY = C_KILL"
| "required_level SEAL = C_GRACE"

fun level_stages :: "CancellationLevel \<Rightarrow> StopStage list" where
  "level_stages C_NONE = []"
| "level_stages C_GRACE = [FREEZE, CANCEL_PENDING, SEAL]"
| "level_stages C_TERM = [FREEZE, CANCEL_PENDING, COMPENSATE_ACTIVE, RECONCILE, SEAL]"
| "level_stages C_KILL = stop_flow_all"

fun state_owed :: "RunState \<Rightarrow> StopStage set" where
  "state_owed RUN_PENDING = {FREEZE, CANCEL_PENDING, SEAL}"
| "state_owed RUN_RUNNING = set stop_flow_all"
| "state_owed RUN_FINISHED = {}"
| "state_owed RUN_STOPPED = {}"

definition stop_flow :: "RunState \<Rightarrow> StopStage list" where
  "stop_flow s = filter (\<lambda>g. g \<in> state_owed s) stop_flow_all"

definition mandatory_stages :: "RunState \<Rightarrow> CancellationLevel \<Rightarrow> StopStage list" where
  "mandatory_stages s l = filter (\<lambda>g. g \<in> state_owed s) (level_stages l)"

definition next_stage :: "RunState \<Rightarrow> CancellationLevel \<Rightarrow> StopStage list \<Rightarrow> StopStage option" where
  "next_stage s l done = find (\<lambda>g. g \<notin> set done) (mandatory_stages s l)"

definition stop_is_complete :: "RunState \<Rightarrow> CancellationLevel \<Rightarrow> StopStage list \<Rightarrow> bool" where
  "stop_is_complete s l done \<longleftrightarrow> next_stage s l done = None"

section \<open>The records of a stop\<close>

definition require_nonblank :: "string \<Rightarrow> string \<Rightarrow> py_error + string" where
  "require_nonblank rule v =
     (if py_strip v = [] then Inl (InvariantViolation rule)
      else if v \<noteq> py_strip v then Inl (InvariantViolation rule)
      else Inr v)"

record ObservedValue =
  ov_name :: string
  ov_value :: string
  ov_unit :: string

definition observed_validate :: "ObservedValue \<Rightarrow> py_error + ObservedValue" where
  "observed_validate v =
     (case require_nonblank ''observed_value_name_not_blank'' (ov_name v) of
        Inl e \<Rightarrow> Inl e | Inr _ \<Rightarrow> Inr v)"

definition observed_describe :: "ObservedValue \<Rightarrow> string" where
  "observed_describe v = ov_name v @ ''='' @ ov_value v @ ov_unit v"

record StopTrigger =
  trig_reason :: StopReason
  trig_condition :: string
  trig_observed :: "ObservedValue list"
  trig_detail :: string

definition trigger_validate :: "StopTrigger \<Rightarrow> py_error + StopTrigger" where
  "trigger_validate t =
     (if \<not> distinct (map ov_name (trig_observed t))
      then Inl (InvariantViolation ''observed_values_unique'')
      else if trig_reason t = SR_CONDITION_FIRED
      then (case require_nonblank ''condition_fired_requires_condition_id'' (trig_condition t) of
              Inl e \<Rightarrow> Inl e | Inr _ \<Rightarrow> Inr t)
      else if py_strip (trig_condition t) \<noteq> []
      then Inl (InvariantViolation ''condition_id_only_for_condition'')
      else Inr t)"

definition trigger_for_signal ::
  "StopSignal \<Rightarrow> string \<Rightarrow> ObservedValue list \<Rightarrow> string \<Rightarrow> py_error + StopTrigger" where
  "trigger_for_signal sig cond obs detail =
     trigger_validate \<lparr>trig_reason = reason_for sig, trig_condition = cond, trig_observed = obs,
                       trig_detail = detail\<rparr>"

definition trigger_describe :: "StopTrigger \<Rightarrow> string" where
  "trigger_describe t =
     (if trig_reason t = SR_CONDITION_FIRED
      then (let observed = py_join '', '' (map observed_describe (trig_observed t));
                suffix = (if observed = [] then [] else '' ('' @ observed @ '')'')
            in ''condition_fired:'' @ trig_condition t @ suffix)
      else reason_value (trig_reason t))"

datatype StopScope = SCOPE_RUN | SCOPE_ENVIRONMENT

record StopCommand =
  cmd_id :: string
  cmd_scope :: StopScope
  cmd_principal :: string
  cmd_trigger :: StopTrigger
  cmd_issued_at :: pydatetime
  cmd_run_id :: string
  cmd_environment :: string
  cmd_ttl :: duration

text \<open>Field validators in declaration order, then \<open>_check_scope\<close>.\<close>

definition check_scope :: "StopCommand \<Rightarrow> py_error + StopCommand" where
  "check_scope c =
     (if cmd_scope c = SCOPE_RUN
      then (case require_nonblank ''run_scope_requires_run_id'' (cmd_run_id c) of
              Inl e \<Rightarrow> Inl e
            | Inr _ \<Rightarrow> if py_strip (cmd_environment c) \<noteq> []
                       then Inl (InvariantViolation ''run_scope_has_no_environment'') else Inr c)
      else (case require_nonblank ''environment_scope_requires_environment'' (cmd_environment c) of
              Inl e \<Rightarrow> Inl e
            | Inr _ \<Rightarrow> if py_strip (cmd_run_id c) \<noteq> []
                       then Inl (InvariantViolation ''environment_scope_has_no_run_id'') else Inr c))"

definition command_validate :: "StopCommand \<Rightarrow> py_error + StopCommand" where
  "command_validate c =
     (case require_nonblank ''stop_command_id_not_blank'' (cmd_id c) of Inl e \<Rightarrow> Inl e
      | Inr _ \<Rightarrow> (case require_nonblank ''stop_principal_not_blank'' (cmd_principal c) of Inl e \<Rightarrow> Inl e
      | Inr _ \<Rightarrow> (case require_aware ''stop_command_issued_at_aware'' (cmd_issued_at c) of Inl e \<Rightarrow> Inl e
      | Inr _ \<Rightarrow> if cmd_ttl c < 0 then Inl (SchemaInvalid ''duration'') else check_scope c)))"

definition command_is_stale :: "pydatetime \<Rightarrow> StopCommand \<Rightarrow> py_error + bool" where
  "command_is_stale now c =
     (case require_aware ''stop_command_now_aware'' now of Inl e \<Rightarrow> Inl e
      | Inr m \<Rightarrow> (case cmd_issued_at c of Aware t \<Rightarrow> Inr (m \<ge> t + cmd_ttl c) | Naive _ \<Rightarrow> Inl ValueErr))"

datatype CheckStatus = CS_PASS | CS_FAIL
datatype PostflightVerdict = PV_CLEAN | PV_DIRTY | PV_UNKNOWN

record PostflightCheck =
  pc_name :: string
  pc_status :: CheckStatus
  pc_evidence :: "string list"
  pc_detail :: string
  pc_observed_at :: pydatetime
  pc_ttl :: duration

definition check_validate :: "PostflightCheck \<Rightarrow> py_error + PostflightCheck" where
  "check_validate c =
     (case require_nonblank ''postflight_check_name_not_blank'' (pc_name c) of Inl e \<Rightarrow> Inl e
      | Inr _ \<Rightarrow> (case require_aware ''postflight_observed_at_aware'' (pc_observed_at c) of Inl e \<Rightarrow> Inl e
      | Inr _ \<Rightarrow>
          (if pc_ttl c < 0 then Inl (SchemaInvalid ''duration'')
           else let refs = map py_strip (pc_evidence c)
           in if \<not> distinct refs then Inl (InvariantViolation ''postflight_evidence_refs_unique'')
              else if [] \<in> set refs then Inl (InvariantViolation ''postflight_evidence_ref_not_blank'')
              else if pc_status c = CS_PASS \<and> pc_evidence c = []
              then Inl (InvariantViolation ''pass_requires_evidence_ref'')
              else Inr c)))"

definition check_expires_at :: "PostflightCheck \<Rightarrow> pydatetime" where
  "check_expires_at c =
     (case pc_observed_at c of Aware t \<Rightarrow> Aware (t + pc_ttl c) | Naive t \<Rightarrow> Naive (t + pc_ttl c))"

definition check_is_stale :: "instant \<Rightarrow> PostflightCheck \<Rightarrow> bool" where
  "check_is_stale now c = (case check_expires_at c of Aware t \<Rightarrow> now \<ge> t | Naive _ \<Rightarrow> False)"

record PostflightReport =
  rep_run_id :: string
  rep_stop :: StopTrigger
  rep_checks :: "PostflightCheck list"
  rep_sealed_at :: "pydatetime option"
  rep_generated_at :: pydatetime

definition report_validate :: "PostflightReport \<Rightarrow> py_error + PostflightReport" where
  "report_validate r =
     (case require_nonblank ''postflight_run_id_not_blank'' (rep_run_id r) of Inl e \<Rightarrow> Inl e
      | Inr _ \<Rightarrow> (case (case rep_sealed_at r of None \<Rightarrow> Inr 0
                       | Some t \<Rightarrow> require_aware ''postflight_timestamp_aware'' t) of Inl e \<Rightarrow> Inl e
      | Inr _ \<Rightarrow> (case require_aware ''postflight_timestamp_aware'' (rep_generated_at r) of Inl e \<Rightarrow> Inl e
      | Inr _ \<Rightarrow> if \<not> distinct (map pc_name (rep_checks r))
                 then Inl (InvariantViolation ''postflight_check_names_unique'') else Inr r)))"

definition report_check :: "string \<Rightarrow> PostflightReport \<Rightarrow> PostflightCheck option" where
  "report_check n r = find (\<lambda>c. pc_name c = n) (rep_checks r)"

definition failed_checks :: "PostflightReport \<Rightarrow> PostflightCheck list" where
  "failed_checks r = filter (\<lambda>c. pc_status c \<noteq> CS_PASS) (rep_checks r)"

definition stale_checks :: "PostflightReport \<Rightarrow> PostflightCheck list" where
  "stale_checks r =
     (case rep_generated_at r of Aware g \<Rightarrow> filter (check_is_stale g) (rep_checks r) | Naive _ \<Rightarrow> [])"

definition report_verdict :: "pydatetime option \<Rightarrow> PostflightReport \<Rightarrow> py_error + PostflightVerdict" where
  "report_verdict now r =
     (if failed_checks r \<noteq> [] then Inr PV_DIRTY
      else if rep_checks r = [] then Inr PV_UNKNOWN
      else (case require_aware ''postflight_now_aware''
                   (case now of Some t \<Rightarrow> t | None \<Rightarrow> rep_generated_at r) of
              Inl e \<Rightarrow> Inl e
            | Inr m \<Rightarrow> if list_ex (check_is_stale m) (rep_checks r) then Inr PV_UNKNOWN
                       else Inr PV_CLEAN))"

definition recovery_verified :: "pydatetime option \<Rightarrow> PostflightReport \<Rightarrow> py_error + bool" where
  "recovery_verified now r = map_sum id (\<lambda>v. v = PV_CLEAN) (report_verdict now r)"

section \<open>Walking the ladder\<close>

record StopEscalation =
  esc_state :: RunState
  esc_level :: CancellationLevel
  esc_done :: "StopStage list"

definition outstanding :: "StopEscalation \<Rightarrow> StopStage list" where
  "outstanding x =
     (let owed = set (mandatory_stages (esc_state x) (esc_level x))
      in filter (\<lambda>g. g \<in> owed \<and> g \<notin> set (esc_done x)) (stop_flow (esc_state x)))"

definition esc_current :: "StopEscalation \<Rightarrow> StopStage option" where
  "esc_current x = next_stage (esc_state x) (esc_level x) (esc_done x)"

definition esc_complete :: "StopEscalation \<Rightarrow> bool" where
  "esc_complete x = stop_is_complete (esc_state x) (esc_level x) (esc_done x)"

definition esc_advance :: "StopStage \<Rightarrow> StopEscalation \<Rightarrow> py_error + StopEscalation" where
  "esc_advance g x =
     (if g \<notin> set (outstanding x) then Inl (InvariantViolation ''stage_not_outstanding'')
      else Inr (x\<lparr>esc_done := esc_done x @ [g]\<rparr>))"

section \<open>Lemmas\<close>

lemma mandatory_by_level:
  "mandatory_stages s l = filter (\<lambda>g. required_level g \<le> l) (stop_flow s)"
  by (cases s; cases l)
    (simp_all add: mandatory_stages_def stop_flow_def stop_flow_all_def less_eq_CancellationLevel_def)

lemma distinct_mandatory: "distinct (mandatory_stages s l)"
  by (simp add: mandatory_by_level stop_flow_def stop_flow_all_def)

lemma outstanding_eq: "outstanding x = filter (\<lambda>g. g \<notin> set (esc_done x)) (mandatory_stages (esc_state x) (esc_level x))"
  unfolding outstanding_def Let_def mandatory_by_level
  by (simp add: conj_commute) (rule filter_cong, auto)

lemma esc_current_hd:
  "esc_current x = (case outstanding x of [] \<Rightarrow> None | g # gs \<Rightarrow> Some g)"
proof -
  have "find P xs = (case filter P xs of [] \<Rightarrow> None | y # ys \<Rightarrow> Some y)" for P and xs :: "StopStage list"
    by (induction xs) simp_all
  then show ?thesis by (simp add: esc_current_def next_stage_def outstanding_eq)
qed

lemma esc_complete_iff: "esc_complete x \<longleftrightarrow> outstanding x = []"
  by (simp add: esc_complete_def stop_is_complete_def esc_current_def [symmetric] esc_current_hd split: list.splits)

lemma esc_advance_outstanding:
  assumes "esc_advance g x = Inr y"
  shows "esc_state y = esc_state x" "esc_level y = esc_level x" "esc_done y = esc_done x @ [g]"
    "outstanding y = remove1 g (outstanding x)" "g \<in> set (outstanding x)"
proof -
  have g: "g \<in> set (outstanding x)" and y: "y = x\<lparr>esc_done := esc_done x @ [g]\<rparr>"
    using assms by (auto simp: esc_advance_def split: if_splits)
  then show "esc_state y = esc_state x" "esc_level y = esc_level x" "esc_done y = esc_done x @ [g]"
    "g \<in> set (outstanding x)" by simp_all
  have "distinct (outstanding x)" by (simp add: outstanding_eq distinct_mandatory)
  then have "remove1 g (outstanding x) = filter (\<lambda>h. h \<noteq> g) (outstanding x)"
    by (simp add: distinct_remove1_removeAll removeAll_filter_not_eq) (metis (mono_tags, lifting) filter_cong)
  also have "\<dots> = outstanding y"
    by (simp add: y outstanding_eq) (rule filter_cong, auto)
  finally show "outstanding y = remove1 g (outstanding x)" by simp
qed

text \<open>Advancing is a machine whose rank is the number of stages still owed.\<close>

lemma esc_run:
  "run_all esc_advance gs x = Inr y \<Longrightarrow>
     distinct gs \<and> set gs \<subseteq> set (outstanding x) \<and> esc_done y = esc_done x @ gs
     \<and> outstanding y = filter (\<lambda>g. g \<notin> set gs) (outstanding x)"
proof (induction gs arbitrary: x)
  case Nil
  then show ?case by simp
next
  case (Cons g gs)
  then obtain z where z: "esc_advance g x = Inr z" "run_all esc_advance gs z = Inr y"
    by (auto split: sum.splits)
  note A = esc_advance_outstanding [OF z(1)]
  have d: "distinct (outstanding x)" by (simp add: outstanding_eq distinct_mandatory)
  have oz: "outstanding z = filter (\<lambda>h. h \<noteq> g) (outstanding x)"
    using A(4) d by (simp add: distinct_remove1_removeAll removeAll_filter_not_eq) (metis (mono_tags, lifting) filter_cong)
  show ?case
    using Cons.IH [OF z(2)] A(3,5) unfolding oz by (auto intro!: filter_cong)
qed

lemma esc_walk:
  "run_all esc_advance (outstanding x) x = Inr (x\<lparr>esc_done := esc_done x @ outstanding x\<rparr>)"
proof -
  have "run_all esc_advance gs x = Inr (x\<lparr>esc_done := esc_done x @ gs\<rparr>)" if "gs = outstanding x" for gs
    using that
  proof (induction gs arbitrary: x)
    case (Cons g gs)
    obtain z where z: "esc_advance g x = Inr z" using Cons.prems
      by (metis esc_advance_def list.set_intros(1))
    note A = esc_advance_outstanding [OF z]
    have "gs = outstanding z" using A(4) Cons.prems by (metis remove1.simps(2))
    from Cons.IH [OF this] z A show ?case by simp
  qed simp
  then show ?thesis by blast
qed

lemma token_exec_level: "token_level t \<le> token_level (token_exec c t)"
  by (cases c; cases "token_level t")
    (auto simp: token_request_def token_escalate_def less_eq_CancellationLevel_def less_CancellationLevel_def)

lemma token_exec_mutations:
  "token_mutations (token_exec c t) = token_mutations t + (if token_level (token_exec c t) = token_level t then 0 else 1)"
  by (cases c; cases "token_level t")
    (auto simp: token_request_def token_escalate_def less_eq_CancellationLevel_def less_CancellationLevel_def)

lemma token_exec_rank:
  "token_mutations (token_exec c t) + level_rank (token_level t)
     \<le> token_mutations t + level_rank (token_level (token_exec c t))"
  by (cases c; cases "token_level t")
    (auto simp: token_request_def token_escalate_def less_CancellationLevel_def)

lemma token_run:
  "token_level t \<le> token_level (fold token_exec cs t)
   \<and> token_mutations (fold token_exec cs t) + level_rank (token_level t)
       \<le> token_mutations t + level_rank (token_level (fold token_exec cs t))
   \<and> (token_level (fold token_exec cs t) = token_level t \<longleftrightarrow> token_mutations (fold token_exec cs t) = token_mutations t)
   \<and> token_mutations t \<le> token_mutations (fold token_exec cs t)"
proof (induction cs arbitrary: t)
  case (Cons c cs)
  show ?case
    using Cons.IH [of "token_exec c t"] token_exec_level [of t c] token_exec_mutations [of c t]
      token_exec_rank [of c t] by (auto split: if_splits)
qed simp

text \<open>The two tables of the ladder agree, and a trigger's reason and its condition id do too.\<close>

lemma level_stages_required: "level_stages l = filter (\<lambda>g. required_level g \<le> l) stop_flow_all"
  by (cases l) (simp_all add: stop_flow_all_def less_eq_CancellationLevel_def)

lemma require_nonblank_Inr: "require_nonblank rule v = Inr w \<longleftrightarrow> w = v \<and> v \<noteq> [] \<and> py_strip v = v"
  by (auto simp: require_nonblank_def)

lemma trigger_condition_iff:
  assumes "trigger_for_signal sig cond obs d = Inr t"
  shows "trig_reason t = reason_for sig"
    "py_strip (trig_condition t) \<noteq> [] \<longleftrightarrow> trig_reason t = SR_CONDITION_FIRED"
  using assms
  by (auto simp: trigger_for_signal_def trigger_validate_def require_nonblank_Inr split: if_splits sum.splits)

lemma command_scope_exclusive:
  assumes "command_validate c = Inr c'"
  shows "c' = c \<and> (cmd_scope c = SCOPE_RUN \<longleftrightarrow> py_strip (cmd_run_id c) \<noteq> [])
    \<and> (cmd_scope c = SCOPE_ENVIRONMENT \<longleftrightarrow> py_strip (cmd_environment c) \<noteq> [])"
  using assms
  by (cases "cmd_scope c")
    (auto simp: command_validate_def check_scope_def require_nonblank_Inr split: if_splits sum.splits)

section \<open>Properties\<close>

text \<open>
  The ladder is monotone. What a run state owes at a level is exactly its share of the stop flow
  whose required level is within reach, in flow order; raising the level only adds stages, and at
  KILL everything the state owes is owed.
\<close>

theorem ladder_monotone:
  assumes "l \<le> l'"
  shows "mandatory_stages s l = filter (\<lambda>g. required_level g \<le> l) (stop_flow s)
    \<and> subseq (mandatory_stages s l) (mandatory_stages s l')
    \<and> mandatory_stages s C_KILL = stop_flow s"
proof (intro conjI)
  show "mandatory_stages s l = filter (\<lambda>g. required_level g \<le> l) (stop_flow s)"
    by (rule mandatory_by_level)
  have "mandatory_stages s l = filter (\<lambda>g. required_level g \<le> l) (mandatory_stages s l')"
    using assms by (auto simp: mandatory_by_level intro: filter_cong order_trans)
  then show "subseq (mandatory_stages s l) (mandatory_stages s l')"
    by (metis subseq_filter_left)
  show "mandatory_stages s C_KILL = stop_flow s"
    by (cases s) (simp_all add: mandatory_stages_def stop_flow_def)
qed

theorem ladder_monotone_witness:
  "subseq (mandatory_stages RUN_RUNNING C_GRACE) (mandatory_stages RUN_RUNNING C_TERM)"
proof -
  have "C_GRACE \<le> C_TERM" by (simp add: less_eq_CancellationLevel_def)
  from ladder_monotone [OF this] show ?thesis by blast
qed


definition demo_stop :: StopEscalation where
  "demo_stop = \<lparr>esc_state = RUN_RUNNING, esc_level = C_TERM, esc_done = [FREEZE]\<rparr>"


text \<open>
  The cancellation level only rises. Under every sequence of requests and escalations, in any
  interleaving the lock grants, the level never falls, the mutation count tells exactly whether it
  changed, and a token created at NONE changes at most three times.
\<close>

theorem token_monotone:
  "token_level t \<le> token_level (fold token_exec cs t)
   \<and> (token_snapshot (fold token_exec cs t) = token_snapshot t \<longleftrightarrow>
        token_level (fold token_exec cs t) = token_level t)
   \<and> token_mutations (fold token_exec cs (token_init C_NONE)) \<le> 3"
proof -
  have "level_rank x \<le> 3" for x by (cases x) simp_all
  then have "level_rank (token_level (fold token_exec cs (token_init C_NONE))) \<le> 3" .
  then show ?thesis
    using token_run [of t cs] token_run [of "token_init C_NONE" cs]
    by (auto simp: token_snapshot_def token_init_def)
qed


definition demo_report :: PostflightReport where
  "demo_report = \<lparr>rep_run_id = ''r-1'',
     rep_stop = \<lparr>trig_reason = SR_HUMAN, trig_condition = [], trig_observed = [], trig_detail = []\<rparr>,
     rep_checks = [\<lparr>pc_name = ''residue'', pc_status = CS_PASS, pc_evidence = [''ev-1''], pc_detail = [],
                    pc_observed_at = Aware 10, pc_ttl = 900\<rparr>],
     rep_sealed_at = None, rep_generated_at = Aware 20\<rparr>"


end
