(* ===== verification/Topology_Graph.thy ===== *)
theory Topology_Graph
  imports Mayhem_Prelude "HOL-Library.List_Lexorder" "HOL-Library.Char_ord"
begin

text \<open>
  \<open>domain/topology.py\<close>: nodes, edges and the graph with its integrity check, selectors, the
  container subtree, and the dependents closure the blast radius is measured with.
\<close>

section \<open>Nodes and edges\<close>

datatype NodeKind = K_SERVICE | K_CONTAINER | K_HOST | K_PROCESS | K_EXTERNAL | K_POD | K_K8S_NODE

fun kind_value :: "NodeKind \<Rightarrow> string" where
  "kind_value K_SERVICE = ''service''"
| "kind_value K_CONTAINER = ''container''"
| "kind_value K_HOST = ''host''"
| "kind_value K_PROCESS = ''process''"
| "kind_value K_EXTERNAL = ''external_dependency''"
| "kind_value K_POD = ''pod''"
| "kind_value K_K8S_NODE = ''k8s_node''"

text \<open>
  Nodes carry the fields the modelled code reads. A container's runtime identity is its canonical
  key, its metadata the service name the resolver reads.
\<close>

record PortBinding =
  host_port :: int
  container_port :: int
  host_address :: string
  port_protocol :: string

record ServiceNode =
  svc_id :: string
  svc_name :: string
  svc_image :: "string option"
  svc_exposed_ports :: "PortBinding list"
  svc_container_name :: "string option"

record ContainerNode =
  ctr_id :: string
  ctr_name :: string
  ctr_engine :: string
  ctr_identity_key :: string
  ctr_service :: "string option option"
  ctr_container_name :: "string option"
  ctr_state :: string
  ctr_image :: "string option"

record HostNode =
  host_id :: string
  host_name :: string
  host_transport :: string
  host_ssh_user :: "string option"

record ProcessNode =
  proc_id :: string
  proc_name :: string
  proc_pid :: "int option"
  proc_host :: string
  proc_cmdline :: string
  proc_container_id :: "string option"
  proc_container_name :: "string option"

record ExternalDependencyNode =
  ext_id :: string
  ext_name :: string
  ext_endpoint :: string
  ext_protocol :: string
  ext_inferred :: bool

record PodNode =
  pn_id :: string
  pn_name :: string
  pn_namespace :: string
  pn_node :: "string option"
  pn_labels :: "(string \<times> string) list"
  pn_state :: string
  pn_owner_kind :: "string option"
  pn_owner_name :: "string option"
  pn_containers :: "string list"
  pn_uid :: "string option"
  pn_restarts :: int
  pn_deletion :: "string option"

record K8sNode =
  kn_id :: string
  kn_name :: string
  kn_cluster :: string
  kn_roles :: "string list"
  kn_state :: string

datatype TopologyNode =
    Service ServiceNode | Container ContainerNode | Host HostNode | Process ProcessNode
  | External ExternalDependencyNode | Pod PodNode | K8s K8sNode

fun node_id :: "TopologyNode \<Rightarrow> string" where
  "node_id (Service n) = svc_id n"
| "node_id (Container n) = ctr_id n"
| "node_id (Host n) = host_id n"
| "node_id (Process n) = proc_id n"
| "node_id (External n) = ext_id n"
| "node_id (Pod n) = pn_id n"
| "node_id (K8s n) = kn_id n"

fun tnode_name :: "TopologyNode \<Rightarrow> string" where
  "tnode_name (Service n) = svc_name n"
| "tnode_name (Container n) = ctr_name n"
| "tnode_name (Host n) = host_name n"
| "tnode_name (Process n) = proc_name n"
| "tnode_name (External n) = ext_name n"
| "tnode_name (Pod n) = pn_name n"
| "tnode_name (K8s n) = kn_name n"

fun node_kind :: "TopologyNode \<Rightarrow> NodeKind" where
  "node_kind (Service n) = K_SERVICE"
| "node_kind (Container n) = K_CONTAINER"
| "node_kind (Host n) = K_HOST"
| "node_kind (Process n) = K_PROCESS"
| "node_kind (External n) = K_EXTERNAL"
| "node_kind (Pod n) = K_POD"
| "node_kind (K8s n) = K_K8S_NODE"

text \<open>\<open>getattr(node, "container_name", None)\<close>\<close>

fun container_key :: "TopologyNode \<Rightarrow> string option" where
  "container_key (Service n) = svc_container_name n"
| "container_key (Container n) = ctr_container_name n"
| "container_key (Process n) = proc_container_name n"
| "container_key _ = None"

datatype EdgeKind = RUNS_ON | CONNECTS_VIA | DEPENDS_ON | EXPOSES | CONTAINED_IN | LISTENS_ON | ATTACHED_TO

record Edge =
  edge_src :: string
  edge_dst :: string
  edge_kind :: EdgeKind

record TopologyGraph =
  graph_nodes :: "TopologyNode list"
  graph_edges :: "Edge list"

definition check_integrity :: "TopologyGraph \<Rightarrow> py_error + TopologyGraph" where
  "check_integrity g =
     (let ids = map node_id (graph_nodes g)
      in if \<not> distinct ids then Inl (InvariantViolation ''topology_unique_node_ids'')
         else if list_ex (\<lambda>e. edge_src e \<notin> set ids \<or> edge_dst e \<notin> set ids) (graph_edges g)
         then Inl (InvariantViolation ''topology_edges_reference_known_nodes'')
         else Inr g)"

section \<open>Network paths\<close>

record NetworkSegment =
  seg_id :: string
  seg_name :: string
  seg_cidr :: "string option"
  seg_nodes :: "string list"

record NetworkPath =
  path_src :: string
  path_dst :: string
  path_segments :: "string list"
  path_intermediaries :: "string list"
  path_protocol :: string
  path_fingerprint :: string

record NetworkTopology =
  net_segments :: "NetworkSegment list"
  net_paths :: "NetworkPath list"

definition paths_for_node :: "NetworkTopology \<Rightarrow> string \<Rightarrow> NetworkPath list" where
  "paths_for_node t i = filter (\<lambda>p. i = path_src p \<or> i = path_dst p) (net_paths t)"

definition segment_for_node :: "NetworkTopology \<Rightarrow> string \<Rightarrow> NetworkSegment option" where
  "segment_for_node t i = find (\<lambda>s. i \<in> set (seg_nodes s)) (net_segments t)"

definition find_path :: "NetworkTopology \<Rightarrow> string \<Rightarrow> string \<Rightarrow> NetworkPath option" where
  "find_path t a b = find (\<lambda>p. path_src p = a \<and> path_dst p = b) (net_paths t)"

definition cross_segment_paths :: "NetworkTopology \<Rightarrow> NetworkPath list" where
  "cross_segment_paths t = filter (\<lambda>p. 1 < length (path_segments p)) (net_paths t)"

section \<open>Selectors\<close>

text \<open>
  \<open>matches\<close>. \<open>attr node key\<close> is \<open>str(getattr(node, key))\<close>, \<open>None\<close> for a missing or \<open>None\<close>
  attribute, and \<open>re_search\<close> is \<open>re.search\<close>: reflection and the regular expression engine are
  Python's own and stay parameters. \<open>split_once\<close> is \<open>split(sep, maxsplit=1)\<close> on a separator that
  occurs.
\<close>

record TargetSelector =
  sel_kind :: NodeKind
  sel_expr :: string

fun split_once :: "string \<Rightarrow> string \<Rightarrow> string \<times> string" where
  "split_once sep [] = ([], [])"
| "split_once sep (c # cs) =
     (if py_startswith (c # cs) sep then ([], drop (length sep) (c # cs))
      else apfst (Cons c) (split_once sep cs))"

definition field_str_of ::
  "(TopologyNode \<Rightarrow> string \<Rightarrow> string option) \<Rightarrow> TopologyNode \<Rightarrow> string \<Rightarrow> string option" where
  "field_str_of attr n key =
     (case n of
        Container c \<Rightarrow>
          if key = ''service_name''
          then (case ctr_service c of None \<Rightarrow> None | Some s \<Rightarrow> s) else attr n key
      | _ \<Rightarrow> attr n key)"

definition selector_matches ::
  "(TopologyNode \<Rightarrow> string \<Rightarrow> string option) \<Rightarrow> (string \<Rightarrow> string \<Rightarrow> bool) \<Rightarrow> TargetSelector \<Rightarrow> TopologyNode \<Rightarrow> bool" where
  "selector_matches attr re_search sel n =
     (if node_kind n \<noteq> sel_kind sel then False
      else let expr = py_strip (sel_expr sel)
           in if py_contains ''~='' expr
              then (let kp = split_once ''~='' expr; key = py_strip (fst kp); pattern = py_strip (snd kp)
                    in case field_str_of attr n key of None \<Rightarrow> False | Some v \<Rightarrow> re_search pattern v)
              else if py_contains ''='' expr
              then (let kp = split_once ''='' expr
                    in field_str_of attr n (py_strip (fst kp)) = Some (py_strip (snd kp)))
              else tnode_name n = expr)"

section \<open>Queries\<close>

definition by_id :: "TopologyGraph \<Rightarrow> string \<Rightarrow> TopologyNode option" where
  "by_id g i = find (\<lambda>n. node_id n = i) (graph_nodes g)"

definition of_kind :: "TopologyGraph \<Rightarrow> NodeKind \<Rightarrow> TopologyNode list" where
  "of_kind g k = filter (\<lambda>n. node_kind n = k) (graph_nodes g)"

definition resolve ::
  "(TopologyNode \<Rightarrow> string \<Rightarrow> string option) \<Rightarrow> (string \<Rightarrow> string \<Rightarrow> bool) \<Rightarrow> TopologyGraph \<Rightarrow> TargetSelector
     \<Rightarrow> py_error + TopologyNode list" where
  "resolve attr re_search g sel =
     (let found = filter (selector_matches attr re_search sel) (graph_nodes g)
      in if found = [] then Inl (TargetResolution (kind_value (sel_kind sel) @ '':'' @ sel_expr sel))
         else Inr found)"

definition runs_on_from :: "TopologyGraph \<Rightarrow> string \<Rightarrow> string list" where
  "runs_on_from g i = map edge_dst (filter (\<lambda>e. edge_src e = i \<and> edge_kind e = RUNS_ON) (graph_edges g))"

definition connected_processes :: "TopologyGraph \<Rightarrow> string \<Rightarrow> ProcessNode list" where
  "connected_processes g i =
     (let children = runs_on_from g i;
          grandchildren = concat (map (runs_on_from g) children)
      in concat (map (\<lambda>c. case by_id g c of Some (Process p) \<Rightarrow> [p] | _ \<Rightarrow> []) (children @ grandchildren)))"

definition container_names :: "TopologyGraph \<Rightarrow> string list" where
  "container_names g =
     sorted_list_of_set (set (concat (map
       (\<lambda>n. (case container_key n of None \<Rightarrow> [] | Some k \<Rightarrow> [k])
            @ (if node_kind n = K_CONTAINER then [tnode_name n] else []))
       (graph_nodes g))))"

definition ids_with_key :: "TopologyGraph \<Rightarrow> string \<Rightarrow> string set" where
  "ids_with_key g k = node_id ` set (filter (\<lambda>n. container_key n = Some k) (graph_nodes g))"

definition node_ids_for_container :: "TopologyGraph \<Rightarrow> string \<Rightarrow> string set" where
  "node_ids_for_container g name =
     (if ids_with_key g name \<noteq> {} then ids_with_key g name
      else (case find (\<lambda>n. node_kind n = K_CONTAINER \<and> tnode_name n = name) (graph_nodes g) of
              None \<Rightarrow> {}
            | Some n \<Rightarrow> (case container_key n of
                  Some k \<Rightarrow> ids_with_key g k
                | None \<Rightarrow> {node_id n})))"

text \<open>
  The host parents of \<open>restrict_to\<close>: the loop reads the set it extends, so a host added by an
  earlier edge is a source for a later one.
\<close>

definition keep_host :: "TopologyGraph \<Rightarrow> Edge \<Rightarrow> string set \<Rightarrow> string set" where
  "keep_host g e keep =
     (if edge_src e \<in> keep \<and> edge_kind e \<in> {RUNS_ON, CONTAINED_IN}
      then (case by_id g (edge_dst e) of
              Some n \<Rightarrow> if node_kind n = K_HOST then insert (edge_dst e) keep else keep
            | None \<Rightarrow> keep)
      else keep)"

definition restrict_to :: "TopologyGraph \<Rightarrow> string \<Rightarrow> py_error + TopologyGraph" where
  "restrict_to g name =
     (let ids = node_ids_for_container g name
      in if ids = {} then Inl (TargetResolution name)
         else (let keep = fold (keep_host g) (graph_edges g) ids
               in check_integrity
                    \<lparr>graph_nodes = filter (\<lambda>n. node_id n \<in> keep) (graph_nodes g),
                     graph_edges = filter (\<lambda>e. edge_src e \<in> keep \<and> edge_dst e \<in> keep) (graph_edges g)\<rparr>))"

section \<open>The dependents closure\<close>

text \<open>
  \<open>reverse.get(current, [])\<close>: the sources of the dependency edges into a node, in edge order. The
  frontier is a stack; its top is the head of the list here. \<open>visit_upstream\<close> is the inner loop.
\<close>

definition is_dependency :: "Edge \<Rightarrow> bool" where
  "is_dependency e \<longleftrightarrow> edge_kind e \<in> {DEPENDS_ON, CONNECTS_VIA}"

definition upstreams :: "TopologyGraph \<Rightarrow> string \<Rightarrow> string list" where
  "upstreams g i = map edge_src (filter (\<lambda>e. is_dependency e \<and> edge_dst e = i) (graph_edges g))"

fun visit_upstream :: "string \<Rightarrow> string list \<Rightarrow> string list \<times> string list \<Rightarrow> string list \<times> string list" where
  "visit_upstream origin [] (seen, frontier) = (seen, frontier)"
| "visit_upstream origin (u # us) (seen, frontier) =
     (if u \<noteq> origin \<and> u \<notin> set seen then visit_upstream origin us (u # seen, u # frontier)
      else visit_upstream origin us (seen, frontier))"

lemma visit_upstream_spec:
  "visit_upstream origin us (seen, frontier) = (seen', frontier') \<Longrightarrow>
     \<exists>new. seen' = new @ seen \<and> frontier' = new @ frontier
       \<and> set new = {u \<in> set us. u \<noteq> origin \<and> u \<notin> set seen} \<and> distinct new"
proof (induction us arbitrary: seen frontier)
  case Nil
  then show ?case by simp
next
  case (Cons u us)
  show ?case
  proof (cases "u \<noteq> origin \<and> u \<notin> set seen")
    case True
    then obtain new where "seen' = new @ u # seen" "frontier' = new @ u # frontier"
      "set new = {v \<in> set us. v \<noteq> origin \<and> v \<notin> set (u # seen)}" "distinct new"
      using Cons.IH [of "u # seen" "u # frontier"] Cons.prems by auto
    then show ?thesis using True by (intro exI [of _ "new @ [u]"]) auto
  next
    case False
    then obtain new where "seen' = new @ seen" "frontier' = new @ frontier"
      "set new = {v \<in> set us. v \<noteq> origin \<and> v \<notin> set seen}" "distinct new"
      using Cons.IH [of seen frontier] Cons.prems by auto
    then show ?thesis using False by (intro exI [of _ new]) auto
  qed
qed

definition all_sources :: "TopologyGraph \<Rightarrow> string set" where
  "all_sources g = edge_src ` set (graph_edges g)"

lemma upstreams_sources: "set (upstreams g i) \<subseteq> all_sources g"
  by (auto simp: upstreams_def all_sources_def)

function closure_loop :: "TopologyGraph \<Rightarrow> string \<Rightarrow> string list \<Rightarrow> string list \<Rightarrow> string list" where
  "closure_loop g origin seen [] = seen"
| "closure_loop g origin seen (cur # rest) =
     (case visit_upstream origin (upstreams g cur) (seen, rest) of
        (seen', frontier') \<Rightarrow> closure_loop g origin seen' frontier')"
  by pat_completeness auto

termination
proof (relation "measure (\<lambda>(g, origin, seen, frontier). 2 * card (all_sources g - set seen) + length frontier)")
  fix g origin seen cur rest seen' frontier'
  assume "(seen', frontier') = visit_upstream origin (upstreams g cur) (seen, rest)"
  then obtain new where n: "seen' = new @ seen" "frontier' = new @ rest"
    "set new = {u \<in> set (upstreams g cur). u \<noteq> origin \<and> u \<notin> set seen}" "distinct new"
    using visit_upstream_spec [of origin "upstreams g cur" seen rest seen' frontier'] by auto
  have fin: "finite (all_sources g)" by (simp add: all_sources_def)
  have sub: "set new \<subseteq> all_sources g - set seen" using n(3) upstreams_sources [of g cur] by auto
  have "card (all_sources g - set seen') = card (all_sources g - set seen - set new)"
    by (rule arg_cong [of _ _ card]) (auto simp: n(1))
  also have "\<dots> = card (all_sources g - set seen) - card (set new)"
    using fin sub by (intro card_Diff_subset) auto
  finally have c: "card (all_sources g - set seen') = card (all_sources g - set seen) - length new"
    using n(4) by (simp add: distinct_card)
  have "length new \<le> card (all_sources g - set seen)"
    using card_mono [OF _ sub] fin n(4) by (simp add: distinct_card)
  with c show "((g, origin, seen', frontier'), (g, origin, seen, cur # rest)) \<in>
      measure (\<lambda>(g, origin, seen, frontier). 2 * card (all_sources g - set seen) + length frontier)"
    by (simp add: n(2))
qed simp

definition dependents_closure :: "TopologyGraph \<Rightarrow> string \<Rightarrow> string set" where
  "dependents_closure g i = set (closure_loop g i [] [i])"

section \<open>What the closure is\<close>

definition depends :: "TopologyGraph \<Rightarrow> (string \<times> string) set" where
  "depends g = {(edge_src e, edge_dst e) |e. e \<in> set (graph_edges g) \<and> is_dependency e}"

lemma upstreams_depends: "u \<in> set (upstreams g i) \<longleftrightarrow> (u, i) \<in> depends g"
  by (auto simp: upstreams_def depends_def)

definition transitive_dependents :: "TopologyGraph \<Rightarrow> string \<Rightarrow> string set" where
  "transitive_dependents g i = {v. v \<noteq> i \<and> (v, i) \<in> (depends g)\<^sup>*}"

lemma closure_loop_correct:
  assumes "set frontier \<subseteq> insert i (set seen)" "set seen \<subseteq> transitive_dependents g i"
    and "\<forall>x\<in>insert i (set seen) - set frontier. \<forall>u. (u, x) \<in> depends g \<longrightarrow> u = i \<or> u \<in> set seen"
  shows "set (closure_loop g i seen frontier) = transitive_dependents g i"
  using assms
proof (induction g i seen frontier rule: closure_loop.induct)
  case (1 g i seen)
  have "v = i \<or> v \<in> set seen" if "(v, i) \<in> (depends g)\<^sup>*" for v
    using that
  proof (induction rule: converse_rtrancl_induct)
    case (step u w)
    then show ?case using "1.prems"(3) by auto
  qed simp
  then show ?case using "1.prems"(2) by (auto simp: transitive_dependents_def)
next
  case (2 g i seen cur rest)
  obtain seen' frontier' where v: "visit_upstream i (upstreams g cur) (seen, rest) = (seen', frontier')"
    by force
  then obtain new where n: "seen' = new @ seen" "frontier' = new @ rest"
    "set new = {u \<in> set (upstreams g cur). u \<noteq> i \<and> u \<notin> set seen}"
    using visit_upstream_spec [OF v] by blast
  have cur: "(cur, i) \<in> (depends g)\<^sup>*"
    using "2.prems"(1,2) by (auto simp: transitive_dependents_def)
  have new: "set new \<subseteq> transitive_dependents g i"
    using n(3) cur by (auto simp: transitive_dependents_def upstreams_depends intro: converse_rtrancl_into_rtrancl)
  have "set (closure_loop g i seen' frontier') = transitive_dependents g i"
  proof (rule "2.IH" [OF v [symmetric]])
    show "set frontier' \<subseteq> insert i (set seen')" using "2.prems"(1) n by auto
    show "set seen' \<subseteq> transitive_dependents g i" using "2.prems"(2) new n(1) by auto
    show "\<forall>x\<in>insert i (set seen') - set frontier'. \<forall>u. (u, x) \<in> depends g \<longrightarrow> u = i \<or> u \<in> set seen'"
    proof (intro ballI allI impI)
      fix x u
      assume x: "x \<in> insert i (set seen') - set frontier'" and u: "(u, x) \<in> depends g"
      then have x': "x \<in> insert i (set seen)" "x \<notin> set rest" using n by auto
      show "u = i \<or> u \<in> set seen'"
      proof (cases "x = cur")
        case True
        then have "u \<in> set (upstreams g cur)" using u by (simp add: upstreams_depends)
        then have "u = i \<or> u \<in> set seen \<or> u \<in> set new" unfolding n(3) by blast
        then show ?thesis unfolding n(1) by auto
      next
        case False
        with x' have "x \<in> insert i (set seen) - set (cur # rest)" by simp
        then have "u = i \<or> u \<in> set seen" using "2.prems"(3) u by blast
        then show ?thesis unfolding n(1) by auto
      qed
    qed
  qed
  then show ?case by (simp add: v)
qed

lemma dependents_closure_eq: "dependents_closure g i = transitive_dependents g i"
  unfolding dependents_closure_def by (rule closure_loop_correct) (auto simp: transitive_dependents_def)

lemma closure_known:
  assumes "check_integrity g = Inr g"
  shows "dependents_closure g i \<subseteq> node_id ` set (graph_nodes g)"
proof
  fix v
  assume "v \<in> dependents_closure g i"
  then have "(v, i) \<in> (depends g)\<^sup>*" "v \<noteq> i"
    by (auto simp: dependents_closure_eq transitive_dependents_def)
  then obtain w where "(v, w) \<in> depends g" by (metis converse_rtranclE)
  then show "v \<in> node_id ` set (graph_nodes g)"
    using assms by (auto simp: depends_def check_integrity_def Let_def list_ex_iff split: if_splits)
qed

section \<open>The container subtree\<close>

lemma keep_host_mono: "keep \<subseteq> fold (keep_host g) es keep"
proof (induction es arbitrary: keep)
  case (Cons e es)
  have "keep \<subseteq> keep_host g e keep" by (auto simp: keep_host_def split: option.splits)
  then show ?case using Cons [of "keep_host g e keep"] by auto
qed simp

lemma keep_host_only_hosts:
  "x \<in> fold (keep_host g) es keep \<Longrightarrow>
     x \<in> keep \<or> (\<exists>n. by_id g x = Some n \<and> node_kind n = K_HOST)"
proof (induction es arbitrary: keep)
  case (Cons e es)
  then have "x \<in> keep_host g e keep \<or> (\<exists>n. by_id g x = Some n \<and> node_kind n = K_HOST)" by simp
  then show ?case by (auto simp: keep_host_def split: if_splits option.splits)
qed simp

lemma keep_host_parents:
  assumes "e \<in> set es" "edge_src e \<in> keep" "edge_kind e \<in> {RUNS_ON, CONTAINED_IN}"
    and "by_id g (edge_dst e) = Some n" "node_kind n = K_HOST"
  shows "edge_dst e \<in> fold (keep_host g) es keep"
  using assms(1,2)
proof (induction es arbitrary: keep)
  case (Cons d es)
  show ?case
  proof (cases "d = e")
    case True
    then have "edge_dst e \<in> keep_host g d keep"
      using Cons.prems(2) assms(3-5) by (auto simp: keep_host_def)
    then show ?thesis using keep_host_mono by fastforce
  next
    case False
    have "keep \<subseteq> keep_host g d keep" by (auto simp: keep_host_def split: option.splits)
    then show ?thesis using Cons False by auto
  qed
qed simp

lemma ids_for_container_known: "node_ids_for_container g name \<subseteq> node_id ` set (graph_nodes g)"
  by (auto simp: node_ids_for_container_def ids_with_key_def find_Some_iff split: option.splits if_splits)

section \<open>Properties\<close>

text \<open>
  The dependents closure is the transitive one. The worklist loop returns on every graph, cycles
  included, and yields exactly the nodes other than the start that reach it along one or more
  \<open>DEPENDS_ON\<close> or \<open>CONNECTS_VIA\<close> edges; on a graph that passed its integrity check they are all
  nodes of the graph.
\<close>

theorem dependents_closure_transitive:
  "dependents_closure g i = {v. v \<noteq> i \<and> (v, i) \<in> (depends g)\<^sup>+}
   \<and> (check_integrity g = Inr g \<longrightarrow> dependents_closure g i \<subseteq> node_id ` set (graph_nodes g))"
proof
  show "dependents_closure g i = {v. v \<noteq> i \<and> (v, i) \<in> (depends g)\<^sup>+}"
    unfolding dependents_closure_eq transitive_dependents_def by (auto simp: rtrancl_eq_or_trancl)
  show "check_integrity g = Inr g \<longrightarrow> dependents_closure g i \<subseteq> node_id ` set (graph_nodes g)"
    using closure_known by blast
qed

definition demo_service :: "string \<Rightarrow> TopologyNode" where
  "demo_service i = Service \<lparr>svc_id = i, svc_name = i, svc_image = None, svc_exposed_ports = [], svc_container_name = None\<rparr>"

definition demo_graph :: TopologyGraph where
  "demo_graph = \<lparr>graph_nodes = map demo_service [''a'', ''b'', ''c''],
     graph_edges = [\<lparr>edge_src = ''b'', edge_dst = ''a'', edge_kind = DEPENDS_ON\<rparr>,
                    \<lparr>edge_src = ''c'', edge_dst = ''b'', edge_kind = CONNECTS_VIA\<rparr>,
                    \<lparr>edge_src = ''a'', edge_dst = ''c'', edge_kind = DEPENDS_ON\<rparr>]\<rparr>"

lemma demo_graph_closure: "dependents_closure demo_graph ''a'' = {''b'', ''c''}"
  by (simp add: dependents_closure_def demo_graph_def upstreams_def is_dependency_def insert_commute)

lemma demo_graph_ok: "check_integrity demo_graph = Inr demo_graph"
  by (simp add: check_integrity_def demo_graph_def demo_service_def)

theorem dependents_closure_transitive_witness:
  "(''c'', ''a'') \<in> (depends demo_graph)\<^sup>+ \<and> dependents_closure demo_graph ''a'' \<subseteq> {''a'', ''b'', ''c''}"
proof -
  note T = dependents_closure_transitive [of demo_graph "''a''"]
  then have "(''c'', ''a'') \<in> (depends demo_graph)\<^sup>+" using demo_graph_closure by blast
  moreover have "dependents_closure demo_graph ''a'' \<subseteq> node_id ` set (graph_nodes demo_graph)"
    using T demo_graph_ok by blast
  ultimately show ?thesis by (simp add: demo_graph_def demo_service_def insert_commute)
qed

text \<open>
  Scoping to a container is loud and closed. On a graph that passed its integrity check,
  \<open>restrict_to\<close> raises exactly when no node carries the name; otherwise it returns a graph that
  passes the check again, holds every node of the named subtree together with the hosts those nodes
  run on, adds nothing but hosts, and keeps exactly the edges among the nodes it kept.
\<close>

theorem restrict_to_subgraph:
  assumes "check_integrity g = Inr g"
  shows "(restrict_to g name = Inl (TargetResolution name) \<longleftrightarrow> node_ids_for_container g name = {})
    \<and> (node_ids_for_container g name \<noteq> {} \<longrightarrow> (\<exists>h. restrict_to g name = Inr h \<and> check_integrity h = Inr h
        \<and> node_ids_for_container g name \<subseteq> node_id ` set (graph_nodes h)
        \<and> (\<forall>n\<in>set (graph_nodes h). n \<in> set (graph_nodes g)
             \<and> (node_id n \<in> node_ids_for_container g name \<or> node_kind n = K_HOST))
        \<and> (\<forall>e\<in>set (graph_edges g). edge_src e \<in> node_ids_for_container g name
             \<and> edge_kind e \<in> {RUNS_ON, CONTAINED_IN}
             \<and> (\<exists>n. by_id g (edge_dst e) = Some n \<and> node_kind n = K_HOST)
             \<longrightarrow> edge_dst e \<in> node_id ` set (graph_nodes h))
        \<and> set (graph_edges h) = {e \<in> set (graph_edges g). edge_src e \<in> node_id ` set (graph_nodes h)
                                   \<and> edge_dst e \<in> node_id ` set (graph_nodes h)}))"
proof (cases "node_ids_for_container g name = {}")
  case True
  then show ?thesis by (simp add: restrict_to_def)
next
  case False
  let ?ids = "node_ids_for_container g name"
  define keep where "keep = fold (keep_host g) (graph_edges g) ?ids"
  define h where "h = \<lparr>graph_nodes = filter (\<lambda>n. node_id n \<in> keep) (graph_nodes g),
     graph_edges = filter (\<lambda>e. edge_src e \<in> keep \<and> edge_dst e \<in> keep) (graph_edges g)\<rparr>"
  have ok: "distinct (map node_id (graph_nodes g))"
    and known: "\<And>e. e \<in> set (graph_edges g) \<Longrightarrow> edge_src e \<in> node_id ` set (graph_nodes g)
                      \<and> edge_dst e \<in> node_id ` set (graph_nodes g)"
    using assms by (auto simp: check_integrity_def Let_def list_ex_iff split: if_splits)
  have uniq: "by_id g (node_id n) = Some n" if "n \<in> set (graph_nodes g)" for n
  proof -
    have "find (\<lambda>m. node_id m = node_id n) ns = Some n"
      if "distinct (map node_id ns)" "n \<in> set ns" for ns
      using that by (induction ns) auto
    with ok that show ?thesis by (simp add: by_id_def)
  qed
  have ids: "node_id ` set (graph_nodes h) = keep \<inter> node_id ` set (graph_nodes g)"
    by (auto simp: h_def)
  have sub: "?ids \<subseteq> keep" unfolding keep_def by (rule keep_host_mono)
  have h_ok: "check_integrity h = Inr h"
  proof -
    have "distinct (map node_id (graph_nodes h))"
      using ok by (simp add: h_def distinct_map_filter)
    moreover have "edge_src e \<in> node_id ` set (graph_nodes h) \<and> edge_dst e \<in> node_id ` set (graph_nodes h)"
      if "e \<in> set (graph_edges h)" for e
      using that known [of e] unfolding ids by (simp add: h_def)
    ultimately show ?thesis by (auto simp: check_integrity_def Let_def list_ex_iff)
  qed
  have res: "restrict_to g name = Inr h"
    using False h_ok by (simp add: restrict_to_def keep_def h_def Let_def)
  have nodes: "n \<in> set (graph_nodes g) \<and> (node_id n \<in> ?ids \<or> node_kind n = K_HOST)"
    if "n \<in> set (graph_nodes h)" for n
  proof -
    from that have n: "n \<in> set (graph_nodes g)" "node_id n \<in> keep" by (simp_all add: h_def)
    then show ?thesis
      using keep_host_only_hosts [of "node_id n" g "graph_edges g" ?ids] uniq [OF n(1)]
      by (auto simp: keep_def)
  qed
  have hosts: "edge_dst e \<in> node_id ` set (graph_nodes h)"
    if "e \<in> set (graph_edges g)" "edge_src e \<in> ?ids" "edge_kind e \<in> {RUNS_ON, CONTAINED_IN}"
      "by_id g (edge_dst e) = Some n" "node_kind n = K_HOST" for e n
    using keep_host_parents [OF that(1-5)] known [OF that(1)] unfolding ids keep_def by simp
  have edges: "set (graph_edges h) = {e \<in> set (graph_edges g). edge_src e \<in> node_id ` set (graph_nodes h)
                                   \<and> edge_dst e \<in> node_id ` set (graph_nodes h)}"
    using known unfolding ids by (auto simp: h_def)
  have all: "?ids \<subseteq> node_id ` set (graph_nodes h)"
    using sub ids_for_container_known [of g name] unfolding ids by blast
  have parents: "\<forall>e\<in>set (graph_edges g). edge_src e \<in> ?ids \<and> edge_kind e \<in> {RUNS_ON, CONTAINED_IN}
      \<and> (\<exists>n. by_id g (edge_dst e) = Some n \<and> node_kind n = K_HOST) \<longrightarrow> edge_dst e \<in> node_id ` set (graph_nodes h)"
    using hosts by blast
  have "restrict_to g name \<noteq> Inl (TargetResolution name)" using res by simp
  moreover note res h_ok all nodes parents edges False
  ultimately show ?thesis by blast
qed

definition demo_host_graph :: TopologyGraph where
  "demo_host_graph = \<lparr>graph_nodes =
       [Container \<lparr>ctr_id = ''c'', ctr_name = ''web'', ctr_engine = ''docker'', ctr_identity_key = ''k'',
          ctr_service = None, ctr_container_name = None, ctr_state = ''running'', ctr_image = None\<rparr>,
        Host \<lparr>host_id = ''h'', host_name = ''h'', host_transport = ''local'', host_ssh_user = None\<rparr>,
        demo_service ''s''],
     graph_edges = [\<lparr>edge_src = ''c'', edge_dst = ''h'', edge_kind = RUNS_ON\<rparr>,
                    \<lparr>edge_src = ''s'', edge_dst = ''c'', edge_kind = RUNS_ON\<rparr>]\<rparr>"

theorem restrict_to_subgraph_witness:
  "\<exists>h. restrict_to demo_host_graph ''web'' = Inr h \<and> ''h'' \<in> node_id ` set (graph_nodes h)"
proof -
  have ok: "check_integrity demo_host_graph = Inr demo_host_graph"
    by (simp add: check_integrity_def demo_host_graph_def demo_service_def)
  have ids: "node_ids_for_container demo_host_graph ''web'' = {''c''}"
    by (simp add: node_ids_for_container_def ids_with_key_def demo_host_graph_def demo_service_def)
  have e: "\<lparr>edge_src = ''c'', edge_dst = ''h'', edge_kind = RUNS_ON\<rparr> \<in> set (graph_edges demo_host_graph)"
    by (simp add: demo_host_graph_def)
  have h: "by_id demo_host_graph ''h'' = Some (Host \<lparr>host_id = ''h'', host_name = ''h'',
      host_transport = ''local'', host_ssh_user = None\<rparr>)"
    by (simp add: by_id_def demo_host_graph_def)
  obtain g where g: "restrict_to demo_host_graph ''web'' = Inr g" and
    P: "\<forall>e\<in>set (graph_edges demo_host_graph). edge_src e \<in> {''c''}
             \<and> edge_kind e \<in> {RUNS_ON, CONTAINED_IN}
             \<and> (\<exists>n. by_id demo_host_graph (edge_dst e) = Some n \<and> node_kind n = K_HOST)
             \<longrightarrow> edge_dst e \<in> node_id ` set (graph_nodes g)"
    using restrict_to_subgraph [OF ok, of "''web''"] unfolding ids by blast
  show ?thesis using g bspec [OF P e] h by simp
qed

end
