(* ===== verification/Damage_Quota.thy ===== *)
theory Damage_Quota
  imports Risk_Ladder "HOL-Library.AList" "HOL-Library.List_Lexorder" "HOL-Library.Char_ord"
begin

text \<open>
  \<open>domain/quota.py\<close>: the cumulative damage ledger of a plan. Floats are rationals: every result of
  a float operation is \<open>fl\<close> of the exact one, so the judgements hold for every rounding, and the
  accounting identities are stated for exact arithmetic. The fault catalog is a table the code only
  looks up: it is the parameter \<open>catalog\<close>, whose \<open>None\<close> is a failed \<open>definition_for\<close>.
\<close>

section \<open>Weights\<close>

datatype Reversibility = REVERSIBLE | RECONCILED | IRREVERSIBLE

type_synonym fault_catalog = "string \<Rightarrow> (RiskLevel \<times> Reversibility option) option"

fun risk_damage_weight :: "RiskLevel \<Rightarrow> rat" where
  "risk_damage_weight LOW = 1"
| "risk_damage_weight MEDIUM = 1"
| "risk_damage_weight HIGH = 2"
| "risk_damage_weight CRITICAL = 4"

fun reversibility_damage_weight :: "Reversibility \<Rightarrow> rat" where
  "reversibility_damage_weight REVERSIBLE = 1"
| "reversibility_damage_weight RECONCILED = 5 / 4"
| "reversibility_damage_weight IRREVERSIBLE = 2"

definition unresolved_fault_weight :: rat where
  "unresolved_fault_weight = risk_damage_weight CRITICAL * reversibility_damage_weight IRREVERSIBLE"

text \<open>The products of the two tables are floats exactly.\<close>

definition damage_weight_for :: "RiskLevel \<times> Reversibility option \<Rightarrow> rat" where
  "damage_weight_for d =
     risk_damage_weight (fst d)
       * reversibility_damage_weight (case snd d of None \<Rightarrow> REVERSIBLE | Some r \<Rightarrow> r)"

definition damage_weight :: "fault_catalog \<Rightarrow> string \<Rightarrow> rat" where
  "damage_weight catalog f =
     (case catalog f of None \<Rightarrow> unresolved_fault_weight | Some d \<Rightarrow> damage_weight_for d)"

definition is_catalog_fault :: "fault_catalog \<Rightarrow> string \<Rightarrow> bool" where
  "is_catalog_fault catalog f \<longleftrightarrow> catalog f \<noteq> None"

section \<open>The quota and the ledger\<close>

text \<open>A limit is a float that may be infinite.\<close>

datatype limit = Fin rat | Infinite

fun over_limit :: "rat \<Rightarrow> limit \<Rightarrow> bool" where
  "over_limit x (Fin y) \<longleftrightarrow> x > y"
| "over_limit x Infinite \<longleftrightarrow> False"

record DamageQuota =
  budget_s :: limit
  per_fault_ceiling_s :: limit
  window_s :: limit

definition default_quota :: DamageQuota where
  "default_quota = \<lparr>budget_s = Fin (4 * 3600), per_fault_ceiling_s = Fin 3600,
                    window_s = Fin (7 * 24 * 3600)\<rparr>"

definition unrestricted :: "DamageQuota \<Rightarrow> DamageQuota" where
  "unrestricted q = q\<lparr>budget_s := Infinite, per_fault_ceiling_s := Infinite, window_s := Infinite\<rparr>"

record QuotaCharge =
  ch_fault :: string
  ch_step :: nat
  ch_weight :: rat
  ch_per_node :: rat
  ch_step_damage :: rat
  ch_total :: rat
  ch_worst_node :: string
  ch_worst_node_s :: rat
  ch_limit :: limit
  ch_rule :: string

definition charge_exceeded :: "QuotaCharge \<Rightarrow> bool" where
  "charge_exceeded c \<longleftrightarrow> ch_rule c \<noteq> []"

record DamageLedger =
  led_by_node :: "(string \<times> rat) list"
  led_by_node_fault :: "((string \<times> string) \<times> rat) list"
  led_total :: rat
  led_steps :: nat

definition empty_ledger :: DamageLedger where
  "empty_ledger = \<lparr>led_by_node = [], led_by_node_fault = [], led_total = 0, led_steps = 0\<rparr>"

definition get_or_zero :: "('k \<times> rat) list \<Rightarrow> 'k \<Rightarrow> rat" where
  "get_or_zero d k = (case map_of d k of None \<Rightarrow> 0 | Some v \<Rightarrow> v)"

definition damage_for :: "DamageLedger \<Rightarrow> string \<Rightarrow> rat" where
  "damage_for led n = get_or_zero (led_by_node led) n"

definition worst :: "DamageLedger \<Rightarrow> string \<times> rat" where
  "worst led =
     (if led_by_node led = [] then ([], 0)
      else let top_v = Max (set (map snd (led_by_node led)))
           in (Min (set (map fst (filter (\<lambda>(n, v). v = top_v) (led_by_node led)))), top_v))"

fun charge_nodes :: "(rat \<Rightarrow> rat) \<Rightarrow> string \<Rightarrow> rat \<Rightarrow> string list \<Rightarrow> DamageLedger \<Rightarrow> DamageLedger" where
  "charge_nodes fl f per_node [] led = led"
| "charge_nodes fl f per_node (n # ns) led =
     charge_nodes fl f per_node ns
       (led\<lparr>led_by_node := AList.update n (fl (get_or_zero (led_by_node led) n + per_node)) (led_by_node led),
            led_by_node_fault := AList.update (n, f)
              (fl (get_or_zero (led_by_node_fault led) (n, f) + per_node)) (led_by_node_fault led)\<rparr>)"

text \<open>The ledger after the step, before it is judged.\<close>

definition charged_ledger ::
  "(rat \<Rightarrow> rat) \<Rightarrow> fault_catalog \<Rightarrow> string \<Rightarrow> rat \<Rightarrow> string set \<Rightarrow> DamageLedger \<Rightarrow> DamageLedger" where
  "charged_ledger fl catalog f duration node_ids led =
     (let nodes = sorted_list_of_set node_ids;
          per_node = fl (duration * damage_weight catalog f);
          led' = charge_nodes fl f per_node nodes led
      in led'\<lparr>led_total := fl (led_total led + fl (per_node * of_nat (length nodes))),
              led_steps := led_steps led + 1\<rparr>)"

definition charge ::
  "(rat \<Rightarrow> rat) \<Rightarrow> fault_catalog \<Rightarrow> DamageQuota \<Rightarrow> string \<Rightarrow> rat \<Rightarrow> string set \<Rightarrow> DamageLedger
     \<Rightarrow> QuotaCharge \<times> DamageLedger" where
  "charge fl catalog q f duration node_ids led =
     (let nodes = sorted_list_of_set node_ids;
          weight = damage_weight catalog f;
          per_node = fl (duration * weight);
          led' = charged_ledger fl catalog f duration node_ids led;
          c = \<lparr>ch_fault = f, ch_step = led_steps led, ch_weight = weight, ch_per_node = per_node,
               ch_step_damage = fl (per_node * of_nat (length nodes)), ch_total = led_total led',
               ch_worst_node = fst (worst led'), ch_worst_node_s = snd (worst led'),
               ch_limit = budget_s q, ch_rule = []\<rparr>
      in if over_limit per_node (per_fault_ceiling_s q)
         then (c\<lparr>ch_limit := per_fault_ceiling_s q, ch_rule := ''damage_quota.per_fault_ceiling''\<rparr>, led')
         else if over_limit (snd (worst led')) (budget_s q)
         then (c\<lparr>ch_rule := ''damage_quota.budget''\<rparr>, led')
         else (c, led'))"

text \<open>A plan: its steps charged one after the other on the same ledger.\<close>

type_synonym charge_step = "string \<times> rat \<times> string set"

definition charge_step :: "(rat \<Rightarrow> rat) \<Rightarrow> fault_catalog \<Rightarrow> charge_step \<Rightarrow> DamageLedger \<Rightarrow> DamageLedger" where
  "charge_step fl catalog st led = charged_ledger fl catalog (fst st) (fst (snd st)) (snd (snd st)) led"

section \<open>Lemmas\<close>

lemma snd_charge [simp]: "snd (charge fl catalog q f d ns led) = charged_ledger fl catalog f d ns led"
  by (simp add: charge_def Let_def)

lemma get_or_zero_update: "get_or_zero (AList.update k v d) j = (if j = k then v else get_or_zero d j)"
  by (simp add: get_or_zero_def update_conv')

lemma charge_nodes_total [simp]: "led_total (charge_nodes fl f p ns led) = led_total led"
  by (induction ns arbitrary: led) simp_all

lemma charge_nodes_by_node:
  "distinct ns \<Longrightarrow> get_or_zero (led_by_node (charge_nodes fl f p ns led)) n =
     (if n \<in> set ns then fl (get_or_zero (led_by_node led) n + p) else get_or_zero (led_by_node led) n)"
  by (induction ns arbitrary: led) (auto simp: get_or_zero_update)

lemma charge_nodes_by_node_fault:
  "distinct ns \<Longrightarrow> get_or_zero (led_by_node_fault (charge_nodes fl f p ns led)) k =
     (if fst k \<in> set ns \<and> snd k = f then fl (get_or_zero (led_by_node_fault led) k + p)
      else get_or_zero (led_by_node_fault led) k)"
  by (induction ns arbitrary: led) (auto simp: get_or_zero_update)

lemma charge_nodes_dom:
  "fst ` set (led_by_node (charge_nodes fl f p ns led)) = fst ` set (led_by_node led) \<union> set ns"
  by (induction ns arbitrary: led) (auto simp: dom_update)

lemma charge_nodes_distinct:
  "distinct (map fst (led_by_node led)) \<Longrightarrow> distinct (map fst (led_by_node (charge_nodes fl f p ns led)))"
  by (induction ns arbitrary: led) (auto simp: distinct_update)

lemma damage_for_charged:
  "finite ns \<Longrightarrow> damage_for (charged_ledger fl catalog f d ns led) n =
     (if n \<in> ns then fl (damage_for led n + fl (d * damage_weight catalog f)) else damage_for led n)"
  by (simp add: damage_for_def charged_ledger_def Let_def charge_nodes_by_node)

text \<open>A ledger that charging built: its nodes are listed once.\<close>

definition ledger_wf :: "DamageLedger \<Rightarrow> bool" where
  "ledger_wf led \<longleftrightarrow> distinct (map fst (led_by_node led))"

lemma ledger_wf_empty: "ledger_wf empty_ledger"
  by (simp add: ledger_wf_def empty_ledger_def)

lemma ledger_wf_charged: "ledger_wf led \<Longrightarrow> ledger_wf (charged_ledger fl catalog f d ns led)"
  by (simp add: ledger_wf_def charged_ledger_def Let_def charge_nodes_distinct)

lemma ledger_entry: "ledger_wf led \<Longrightarrow> (n, v) \<in> set (led_by_node led) \<Longrightarrow> damage_for led n = v"
  by (simp add: ledger_wf_def damage_for_def get_or_zero_def)

lemma worst_bounds:
  assumes "n \<in> fst ` set (led_by_node led)" "ledger_wf led"
  shows "damage_for led n \<le> snd (worst led)"
proof -
  obtain v where v: "(n, v) \<in> set (led_by_node led)" using assms(1) by auto
  then have "damage_for led n = v" by (rule ledger_entry [OF assms(2)])
  moreover have "v \<le> Max (snd ` set (led_by_node led))" using v by (intro Max_ge) force+
  ultimately show ?thesis using v by (auto simp: worst_def Let_def)
qed

lemma worst_attained:
  assumes "led_by_node led \<noteq> []" "ledger_wf led"
  shows "fst (worst led) \<in> fst ` set (led_by_node led) \<and> damage_for led (fst (worst led)) = snd (worst led)"
proof -
  let ?t = "Max (snd ` set (led_by_node led))"
  let ?C = "fst ` set (filter (\<lambda>(n, v). v = ?t) (led_by_node led))"
  have "?t \<in> snd ` set (led_by_node led)" using assms(1) by (intro Max_in) auto
  then have "?C \<noteq> {}" by auto
  then have "Min ?C \<in> ?C" by (intro Min_in) auto
  then have "(Min ?C, ?t) \<in> set (led_by_node led)" by auto
  then show ?thesis
    using ledger_entry [OF assms(2)] assms(1) by (force simp: worst_def Let_def)
qed

lemma damage_weight_bound: "1 \<le> damage_weight catalog f \<and> damage_weight catalog f \<le> unresolved_fault_weight"
proof (cases "catalog f")
  case None
  then show ?thesis by (simp add: damage_weight_def unresolved_fault_weight_def)
next
  case (Some d)
  obtain r v where d: "d = (r, v)" by force
  show ?thesis
  proof (cases v)
    case None
    then show ?thesis using Some d
      by (cases r) (simp_all add: damage_weight_def damage_weight_for_def unresolved_fault_weight_def)
  next
    case (Some w)
    then show ?thesis using \<open>catalog f = Some d\<close> d
      by (cases r; cases w) (simp_all add: damage_weight_def damage_weight_for_def unresolved_fault_weight_def)
  qed
qed

lemma charge_accepted:
  assumes "\<not> charge_exceeded (fst (charge fl catalog q f d ns led))"
  shows "\<not> over_limit (fl (d * damage_weight catalog f)) (per_fault_ceiling_s q)"
    and "\<not> over_limit (snd (worst (charged_ledger fl catalog f d ns led))) (budget_s q)"
  using assms by (auto simp: charge_def Let_def charge_exceeded_def split: if_splits)

lemma charge_exceeded_iff:
  "charge_exceeded (fst (charge fl catalog q f d ns led)) \<longleftrightarrow>
     over_limit (fl (d * damage_weight catalog f)) (per_fault_ceiling_s q)
     \<or> over_limit (snd (worst (charged_ledger fl catalog f d ns led))) (budget_s q)"
  by (simp add: charge_def Let_def charge_exceeded_def)

lemma over_limit_mono: "over_limit x cap \<Longrightarrow> x \<le> y \<Longrightarrow> over_limit y cap"
  by (cases cap) auto

text \<open>What the steps of a plan charge to one node, in exact arithmetic.\<close>

definition exact :: "rat \<Rightarrow> rat" where
  "exact x = x"

lemma exact_simp: "exact x = x"
  by (simp add: exact_def)

definition step_share :: "fault_catalog \<Rightarrow> string \<Rightarrow> charge_step \<Rightarrow> rat" where
  "step_share catalog n st =
     (if n \<in> snd (snd st) then fst (snd st) * damage_weight catalog (fst st) else 0)"

definition step_damage :: "fault_catalog \<Rightarrow> charge_step \<Rightarrow> rat" where
  "step_damage catalog st = fst (snd st) * damage_weight catalog (fst st) * of_nat (card (snd (snd st)))"

lemma exact_plan:
  assumes "\<forall>st\<in>set sts. finite (snd (snd st))"
  shows "damage_for (fold (charge_step exact catalog) sts led) n = damage_for led n + sum_list (map (step_share catalog n) sts)
    \<and> led_total (fold (charge_step exact catalog) sts led) = led_total led + sum_list (map (step_damage catalog) sts)
    \<and> led_steps (fold (charge_step exact catalog) sts led) = led_steps led + length sts"
  using assms
proof (induction sts arbitrary: led)
  case (Cons st sts)
  let ?led = "charge_step exact catalog st led"
  have "damage_for ?led n = damage_for led n + step_share catalog n st"
    using Cons.prems by (simp add: charge_step_def damage_for_charged step_share_def exact_simp)
  moreover have "led_total ?led = led_total led + step_damage catalog st"
    using Cons.prems by (simp add: charge_step_def charged_ledger_def Let_def step_damage_def exact_simp)
  moreover have "led_steps ?led = led_steps led + 1"
    by (simp add: charge_step_def charged_ledger_def Let_def)
  ultimately show ?case using Cons.IH [of ?led] Cons.prems by (simp add: algebra_simps)
qed simp

lemma sum_step_share:
  assumes "finite N" "snd (snd st) \<subseteq> N"
  shows "(\<Sum>n\<in>N. step_share catalog n st) = step_damage catalog st"
proof -
  have "(\<Sum>n\<in>N. step_share catalog n st) = (\<Sum>n\<in>snd (snd st). fst (snd st) * damage_weight catalog (fst st))"
    using assms by (simp add: step_share_def sum.If_cases Int_absorb1)
  then show ?thesis by (simp add: step_damage_def mult.commute)
qed

lemma fold_charge_wf: "ledger_wf (fold (charge_step fl catalog) xs empty_ledger)"
proof -
  have "ledger_wf led \<Longrightarrow> ledger_wf (fold (charge_step fl catalog) xs led)" for led
    by (induction xs arbitrary: led) (simp_all add: charge_step_def ledger_wf_charged)
  then show ?thesis using ledger_wf_empty by blast
qed

lemma fold_charge_within:
  assumes "\<forall>i<length sts. \<not> charge_exceeded (fst (charge fl catalog q (fst (sts ! i)) (fst (snd (sts ! i)))
             (snd (snd (sts ! i))) (fold (charge_step fl catalog) (take i sts) empty_ledger)))"
    and "sts \<noteq> []"
  shows "\<not> over_limit (snd (worst (fold (charge_step fl catalog) sts empty_ledger))) (budget_s q)"
proof -
  let ?i = "length sts - 1"
  have last: "sts = take ?i sts @ [sts ! ?i]" using assms(2)
    by (metis append_butlast_last_id butlast_conv_take last_conv_nth)
  have "fold (charge_step fl catalog) sts empty_ledger
      = charge_step fl catalog (sts ! ?i) (fold (charge_step fl catalog) (take ?i sts) empty_ledger)"
    by (subst last) simp
  then show ?thesis using assms charge_accepted(2) by (simp add: charge_step_def)
qed

section \<open>Properties\<close>

text \<open>
  The ledger adds up. In exact arithmetic, after any sequence of steps the damage recorded for a
  node is the sum, over the steps that touched it, of duration times weight; the plan total is the
  sum over the nodes; and an unpriced fault costs at least as much per second as any catalog fault.
\<close>

theorem ledger_accounts:
  assumes "\<forall>st\<in>set sts. finite (snd (snd st)) \<and> snd (snd st) \<subseteq> N" "finite N"
  shows "damage_for (fold (charge_step exact catalog) sts empty_ledger) n = sum_list (map (step_share catalog n) sts)
    \<and> led_total (fold (charge_step exact catalog) sts empty_ledger)
        = (\<Sum>m\<in>N. damage_for (fold (charge_step exact catalog) sts empty_ledger) m)
    \<and> (catalog u = None \<longrightarrow> damage_weight catalog f \<le> damage_weight catalog u)"
proof (intro conjI impI)
  have fin: "\<forall>st\<in>set sts. finite (snd (snd st))" using assms(1) by blast
  have zero: "damage_for empty_ledger m = 0" "led_total empty_ledger = 0" for m
    by (simp_all add: empty_ledger_def damage_for_def get_or_zero_def)
  note P = exact_plan [OF fin, of catalog empty_ledger]
  show node: "damage_for (fold (charge_step exact catalog) sts empty_ledger) n = sum_list (map (step_share catalog n) sts)" for n
    using P zero by simp
  have "(\<Sum>m\<in>N. sum_list (map (step_share catalog m) sts)) = sum_list (map (step_damage catalog) sts)"
    using assms
  proof (induction sts)
    case (Cons st sts)
    then show ?case by (simp add: sum.distrib sum_step_share)
  qed simp
  then show "led_total (fold (charge_step exact catalog) sts empty_ledger)
        = (\<Sum>m\<in>N. damage_for (fold (charge_step exact catalog) sts empty_ledger) m)"
    using P zero by (simp add: node)
  assume "catalog u = None"
  then show "damage_weight catalog f \<le> damage_weight catalog u"
    using damage_weight_bound [of catalog f] by (simp add: damage_weight_def)
qed

definition demo_catalog :: fault_catalog where
  "demo_catalog f = (if f = ''k8s.node_drain'' then Some (HIGH, Some RECONCILED) else None)"

definition demo_steps :: "charge_step list" where
  "demo_steps = [(''k8s.node_drain'', 100, {''a'', ''b''}), (''mystery'', 10, {''b''})]"

theorem ledger_accounts_witness:
  "damage_for (fold (charge_step exact demo_catalog) demo_steps empty_ledger) ''b'' = 330
   \<and> led_total (fold (charge_step exact demo_catalog) demo_steps empty_ledger) = 580"
proof -
  have pre: "\<forall>st\<in>set demo_steps. finite (snd (snd st)) \<and> snd (snd st) \<subseteq> {''a'', ''b''}" "finite {''a'', ''b''}"
    by (simp_all add: demo_steps_def)
  note A = ledger_accounts [OF pre, of demo_catalog _ "''k8s.node_drain''" "''k8s.node_drain''"]
  have w: "damage_weight demo_catalog ''k8s.node_drain'' = 5 / 2" "damage_weight demo_catalog ''mystery'' = 8"
    by (simp_all add: damage_weight_def damage_weight_for_def demo_catalog_def unresolved_fault_weight_def)
  have s: "sum_list (map (step_share demo_catalog ''a'') demo_steps) = 250"
    "sum_list (map (step_share demo_catalog ''b'') demo_steps) = 330"
    by (simp_all add: demo_steps_def step_share_def w)
  show ?thesis using A [of "''a''"] A [of "''b''"] s by simp
qed

text \<open>
  What an accepted plan has not done. Whatever the rounding of the float operations, when every
  charge of a plan is within the quota, no step charged a node more than the per-fault ceiling and
  no node ends above the budget; and the judgement of a step depends only on the numbers: lifting
  the caps changes neither the ledger nor the damage reported.
\<close>

theorem accepted_plan_within_quota:
  assumes "\<forall>i<length sts. \<not> charge_exceeded (fst (charge fl catalog q (fst (sts ! i)) (fst (snd (sts ! i)))
             (snd (snd (sts ! i))) (fold (charge_step fl catalog) (take i sts) empty_ledger)))"
    and "\<forall>st\<in>set sts. finite (snd (snd st))"
  shows "(\<forall>st\<in>set sts. \<not> over_limit (fl (fst (snd st) * damage_weight catalog (fst st))) (per_fault_ceiling_s q))
    \<and> (sts \<noteq> [] \<longrightarrow> (\<forall>n. n \<in> fst ` set (led_by_node (fold (charge_step fl catalog) sts empty_ledger)) \<longrightarrow>
           \<not> over_limit (damage_for (fold (charge_step fl catalog) sts empty_ledger) n) (budget_s q)))
    \<and> snd (charge fl catalog (unrestricted q) f d ns led) = snd (charge fl catalog q f d ns led)
    \<and> ch_step_damage (fst (charge fl catalog (unrestricted q) f d ns led))
        = ch_step_damage (fst (charge fl catalog q f d ns led))"
proof (intro conjI ballI allI impI)
  fix st
  assume "st \<in> set sts"
  then obtain i where "i < length sts" "st = sts ! i" by (auto simp: in_set_conv_nth)
  then show "\<not> over_limit (fl (fst (snd st) * damage_weight catalog (fst st))) (per_fault_ceiling_s q)"
    using assms(1) charge_accepted(1) by blast
next
  fix n
  assume ne: "sts \<noteq> []" and n: "n \<in> fst ` set (led_by_node (fold (charge_step fl catalog) sts empty_ledger))"
  have "\<not> over_limit (snd (worst (fold (charge_step fl catalog) sts empty_ledger))) (budget_s q)"
    by (rule fold_charge_within [OF assms(1) ne])
  then show "\<not> over_limit (damage_for (fold (charge_step fl catalog) sts empty_ledger) n) (budget_s q)"
    using worst_bounds [OF n fold_charge_wf] over_limit_mono by blast
qed (simp_all add: charge_def Let_def)

definition demo_quota :: DamageQuota where
  "demo_quota = \<lparr>budget_s = Fin 500, per_fault_ceiling_s = Fin 300, window_s = Infinite\<rparr>"

theorem accepted_plan_within_quota_witness:
  "\<not> over_limit (damage_for (fold (charge_step exact demo_catalog) [(''k8s.node_drain'', 100, {''a''})] empty_ledger) ''a'')
       (budget_s demo_quota)"
proof -
  let ?sts = "[(''k8s.node_drain'', 100, {''a''})]"
  have w: "damage_weight demo_catalog ''k8s.node_drain'' = 5 / 2"
    by (simp add: damage_weight_def damage_weight_for_def demo_catalog_def)
  have led: "charged_ledger exact demo_catalog ''k8s.node_drain'' 100 {''a''} empty_ledger
      = \<lparr>led_by_node = [(''a'', 250)], led_by_node_fault = [((''a'', ''k8s.node_drain''), 250)],
         led_total = 250, led_steps = 1\<rparr>"
    by (simp add: charged_ledger_def empty_ledger_def get_or_zero_def w exact_simp)
  have ok: "\<forall>i<length ?sts. \<not> charge_exceeded (fst (charge exact demo_catalog demo_quota (fst (?sts ! i)) (fst (snd (?sts ! i)))
             (snd (snd (?sts ! i))) (fold (charge_step exact demo_catalog) (take i ?sts) empty_ledger)))"
    by (simp add: charge_def Let_def charge_exceeded_def led worst_def demo_quota_def w exact_simp)
  have fin: "\<forall>st\<in>set ?sts. finite (snd (snd st))" by simp
  have mem: "''a'' \<in> fst ` set (led_by_node (fold (charge_step exact demo_catalog) ?sts empty_ledger))"
    by (simp add: charge_step_def led)
  from accepted_plan_within_quota [OF ok fin, of "''f''" 1 "{}" empty_ledger] mem show ?thesis by blast
qed

text \<open>
  The per-fault-ceiling refusal names the most damaged node of the plan, which need not be one the
  step charged.
\<close>

lemma ceiling_names_other_node:
  "\<exists>led c. snd (charge exact demo_catalog demo_quota ''mystery'' 50 {''a''} empty_ledger) = led
     \<and> fst (charge exact demo_catalog demo_quota ''k8s.node_drain'' 150 {''b''} led) = c
     \<and> ch_rule c = ''damage_quota.per_fault_ceiling'' \<and> ch_worst_node c = ''a''"
proof -
  have w: "damage_weight demo_catalog ''k8s.node_drain'' = 5 / 2" "damage_weight demo_catalog ''mystery'' = 8"
    by (simp_all add: damage_weight_def damage_weight_for_def demo_catalog_def unresolved_fault_weight_def)
  show ?thesis
    by (simp add: charge_def Let_def charged_ledger_def empty_ledger_def get_or_zero_def w worst_def demo_quota_def
        exact_simp del: set_filter)
qed

end
