(* ===== verification/Plan_Model.thy ===== *)
theory Plan_Model
  imports Topology_Graph Damage_Quota
begin

text \<open>
  What the planner hands to execution: logical targets (\<open>domain/target.py\<close>), execution contexts
  (\<open>domain/execution_context.py\<close>), the frozen plan (\<open>domain/experiments.py\<close>), the config-policy and
  the policy profiles (\<open>config.py\<close>, \<open>domain/policy.py\<close>), and the decisions the gates record
  (\<open>domain/decisions.py\<close>). Fields that no modelled operation reads are left out.
\<close>

section \<open>Logical targets\<close>

datatype RuntimeLabel = RT_DOCKER | RT_PODMAN | RT_KUBERNETES

datatype ResourceKind =
  RK_CONTAINER | RK_DEPLOYMENT | RK_STATEFULSET | RK_DAEMONSET | RK_SERVICE | RK_POD | RK_K8S_NODE

datatype SelectionMode = SEL_ONE | SEL_ALL | SEL_COUNT | SEL_PERCENTAGE | SEL_RANDOM

definition reserved_selection_modes :: "SelectionMode set" where
  "reserved_selection_modes = {SEL_ALL, SEL_COUNT, SEL_PERCENTAGE, SEL_RANDOM}"

record SelectionSpec =
  sel_mode :: SelectionMode
  sel_count :: "int option"
  sel_percentage :: "rat option"

text \<open>
  The field constraints and the companion-mode validator; a refusal is pydantic's
  \<open>ValidationError\<close>, a \<open>ValueError\<close>.
\<close>

definition selection_validate :: "SelectionSpec \<Rightarrow> py_error + SelectionSpec" where
  "selection_validate s =
     (if (\<exists>c. sel_count s = Some c \<and> (c < 1 \<or> sel_mode s \<noteq> SEL_COUNT)) then Inl ValueErr
      else if (\<exists>p. sel_percentage s = Some p \<and> (p \<le> 0 \<or> 100 < p \<or> sel_mode s \<noteq> SEL_PERCENTAGE))
      then Inl ValueErr
      else Inr s)"

record TargetScope =
  ts_logical_id :: string
  ts_runtime :: RuntimeLabel
  ts_kind :: ResourceKind
  ts_authority :: "(string \<times> string) list"
  ts_container :: "string option"
  ts_selection :: "SelectionSpec option"

text \<open>\<open>authority.get(key, default)\<close>\<close>

definition authority_get :: "TargetScope \<Rightarrow> string \<Rightarrow> string \<Rightarrow> string" where
  "authority_get sc k dflt = (case map_of (ts_authority sc) k of None \<Rightarrow> dflt | Some v \<Rightarrow> v)"

definition scope_validate :: "TargetScope \<Rightarrow> py_error + TargetScope" where
  "scope_validate sc =
     (if py_strip (ts_logical_id sc) = [] then Inl ValueErr
      else Inr (sc\<lparr>ts_logical_id := py_strip (ts_logical_id sc)\<rparr>))"

section \<open>Execution contexts\<close>

datatype ExecutionContext =
  CTX_HOST | CTX_CONTAINER | CTX_PROCESS | CTX_NETWORK_NAMESPACE | CTX_REMOTE_HOST | CTX_REMOTE_CONTAINER

fun compatibility :: "ExecutionContext \<Rightarrow> NodeKind set" where
  "compatibility CTX_HOST = {K_HOST}"
| "compatibility CTX_CONTAINER = {K_CONTAINER, K_SERVICE}"
| "compatibility CTX_PROCESS = {K_PROCESS, K_CONTAINER, K_HOST}"
| "compatibility CTX_NETWORK_NAMESPACE = {K_CONTAINER, K_HOST}"
| "compatibility CTX_REMOTE_HOST = {K_HOST, K_EXTERNAL}"
| "compatibility CTX_REMOTE_CONTAINER = {K_CONTAINER, K_SERVICE}"

definition assert_compatible :: "ExecutionContext \<Rightarrow> NodeKind set \<Rightarrow> py_error + unit" where
  "assert_compatible ctx kinds =
     (if compatibility ctx \<inter> kinds = {} then Inl (InvariantViolation ''execution_context_incompatible'')
      else Inr ())"

fun infer_context_for_node :: "NodeKind \<Rightarrow> ExecutionContext" where
  "infer_context_for_node K_HOST = CTX_HOST"
| "infer_context_for_node K_CONTAINER = CTX_CONTAINER"
| "infer_context_for_node K_SERVICE = CTX_CONTAINER"
| "infer_context_for_node K_PROCESS = CTX_PROCESS"
| "infer_context_for_node K_EXTERNAL = CTX_REMOTE_HOST"
| "infer_context_for_node K_POD = CTX_REMOTE_HOST"
| "infer_context_for_node K_K8S_NODE = CTX_REMOTE_HOST"

text \<open>
  The context inferred for a node is compatible with it, for the kinds of the compatibility table;
  the two Kubernetes kinds are in no row of it.
\<close>

lemma infer_context_compatible:
  "assert_compatible (infer_context_for_node k) {k} = Inr () \<longleftrightarrow> k \<notin> {K_POD, K_K8S_NODE}"
  by (cases k) (simp_all add: assert_compatible_def)

section \<open>Plans\<close>

record BlastRadiusBudget =
  max_services_pct :: rat
  max_hosts :: nat
  max_concurrent_faults :: nat
  max_duration_per_fault_s :: rat
  forbidden_fault_pairs :: "string set set"

definition default_budget :: BlastRadiusBudget where
  "default_budget = \<lparr>max_services_pct = 50, max_hosts = 2, max_concurrent_faults = 3,
                     max_duration_per_fault_s = 300, forbidden_fault_pairs = {}\<rparr>"

record PlannedFault =
  pf_fault_id :: string
  pf_targets :: "string set list"
  pf_target :: "TargetScope option"
  pf_duration_s :: rat
  pf_execution_context :: "ExecutionContext option"
  pf_loci_target :: "string option"

record PlannedStep =
  ps_id :: string
  ps_fault :: "PlannedFault option"

record ExecutionPlan =
  plan_run_id :: string
  plan_steps :: "PlannedStep list"
  plan_fingerprint :: string
  plan_policy_id :: string

text \<open>
  A resolved target is the finite, non-empty set of node ids its selector matched (the validator
  of \<open>ResolvedTarget\<close>); \<open>target_ids\<close> is \<open>frozenset().union(*(t.node_ids for t in targets))\<close>.
\<close>

definition resolved_target_validate :: "string set \<Rightarrow> py_error + string set" where
  "resolved_target_validate ids =
     (if ids = {} then Inl (InvariantViolation ''plan_targets_resolved'') else Inr ids)"

definition target_ids :: "PlannedFault \<Rightarrow> string set" where
  "target_ids f = \<Union> (set (pf_targets f))"

text \<open>The faults of a plan in step order: every walk over a plan skips the steps without one.\<close>

definition plan_faults :: "ExecutionPlan \<Rightarrow> PlannedFault list" where
  "plan_faults p = List.map_filter ps_fault (plan_steps p)"

definition plan_finite :: "ExecutionPlan \<Rightarrow> bool" where
  "plan_finite p \<longleftrightarrow> (\<forall>f\<in>set (plan_faults p). finite (target_ids f))"

section \<open>Config policy, profiles\<close>

record PolicyCfg =
  allow_faults :: "string set option"
  deny_faults :: "string set"
  risk_ceiling :: "RiskLevel option"
  allow_critical :: bool
  critical_fault_acks :: "string set"

record PolicyProfile =
  profile_name :: string
  profile_risk_ceiling :: "RiskLevel option"
  profile_blast_radius :: BlastRadiusBudget
  allowed_environments :: "string set option"
  denied_environments :: "string set"

definition plain_profile :: "string \<Rightarrow> RiskLevel option \<Rightarrow> BlastRadiusBudget \<Rightarrow> PolicyProfile" where
  "plain_profile n r b = \<lparr>profile_name = n, profile_risk_ceiling = r, profile_blast_radius = b,
                          allowed_environments = None, denied_environments = {}\<rparr>"

definition builtin_profiles :: "(string \<times> PolicyProfile) list" where
  "builtin_profiles =
     [(''default'', plain_profile ''default'' None default_budget),
      (''strict'', plain_profile ''strict'' (Some MEDIUM)
         (default_budget\<lparr>max_services_pct := 25, max_hosts := 1, max_concurrent_faults := 1,
                         max_duration_per_fault_s := 60\<rparr>)),
      (''permissive'', plain_profile ''permissive'' None
         (default_budget\<lparr>max_services_pct := 100, max_hosts := 10, max_concurrent_faults := 10,
                         max_duration_per_fault_s := 600\<rparr>)),
      (''staging'', (plain_profile ''staging'' (Some HIGH)
         (default_budget\<lparr>max_services_pct := 50, max_hosts := 2, max_concurrent_faults := 3\<rparr>))
         \<lparr>allowed_environments := Some {''staging'', ''dev''}\<rparr>),
      (''production'', (plain_profile ''production'' (Some MEDIUM)
         (default_budget\<lparr>max_services_pct := 25, max_hosts := 1, max_concurrent_faults := 1\<rparr>))
         \<lparr>allowed_environments := Some {''production''}, denied_environments := {''dev''}\<rparr>)]"

definition is_environment_allowed :: "PolicyProfile \<Rightarrow> string option \<Rightarrow> bool" where
  "is_environment_allowed profile env =
     (case env of None \<Rightarrow> True
      | Some e \<Rightarrow>
          if e \<in> denied_environments profile then False
          else \<not> (case allowed_environments profile of None \<Rightarrow> False | Some ok \<Rightarrow> e \<notin> ok))"

section \<open>Decisions\<close>

text \<open>
  A decision is its rule, outcome and severity; the texts and the inputs are explanations.
\<close>

datatype outcome = Allow | Deny | Warn
datatype SafetySeverity = SEV_INFO | SEV_WARNING | SEV_ERROR | SEV_CRITICAL

record SafetyDecision =
  dec_rule :: string
  dec_outcome :: outcome
  dec_severity :: SafetySeverity

definition is_refusal :: "SafetyDecision \<Rightarrow> bool" where
  "is_refusal d \<longleftrightarrow> dec_outcome d = Deny"

end
