(* ===== verification/Target_Selector.thy ===== *)
theory Target_Selector
  imports Plan_Model "HOL-Library.Product_Lexorder"
begin

text \<open>
  \<open>domain/target_selector.py\<close>: which pods of a workload a target picks. The generator of the
  \<open>random\<close> mode is the parameter \<open>choice\<close>: \<open>Random(seed).choice(seq)\<close> for the seed given, or for
  the hash of the logical id.
\<close>

definition owner_kinds :: "ResourceKind set" where
  "owner_kinds = {RK_DEPLOYMENT, RK_STATEFULSET, RK_DAEMONSET}"

definition owner_label_to_kind :: "(string \<times> ResourceKind) list" where
  "owner_label_to_kind = [(''Deployment'', RK_DEPLOYMENT), (''StatefulSet'', RK_STATEFULSET),
                          (''DaemonSet'', RK_DAEMONSET)]"

fun pod_of :: "TopologyNode \<Rightarrow> PodNode option" where
  "pod_of (Pod p) = Some p"
| "pod_of _ = None"

fun service_of :: "TopologyNode \<Rightarrow> ServiceNode option" where
  "service_of (Service s) = Some s"
| "service_of _ = None"

definition graph_pods :: "TopologyGraph \<Rightarrow> PodNode list" where
  "graph_pods g = List.map_filter pod_of (graph_nodes g)"

definition pods_in_namespace :: "TopologyGraph \<Rightarrow> string \<Rightarrow> PodNode list" where
  "pods_in_namespace g namespace =
     filter (\<lambda>p. pn_namespace p = (if namespace = [] then ''default'' else namespace)) (graph_pods g)"

definition owner_match :: "PodNode \<Rightarrow> TargetScope \<Rightarrow> bool" where
  "owner_match p sc \<longleftrightarrow>
     map_of owner_label_to_kind (case pn_owner_kind p of None \<Rightarrow> [] | Some k \<Rightarrow> k) = Some (ts_kind sc)
     \<and> truthy (pn_owner_name p) \<and> pn_owner_name p = map_of (ts_authority sc) ''name''"

text \<open>
  A \<open>ServiceNode\<close> has no \<open>namespace\<close> field, so \<open>getattr(node, "namespace", "default")\<close> is
  \<open>"default"\<close> for every service.
\<close>

definition services_named :: "TopologyGraph \<Rightarrow> TargetScope \<Rightarrow> ServiceNode list" where
  "services_named g sc =
     filter (\<lambda>s. svc_name s = authority_get sc ''name'' [] \<and> ''default'' = authority_get sc ''namespace'' [])
       (List.map_filter service_of (graph_nodes g))"

definition candidate_pods :: "TopologyGraph \<Rightarrow> TargetScope \<Rightarrow> PodNode list option" where
  "candidate_pods g sc =
     (if ts_kind sc = RK_POD
      then Some (filter (\<lambda>p. pn_name p = authority_get sc ''name'' [])
                  (pods_in_namespace g (authority_get sc ''namespace'' [])))
      else if ts_kind sc \<in> owner_kinds
      then let pods = filter (\<lambda>p. owner_match p sc) (pods_in_namespace g (authority_get sc ''namespace'' []))
           in if pods = [] then None else Some pods
      else if ts_kind sc = RK_SERVICE
      then (case services_named g sc of [] \<Rightarrow> None
            | s # _ \<Rightarrow> Some (filter (\<lambda>p. list_ex (\<lambda>e. edge_src e = svc_id s \<and> edge_dst e = pn_id p
                                     \<and> edge_kind e = DEPENDS_ON) (graph_edges g)) (graph_pods g)))
      else None)"

definition is_eligible :: "PodNode \<Rightarrow> bool" where
  "is_eligible p \<longleftrightarrow> py_lower (pn_state p) = ''running'' \<and> pn_deletion p = None"

definition is_blueprint :: "PodNode \<Rightarrow> bool" where
  "is_blueprint p \<longleftrightarrow> pn_state p = ''blueprint''"

definition deterministic_key :: "PodNode \<Rightarrow> string \<times> string \<times> string" where
  "deterministic_key p = (pn_namespace p, pn_name p, case pn_uid p of None \<Rightarrow> [] | Some u \<Rightarrow> u)"

text \<open>
  \<open>math.ceil(len * pct / 100.0)\<close> in floats; \<open>fl\<close> is the rounding of a float operation.
\<close>

definition percentage_count :: "(rat \<Rightarrow> rat) \<Rightarrow> nat \<Rightarrow> rat \<Rightarrow> int" where
  "percentage_count fl n pct = max 1 (ceiling (fl (fl (of_nat n * pct) / 100)))"

definition dispatch_selection ::
  "(rat \<Rightarrow> rat) \<Rightarrow> (PodNode list \<Rightarrow> PodNode) \<Rightarrow> TargetScope \<Rightarrow> PodNode list
     \<Rightarrow> py_error + PodNode list" where
  "dispatch_selection fl choice sc eligible =
     (let sel = (case ts_selection sc of None \<Rightarrow> \<lparr>sel_mode = SEL_ONE, sel_count = None, sel_percentage = None\<rparr>
                 | Some s \<Rightarrow> s);
          ordered = sort_key deterministic_key eligible
      in case sel_mode sel of
           SEL_ONE \<Rightarrow> Inr (take 1 ordered)
         | SEL_RANDOM \<Rightarrow> Inr [choice ordered]
         | SEL_ALL \<Rightarrow> Inr ordered
         | SEL_COUNT \<Rightarrow>
             (case sel_count sel of
                None \<Rightarrow> Inl (SelectionFailed ''selection.count_required'')
              | Some c \<Rightarrow>
                  if c > int (length ordered) then Inl (SelectionFailed ''selection.count_exceeds_eligible'')
                  else Inr (take (nat c) ordered))
         | SEL_PERCENTAGE \<Rightarrow>
             (case sel_percentage sel of
                None \<Rightarrow> Inl (SelectionFailed ''selection.percentage_required'')
              | Some pct \<Rightarrow>
                  Inr (take (nat (min (percentage_count fl (length ordered) pct) (int (length ordered)))) ordered)))"

definition select_many ::
  "(rat \<Rightarrow> rat) \<Rightarrow> (PodNode list \<Rightarrow> PodNode) \<Rightarrow> TopologyGraph \<Rightarrow> TargetScope
     \<Rightarrow> BlastRadiusBudget option \<Rightarrow> py_error + PodNode list option" where
  "select_many fl choice g sc budget =
     (if ts_kind sc = RK_K8S_NODE then Inl (SelectionFailed ''selection.node_target_unsupported'')
      else case candidate_pods g sc of
        None \<Rightarrow> Inr None
      | Some candidates \<Rightarrow>
          (let eligible = filter is_eligible candidates
           in if eligible = []
              then if candidates \<noteq> [] \<and> list_all is_blueprint candidates then Inr None
                   else Inl (SelectionFailed ''selection.no_eligible_pods'')
              else case dispatch_selection fl choice sc eligible of
                     Inl e \<Rightarrow> Inl e
                   | Inr picked \<Rightarrow>
                       (case budget of
                          None \<Rightarrow> Inr (Some picked)
                        | Some b \<Rightarrow>
                            if length picked > max_concurrent_faults b
                            then Inl (SelectionFailed ''selection.out_of_budget'')
                            else Inr (Some picked))))"

definition select_one ::
  "(rat \<Rightarrow> rat) \<Rightarrow> (PodNode list \<Rightarrow> PodNode) \<Rightarrow> TopologyGraph \<Rightarrow> TargetScope
     \<Rightarrow> py_error + PodNode option" where
  "select_one fl choice g sc =
     (case select_many fl choice g sc None of
        Inl e \<Rightarrow> Inl e
      | Inr None \<Rightarrow> Inr None
      | Inr (Some []) \<Rightarrow> Inl LookupErr
      | Inr (Some (p # _)) \<Rightarrow> Inr (Some p))"

section \<open>Lemmas\<close>

lemma percentage_count_pos: "1 \<le> percentage_count fl n pct"
  by (simp add: percentage_count_def)

lemma candidates_pods: "candidate_pods g sc = Some ps \<Longrightarrow> set ps \<subseteq> set (graph_pods g)"
  by (auto simp: candidate_pods_def pods_in_namespace_def Let_def split: if_splits list.splits)

text \<open>
  What a dispatch picks: pods of the eligible set, at least one, each at most as often as it is
  there, and in every mode but the random one a prefix of the sorted order.
\<close>

lemma dispatch_picks:
  assumes "dispatch_selection fl choice sc eligible = Inr picked" "eligible \<noteq> []"
    and "choice (sort_key deterministic_key eligible) \<in> set eligible"
    and "\<forall>s. ts_selection sc = Some s \<longrightarrow> selection_validate s = Inr s"
  shows "set picked \<subseteq> set eligible \<and> picked \<noteq> [] \<and> length picked \<le> length eligible"
proof -
  define ordered where "ordered = sort_key deterministic_key eligible"
  have o: "set ordered = set eligible" "length ordered = length eligible" "ordered \<noteq> []"
    using assms(2) by (auto simp: ordered_def) (metis length_0_conv length_sort)
  have t: "n \<noteq> 0 \<Longrightarrow> set (take n ordered) \<subseteq> set eligible \<and> take n ordered \<noteq> []
             \<and> length (take n ordered) \<le> length eligible" for n
    using o by (auto dest: in_set_takeD)
  show ?thesis
  proof (cases "ts_selection sc")
    case None
    then have "picked = take 1 ordered" using assms(1) by (simp add: dispatch_selection_def ordered_def)
    then show ?thesis using t [of 1] by simp
  next
    case (Some s)
    then have v: "selection_validate s = Inr s" using assms(4) by blast
    have d: "dispatch_selection fl choice sc eligible = Inr picked" by (rule assms(1))
    have pos: "0 < nat (min (percentage_count fl (length ordered) p) (int (length ordered)))" for p
      using percentage_count_pos [of fl "length ordered" p] o by (cases ordered) auto
    show ?thesis
    proof (cases "sel_mode s")
      case SEL_ALL
      then have "picked = ordered" using d Some by (simp add: dispatch_selection_def ordered_def)
      then show ?thesis using o by simp
    next
      case SEL_COUNT
      then obtain c where "sel_count s = Some c" "picked = take (nat c) ordered"
        using d Some by (auto simp: dispatch_selection_def ordered_def Let_def split: option.splits if_splits)
      moreover have "1 \<le> c" using v calculation(1) by (auto simp: selection_validate_def split: if_splits)
      ultimately show ?thesis using t [of "nat c"] by simp
    next
      case SEL_PERCENTAGE
      then obtain p where
        "picked = take (nat (min (percentage_count fl (length ordered) p) (int (length ordered)))) ordered"
        using d Some by (auto simp: dispatch_selection_def ordered_def Let_def split: option.splits)
      then show ?thesis using t pos [of p] by (metis gr_implies_not0)
    next
      case SEL_ONE
      then have "picked = take 1 ordered" using d Some by (simp add: dispatch_selection_def ordered_def)
      then show ?thesis using t [of 1] by simp
    next
      case SEL_RANDOM
      then have "picked = [choice ordered]" using d Some by (simp add: dispatch_selection_def ordered_def)
      then show ?thesis using assms(2,3) by (auto simp: ordered_def Suc_le_eq)
    qed
  qed
qed

text \<open>
  A target that names a service outside the namespace called \<open>default\<close>, or that names no
  namespace at all, never finds it: it is treated as a workload absent from the graph.
\<close>

lemma service_namespace_ignored:
  assumes "ts_kind sc = RK_SERVICE" "map_of (ts_authority sc) ''namespace'' \<noteq> Some ''default''"
  shows "select_many fl choice g sc budget = Inr None"
proof -
  have "authority_get sc ''namespace'' [] \<noteq> ''default''"
    using assms(2) by (auto simp: authority_get_def split: option.splits)
  then have "services_named g sc = []" by (auto simp: services_named_def filter_empty_iff_all)
  then show ?thesis using assms(1) by (simp add: select_many_def candidate_pods_def owner_kinds_def)
qed

section \<open>Properties\<close>

text \<open>
  C29. What a target picks. For a validated selection, whatever the rounding and whatever member of
  the list the generator draws, a successful selection picks at least one pod, all of them pods of
  the graph among the candidates of the workload, running and not terminating, and no more than the
  concurrency budget. A selection that finds the workload with pods but none live is an error
  unless all of them are manifest placeholders.
\<close>

theorem selection_picks_live_pods:
  assumes "\<And>ps. ps \<noteq> [] \<Longrightarrow> choice ps \<in> set ps"
    and "\<forall>s. ts_selection sc = Some s \<longrightarrow> selection_validate s = Inr s"
    and "select_many fl choice g sc budget = Inr (Some picked)"
  shows "\<exists>cs. candidate_pods g sc = Some cs \<and> set picked \<subseteq> {p \<in> set cs. is_eligible p}
           \<and> set picked \<subseteq> set (graph_pods g) \<and> picked \<noteq> []
           \<and> (\<forall>b. budget = Some b \<longrightarrow> length picked \<le> max_concurrent_faults b)"
proof -
  obtain cs where cs: "candidate_pods g sc = Some cs" "filter is_eligible cs \<noteq> []"
    and d: "dispatch_selection fl choice sc (filter is_eligible cs) = Inr picked"
    and b: "\<forall>b. budget = Some b \<longrightarrow> length picked \<le> max_concurrent_faults b"
    using assms(3)
    by (auto simp: select_many_def Let_def split: if_splits option.splits sum.splits)
  have "choice (sort_key deterministic_key (filter is_eligible cs)) \<in> set (filter is_eligible cs)"
    using assms(1) [of "sort_key deterministic_key (filter is_eligible cs)"] cs(2)
    by (metis length_0_conv length_sort set_sort)
  from dispatch_picks [OF d cs(2) this assms(2)] show ?thesis
    using cs(1) b candidates_pods [OF cs(1)] by auto
qed

definition demo_pod :: "string \<Rightarrow> string \<Rightarrow> PodNode" where
  "demo_pod i st = \<lparr>pn_id = i, pn_name = i, pn_namespace = ''shop'', pn_node = None, pn_labels = [],
     pn_state = st, pn_owner_kind = Some ''Deployment'', pn_owner_name = Some ''api'',
     pn_containers = [], pn_uid = None, pn_restarts = 0, pn_deletion = None\<rparr>"

definition demo_pod_graph :: TopologyGraph where
  "demo_pod_graph = \<lparr>graph_nodes = [Pod (demo_pod ''p2'' ''Running''), Pod (demo_pod ''p1'' ''Running''),
                                    Pod (demo_pod ''p0'' ''Pending'')], graph_edges = []\<rparr>"

definition demo_scope :: TargetScope where
  "demo_scope = \<lparr>ts_logical_id = ''api'', ts_runtime = RT_KUBERNETES, ts_kind = RK_DEPLOYMENT,
     ts_authority = [(''namespace'', ''shop''), (''name'', ''api'')], ts_container = None,
     ts_selection = Some \<lparr>sel_mode = SEL_COUNT, sel_count = Some 1, sel_percentage = None\<rparr>\<rparr>"

lemma demo_lower: "py_lower ''Running'' = ''running''" "py_lower ''Pending'' = ''pending''"
  by code_simp+

lemma demo_selection:
  "select_many (\<lambda>x. x) hd demo_pod_graph demo_scope (Some default_budget)
     = Inr (Some [demo_pod ''p1'' ''Running''])"
proof -
  have c: "candidate_pods demo_pod_graph demo_scope
      = Some [demo_pod ''p2'' ''Running'', demo_pod ''p1'' ''Running'', demo_pod ''p0'' ''Pending'']"
    by (simp add: candidate_pods_def demo_scope_def owner_kinds_def demo_pod_graph_def
      pods_in_namespace_def graph_pods_def map_filter_simps authority_get_def owner_match_def
      owner_label_to_kind_def demo_pod_def Let_def)
  have e: "is_eligible (demo_pod i ''Running'')" "\<not> is_eligible (demo_pod i ''Pending'')" for i
    by (simp_all add: is_eligible_def demo_pod_def demo_lower)
  have s: "sort_key deterministic_key [demo_pod ''p2'' ''Running'', demo_pod ''p1'' ''Running'']
      = [demo_pod ''p1'' ''Running'', demo_pod ''p2'' ''Running'']"
    by (simp add: deterministic_key_def demo_pod_def)
  have d: "dispatch_selection (\<lambda>x. x) hd demo_scope [demo_pod ''p2'' ''Running'', demo_pod ''p1'' ''Running'']
      = Inr [demo_pod ''p1'' ''Running'']"
    unfolding dispatch_selection_def s by (simp add: demo_scope_def)
  have k: "ts_kind demo_scope = RK_DEPLOYMENT" by (simp add: demo_scope_def)
  show ?thesis by (simp add: select_many_def c e d k Let_def default_budget_def)
qed

theorem selection_picks_live_pods_witness:
  "\<exists>cs. candidate_pods demo_pod_graph demo_scope = Some cs
     \<and> {demo_pod ''p1'' ''Running''} \<subseteq> {p \<in> set cs. is_eligible p}"
  using selection_picks_live_pods [of hd demo_scope "\<lambda>x. x" demo_pod_graph "Some default_budget"
      "[demo_pod ''p1'' ''Running'']"] demo_selection
  by (auto simp: demo_scope_def selection_validate_def)

end
