(* ===== verification/Blast_Prediction.thy ===== *)
theory Blast_Prediction
  imports Plan_Model "HOL-Library.Product_Lexorder"
begin

text \<open>
  \<open>domain/prediction.py\<close>: the read-only preview of a plan's blast: the affected set, the dependency
  depths, the per-step rules and the walk that stops where the gate stops. \<open>fl\<close> is the rounding of a
  float operation. Cost, replica loss and the digests of plan and graph are not modelled.
\<close>

section \<open>Walks over the dependency edges\<close>

definition reverse_dependencies :: "TopologyGraph \<Rightarrow> string \<Rightarrow> string list" where
  "reverse_dependencies g i = sorted_list_of_set (set (upstreams g i))"

lemma set_reverse_dependencies [simp]: "u \<in> set (reverse_dependencies g i) \<longleftrightarrow> (u, i) \<in> depends g"
  by (simp add: reverse_dependencies_def upstreams_depends)

lemma reverse_dependencies_sources: "set (reverse_dependencies g i) \<subseteq> all_sources g"
  using upstreams_sources [of g i] by (simp add: reverse_dependencies_def)

text \<open>
  The worklist of \<open>affected_node_ids\<close>. The stack's top is the head of the list, so it starts from
  the targets in descending order; \<open>known\<close> is \<open>targets \<union> seen\<close>.
\<close>

fun push_new :: "string \<Rightarrow> string list \<Rightarrow> string set \<times> string list \<Rightarrow> string set \<times> string list" where
  "push_new cur [] (known, frontier) = (known, frontier)"
| "push_new cur (u # us) (known, frontier) =
     (if u \<noteq> cur \<and> u \<notin> known then push_new cur us (insert u known, u # frontier)
      else push_new cur us (known, frontier))"

lemma push_new_spec:
  "push_new cur us (known, frontier) = (known', frontier') \<Longrightarrow>
     \<exists>new. frontier' = new @ frontier \<and> known' = set new \<union> known \<and> distinct new
       \<and> set new = {u \<in> set us. u \<noteq> cur \<and> u \<notin> known}"
proof (induction us arbitrary: known frontier)
  case (Cons u us)
  show ?case
  proof (cases "u \<noteq> cur \<and> u \<notin> known")
    case True
    then obtain new where "frontier' = new @ u # frontier" "known' = set new \<union> insert u known" "distinct new"
      "set new = {v \<in> set us. v \<noteq> cur \<and> v \<notin> insert u known}"
      using Cons.IH [of "insert u known" "u # frontier"] Cons.prems by auto
    then show ?thesis using True by (intro exI [of _ "new @ [u]"]) auto
  next
    case False
    then show ?thesis using Cons.IH [of known frontier] Cons.prems by auto
  qed
qed simp

function affected_loop :: "TopologyGraph \<Rightarrow> string set \<Rightarrow> string list \<Rightarrow> string set" where
  "affected_loop g known [] = known"
| "affected_loop g known (cur # rest) =
     (case push_new cur (reverse_dependencies g cur) (known, rest) of
        (known', frontier') \<Rightarrow> affected_loop g known' frontier')"
  by pat_completeness auto

termination
proof (relation "measure (\<lambda>(g, known, frontier). 2 * card (all_sources g - known) + length frontier)")
  fix g known cur rest known' frontier'
  assume "(known', frontier') = push_new cur (reverse_dependencies g cur) (known, rest)"
  then obtain new where n: "frontier' = new @ rest" "known' = set new \<union> known" "distinct new"
    "set new = {u \<in> set (reverse_dependencies g cur). u \<noteq> cur \<and> u \<notin> known}"
    using push_new_spec [of cur "reverse_dependencies g cur" known rest known' frontier'] by auto
  have fin: "finite (all_sources g - known)" by (simp add: all_sources_def)
  have sub: "set new \<subseteq> all_sources g - known"
    using n(4) reverse_dependencies_sources [of g cur] by auto
  have "card (all_sources g - known') = card ((all_sources g - known) - set new)"
    by (rule arg_cong [of _ _ card]) (auto simp: n(2))
  also have "\<dots> = card (all_sources g - known) - length new"
    using fin sub n(3) by (simp add: card_Diff_subset distinct_card)
  finally have "card (all_sources g - known') = card (all_sources g - known) - length new" .
  moreover have "length new \<le> card (all_sources g - known)"
    using card_mono [OF fin sub] n(3) by (simp add: distinct_card)
  ultimately show "((g, known', frontier'), (g, known, cur # rest)) \<in>
      measure (\<lambda>(g, known, frontier). 2 * card (all_sources g - known) + length frontier)"
    by (simp add: n(1))
qed simp

definition affected_node_ids :: "TopologyGraph \<Rightarrow> string set \<Rightarrow> string set" where
  "affected_node_ids g targets = affected_loop g targets (rev (sorted_list_of_set targets))"

definition reaches :: "TopologyGraph \<Rightarrow> string set \<Rightarrow> string set" where
  "reaches g T = {v. \<exists>t\<in>T. (v, t) \<in> (depends g)\<^sup>*}"

lemma reaches_closed:
  assumes "T \<subseteq> K" "K \<subseteq> reaches g T" "\<forall>x\<in>K. \<forall>u. (u, x) \<in> depends g \<longrightarrow> u \<in> K"
  shows "K = reaches g T"
proof -
  have "v \<in> K" if "(v, t) \<in> (depends g)\<^sup>*" "t \<in> T" for v t
    using that by (induction rule: converse_rtrancl_induct) (use assms(1,3) in auto)
  then show ?thesis using assms(2) by (auto simp: reaches_def)
qed

lemma affected_loop_correct:
  assumes "T \<subseteq> known" "known \<subseteq> reaches g T" "set frontier \<subseteq> known"
    and "\<forall>x\<in>known - set frontier. \<forall>u. (u, x) \<in> depends g \<longrightarrow> u \<in> known"
  shows "affected_loop g known frontier = reaches g T"
  using assms
proof (induction g known frontier rule: affected_loop.induct)
  case (1 g known)
  then have "known = reaches g T" by (intro reaches_closed) auto
  then show ?case by simp
next
  case (2 g known cur rest)
  obtain known' frontier' where v: "push_new cur (reverse_dependencies g cur) (known, rest) = (known', frontier')"
    by force
  then obtain new where n: "frontier' = new @ rest" "known' = set new \<union> known"
    "set new = {u \<in> set (reverse_dependencies g cur). u \<noteq> cur \<and> u \<notin> known}"
    using push_new_spec by blast
  have "cur \<in> known" using "2.prems"(3) by simp
  then have "cur \<in> reaches g T" using "2.prems"(2) by blast
  then have new: "set new \<subseteq> reaches g T"
    using n(3) by (auto simp: reaches_def intro: converse_rtrancl_into_rtrancl)
  have "affected_loop g known' frontier' = reaches g T"
  proof (rule "2.IH" [OF v [symmetric]])
    show "\<forall>x\<in>known' - set frontier'. \<forall>u. (u, x) \<in> depends g \<longrightarrow> u \<in> known'"
    proof (intro ballI allI impI)
      fix x u
      assume x: "x \<in> known' - set frontier'" and u: "(u, x) \<in> depends g"
      then have x': "x \<in> known" "x \<notin> set rest" using n(1,2) by auto
      show "u \<in> known'"
      proof (cases "x = cur")
        case True
        then have "u = cur \<or> u \<in> known \<or> u \<in> set new" using u unfolding n(3) by auto
        then show ?thesis using x' True n(2) by auto
      next
        case False
        then have "x \<in> known - set (cur # rest)" using x' by simp
        then have "u \<in> known" using u "2.prems"(4) by blast
        then show ?thesis using n(2) by blast
      qed
    qed
    show "T \<subseteq> known'" "known' \<subseteq> reaches g T" using "2.prems"(1,2) n(2) new by blast+
    show "set frontier' \<subseteq> known'" using "2.prems"(3) n(1,2) by auto
  qed
  then show ?case by (simp add: v)
qed

lemma affected_node_ids_eq: "finite T \<Longrightarrow> affected_node_ids g T = reaches g T"
  unfolding affected_node_ids_def by (rule affected_loop_correct) (auto simp: reaches_def)

section \<open>Dependency depths\<close>

text \<open>
  \<open>dependency_fan_out\<close>: the queue holds ids whose depth is in the dictionary \<open>depths\<close>, an
  association list; \<open>cand\<close> is \<open>depths[current] + 1\<close>, which the inner loop cannot change.
\<close>

fun relax :: "string \<Rightarrow> nat \<Rightarrow> string list \<Rightarrow> (string \<times> nat) list \<times> string list
                \<Rightarrow> (string \<times> nat) list \<times> string list" where
  "relax cur cand [] (depths, frontier) = (depths, frontier)"
| "relax cur cand (u # us) (depths, frontier) =
     (if u = cur then relax cur cand us (depths, frontier)
      else if (case map_of depths u of None \<Rightarrow> True | Some known \<Rightarrow> cand < known)
      then relax cur cand us (AList.update u cand depths, frontier @ [u])
      else relax cur cand us (depths, frontier))"

definition depth_at :: "(string \<times> nat) list \<Rightarrow> string \<Rightarrow> nat" where
  "depth_at depths i = (case map_of depths i of None \<Rightarrow> 0 | Some d \<Rightarrow> d)"

definition unseen :: "TopologyGraph \<Rightarrow> (string \<times> nat) list \<Rightarrow> nat" where
  "unseen g depths = card (all_sources g - fst ` set depths)"

lemma update_sum_less:
  "map_of depths u = Some known \<Longrightarrow> (cand::nat) < known \<Longrightarrow>
     sum_list (map snd (AList.update u cand depths)) < sum_list (map snd depths)"
  by (induction depths) (auto split: if_splits)

lemma update_unseen:
  assumes "u \<in> all_sources g" "map_of depths u = None"
  shows "unseen g (AList.update u cand depths) < unseen g depths"
proof -
  have "u \<notin> fst ` set depths" using assms(2) by (simp add: map_of_eq_None_iff)
  then have "all_sources g - fst ` set (AList.update u cand depths) \<subset> all_sources g - fst ` set depths"
    using assms(1) by (auto simp: dom_update)
  then show ?thesis unfolding unseen_def by (intro psubset_card_mono) (simp_all add: all_sources_def)
qed

lemma relax_progress:
  "relax cur cand us (depths, frontier) = (depths', frontier') \<Longrightarrow> set us \<subseteq> all_sources g \<Longrightarrow>
     (depths' = depths \<and> frontier' = frontier) \<or> unseen g depths' < unseen g depths
     \<or> (unseen g depths' = unseen g depths \<and> sum_list (map snd depths') < sum_list (map snd depths))"
proof (induction us arbitrary: depths frontier)
  case (Cons u us)
  show ?case
  proof (cases "u \<noteq> cur \<and> (case map_of depths u of None \<Rightarrow> True | Some known \<Rightarrow> cand < known)")
    case True
    let ?D = "AList.update u cand depths"
    have step: "unseen g ?D < unseen g depths
      \<or> (unseen g ?D = unseen g depths \<and> sum_list (map snd ?D) < sum_list (map snd depths))"
    proof (cases "map_of depths u")
      case None
      then show ?thesis using update_unseen [of u g depths cand] Cons.prems(2) by simp
    next
      case (Some k)
      then have "u \<in> fst ` set depths" by (metis domI dom_map_of_conv_image_fst)
      then have "unseen g ?D = unseen g depths" by (simp add: unseen_def dom_update insert_absorb)
      then show ?thesis using Some True update_sum_less [OF Some] by simp
    qed
    have "relax cur cand us (?D, frontier @ [u]) = (depths', frontier')" using Cons.prems(1) True by simp
    from Cons.IH [OF this] Cons.prems(2) step show ?thesis by auto
  next
    case False
    then have "relax cur cand us (depths, frontier) = (depths', frontier')"
      using Cons.prems(1) by (auto split: if_splits option.splits)
    from Cons.IH [OF this] Cons.prems(2) show ?thesis by simp
  qed
qed simp

function fan_out_loop :: "TopologyGraph \<Rightarrow> (string \<times> nat) list \<Rightarrow> string list \<Rightarrow> (string \<times> nat) list" where
  "fan_out_loop g depths [] = depths"
| "fan_out_loop g depths (cur # rest) =
     (case relax cur (depth_at depths cur + 1) (reverse_dependencies g cur) (depths, rest) of
        (depths', frontier') \<Rightarrow> fan_out_loop g depths' frontier')"
  by pat_completeness auto

termination
proof (relation "measures [\<lambda>(g, depths, frontier). unseen g depths,
    \<lambda>(g, depths, frontier). sum_list (map snd depths), \<lambda>(g, depths, frontier). length frontier]")
  fix g depths cur rest depths' frontier'
  assume "(depths', frontier') = relax cur (depth_at depths cur + 1) (reverse_dependencies g cur) (depths, rest)"
  from relax_progress [OF this [symmetric] reverse_dependencies_sources] show "((g, depths', frontier'), (g, depths, cur # rest)) \<in>
     measures [\<lambda>(g, depths, frontier). unseen g depths,
       \<lambda>(g, depths, frontier). sum_list (map snd depths), \<lambda>(g, depths, frontier). length frontier]"
    by auto
qed simp

definition fan_out_depths :: "TopologyGraph \<Rightarrow> string set \<Rightarrow> (string \<times> nat) list" where
  "fan_out_depths g targets =
     fan_out_loop g (map (\<lambda>t. (t, 0)) (sorted_list_of_set targets)) (sorted_list_of_set targets)"

record NodeDepth =
  nd_id :: string
  nd_kind :: "NodeKind option"
  nd_depth :: nat
  nd_targeted :: bool

record DependencyFanOut =
  fo_nodes :: "NodeDepth list"
  fo_max_depth :: nat

text \<open>\<open>node_kind\<close> reports \<open>"unknown"\<close>, here \<open>None\<close>, for an id the graph lacks.\<close>

definition kind_of_id :: "TopologyGraph \<Rightarrow> string \<Rightarrow> NodeKind option" where
  "kind_of_id g i = map_option node_kind (by_id g i)"

definition dependency_fan_out :: "TopologyGraph \<Rightarrow> string set \<Rightarrow> DependencyFanOut" where
  "dependency_fan_out g targets =
     (let nodes = map (\<lambda>(i, d). \<lparr>nd_id = i, nd_kind = kind_of_id g i, nd_depth = d, nd_targeted = (i \<in> targets)\<rparr>)
                    (sort_key (\<lambda>(i, d). (d, i)) (fan_out_depths g targets))
      in \<lparr>fo_nodes = nodes, fo_max_depth = Max (insert 0 (set (map nd_depth nodes)))\<rparr>)"

text \<open>What the inner loop does to the dictionary and to the queue.\<close>

definition improves :: "(string \<times> nat) list \<Rightarrow> nat \<Rightarrow> string \<Rightarrow> bool" where
  "improves depths cand v \<longleftrightarrow> (case map_of depths v of None \<Rightarrow> True | Some known \<Rightarrow> cand < known)"

lemma relax_spec:
  "relax cur cand us (depths, frontier) = (depths', frontier') \<Longrightarrow>
     map_of depths' v = (if v \<in> set us \<and> v \<noteq> cur \<and> improves depths cand v then Some cand else map_of depths v)
     \<and> set frontier' = set frontier \<union> {x \<in> set us. x \<noteq> cur \<and> improves depths cand x}"
proof (induction us arbitrary: depths frontier)
  case (Cons u us)
  show ?case
  proof (cases "u \<noteq> cur \<and> improves depths cand u")
    case True
    let ?D = "AList.update u cand depths"
    have i: "improves ?D cand x \<longleftrightarrow> x \<noteq> u \<and> improves depths cand x" for x
      by (simp add: improves_def update_conv')
    have "relax cur cand us (?D, frontier @ [u]) = (depths', frontier')"
      using Cons.prems True by (simp add: improves_def)
    from Cons.IH [OF this] show ?thesis using True by (auto simp: i update_conv')
  next
    case False
    then have "relax cur cand us (depths, frontier) = (depths', frontier')"
      using Cons.prems by (auto simp: improves_def split: if_splits)
    from Cons.IH [OF this] show ?thesis using False by auto
  qed
qed simp

definition distance :: "TopologyGraph \<Rightarrow> string set \<Rightarrow> string \<Rightarrow> nat \<Rightarrow> bool" where
  "distance g T v d \<longleftrightarrow> (\<exists>t\<in>T. (v, t) \<in> depends g ^^ d) \<and> (\<forall>n<d. \<forall>t\<in>T. (v, t) \<notin> depends g ^^ n)"

text \<open>
  The invariant of the queue: every depth is the length of a chain, and every node already taken off
  the queue has passed its depth on.
\<close>

definition depths_ok :: "TopologyGraph \<Rightarrow> string set \<Rightarrow> (string \<times> nat) list \<Rightarrow> string set \<Rightarrow> bool" where
  "depths_ok g T D F \<longleftrightarrow>
     (\<forall>t\<in>T. map_of D t = Some 0)
     \<and> (\<forall>v d. map_of D v = Some d \<longrightarrow> (\<exists>t\<in>T. (v, t) \<in> depends g ^^ d))
     \<and> (\<forall>x\<in>F. map_of D x \<noteq> None)
     \<and> (\<forall>x dx u. map_of D x = Some dx \<longrightarrow> x \<notin> F \<longrightarrow> (u, x) \<in> depends g \<longrightarrow>
            (\<exists>d \<le> dx + 1. map_of D u = Some d))"

lemma depths_ok_relax:
  assumes ok: "depths_ok g T D (insert cur (set rest))"
    and r: "relax cur (depth_at D cur + 1) (reverse_dependencies g cur) (D, rest) = (D', F')"
  shows "depths_ok g T D' (set F')"
proof -
  define c where "c = depth_at D cur + 1"
  have R: "relax cur c (reverse_dependencies g cur) (D, rest) = (D', F')" using r by (simp add: c_def)
  have D': "map_of D' v = (if (v, cur) \<in> depends g \<and> v \<noteq> cur \<and> improves D c v then Some c else map_of D v)" for v
    using relax_spec [OF R, of v] by simp
  have F': "set F' = set rest \<union> {x. (x, cur) \<in> depends g \<and> x \<noteq> cur \<and> improves D c x}"
    using relax_spec [OF R] by simp
  obtain dc where dc: "map_of D cur = Some dc" using ok by (auto simp: depths_ok_def)
  then have c: "c = dc + 1" by (simp add: c_def depth_at_def)
  obtain t where t: "t \<in> T" "(cur, t) \<in> depends g ^^ dc" using ok dc unfolding depths_ok_def by blast
  show ?thesis unfolding depths_ok_def
  proof (intro conjI allI impI ballI)
    fix t assume "t \<in> T"
    then have "map_of D t = Some 0" using ok by (simp add: depths_ok_def)
    then show "map_of D' t = Some 0" by (simp add: D' improves_def)
  next
    fix v d assume v: "map_of D' v = Some d"
    show "\<exists>t\<in>T. (v, t) \<in> depends g ^^ d"
    proof (cases "(v, cur) \<in> depends g \<and> v \<noteq> cur \<and> improves D c v")
      case True
      then have "(v, t) \<in> depends g ^^ d" using v t(2) D' c by (auto intro: relpow_Suc_I2)
      then show ?thesis using t(1) by blast
    next
      case False
      then have "map_of D v = Some d" using v D' by auto
      then show ?thesis using ok by (simp add: depths_ok_def)
    qed
  next
    fix x assume "x \<in> set F'"
    then show "map_of D' x \<noteq> None" using ok by (auto simp: F' D' depths_ok_def)
  next
    fix x dx u assume x: "map_of D' x = Some dx" "x \<notin> set F'" and u: "(u, x) \<in> depends g"
    then have Dx: "map_of D x = Some dx" by (auto simp: D' F' split: if_splits)
    show "\<exists>d \<le> dx + 1. map_of D' u = Some d"
    proof (cases "x = cur")
      case True
      then have "dx + 1 = c" using Dx dc c by simp
      then show ?thesis using True u D' Dx dc by (auto simp: improves_def split: option.splits)
    next
      case False
      then have "x \<notin> insert cur (set rest)" using x(2) by (simp add: F')
      then obtain d where "d \<le> dx + 1" "map_of D u = Some d"
        using ok Dx u unfolding depths_ok_def by blast
      then show ?thesis by (auto simp: D' improves_def split: option.splits)
    qed
  qed
qed

lemma depths_ok_final:
  assumes "depths_ok g T D {}"
  shows "map_of D v = Some d \<longleftrightarrow> distance g T v d"
proof -
  have short: "\<exists>k \<le> n. map_of D w = Some k" if "(w, t) \<in> depends g ^^ n" "t \<in> T" for n w t
    using that
  proof (induction n arbitrary: w)
    case 0
    then show ?case using assms by (auto simp: depths_ok_def)
  next
    case (Suc n)
    then obtain y where y: "(w, y) \<in> depends g" "(y, t) \<in> depends g ^^ n" by (meson relpow_Suc_D2)
    then obtain k where "k \<le> n" "map_of D y = Some k" using Suc.IH Suc.prems(2) by blast
    then show ?case using assms y(1) unfolding depths_ok_def by fastforce
  qed
  have chain: "map_of D v = Some k \<Longrightarrow> \<exists>t\<in>T. (v, t) \<in> depends g ^^ k" for k
    using assms by (simp add: depths_ok_def)
  show ?thesis
  proof
    assume d: "map_of D v = Some d"
    then show "distance g T v d"
      using chain short by (fastforce simp: distance_def)
  next
    assume "distance g T v d"
    then obtain t where t: "t \<in> T" "(v, t) \<in> depends g ^^ d" "\<forall>n<d. \<forall>t\<in>T. (v, t) \<notin> depends g ^^ n"
      by (auto simp: distance_def)
    then obtain k where "k \<le> d" "map_of D v = Some k" using short by blast
    then show "map_of D v = Some d" using chain t(3) by (metis le_neq_implies_less)
  qed
qed

lemma fan_out_loop_ok: "depths_ok g T D (set F) \<Longrightarrow> depths_ok g T (fan_out_loop g D F) {}"
proof (induction g D F rule: fan_out_loop.induct)
  case (2 g D cur rest)
  obtain D' F' where r: "relax cur (depth_at D cur + 1) (reverse_dependencies g cur) (D, rest) = (D', F')"
    by force
  then have "depths_ok g T D' (set F')" using depths_ok_relax 2(2) by simp
  from 2(1) [OF r [symmetric] this] show ?case using r by simp
qed simp

lemma fan_out_depths_distance:
  assumes "finite T"
  shows "map_of (fan_out_depths g T) v = Some d \<longleftrightarrow> distance g T v d"
proof -
  have m: "map_of (map (\<lambda>t. (t, 0)) (sorted_list_of_set T)) v = (if v \<in> T then Some 0 else None)" for v
    using assms by (simp add: map_of_map_restrict restrict_map_def)
  have "depths_ok g T (map (\<lambda>t. (t, 0)) (sorted_list_of_set T)) (set (sorted_list_of_set T))"
    using assms by (auto simp: depths_ok_def m split: if_splits)
  then show ?thesis unfolding fan_out_depths_def by (intro depths_ok_final fan_out_loop_ok)
qed

section \<open>Per-step rules\<close>

record BlastCeilings =
  max_affected_nodes :: "int option"
  max_dependency_depth :: "int option"
  max_customer_facing_services :: "int option"
  max_affected_pct :: "rat option"
  protected_node_ids :: "string set"

definition no_ceilings :: BlastCeilings where
  "no_ceilings = \<lparr>max_affected_nodes = None, max_dependency_depth = None,
     max_customer_facing_services = None, max_affected_pct = None, protected_node_ids = {}\<rparr>"

text \<open>\<open>x > limit\<close> for an optional limit.\<close>

definition above :: "'a::linorder \<Rightarrow> 'a option \<Rightarrow> bool" where
  "above x l \<longleftrightarrow> (case l of None \<Rightarrow> False | Some m \<Rightarrow> x > m)"

text \<open>Python's \<open>round(x, 3)\<close>: to the nearest thousandth, a tie to the even one, then to a float.\<close>

definition round3 :: "(rat \<Rightarrow> rat) \<Rightarrow> rat \<Rightarrow> rat" where
  "round3 fl x = fl (of_int (round_half_even (x * 1000)) / 1000)"

text \<open>\<open>a / b * 100.0\<close>\<close>

definition percent :: "(rat \<Rightarrow> rat) \<Rightarrow> nat \<Rightarrow> nat \<Rightarrow> rat" where
  "percent fl a b = fl (fl (of_nat a / of_nat b) * 100)"

definition ids_of_kind :: "TopologyGraph \<Rightarrow> NodeKind \<Rightarrow> string set" where
  "ids_of_kind g k = node_id ` set (of_kind g k)"

fun exposes_port :: "TopologyNode \<Rightarrow> bool" where
  "exposes_port (Service s) = (svc_exposed_ports s \<noteq> [])"
| "exposes_port _ = False"

definition customer_facing_node_ids :: "TopologyGraph \<Rightarrow> string set" where
  "customer_facing_node_ids g = node_id ` set (filter exposes_port (of_kind g K_SERVICE))"

definition forbidden_pair :: "string list \<Rightarrow> string \<Rightarrow> string set set \<Rightarrow> string set option" where
  "forbidden_pair seen f forbidden =
     (if forbidden = {} \<or> seen = [] then None
      else map_option (\<lambda>earlier. {earlier, f})
             (find (\<lambda>earlier. {earlier, f} \<in> forbidden) (sorted_list_of_set (set seen - {f}))))"

record StepImpact =
  si_step_id :: string
  si_index :: nat
  si_fault :: string
  si_targets :: "string list"
  si_affected :: "string list"
  si_services_hit :: nat
  si_services_total :: nat
  si_services_pct :: rat
  si_hosts_hit :: nat
  si_duration_s :: rat
  si_node_count :: nat
  si_damage_s :: rat

record ViolatedRule =
  vr_rule :: string
  vr_step_id :: string
  vr_index :: nat
  vr_fault :: string
  vr_observed :: "rat option"
  vr_limit :: "limit option"
  vr_observed_ids :: "string list"

text \<open>\<open>add\<close>: one breach, of the pair of numbers given.\<close>

definition breach :: "StepImpact \<Rightarrow> string \<Rightarrow> (rat \<times> rat) option \<Rightarrow> string list \<Rightarrow> ViolatedRule" where
  "breach st rule m ids =
     \<lparr>vr_rule = rule, vr_step_id = si_step_id st, vr_index = si_index st, vr_fault = si_fault st,
      vr_observed = map_option fst m, vr_limit = map_option (Fin \<circ> snd) m, vr_observed_ids = ids\<rparr>"

definition budget_rules ::
  "BlastRadiusBudget \<Rightarrow> string list \<Rightarrow> StepImpact \<Rightarrow> ViolatedRule list" where
  "budget_rules b seen st =
     (if si_services_pct st > max_services_pct b
      then [breach st ''blast_radius.max_services_pct'' (Some (si_services_pct st, max_services_pct b)) []]
      else []) @
     (if si_hosts_hit st > max_hosts b
      then [breach st ''blast_radius.max_hosts'' (Some (of_nat (si_hosts_hit st), of_nat (max_hosts b))) []]
      else []) @
     (if length seen + 1 > max_concurrent_faults b
      then [breach st ''blast_radius.max_concurrent_faults''
              (Some (of_nat (length seen + 1), of_nat (max_concurrent_faults b))) []]
      else []) @
     (if si_duration_s st > max_duration_per_fault_s b
      then [breach st ''blast_radius.max_duration_per_fault_s''
              (Some (si_duration_s st, max_duration_per_fault_s b)) []]
      else []) @
     (case forbidden_pair seen (si_fault st) (forbidden_fault_pairs b) of
        None \<Rightarrow> []
      | Some pair \<Rightarrow> [breach st ''blast_radius.forbidden_fault_pairs'' None (sorted_list_of_set pair)])"

definition ceiling_rules ::
  "(rat \<Rightarrow> rat) \<Rightarrow> TopologyGraph \<Rightarrow> BlastCeilings \<Rightarrow> StepImpact \<Rightarrow> ViolatedRule list" where
  "ceiling_rules fl g c st =
     (let depth = fo_max_depth (dependency_fan_out g (set (si_targets st)));
          pct = percent fl (si_node_count st) (length (graph_nodes g));
          facing = sorted_list_of_set (customer_facing_node_ids g \<inter> set (si_affected st));
          hit = sorted_list_of_set (protected_node_ids c \<inter> set (si_targets st))
      in (if above (int (si_node_count st)) (max_affected_nodes c)
          then [breach st ''blast_radius.max_affected_nodes''
                  (Some (of_nat (si_node_count st), of_int (the (max_affected_nodes c)))) []]
          else []) @
         (if above (int depth) (max_dependency_depth c)
          then [breach st ''blast_radius.max_dependency_depth''
                  (Some (of_nat depth, of_int (the (max_dependency_depth c)))) []]
          else []) @
         (if graph_nodes g \<noteq> [] \<and> above pct (max_affected_pct c)
          then [breach st ''blast_radius.max_affected_pct'' (Some (round3 fl pct, the (max_affected_pct c))) []]
          else []) @
         (if above (int (length facing)) (max_customer_facing_services c)
          then [breach st ''blast_radius.max_customer_facing_services''
                  (Some (of_nat (length facing), of_int (the (max_customer_facing_services c)))) facing]
          else []) @
         (if hit \<noteq> [] then [breach st ''blast_radius.protected_node'' (Some (of_nat (length hit), 0)) hit]
          else []))"

definition per_step_rules ::
  "(rat \<Rightarrow> rat) \<Rightarrow> TopologyGraph \<Rightarrow> BlastRadiusBudget \<Rightarrow> BlastCeilings \<Rightarrow> string list \<Rightarrow> StepImpact
     \<Rightarrow> ViolatedRule list" where
  "per_step_rules fl g b c seen st = budget_rules b seen st @ ceiling_rules fl g c st"

section \<open>The walk\<close>

definition step_impact :: "(rat \<Rightarrow> rat) \<Rightarrow> TopologyGraph \<Rightarrow> nat \<Rightarrow> string \<Rightarrow> PlannedFault \<Rightarrow> StepImpact" where
  "step_impact fl g idx sid f =
     (let aff = affected_node_ids g (target_ids f);
          services = ids_of_kind g K_SERVICE;
          hit = card (aff \<inter> services)
      in \<lparr>si_step_id = sid, si_index = idx, si_fault = pf_fault_id f,
          si_targets = sorted_list_of_set (target_ids f), si_affected = sorted_list_of_set aff,
          si_services_hit = hit, si_services_total = card services,
          si_services_pct = (if services = {} then 0 else percent fl hit (card services)),
          si_hosts_hit = card (aff \<inter> ids_of_kind g K_HOST),
          si_duration_s = pf_duration_s f, si_node_count = card aff, si_damage_s = 0\<rparr>)"

record Walk =
  wk_steps :: "StepImpact list"
  wk_rules :: "ViolatedRule list"
  wk_targets :: "string set"
  wk_affected :: "string set"
  wk_truncated :: "nat option"

definition quota_rule :: "(rat \<Rightarrow> rat) \<Rightarrow> StepImpact \<Rightarrow> QuotaCharge \<Rightarrow> ViolatedRule" where
  "quota_rule fl st ch =
     \<lparr>vr_rule = ch_rule ch, vr_step_id = si_step_id st, vr_index = si_index st, vr_fault = si_fault st,
      vr_observed = Some (round3 fl (ch_worst_node_s ch)), vr_limit = Some (ch_limit ch),
      vr_observed_ids = [ch_worst_node ch]\<rparr>"

fun walk_steps ::
  "(rat \<Rightarrow> rat) \<Rightarrow> fault_catalog \<Rightarrow> TopologyGraph \<Rightarrow> BlastRadiusBudget \<Rightarrow> DamageQuota \<Rightarrow> BlastCeilings
     \<Rightarrow> nat \<Rightarrow> PlannedStep list \<Rightarrow> string list \<Rightarrow> DamageLedger \<Rightarrow> Walk \<Rightarrow> Walk" where
  "walk_steps fl catalog g b q c idx [] seen led w = w"
| "walk_steps fl catalog g b q c idx (step # rest) seen led w =
     (case ps_fault step of
        None \<Rightarrow> walk_steps fl catalog g b q c (idx + 1) rest seen led w
      | Some f \<Rightarrow>
          (let impact = step_impact fl g idx (ps_id step) f;
               w' = w\<lparr>wk_targets := wk_targets w \<union> target_ids f,
                      wk_affected := wk_affected w \<union> affected_node_ids g (target_ids f)\<rparr>;
               rules = per_step_rules fl g b c seen impact
           in if rules \<noteq> []
              then w'\<lparr>wk_rules := wk_rules w @ rules, wk_steps := wk_steps w @ [impact],
                      wk_truncated := Some idx\<rparr>
              else (case charge fl catalog q (pf_fault_id f) (pf_duration_s f)
                           (set (si_affected impact)) led of
                      (ch, led') \<Rightarrow>
                        (let impact' = impact\<lparr>si_damage_s := round3 fl (ch_step_damage ch)\<rparr>
                         in if charge_exceeded ch
                            then w'\<lparr>wk_rules := wk_rules w @ [quota_rule fl impact ch],
                                    wk_steps := wk_steps w @ [impact'], wk_truncated := Some idx\<rparr>
                            else walk_steps fl catalog g b q c (idx + 1) rest (seen @ [pf_fault_id f]) led'
                                   (w'\<lparr>wk_steps := wk_steps w @ [impact']\<rparr>)))))"

definition start_walk :: Walk where
  "start_walk = \<lparr>wk_steps = [], wk_rules = [], wk_targets = {}, wk_affected = {}, wk_truncated = None\<rparr>"

record ImpactPrediction =
  ip_on_graph :: bool
  ip_steps :: "StepImpact list"
  ip_affected :: "string list"
  ip_unresolved :: "string list"
  ip_fan_out :: DependencyFanOut
  ip_violated :: "ViolatedRule list"
  ip_truncated :: "nat option"

text \<open>\<open>predict_impact\<close>; \<open>ip_on_graph\<close> is the basis \<open>GRAPH\<close>, false for \<open>EMPTY_GRAPH\<close>.\<close>

definition predict_impact ::
  "(rat \<Rightarrow> rat) \<Rightarrow> fault_catalog \<Rightarrow> TopologyGraph \<Rightarrow> ExecutionPlan \<Rightarrow> BlastRadiusBudget option
     \<Rightarrow> DamageQuota option \<Rightarrow> BlastCeilings option \<Rightarrow> ImpactPrediction" where
  "predict_impact fl catalog g plan b q c =
     (let w = walk_steps fl catalog g (case b of None \<Rightarrow> default_budget | Some b \<Rightarrow> b)
                (case q of None \<Rightarrow> default_quota | Some q \<Rightarrow> q)
                (case c of None \<Rightarrow> no_ceilings | Some c \<Rightarrow> c)
                0 (plan_steps plan) [] empty_ledger start_walk;
          resident = node_id ` set (graph_nodes g)
      in \<lparr>ip_on_graph = (graph_nodes g \<noteq> []), ip_steps = wk_steps w,
          ip_affected = sorted_list_of_set (wk_affected w \<inter> resident),
          ip_unresolved = sorted_list_of_set (wk_targets w - resident),
          ip_fan_out = dependency_fan_out g (wk_targets w \<inter> resident),
          ip_violated = sort_key (\<lambda>r. (vr_index r, vr_rule r)) (wk_rules w),
          ip_truncated = wk_truncated w\<rparr>)"

definition prediction_rule_ids :: "ImpactPrediction \<Rightarrow> string set" where
  "prediction_rule_ids p = vr_rule ` set (ip_violated p)"

definition within_policy :: "ImpactPrediction \<Rightarrow> bool" where
  "within_policy p \<longleftrightarrow> ip_violated p = []"

definition is_never_permissive :: "ImpactPrediction \<Rightarrow> string set \<Rightarrow> bool" where
  "is_never_permissive p gate_refused \<longleftrightarrow> gate_refused \<subseteq> prediction_rule_ids p"

end
