(* ===== verification/Safety_Gate.thy ===== *)
theory Safety_Gate
  imports Blast_Prediction Target_Selector
begin

text \<open>
  \<open>controller/safety.py\<close>: the plan-time safety gate. A check reads a state of three parts, the
  decisions and the warnings of the context and the ledger of the current pass, and either passes or
  refuses; \<open>validate_plan\<close> runs the checks of the code in its order. The verdicts of the gates
  this module only applies (policy bundle, approvals, Kubernetes admission, adapter capabilities,
  sandbox) come with the context. The \<open>stats\<close> of a step, which only report, are not modelled.
\<close>

section \<open>State and refusals\<close>

datatype refusal = Refused string "string option" | Raised py_error

text \<open>The results of the gates this module applies, as far as it reads them.\<close>

record K8sOutcome =
  ko_admitted :: bool
  ko_rule :: string
  ko_warnings :: "string list"

record PolicyVerdict =
  pv_required :: "string list"
  pv_refusal :: "string option"

record ApprovalVerdict =
  av_refusal :: "string option"
  av_overrides :: nat

record gate_state =
  decisions :: "SafetyDecision list"
  warnings :: "string list"
  policy_verdict :: "PolicyVerdict option"
  approval_verdict :: "ApprovalVerdict option"
  gate_ledger :: DamageLedger

type_synonym check = "gate_state \<Rightarrow> refusal option \<times> gate_state"

text \<open>\<open>SafetyContext.record\<close>; a warning is named by the rule it is about.\<close>

definition gate_record :: "string \<Rightarrow> outcome \<Rightarrow> SafetySeverity \<Rightarrow> gate_state \<Rightarrow> gate_state" where
  "gate_record rule out sev s =
     s\<lparr>decisions := decisions s @ [\<lparr>dec_rule = rule, dec_outcome = out, dec_severity = sev\<rparr>],
       warnings := (if sev = SEV_WARNING then warnings s @ [rule] else warnings s)\<rparr>"

definition pass :: check where
  "pass s = (None, s)"

definition noting :: "string \<Rightarrow> outcome \<Rightarrow> SafetySeverity \<Rightarrow> check" where
  "noting rule out sev s = (None, gate_record rule out sev s)"

definition deny_as :: "string \<Rightarrow> string \<Rightarrow> check" where
  "deny_as code rule s = (Some (Refused code (Some rule)), gate_record rule Deny SEV_ERROR s)"

definition deny :: "string \<Rightarrow> check" where
  "deny rule = deny_as ''safety.refused'' rule"

definition refuse_if :: "bool \<Rightarrow> string \<Rightarrow> check" where
  "refuse_if b rule = (if b then deny rule else pass)"

text \<open>A raise that records no decision on the context.\<close>

definition raise_silently :: "refusal \<Rightarrow> check" where
  "raise_silently r s = (Some r, s)"

fun checks :: "check list \<Rightarrow> check" where
  "checks [] s = (None, s)"
| "checks (c # cs) s = (case c s of (Some r, s') \<Rightarrow> (Some r, s') | (None, s') \<Rightarrow> checks cs s')"

section \<open>The context\<close>

record CapabilityVerdicts =
  cap_blocking :: bool
  cap_alternatives :: "string list"

record ProviderRegistration =
  reg_provider_id :: string
  reg_declared :: "string set"
  reg_sandbox_ok :: bool

record ProviderRunScope =
  scope_registrations :: "ProviderRegistration list"
  scope_owner_agent :: string

record SafetyContext =
  ctx_policy :: PolicyCfg
  ctx_budget :: BlastRadiusBudget
  ctx_fingerprint :: string
  ctx_allow_critical_cli :: bool
  ctx_policy_id :: string
  ctx_environment :: "string option"
  ctx_quota :: DamageQuota
  ctx_ceilings :: "BlastCeilings option"
  ctx_k8s_admission :: "(ExecutionPlan \<Rightarrow> K8sOutcome list) option"
  ctx_policy_gate :: "(ExecutionPlan \<Rightarrow> PolicyVerdict) option"
  ctx_approval_gate :: "(ExecutionPlan \<Rightarrow> string list \<Rightarrow> ApprovalVerdict) option"

section \<open>Admission of one fault\<close>

definition default_deny :: "string set" where
  "default_deny = {''node.reboot''}"

definition risk_of :: "fault_catalog \<Rightarrow> string \<Rightarrow> RiskLevel" where
  "risk_of catalog f = (case catalog f of None \<Rightarrow> LOW | Some d \<Rightarrow> fst d)"

definition check_fault_admission :: "string \<Rightarrow> RiskLevel \<Rightarrow> SafetyContext \<Rightarrow> check" where
  "check_fault_admission f risk ctx =
     (let p = ctx_policy ctx
      in checks
        [refuse_if (f \<in> deny_faults p) ''policy.deny_faults'',
         (case allow_faults p of
            Some allowed \<Rightarrow> refuse_if (f \<notin> allowed) ''policy.allow_faults''
          | None \<Rightarrow> refuse_if (f \<in> default_deny) ''policy.default_deny''),
         refuse_if (case risk_ceiling p of None \<Rightarrow> False | Some c \<Rightarrow> risk_at_least risk (next_higher c))
           ''policy.risk_ceiling'',
         refuse_if (risk = CRITICAL \<and> \<not> (allow_critical p \<and> ctx_allow_critical_cli ctx
                      \<and> f \<in> critical_fault_acks p))
           ''policy.critical_triple_optin'',
         noting ''policy.allow'' Allow SEV_INFO])"

section \<open>Blast radius of one step\<close>

definition gate_affected :: "TopologyGraph \<Rightarrow> string set \<Rightarrow> string set" where
  "gate_affected g targets = (\<Union>t\<in>targets. insert t (dependents_closure g t))"

definition hits :: "TopologyGraph \<Rightarrow> NodeKind \<Rightarrow> string set \<Rightarrow> nat" where
  "hits g k affected = length (filter (\<lambda>n. node_id n \<in> affected) (of_kind g k))"

definition services_pct :: "(rat \<Rightarrow> rat) \<Rightarrow> TopologyGraph \<Rightarrow> string set \<Rightarrow> rat" where
  "services_pct fl g affected =
     (if of_kind g K_SERVICE = [] then 0
      else percent fl (hits g K_SERVICE affected) (length (of_kind g K_SERVICE)))"

definition first_forbidden_pair :: "string list \<Rightarrow> string \<Rightarrow> string set set \<Rightarrow> string set option" where
  "first_forbidden_pair so_far f forbidden =
     (if forbidden = {} \<or> so_far = [] then None
      else map_option (\<lambda>earlier. {earlier, f})
             (find (\<lambda>earlier. {earlier, f} \<in> forbidden) (sorted_list_of_set {e \<in> set so_far. e \<noteq> f})))"

definition check_blast_ceilings ::
  "(rat \<Rightarrow> rat) \<Rightarrow> TopologyGraph \<Rightarrow> BlastCeilings \<Rightarrow> string set \<Rightarrow> string set \<Rightarrow> check" where
  "check_blast_ceilings fl g c affected targets = checks
     [refuse_if (above (int (card affected)) (max_affected_nodes c)) ''blast_radius.max_affected_nodes'',
      refuse_if (above (int (fo_max_depth (dependency_fan_out g targets))) (max_dependency_depth c))
        ''blast_radius.max_dependency_depth'',
      refuse_if (graph_nodes g \<noteq> []
          \<and> above (round3 fl (percent fl (card affected) (length (graph_nodes g)))) (max_affected_pct c))
        ''blast_radius.max_affected_pct'',
      refuse_if (above (int (card (customer_facing_node_ids g \<inter> affected))) (max_customer_facing_services c))
        ''blast_radius.max_customer_facing_services'',
      refuse_if (protected_node_ids c \<inter> targets \<noteq> {}) ''blast_radius.protected_node'']"

definition charge_step_check ::
  "(rat \<Rightarrow> rat) \<Rightarrow> fault_catalog \<Rightarrow> DamageQuota \<Rightarrow> string \<Rightarrow> rat \<Rightarrow> string set \<Rightarrow> check" where
  "charge_step_check fl catalog q f duration nodes s =
     (case charge fl catalog q f duration nodes (gate_ledger s) of
        (ch, led') \<Rightarrow> refuse_if (charge_exceeded ch) (ch_rule ch) (s\<lparr>gate_ledger := led'\<rparr>))"

definition registration_for :: "ProviderRunScope \<Rightarrow> string \<Rightarrow> ProviderRegistration option" where
  "registration_for sc f = find (\<lambda>r. f \<in> reg_declared r) (scope_registrations sc)"

text \<open>\<open>ProviderAction.__post_init__\<close>\<close>

definition action_malformed :: "string \<Rightarrow> string \<Rightarrow> string \<Rightarrow> string \<Rightarrow> string set \<Rightarrow> rat \<Rightarrow> bool" where
  "action_malformed provider f run owner nodes duration \<longleftrightarrow>
     list_ex (\<lambda>x. py_strip x = []) [provider, f, run, owner] \<or> nodes = {} \<or> duration \<le> 0"

definition charge_provider_step ::
  "(rat \<Rightarrow> rat) \<Rightarrow> fault_catalog \<Rightarrow> DamageQuota \<Rightarrow> ProviderRunScope \<Rightarrow> string \<Rightarrow> string \<Rightarrow> rat \<Rightarrow> string set
     \<Rightarrow> check" where
  "charge_provider_step fl catalog q sc run f duration nodes =
     (case registration_for sc f of
        None \<Rightarrow> deny ''provider.fault_undeclared''
      | Some r \<Rightarrow> checks
          [refuse_if (\<not> reg_sandbox_ok r) ''provider.fault_undeclared'',
           refuse_if (action_malformed (reg_provider_id r) f run (scope_owner_agent sc) nodes duration)
             ''provider.fault_undeclared'',
           charge_step_check fl catalog q f duration nodes])"

definition charge_any_step ::
  "(rat \<Rightarrow> rat) \<Rightarrow> fault_catalog \<Rightarrow> DamageQuota \<Rightarrow> ProviderRunScope option \<Rightarrow> string \<Rightarrow> string \<Rightarrow> rat
     \<Rightarrow> string set \<Rightarrow> check" where
  "charge_any_step fl catalog q scope run f duration nodes =
     (case scope of
        None \<Rightarrow> charge_step_check fl catalog q f duration nodes
      | Some sc \<Rightarrow>
          if is_catalog_fault catalog f then charge_step_check fl catalog q f duration nodes
          else charge_provider_step fl catalog q sc run f duration nodes)"

definition check_blast_radius ::
  "(rat \<Rightarrow> rat) \<Rightarrow> fault_catalog \<Rightarrow> TopologyGraph \<Rightarrow> SafetyContext \<Rightarrow> ProviderRunScope option \<Rightarrow> string
     \<Rightarrow> string set \<Rightarrow> rat \<Rightarrow> string list \<Rightarrow> string \<Rightarrow> check" where
  "check_blast_radius fl catalog g ctx scope run targets duration so_far f =
     (let b = ctx_budget ctx;
          affected = gate_affected g targets
      in checks
        [refuse_if (services_pct fl g affected > max_services_pct b) ''blast_radius.max_services_pct'',
         refuse_if (hits g K_HOST affected > max_hosts b) ''blast_radius.max_hosts'',
         refuse_if (length so_far + 1 > max_concurrent_faults b) ''blast_radius.max_concurrent_faults'',
         refuse_if (duration > max_duration_per_fault_s b) ''blast_radius.max_duration_per_fault_s'',
         refuse_if (first_forbidden_pair so_far f (forbidden_fault_pairs b) \<noteq> None)
           ''blast_radius.forbidden_fault_pairs'',
         (case ctx_ceilings ctx of None \<Rightarrow> pass | Some c \<Rightarrow> check_blast_ceilings fl g c affected targets),
         charge_any_step fl catalog (ctx_quota ctx) scope run f duration affected,
         noting ''blast_radius.allow'' Allow SEV_INFO])"

definition context_kinds :: "TopologyGraph \<Rightarrow> PlannedFault \<Rightarrow> NodeKind set" where
  "context_kinds g f = {node_kind n |n i. i \<in> target_ids f \<and> by_id g i = Some n}"

definition check_execution_context :: "PlannedFault \<Rightarrow> TopologyGraph \<Rightarrow> check" where
  "check_execution_context f g =
     (case pf_execution_context f of
        None \<Rightarrow> pass
      | Some c \<Rightarrow>
          if context_kinds g f = {} then pass
          else case assert_compatible c (context_kinds g f) of
                 Inl _ \<Rightarrow> raise_silently (Refused ''execution_context.refused''
                            (Some ''execution_context.compatibility''))
               | Inr _ \<Rightarrow> pass)"

section \<open>Plan-level checks\<close>

text \<open>
  \<open>_check_k8s_targets\<close> and \<open>_check_remote_targets\<close>: the first fault that cannot be run here.
  \<open>select\<close> is \<open>select_many(graph, scope)\<close>.
\<close>

definition targets_kind :: "TopologyGraph \<Rightarrow> PlannedFault \<Rightarrow> NodeKind set \<Rightarrow> bool" where
  "targets_kind g f kinds \<longleftrightarrow>
     (\<exists>ids\<in>set (pf_targets f). \<exists>i\<in>ids. case by_id g i of None \<Rightarrow> False | Some n \<Rightarrow> node_kind n \<in> kinds)"

definition check_k8s_fault :: "(TargetScope \<Rightarrow> py_error + PodNode list option) \<Rightarrow> TopologyGraph
    \<Rightarrow> PlannedFault \<Rightarrow> check" where
  "check_k8s_fault select g f =
     (let blocked = (if targets_kind g f {K_POD, K_K8S_NODE}
                     then raise_silently (Refused ''k8s.unsupported'' None) else pass)
      in case pf_target f of
        None \<Rightarrow> blocked
      | Some sc \<Rightarrow>
          if ts_runtime sc \<noteq> RT_KUBERNETES then blocked
          else if ts_kind sc = RK_K8S_NODE then pass
          else case select sc of
                 Inl e \<Rightarrow> raise_silently (Raised e)
               | Inr _ \<Rightarrow> blocked)"

definition check_k8s_targets :: "(TargetScope \<Rightarrow> py_error + PodNode list option) \<Rightarrow> ExecutionPlan
    \<Rightarrow> TopologyGraph \<Rightarrow> check" where
  "check_k8s_targets select plan g = checks (map (check_k8s_fault select g) (plan_faults plan))"

definition check_remote_fault :: "TopologyGraph \<Rightarrow> PlannedFault \<Rightarrow> check" where
  "check_remote_fault g f =
     (if targets_kind g f {K_EXTERNAL} then raise_silently (Refused ''remote.unsupported'' None) else pass)"

definition check_remote_targets :: "ExecutionPlan \<Rightarrow> TopologyGraph \<Rightarrow> check" where
  "check_remote_targets plan g = checks (map (check_remote_fault g) (plan_faults plan))"

definition environment_denied :: "SafetyContext \<Rightarrow> bool" where
  "environment_denied ctx \<longleftrightarrow>
     (case ctx_environment ctx of None \<Rightarrow> False
      | Some env \<Rightarrow>
          (case (if ctx_policy_id ctx = [] then None else map_of builtin_profiles (ctx_policy_id ctx)) of
             None \<Rightarrow> False
           | Some p \<Rightarrow>
               if (case allowed_environments p of None \<Rightarrow> True | Some a \<Rightarrow> a = {}) \<and> denied_environments p = {}
               then False else \<not> is_environment_allowed p (Some env)))"

definition check_environment_policy :: "SafetyContext \<Rightarrow> check" where
  "check_environment_policy ctx = refuse_if (environment_denied ctx) ''policy.environment_restriction''"

definition apply_k8s_outcome :: "K8sOutcome \<Rightarrow> check" where
  "apply_k8s_outcome k =
     checks (map (\<lambda>r. noting r Warn SEV_WARNING) (ko_warnings k)
       @ [if ko_admitted k then noting (ko_rule k) Allow SEV_INFO
          else deny_as ''k8s.admission_refused'' (ko_rule k)])"

definition check_k8s_admission :: "ExecutionPlan \<Rightarrow> SafetyContext \<Rightarrow> check" where
  "check_k8s_admission plan ctx =
     (case ctx_k8s_admission ctx of None \<Rightarrow> pass
      | Some admit \<Rightarrow> checks (map apply_k8s_outcome (admit plan)))"

text \<open>An \<open>ALTERNATIVE\<close> verdict is appended to the warnings and then recorded as a warning as well.\<close>

definition apply_capabilities :: "CapabilityVerdicts \<Rightarrow> check" where
  "apply_capabilities v =
     (if cap_blocking v then deny_as ''capability.unsupported'' ''capability.unsupported''
      else checks (map (\<lambda>k s. noting ''capability.alternative'' Warn SEV_WARNING
                          (s\<lparr>warnings := warnings s @ [''capability.alternative'']\<rparr>))
                     (cap_alternatives v)))"

definition apply_policy_result :: "PolicyVerdict \<Rightarrow> check" where
  "apply_policy_result v =
     checks ((\<lambda>s. (None, s\<lparr>policy_verdict := Some v\<rparr>)) # map (\<lambda>_. noting ''policy.approval_required'' Warn SEV_WARNING) (pv_required v)
       @ [case pv_refusal v of Some rule \<Rightarrow> deny rule
          | None \<Rightarrow> noting ''policy.bundle_allow'' Allow SEV_INFO])"

definition apply_approval_result :: "ApprovalVerdict \<Rightarrow> check" where
  "apply_approval_result v =
     checks ((\<lambda>s. (None, s\<lparr>approval_verdict := Some v\<rparr>)) #
       (case av_refusal v of
          Some rule \<Rightarrow> [deny rule]
        | None \<Rightarrow> replicate (av_overrides v) (noting ''approval.override'' Allow SEV_WARNING)
                    @ [noting ''approval.allow'' Allow SEV_INFO]))"

definition required_approvals :: "ExecutionPlan \<Rightarrow> SafetyContext \<Rightarrow> string list" where
  "required_approvals plan ctx =
     (case ctx_policy_gate ctx of None \<Rightarrow> [] | Some eval \<Rightarrow> pv_required (eval plan))"

section \<open>The gate\<close>

definition admit_fault ::
  "(rat \<Rightarrow> rat) \<Rightarrow> fault_catalog \<Rightarrow> TopologyGraph \<Rightarrow> SafetyContext \<Rightarrow> ProviderRunScope option \<Rightarrow> string
     \<Rightarrow> string list \<Rightarrow> PlannedFault \<Rightarrow> check" where
  "admit_fault fl catalog g ctx scope run so_far f = checks
     [check_fault_admission (pf_fault_id f) (risk_of catalog (pf_fault_id f)) ctx,
      check_blast_radius fl catalog g ctx scope run (target_ids f) (pf_duration_s f) so_far (pf_fault_id f),
      check_execution_context f g]"

fun admit_steps ::
  "(rat \<Rightarrow> rat) \<Rightarrow> fault_catalog \<Rightarrow> TopologyGraph \<Rightarrow> SafetyContext \<Rightarrow> ProviderRunScope option \<Rightarrow> string
     \<Rightarrow> PlannedStep list \<Rightarrow> string list \<Rightarrow> check" where
  "admit_steps fl catalog g ctx scope run [] so_far = pass"
| "admit_steps fl catalog g ctx scope run (step # rest) so_far =
     (case ps_fault step of
        None \<Rightarrow> admit_steps fl catalog g ctx scope run rest so_far
      | Some f \<Rightarrow> checks
          [admit_fault fl catalog g ctx scope run so_far f,
           admit_steps fl catalog g ctx scope run rest (so_far @ [pf_fault_id f])])"

definition plan_checks ::
  "(TargetScope \<Rightarrow> py_error + PodNode list option) \<Rightarrow> (ExecutionPlan \<Rightarrow> CapabilityVerdicts) option
     \<Rightarrow> ExecutionPlan \<Rightarrow> TopologyGraph \<Rightarrow> SafetyContext \<Rightarrow> check list" where
  "plan_checks select adapter plan g ctx =
     [(if plan_policy_id plan \<noteq> [] \<and> ctx_policy_id ctx \<noteq> [] \<and> plan_policy_id plan \<noteq> ctx_policy_id ctx
       then deny_as ''environment.mismatch'' ''policy.identity_mismatch'' else pass),
      (if plan_fingerprint plan \<noteq> ctx_fingerprint ctx
       then deny_as ''environment.mismatch'' ''environment.fingerprint_mismatch'' else pass),
      check_environment_policy ctx,
      check_k8s_admission plan ctx,
      check_k8s_targets select plan g,
      check_remote_targets plan g,
      (case adapter of None \<Rightarrow> pass | Some eval \<Rightarrow> apply_capabilities (eval plan)),
      (case ctx_policy_gate ctx of None \<Rightarrow> pass | Some eval \<Rightarrow> apply_policy_result (eval plan)),
      (case ctx_approval_gate ctx of None \<Rightarrow> pass
       | Some verify \<Rightarrow> apply_approval_result (verify plan (required_approvals plan ctx)))]"

text \<open>The ledger is local to the pass: a new one is started before the step loop.\<close>

definition fresh_ledger :: check where
  "fresh_ledger s = (None, s\<lparr>gate_ledger := empty_ledger\<rparr>)"

definition validate_plan ::
  "(rat \<Rightarrow> rat) \<Rightarrow> fault_catalog \<Rightarrow> (TargetScope \<Rightarrow> py_error + PodNode list option)
     \<Rightarrow> (ExecutionPlan \<Rightarrow> CapabilityVerdicts) option \<Rightarrow> ProviderRunScope option
     \<Rightarrow> ExecutionPlan \<Rightarrow> TopologyGraph \<Rightarrow> SafetyContext \<Rightarrow> check" where
  "validate_plan fl catalog select adapter scope plan g ctx =
     checks (plan_checks select adapter plan g ctx
       @ [fresh_ledger, admit_steps fl catalog g ctx scope (plan_run_id plan) (plan_steps plan) []])"

text \<open>
  The same decision without a run: on a pass the decisions of the context, the ones it held before
  included; on a refusal the refusing decision alone. \<open>validate\<close> is \<open>validate_plan\<close> on the plan.
\<close>

definition refusal_decision :: "refusal \<Rightarrow> SafetyDecision option" where
  "refusal_decision r =
     (case r of
        Refused code None \<Rightarrow> Some \<lparr>dec_rule = code, dec_outcome = Deny, dec_severity = SEV_ERROR\<rparr>
      | Refused code (Some rule) \<Rightarrow> Some \<lparr>dec_rule = rule, dec_outcome = Deny, dec_severity = SEV_ERROR\<rparr>
      | Raised _ \<Rightarrow> None)"

definition dry_run_policy_evaluation :: "check \<Rightarrow> gate_state \<Rightarrow> (py_error + SafetyDecision list) \<times> gate_state" where
  "dry_run_policy_evaluation validate s =
     (case validate s of
        (None, s') \<Rightarrow>
          (Inr (decisions s' @ [\<lparr>dec_rule = ''dry_run.allow'', dec_outcome = Allow, dec_severity = SEV_INFO\<rparr>]), s')
      | (Some (Raised e), s') \<Rightarrow> (Inl e, s')
      | (Some r, s') \<Rightarrow> (Inr (case refusal_decision r of None \<Rightarrow> [] | Some d \<Rightarrow> [d]), s'))"

text \<open>\<open>pre_exec_assertion\<close>: \<open>live\<close> resolves a selector against the live graph.\<close>

fun pre_exec_assertion ::
  "(TargetSelector \<Rightarrow> py_error + TopologyNode list) \<Rightarrow> (TargetSelector \<times> string set) list \<Rightarrow> refusal option" where
  "pre_exec_assertion live [] = None"
| "pre_exec_assertion live ((sel, expected) # rest) =
     (case live sel of
        Inl (TargetResolution _) \<Rightarrow> Some (Refused ''target.drift'' None)
      | Inl e \<Rightarrow> Some (Raised e)
      | Inr nodes \<Rightarrow>
          if expected - node_id ` set nodes \<noteq> {} then Some (Refused ''target.drift'' None)
          else pre_exec_assertion live rest)"

end
