(* ===== verification/Safety_Admission.thy ===== *)
theory Safety_Admission
  imports Safety_Gate
begin

text \<open>
  What the gate of \<open>Safety_Gate\<close> decides: an abstract specification of an admissible plan, the
  proof that the gate accepts exactly the admissible plans, and what follows for an accepted plan.
\<close>

section \<open>Running checks\<close>

lemma checks_simps [simp]:
  "fst (checks (c # cs) s) = (case fst (c s) of Some r \<Rightarrow> Some r | None \<Rightarrow> fst (checks cs (snd (c s))))"
  "snd (checks (c # cs) s) = (case fst (c s) of Some r \<Rightarrow> snd (c s) | None \<Rightarrow> snd (checks cs (snd (c s))))"
  by (cases "c s"; cases "fst (c s)"; simp)+

declare checks.simps(2) [simp del]

lemma checks_append:
  "fst (checks (cs @ ds) s) = (case fst (checks cs s) of Some r \<Rightarrow> Some r | None \<Rightarrow> fst (checks ds (snd (checks cs s))))"
  by (induction cs arbitrary: s) (auto split: option.splits)

lemma checks_None_iff:
  "fst (checks (c # cs) s) = None \<longleftrightarrow> fst (c s) = None \<and> fst (checks cs (snd (c s))) = None"
  by (cases "fst (c s)") auto

text \<open>
  A check that is plain looks at nothing of the state and leaves the ledger alone; a check that is
  ledgered looks at nothing but the ledger.
\<close>

definition plain :: "check \<Rightarrow> bool" where
  "plain c \<longleftrightarrow> (\<exists>v. \<forall>s. fst (c s) = v \<and> gate_ledger (snd (c s)) = gate_ledger s)"

definition ledgered :: "check \<Rightarrow> bool" where
  "ledgered c \<longleftrightarrow> (\<forall>s s'. gate_ledger s = gate_ledger s' \<longrightarrow>
     fst (c s) = fst (c s') \<and> gate_ledger (snd (c s)) = gate_ledger (snd (c s')))"

named_theorems plain

lemma plain_basic [plain]:
  "plain pass" "plain (noting rule out sev)" "plain (deny_as code rule)" "plain (deny rule)"
  "plain (refuse_if b rule)" "plain (raise_silently r)"
  "plain (\<lambda>s. (None, s\<lparr>policy_verdict := pv\<rparr>))" "plain (\<lambda>s. (None, s\<lparr>approval_verdict := av\<rparr>))"
  "plain (\<lambda>s. noting rule out sev (s\<lparr>warnings := warnings s @ ws\<rparr>))"
  by (auto simp: plain_def pass_def noting_def deny_def deny_as_def refuse_if_def raise_silently_def gate_record_def)

lemma plain_checks [plain]: "\<forall>c\<in>set cs. plain c \<Longrightarrow> plain (checks cs)"
proof (induction cs)
  case (Cons c cs)
  then obtain v w where c: "\<forall>s. fst (c s) = v \<and> gate_ledger (snd (c s)) = gate_ledger s"
    "\<forall>s. fst (checks cs s) = w \<and> gate_ledger (snd (checks cs s)) = gate_ledger s"
    by (auto simp: plain_def)
  then show ?case unfolding plain_def
    by (intro exI [of _ "case v of Some r \<Rightarrow> Some r | None \<Rightarrow> w"]) (auto split: option.splits)
qed (simp add: plain_def)

lemma plain_ledgered: "plain c \<Longrightarrow> ledgered c"
  unfolding plain_def ledgered_def by metis

lemma ledgered_checks: "\<forall>c\<in>set cs. ledgered c \<Longrightarrow> ledgered (checks cs)"
proof (induction cs)
  case (Cons c cs)
  then have c: "ledgered c" "ledgered (checks cs)" by auto
  show ?case unfolding ledgered_def
  proof (intro allI impI)
    fix s s' :: gate_state
    assume "gate_ledger s = gate_ledger s'"
    then have e: "fst (c s') = fst (c s)" "gate_ledger (snd (c s')) = gate_ledger (snd (c s))"
      using c(1) unfolding ledgered_def by metis+
    have t: "fst (checks cs (snd (c s))) = fst (checks cs (snd (c s')))
        \<and> gate_ledger (snd (checks cs (snd (c s)))) = gate_ledger (snd (checks cs (snd (c s'))))"
      using c(2) e(2) unfolding ledgered_def by metis
    show "fst (checks (c # cs) s) = fst (checks (c # cs) s')
        \<and> gate_ledger (snd (checks (c # cs) s)) = gate_ledger (snd (checks (c # cs) s'))"
      using t e by (cases "fst (c s)") simp_all
  qed
qed (simp add: ledgered_def)

lemma plain_pass: "plain c \<Longrightarrow> fst (c s) = None \<longleftrightarrow> (\<forall>s. fst (c s) = None)"
  unfolding plain_def by metis

lemma plain_checks_None:
  "\<forall>c\<in>set cs. plain c \<Longrightarrow> fst (checks cs s) = None \<longleftrightarrow> (\<forall>c\<in>set cs. \<forall>s. fst (c s) = None)"
proof (induction cs arbitrary: s)
  case (Cons c cs)
  have "plain c" using Cons.prems by simp
  then have "fst (c s) = None \<longleftrightarrow> (\<forall>s. fst (c s) = None)" by (rule plain_pass)
  moreover have "fst (checks cs (snd (c s))) = None \<longleftrightarrow> (\<forall>c\<in>set cs. \<forall>s. fst (c s) = None)"
    using Cons by simp
  ultimately show ?case by (simp only: checks_None_iff list.set ball_simps)
qed simp

lemma basic_None [simp]:
  "fst (pass s) = None" "fst (noting rule out sev s) = None"
  "fst (deny_as code rule s) = Some (Refused code (Some rule))"
  "fst (deny rule s) = Some (Refused ''safety.refused'' (Some rule))"
  "fst (refuse_if b rule s) = (if b then Some (Refused ''safety.refused'' (Some rule)) else None)"
  "fst (raise_silently r s) = Some r"
  by (auto simp: pass_def noting_def deny_def deny_as_def refuse_if_def raise_silently_def)

lemma refuse_if_False [simp]: "snd (refuse_if False rule s) = s"
  by (simp add: refuse_if_def pass_def)

lemma basic_ledger [simp]:
  "gate_ledger (snd (pass s)) = gate_ledger s" "gate_ledger (snd (noting rule out sev s)) = gate_ledger s"
  "gate_ledger (snd (deny_as code rule s)) = gate_ledger s" "gate_ledger (snd (deny rule s)) = gate_ledger s"
  "gate_ledger (snd (refuse_if b rule s)) = gate_ledger s" "gate_ledger (snd (raise_silently r s)) = gate_ledger s"
  by (auto simp: pass_def noting_def deny_def deny_as_def refuse_if_def raise_silently_def gate_record_def)

section \<open>What is admissible\<close>

definition fault_admissible :: "SafetyContext \<Rightarrow> string \<Rightarrow> RiskLevel \<Rightarrow> bool" where
  "fault_admissible ctx f risk \<longleftrightarrow>
     f \<notin> deny_faults (ctx_policy ctx)
     \<and> (case allow_faults (ctx_policy ctx) of Some allowed \<Rightarrow> f \<in> allowed | None \<Rightarrow> f \<noteq> ''node.reboot'')
     \<and> (\<forall>c. risk_ceiling (ctx_policy ctx) = Some c \<longrightarrow> risk \<le> c \<and> \<not> (risk = CRITICAL \<and> c = CRITICAL))
     \<and> (risk = CRITICAL \<longrightarrow> allow_critical (ctx_policy ctx) \<and> ctx_allow_critical_cli ctx
           \<and> f \<in> critical_fault_acks (ctx_policy ctx))"

definition ceilings_respected ::
  "(rat \<Rightarrow> rat) \<Rightarrow> TopologyGraph \<Rightarrow> BlastCeilings \<Rightarrow> string set \<Rightarrow> string set \<Rightarrow> bool" where
  "ceilings_respected fl g c affected targets \<longleftrightarrow>
     \<not> above (int (card affected)) (max_affected_nodes c)
     \<and> \<not> above (int (fo_max_depth (dependency_fan_out g targets))) (max_dependency_depth c)
     \<and> \<not> (graph_nodes g \<noteq> []
           \<and> above (round3 fl (percent fl (card affected) (length (graph_nodes g)))) (max_affected_pct c))
     \<and> \<not> above (int (card (customer_facing_node_ids g \<inter> affected))) (max_customer_facing_services c)
     \<and> protected_node_ids c \<inter> targets = {}"

definition step_within ::
  "(rat \<Rightarrow> rat) \<Rightarrow> TopologyGraph \<Rightarrow> SafetyContext \<Rightarrow> string list \<Rightarrow> PlannedFault \<Rightarrow> bool" where
  "step_within fl g ctx so_far f \<longleftrightarrow>
     (let b = ctx_budget ctx; affected = gate_affected g (target_ids f)
      in services_pct fl g affected \<le> max_services_pct b
       \<and> hits g K_HOST affected \<le> max_hosts b
       \<and> length so_far < max_concurrent_faults b
       \<and> pf_duration_s f \<le> max_duration_per_fault_s b
       \<and> (\<forall>e\<in>set so_far. e \<noteq> pf_fault_id f \<longrightarrow> {e, pf_fault_id f} \<notin> forbidden_fault_pairs b)
       \<and> (\<forall>c. ctx_ceilings ctx = Some c \<longrightarrow> ceilings_respected fl g c affected (target_ids f)))"

text \<open>A step of a fault outside the catalog, in a run that carries provider admissions.\<close>

definition provider_admissible ::
  "fault_catalog \<Rightarrow> TopologyGraph \<Rightarrow> ProviderRunScope option \<Rightarrow> string \<Rightarrow> PlannedFault \<Rightarrow> bool" where
  "provider_admissible catalog g scope run f \<longleftrightarrow>
     (\<forall>sc. scope = Some sc \<longrightarrow> catalog (pf_fault_id f) = None \<longrightarrow>
        (\<exists>r. registration_for sc (pf_fault_id f) = Some r \<and> reg_sandbox_ok r
           \<and> \<not> action_malformed (reg_provider_id r) (pf_fault_id f) run (scope_owner_agent sc)
                (gate_affected g (target_ids f)) (pf_duration_s f)))"

definition fault_charge :: "TopologyGraph \<Rightarrow> PlannedFault \<Rightarrow> charge_step" where
  "fault_charge g f = (pf_fault_id f, pf_duration_s f, gate_affected g (target_ids f))"

definition damage_within ::
  "(rat \<Rightarrow> rat) \<Rightarrow> fault_catalog \<Rightarrow> DamageQuota \<Rightarrow> charge_step \<Rightarrow> DamageLedger \<Rightarrow> bool" where
  "damage_within fl catalog q st led \<longleftrightarrow>
     \<not> over_limit (fl (fst (snd st) * damage_weight catalog (fst st))) (per_fault_ceiling_s q)
     \<and> \<not> over_limit (snd (worst (charge_step fl catalog st led))) (budget_s q)"

definition context_admissible :: "TopologyGraph \<Rightarrow> PlannedFault \<Rightarrow> bool" where
  "context_admissible g f \<longleftrightarrow>
     (\<forall>c. pf_execution_context f = Some c \<longrightarrow> context_kinds g f \<noteq> {} \<longrightarrow>
        compatibility c \<inter> context_kinds g f \<noteq> {})"

definition step_admissible ::
  "(rat \<Rightarrow> rat) \<Rightarrow> fault_catalog \<Rightarrow> TopologyGraph \<Rightarrow> SafetyContext \<Rightarrow> ProviderRunScope option \<Rightarrow> string
     \<Rightarrow> string list \<Rightarrow> DamageLedger \<Rightarrow> PlannedFault \<Rightarrow> bool" where
  "step_admissible fl catalog g ctx scope run so_far led f \<longleftrightarrow>
     fault_admissible ctx (pf_fault_id f) (risk_of catalog (pf_fault_id f))
     \<and> step_within fl g ctx so_far f \<and> provider_admissible catalog g scope run f
     \<and> damage_within fl catalog (ctx_quota ctx) (fault_charge g f) led \<and> context_admissible g f"

text \<open>A plan: the plan-level conditions, and every fault admissible after the ones before it.\<close>

definition k8s_admissible :: "(TargetScope \<Rightarrow> py_error + PodNode list option) \<Rightarrow> TopologyGraph
    \<Rightarrow> PlannedFault \<Rightarrow> bool" where
  "k8s_admissible select g f \<longleftrightarrow>
     (\<exists>sc. pf_target f = Some sc \<and> ts_runtime sc = RT_KUBERNETES \<and> ts_kind sc = RK_K8S_NODE)
     \<or> (\<not> targets_kind g f {K_POD, K_K8S_NODE}
         \<and> (\<forall>sc e. pf_target f = Some sc \<longrightarrow> ts_runtime sc = RT_KUBERNETES \<longrightarrow> select sc \<noteq> Inl e))"

definition plan_level_admissible ::
  "(TargetScope \<Rightarrow> py_error + PodNode list option) \<Rightarrow> (ExecutionPlan \<Rightarrow> CapabilityVerdicts) option
     \<Rightarrow> ExecutionPlan \<Rightarrow> TopologyGraph \<Rightarrow> SafetyContext \<Rightarrow> bool" where
  "plan_level_admissible select adapter plan g ctx \<longleftrightarrow>
     (plan_policy_id plan \<in> {[], ctx_policy_id ctx} \<or> ctx_policy_id ctx = [])
     \<and> plan_fingerprint plan = ctx_fingerprint ctx
     \<and> \<not> environment_denied ctx
     \<and> (\<forall>admit. ctx_k8s_admission ctx = Some admit \<longrightarrow> list_all ko_admitted (admit plan))
     \<and> (\<forall>f\<in>set (plan_faults plan). k8s_admissible select g f \<and> \<not> targets_kind g f {K_EXTERNAL})
     \<and> (\<forall>eval. adapter = Some eval \<longrightarrow> \<not> cap_blocking (eval plan))
     \<and> (\<forall>eval. ctx_policy_gate ctx = Some eval \<longrightarrow> pv_refusal (eval plan) = None)
     \<and> (\<forall>verify. ctx_approval_gate ctx = Some verify \<longrightarrow>
           av_refusal (verify plan (required_approvals plan ctx)) = None)"

definition plan_admissible ::
  "(rat \<Rightarrow> rat) \<Rightarrow> fault_catalog \<Rightarrow> (TargetScope \<Rightarrow> py_error + PodNode list option)
     \<Rightarrow> (ExecutionPlan \<Rightarrow> CapabilityVerdicts) option \<Rightarrow> ProviderRunScope option
     \<Rightarrow> ExecutionPlan \<Rightarrow> TopologyGraph \<Rightarrow> SafetyContext \<Rightarrow> bool" where
  "plan_admissible fl catalog select adapter scope plan g ctx \<longleftrightarrow>
     plan_level_admissible select adapter plan g ctx
     \<and> (\<forall>i < length (plan_faults plan).
          step_admissible fl catalog g ctx scope (plan_run_id plan)
            (map pf_fault_id (take i (plan_faults plan)))
            (fold (charge_step fl catalog) (map (fault_charge g) (take i (plan_faults plan))) empty_ledger)
            (plan_faults plan ! i))"

section \<open>One fault\<close>

lemma plain_admission [plain]: "plain (check_fault_admission f risk ctx)"
  by (auto simp: check_fault_admission_def Let_def intro!: plain split: option.splits)

lemma admission_pass: "fst (check_fault_admission f risk ctx s) = None \<longleftrightarrow> fault_admissible ctx f risk"
  by (auto simp: check_fault_admission_def Let_def fault_admissible_def at_least_next_higher risk_exceeds_iff
      default_deny_def not_less split: option.splits)

lemma plain_ceilings [plain]: "plain (check_blast_ceilings fl g c affected targets)"
  by (auto simp: check_blast_ceilings_def intro!: plain)

lemma ceilings_pass:
  "fst (check_blast_ceilings fl g c affected targets s) = None \<longleftrightarrow> ceilings_respected fl g c affected targets"
  by (auto simp: check_blast_ceilings_def ceilings_respected_def split: if_splits)

lemma plain_context [plain]: "plain (check_execution_context f g)"
  by (auto simp: check_execution_context_def intro!: plain split: option.splits sum.splits)

lemma context_pass: "fst (check_execution_context f g s) = None \<longleftrightarrow> context_admissible g f"
  by (auto simp: check_execution_context_def context_admissible_def assert_compatible_def
      split: option.splits if_splits)

lemma first_forbidden_pair_None:
  "first_forbidden_pair so_far f F = None \<longleftrightarrow> (\<forall>e\<in>set so_far. e \<noteq> f \<longrightarrow> {e, f} \<notin> F)"
  by (auto simp: first_forbidden_pair_def find_None_iff)

lemma charge_check_pass:
  "fst (charge_step_check fl catalog q f d ns s) = None
     \<longleftrightarrow> damage_within fl catalog q (f, d, ns) (gate_ledger s)"
  "fst (charge_step_check fl catalog q f d ns s) = None \<Longrightarrow>
     gate_ledger (snd (charge_step_check fl catalog q f d ns s)) = charge_step fl catalog (f, d, ns) (gate_ledger s)"
  by (auto simp: charge_step_check_def damage_within_def charge_exceeded_iff charge_step_def case_prod_beta
      split: if_splits)

lemma plain_ledger: "plain c \<Longrightarrow> gate_ledger (snd (c s)) = gate_ledger s"
  by (auto simp: plain_def)

lemma ceilings_ledger [simp]:
  "gate_ledger (snd (check_blast_ceilings fl g c affected targets s)) = gate_ledger s"
  by (rule plain_ledger [OF plain_ceilings])

lemma charge_provider_pass:
  "fst (charge_provider_step fl catalog q sc run f d ns s) = None \<longleftrightarrow>
     (\<exists>r. registration_for sc f = Some r \<and> reg_sandbox_ok r
        \<and> \<not> action_malformed (reg_provider_id r) f run (scope_owner_agent sc) ns d)
     \<and> damage_within fl catalog q (f, d, ns) (gate_ledger s)"
  by (auto simp: charge_provider_step_def checks_None_iff charge_check_pass(1) simp del: checks_simps
      split: option.splits)

lemma charge_provider_ledger:
  "fst (charge_provider_step fl catalog q sc run f d ns s) = None \<Longrightarrow>
     gate_ledger (snd (charge_provider_step fl catalog q sc run f d ns s))
       = charge_step fl catalog (f, d, ns) (gate_ledger s)"
  by (auto simp: charge_provider_step_def charge_check_pass(2) split: option.splits if_splits)

lemma charge_any_pass:
  "fst (charge_any_step fl catalog q scope run (pf_fault_id f) (pf_duration_s f) (gate_affected g (target_ids f)) s) = None
     \<longleftrightarrow> provider_admissible catalog g scope run f \<and> damage_within fl catalog q (fault_charge g f) (gate_ledger s)"
  by (auto simp: charge_any_step_def charge_check_pass(1) charge_provider_pass provider_admissible_def
      fault_charge_def is_catalog_fault_def split: option.splits)

lemma charge_any_ledger:
  "fst (charge_any_step fl catalog q scope run f d ns s) = None \<Longrightarrow>
     gate_ledger (snd (charge_any_step fl catalog q scope run f d ns s))
       = charge_step fl catalog (f, d, ns) (gate_ledger s)"
  by (auto simp: charge_any_step_def charge_check_pass(2) charge_provider_ledger split: option.splits if_splits)

lemma blast_pass:
  "fst (check_blast_radius fl catalog g ctx scope run (target_ids f) (pf_duration_s f) so_far (pf_fault_id f) s) = None
     \<longleftrightarrow> step_within fl g ctx so_far f \<and> provider_admissible catalog g scope run f
       \<and> damage_within fl catalog (ctx_quota ctx) (fault_charge g f) (gate_ledger s)"
proof -
  let ?c = "case ctx_ceilings ctx of None \<Rightarrow> pass
    | Some c \<Rightarrow> check_blast_ceilings fl g c (gate_affected g (target_ids f)) (target_ids f)"
  have c: "fst (?c t) = None \<longleftrightarrow> (\<forall>c. ctx_ceilings ctx = Some c \<longrightarrow>
        ceilings_respected fl g c (gate_affected g (target_ids f)) (target_ids f))"
    and l: "gate_ledger (snd (?c t)) = gate_ledger t" for t
    by (simp_all add: ceilings_pass split: option.splits)
  show ?thesis unfolding check_blast_radius_def Let_def
    by (simp add: checks_None_iff c l charge_any_pass step_within_def Let_def first_forbidden_pair_None
        not_less Suc_le_eq del: checks_simps) blast
qed

lemma blast_ledger:
  assumes "fst (check_blast_radius fl catalog g ctx scope run (target_ids f) (pf_duration_s f) so_far (pf_fault_id f) s) = None"
  shows "gate_ledger (snd (check_blast_radius fl catalog g ctx scope run (target_ids f) (pf_duration_s f) so_far (pf_fault_id f) s))
    = charge_step fl catalog (fault_charge g f) (gate_ledger s)"
proof -
  let ?c = "case ctx_ceilings ctx of None \<Rightarrow> pass
    | Some c \<Rightarrow> check_blast_ceilings fl g c (gate_affected g (target_ids f)) (target_ids f)"
  have l: "gate_ledger (snd (?c t)) = gate_ledger t" for t
    by (simp split: option.splits)
  show ?thesis
    using assms unfolding check_blast_radius_def Let_def
    by (auto simp: l charge_any_ledger fault_charge_def split: option.splits if_splits)
qed

lemma admit_fault_pass:
  "fst (admit_fault fl catalog g ctx scope run so_far f s) = None
     \<longleftrightarrow> step_admissible fl catalog g ctx scope run so_far (gate_ledger s) f"
  by (simp add: admit_fault_def checks_None_iff admission_pass blast_pass context_pass step_admissible_def
      plain_ledger [OF plain_admission] del: checks_simps)

lemma admit_fault_ledger:
  assumes "fst (admit_fault fl catalog g ctx scope run so_far f s) = None"
  shows "gate_ledger (snd (admit_fault fl catalog g ctx scope run so_far f s))
    = charge_step fl catalog (fault_charge g f) (gate_ledger s)"
  using assms
  by (auto simp: admit_fault_def blast_ledger plain_ledger [OF plain_admission] plain_ledger [OF plain_context]
      split: option.splits)

section \<open>The step loop and the plan\<close>

lemma steps_pass:
  "fst (admit_steps fl catalog g ctx scope run steps so_far s) = None \<longleftrightarrow>
     (let fs = List.map_filter ps_fault steps
      in \<forall>i < length fs. step_admissible fl catalog g ctx scope run (so_far @ map pf_fault_id (take i fs))
           (fold (charge_step fl catalog) (map (fault_charge g) (take i fs)) (gate_ledger s)) (fs ! i))"
proof (induction steps arbitrary: so_far s)
  case Nil
  then show ?case by (simp add: map_filter_simps)
next
  case (Cons step rest)
  show ?case
  proof (cases "ps_fault step")
    case None
    then show ?thesis using Cons.IH by (simp add: map_filter_simps)
  next
    case (Some f)
    let ?fs = "List.map_filter ps_fault rest"
    let ?led = "charge_step fl catalog (fault_charge g f) (gate_ledger s)"
    let ?P = "\<lambda>i. step_admissible fl catalog g ctx scope run (so_far @ map pf_fault_id (take i (f # ?fs)))
           (fold (charge_step fl catalog) (map (fault_charge g) (take i (f # ?fs))) (gate_ledger s)) ((f # ?fs) ! i)"
    have "(\<forall>i < length (f # ?fs). ?P i) \<longleftrightarrow> ?P 0 \<and> (\<forall>i < length ?fs. ?P (Suc i))"
      by (auto simp: less_Suc_eq_0_disj)
    moreover have "fst (admit_steps fl catalog g ctx scope run (step # rest) so_far s) = None \<longleftrightarrow>
        fst (admit_fault fl catalog g ctx scope run so_far f s) = None
        \<and> fst (admit_steps fl catalog g ctx scope run rest (so_far @ [pf_fault_id f])
               (snd (admit_fault fl catalog g ctx scope run so_far f s))) = None"
      using Some by (auto split: option.splits)
    moreover have "fst (admit_fault fl catalog g ctx scope run so_far f s) = None \<longleftrightarrow> ?P 0"
      by (simp add: admit_fault_pass)
    moreover have "fst (admit_fault fl catalog g ctx scope run so_far f s) = None \<Longrightarrow>
        fst (admit_steps fl catalog g ctx scope run rest (so_far @ [pf_fault_id f])
               (snd (admit_fault fl catalog g ctx scope run so_far f s))) = None
        \<longleftrightarrow> (\<forall>i < length ?fs. ?P (Suc i))"
      using admit_fault_ledger Cons.IH by (simp add: Let_def)
    ultimately show ?thesis using Some by (simp add: map_filter_simps Let_def) blast
  qed
qed

lemma plain_k8s_fault [plain]: "plain (check_k8s_fault select g f)"
  by (auto simp: check_k8s_fault_def Let_def intro!: plain split: option.splits sum.splits)

lemma k8s_fault_pass: "fst (check_k8s_fault select g f s) = None \<longleftrightarrow> k8s_admissible select g f"
  by (auto simp: check_k8s_fault_def Let_def k8s_admissible_def split: option.splits sum.splits if_splits)

lemma plain_k8s_outcome [plain]: "plain (apply_k8s_outcome k)"
  unfolding apply_k8s_outcome_def by (rule plain_checks) (auto simp: plain_basic)

lemma k8s_outcome_pass: "fst (apply_k8s_outcome k s) = None \<longleftrightarrow> ko_admitted k"
  unfolding apply_k8s_outcome_def
  by (subst plain_checks_None) (auto simp: plain_basic)

lemma plain_capabilities [plain]: "plain (apply_capabilities v)"
proof -
  have "plain (checks (map (\<lambda>k s. noting ''capability.alternative'' Warn SEV_WARNING
          (s\<lparr>warnings := warnings s @ [''capability.alternative'']\<rparr>)) ks))" for ks :: "string list"
    by (rule plain_checks) (auto simp: plain_basic)
  then show ?thesis by (simp add: apply_capabilities_def plain_basic)
qed

lemma capabilities_pass: "fst (apply_capabilities v s) = None \<longleftrightarrow> \<not> cap_blocking v"
proof -
  have "fst (checks (map (\<lambda>k s. noting ''capability.alternative'' Warn SEV_WARNING
          (s\<lparr>warnings := warnings s @ [''capability.alternative'']\<rparr>)) ks) s) = None" for ks :: "string list"
    by (subst plain_checks_None) (auto simp: plain_basic)
  then show ?thesis by (simp add: apply_capabilities_def)
qed

lemma plain_policy_result [plain]: "plain (apply_policy_result v)"
  unfolding apply_policy_result_def by (rule plain_checks) (auto simp: plain_basic split: option.splits)

lemma policy_result_pass: "fst (apply_policy_result v s) = None \<longleftrightarrow> pv_refusal v = None"
  unfolding apply_policy_result_def
  by (subst plain_checks_None) (auto simp: plain_basic split: option.splits)

lemma plain_approval_result [plain]: "plain (apply_approval_result v)"
  unfolding apply_approval_result_def by (rule plain_checks) (auto simp: plain_basic split: option.splits)

lemma approval_result_pass: "fst (apply_approval_result v s) = None \<longleftrightarrow> av_refusal v = None"
  unfolding apply_approval_result_def
  by (subst plain_checks_None) (auto simp: plain_basic split: option.splits)

lemma plain_k8s_admission [plain]: "plain (check_k8s_admission plan ctx)"
proof -
  have "plain (checks (map apply_k8s_outcome ks))" for ks
    by (rule plain_checks) (auto simp: plain_k8s_outcome)
  then show ?thesis by (simp add: check_k8s_admission_def plain_basic split: option.splits)
qed

lemma k8s_admission_pass:
  "fst (check_k8s_admission plan ctx s) = None \<longleftrightarrow>
     (\<forall>admit. ctx_k8s_admission ctx = Some admit \<longrightarrow> list_all ko_admitted (admit plan))"
proof -
  have "fst (checks (map apply_k8s_outcome ks) s) = None \<longleftrightarrow> list_all ko_admitted ks" for ks
    by (subst plain_checks_None) (auto simp: plain_k8s_outcome k8s_outcome_pass list_all_iff)
  then show ?thesis by (simp add: check_k8s_admission_def split: option.splits)
qed

lemma plain_remote_fault [plain]: "plain (check_remote_fault g f)"
  by (simp add: check_remote_fault_def plain_basic)

lemma remote_fault_pass: "fst (check_remote_fault g f s) = None \<longleftrightarrow> \<not> targets_kind g f {K_EXTERNAL}"
  by (simp add: check_remote_fault_def)

lemma plain_targets [plain]:
  "plain (check_k8s_targets select plan g)" "plain (check_remote_targets plan g)"
  unfolding check_k8s_targets_def check_remote_targets_def
  by (rule plain_checks, auto simp: plain_remote_fault plain_k8s_fault)+

lemma k8s_targets_pass:
  "fst (check_k8s_targets select plan g s) = None \<longleftrightarrow> (\<forall>f\<in>set (plan_faults plan). k8s_admissible select g f)"
  unfolding check_k8s_targets_def
  by (subst plain_checks_None) (auto simp: plain_k8s_fault k8s_fault_pass)

lemma remote_targets_pass:
  "fst (check_remote_targets plan g s) = None \<longleftrightarrow>
     (\<forall>f\<in>set (plan_faults plan). \<not> targets_kind g f {K_EXTERNAL})"
  unfolding check_remote_targets_def
  by (subst plain_checks_None) (auto simp: plain_remote_fault remote_fault_pass)

lemmas targets_pass = k8s_targets_pass remote_targets_pass

lemma plain_plan_checks: "c \<in> set (plan_checks select adapter plan g ctx) \<Longrightarrow> plain c"
  unfolding plan_checks_def check_environment_policy_def
  by (auto simp: plain_basic plain_k8s_admission plain_targets plain_capabilities plain_policy_result
      plain_approval_result split: option.splits if_splits)

lemma plan_checks_pass:
  "fst (checks (plan_checks select adapter plan g ctx) s) = None
     \<longleftrightarrow> plan_level_admissible select adapter plan g ctx"
proof -
  have "fst (checks (plan_checks select adapter plan g ctx) s) = None
     \<longleftrightarrow> (\<forall>c\<in>set (plan_checks select adapter plan g ctx). \<forall>s. fst (c s) = None)"
    by (rule plain_checks_None) (use plain_plan_checks in blast)
  also have "\<dots> \<longleftrightarrow> plan_level_admissible select adapter plan g ctx"
    unfolding plan_checks_def check_environment_policy_def plan_level_admissible_def
    by (simp add: k8s_admission_pass targets_pass capabilities_pass policy_result_pass approval_result_pass
        split: option.splits) blast
  finally show ?thesis .
qed

lemma plan_checks_ledger:
  "gate_ledger (snd (checks (plan_checks select adapter plan g ctx) s)) = gate_ledger s"
  by (rule plain_ledger, rule plain_checks) (use plain_plan_checks in blast)

section \<open>The log\<close>

text \<open>A check only adds to the decisions.\<close>

definition grows :: "check \<Rightarrow> bool" where
  "grows c \<longleftrightarrow> (\<forall>s. \<exists>ds. decisions (snd (c s)) = decisions s @ ds)"

lemma grows_basic:
  "grows pass" "grows (noting rule out sev)" "grows (deny_as code rule)" "grows (deny rule)"
  "grows (refuse_if b rule)" "grows (raise_silently r)" "grows fresh_ledger"
  "grows (\<lambda>s. (None, s\<lparr>policy_verdict := pv\<rparr>))" "grows (\<lambda>s. (None, s\<lparr>approval_verdict := av\<rparr>))"
  "grows (\<lambda>s. noting rule out sev (s\<lparr>warnings := warnings s @ ws\<rparr>))"
  by (auto simp: grows_def pass_def noting_def deny_def deny_as_def refuse_if_def raise_silently_def
      gate_record_def fresh_ledger_def)

lemma grows_checks: "\<forall>c\<in>set cs. grows c \<Longrightarrow> grows (checks cs)"
proof (induction cs)
  case (Cons c cs)
  then have g: "grows c" "grows (checks cs)" by auto
  show ?case unfolding grows_def
  proof
    fix s
    obtain ds es where d: "decisions (snd (c s)) = decisions s @ ds"
      "decisions (snd (checks cs (snd (c s)))) = decisions (snd (c s)) @ es"
      using g unfolding grows_def by blast
    then show "\<exists>ds. decisions (snd (checks (c # cs) s)) = decisions s @ ds"
      by (cases "fst (c s)") auto
  qed
qed (simp add: grows_def)

lemma grows_charge: "grows (charge_step_check fl catalog q f d ns)"
proof -
  have "\<exists>ds. decisions (snd (refuse_if b r (s\<lparr>gate_ledger := l\<rparr>))) = decisions s @ ds" for b r s l
    using grows_basic(5) [of b r] by (auto simp: grows_def dest: spec [of _ "s\<lparr>gate_ledger := l\<rparr>"])
  then show ?thesis by (simp add: grows_def charge_step_check_def case_prod_beta)
qed

lemma grows_charge_any: "grows (charge_any_step fl catalog q scope run f d ns)"
  by (auto simp: charge_any_step_def charge_provider_step_def grows_basic grows_charge intro!: grows_checks
      split: option.splits)

lemma grows_admit_fault: "grows (admit_fault fl catalog g ctx scope run so_far f)"
proof -
  have "grows (check_fault_admission i r ctx)" for i r
    unfolding check_fault_admission_def Let_def
    by (rule grows_checks) (auto simp: grows_basic split: option.splits)
  moreover have "grows (check_blast_ceilings fl g c aff T)" for c aff T
    unfolding check_blast_ceilings_def by (rule grows_checks) (auto simp: grows_basic)
  moreover from this have "grows (check_blast_radius fl catalog g ctx scope run T d sf i)" for T d sf i
    unfolding check_blast_radius_def Let_def
    by (intro grows_checks) (auto simp: grows_basic grows_charge_any split: option.splits)
  moreover have "grows (check_execution_context f g)"
    by (auto simp: check_execution_context_def grows_basic split: option.splits sum.splits)
  ultimately show ?thesis unfolding admit_fault_def by (intro grows_checks) auto
qed

lemma grows_steps: "grows (admit_steps fl catalog g ctx scope run steps so_far)"
proof (induction steps arbitrary: so_far)
  case (Cons st rest)
  then show ?case by (auto simp: grows_admit_fault intro!: grows_checks split: option.splits)
qed (simp add: grows_basic)

lemma grows_plan_checks: "c \<in> set (plan_checks select adapter plan g ctx) \<Longrightarrow> grows c"
proof -
  have k: "grows (apply_k8s_outcome k)" for k
    unfolding apply_k8s_outcome_def by (rule grows_checks) (auto simp: grows_basic)
  have a: "grows (check_k8s_admission plan ctx)"
    unfolding check_k8s_admission_def by (auto simp: grows_basic k intro!: grows_checks split: option.splits)
  have t: "grows (check_k8s_targets select plan g)" "grows (check_remote_targets plan g)"
    unfolding check_k8s_targets_def check_remote_targets_def
    by (rule grows_checks, auto simp: check_k8s_fault_def check_remote_fault_def Let_def grows_basic
        split: option.splits sum.splits)+
  have v: "grows (apply_capabilities cv)" "grows (apply_policy_result pv)" "grows (apply_approval_result av)" for cv pv av
    unfolding apply_capabilities_def apply_policy_result_def apply_approval_result_def
    by (auto simp: grows_basic intro!: grows_checks split: option.splits)
  show "c \<in> set (plan_checks select adapter plan g ctx) \<Longrightarrow> grows c"
    unfolding plan_checks_def check_environment_policy_def
    by (auto simp: grows_basic a t v split: option.splits if_splits)
qed

lemma validate_grows: "grows (validate_plan fl catalog select adapter scope plan g ctx)"
  unfolding validate_plan_def
  by (rule grows_checks) (auto simp: grows_basic grows_steps dest: grows_plan_checks)

lemma admit_fault_ledgered: "ledgered (admit_fault fl catalog g ctx scope run so_far f)"
proof -
  have c: "ledgered (charge_step_check fl catalog q i d ns)" for q i d ns
    by (simp add: ledgered_def charge_step_check_def case_prod_beta)
  have a: "ledgered (charge_any_step fl catalog q scope run i d ns)" for q i d ns
    by (auto simp: charge_any_step_def charge_provider_step_def c plain_ledgered plain_basic
        intro!: ledgered_checks split: option.splits)
  have "ledgered (check_blast_radius fl catalog g ctx scope run T d sf i)" for T d sf i
    unfolding check_blast_radius_def Let_def
    by (rule ledgered_checks) (auto simp: a plain_ledgered plain_basic plain_ceilings split: option.splits)
  then show ?thesis unfolding admit_fault_def
    by (intro ledgered_checks) (auto simp: plain_ledgered plain_admission plain_context)
qed

lemma steps_ledgered: "ledgered (admit_steps fl catalog g ctx scope run steps so_far)"
proof (induction steps arbitrary: so_far)
  case (Cons st rest)
  then show ?case by (auto simp: admit_fault_ledgered intro!: ledgered_checks split: option.splits)
qed (simp add: plain_ledgered plain_basic)

lemma validate_split:
  "fst (validate_plan fl catalog select adapter scope plan g ctx s) =
     (case fst (checks (plan_checks select adapter plan g ctx) s) of
        Some r \<Rightarrow> Some r
      | None \<Rightarrow> fst (admit_steps fl catalog g ctx scope (plan_run_id plan) (plan_steps plan) []
                  ((snd (checks (plan_checks select adapter plan g ctx) s))\<lparr>gate_ledger := empty_ledger\<rparr>)))"
  by (auto simp: validate_plan_def checks_append fresh_ledger_def split: option.splits)

lemma validate_plan_admits:
  "fst (validate_plan fl catalog select adapter scope plan g ctx s) = None
     \<longleftrightarrow> plan_admissible fl catalog select adapter scope plan g ctx"
proof -
  have "fst (validate_plan fl catalog select adapter scope plan g ctx s) = None \<longleftrightarrow>
      fst (checks (plan_checks select adapter plan g ctx) s) = None
      \<and> fst (admit_steps fl catalog g ctx scope (plan_run_id plan) (plan_steps plan) []
             ((snd (checks (plan_checks select adapter plan g ctx) s))\<lparr>gate_ledger := empty_ledger\<rparr>)) = None"
    by (simp add: validate_split split: option.splits)
  then show ?thesis
    by (simp add: plan_checks_pass steps_pass plan_admissible_def plan_faults_def Let_def)
qed

text \<open>A run of refusing guards that ends in an allowance records one decision, the verdict.\<close>

lemma guards_log:
  assumes "\<forall>c\<in>set cs. \<exists>b rule. c = refuse_if b rule"
  shows "\<exists>d. decisions (snd (checks (cs @ [noting rule Allow SEV_INFO]) s)) = decisions s @ [d]
     \<and> (dec_outcome d = Allow \<longleftrightarrow> fst (checks (cs @ [noting rule Allow SEV_INFO]) s) = None)
     \<and> (dec_outcome d = Deny \<longleftrightarrow> fst (checks (cs @ [noting rule Allow SEV_INFO]) s)
                                 = Some (Refused ''safety.refused'' (Some (dec_rule d))))"
  using assms
proof (induction cs)
  case (Cons c cs)
  then obtain b r where c: "c = refuse_if b r" by auto
  show ?case
  proof (cases b)
    case True
    then show ?thesis by (simp add: c refuse_if_def deny_def deny_as_def gate_record_def)
  next
    case False
    then show ?thesis using Cons by (simp add: c)
  qed
qed (simp add: noting_def gate_record_def)

section \<open>Properties\<close>

text \<open>
  C3. The gate implements its specification. Whatever the rounding, the catalog, the verdicts of the
  gates it applies and the history of the context, \<open>validate_plan\<close> passes exactly the admissible
  plans: identity, fingerprint, environment, Kubernetes, remote, capability, policy and approval
  conditions hold, and every fault is admissible after the ones before it: admitted by the policy,
  within every cap and ceiling, pairwise with the earlier faults, its provider loaded, its damage on
  top of theirs within the quota, and its execution context compatible.
\<close>

theorem validate_plan_refines:
  "fst (validate_plan fl catalog select adapter scope plan g ctx s) = None
     \<longleftrightarrow> plan_admissible fl catalog select adapter scope plan g ctx"
  by (rule validate_plan_admits)

text \<open>
  Validating is repeatable and only adds to the record. Two runs of the gate on the same plan,
  graph and context reach the same verdict whatever the first one (or anything else) left in the
  decisions, the warnings and the ledger: a pass charges its own ledger. Each run keeps every
  decision recorded before.
\<close>

theorem validate_plan_repeatable:
  "fst (validate_plan fl catalog select adapter scope plan g ctx s')
     = fst (validate_plan fl catalog select adapter scope plan g ctx s)
   \<and> (\<exists>ds. decisions (snd (validate_plan fl catalog select adapter scope plan g ctx s)) = decisions s @ ds)"
proof
  have "plain (checks (plan_checks select adapter plan g ctx))"
    by (rule plain_checks) (use plain_plan_checks in blast)
  then have "fst (checks (plan_checks select adapter plan g ctx) s')
      = fst (checks (plan_checks select adapter plan g ctx) s)"
    unfolding plain_def by metis
  moreover have "fst (admit_steps fl catalog g ctx scope run steps [] (t\<lparr>gate_ledger := empty_ledger\<rparr>))
      = fst (admit_steps fl catalog g ctx scope run steps [] (u\<lparr>gate_ledger := empty_ledger\<rparr>))" for run steps t u
  proof -
    have "gate_ledger (t\<lparr>gate_ledger := empty_ledger\<rparr>) = gate_ledger (u\<lparr>gate_ledger := empty_ledger\<rparr>)" by simp
    then show ?thesis using steps_ledgered unfolding ledgered_def by blast
  qed
  ultimately show "fst (validate_plan fl catalog select adapter scope plan g ctx s')
     = fst (validate_plan fl catalog select adapter scope plan g ctx s)"
    unfolding validate_split by metis
  show "\<exists>ds. decisions (snd (validate_plan fl catalog select adapter scope plan g ctx s)) = decisions s @ ds"
    using validate_grows unfolding grows_def by blast
qed

lemma gate_affected_finite: "finite T \<Longrightarrow> finite (gate_affected g T)"
proof -
  have "finite (dependents_closure g t)" for t unfolding dependents_closure_def by (rule finite_set)
  then show "finite T \<Longrightarrow> finite (gate_affected g T)" by (simp add: gate_affected_def)
qed

definition plan_charges :: "TopologyGraph \<Rightarrow> ExecutionPlan \<Rightarrow> charge_step list" where
  "plan_charges g plan = map (fault_charge g) (plan_faults plan)"

text \<open>
  C27. What an accepted plan cannot contain. When the gate passes a plan, its fault steps number at
  most \<open>max_concurrent_faults\<close>, one after the other as they are; no two of them, in either order and
  at any distance, form a forbidden pair; every step stays under the service, host and duration
  caps; a fault of critical risk has all three opt-ins; no external dependency is targeted, and a pod
  or cluster node only by a cluster-node target; and, in exact arithmetic, no node collects more
  damage over the whole plan than the budget.
\<close>

theorem accepted_plan_bounds:
  assumes "fst (validate_plan exact catalog select adapter scope plan g ctx s) = None"
    and "plan_finite plan" "plan_faults plan = fs"
  shows "(fs \<noteq> [] \<longrightarrow> length fs \<le> max_concurrent_faults (ctx_budget ctx))
    \<and> (\<forall>i j. i < j \<longrightarrow> j < length fs \<longrightarrow> pf_fault_id (fs ! i) \<noteq> pf_fault_id (fs ! j) \<longrightarrow>
          {pf_fault_id (fs ! i), pf_fault_id (fs ! j)} \<notin> forbidden_fault_pairs (ctx_budget ctx))
    \<and> (\<forall>f\<in>set fs.
          services_pct exact g (gate_affected g (target_ids f)) \<le> max_services_pct (ctx_budget ctx)
        \<and> hits g K_HOST (gate_affected g (target_ids f)) \<le> max_hosts (ctx_budget ctx)
        \<and> pf_duration_s f \<le> max_duration_per_fault_s (ctx_budget ctx)
        \<and> (risk_of catalog (pf_fault_id f) = CRITICAL \<longrightarrow>
             allow_critical (ctx_policy ctx) \<and> ctx_allow_critical_cli ctx
             \<and> pf_fault_id f \<in> critical_fault_acks (ctx_policy ctx))
        \<and> \<not> targets_kind g f {K_EXTERNAL}
        \<and> (targets_kind g f {K_POD, K_K8S_NODE} \<longrightarrow>
             (\<exists>sc. pf_target f = Some sc \<and> ts_kind sc = RK_K8S_NODE)))
    \<and> (\<forall>n\<in>\<Union> ((snd \<circ> snd) ` set (plan_charges g plan)).
          \<not> over_limit (sum_list (map (step_share catalog n) (plan_charges g plan))) (budget_s (ctx_quota ctx)))"
proof -
  let ?chs = "plan_charges g plan"
  let ?led = "\<lambda>i. fold (charge_step exact catalog) (take i ?chs) empty_ledger"
  have adm: "plan_admissible exact catalog select adapter scope plan g ctx"
    using assms(1) by (simp add: validate_plan_admits)
  have step: "step_admissible exact catalog g ctx scope (plan_run_id plan) (map pf_fault_id (take i fs)) (?led i) (fs ! i)"
    if "i < length fs" for i
    using adm that assms(3) by (simp add: plan_admissible_def plan_charges_def take_map)
  have mem: "\<exists>i < length fs. fs ! i = f" if "f \<in> set fs" for f using that by (simp add: in_set_conv_nth)
  have within: "step_within exact g ctx (map pf_fault_id (take i fs)) (fs ! i)" if "i < length fs" for i
    using step [OF that] by (simp add: step_admissible_def)
  have count: "fs \<noteq> [] \<longrightarrow> length fs \<le> max_concurrent_faults (ctx_budget ctx)"
    using within [of "length fs - 1"] by (auto simp: step_within_def Let_def)
  have pairs: "{pf_fault_id (fs ! i), pf_fault_id (fs ! j)} \<notin> forbidden_fault_pairs (ctx_budget ctx)"
    if "i < j" "j < length fs" "pf_fault_id (fs ! i) \<noteq> pf_fault_id (fs ! j)" for i j
  proof -
    have "fs ! i \<in> set (take j fs)" using that by (auto simp: in_set_conv_nth intro!: exI [of _ i])
    then have "pf_fault_id (fs ! i) \<in> set (map pf_fault_id (take j fs))" by simp
    then show ?thesis using within [OF that(2)] that(3) unfolding step_within_def Let_def by blast
  qed
  have plan_level: "\<forall>f\<in>set fs. k8s_admissible select g f \<and> \<not> targets_kind g f {K_EXTERNAL}"
    using adm assms(3) by (simp add: plan_admissible_def plan_level_admissible_def)
  have each: "services_pct exact g (gate_affected g (target_ids f)) \<le> max_services_pct (ctx_budget ctx)
        \<and> hits g K_HOST (gate_affected g (target_ids f)) \<le> max_hosts (ctx_budget ctx)
        \<and> pf_duration_s f \<le> max_duration_per_fault_s (ctx_budget ctx)
        \<and> (risk_of catalog (pf_fault_id f) = CRITICAL \<longrightarrow>
             allow_critical (ctx_policy ctx) \<and> ctx_allow_critical_cli ctx
             \<and> pf_fault_id f \<in> critical_fault_acks (ctx_policy ctx))
        \<and> \<not> targets_kind g f {K_EXTERNAL}
        \<and> (targets_kind g f {K_POD, K_K8S_NODE} \<longrightarrow>
             (\<exists>sc. pf_target f = Some sc \<and> ts_kind sc = RK_K8S_NODE))"
    if f: "f \<in> set fs" for f
  proof -
    obtain i where i: "i < length fs" "fs ! i = f" using mem [OF f] by blast
    have a: "step_within exact g ctx (map pf_fault_id (take i fs)) f"
      "fault_admissible ctx (pf_fault_id f) (risk_of catalog (pf_fault_id f))"
      using step [OF i(1)] i(2) by (simp_all add: step_admissible_def)
    have p: "k8s_admissible select g f" "\<not> targets_kind g f {K_EXTERNAL}" using plan_level f by blast+
    show ?thesis
      using a(1) unfolding step_within_def Let_def
      using a(2) unfolding fault_admissible_def
      using p unfolding k8s_admissible_def by auto
  qed
  have quota: "\<not> over_limit (sum_list (map (step_share catalog n) ?chs)) (budget_s (ctx_quota ctx))"
    if n: "n \<in> \<Union> ((snd \<circ> snd) ` set ?chs)" for n
  proof -
    have fin: "\<forall>st\<in>set ?chs. finite (snd (snd st))"
      using assms(2,3) by (auto simp: plan_charges_def fault_charge_def plan_finite_def gate_affected_finite)
    have ne: "?chs \<noteq> []" using n by auto
    have acc: "\<forall>i<length ?chs. \<not> charge_exceeded (fst (charge exact catalog (ctx_quota ctx) (fst (?chs ! i))
        (fst (snd (?chs ! i))) (snd (snd (?chs ! i))) (?led i)))"
      using step assms(3)
      by (auto simp: plan_charges_def charge_exceeded_iff step_admissible_def damage_within_def fault_charge_def
          charge_step_def)
    have dom: "fst ` set (led_by_node (fold (charge_step exact catalog) xs led))
        = fst ` set (led_by_node led) \<union> \<Union> ((snd \<circ> snd) ` set xs)" if "\<forall>st\<in>set xs. finite (snd (snd st))" for xs led
      using that
    proof (induction xs arbitrary: led)
      case (Cons x xs)
      then show ?case by (auto simp: charge_step_def charged_ledger_def Let_def charge_nodes_dom)
    qed simp
    have "n \<in> fst ` set (led_by_node (fold (charge_step exact catalog) ?chs empty_ledger))"
      using n dom [OF fin] by simp
    moreover have "ledger_wf (fold (charge_step exact catalog) xs empty_ledger)" for xs
      using fold_charge_wf by blast
    moreover have "\<not> over_limit (snd (worst (fold (charge_step exact catalog) ?chs empty_ledger))) (budget_s (ctx_quota ctx))"
      by (rule fold_charge_within [OF acc ne])
    ultimately have "\<not> over_limit (damage_for (fold (charge_step exact catalog) ?chs empty_ledger) n) (budget_s (ctx_quota ctx))"
      using worst_bounds over_limit_mono by blast
    moreover have "damage_for (fold (charge_step exact catalog) ?chs empty_ledger) n = sum_list (map (step_share catalog n) ?chs)"
      using exact_plan [OF fin, of catalog empty_ledger n]
      by (simp add: empty_ledger_def damage_for_def get_or_zero_def)
    ultimately show ?thesis by simp
  qed
  show ?thesis using count pairs each quota by blast
qed

definition demo_fault :: "string \<Rightarrow> string set \<Rightarrow> PlannedFault" where
  "demo_fault f ids = \<lparr>pf_fault_id = f, pf_targets = [ids], pf_target = None, pf_duration_s = 10,
     pf_execution_context = None, pf_loci_target = None\<rparr>"

definition demo_plan :: "PlannedFault list \<Rightarrow> ExecutionPlan" where
  "demo_plan fs = \<lparr>plan_run_id = ''run'', plan_steps = map (\<lambda>f. \<lparr>ps_id = ''s'', ps_fault = Some f\<rparr>) fs,
     plan_fingerprint = ''fp'', plan_policy_id = []\<rparr>"

definition demo_policy :: PolicyCfg where
  "demo_policy = \<lparr>allow_faults = None, deny_faults = {}, risk_ceiling = None, allow_critical = False,
     critical_fault_acks = {}\<rparr>"

definition demo_context :: SafetyContext where
  "demo_context = \<lparr>ctx_policy = demo_policy, ctx_budget = default_budget\<lparr>max_services_pct := 100\<rparr>,
     ctx_fingerprint = ''fp'', ctx_allow_critical_cli = False, ctx_policy_id = [], ctx_environment = None,
     ctx_quota = default_quota, ctx_ceilings = None, ctx_k8s_admission = None, ctx_policy_gate = None,
     ctx_approval_gate = None\<rparr>"

definition demo_state :: gate_state where
  "demo_state = \<lparr>decisions = [], warnings = [], policy_verdict = None, approval_verdict = None,
     gate_ledger = empty_ledger\<rparr>"

lemma demo_plan_faults: "plan_faults (demo_plan fs) = fs"
  by (induction fs) (simp_all add: plan_faults_def demo_plan_def map_filter_simps)

lemma demo_plan_passes:
  "fst (validate_plan exact demo_catalog (\<lambda>_. Inr None) None None (demo_plan [demo_fault ''net.delay'' {''a''}])
          demo_graph demo_context demo_state) = None"
proof -
  let ?f = "demo_fault ''net.delay'' {''a''}"
  have a: "gate_affected demo_graph {''a''} = {''a'', ''b'', ''c''}"
    by (simp add: gate_affected_def demo_graph_closure)
  have k: "of_kind demo_graph K_SERVICE = map demo_service [''a'', ''b'', ''c'']" "of_kind demo_graph K_HOST = []"
    by (simp_all add: of_kind_def demo_graph_def demo_service_def)
  have t: "target_ids ?f = {''a''}" by (simp add: target_ids_def demo_fault_def)
  have w: "damage_weight demo_catalog ''net.delay'' = 8"
    by (simp add: damage_weight_def demo_catalog_def unresolved_fault_weight_def)
  have "sorted_list_of_set (set [''a'', ''b'', ''c'']) = [''a'', ''b'', ''c'']"
    by (rule sorted_list_of_set.idem_if_sorted_distinct) simp_all
  then have s: "sorted_list_of_set {''a'', ''b'', ''c''} = [''a'', ''b'', ''c'']" by simp
  have d: "damage_within exact demo_catalog default_quota (fault_charge demo_graph ?f) empty_ledger"
    unfolding damage_within_def fault_charge_def t a
    by (simp add: charge_step_def charged_ledger_def s w demo_fault_def exact_simp default_quota_def
        empty_ledger_def get_or_zero_def worst_def del: set_filter)
  have b: "by_id demo_graph ''a'' = Some (demo_service ''a'')"
    by (simp add: by_id_def demo_graph_def demo_service_def)
  have "step_within exact demo_graph demo_context [] ?f"
    unfolding step_within_def Let_def t a
    by (simp add: services_pct_def hits_def k demo_service_def percent_def exact_simp demo_context_def
        default_budget_def demo_fault_def)
  moreover have "fault_admissible demo_context ''net.delay'' LOW"
    by (simp add: fault_admissible_def demo_context_def demo_policy_def)
  moreover have "risk_of demo_catalog ''net.delay'' = LOW" by (simp add: risk_of_def demo_catalog_def)
  ultimately have "step_admissible exact demo_catalog demo_graph demo_context None ''run'' [] empty_ledger ?f"
    using d by (simp add: step_admissible_def provider_admissible_def context_admissible_def demo_fault_def
        demo_context_def)
  moreover have "plan_level_admissible (\<lambda>_. Inr None) None (demo_plan [?f]) demo_graph demo_context"
    by (simp add: plan_level_admissible_def demo_plan_faults k8s_admissible_def targets_kind_def demo_fault_def b)
      (simp add: demo_plan_def demo_context_def environment_denied_def demo_service_def)
  ultimately show ?thesis
    by (simp add: validate_plan_admits plan_admissible_def demo_plan_faults) (simp add: demo_plan_def)
qed

theorem accepted_plan_bounds_witness:
  "\<not> over_limit (sum_list (map (step_share demo_catalog ''b'')
        (plan_charges demo_graph (demo_plan [demo_fault ''net.delay'' {''a''}])))) (budget_s (ctx_quota demo_context))"
proof -
  have fin: "plan_finite (demo_plan [demo_fault ''net.delay'' {''a''}])"
    by (simp add: plan_finite_def demo_plan_faults target_ids_def demo_fault_def)
  have "''b'' \<in> \<Union> ((snd \<circ> snd) ` set (plan_charges demo_graph (demo_plan [demo_fault ''net.delay'' {''a''}])))"
    by (simp add: plan_charges_def demo_plan_faults fault_charge_def target_ids_def demo_fault_def
        gate_affected_def demo_graph_closure)
  then show ?thesis using accepted_plan_bounds [OF demo_plan_passes fin refl] by blast
qed

text \<open>
  The admission of a fault. Each call records exactly one decision, a denial when it refuses and
  an allowance when it passes, and passes exactly for an admissible fault; a ceiling of
  \<open>CRITICAL\<close>, which no risk exceeds, still refuses every critical fault, opted in or not.
\<close>

theorem admission_decides:
  "\<exists>d. decisions (snd (check_fault_admission f risk ctx s)) = decisions s @ [d]
     \<and> (dec_outcome d = Allow \<longleftrightarrow> fst (check_fault_admission f risk ctx s) = None)
     \<and> (dec_outcome d = Deny \<longleftrightarrow>
          fst (check_fault_admission f risk ctx s) = Some (Refused ''safety.refused'' (Some (dec_rule d))))
     \<and> (fst (check_fault_admission f risk ctx s) = None \<longleftrightarrow> fault_admissible ctx f risk)
     \<and> \<not> (risk_ceiling (ctx_policy ctx) = Some CRITICAL \<and> fst (check_fault_admission f CRITICAL ctx s) = None)"
proof -
  let ?gs = "[refuse_if (f \<in> deny_faults (ctx_policy ctx)) ''policy.deny_faults'',
         (case allow_faults (ctx_policy ctx) of
            Some allowed \<Rightarrow> refuse_if (f \<notin> allowed) ''policy.allow_faults''
          | None \<Rightarrow> refuse_if (f \<in> default_deny) ''policy.default_deny''),
         refuse_if (case risk_ceiling (ctx_policy ctx) of None \<Rightarrow> False | Some c \<Rightarrow> risk_at_least risk (next_higher c))
           ''policy.risk_ceiling'',
         refuse_if (risk = CRITICAL \<and> \<not> (allow_critical (ctx_policy ctx) \<and> ctx_allow_critical_cli ctx
                      \<and> f \<in> critical_fault_acks (ctx_policy ctx)))
           ''policy.critical_triple_optin'']"
  have "\<forall>c\<in>set ?gs. \<exists>b rule. c = refuse_if b rule" by (auto split: option.splits)
  from guards_log [OF this, of "''policy.allow''" s]
  have log: "\<exists>d. decisions (snd (check_fault_admission f risk ctx s)) = decisions s @ [d]
     \<and> (dec_outcome d = Allow \<longleftrightarrow> fst (check_fault_admission f risk ctx s) = None)
     \<and> (dec_outcome d = Deny \<longleftrightarrow>
          fst (check_fault_admission f risk ctx s) = Some (Refused ''safety.refused'' (Some (dec_rule d))))"
    by (simp only: check_fault_admission_def Let_def append.simps)
  have "\<not> (risk_ceiling (ctx_policy ctx) = Some CRITICAL \<and> fst (check_fault_admission f CRITICAL ctx s) = None)"
    unfolding admission_pass fault_admissible_def by blast
  with log show ?thesis using admission_pass [of f risk ctx s] by (elim exE conjE) (intro exI conjI)
qed

end
