(* ===== verification/Preview_Agreement.thy ===== *)
theory Preview_Agreement
  imports Safety_Admission
begin

text \<open>
  The preview of \<open>Blast_Prediction\<close> against the gate of \<open>Safety_Gate\<close>: both measure the same blast,
  and on the same plan the preview flags exactly the rule the gate refuses on, with one exception,
  the percentage ceiling, where the two compare different numbers.
\<close>

section \<open>The same measurements\<close>

lemma gate_affected_reaches: "gate_affected g T = reaches g T"
  by (auto simp: gate_affected_def reaches_def dependents_closure_eq transitive_dependents_def)

lemma affected_agree: "finite T \<Longrightarrow> affected_node_ids g T = gate_affected g T"
  by (simp add: affected_node_ids_eq gate_affected_reaches)

lemma kind_inj: "check_integrity g = Inr g \<Longrightarrow> inj_on node_id (set (of_kind g k)) \<and> distinct (of_kind g k)"
  by (auto simp: check_integrity_def Let_def of_kind_def distinct_map split: if_splits intro: inj_on_subset)

lemma hits_card:
  assumes "check_integrity g = Inr g"
  shows "hits g k aff = card (aff \<inter> ids_of_kind g k)"
proof -
  have d: "inj_on node_id (set (of_kind g k))" "distinct (of_kind g k)" using kind_inj [OF assms] by auto
  have "hits g k aff = card (set (filter (\<lambda>n. node_id n \<in> aff) (of_kind g k)))"
    using d(2) by (simp add: hits_def distinct_card [symmetric])
  also have "\<dots> = card (node_id ` set (filter (\<lambda>n. node_id n \<in> aff) (of_kind g k)))"
    using d(1) by (intro card_image [symmetric]) (auto intro: inj_on_subset)
  also have "node_id ` set (filter (\<lambda>n. node_id n \<in> aff) (of_kind g k)) = aff \<inter> ids_of_kind g k"
    by (auto simp: ids_of_kind_def)
  finally show ?thesis .
qed

lemma total_card: "check_integrity g = Inr g \<Longrightarrow> length (of_kind g k) = card (ids_of_kind g k)"
  using kind_inj [of g k] by (simp add: ids_of_kind_def card_image distinct_card)

lemma ids_of_kind_empty: "ids_of_kind g k = {} \<longleftrightarrow> of_kind g k = []"
  by (simp add: ids_of_kind_def)

section \<open>The same rules\<close>

text \<open>The refusal a list of flagged rules stands for: the first one.\<close>

definition first_rule :: "ViolatedRule list \<Rightarrow> refusal option" where
  "first_rule rs = (case rs of [] \<Rightarrow> None | r # _ \<Rightarrow> Some (Refused ''safety.refused'' (Some (vr_rule r))))"

lemma sort_key_Nil [simp]: "sort_key f xs = [] \<longleftrightarrow> xs = []"
  by (metis length_0_conv length_sort)

lemma first_rule_append: "first_rule (xs @ ys) = (case first_rule xs of None \<Rightarrow> first_rule ys | Some r \<Rightarrow> Some r)"
  by (cases xs) (simp_all add: first_rule_def)

lemma first_rule_breach [simp]:
  "first_rule (if b then [breach st r m ids] else []) = (if b then Some (Refused ''safety.refused'' (Some r)) else None)"
  "first_rule [] = None"
  by (simp_all add: first_rule_def breach_def)

lemma first_rule_None [simp]: "first_rule rs = None \<longleftrightarrow> rs = []"
  by (cases rs) (simp_all add: first_rule_def)

lemma forbidden_pair_same: "forbidden_pair seen f F = first_forbidden_pair seen f F"
proof -
  have "{e \<in> set seen. e \<noteq> f} = set seen - {f}" by auto
  then show ?thesis by (simp add: forbidden_pair_def first_forbidden_pair_def)
qed

lemma budget_agree:
  assumes "si_services_pct st = services_pct fl g aff" "si_hosts_hit st = hits g K_HOST aff"
    and "si_duration_s st = d" "si_fault st = f"
  shows "first_rule (budget_rules b seen st) =
    fst (checks [refuse_if (services_pct fl g aff > max_services_pct b) ''blast_radius.max_services_pct'',
         refuse_if (hits g K_HOST aff > max_hosts b) ''blast_radius.max_hosts'',
         refuse_if (length seen + 1 > max_concurrent_faults b) ''blast_radius.max_concurrent_faults'',
         refuse_if (d > max_duration_per_fault_s b) ''blast_radius.max_duration_per_fault_s'',
         refuse_if (first_forbidden_pair seen f (forbidden_fault_pairs b) \<noteq> None)
           ''blast_radius.forbidden_fault_pairs''] s)"
  by (simp add: budget_rules_def first_rule_append assms forbidden_pair_same split: option.splits)
    (simp add: first_rule_def breach_def)

lemma length_sorted_set: "finite A \<Longrightarrow> length (sorted_list_of_set A) = card A"
  by simp

lemma ceiling_agree:
  assumes "finite aff" "finite T" "si_affected st = sorted_list_of_set aff" "si_targets st = sorted_list_of_set T"
    and "si_node_count st = card aff" "max_affected_pct c = None"
  shows "first_rule (ceiling_rules fl g c st) = fst (check_blast_ceilings fl g c aff T s)"
  using assms(1,2)
  by (simp add: ceiling_rules_def Let_def first_rule_append assms(3-6) check_blast_ceilings_def above_def [of _ None])

definition used_ceilings :: "SafetyContext \<Rightarrow> BlastCeilings" where
  "used_ceilings ctx = (case ctx_ceilings ctx of None \<Rightarrow> no_ceilings | Some c \<Rightarrow> c)"

lemma no_ceiling_rules: "ceiling_rules fl g no_ceilings st = []"
  by (simp add: ceiling_rules_def no_ceilings_def above_def Let_def)

lemma step_impact_measures:
  assumes "check_integrity g = Inr g" "finite (target_ids f)"
  defines "aff \<equiv> gate_affected g (target_ids f)"
  shows "si_services_pct (step_impact fl g idx sid f) = services_pct fl g aff"
    and "si_hosts_hit (step_impact fl g idx sid f) = hits g K_HOST aff"
    and "si_affected (step_impact fl g idx sid f) = sorted_list_of_set aff"
    and "si_targets (step_impact fl g idx sid f) = sorted_list_of_set (target_ids f)"
    and "si_node_count (step_impact fl g idx sid f) = card aff"
    and "si_duration_s (step_impact fl g idx sid f) = pf_duration_s f"
    and "si_fault (step_impact fl g idx sid f) = pf_fault_id f"
  using assms(1,2)
  by (simp_all add: step_impact_def Let_def services_pct_def hits_card total_card ids_of_kind_empty
      affected_agree aff_def)

lemma checks_prefix: "fst (checks (cs @ ds) s) = None \<Longrightarrow> fst (checks ds (snd (checks cs s))) = None"
  by (simp add: checks_append split: option.splits)

lemma step_agree:
  assumes "check_integrity g = Inr g" "finite (target_ids f)" "max_affected_pct (used_ceilings ctx) = None"
    and "fault_admissible ctx (pf_fault_id f) (risk_of catalog (pf_fault_id f))" "context_admissible g f"
    and "gate_ledger s = led"
    and ch: "ch = fst (charge fl catalog (ctx_quota ctx) (pf_fault_id f) (pf_duration_s f)
                      (gate_affected g (target_ids f)) led)"
  shows "fst (admit_fault fl catalog g ctx None run seen f s) =
    (case first_rule (per_step_rules fl g (ctx_budget ctx) (used_ceilings ctx) seen (step_impact fl g idx sid f)) of
       Some r \<Rightarrow> Some r
     | None \<Rightarrow> if charge_exceeded ch then Some (Refused ''safety.refused'' (Some (ch_rule ch))) else None)"
proof -
  let ?st = "step_impact fl g idx sid f"
  let ?aff = "gate_affected g (target_ids f)"
  let ?b = "ctx_budget ctx"
  let ?caps = "[refuse_if (services_pct fl g ?aff > max_services_pct ?b) ''blast_radius.max_services_pct'',
         refuse_if (hits g K_HOST ?aff > max_hosts ?b) ''blast_radius.max_hosts'',
         refuse_if (length seen + 1 > max_concurrent_faults ?b) ''blast_radius.max_concurrent_faults'',
         refuse_if (pf_duration_s f > max_duration_per_fault_s ?b) ''blast_radius.max_duration_per_fault_s'',
         refuse_if (first_forbidden_pair seen (pf_fault_id f) (forbidden_fault_pairs ?b) \<noteq> None)
           ''blast_radius.forbidden_fault_pairs'']"
  let ?ceil = "case ctx_ceilings ctx of None \<Rightarrow> pass
    | Some c \<Rightarrow> check_blast_ceilings fl g c ?aff (target_ids f)"
  note m = step_impact_measures [OF assms(1,2), of fl idx sid]
  have fin: "finite ?aff" using assms(2) by (rule gate_affected_finite)
  have caps: "first_rule (budget_rules ?b seen ?st) = fst (checks ?caps t)" for t
    by (rule budget_agree [OF m(1,2,6,7)])
  have ceil: "first_rule (ceiling_rules fl g (used_ceilings ctx) ?st) = fst (?ceil t)" for t
    using ceiling_agree [OF fin assms(2) m(3-5)] assms(3)
    by (simp add: used_ceilings_def no_ceiling_rules split: option.splits)
  have led: "gate_ledger (snd (checks ?caps t)) = gate_ledger t" "gate_ledger (snd (?ceil t)) = gate_ledger t" for t
    by (rule plain_ledger, rule plain_checks, simp add: plain_basic) (simp split: option.splits)
  have charge: "fst (charge_any_step fl catalog (ctx_quota ctx) None run (pf_fault_id f) (pf_duration_s f) ?aff t)
      = (if charge_exceeded ch then Some (Refused ''safety.refused'' (Some (ch_rule ch))) else None)"
    if "gate_ledger t = led" for t
    using that by (simp add: charge_any_step_def charge_step_check_def case_prod_beta ch)
  have blast: "check_blast_radius fl catalog g ctx None run (target_ids f) (pf_duration_s f) seen (pf_fault_id f)
      = checks (?caps @ [?ceil, charge_any_step fl catalog (ctx_quota ctx) None run (pf_fault_id f) (pf_duration_s f) ?aff,
                  noting ''blast_radius.allow'' Allow SEV_INFO])"
    by (simp add: check_blast_radius_def Let_def)
  have b: "fst (check_blast_radius fl catalog g ctx None run (target_ids f) (pf_duration_s f) seen (pf_fault_id f) t)
      = (case first_rule (per_step_rules fl g ?b (used_ceilings ctx) seen ?st) of
           Some r \<Rightarrow> Some r
         | None \<Rightarrow> if charge_exceeded ch then Some (Refused ''safety.refused'' (Some (ch_rule ch))) else None)"
    if "gate_ledger t = led" for t
  proof -
    have l: "gate_ledger (snd (?ceil (snd (checks ?caps t)))) = led" using led that by simp
    show ?thesis
      unfolding blast checks_append per_step_rules_def first_rule_append caps [of t] ceil [of "snd (checks ?caps t)"]
      using charge [OF l] by (simp only: checks_simps checks.simps(1) basic_None fst_conv) (simp split: option.splits)
  qed
  have adm: "fst (check_fault_admission (pf_fault_id f) (risk_of catalog (pf_fault_id f)) ctx s) = None"
    using assms(4) by (simp add: admission_pass)
  have "gate_ledger (snd (check_fault_admission (pf_fault_id f) (risk_of catalog (pf_fault_id f)) ctx s)) = led"
    using assms(6) plain_ledger [OF plain_admission] by simp
  moreover have "fst (check_execution_context f g u) = None" for u
    using assms(5) by (simp add: context_pass)
  ultimately show ?thesis
    using b adm by (simp add: admit_fault_def split: option.splits)
qed

definition fault_runnable :: "fault_catalog \<Rightarrow> TopologyGraph \<Rightarrow> SafetyContext \<Rightarrow> PlannedFault \<Rightarrow> bool" where
  "fault_runnable catalog g ctx f \<longleftrightarrow>
     finite (target_ids f) \<and> fault_admissible ctx (pf_fault_id f) (risk_of catalog (pf_fault_id f))
     \<and> context_admissible g f"

lemma walk_agree:
  assumes g: "check_integrity g = Inr g" "max_affected_pct (used_ceilings ctx) = None"
    and "\<forall>f\<in>set (List.map_filter ps_fault steps). fault_runnable catalog g ctx f"
    and "gate_ledger s = led" "wk_rules w = []"
  shows "first_rule (wk_rules (walk_steps fl catalog g (ctx_budget ctx) (ctx_quota ctx) (used_ceilings ctx)
           idx steps seen led w)) = fst (admit_steps fl catalog g ctx None run steps seen s)"
  using assms(3-5)
proof (induction steps arbitrary: idx seen led w s)
  case (Cons step rest)
  show ?case
  proof (cases "ps_fault step")
    case None
    then show ?thesis using Cons by (simp add: map_filter_simps)
  next
    case (Some f)
    have r: "fault_runnable catalog g ctx f"
      and rest: "\<forall>f\<in>set (List.map_filter ps_fault rest). fault_runnable catalog g ctx f"
      using Cons.prems(1) Some by (simp_all add: map_filter_simps)
    let ?st = "step_impact fl g idx (ps_id step) f"
    let ?ns = "gate_affected g (target_ids f)"
    obtain ch led' where c: "charge fl catalog (ctx_quota ctx) (pf_fault_id f) (pf_duration_s f) ?ns led = (ch, led')"
      by force
    have fin: "finite (target_ids f)" using r by (simp add: fault_runnable_def)
    have aff: "set (si_affected ?st) = ?ns"
      using step_impact_measures(3) [OF g(1) fin] gate_affected_finite [OF fin] by simp
    have led': "led' = charge_step fl catalog (fault_charge g f) led"
      using c snd_charge [of fl catalog "ctx_quota ctx" "pf_fault_id f" "pf_duration_s f" ?ns led]
      by (simp add: charge_step_def fault_charge_def)
    have step: "fst (admit_fault fl catalog g ctx None run seen f s) =
      (case first_rule (per_step_rules fl g (ctx_budget ctx) (used_ceilings ctx) seen ?st) of
         Some r \<Rightarrow> Some r
       | None \<Rightarrow> if charge_exceeded ch then Some (Refused ''safety.refused'' (Some (ch_rule ch))) else None)"
      by (rule step_agree [OF g(1) fin g(2) _ _ Cons.prems(2)]) (use r c in \<open>simp_all add: fault_runnable_def\<close>)
    let ?rules = "per_step_rules fl g (ctx_budget ctx) (used_ceilings ctx) seen ?st"
    let ?walk = "walk_steps fl catalog g (ctx_budget ctx) (ctx_quota ctx) (used_ceilings ctx)"
    have gate: "fst (admit_steps fl catalog g ctx None run (step # rest) seen s) =
      (case fst (admit_fault fl catalog g ctx None run seen f s) of
         Some r \<Rightarrow> Some r
       | None \<Rightarrow> fst (admit_steps fl catalog g ctx None run rest (seen @ [pf_fault_id f])
                   (snd (admit_fault fl catalog g ctx None run seen f s))))"
      using Some by (simp split: option.splits)
    show ?thesis
    proof (cases ?rules)
      case (Cons r rs)
      have "wk_rules (?walk idx (step # rest) seen led w) = ?rules"
        using Some Cons by (simp add: Let_def \<open>wk_rules w = []\<close>)
      then show ?thesis unfolding gate step by (simp add: Cons first_rule_def)
    next
      case Nil
      show ?thesis
      proof (cases "charge_exceeded ch")
        case True
        have "wk_rules (?walk idx (step # rest) seen led w) = [quota_rule fl ?st ch]"
          using Some Nil True by (simp add: Let_def aff c \<open>wk_rules w = []\<close>)
        then show ?thesis unfolding gate step by (simp add: Nil True first_rule_def quota_rule_def)
      next
        case False
        have ok: "fst (admit_fault fl catalog g ctx None run seen f s) = None" using step Nil False by simp
        have l: "gate_ledger (snd (admit_fault fl catalog g ctx None run seen f s)) = led'"
          using admit_fault_ledger [OF ok] Cons.prems(2) led' by simp
        define w' where "w' = w\<lparr>wk_targets := wk_targets w \<union> target_ids f,
            wk_affected := wk_affected w \<union> affected_node_ids g (target_ids f),
            wk_steps := wk_steps w @ [?st\<lparr>si_damage_s := round3 fl (ch_step_damage ch)\<rparr>]\<rparr>"
        have w': "wk_rules w' = []"
          "?walk idx (step # rest) seen led w = ?walk (idx + 1) rest (seen @ [pf_fault_id f]) led' w'"
          using Some Nil False by (simp_all add: Let_def aff c w'_def \<open>wk_rules w = []\<close>)
        show ?thesis unfolding gate ok w'(2) using Cons.IH [OF rest l w'(1)] by simp
      qed
    qed
  qed
qed simp

definition refused_rules :: "refusal option \<Rightarrow> string set" where
  "refused_rules r = (case r of Some (Refused _ (Some rule)) \<Rightarrow> {rule} | _ \<Rightarrow> {})"

section \<open>Properties\<close>

text \<open>
  The dependency depth is the shortest distance. The queue of \<open>dependency_fan_out\<close> empties on
  every graph; the node ids it reports are exactly the nodes the gate counts as affected, each with
  the length of the shortest chain of dependency edges from it to a target.
\<close>

theorem fan_out_shortest:
  assumes "finite T"
  shows "(map_of (fan_out_depths g T) v = Some d \<longleftrightarrow> distance g T v d)
     \<and> ((\<exists>d. map_of (fan_out_depths g T) v = Some d) \<longleftrightarrow> v \<in> gate_affected g T)
     \<and> affected_node_ids g T = gate_affected g T"
proof -
  have "(\<exists>d. distance g T v d) \<longleftrightarrow> (\<exists>n. \<exists>t\<in>T. (v, t) \<in> depends g ^^ n)"
    unfolding distance_def
    by (subst exists_least_iff [of "\<lambda>n. \<exists>t\<in>T. (v, t) \<in> depends g ^^ n"]) auto
  also have "\<dots> \<longleftrightarrow> v \<in> reaches g T" by (auto simp: reaches_def rtrancl_power)
  finally show ?thesis
    using fan_out_depths_distance [OF assms] affected_agree [OF assms] by (simp add: gate_affected_reaches)
qed

theorem fan_out_shortest_witness:
  "affected_node_ids demo_graph {''a''} = {''a'', ''b'', ''c''} \<and> distance demo_graph {''a''} ''c'' 2"
proof -
  have fin: "finite {''a''}" by simp
  have d: "map_of (fan_out_depths demo_graph {''a''}) ''c'' = Some 2"
    by (simp add: fan_out_depths_def reverse_dependencies_def upstreams_def is_dependency_def demo_graph_def
        depth_at_def)
  have "gate_affected demo_graph {''a''} = {''a'', ''b'', ''c''}"
    by (simp add: gate_affected_def demo_graph_closure)
  then show ?thesis
    using fan_out_shortest [OF fin, of demo_graph "''c''" 2] d by simp
qed



text \<open>
  With a percentage ceiling the two differ: the gate compares the share rounded to three decimals,
  the preview the share itself. Two of three nodes under a ceiling of 66.6669 percent: the preview
  flags nothing, the gate refuses.
\<close>

definition flat_graph :: TopologyGraph where
  "flat_graph = \<lparr>graph_nodes = map demo_service [''a'', ''b'', ''c''], graph_edges = []\<rparr>"

definition pct_ceiling :: BlastCeilings where
  "pct_ceiling = no_ceilings\<lparr>max_affected_pct := Some (666669 / 10000)\<rparr>"

lemma preview_calmer_than_gate:
  "ceiling_rules exact flat_graph pct_ceiling
       (step_impact exact flat_graph 0 ''s'' (demo_fault ''net.delay'' {''a'', ''b''})) = []
   \<and> fst (check_blast_ceilings exact flat_graph pct_ceiling (gate_affected flat_graph {''a'', ''b''}) {''a'', ''b''} s)
       = Some (Refused ''safety.refused'' (Some ''blast_radius.max_affected_pct''))"
proof -
  have c: "dependents_closure flat_graph i = {}" for i
    by (simp add: dependents_closure_def flat_graph_def upstreams_def)
  then have aff: "gate_affected flat_graph {''a'', ''b''} = {''a'', ''b''}" by (auto simp: gate_affected_def)
  have t: "target_ids (demo_fault ''net.delay'' {''a'', ''b''}) = {''a'', ''b''}"
    by (simp add: target_ids_def demo_fault_def)
  have ok: "check_integrity flat_graph = Inr flat_graph"
    by (simp add: check_integrity_def flat_graph_def demo_service_def)
  have fin: "finite (target_ids (demo_fault ''net.delay'' {''a'', ''b''}))" by (simp add: t)
  note m = step_impact_measures [OF ok fin, unfolded t aff, of exact 0 "''s''"]
  have n: "length (graph_nodes flat_graph) = 3" "graph_nodes flat_graph \<noteq> []" by (simp_all add: flat_graph_def)
  have p: "percent exact (card {''a'', ''b''}) 3 = 200 / 3" by (simp add: percent_def exact_simp)
  have f: "floor (200000 / 3 :: rat) = 66666" by (simp add: floor_eq_iff)
  have r: "round3 exact (200 / 3) = 66667 / 1000"
    by (simp add: round3_def round_half_even_def f exact_simp Let_def)
  have "ceiling_rules exact flat_graph pct_ceiling
       (step_impact exact flat_graph 0 ''s'' (demo_fault ''net.delay'' {''a'', ''b''})) = []"
    unfolding ceiling_rules_def Let_def m n(1) p
    by (simp add: pct_ceiling_def no_ceilings_def above_def)
  moreover have "fst (check_blast_ceilings exact flat_graph pct_ceiling {''a'', ''b''} {''a'', ''b''} s)
       = Some (Refused ''safety.refused'' (Some ''blast_radius.max_affected_pct''))"
    unfolding check_blast_ceilings_def n(1) p r using n(2)
    by (simp add: pct_ceiling_def no_ceilings_def above_def)
  ultimately show ?thesis by (simp add: aff)
qed

end
