(* ===== verification/Fabric_Command.thy ===== *)
theory Fabric_Command
  imports Python_Text
begin

text \<open>
  \<open>domain/fabric.py\<close>: the words of the execution fabric. Fencing tokens, the signed envelope, the
  nonce ledger, the semantics of planned steps and the reservations of resources. The envelope is
  shared by the election (\<open>Leader_Election\<close>) and the dispatch engine (\<open>Fabric_Engine\<close>).
\<close>

section \<open>Refusals\<close>

text \<open>
  \<open>FabricCommandRefused\<close> carries a stable code; every other exception is one of the development's
  \<open>py_error\<close>.
\<close>

datatype fabric_error = FabricRefused string | FabricFault py_error

section \<open>Fences and commands\<close>

text \<open>The pattern of the identifiers of the fabric.\<close>

definition ident_head :: "char \<Rightarrow> bool" where
  "ident_head c \<longleftrightarrow> c \<in> set ''ABCDEFGHIJKLMNOPQRSTUVWXYZabcdefghijklmnopqrstuvwxyz0123456789''"

definition valid_ident :: "string \<Rightarrow> bool" where
  "valid_ident s \<longleftrightarrow> s \<noteq> [] \<and> length s \<le> 128 \<and> ident_head (hd s)
     \<and> list_all (\<lambda>c. ident_head c \<or> c \<in> set ''._:@/-'') (tl s)"

record FencingToken =
  ft_run :: string
  ft_step :: string
  ft_holder :: string
  ft_epoch :: int
  ft_issued :: instant
  ft_supersedes :: "int option"

definition fence_validate :: "FencingToken \<Rightarrow> py_error + FencingToken" where
  "fence_validate t =
     (if \<not> (valid_ident (ft_run t) \<and> valid_ident (ft_step t) \<and> valid_ident (ft_holder t) \<and> 1 \<le> ft_epoch t
            \<and> (case ft_supersedes t of None \<Rightarrow> True | Some e \<Rightarrow> 1 \<le> e)) then Inl ValueErr
      else if (case ft_supersedes t of None \<Rightarrow> False | Some e \<Rightarrow> ft_epoch t \<le> e)
      then Inl (InvariantViolation ''fence_supersede_ordering'')
      else Inr t)"

definition fence_issue :: "string \<Rightarrow> string \<Rightarrow> string \<Rightarrow> instant \<Rightarrow> py_error + FencingToken" where
  "fence_issue run step holder now =
     fence_validate \<lparr>ft_run = run, ft_step = step, ft_holder = holder, ft_epoch = 1, ft_issued = now,
                     ft_supersedes = None\<rparr>"

definition next_fence :: "FencingToken \<Rightarrow> string \<Rightarrow> instant \<Rightarrow> py_error + FencingToken" where
  "next_fence t holder now =
     fence_validate \<lparr>ft_run = ft_run t, ft_step = ft_step t, ft_holder = holder, ft_epoch = ft_epoch t + 1,
                     ft_issued = now, ft_supersedes = Some (ft_epoch t)\<rparr>"

definition same_scope :: "FencingToken \<Rightarrow> FencingToken \<Rightarrow> bool" where
  "same_scope a b \<longleftrightarrow> ft_run a = ft_run b \<and> ft_step a = ft_step b"

definition is_after :: "FencingToken \<Rightarrow> FencingToken \<Rightarrow> bool" where
  "is_after a b \<longleftrightarrow> same_scope a b \<and> ft_epoch a > ft_epoch b"

definition is_at_least :: "FencingToken \<Rightarrow> FencingToken \<Rightarrow> bool" where
  "is_at_least a b \<longleftrightarrow> same_scope a b \<and> ft_epoch a \<ge> ft_epoch b"

definition outranks :: "FencingToken \<Rightarrow> FencingToken \<Rightarrow> bool" where
  "outranks a b \<longleftrightarrow> is_at_least b a"

text \<open>
  The envelope. No field has a default, so the record is the envelope; its constructor refuses what
  the field constraints and the validator refuse.
\<close>

datatype FabricCommandType =
  FC_PREPARE | FC_RESERVE | FC_VALIDATE | FC_INJECT | FC_OBSERVE | FC_COMPENSATE | FC_VERIFY | FC_CLOSE

record CommandBodyRef =
  cb_type :: FabricCommandType
  cb_digest :: string
  cb_ref :: string

definition FABRIC_PROTOCOL_VERSION :: string where "FABRIC_PROTOCOL_VERSION = ''mayhem/1''"

definition lower_hex :: "string \<Rightarrow> bool" where
  "lower_hex s \<longleftrightarrow> list_all (\<lambda>c. c \<in> set ''0123456789abcdef'') s"

definition valid_digest :: "string \<Rightarrow> bool" where
  "valid_digest s \<longleftrightarrow> length s = 64 \<and> lower_hex s"

definition valid_nonce :: "string \<Rightarrow> bool" where
  "valid_nonce s \<longleftrightarrow> 32 \<le> length s \<and> length s \<le> 128 \<and> lower_hex s"

definition valid_signature :: "string \<Rightarrow> bool" where
  "valid_signature s \<longleftrightarrow> 16 \<le> length s \<and> length s \<le> 1024
     \<and> list_all (\<lambda>c. ident_head c \<or> c \<in> set ''+/=_-'') s"

record FabricCommand =
  fc_protocol :: string
  fc_id :: string
  fc_run :: string
  fc_step :: string
  fc_agent :: string
  fc_plan :: string
  fc_nonce :: string
  fc_key :: string
  fc_fence :: FencingToken
  fc_body :: CommandBodyRef
  fc_issued :: instant
  fc_signer :: string
  fc_signature :: string

definition command_fields_ok :: "FabricCommand \<Rightarrow> bool" where
  "command_fields_ok c \<longleftrightarrow>
     valid_ident (fc_id c) \<and> valid_ident (fc_run c) \<and> valid_ident (fc_step c) \<and> valid_ident (fc_agent c)
     \<and> valid_digest (fc_plan c) \<and> valid_nonce (fc_nonce c) \<and> valid_ident (fc_key c)
     \<and> valid_digest (cb_digest (fc_body c)) \<and> valid_ident (cb_ref (fc_body c))
     \<and> valid_ident (fc_signer c) \<and> valid_signature (fc_signature c)"

text \<open>
  A nested fence whose own validator raises stops the parse at once, before the collected field
  errors are reported.
\<close>

definition command_validate :: "FabricCommand \<Rightarrow> py_error + FabricCommand" where
  "command_validate c =
     (case fence_validate (fc_fence c) of
        Inl e \<Rightarrow> Inl e
      | Inr _ \<Rightarrow>
          if \<not> command_fields_ok c then Inl ValueErr
          else if fc_protocol c \<noteq> FABRIC_PROTOCOL_VERSION then Inl (InvariantViolation ''fabric_protocol_version'')
          else Inr c)"

definition command_ok :: "FabricCommand \<Rightarrow> bool" where
  "command_ok c \<longleftrightarrow> (case command_validate c of Inl _ \<Rightarrow> False | Inr _ \<Rightarrow> True)"

definition is_signed :: "FabricCommand \<Rightarrow> bool" where
  "is_signed c \<longleftrightarrow> py_strip (fc_signature c) \<noteq> [] \<and> py_strip (fc_signer c) \<noteq> []"

definition binds_to :: "FabricCommand \<Rightarrow> string \<Rightarrow> bool" where
  "binds_to c digest \<longleftrightarrow> fc_plan c = digest"

definition is_replayed :: "FabricCommand \<Rightarrow> string set \<Rightarrow> bool" where
  "is_replayed c consumed \<longleftrightarrow> fc_nonce c \<in> consumed"

definition guards :: "FabricCommand \<Rightarrow> FencingToken \<Rightarrow> bool" where
  "guards c served \<longleftrightarrow> is_at_least (fc_fence c) served"

definition is_stale_against :: "FabricCommand \<Rightarrow> FencingToken \<Rightarrow> bool" where
  "is_stale_against c served \<longleftrightarrow> \<not> guards c served"

definition same_effect_as :: "FabricCommand \<Rightarrow> FabricCommand \<Rightarrow> bool" where
  "same_effect_as a b \<longleftrightarrow> fc_key a = fc_key b \<and> cb_digest (fc_body a) = cb_digest (fc_body b)"

section \<open>The nonce ledger\<close>

type_synonym NonceLedger = "string set"

definition ledger_knows :: "NonceLedger \<Rightarrow> string \<Rightarrow> bool" where
  "ledger_knows l n \<longleftrightarrow> n \<in> l"

definition ledger_accept :: "NonceLedger \<Rightarrow> FabricCommand \<Rightarrow> fabric_error + NonceLedger" where
  "ledger_accept l c =
     (if is_replayed c l then Inl (FabricRefused ''fabric_replayed_nonce'') else Inr (l \<union> {fc_nonce c}))"

section \<open>What a step means\<close>

datatype StepSemantics =
    SEM_SERIAL | SEM_PARALLEL | SEM_CONDITIONAL | SEM_LOOP | SEM_RETRY | SEM_TIMEOUT
  | SEM_BRANCH | SEM_JOIN | SEM_WAIT | SEM_APPROVAL | SEM_COMPENSATE

text \<open>The required fields, in the sorted order they are checked in.\<close>

fun required_fields :: "StepSemantics \<Rightarrow> string list" where
  "required_fields SEM_SERIAL = []"
| "required_fields SEM_PARALLEL = [''fan_out_step_ids'']"
| "required_fields SEM_CONDITIONAL = [''condition_ref'']"
| "required_fields SEM_LOOP = [''bound'', ''budget_ref'']"
| "required_fields SEM_RETRY = [''backoff_ref'', ''retry_limit'']"
| "required_fields SEM_TIMEOUT = [''timeout_s'']"
| "required_fields SEM_BRANCH = [''branch_targets'', ''condition_ref'']"
| "required_fields SEM_JOIN = [''join_step_ids'']"
| "required_fields SEM_WAIT = [''timeout_s'', ''wait_ref'']"
| "required_fields SEM_APPROVAL = [''approval_ref'']"
| "required_fields SEM_COMPENSATE = [''compensates_step_id'', ''verify_probe_ref'']"

text \<open>
  The values a field can hold. A \<open>Duration\<close> is dumped to text before it is checked, so its value is
  what \<open>parse_duration\<close> reads back from that text (\<open>dump_duration\<close>), and nothing when it does not.
\<close>

datatype field_value =
    Unset
  | Text string
  | Items "string list"
  | Flag bool
  | Whole int
  | Floating rat
  | DumpedDuration "duration option"

fun is_stated :: "field_value \<Rightarrow> bool" where
  "is_stated Unset = False"
| "is_stated (Text s) = (py_strip s \<noteq> [])"
| "is_stated (Items xs) = (xs \<noteq> [])"
| "is_stated _ = True"

text \<open>\<open>parse_duration\<close>: digits, an optional fraction, one unit; the seconds as a double.\<close>

definition unit_seconds :: "string \<Rightarrow> rat option" where
  "unit_seconds u = (if u = ''s'' then Some 1 else if u = ''m'' then Some 60
                     else if u = ''h'' then Some 3600 else None)"

definition parse_duration :: "(rat \<Rightarrow> rat) \<Rightarrow> string \<Rightarrow> pyfloat option" where
  "parse_duration fl raw =
     (let s = py_strip raw; w = takeWhile is_digit s; r = dropWhile is_digit s;
          f = (case r of [] \<Rightarrow> [] | c # cs \<Rightarrow> if c = CHR ''.'' then takeWhile is_digit cs else []);
          u = (case r of [] \<Rightarrow> []
               | c # cs \<Rightarrow> if c = CHR ''.'' \<and> f \<noteq> [] then dropWhile is_digit cs else r)
      in case unit_seconds u of
           None \<Rightarrow> None
         | Some k \<Rightarrow>
             if w = [] then None
             else Some (case float_of fl False (nat (digits_value 0 (w @ f))) (- int (length f)) of
                          PFinite x \<Rightarrow> if OVERFLOW \<le> x * k then PInfinity False else PFinite (fl (x * k))
                        | y \<Rightarrow> y))"

text \<open>\<open>_as_positive_number\<close> followed by \<open>number is None or number <= 0\<close>.\<close>

fun is_positive_number :: "(rat \<Rightarrow> rat) \<Rightarrow> field_value \<Rightarrow> bool" where
  "is_positive_number fl (Whole n) = (0 < n)"
| "is_positive_number fl (Floating x) = (0 < x)"
| "is_positive_number fl (Text s) =
     (case parse_duration fl s of None \<Rightarrow> False | Some v \<Rightarrow> \<not> pf_le v (PFinite 0))"
| "is_positive_number fl (DumpedDuration d) = (case d of None \<Rightarrow> False | Some t \<Rightarrow> 0 < t)"
| "is_positive_number fl _ = False"

fun is_positive_int :: "field_value \<Rightarrow> bool" where
  "is_positive_int (Whole n) = (1 \<le> n)"
| "is_positive_int _ = False"

datatype semantics_violation =
    FieldRequired string
  | NotPositiveInteger string
  | NotPositiveNumber string

definition field_violations :: "(rat \<Rightarrow> rat) \<Rightarrow> (string \<Rightarrow> field_value) \<Rightarrow> string \<Rightarrow> semantics_violation list" where
  "field_violations fl fv name =
     (if \<not> is_stated (fv name) then [FieldRequired name]
      else (if name \<in> {''bound'', ''retry_limit''} \<and> \<not> is_positive_int (fv name)
            then [NotPositiveInteger name] else [])
         @ (if name = ''timeout_s'' \<and> \<not> is_positive_number fl (fv name)
            then [NotPositiveNumber name] else []))"

definition step_semantics_violations ::
  "(rat \<Rightarrow> rat) \<Rightarrow> StepSemantics \<Rightarrow> (string \<Rightarrow> field_value) \<Rightarrow> semantics_violation list" where
  "step_semantics_violations fl sem fv = concat (map (field_violations fl fv) (required_fields sem))"

definition is_well_formed :: "(rat \<Rightarrow> rat) \<Rightarrow> StepSemantics \<Rightarrow> (string \<Rightarrow> field_value) \<Rightarrow> bool" where
  "is_well_formed fl sem fv \<longleftrightarrow> step_semantics_violations fl sem fv = []"

definition require_well_formed ::
  "(rat \<Rightarrow> rat) \<Rightarrow> StepSemantics \<Rightarrow> (string \<Rightarrow> field_value) \<Rightarrow> py_error + unit" where
  "require_well_formed fl sem fv =
     (if step_semantics_violations fl sem fv \<noteq> []
      then Inl (InvariantViolation ''step_semantics_ill_formed'') else Inr ())"

text \<open>The planner's step. Blank references and empty tuples are caught as unstated.\<close>

record StepSpec =
  sp_id :: string
  sp_semantic :: StepSemantics
  sp_depends :: "string list"
  sp_fan_out :: "string list"
  sp_condition :: "string option"
  sp_branches :: "string list"
  sp_bound :: "int option"
  sp_budget :: "string option"
  sp_retries :: "int option"
  sp_backoff :: "string option"
  sp_timeout :: "duration option"
  sp_joins :: "string list"
  sp_wait :: "string option"
  sp_approval :: "string option"
  sp_compensates :: "string option"
  sp_probe :: "string option"
  sp_issued :: instant

definition text_field :: "string option \<Rightarrow> field_value" where
  "text_field s = (case s of None \<Rightarrow> Unset | Some t \<Rightarrow> Text t)"

definition int_field :: "int option \<Rightarrow> field_value" where
  "int_field n = (case n of None \<Rightarrow> Unset | Some k \<Rightarrow> Whole k)"

text \<open>\<open>model_dump()\<close>, at the fields the semantics asks for.\<close>

definition step_fields :: "StepSpec \<Rightarrow> string \<Rightarrow> field_value" where
  "step_fields s name =
     (if name = ''fan_out_step_ids'' then Items (sp_fan_out s)
      else if name = ''condition_ref'' then text_field (sp_condition s)
      else if name = ''branch_targets'' then Items (sp_branches s)
      else if name = ''bound'' then int_field (sp_bound s)
      else if name = ''budget_ref'' then text_field (sp_budget s)
      else if name = ''retry_limit'' then int_field (sp_retries s)
      else if name = ''backoff_ref'' then text_field (sp_backoff s)
      else if name = ''timeout_s''
      then (case sp_timeout s of None \<Rightarrow> Unset | Some t \<Rightarrow> DumpedDuration (dump_duration t))
      else if name = ''join_step_ids'' then Items (sp_joins s)
      else if name = ''wait_ref'' then text_field (sp_wait s)
      else if name = ''approval_ref'' then text_field (sp_approval s)
      else if name = ''compensates_step_id'' then text_field (sp_compensates s)
      else if name = ''verify_probe_ref'' then text_field (sp_probe s)
      else Unset)"

definition step_validate :: "(rat \<Rightarrow> rat) \<Rightarrow> StepSpec \<Rightarrow> py_error + StepSpec" where
  "step_validate fl s =
     (if (case sp_timeout s of None \<Rightarrow> False | Some t \<Rightarrow> t < 0) then Inl (SchemaInvalid ''duration'')
      else if \<not> (valid_ident (sp_id s) \<and> list_all valid_ident (sp_depends s @ sp_fan_out s @ sp_branches s @ sp_joins s))
      then Inl ValueErr
      else case require_well_formed fl (sp_semantic s) (step_fields s) of
             Inl e \<Rightarrow> Inl e | Inr _ \<Rightarrow> Inr s)"

definition is_compensating :: "StepSpec \<Rightarrow> bool" where
  "is_compensating s \<longleftrightarrow> sp_semantic s = SEM_COMPENSATE"

definition iteration_cap :: "StepSpec \<Rightarrow> int option" where
  "iteration_cap s =
     (if sp_semantic s = SEM_LOOP then sp_bound s
      else if sp_semantic s = SEM_RETRY then sp_retries s else None)"

section \<open>Reservations\<close>

record Reservation =
  rv_resource :: string
  rv_run :: string
  rv_step :: string
  rv_holder :: string
  rv_fence :: FencingToken
  rv_ttl :: duration
  rv_acquired :: instant

definition rv_owner :: "Reservation \<Rightarrow> string \<times> string" where
  "rv_owner r = (rv_run r, rv_step r)"

definition reservation_validate :: "Reservation \<Rightarrow> py_error + Reservation" where
  "reservation_validate r =
     (if rv_ttl r < 0 then Inl (SchemaInvalid ''duration'')
      else case fence_validate (rv_fence r) of
        Inl e \<Rightarrow> Inl e
      | Inr _ \<Rightarrow>
          if \<not> (valid_ident (rv_resource r) \<and> valid_ident (rv_run r) \<and> valid_ident (rv_step r)
                \<and> valid_ident (rv_holder r)) then Inl ValueErr
          else if rv_ttl r \<le> 0 then Inl (InvariantViolation ''reservation_positive_ttl'')
          else if (ft_run (rv_fence r), ft_step (rv_fence r)) \<noteq> rv_owner r
          then Inl (InvariantViolation ''reservation_fence_scope'')
          else Inr r)"

definition rv_expires :: "Reservation \<Rightarrow> instant" where
  "rv_expires r = rv_acquired r + rv_ttl r"

definition rv_is_expired :: "Reservation \<Rightarrow> instant \<Rightarrow> bool" where
  "rv_is_expired r now \<longleftrightarrow> rv_expires r \<le> now"

definition rv_remaining :: "Reservation \<Rightarrow> instant \<Rightarrow> duration" where
  "rv_remaining r now = max 0 (rv_expires r - now)"

definition is_authorised_by :: "Reservation \<Rightarrow> FencingToken \<Rightarrow> bool" where
  "is_authorised_by r presented \<longleftrightarrow> is_at_least (rv_fence r) presented"

definition conflicts_with :: "Reservation \<Rightarrow> Reservation \<Rightarrow> instant \<Rightarrow> bool" where
  "conflicts_with a b now \<longleftrightarrow>
     (if rv_resource a \<noteq> rv_resource b then False
      else if rv_owner a = rv_owner b then False
      else \<not> (rv_is_expired a now \<or> rv_is_expired b now))"

definition rv_renew :: "Reservation \<Rightarrow> duration \<Rightarrow> instant \<Rightarrow> fabric_error + Reservation" where
  "rv_renew r ttl now =
     (if rv_is_expired r now then Inl (FabricRefused ''fabric_reservation_expired'')
      else case reservation_validate (r\<lparr>rv_ttl := ttl, rv_acquired := now\<rparr>) of
             Inl e \<Rightarrow> Inl (FabricFault e) | Inr r' \<Rightarrow> Inr r')"

text \<open>\<open>_ReservationTable\<close>: the reservation last seen on each resource.\<close>

type_synonym ReservationTable = "string \<Rightarrow> Reservation option"

definition claimable :: "ReservationTable \<Rightarrow> Reservation \<Rightarrow> instant \<Rightarrow> bool" where
  "claimable held r now =
     (case held (rv_resource r) of
        None \<Rightarrow> True
      | Some cur \<Rightarrow> if rv_is_expired cur now then True else rv_owner cur = rv_owner r)"

definition table_with :: "ReservationTable \<Rightarrow> Reservation \<Rightarrow> ReservationTable" where
  "table_with held r = held(rv_resource r \<mapsto> r)"

fun conflicts_from :: "instant \<Rightarrow> ReservationTable \<Rightarrow> Reservation list \<Rightarrow> Reservation list" where
  "conflicts_from now held [] = []"
| "conflicts_from now held (r # rs) =
     (if \<not> claimable held r now then r # conflicts_from now (table_with held r) rs
      else conflicts_from now (table_with held r) rs)"

definition reservation_conflicts :: "Reservation list \<Rightarrow> instant \<Rightarrow> Reservation list" where
  "reservation_conflicts rs now = conflicts_from now Map.empty rs"

section \<open>The decisions\<close>

definition assert_plan_digest_matches :: "FabricCommand \<Rightarrow> string \<Rightarrow> fabric_error + unit" where
  "assert_plan_digest_matches c digest =
     (if \<not> binds_to c digest then Inl (FabricRefused ''fabric_plan_mismatch'') else Inr ())"

definition assert_fence_current :: "FabricCommand \<Rightarrow> FencingToken \<Rightarrow> fabric_error + unit" where
  "assert_fence_current c served =
     (if is_stale_against c served then Inl (FabricRefused ''fabric_stale_fence'') else Inr ())"

definition assert_reservation_available ::
  "Reservation \<Rightarrow> Reservation list \<Rightarrow> instant \<Rightarrow> fabric_error + unit" where
  "assert_reservation_available r held now =
     (if filter (\<lambda>x. conflicts_with x r now) held \<noteq> []
      then Inl (FabricRefused ''fabric_resource_conflict'') else Inr ())"

section \<open>Laws\<close>

lemma fence_validate_Inr_iff:
  "fence_validate t = Inr u \<longleftrightarrow>
     u = t \<and> valid_ident (ft_run t) \<and> valid_ident (ft_step t) \<and> valid_ident (ft_holder t) \<and> 1 \<le> ft_epoch t
     \<and> (case ft_supersedes t of None \<Rightarrow> True | Some e \<Rightarrow> 1 \<le> e \<and> e < ft_epoch t)"
  by (auto simp: fence_validate_def split: option.splits)

lemma fence_validate_same: "fence_validate t = Inr u \<Longrightarrow> fence_validate t = Inr t"
  by (simp add: fence_validate_Inr_iff)

lemma command_ok_iff:
  "command_ok c \<longleftrightarrow> fence_validate (fc_fence c) = Inr (fc_fence c) \<and> command_fields_ok c
     \<and> fc_protocol c = FABRIC_PROTOCOL_VERSION"
proof (cases "fence_validate (fc_fence c)")
  case (Inl e)
  then show ?thesis by (simp add: command_ok_def command_validate_def)
next
  case (Inr u)
  with fence_validate_same [OF Inr] show ?thesis by (simp add: command_ok_def command_validate_def)
qed

lemma conflicts_with_sym: "conflicts_with a b now = conflicts_with b a now"
  by (auto simp: conflicts_with_def)

lemma conflicts_with_iff:
  "conflicts_with a b now \<longleftrightarrow> rv_resource a = rv_resource b \<and> rv_owner a \<noteq> rv_owner b
     \<and> \<not> rv_is_expired a now \<and> \<not> rv_is_expired b now"
  by (simp add: conflicts_with_def)

text \<open>An accepted envelope is signed.\<close>

lemma py_strip_nonblank: "\<not> py_isspace c \<Longrightarrow> py_strip (c # cs) \<noteq> []"
  by (simp add: py_strip_def)

lemma ident_not_space: "ident_head c \<Longrightarrow> \<not> py_isspace c"
proof -
  have "list_all (\<lambda>c. \<not> py_isspace c) ''ABCDEFGHIJKLMNOPQRSTUVWXYZabcdefghijklmnopqrstuvwxyz0123456789''"
    by code_simp
  then show "ident_head c \<Longrightarrow> \<not> py_isspace c" by (simp add: ident_head_def list_all_iff del: set_simps)
qed

lemma sign_not_space: "c \<in> set ''+/=_-'' \<Longrightarrow> \<not> py_isspace c"
proof -
  have "list_all (\<lambda>c. \<not> py_isspace c) ''+/=_-''" by code_simp
  then show "c \<in> set ''+/=_-'' \<Longrightarrow> \<not> py_isspace c" by (simp add: list_all_iff del: set_simps)
qed

lemma command_ok_signed:
  assumes "command_ok c"
  shows "is_signed c"
proof -
  have v: "valid_ident (fc_signer c)" "valid_signature (fc_signature c)"
    using assms by (simp_all add: command_ok_iff command_fields_ok_def)
  have "py_strip (fc_signer c) \<noteq> []"
    using v(1) py_strip_nonblank ident_not_space
    by (cases "fc_signer c") (simp_all add: valid_ident_def)
  moreover have "py_strip (fc_signature c) \<noteq> []"
    using v(2) py_strip_nonblank ident_not_space sign_not_space
    by (cases "fc_signature c") (auto simp: valid_signature_def simp del: set_simps)
  ultimately show ?thesis by (simp add: is_signed_def)
qed

text \<open>
  What a step must state, semantics by semantics: an accepted loop has a bound and a budget, an
  accepted wait has a positive timeout that survives its dump.
\<close>

lemma require_well_formed_iff:
  "require_well_formed fl sem fv = Inr () \<longleftrightarrow> (\<forall>n\<in>set (required_fields sem). field_violations fl fv n = [])"
  by (simp add: require_well_formed_def step_semantics_violations_def)

lemma field_violations_Nil_iff:
  "field_violations fl fv n = [] \<longleftrightarrow> is_stated (fv n)
     \<and> (n = ''bound'' \<or> n = ''retry_limit'' \<longrightarrow> is_positive_int (fv n))
     \<and> (n = ''timeout_s'' \<longrightarrow> is_positive_number fl (fv n))"
  by (auto simp: field_violations_def)

definition stated_ref :: "string option \<Rightarrow> bool" where
  "stated_ref s \<longleftrightarrow> (case s of None \<Rightarrow> False | Some t \<Rightarrow> py_strip t \<noteq> [])"

definition positive_count :: "int option \<Rightarrow> bool" where
  "positive_count n \<longleftrightarrow> (case n of None \<Rightarrow> False | Some k \<Rightarrow> 1 \<le> k)"

definition usable_deadline :: "duration option \<Rightarrow> bool" where
  "usable_deadline t \<longleftrightarrow> (case Option.bind t dump_duration of None \<Rightarrow> False | Some u \<Rightarrow> 0 < u)"

fun meaningful :: "StepSpec \<Rightarrow> StepSemantics \<Rightarrow> bool" where
  "meaningful s SEM_SERIAL = True"
| "meaningful s SEM_PARALLEL = (sp_fan_out s \<noteq> [])"
| "meaningful s SEM_CONDITIONAL = stated_ref (sp_condition s)"
| "meaningful s SEM_LOOP = (positive_count (sp_bound s) \<and> stated_ref (sp_budget s))"
| "meaningful s SEM_RETRY = (positive_count (sp_retries s) \<and> stated_ref (sp_backoff s))"
| "meaningful s SEM_TIMEOUT = usable_deadline (sp_timeout s)"
| "meaningful s SEM_BRANCH = (stated_ref (sp_condition s) \<and> sp_branches s \<noteq> [])"
| "meaningful s SEM_JOIN = (sp_joins s \<noteq> [])"
| "meaningful s SEM_WAIT = (stated_ref (sp_wait s) \<and> usable_deadline (sp_timeout s))"
| "meaningful s SEM_APPROVAL = stated_ref (sp_approval s)"
| "meaningful s SEM_COMPENSATE = (stated_ref (sp_compensates s) \<and> stated_ref (sp_probe s))"

lemma carrier_simps:
  "is_stated (text_field t) = stated_ref t"
  "is_stated (int_field n) \<and> is_positive_int (int_field n) \<longleftrightarrow> positive_count n"
  by (simp_all add: text_field_def int_field_def stated_ref_def positive_count_def split: option.split)

lemma deadline_simps:
  "(let v = (case t of None \<Rightarrow> Unset | Some d \<Rightarrow> DumpedDuration (dump_duration d))
    in is_stated v \<and> is_positive_number fl v) \<longleftrightarrow> usable_deadline t"
  by (cases t) (simp_all add: usable_deadline_def Let_def)

lemma well_formed_iff_meaningful:
  "require_well_formed fl sem (step_fields s) = Inr () \<longleftrightarrow> meaningful s sem"
  using carrier_simps deadline_simps [of "sp_timeout s" fl, unfolded Let_def]
  by (cases sem) (auto simp: require_well_formed_iff field_violations_Nil_iff step_fields_def)

definition step_shape :: "StepSpec \<Rightarrow> bool" where
  "step_shape s \<longleftrightarrow> valid_ident (sp_id s)
     \<and> list_all valid_ident (sp_depends s @ sp_fan_out s @ sp_branches s @ sp_joins s)
     \<and> (case sp_timeout s of None \<Rightarrow> True | Some t \<Rightarrow> 0 \<le> t)"

lemma step_validate_Inr_iff:
  "step_validate fl s = Inr t \<longleftrightarrow> t = s \<and> step_shape s \<and> meaningful s (sp_semantic s)"
proof -
  have "(\<exists>e. require_well_formed fl (sp_semantic s) (step_fields s) = Inl e) \<longleftrightarrow> \<not> meaningful s (sp_semantic s)"
    using well_formed_iff_meaningful [of fl "sp_semantic s" s]
    by (cases "require_well_formed fl (sp_semantic s) (step_fields s)") auto
  then show ?thesis
    using well_formed_iff_meaningful [of fl "sp_semantic s" s]
    by (cases "require_well_formed fl (sp_semantic s) (step_fields s)")
      (auto simp: step_validate_def step_shape_def split: option.splits)
qed

text \<open>
  The lock table: on locks that are all live, no clash is reported exactly when no two conflict.
\<close>

lemma conflicts_from_Nil_iff:
  assumes "\<forall>r\<in>set rs. \<not> rv_is_expired r now" "\<forall>k x. held k = Some x \<longrightarrow> \<not> rv_is_expired x now"
  shows "conflicts_from now held rs = [] \<longleftrightarrow>
     (\<forall>a\<in>set rs. \<forall>b\<in>set rs. \<not> conflicts_with a b now)
     \<and> (\<forall>a\<in>set rs. \<forall>x. held (rv_resource a) = Some x \<longrightarrow> rv_owner x = rv_owner a)"
  using assms
proof (induction rs arbitrary: held)
  case Nil
  then show ?case by simp
next
  case (Cons r rs)
  have live: "\<not> rv_is_expired r now" "\<forall>a\<in>set rs. \<not> rv_is_expired a now" using Cons.prems(1) by auto
  have cl: "claimable held r now \<longleftrightarrow> (\<forall>x. held (rv_resource r) = Some x \<longrightarrow> rv_owner x = rv_owner r)"
    using Cons.prems(2) by (auto simp: claimable_def split: option.splits)
  have IH: "conflicts_from now (table_with held r) rs = [] \<longleftrightarrow>
     (\<forall>a\<in>set rs. \<forall>b\<in>set rs. \<not> conflicts_with a b now)
     \<and> (\<forall>a\<in>set rs. \<forall>x. table_with held r (rv_resource a) = Some x \<longrightarrow> rv_owner x = rv_owner a)"
    using Cons.prems live by (intro Cons.IH) (auto simp: table_with_def)
  have new: "(\<forall>a\<in>set rs. \<forall>x. table_with held r (rv_resource a) = Some x \<longrightarrow> rv_owner x = rv_owner a) \<longleftrightarrow>
     (\<forall>a\<in>set rs. (rv_resource a = rv_resource r \<longrightarrow> rv_owner r = rv_owner a)
        \<and> (rv_resource a \<noteq> rv_resource r \<longrightarrow> (\<forall>x. held (rv_resource a) = Some x \<longrightarrow> rv_owner x = rv_owner a)))"
    by (simp add: table_with_def)
  have pair: "(\<forall>a\<in>set (r # rs). \<forall>b\<in>set (r # rs). \<not> conflicts_with a b now) \<longleftrightarrow>
     (\<forall>a\<in>set rs. \<forall>b\<in>set rs. \<not> conflicts_with a b now)
     \<and> (\<forall>a\<in>set rs. rv_resource a = rv_resource r \<longrightarrow> rv_owner r = rv_owner a)"
  proof -
    have rr: "\<not> conflicts_with r r now" by (simp add: conflicts_with_def)
    have ra: "(\<forall>a\<in>set rs. \<not> conflicts_with r a now) \<longleftrightarrow>
        (\<forall>a\<in>set rs. rv_resource a = rv_resource r \<longrightarrow> rv_owner r = rv_owner a)"
      using live by (auto simp: conflicts_with_def)
    have ar: "(\<forall>a\<in>set rs. \<not> conflicts_with a r now) \<longleftrightarrow>
        (\<forall>a\<in>set rs. rv_resource a = rv_resource r \<longrightarrow> rv_owner r = rv_owner a)"
      using live by (auto simp: conflicts_with_def)
    show ?thesis by (simp add: rr ra ar ball_conj_distrib) blast
  qed
  have merge: "(\<forall>a\<in>set (r # rs). \<forall>x. held (rv_resource a) = Some x \<longrightarrow> rv_owner x = rv_owner a) \<longleftrightarrow>
     claimable held r now
     \<and> (\<forall>a\<in>set rs. \<forall>x. held (rv_resource a) = Some x \<longrightarrow> rv_owner x = rv_owner a)"
    by (simp add: cl)
  show ?case
  proof (cases "claimable held r now")
    case False
    then show ?thesis unfolding merge by simp
  next
    case True
    let ?Q = "\<lambda>a. \<forall>x. held (rv_resource a) = Some x \<longrightarrow> rv_owner x = rv_owner a"
    have at_r: "?Q a" if "rv_resource a = rv_resource r" "rv_owner r = rv_owner a" for a
      using True that by (simp add: cl)
    have "(\<forall>a\<in>set rs. (rv_resource a = rv_resource r \<longrightarrow> rv_owner r = rv_owner a) \<and> (rv_resource a \<noteq> rv_resource r \<longrightarrow> ?Q a))
      \<longleftrightarrow> (\<forall>a\<in>set rs. rv_resource a = rv_resource r \<longrightarrow> rv_owner r = rv_owner a) \<and> (\<forall>a\<in>set rs. ?Q a)"
      unfolding ball_conj_distrib [symmetric] by (rule ball_cong [OF refl]) (use at_r in blast)
    moreover have "conflicts_from now held (r # rs) = [] \<longleftrightarrow> conflicts_from now (table_with held r) rs = []"
      using True by simp
    ultimately show ?thesis unfolding merge pair IH new using True by blast
  qed
qed

lemma reservation_conflicts_complete:
  "(\<forall>r\<in>set rs. \<not> rv_is_expired r now) \<Longrightarrow>
     reservation_conflicts rs now = [] \<longleftrightarrow> (\<forall>a\<in>set rs. \<forall>b\<in>set rs. \<not> conflicts_with a b now)"
  using conflicts_from_Nil_iff [of rs now Map.empty] by (simp add: reservation_conflicts_def)

text \<open>An envelope with given identity, for the examples of the theories built on this one.\<close>

definition command_for :: "string \<Rightarrow> string \<Rightarrow> string \<Rightarrow> string \<Rightarrow> string \<Rightarrow> FencingToken \<Rightarrow> FabricCommand" where
  "command_for i run step key nonce f =
     \<lparr>fc_protocol = FABRIC_PROTOCOL_VERSION, fc_id = i, fc_run = run, fc_step = step, fc_agent = ''agent'',
      fc_plan = replicate 64 (CHR ''0''), fc_nonce = nonce, fc_key = key, fc_fence = f,
      fc_body = \<lparr>cb_type = FC_INJECT, cb_digest = replicate 64 (CHR ''0''), cb_ref = ''body''\<rparr>,
      fc_issued = 0, fc_signer = ''key'', fc_signature = replicate 16 (CHR ''A'')\<rparr>"

lemma command_for_ok:
  assumes "valid_ident i" "valid_ident run" "valid_ident step" "valid_ident key" "valid_nonce nonce"
    and "fence_validate f = Inr f"
  shows "command_ok (command_for i run step key nonce f)"
proof -
  have "valid_ident ''agent''" "valid_ident ''body''" "valid_ident ''key''" "valid_digest (replicate 64 (CHR ''0''))"
    "valid_signature (replicate 16 (CHR ''A''))"
    by code_simp+
  with assms show ?thesis by (simp add: command_ok_iff command_fields_ok_def command_for_def)
qed

lemma command_for_simps [simp]:
  "fc_id (command_for i run step key nonce f) = i" "fc_run (command_for i run step key nonce f) = run"
  "fc_step (command_for i run step key nonce f) = step" "fc_key (command_for i run step key nonce f) = key"
  "fc_nonce (command_for i run step key nonce f) = nonce" "fc_fence (command_for i run step key nonce f) = f"
  "fc_plan (command_for i run step key nonce f) = replicate 64 (CHR ''0'')"
  by (simp_all add: command_for_def)

text \<open>Findings.\<close>

text \<open>
  A lock taken under epoch 5 accepts a fence of epoch 3 and refuses one of epoch 6: the comparison
  of \<open>is_authorised_by\<close> is the wrong way round.
\<close>

lemma older_fence_authorised:
  "is_authorised_by r f \<longleftrightarrow> same_scope (rv_fence r) f \<and> ft_epoch f \<le> ft_epoch (rv_fence r)"
  by (simp add: is_authorised_by_def is_at_least_def)

text \<open>
  \<open>_ReservationTable.with_\<close> replaces the holder by whatever came last, an expired lock or a
  clashing claim included: two live locks of two owners on one resource, and no clash is reported.
\<close>

definition demo_lock :: "string \<Rightarrow> instant \<Rightarrow> Reservation" where
  "demo_lock step acquired =
     \<lparr>rv_resource = ''db'', rv_run = ''r'', rv_step = step, rv_holder = ''agent'',
      rv_fence = \<lparr>ft_run = ''r'', ft_step = step, ft_holder = ''agent'', ft_epoch = 1, ft_issued = 0, ft_supersedes = None\<rparr>,
      rv_ttl = 10, rv_acquired = acquired\<rparr>"

lemma clash_hidden_by_expired_lock:
  "reservation_conflicts [demo_lock ''a'' 95, demo_lock ''a'' 0, demo_lock ''b'' 95] 100 = []
   \<and> conflicts_with (demo_lock ''a'' 95) (demo_lock ''b'' 95) 100"
  by code_simp

text \<open>A wait of a million seconds: its deadline is dumped as \<open>1e+06s\<close>, which is not a duration.\<close>

lemma long_wait_refused:
  assumes "sp_semantic s = SEM_WAIT" "sp_timeout s = Some t" "10 ^ 12 \<le> t"
  shows "\<exists>e. step_validate fl s = Inl e"
proof -
  have "\<not> meaningful s (sp_semantic s)"
    using assms dump_duration_long [of t] by (simp add: usable_deadline_def)
  then show ?thesis using step_validate_Inr_iff by (cases "step_validate fl s") auto
qed

end
