(* ===== verification/Leader_Election.thy ===== *)
theory Leader_Election
  imports Fabric_Command
begin

text \<open>
  \<open>controller/leader_election.py\<close>: leadership as a lease with a term, fences per step (the
  tokens and the envelope are those of \<open>Fabric_Command\<close>), and the only door to a dispatch. The store port is the locale
  \<open>leadership_store\<close>; the SQLite binding interprets it. Controllers interleave between store
  operations, each of which is one transaction.
\<close>

section \<open>Leases, steps, the store port\<close>

record LeaderLease =
  ll_scope :: string
  ll_term :: int
  ll_leader :: string
  ll_acquired :: instant
  ll_expires :: instant

definition lease_is_expired_at :: "LeaderLease \<Rightarrow> instant \<Rightarrow> bool" where
  "lease_is_expired_at l moment \<longleftrightarrow> moment \<ge> ll_expires l"

record DispatchedStep =
  ds_fence :: FencingToken
  ds_command :: string
  ds_at :: "instant option"

definition dispatched :: "DispatchedStep \<Rightarrow> bool" where
  "dispatched d \<longleftrightarrow> ds_command d \<noteq> []"

datatype election_error =
    LeadershipRefused LeaderLease
  | LeaderNotCurrent
  | StepAlreadyDispatched int string bool
  | Domain py_error

record 's store_ops =
  load_lease :: "'s \<Rightarrow> string \<Rightarrow> LeaderLease option"
  claim :: "bool \<Rightarrow> LeaderLease \<Rightarrow> 's \<Rightarrow> election_error + 's"
  load_step :: "'s \<Rightarrow> string \<times> string \<Rightarrow> DispatchedStep option"
  record_mint :: "string \<times> string \<Rightarrow> FencingToken \<Rightarrow> 's \<Rightarrow> election_error + 's"
  record_dispatch :: "FabricCommand \<Rightarrow> instant \<Rightarrow> 's \<Rightarrow> election_error + (DispatchedStep \<times> 's)"

section \<open>The SQLite binding\<close>

text \<open>
  The two tables, keyed by their primary keys; a timestamp survives its ISO text unchanged. Each
  method is one write transaction; a raise rolls it back.
\<close>

record LeaderTables =
  tbl_leaders :: "string \<Rightarrow> LeaderLease option"
  tbl_fences :: "string \<times> string \<Rightarrow> DispatchedStep option"

definition sqlite_claim :: "bool \<Rightarrow> LeaderLease \<Rightarrow> LeaderTables \<Rightarrow> election_error + LeaderTables" where
  "sqlite_claim force lease s =
     (case tbl_leaders s (ll_scope lease) of
        None \<Rightarrow> Inr (s\<lparr>tbl_leaders := (tbl_leaders s)(ll_scope lease \<mapsto> lease)\<rparr>)
      | Some current \<Rightarrow>
          if \<not> lease_is_expired_at current (ll_acquired lease) \<and> ll_leader current \<noteq> ll_leader lease \<and> \<not> force
          then Inl (LeadershipRefused current)
          else if ll_term current \<ge> ll_term lease then Inl (LeadershipRefused current)
          else Inr (s\<lparr>tbl_leaders := (tbl_leaders s)(ll_scope lease \<mapsto> lease)\<rparr>))"

definition sqlite_record_mint ::
  "string \<times> string \<Rightarrow> FencingToken \<Rightarrow> LeaderTables \<Rightarrow> election_error + LeaderTables" where
  "sqlite_record_mint key fence s =
     (if (ft_run fence, ft_step fence) \<noteq> key then Inl (Domain (InvariantViolation ''leadership.fence_scope''))
      else if (case tbl_fences s key of None \<Rightarrow> False | Some cur \<Rightarrow> \<not> is_after fence (ds_fence cur))
      then Inl (Domain (InvariantViolation ''leadership.fence_not_newer''))
      else Inr (s\<lparr>tbl_fences := (tbl_fences s)(key \<mapsto> \<lparr>ds_fence = fence, ds_command = [], ds_at = None\<rparr>)\<rparr>))"

definition spent :: "FabricCommand \<Rightarrow> instant \<Rightarrow> DispatchedStep" where
  "spent c tm = \<lparr>ds_fence = fc_fence c, ds_command = fc_id c, ds_at = Some tm\<rparr>"

definition sqlite_record_dispatch ::
  "FabricCommand \<Rightarrow> instant \<Rightarrow> LeaderTables \<Rightarrow> election_error + (DispatchedStep \<times> LeaderTables)" where
  "sqlite_record_dispatch c tm s =
     (let key = (fc_run c, fc_step c);
          write = Inr (spent c tm, s\<lparr>tbl_fences := (tbl_fences s)(key \<mapsto> spent c tm)\<rparr>)
      in case tbl_fences s key of
        None \<Rightarrow> write
      | Some current \<Rightarrow>
          if ds_command current = fc_id c then Inr (current, s)
          else if ft_epoch (fc_fence c) \<le> ft_epoch (ds_fence current)
                  \<and> \<not> (ft_epoch (fc_fence c) = ft_epoch (ds_fence current) \<and> \<not> dispatched current)
          then Inl (StepAlreadyDispatched (ft_epoch (ds_fence current)) (ds_command current) (\<not> dispatched current))
          else write)"

definition sqlite_ops :: "LeaderTables store_ops" where
  "sqlite_ops = \<lparr>load_lease = tbl_leaders, claim = sqlite_claim, load_step = tbl_fences,
                 record_mint = sqlite_record_mint, record_dispatch = sqlite_record_dispatch\<rparr>"

definition empty_tables :: LeaderTables where
  "empty_tables = \<lparr>tbl_leaders = (\<lambda>_. None), tbl_fences = (\<lambda>_. None)\<rparr>"

section \<open>The election\<close>

definition election_validate :: "string \<Rightarrow> duration \<Rightarrow> py_error + unit" where
  "election_validate controller ttl =
     (if ttl \<le> 0 then Inl (InvariantViolation ''leadership.ttl'')
      else if py_strip controller = [] then Inl (InvariantViolation ''leadership.controller_id'')
      else Inr ())"

definition is_leader :: "'s store_ops \<Rightarrow> LeaderLease \<Rightarrow> instant \<Rightarrow> 's \<Rightarrow> bool" where
  "is_leader ops lease now s \<longleftrightarrow>
     (case load_lease ops s (ll_scope lease) of
        None \<Rightarrow> False
      | Some stored \<Rightarrow> ll_leader stored = ll_leader lease \<and> ll_term stored = ll_term lease
                       \<and> \<not> lease_is_expired_at lease now)"

definition require_leader :: "'s store_ops \<Rightarrow> LeaderLease \<Rightarrow> instant \<Rightarrow> 's \<Rightarrow> election_error + LeaderLease" where
  "require_leader ops lease now s =
     (case load_lease ops s (ll_scope lease) of
        None \<Rightarrow> Inl LeaderNotCurrent
      | Some stored \<Rightarrow>
          if ll_term stored \<noteq> ll_term lease then Inl LeaderNotCurrent
          else if ll_leader stored \<noteq> ll_leader lease then Inl LeaderNotCurrent
          else if lease_is_expired_at lease now then Inl LeaderNotCurrent
          else Inr stored)"

definition campaign ::
  "'s store_ops \<Rightarrow> string \<Rightarrow> string \<Rightarrow> duration \<Rightarrow> bool \<Rightarrow> instant \<Rightarrow> 's \<Rightarrow> election_error + (LeaderLease \<times> 's)" where
  "campaign ops controller scope ttl force now s =
     (let next_term = (case load_lease ops s scope of None \<Rightarrow> 1 | Some stored \<Rightarrow> ll_term stored + 1);
          lease = \<lparr>ll_scope = scope, ll_term = next_term, ll_leader = controller, ll_acquired = now,
                   ll_expires = now + ttl\<rparr>
      in case claim ops force lease s of Inl e \<Rightarrow> Inl e | Inr s' \<Rightarrow> Inr (lease, s'))"

definition fence_for ::
  "'s store_ops \<Rightarrow> LeaderLease \<Rightarrow> string \<times> string \<Rightarrow> string \<Rightarrow> instant \<Rightarrow> 's
     \<Rightarrow> election_error + (FencingToken \<times> 's)" where
  "fence_for ops lease key holder now s =
     (case require_leader ops lease now s of
        Inl e \<Rightarrow> Inl e
      | Inr _ \<Rightarrow>
          (case (case load_step ops s key of
                   Some recorded \<Rightarrow> next_fence (ds_fence recorded) holder now
                 | None \<Rightarrow> fence_issue (fst key) (snd key) holder now) of
             Inl e \<Rightarrow> Inl (Domain e)
           | Inr fence \<Rightarrow>
               (case record_mint ops key fence s of Inl e \<Rightarrow> Inl e | Inr s' \<Rightarrow> Inr (fence, s'))))"

definition dispatch ::
  "'s store_ops \<Rightarrow> (FabricCommand \<Rightarrow> 'r) \<Rightarrow> LeaderLease \<Rightarrow> FabricCommand \<Rightarrow> instant \<Rightarrow> 's
     \<Rightarrow> election_error + ('r \<times> 's)" where
  "dispatch ops dispatcher lease c now s =
     (case require_leader ops lease now s of
        Inl e \<Rightarrow> Inl e
      | Inr _ \<Rightarrow>
          (case record_dispatch ops c now s of
             Inl e \<Rightarrow> Inl e
           | Inr (d, s') \<Rightarrow> Inr (dispatcher c, s')))"

section \<open>What the election needs of a store\<close>

locale leadership_store =
  fixes ops :: "'s store_ops"
  assumes claim_stores: "claim ops force l s = Inr s' \<Longrightarrow>
      load_lease ops s' = (load_lease ops s)(ll_scope l \<mapsto> l) \<and> load_step ops s' = load_step ops s"
    and claim_compares: "claim ops force l s = Inr s' \<Longrightarrow> load_lease ops s (ll_scope l) = Some held \<Longrightarrow>
      ll_term held < ll_term l \<and> (force \<or> ll_leader held = ll_leader l \<or> lease_is_expired_at held (ll_acquired l))"
    and claim_succeeds: "(\<forall>held. load_lease ops s (ll_scope l) = Some held \<longrightarrow>
        ll_term held < ll_term l \<and> (force \<or> ll_leader held = ll_leader l \<or> lease_is_expired_at held (ll_acquired l)))
      \<Longrightarrow> \<exists>s'. claim ops force l s = Inr s'"
    and mint_stores: "record_mint ops key f s = Inr s' \<Longrightarrow>
      load_step ops s' = (load_step ops s)(key \<mapsto> \<lparr>ds_fence = f, ds_command = [], ds_at = None\<rparr>)
      \<and> load_lease ops s' = load_lease ops s"
    and mint_newer: "record_mint ops key f s = Inr s' \<Longrightarrow> load_step ops s key = Some cur \<Longrightarrow>
      ft_epoch (ds_fence cur) < ft_epoch f"
    and mint_succeeds: "(ft_run f, ft_step f) = key \<Longrightarrow>
      (\<forall>cur. load_step ops s key = Some cur \<longrightarrow> is_after f (ds_fence cur)) \<Longrightarrow> \<exists>s'. record_mint ops key f s = Inr s'"
    and dispatch_keeps: "record_dispatch ops c tm s = Inr (d, s') \<Longrightarrow>
      load_lease ops s' = load_lease ops s \<and> load_step ops s' = (load_step ops s)((fc_run c, fc_step c) \<mapsto> d)
      \<and> ds_command d = fc_id c"
    and dispatch_spends: "record_dispatch ops c tm s = Inr (d, s') \<Longrightarrow>
      load_step ops s (fc_run c, fc_step c) = Some cur \<Longrightarrow>
      d = cur \<or> (ds_command cur \<noteq> fc_id c \<and> d = spent c tm \<and>
        (ft_epoch (ds_fence cur) < ft_epoch (ds_fence d)
         \<or> (ft_epoch (ds_fence cur) = ft_epoch (ds_fence d) \<and> \<not> dispatched cur)))"
    and dispatch_succeeds: "(\<forall>cur. load_step ops s (fc_run c, fc_step c) = Some cur \<longrightarrow>
        ft_epoch (ds_fence cur) < ft_epoch (fc_fence c)
        \<or> (ft_epoch (ds_fence cur) = ft_epoch (fc_fence c) \<and> \<not> dispatched cur)) \<Longrightarrow>
      \<exists>d s'. record_dispatch ops c tm s = Inr (d, s') \<and> ds_command d = fc_id c"
begin

lemma require_leader_iff:
  "(\<exists>x. require_leader ops l now s = Inr x) \<longleftrightarrow> is_leader ops l now s"
  by (auto simp: require_leader_def is_leader_def split: option.splits)

lemma campaign_installs:
  assumes "campaign ops c sc ttl force now s = Inr (l, s')"
  shows "load_lease ops s' = (load_lease ops s)(sc \<mapsto> l)" "load_step ops s' = load_step ops s"
    and "ll_scope l = sc" "ll_leader l = c" "ll_acquired l = now" "ll_expires l = now + ttl"
    and "load_lease ops s sc = Some cur \<Longrightarrow> ll_term l = ll_term cur + 1
           \<and> (force \<or> ll_leader cur = c \<or> lease_is_expired_at cur now)"
    and "load_lease ops s sc = None \<Longrightarrow> ll_term l = 1"
  using assms claim_stores claim_compares
  by (force simp: campaign_def Let_def split: sum.splits option.splits)+

end

section \<open>Several controllers\<close>

text \<open>
  The controllers share the store. A dispatch is two steps of the system, the check of the lease and
  the transaction that spends the epoch followed by the call of the dispatcher, so anything may
  happen in between. A refused call leaves the world as it was. Leases are the ones campaigns
  returned; \<open>w_log\<close> lists the effects: what the store recorded and the command sent.
\<close>

datatype election_event =
    Campaign string string duration bool instant
  | Mint LeaderLease "string \<times> string" string instant
  | Check LeaderLease FabricCommand instant
  | Effect LeaderLease FabricCommand instant

record 's world =
  w_store :: 's
  w_leases :: "(bool \<times> LeaderLease) list"
  w_cleared :: "(LeaderLease \<times> FabricCommand) list"
  w_log :: "(DispatchedStep \<times> FabricCommand) list"

fun world_step :: "'s store_ops \<Rightarrow> election_event \<Rightarrow> 's world \<Rightarrow> 's world" where
  "world_step ops (Campaign c sc ttl force now) w =
     (case election_validate c ttl of Inl _ \<Rightarrow> w
      | Inr _ \<Rightarrow>
          (case campaign ops c sc ttl force now (w_store w) of Inl _ \<Rightarrow> w
           | Inr (l, s') \<Rightarrow> w\<lparr>w_store := s', w_leases := w_leases w @ [(force, l)]\<rparr>))"
| "world_step ops (Mint l key holder now) w =
     (if l \<notin> snd ` set (w_leases w) then w
      else case fence_for ops l key holder now (w_store w) of Inl _ \<Rightarrow> w
           | Inr (f, s') \<Rightarrow> w\<lparr>w_store := s'\<rparr>)"
| "world_step ops (Check l c now) w =
     (if l \<notin> snd ` set (w_leases w) \<or> \<not> command_ok c then w
      else case require_leader ops l now (w_store w) of Inl _ \<Rightarrow> w
           | Inr _ \<Rightarrow> w\<lparr>w_cleared := (l, c) # w_cleared w\<rparr>)"
| "world_step ops (Effect l c now) w =
     (if (l, c) \<notin> set (w_cleared w) then w
      else case record_dispatch ops c now (w_store w) of Inl _ \<Rightarrow> w
           | Inr (d, s') \<Rightarrow> w\<lparr>w_store := s', w_log := w_log w @ [(d, c)]\<rparr>)"

definition start_world :: "'s \<Rightarrow> 's world" where
  "start_world s = \<lparr>w_store = s, w_leases = [], w_cleared = [], w_log = []\<rparr>"

inductive reachable :: "'s store_ops \<Rightarrow> 's \<Rightarrow> 's world \<Rightarrow> bool" for ops s where
  start: "reachable ops s (start_world s)"
| step: "reachable ops s w \<Longrightarrow> reachable ops s (world_step ops ev w)"

definition held_in :: "string \<Rightarrow> 's world \<Rightarrow> (bool \<times> LeaderLease) list" where
  "held_in sc w = filter (\<lambda>x. ll_scope (snd x) = sc) (w_leases w)"

definition step_key :: "FabricCommand \<Rightarrow> string \<times> string" where
  "step_key c = (fc_run c, fc_step c)"

definition effects_on :: "string \<times> string \<Rightarrow> 's world \<Rightarrow> (DispatchedStep \<times> FabricCommand) list" where
  "effects_on key w = filter (\<lambda>x. step_key (snd x) = key) (w_log w)"

text \<open>The epoch the store recorded for an effect; two effects of one epoch are one command's.\<close>

definition spent_epoch :: "DispatchedStep \<times> FabricCommand \<Rightarrow> int" where
  "spent_epoch x = ft_epoch (ds_fence (fst x))"

definition no_double :: "DispatchedStep \<times> FabricCommand \<Rightarrow> DispatchedStep \<times> FabricCommand \<Rightarrow> bool" where
  "no_double x y \<longleftrightarrow> spent_epoch x \<le> spent_epoch y
     \<and> (spent_epoch x = spent_epoch y \<longrightarrow> fc_id (snd x) = fc_id (snd y))"

definition handed_over :: "bool \<times> LeaderLease \<Rightarrow> bool \<times> LeaderLease \<Rightarrow> bool" where
  "handed_over x y \<longleftrightarrow> ll_term (snd x) < ll_term (snd y)
     \<and> (fst y \<or> ll_leader (snd x) = ll_leader (snd y) \<or> ll_expires (snd x) \<le> ll_acquired (snd y))"

definition leases_ok :: "'s store_ops \<Rightarrow> 's world \<Rightarrow> bool" where
  "leases_ok ops w \<longleftrightarrow> (\<forall>sc. successively handed_over (held_in sc w)
     \<and> load_lease ops (w_store w) sc = (if held_in sc w = [] then None else Some (snd (last (held_in sc w)))))"

definition log_ok :: "'s store_ops \<Rightarrow> 's world \<Rightarrow> bool" where
  "log_ok ops w \<longleftrightarrow> (\<forall>key. sorted_wrt no_double (effects_on key w)
     \<and> (\<forall>x\<in>set (effects_on key w). fc_id (snd x) \<noteq> [] \<and>
          (\<exists>cur. load_step ops (w_store w) key = Some cur
             \<and> spent_epoch x \<le> ft_epoch (ds_fence cur)
             \<and> (spent_epoch x = ft_epoch (ds_fence cur) \<longrightarrow> fc_id (snd x) = ds_command cur))))"

context leadership_store
begin

lemma fence_for_mints:
  assumes "fence_for ops l key h now s = Inr (f, s')"
  shows "record_mint ops key f s = Inr s'"
  using assms by (auto simp: fence_for_def split: sum.splits option.splits)

lemma leases_ok_step:
  assumes "leases_ok ops w"
  shows "leases_ok ops (world_step ops ev w)"
proof (cases ev)
  case (Campaign c sc ttl force now)
  show ?thesis
  proof (cases "world_step ops ev w = w")
    case False
    then obtain l s' where l: "campaign ops c sc ttl force now (w_store w) = Inr (l, s')"
      and w': "world_step ops ev w = w\<lparr>w_store := s', w_leases := w_leases w @ [(force, l)]\<rparr>"
      using Campaign by (auto split: sum.splits)
    note i = campaign_installs [OF l]
    have held: "held_in k (world_step ops ev w) = held_in k w @ (if k = sc then [(force, l)] else [])" for k
      by (simp add: w' held_in_def i(3))
    have "successively handed_over (held_in sc w @ [(force, l)])"
    proof (cases "held_in sc w = []")
      case False
      then have "load_lease ops (w_store w) sc = Some (snd (last (held_in sc w)))"
        using assms by (simp add: leases_ok_def)
      from i(7) [OF this] have "handed_over (last (held_in sc w)) (force, l)"
        using i(4,5) by (auto simp: handed_over_def lease_is_expired_at_def)
      then show ?thesis using assms False by (simp add: successively_append_iff leases_ok_def)
    qed simp
    then show ?thesis using assms unfolding leases_ok_def held by (simp add: w' i(1))
  qed (simp add: assms)
next
  case (Mint l key h now)
  then show ?thesis using assms
    by (auto simp: leases_ok_def held_in_def dest!: fence_for_mints mint_stores split: sum.splits)
next
  case (Check l c now)
  then show ?thesis using assms by (auto simp: leases_ok_def held_in_def split: sum.splits)
next
  case (Effect l c now)
  then show ?thesis using assms
    by (auto simp: leases_ok_def held_in_def dest!: dispatch_keeps split: sum.splits)
qed

lemma log_ok_step:
  assumes ok: "log_ok ops w" and cleared: "\<forall>x\<in>set (w_cleared w). command_ok (snd x)"
  shows "log_ok ops (world_step ops ev w)"
proof (cases ev)
  case (Campaign c sc ttl force now)
  then show ?thesis using ok
    by (auto simp: log_ok_def effects_on_def campaign_installs(2) split: sum.splits)
next
  case (Check l c now)
  then show ?thesis using ok by (auto simp: log_ok_def effects_on_def split: sum.splits)
next
  case (Mint l key h now)
  show ?thesis
  proof (cases "world_step ops ev w = w")
    case False
    then obtain f s' where f: "fence_for ops l key h now (w_store w) = Inr (f, s')"
      and w': "world_step ops ev w = w\<lparr>w_store := s'\<rparr>"
      using Mint by (auto split: sum.splits if_splits)
    note m = fence_for_mints [OF f]
    have e: "effects_on k (world_step ops ev w) = effects_on k w" for k by (simp add: w' effects_on_def)
    show ?thesis unfolding log_ok_def e
    proof (intro allI conjI ballI)
      fix k x
      assume x: "x \<in> set (effects_on k w)"
      then obtain cur where c: "fc_id (snd x) \<noteq> []" "load_step ops (w_store w) k = Some cur"
        "spent_epoch x \<le> ft_epoch (ds_fence cur)"
        "spent_epoch x = ft_epoch (ds_fence cur) \<longrightarrow> fc_id (snd x) = ds_command cur"
        using ok unfolding log_ok_def by blast
      show "fc_id (snd x) \<noteq> []" by (rule c(1))
      show "\<exists>cur. load_step ops (w_store (world_step ops ev w)) k = Some cur
          \<and> spent_epoch x \<le> ft_epoch (ds_fence cur)
          \<and> (spent_epoch x = ft_epoch (ds_fence cur) \<longrightarrow> fc_id (snd x) = ds_command cur)"
        using c mint_stores [OF m] mint_newer [OF m] by (auto simp: w')
    qed (use ok in \<open>simp add: log_ok_def del: split_paired_All\<close>)
  qed (simp add: ok)
next
  case (Effect l c now)
  show ?thesis
  proof (cases "world_step ops ev w = w")
    case False
    then obtain d s' where d: "record_dispatch ops c now (w_store w) = Inr (d, s')" and lc: "(l, c) \<in> set (w_cleared w)"
      and w': "world_step ops ev w = w\<lparr>w_store := s', w_log := w_log w @ [(d, c)]\<rparr>"
      using Effect by (auto split: sum.splits if_splits)
    have id: "fc_id c \<noteq> []" using cleared lc by (auto simp: command_ok_iff command_fields_ok_def valid_ident_def)
    note k = dispatch_keeps [OF d]
    have e: "effects_on key (world_step ops ev w) = effects_on key w @ (if key = step_key c then [(d, c)] else [])" for key
      by (simp add: w' effects_on_def)
    have srt: "sorted_wrt no_double (effects_on k w)" for k using ok unfolding log_ok_def by blast
    have old: "fc_id (snd x) \<noteq> [] \<and> (\<exists>cur. load_step ops (w_store w) k = Some cur
        \<and> spent_epoch x \<le> ft_epoch (ds_fence cur)
        \<and> (spent_epoch x = ft_epoch (ds_fence cur) \<longrightarrow> fc_id (snd x) = ds_command cur))"
      if "x \<in> set (effects_on k w)" for k x using ok that unfolding log_ok_def by blast
    have new: "no_double x (d, c)" if x: "x \<in> set (effects_on (step_key c) w)" for x
    proof -
      obtain cur where cu: "fc_id (snd x) \<noteq> []" "load_step ops (w_store w) (step_key c) = Some cur"
        "spent_epoch x \<le> ft_epoch (ds_fence cur)"
        "spent_epoch x = ft_epoch (ds_fence cur) \<longrightarrow> fc_id (snd x) = ds_command cur"
        using ok x unfolding log_ok_def by blast
      from dispatch_spends [OF d, of cur] cu show ?thesis
        using k by (auto simp: no_double_def spent_epoch_def dispatched_def step_key_def)
    qed
    show ?thesis unfolding log_ok_def e
    proof (intro allI conjI ballI)
      fix key
      show "sorted_wrt no_double (effects_on key w @ (if key = step_key c then [(d, c)] else []))"
        using srt [of key] new by (auto simp: sorted_wrt_append)
    next
      fix key x
      assume x: "x \<in> set (effects_on key w @ (if key = step_key c then [(d, c)] else []))"
      then consider "key = step_key c" "x = (d, c)" | "x \<in> set (effects_on key w)" by (auto split: if_splits)
      then have "fc_id (snd x) \<noteq> [] \<and> (\<exists>cur. load_step ops (w_store (world_step ops ev w)) key = Some cur
          \<and> spent_epoch x \<le> ft_epoch (ds_fence cur)
          \<and> (spent_epoch x = ft_epoch (ds_fence cur) \<longrightarrow> fc_id (snd x) = ds_command cur))"
      proof cases
        case 1
        then show ?thesis using id k by (simp add: w' step_key_def spent_epoch_def)
      next
        case 2
        show ?thesis
        proof (cases "key = step_key c")
          case True
          then show ?thesis using new [of x] old [OF 2] 2 k
            by (auto simp: w' step_key_def no_double_def spent_epoch_def)
        next
          case False
          then show ?thesis using old [OF 2] k by (auto simp: w' step_key_def)
        qed
      qed
      then show "fc_id (snd x) \<noteq> []" "\<exists>cur. load_step ops (w_store (world_step ops ev w)) key = Some cur
          \<and> spent_epoch x \<le> ft_epoch (ds_fence cur)
          \<and> (spent_epoch x = ft_epoch (ds_fence cur) \<longrightarrow> fc_id (snd x) = ds_command cur)"
        by blast+
    qed
  qed (simp add: ok)
qed

lemma cleared_step:
  "\<forall>x\<in>set (w_cleared w). command_ok (snd x) \<Longrightarrow> \<forall>x\<in>set (w_cleared (world_step ops ev w)). command_ok (snd x)"
  by (cases ev) (auto split: sum.splits)

lemma reachable_ok:
  assumes "reachable ops s w" "\<And>sc. load_lease ops s sc = None"
  shows "leases_ok ops w" "log_ok ops w" "\<forall>x\<in>set (w_cleared w). command_ok (snd x)"
  using assms
proof (induction rule: reachable.induct)
  case start
  { case 1 then show ?case by (simp add: leases_ok_def start_world_def held_in_def) }
  { case 2 then show ?case by (simp add: log_ok_def start_world_def effects_on_def) }
  { case 3 then show ?case by (simp add: start_world_def) }
next
  case (step w ev)
  { case 1 then show ?case using step leases_ok_step by blast }
  { case 2 then show ?case using step log_ok_step by blast }
  { case 3 then show ?case using step cleared_step by blast }
qed

lemma held_ordered:
  assumes "leases_ok ops w"
  shows "sorted_wrt (\<lambda>x y. ll_term (snd x) < ll_term (snd y)) (held_in sc w)"
proof -
  have "successively (\<lambda>x y. ll_term (snd x) < ll_term (snd y)) (held_in sc w)"
    using assms unfolding leases_ok_def by (meson handed_over_def successively_mono)
  then show ?thesis by (subst (asm) successively_conv_sorted_wrt) (auto simp: transp_def)
qed

lemma only_last_leads:
  assumes ok: "leases_ok ops w" and i: "i < j" "j < length (held_in sc w)"
  shows "\<not> is_leader ops (snd (held_in sc w ! i)) now (w_store w)"
proof -
  let ?h = "held_in sc w"
  have ne: "?h \<noteq> []" using i by auto
  have "ll_scope (snd (?h ! i)) = sc"
  proof -
    have "?h ! i \<in> set ?h" using i by simp
    then show ?thesis by (simp add: held_in_def)
  qed
  moreover have "load_lease ops (w_store w) sc = Some (snd (last ?h))" using ok ne by (simp add: leases_ok_def)
  moreover have "ll_term (snd (?h ! i)) < ll_term (snd (last ?h))"
  proof -
    have "i < length ?h - 1" "length ?h - 1 < length ?h" using i by auto
    then show ?thesis using held_ordered [OF ok, of sc] unfolding sorted_wrt_iff_nth_less last_conv_nth [OF ne] by blast
  qed
  ultimately show ?thesis by (simp add: is_leader_def)
qed

text \<open>A takeover from any expired or absent lease, through to the first effect.\<close>

lemma takeover:
  assumes "\<forall>cur. load_lease ops s sc = Some cur \<longrightarrow> lease_is_expired_at cur now" "0 < ttl" "now \<le> t" "t < now + ttl"
    and key: "valid_ident (fst key)" "valid_ident (snd key)" "valid_ident h"
    and slot: "\<forall>cur. load_step ops s key = Some cur \<longrightarrow> (ft_run (ds_fence cur), ft_step (ds_fence cur)) = key
                  \<and> 1 \<le> ft_epoch (ds_fence cur)"
    and cmd: "step_key c = key"
  shows "\<exists>l s1 f s2. campaign ops me sc ttl False now s = Inr (l, s1) \<and> fence_for ops l key h t s1 = Inr (f, s2)
    \<and> (\<forall>cur. load_step ops s key = Some cur \<longrightarrow> is_after f (ds_fence cur))
    \<and> (\<exists>s3. dispatch ops run l (c\<lparr>fc_fence := f\<rparr>) t s2 = Inr (run (c\<lparr>fc_fence := f\<rparr>), s3))"
proof -
  define l where "l = \<lparr>ll_scope = sc, ll_term = (case load_lease ops s sc of None \<Rightarrow> 1 | Some x \<Rightarrow> ll_term x + 1),
    ll_leader = me, ll_acquired = now, ll_expires = now + ttl\<rparr>"
  have "\<exists>s1. claim ops False l s = Inr s1"
    by (rule claim_succeeds) (use assms(1) in \<open>auto simp: l_def\<close>)
  then obtain s1 where s1: "claim ops False l s = Inr s1" by blast
  then have camp: "campaign ops me sc ttl False now s = Inr (l, s1)" by (simp add: campaign_def l_def Let_def)
  note st = claim_stores [OF s1]
  have lead: "require_leader ops l t s1 = Inr l"
    using st assms(4) by (simp add: require_leader_def l_def lease_is_expired_at_def)
  define f where "f = (case load_step ops s key of
      None \<Rightarrow> \<lparr>ft_run = fst key, ft_step = snd key, ft_holder = h, ft_epoch = 1, ft_issued = t, ft_supersedes = None\<rparr>
    | Some r \<Rightarrow> \<lparr>ft_run = fst key, ft_step = snd key, ft_holder = h, ft_epoch = ft_epoch (ds_fence r) + 1,
                 ft_issued = t, ft_supersedes = Some (ft_epoch (ds_fence r))\<rparr>)"
  have scope: "(ft_run f, ft_step f) = key" by (cases key) (simp add: f_def split: option.splits)
  have after: "\<forall>cur. load_step ops s key = Some cur \<longrightarrow> is_after f (ds_fence cur)"
    using slot by (auto simp: f_def is_after_def same_scope_def)
  then obtain s2 where s2: "record_mint ops key f s1 = Inr s2"
    using mint_succeeds [OF scope, of s1] st by auto
  have valid: "fence_validate f = Inr f"
    using key slot by (auto simp: fence_validate_def f_def split: option.splits)
  have mint: "fence_for ops l key h t s1 = Inr (f, s2)"
  proof (cases "load_step ops s key")
    case None
    then have "fence_issue (fst key) (snd key) h t = Inr f"
      using valid by (simp add: fence_issue_def f_def)
    then show ?thesis using None lead st s2 by (simp add: fence_for_def)
  next
    case (Some r)
    then have k: "(ft_run (ds_fence r), ft_step (ds_fence r)) = key" using slot by blast
    have "next_fence (ds_fence r) h t = fence_validate f"
      using Some k [symmetric] by (simp add: next_fence_def f_def)
    then show ?thesis using Some lead st s2 valid by (simp add: fence_for_def)
  qed
  have m: "load_step ops s2 key = Some \<lparr>ds_fence = f, ds_command = [], ds_at = None\<rparr>" "load_lease ops s2 = load_lease ops s1"
    using mint_stores [OF s2] by simp_all
  have lead2: "require_leader ops l t s2 = Inr l" using lead m(2) by (simp add: require_leader_def)
  have "\<exists>d s3. record_dispatch ops (c\<lparr>fc_fence := f\<rparr>) t s2 = Inr (d, s3) \<and> ds_command d = fc_id (c\<lparr>fc_fence := f\<rparr>)"
    by (rule dispatch_succeeds) (use m(1) cmd in \<open>auto simp: step_key_def dispatched_def\<close>)
  then obtain d s3 where "record_dispatch ops (c\<lparr>fc_fence := f\<rparr>) t s2 = Inr (d, s3)" by blast
  then have "dispatch ops run l (c\<lparr>fc_fence := f\<rparr>) t s2 = Inr (run (c\<lparr>fc_fence := f\<rparr>), s3)"
    using lead2 by (simp add: dispatch_def)
  then show ?thesis using camp mint after by blast
qed

end

interpretation sqlite: leadership_store sqlite_ops
  by unfold_locales
    (auto simp: sqlite_ops_def sqlite_claim_def sqlite_record_mint_def sqlite_record_dispatch_def spent_def
      is_after_def dispatched_def Let_def split: option.splits if_splits)

lemma reachable_fold: "reachable ops s w \<Longrightarrow> reachable ops s (fold (world_step ops) evs w)"
  by (induction evs arbitrary: w) (auto intro: reachable.step)

lemma sqlite_empty: "load_lease sqlite_ops empty_tables sc = None"
  by (simp add: sqlite_ops_def empty_tables_def)

section \<open>Properties\<close>


definition demo_leader :: "string \<Rightarrow> int \<Rightarrow> instant \<Rightarrow> LeaderLease" where
  "demo_leader c term now = \<lparr>ll_scope = ''cp'', ll_term = term, ll_leader = c, ll_acquired = now, ll_expires = now + 10\<rparr>"

definition demo_fence :: "int \<Rightarrow> instant \<Rightarrow> FencingToken" where
  "demo_fence e now = \<lparr>ft_run = ''r'', ft_step = ''s'', ft_holder = ''agent'', ft_epoch = e, ft_issued = now,
     ft_supersedes = (if e = 1 then None else Some (e - 1))\<rparr>"

definition demo_command :: "string \<Rightarrow> FencingToken \<Rightarrow> FabricCommand" where
  "demo_command i f = command_for i ''r'' ''s'' ''k'' (replicate 32 (CHR ''0'')) f"

text \<open>A is cleared, B takes over after A's expiry, A's effect still lands, then B's.\<close>

definition race_events :: "election_event list" where
  "race_events =
     [Campaign ''A'' ''cp'' 10 False 0, Mint (demo_leader ''A'' 1 0) (''r'', ''s'') ''agent'' 1,
      Check (demo_leader ''A'' 1 0) (demo_command ''a'' (demo_fence 1 1)) 2,
      Campaign ''B'' ''cp'' 10 False 20, Effect (demo_leader ''A'' 1 0) (demo_command ''a'' (demo_fence 1 1)) 21,
      Mint (demo_leader ''B'' 2 20) (''r'', ''s'') ''agent'' 22,
      Check (demo_leader ''B'' 2 20) (demo_command ''b'' (demo_fence 2 22)) 23,
      Effect (demo_leader ''B'' 2 20) (demo_command ''b'' (demo_fence 2 22)) 24]"

definition race_world :: "LeaderTables world" where
  "race_world = fold (world_step sqlite_ops) race_events (start_world empty_tables)"

lemma demo_idents: "valid_ident ''r''" "valid_ident ''s''" "valid_ident ''agent''" "valid_ident ''a''" "valid_ident ''b''"
  "valid_ident ''k''" "valid_nonce (replicate 32 (CHR ''0''))"
  by code_simp+

lemma race_reachable: "reachable sqlite_ops empty_tables race_world"
  unfolding race_world_def by (intro reachable_fold reachable.start)

lemma race_log:
  "effects_on (''r'', ''s'') race_world =
     [(spent (demo_command ''a'' (demo_fence 1 1)) 21, demo_command ''a'' (demo_fence 1 1)),
      (spent (demo_command ''b'' (demo_fence 2 22)) 24, demo_command ''b'' (demo_fence 2 22))]"
  and race_leases: "w_leases race_world = [(False, demo_leader ''A'' 1 0), (False, demo_leader ''B'' 2 20)]"
proof -
  note eval = campaign_def fence_for_def require_leader_def fence_issue_def next_fence_def fence_validate_def
    sqlite_ops_def sqlite_claim_def sqlite_record_mint_def sqlite_record_dispatch_def lease_is_expired_at_def
    is_after_def same_scope_def dispatched_def spent_def demo_leader_def demo_fence_def demo_command_def
    command_for_ok demo_idents election_validate_def Let_def
  let ?A = "demo_leader ''A'' 1 0" and ?B = "demo_leader ''B'' 2 20"
  let ?a = "demo_command ''a'' (demo_fence 1 1)" and ?b = "demo_command ''b'' (demo_fence 2 22)"
  let ?T = "\<lambda>l d. \<lparr>tbl_leaders = [''cp'' \<mapsto> l], tbl_fences = [(''r'', ''s'') \<mapsto> d]\<rparr>"
  let ?m = "\<lambda>f. \<lparr>ds_fence = f, ds_command = [], ds_at = None\<rparr>"
  have strip: "py_strip ''A'' \<noteq> []" "py_strip ''B'' \<noteq> []" by code_simp+
  have 1: "world_step sqlite_ops (Campaign ''A'' ''cp'' 10 False 0) (start_world empty_tables)
    = \<lparr>w_store = \<lparr>tbl_leaders = [''cp'' \<mapsto> ?A], tbl_fences = Map.empty\<rparr>, w_leases = [(False, ?A)], w_cleared = [], w_log = []\<rparr>"
    by (simp add: eval strip start_world_def empty_tables_def)
  have 2: "world_step sqlite_ops (Mint ?A (''r'', ''s'') ''agent'' 1)
      \<lparr>w_store = \<lparr>tbl_leaders = [''cp'' \<mapsto> ?A], tbl_fences = Map.empty\<rparr>, w_leases = [(False, ?A)], w_cleared = [], w_log = []\<rparr>
    = \<lparr>w_store = ?T ?A (?m (demo_fence 1 1)), w_leases = [(False, ?A)], w_cleared = [], w_log = []\<rparr>"
    by (simp add: eval)
  have 3: "world_step sqlite_ops (Check ?A ?a 2)
      \<lparr>w_store = ?T ?A (?m (demo_fence 1 1)), w_leases = [(False, ?A)], w_cleared = [], w_log = []\<rparr>
    = \<lparr>w_store = ?T ?A (?m (demo_fence 1 1)), w_leases = [(False, ?A)], w_cleared = [(?A, ?a)], w_log = []\<rparr>"
    by (simp add: eval)
  have 4: "world_step sqlite_ops (Campaign ''B'' ''cp'' 10 False 20)
      \<lparr>w_store = ?T ?A (?m (demo_fence 1 1)), w_leases = [(False, ?A)], w_cleared = [(?A, ?a)], w_log = []\<rparr>
    = \<lparr>w_store = ?T ?B (?m (demo_fence 1 1)), w_leases = [(False, ?A), (False, ?B)], w_cleared = [(?A, ?a)], w_log = []\<rparr>"
    by (simp add: eval strip)
  have 5: "world_step sqlite_ops (Effect ?A ?a 21)
      \<lparr>w_store = ?T ?B (?m (demo_fence 1 1)), w_leases = [(False, ?A), (False, ?B)], w_cleared = [(?A, ?a)], w_log = []\<rparr>
    = \<lparr>w_store = ?T ?B (spent ?a 21), w_leases = [(False, ?A), (False, ?B)], w_cleared = [(?A, ?a)],
       w_log = [(spent ?a 21, ?a)]\<rparr>"
    by (simp add: eval)
  have 6: "world_step sqlite_ops (Mint ?B (''r'', ''s'') ''agent'' 22)
      \<lparr>w_store = ?T ?B (spent ?a 21), w_leases = [(False, ?A), (False, ?B)], w_cleared = [(?A, ?a)],
       w_log = [(spent ?a 21, ?a)]\<rparr>
    = \<lparr>w_store = ?T ?B (?m (demo_fence 2 22)), w_leases = [(False, ?A), (False, ?B)], w_cleared = [(?A, ?a)],
       w_log = [(spent ?a 21, ?a)]\<rparr>"
    by (simp add: eval)
  have 7: "world_step sqlite_ops (Check ?B ?b 23)
      \<lparr>w_store = ?T ?B (?m (demo_fence 2 22)), w_leases = [(False, ?A), (False, ?B)], w_cleared = [(?A, ?a)],
       w_log = [(spent ?a 21, ?a)]\<rparr>
    = \<lparr>w_store = ?T ?B (?m (demo_fence 2 22)), w_leases = [(False, ?A), (False, ?B)], w_cleared = [(?B, ?b), (?A, ?a)],
       w_log = [(spent ?a 21, ?a)]\<rparr>"
    by (simp add: eval)
  have 8: "world_step sqlite_ops (Effect ?B ?b 24)
      \<lparr>w_store = ?T ?B (?m (demo_fence 2 22)), w_leases = [(False, ?A), (False, ?B)], w_cleared = [(?B, ?b), (?A, ?a)],
       w_log = [(spent ?a 21, ?a)]\<rparr>
    = \<lparr>w_store = ?T ?B (spent ?b 24), w_leases = [(False, ?A), (False, ?B)], w_cleared = [(?B, ?b), (?A, ?a)],
       w_log = [(spent ?a 21, ?a), (spent ?b 24, ?b)]\<rparr>"
    by (simp add: eval)
  have w: "race_world = \<lparr>w_store = ?T ?B (spent ?b 24), w_leases = [(False, ?A), (False, ?B)],
      w_cleared = [(?B, ?b), (?A, ?a)], w_log = [(spent ?a 21, ?a), (spent ?b 24, ?b)]\<rparr>"
    unfolding race_world_def race_events_def fold.simps o_apply id_apply by (simp only: 1 2 3 4 5 6 7 8)
  show "effects_on (''r'', ''s'') race_world = [(spent ?a 21, ?a), (spent ?b 24, ?b)]"
    by (simp add: w effects_on_def step_key_def demo_command_def)
  show "w_leases race_world = [(False, ?A), (False, ?B)]" by (simp add: w)
qed


text \<open>
  A deposed leader is refused. In every reachable world the terms of a scope strictly increase,
  and once any later lease of the scope has been granted, to whomever, the earlier one is refused by
  every check, mint and dispatch at any time, expired or not; and unless the successor forced its
  way in, the earlier lease had expired when the next one was granted to another controller.
\<close>

theorem deposed_leader_refused:
  assumes "reachable sqlite_ops empty_tables w"
    and "i < j" "j < length (held_in sc w)"
    and "l = snd (held_in sc w ! i)" "l' = snd (held_in sc w ! j)"
  shows "ll_term l < ll_term l'
    \<and> require_leader sqlite_ops l now (w_store w) = Inl LeaderNotCurrent
    \<and> fence_for sqlite_ops l key h now (w_store w) = Inl LeaderNotCurrent
    \<and> dispatch sqlite_ops run l c now (w_store w) = Inl LeaderNotCurrent
    \<and> (j = i + 1 \<longrightarrow> \<not> fst (held_in sc w ! j) \<longrightarrow> ll_leader l \<noteq> ll_leader l' \<longrightarrow> ll_expires l \<le> ll_acquired l')"
proof -
  have ok: "leases_ok sqlite_ops w" by (rule sqlite.reachable_ok(1) [OF assms(1) sqlite_empty])
  have "ll_term l < ll_term l'"
    using sqlite.held_ordered [OF ok, of sc] assms(2-5) unfolding sorted_wrt_iff_nth_less by blast
  moreover have r: "require_leader sqlite_ops l now (w_store w) = Inl LeaderNotCurrent"
    using sqlite.only_last_leads [OF ok assms(2,3), of now] assms(4)
    by (auto simp: is_leader_def require_leader_def split: option.splits)
  moreover have "ll_expires l \<le> ll_acquired l'"
    if "j = i + 1" "\<not> fst (held_in sc w ! j)" "ll_leader l \<noteq> ll_leader l'"
  proof -
    have "successively handed_over (held_in sc w)" using ok by (simp add: leases_ok_def)
    then have "handed_over (held_in sc w ! i) (held_in sc w ! j)"
      using assms(3) that(1) by (simp add: successively_nth)
    then show ?thesis using that assms(4,5) by (simp add: handed_over_def)
  qed
  ultimately show ?thesis by (simp add: fence_for_def dispatch_def)
qed

theorem deposed_leader_refused_witness:
  "dispatch sqlite_ops id (demo_leader ''A'' 1 0) (demo_command ''a'' (demo_fence 1 1)) 5 (w_store race_world)
     = Inl LeaderNotCurrent"
proof -
  have h: "held_in ''cp'' race_world = [(False, demo_leader ''A'' 1 0), (False, demo_leader ''B'' 2 20)]"
    by (simp add: held_in_def race_leases demo_leader_def)
  have ij: "(0::nat) < 1" "1 < length (held_in ''cp'' race_world)" by (simp_all add: h)
  have l: "demo_leader ''A'' 1 0 = snd (held_in ''cp'' race_world ! 0)" by (simp add: h)
  show ?thesis using deposed_leader_refused [OF race_reachable ij l refl] by blast
qed

text \<open>
  C30. A takeover gets through. When the scope has no lease or an expired one, any controller that
  campaigns wins without force, and as long as its own lease lasts it can mint a fence for a step,
  strictly newer than whatever is recorded there, and dispatch a command under it, which calls the
  provider exactly once; provided the fence recorded for the step belongs to that step.
\<close>

theorem takeover_dispatches:
  assumes "\<forall>cur. tbl_leaders s sc = Some cur \<longrightarrow> lease_is_expired_at cur now" "0 < ttl" "now \<le> t" "t < now + ttl"
    and "valid_ident run_id" "valid_ident step_id" "valid_ident h"
    and "\<forall>cur. tbl_fences s (run_id, step_id) = Some cur \<longrightarrow>
           (ft_run (ds_fence cur), ft_step (ds_fence cur)) = (run_id, step_id) \<and> 1 \<le> ft_epoch (ds_fence cur)"
    and "step_key c = (run_id, step_id)"
  shows "\<exists>l s1 f s2. campaign sqlite_ops me sc ttl False now s = Inr (l, s1)
    \<and> fence_for sqlite_ops l (run_id, step_id) h t s1 = Inr (f, s2)
    \<and> (\<forall>cur. tbl_fences s (run_id, step_id) = Some cur \<longrightarrow> is_after f (ds_fence cur))
    \<and> (\<exists>s3. dispatch sqlite_ops run l (c\<lparr>fc_fence := f\<rparr>) t s2 = Inr (run (c\<lparr>fc_fence := f\<rparr>), s3))"
proof -
  have o: "load_lease sqlite_ops = tbl_leaders" "load_step sqlite_ops = tbl_fences" by (simp_all add: sqlite_ops_def)
  show ?thesis
    using sqlite.takeover [of s sc now ttl t "(run_id, step_id)" h c me run] assms unfolding o by simp
qed

theorem takeover_dispatches_witness:
  "\<exists>l s1. campaign sqlite_ops ''B'' ''cp'' 10 False 20
       (empty_tables\<lparr>tbl_leaders := [''cp'' \<mapsto> demo_leader ''A'' 1 0]\<rparr>) = Inr (l, s1)"
proof -
  let ?s = "empty_tables\<lparr>tbl_leaders := [''cp'' \<mapsto> demo_leader ''A'' 1 0]\<rparr>"
  have slot: "\<forall>cur. tbl_leaders ?s ''cp'' = Some cur \<longrightarrow> lease_is_expired_at cur 20"
    by (simp add: lease_is_expired_at_def demo_leader_def)
  have rows: "\<forall>cur. tbl_fences ?s (''r'', ''s'') = Some cur \<longrightarrow>
      (ft_run (ds_fence cur), ft_step (ds_fence cur)) = (''r'', ''s'') \<and> 1 \<le> ft_epoch (ds_fence cur)"
    by (simp add: empty_tables_def)
  have key: "step_key (demo_command ''b'' (demo_fence 1 22)) = (''r'', ''s'')"
    by (simp add: step_key_def demo_command_def)
  have times: "(0::int) < 10" "(20::int) \<le> 22" "(22::int) < 20 + 10" by simp_all
  show ?thesis
    by (rule takeover_dispatches [OF slot times demo_idents(1-3) rows key, of "''B''" id, THEN exE])
      (elim exE conjE, intro exI, assumption)
qed

text \<open>
  What the model shows besides. The check and the effect are separate transactions: the effect of a
  leader that was deposed in between still lands (here at 21, under B's lease of 20). A command whose
  fence is for another step spends its step's slot with it, and then no leader can ever mint for that
  step again. And a command already recorded is sent to the provider again by every further dispatch.
\<close>

lemma deposed_effect_lands:
  "\<exists>w d c. reachable sqlite_ops empty_tables w \<and> (d, c) \<in> set (w_log w) \<and> fc_id c = ''a''
     \<and> ds_at d = Some 21 \<and> (False, demo_leader ''B'' 2 20) \<in> set (w_leases w)"
proof -
  let ?c = "demo_command ''a'' (demo_fence 1 1)"
  have "(spent ?c 21, ?c) \<in> set (effects_on (''r'', ''s'') race_world)" by (simp add: race_log)
  then have log: "(spent ?c 21, ?c) \<in> set (w_log race_world)" by (simp add: effects_on_def)
  have leases: "(False, demo_leader ''B'' 2 20) \<in> set (w_leases race_world)" by (simp add: race_leases)
  have "fc_id ?c = ''a''" "ds_at (spent ?c 21) = Some 21" by (simp_all add: demo_command_def spent_def)
  with race_reachable log leases show ?thesis by (intro exI conjI)
qed

lemma foreign_fence_wedges_step:
  assumes "tbl_fences s key = Some cur" "(ft_run (ds_fence cur), ft_step (ds_fence cur)) \<noteq> key"
  shows "\<exists>e. fence_for sqlite_ops l key h now s = Inl e"
proof (cases "require_leader sqlite_ops l now s")
  case (Inr x)
  show ?thesis
  proof (cases "next_fence (ds_fence cur) h now")
    case (Inr f)
    then have "(ft_run f, ft_step f) \<noteq> key"
      using assms(2) by (auto simp: next_fence_def fence_validate_def split: if_splits)
    then show ?thesis using assms(1) Inr \<open>require_leader _ _ _ _ = Inr x\<close>
      by (simp add: fence_for_def sqlite_ops_def sqlite_record_mint_def)
  next
    case (Inl e)
    then show ?thesis using assms(1) \<open>require_leader _ _ _ _ = Inr x\<close>
      by (simp add: fence_for_def sqlite_ops_def)
  qed
qed (simp add: fence_for_def)

lemma foreign_fence_accepted:
  assumes "tbl_fences s (fc_run c, fc_step c) = None" "require_leader sqlite_ops l now s = Inr x"
  shows "dispatch sqlite_ops run l c now s
    = Inr (run c, s\<lparr>tbl_fences := (tbl_fences s)((fc_run c, fc_step c) \<mapsto> spent c now)\<rparr>)"
  using assms by (simp add: dispatch_def sqlite_ops_def sqlite_record_dispatch_def Let_def)

lemma resend_calls_again:
  assumes "tbl_fences s (fc_run c, fc_step c) = Some cur" "ds_command cur = fc_id c"
    and "require_leader sqlite_ops l now s = Inr x"
  shows "dispatch sqlite_ops run l c now s = Inr (run c, s)"
  using assms by (simp add: dispatch_def sqlite_ops_def sqlite_record_dispatch_def Let_def)

end
