(* ===== verification/Failover.thy ===== *)
theory Failover
  imports Leader_Election
begin

text \<open>
  \<open>domain/failover.py\<close>, \<open>controller/failover_service.py\<close> and the promotion table of
  \<open>infra/failover_store.py\<close>: what establishes that a primary is gone, every reason a standby may
  not take over, and the promotion itself, which campaigns on the leadership store of
  \<open>Leader_Election\<close>. The texts of details and the digests of rows are left out; a promotion id
  (a random one in the code) and the boundary gate on persisted documents are arguments.
\<close>

section \<open>Evidence\<close>

datatype LivenessEvidenceKind =
    PRIMARY_LEASE_EXPIRED
  | PRIMARY_PROCESS_GONE
  | HEARTBEAT_MISSING
  | PROBE_UNREACHABLE
  | STALE_READ_REPLICA
  | NO_EVIDENCE

definition death_evidence :: "LivenessEvidenceKind set" where
  "death_evidence = {PRIMARY_LEASE_EXPIRED, PRIMARY_PROCESS_GONE}"

definition liveness_evidence :: "LivenessEvidenceKind set" where
  "liveness_evidence = {HEARTBEAT_MISSING, PROBE_UNREACHABLE}"

record LivenessObservation =
  ob_kind :: LivenessEvidenceKind
  ob_term :: int
  ob_at :: instant
  ob_source :: string
  ob_detail :: string

definition observation_validate :: "LivenessObservation \<Rightarrow> py_error + LivenessObservation" where
  "observation_validate o' =
     (if 1 \<le> ob_term o' \<and> ob_source o' \<noteq> [] \<and> ob_detail o' \<noteq> [] then Inr o' else Inl ValueErr)"

definition establishes_death :: "LivenessObservation \<Rightarrow> bool" where
  "establishes_death ob \<longleftrightarrow> ob_kind ob \<in> death_evidence"

definition establishes_liveness :: "LivenessObservation \<Rightarrow> bool" where
  "establishes_liveness ob \<longleftrightarrow> ob_kind ob \<in> liveness_evidence"

definition age_at :: "LivenessObservation \<Rightarrow> instant \<Rightarrow> duration" where
  "age_at ob now = now - ob_at ob"

definition is_admissible_at :: "LivenessObservation \<Rightarrow> instant \<Rightarrow> int \<Rightarrow> bool" where
  "is_admissible_at ob now expected \<longleftrightarrow> ob_term ob = expected \<and> ob_at ob \<le> now"

text \<open>The three reasons an observation is set aside, in the order they are tried.\<close>

datatype exclusion = OtherTerm | FromTheFuture | PastFreshness

datatype PrimaryStatus = ALIVE | DEAD | INDETERMINATE

datatype AssessmentReason =
    DEATH_ESTABLISHED
  | LIVENESS_OBSERVED
  | CONTRADICTORY
  | NOTHING_OFFERED
  | WEAK_EVIDENCE_ONLY
  | NOTHING_ADMISSIBLE

record LivenessAssessment =
  la_term :: int
  la_status :: PrimaryStatus
  la_reason :: AssessmentReason
  la_admitted :: "LivenessObservation list"
  la_excluded :: "(LivenessObservation \<times> exclusion) list"
  la_at :: instant
  la_bound :: duration

definition assessment_validate :: "LivenessAssessment \<Rightarrow> py_error + LivenessAssessment" where
  "assessment_validate a =
     (if la_term a < 1 \<or> la_bound a \<le> 0 then Inl ValueErr
      else if la_status a = DEAD \<and> la_reason a \<noteq> DEATH_ESTABLISHED
      then Inl (InvariantViolation ''liveness.dead_without_evidence'')
      else Inr a)"

definition promotable :: "LivenessAssessment \<Rightarrow> bool" where
  "promotable a \<longleftrightarrow> la_status a = DEAD"

definition death_observations :: "LivenessAssessment \<Rightarrow> LivenessObservation list" where
  "death_observations a = filter establishes_death (la_admitted a)"

text \<open>One observation of the loop of \<open>assess_primary\<close>: why it is excluded, or \<open>None\<close>.\<close>

definition screen :: "int \<Rightarrow> instant \<Rightarrow> duration \<Rightarrow> LivenessObservation \<Rightarrow> exclusion option" where
  "screen expected now bound ob =
     (if ob_term ob \<noteq> expected then Some OtherTerm
      else if ob_at ob > now then Some FromTheFuture
      else if age_at ob now > bound then Some PastFreshness
      else None)"

fun sift ::
  "int \<Rightarrow> instant \<Rightarrow> duration \<Rightarrow> LivenessObservation list
     \<Rightarrow> LivenessObservation list \<times> (LivenessObservation \<times> exclusion) list" where
  "sift expected now bound [] = ([], [])"
| "sift expected now bound (ob # obs) =
     (let (adm, exc) = sift expected now bound obs
      in case screen expected now bound ob of None \<Rightarrow> (ob # adm, exc) | Some why \<Rightarrow> (adm, (ob, why) # exc))"

definition verdict_of :: "LivenessObservation list \<Rightarrow> PrimaryStatus \<times> AssessmentReason" where
  "verdict_of admitted =
     (let death = filter establishes_death admitted; alive = filter establishes_liveness admitted
      in if admitted = [] then (INDETERMINATE, NOTHING_ADMISSIBLE)
         else if death \<noteq> [] \<and> alive \<noteq> [] then (INDETERMINATE, CONTRADICTORY)
         else if death \<noteq> [] then (DEAD, DEATH_ESTABLISHED)
         else if alive \<noteq> [] then (ALIVE, LIVENESS_OBSERVED)
         else (INDETERMINATE, WEAK_EVIDENCE_ONLY))"

definition assess_primary ::
  "LivenessObservation list \<Rightarrow> int \<Rightarrow> instant \<Rightarrow> duration \<Rightarrow> py_error + LivenessAssessment" where
  "assess_primary obs expected now bound =
     (if expected < 1 then Inl (InvariantViolation ''liveness.term_floor'')
      else if bound \<le> 0 then Inl (InvariantViolation ''liveness.freshness_floor'')
      else let (adm, exc) = sift expected now bound obs; (status, reason) = verdict_of adm
           in assessment_validate
                \<lparr>la_term = expected, la_status = status, la_reason = reason, la_admitted = adm,
                 la_excluded = exc, la_at = now, la_bound = bound\<rparr>)"

definition observations_for_term :: "LivenessObservation list \<Rightarrow> int \<Rightarrow> LivenessObservation list" where
  "observations_for_term obs expected = filter (\<lambda>ob. ob_term ob = expected) obs"

section \<open>The request and the decision\<close>

datatype PromotionRefusal =
    PRIMARY_INDETERMINATE
  | PRIMARY_ALIVE
  | CONTRADICTORY_EVIDENCE
  | NO_ADMISSIBLE_EVIDENCE
  | ALREADY_LEADER
  | TERM_MOVED
  | LEASE_LIVE
  | NO_LEADER
  | NO_OPERATOR

definition promotion_refusal_order :: "PromotionRefusal list" where
  "promotion_refusal_order =
     [PRIMARY_INDETERMINATE, PRIMARY_ALIVE, CONTRADICTORY_EVIDENCE, NO_ADMISSIBLE_EVIDENCE, ALREADY_LEADER,
      TERM_MOVED, LEASE_LIVE, NO_LEADER, NO_OPERATOR]"

interpretation promotion_reasons: canonical_enum promotion_refusal_order
proof unfold_locales
  show "r \<in> set promotion_refusal_order" for r by (cases r) (simp_all add: promotion_refusal_order_def)
  show "distinct promotion_refusal_order" by (simp add: promotion_refusal_order_def)
qed

definition order_promotion_refusals :: "PromotionRefusal list \<Rightarrow> PromotionRefusal list" where
  "order_promotion_refusals reasons = canon promotion_refusal_order reasons"

record PromotionRequest =
  pr_scope :: string
  pr_standby :: string
  pr_term :: int
  pr_assessment :: LivenessAssessment
  pr_forced :: bool
  pr_operator :: string
  pr_reason :: string
  pr_at :: instant

definition request_validate :: "PromotionRequest \<Rightarrow> py_error + PromotionRequest" where
  "request_validate r =
     (if pr_scope r \<noteq> [] \<and> valid_ident (pr_standby r) \<and> 1 \<le> pr_term r \<and> pr_operator r \<noteq> [] \<and> pr_reason r \<noteq> []
      then Inr r else Inl ValueErr)"

definition request_reasons :: "PromotionRequest \<Rightarrow> PromotionRefusal list" where
  "request_reasons r =
     (if py_strip (pr_operator r) = [] then [NO_OPERATOR] else [])
     @ (if la_status (pr_assessment r) = DEAD then []
        else if la_status (pr_assessment r) = ALIVE then [PRIMARY_ALIVE]
        else if la_reason (pr_assessment r) = NOTHING_ADMISSIBLE then [NO_ADMISSIBLE_EVIDENCE]
        else if la_reason (pr_assessment r) = CONTRADICTORY then [CONTRADICTORY_EVIDENCE]
        else [PRIMARY_INDETERMINATE])"

definition request_refusals :: "PromotionRequest \<Rightarrow> PromotionRefusal list" where
  "request_refusals r = order_promotion_refusals (request_reasons r)"

datatype PromotionOutcome = PROMOTED | REFUSED

record PromotionDecision =
  pd_request :: PromotionRequest
  pd_outcome :: PromotionOutcome
  pd_refusals :: "PromotionRefusal list"
  pd_new_term :: "int option"
  pd_at :: instant

definition decision_validate :: "PromotionDecision \<Rightarrow> py_error + PromotionDecision" where
  "decision_validate d =
     (if (case pd_new_term d of None \<Rightarrow> False | Some t \<Rightarrow> t < 1) then Inl ValueErr
      else if pd_outcome d = PROMOTED then
        (if pd_refusals d \<noteq> [] then Inl (InvariantViolation ''promotion.promoted_with_refusals'')
         else case pd_new_term d of
                None \<Rightarrow> Inl (InvariantViolation ''promotion.missing_new_term'')
              | Some t \<Rightarrow> if t \<le> pr_term (pd_request d)
                         then Inl (InvariantViolation ''promotion.term_not_advanced'') else Inr d)
      else if pd_new_term d \<noteq> None then Inl (InvariantViolation ''promotion.refused_with_term'')
      else Inr d)"

definition decision_indeterminate :: "PromotionDecision \<Rightarrow> bool" where
  "decision_indeterminate d \<longleftrightarrow>
     PRIMARY_INDETERMINATE \<in> set (pd_refusals d) \<or> NO_ADMISSIBLE_EVIDENCE \<in> set (pd_refusals d)
     \<or> CONTRADICTORY_EVIDENCE \<in> set (pd_refusals d)"

definition refusal_code :: "PromotionDecision \<Rightarrow> string" where
  "refusal_code d =
     (if decision_indeterminate d then ''failover_primary_indeterminate'' else ''failover_promotion_refused'')"

datatype failover_error =
    PromotionRefused PromotionDecision
  | PromotionDuplicate
  | Unpersistable
  | Election election_error
  | Plain py_error

definition require_promotable :: "PromotionRequest \<Rightarrow> instant \<Rightarrow> failover_error + unit" where
  "require_promotable r now =
     (if request_refusals r \<noteq> []
      then (case decision_validate \<lparr>pd_request = r, pd_outcome = REFUSED, pd_refusals = request_refusals r,
                                    pd_new_term = None, pd_at = now\<rparr> of
              Inl e \<Rightarrow> Inl (Plain e)
            | Inr d \<Rightarrow> Inl (PromotionRefused d))
      else Inr ())"

definition decision_from_campaign :: "PromotionRequest \<Rightarrow> int \<Rightarrow> instant \<Rightarrow> py_error + PromotionDecision" where
  "decision_from_campaign r new_term now =
     decision_validate \<lparr>pd_request = r, pd_outcome = PROMOTED, pd_refusals = [], pd_new_term = Some new_term,
                        pd_at = now\<rparr>"

definition assert_assessment_consistent :: "LivenessAssessment \<Rightarrow> int \<Rightarrow> py_error + unit" where
  "assert_assessment_consistent a expected =
     (if la_term a \<noteq> expected then Inl (InvariantViolation ''promotion.term_mismatch'') else Inr ())"

section \<open>The promotion table\<close>

record PromotionRecord =
  pm_id :: string
  pm_scope :: string
  pm_standby :: string
  pm_deposed :: string
  pm_deposed_term :: int
  pm_new_term :: int
  pm_operator :: string
  pm_reason :: string
  pm_forced :: bool
  pm_promoted :: bool
  pm_refusals :: "PromotionRefusal list"
  pm_evidence :: LivenessAssessment
  pm_at :: instant

definition record_validate :: "PromotionRecord \<Rightarrow> py_error + PromotionRecord" where
  "record_validate r =
     (if \<not> (valid_ident (pm_id r) \<and> pm_scope r \<noteq> [] \<and> valid_ident (pm_standby r) \<and> 0 \<le> pm_deposed_term r
            \<and> 0 \<le> pm_new_term r \<and> pm_reason r \<noteq> []) then Inl ValueErr
      else if pm_promoted r then
        (if pm_new_term r \<le> pm_deposed_term r then Inl (InvariantViolation ''failover_promotion_term_ordering'')
         else if py_strip (pm_operator r) = [] then Inl (InvariantViolation ''failover_promotion_document_shape'')
         else if pm_refusals r \<noteq> [] then Inl (InvariantViolation ''failover_promotion_document_shape'')
         else Inr r)
      else if pm_new_term r \<noteq> 0 then Inl (InvariantViolation ''failover_promotion_term_ordering'')
      else Inr r)"

text \<open>
  One transaction over the rows, oldest first. The constraints of the table (its CHECK and the partial
  unique index) are those of \<open>record_validate\<close> and of the second query, so the insert goes through.
\<close>

definition record_promotion ::
  "(PromotionRecord \<Rightarrow> bool) \<Rightarrow> PromotionRecord \<Rightarrow> PromotionRecord list
     \<Rightarrow> failover_error + (PromotionRecord \<times> PromotionRecord list)" where
  "record_promotion persistable r rows =
     (if \<not> persistable r then Inl Unpersistable
      else case find (\<lambda>x. pm_id x = pm_id r) rows of
        Some stored \<Rightarrow> Inr (stored, rows)
      | None \<Rightarrow>
          if pm_promoted r \<and> (\<exists>x\<in>set rows. pm_scope x = pm_scope r \<and> pm_new_term x = pm_new_term r)
          then Inl PromotionDuplicate
          else Inr (r, rows @ [r]))"

section \<open>The service\<close>

text \<open>
  The service and the election it is given carry their own controller and scope; nothing makes them
  agree. \<open>promote\<close> reads the lease of the scope and later campaigns: \<open>s\<close> is the leadership store
  as it reads it, \<open>s'\<close> as it finds it when it claims. Returned with the result are the leadership
  store and the promotion rows it leaves.
\<close>

record FailoverService =
  fs_controller :: string
  fs_scope :: string
  fs_bound :: duration
  fs_election_controller :: string
  fs_election_scope :: string
  fs_election_ttl :: duration

definition service_request ::
  "FailoverService \<Rightarrow> LivenessAssessment \<Rightarrow> string \<Rightarrow> string \<Rightarrow> bool \<Rightarrow> int option \<Rightarrow> instant
     \<Rightarrow> py_error + PromotionRequest" where
  "service_request fs a operator reason forced expected now =
     (let tm = (case expected of None \<Rightarrow> la_term a | Some t \<Rightarrow> t)
      in case assert_assessment_consistent a tm of
           Inl e \<Rightarrow> Inl e
         | Inr _ \<Rightarrow> request_validate
             \<lparr>pr_scope = fs_scope fs, pr_standby = fs_controller fs, pr_term = tm, pr_assessment = a,
              pr_forced = forced, pr_operator = py_strip operator, pr_reason = py_strip reason, pr_at = now\<rparr>)"

definition state_refusals ::
  "FailoverService \<Rightarrow> PromotionRequest \<Rightarrow> LeaderLease option \<Rightarrow> instant \<Rightarrow> PromotionRefusal list" where
  "state_refusals fs r lease now =
     (case lease of
        None \<Rightarrow> [NO_LEADER]
      | Some l \<Rightarrow>
          (if ll_term l \<noteq> pr_term r then [TERM_MOVED] else [])
          @ (if ll_leader l = fs_controller fs \<and> ll_term l = pr_term r then [ALREADY_LEADER] else [])
          @ (if \<not> lease_is_expired_at l now \<and> \<not> pr_forced r then [LEASE_LIVE] else []))"

definition promotion_record ::
  "string \<Rightarrow> PromotionRequest \<Rightarrow> PromotionDecision \<Rightarrow> LeaderLease option \<Rightarrow> py_error + PromotionRecord" where
  "promotion_record pid r d lease =
     record_validate
       \<lparr>pm_id = pid, pm_scope = pr_scope r, pm_standby = pr_standby r,
        pm_deposed = (case lease of None \<Rightarrow> [] | Some l \<Rightarrow> ll_leader l),
        pm_deposed_term = (case lease of None \<Rightarrow> 0 | Some l \<Rightarrow> ll_term l),
        pm_new_term = (case pd_new_term d of None \<Rightarrow> 0 | Some t \<Rightarrow> t),
        pm_operator = pr_operator r, pm_reason = pr_reason r, pm_forced = pr_forced r,
        pm_promoted = (pd_outcome d = PROMOTED), pm_refusals = pd_refusals d,
        pm_evidence = pr_assessment r, pm_at = pd_at d\<rparr>"

definition record_decision ::
  "(PromotionRecord \<Rightarrow> bool) \<Rightarrow> string \<Rightarrow> PromotionRequest \<Rightarrow> PromotionDecision \<Rightarrow> LeaderLease option
     \<Rightarrow> PromotionRecord list \<Rightarrow> (failover_error + PromotionDecision) \<times> PromotionRecord list" where
  "record_decision persistable pid r d lease rows =
     (case promotion_record pid r d lease of
        Inl e \<Rightarrow> (Inl (Plain e), rows)
      | Inr row \<Rightarrow>
          (case record_promotion persistable row rows of
             Inl e \<Rightarrow> (Inl e, rows)
           | Inr (_, rows') \<Rightarrow> (Inr d, rows')))"

definition promote ::
  "'s store_ops \<Rightarrow> FailoverService \<Rightarrow> (PromotionRecord \<Rightarrow> bool) \<Rightarrow> string \<Rightarrow> PromotionRequest \<Rightarrow> instant
     \<Rightarrow> 's \<Rightarrow> 's \<Rightarrow> PromotionRecord list \<Rightarrow> (failover_error + PromotionDecision) \<times> 's \<times> PromotionRecord list" where
  "promote ops fs persistable pid r now s s' rows =
     (case assert_assessment_consistent (pr_assessment r) (pr_term r) of
        Inl e \<Rightarrow> (Inl (Plain e), s', rows)
      | Inr _ \<Rightarrow>
          let lease = load_lease ops s (fs_election_scope fs);
              refusals = request_refusals r @ state_refusals fs r lease now
          in if refusals \<noteq> [] then
               (case decision_validate
                       \<lparr>pd_request = r, pd_outcome = REFUSED, pd_refusals = order_promotion_refusals refusals,
                        pd_new_term = None, pd_at = now\<rparr> of
                  Inl e \<Rightarrow> (Inl (Plain e), s', rows)
                | Inr d \<Rightarrow> (case record_decision persistable pid r d lease rows of (res, rows') \<Rightarrow> (res, s', rows')))
             else
               (case require_promotable r now of
                  Inl e \<Rightarrow> (Inl e, s', rows)
                | Inr _ \<Rightarrow>
                    (case campaign ops (fs_election_controller fs) (fs_election_scope fs) (fs_election_ttl fs)
                            (pr_forced r) now s' of
                       Inl e \<Rightarrow> (Inl (Election e), s', rows)
                     | Inr (claimed, s'') \<Rightarrow>
                         (case decision_from_campaign r (ll_term claimed) now of
                            Inl e \<Rightarrow> (Inl (Plain e), s'', rows)
                          | Inr d \<Rightarrow> (case record_decision persistable pid r d lease rows of
                                       (res, rows') \<Rightarrow> (res, s'', rows'))))))"

definition promote_or_raise ::
  "'s store_ops \<Rightarrow> FailoverService \<Rightarrow> (PromotionRecord \<Rightarrow> bool) \<Rightarrow> string \<Rightarrow> PromotionRequest \<Rightarrow> instant
     \<Rightarrow> 's \<Rightarrow> 's \<Rightarrow> PromotionRecord list \<Rightarrow> (failover_error + PromotionDecision) \<times> 's \<times> PromotionRecord list" where
  "promote_or_raise ops fs persistable pid r now s s' rows =
     (case promote ops fs persistable pid r now s s' rows of
        (Inl e, t) \<Rightarrow> (Inl e, t)
      | (Inr d, t) \<Rightarrow> (if pd_outcome d \<noteq> PROMOTED then Inl (PromotionRefused d) else Inr d, t))"

text \<open>The whole path in one call; nobody else writes in between.\<close>

definition promote_if_dead ::
  "'s store_ops \<Rightarrow> FailoverService \<Rightarrow> (PromotionRecord \<Rightarrow> bool) \<Rightarrow> string \<Rightarrow> LivenessObservation list
     \<Rightarrow> string \<Rightarrow> string \<Rightarrow> bool \<Rightarrow> instant \<Rightarrow> duration option \<Rightarrow> 's \<Rightarrow> PromotionRecord list
     \<Rightarrow> (failover_error + PromotionDecision) \<times> 's \<times> PromotionRecord list" where
  "promote_if_dead ops fs persistable pid obs operator reason forced now bound s rows =
     (case assess_primary obs (case load_lease ops s (fs_election_scope fs) of None \<Rightarrow> 1 | Some l \<Rightarrow> ll_term l)
             now (case bound of None \<Rightarrow> fs_bound fs | Some b \<Rightarrow> b) of
        Inl e \<Rightarrow> (Inl (Plain e), s, rows)
      | Inr a \<Rightarrow>
          (case service_request fs a operator reason forced None now of
             Inl e \<Rightarrow> (Inl (Plain e), s, rows)
           | Inr r \<Rightarrow> promote ops fs persistable pid r now s s rows))"

section \<open>Evidence and refusals\<close>

lemma sift_admitted: "fst (sift expected now bound obs) = filter (\<lambda>ob. screen expected now bound ob = None) obs"
  by (induction obs) (auto split: prod.splits option.splits)

lemma sift_accounts:
  "length (fst (sift expected now bound obs)) + length (snd (sift expected now bound obs)) = length obs"
  by (induction obs) (auto split: prod.splits option.splits)

lemma screen_None_iff: "screen expected now bound ob = None \<longleftrightarrow> is_admissible_at ob now expected \<and> age_at ob now \<le> bound"
  by (auto simp: screen_def is_admissible_at_def)

definition counts :: "int \<Rightarrow> instant \<Rightarrow> duration \<Rightarrow> LivenessObservation \<Rightarrow> bool" where
  "counts expected now bound ob \<longleftrightarrow> is_admissible_at ob now expected \<and> age_at ob now \<le> bound"

lemma verdict_dead_iff:
  "fst (verdict_of adm) = DEAD \<longleftrightarrow> (\<exists>ob\<in>set adm. establishes_death ob) \<and> (\<forall>ob\<in>set adm. \<not> establishes_liveness ob)"
  by (cases adm) (auto simp: verdict_of_def Let_def filter_empty_iff_all)

lemma verdict_dead_reason: "fst (verdict_of adm) = DEAD \<Longrightarrow> snd (verdict_of adm) = DEATH_ESTABLISHED"
  by (auto simp: verdict_of_def Let_def split: if_splits)

lemma assess_primary_total:
  assumes "1 \<le> expected" "0 < bound"
  shows "\<exists>a. assess_primary obs expected now bound = Inr a \<and> la_term a = expected
    \<and> la_admitted a = filter (counts expected now bound) obs
    \<and> (la_status a, la_reason a) = verdict_of (la_admitted a)
    \<and> length (la_admitted a) + length (la_excluded a) = length obs"
proof -
  let ?s = "sift expected now bound obs"
  have adm: "fst ?s = filter (counts expected now bound) obs"
    unfolding sift_admitted by (rule filter_cong) (simp_all add: screen_None_iff counts_def)
  show ?thesis
    using assms adm sift_accounts [of expected now bound obs] verdict_dead_reason [of "fst ?s"]
    by (cases ?s, cases "verdict_of (fst ?s)") (auto simp: assess_primary_def assessment_validate_def Let_def)
qed

lemma set_order_promotion_refusals [simp]: "set (order_promotion_refusals rs) = set rs"
  by (simp add: order_promotion_refusals_def)

lemma order_promotion_refusals_Nil [simp]: "order_promotion_refusals rs = [] \<longleftrightarrow> rs = []"
  by (simp add: order_promotion_refusals_def)

lemma request_refusals_empty_iff:
  "request_refusals r = [] \<longleftrightarrow> py_strip (pr_operator r) \<noteq> [] \<and> promotable (pr_assessment r)"
  by (simp add: request_refusals_def request_reasons_def promotable_def)

lemma state_refusals_empty_iff:
  "state_refusals fs r lease now = [] \<longleftrightarrow>
     (\<exists>l. lease = Some l \<and> ll_term l = pr_term r \<and> ll_leader l \<noteq> fs_controller fs
        \<and> (lease_is_expired_at l now \<or> pr_forced r))"
  by (auto simp: state_refusals_def split: option.splits)

lemma require_promotable_ok: "request_refusals r = [] \<Longrightarrow> require_promotable r now = Inr ()"
  by (simp add: require_promotable_def)


section \<open>The promotion over any leadership store\<close>

text \<open>What the tables satisfy: leases are stored under their own scope, terms are positive, and no
  promotion row is ahead of its scope.\<close>

definition promotions_ok :: "'s store_ops \<Rightarrow> 's \<Rightarrow> PromotionRecord list \<Rightarrow> bool" where
  "promotions_ok ops s rows \<longleftrightarrow>
     (\<forall>sc l. load_lease ops s sc = Some l \<longrightarrow> ll_scope l = sc \<and> 1 \<le> ll_term l)
     \<and> (\<forall>row\<in>set rows. if pm_promoted row
          then \<exists>l. load_lease ops s (pm_scope row) = Some l \<and> pm_new_term row \<le> ll_term l
          else pm_new_term row = 0)"

lemma promote_Inr:
  assumes "promote ops fs persistable pid r now s s' rows = (Inr d, s'', rows')"
  shows "la_term (pr_assessment r) = pr_term r"
    and "pd_outcome d = REFUSED \<Longrightarrow> s'' = s' \<and> pd_new_term d = None
           \<and> pd_refusals d = order_promotion_refusals
                (request_refusals r @ state_refusals fs r (load_lease ops s (fs_election_scope fs)) now)
           \<and> pd_refusals d \<noteq> []"
    and "pd_outcome d = PROMOTED \<Longrightarrow> request_refusals r = []
           \<and> state_refusals fs r (load_lease ops s (fs_election_scope fs)) now = []
           \<and> (\<exists>l. campaign ops (fs_election_controller fs) (fs_election_scope fs) (fs_election_ttl fs)
                     (pr_forced r) now s' = Inr (l, s'') \<and> pd_new_term d = Some (ll_term l) \<and> pr_term r < ll_term l)"
    and "\<exists>row. promotion_record pid r d (load_lease ops s (fs_election_scope fs)) = Inr row
           \<and> (\<exists>stored. record_promotion persistable row rows = Inr (stored, rows'))"
proof -
  let ?lease = "load_lease ops s (fs_election_scope fs)"
  let ?refusals = "request_refusals r @ state_refusals fs r ?lease now"
  let ?refused = "\<lparr>pd_request = r, pd_outcome = REFUSED, pd_refusals = order_promotion_refusals ?refusals,
                   pd_new_term = None, pd_at = now\<rparr>"
  have same: "la_term (pr_assessment r) = pr_term r"
    using assms by (auto simp: promote_def assert_assessment_consistent_def split: if_splits)
  then have c: "assert_assessment_consistent (pr_assessment r) (pr_term r) = Inr ()"
    by (simp add: assert_assessment_consistent_def)
  have rec: "\<exists>row. promotion_record pid r d0 ?lease = Inr row
      \<and> (\<exists>stored. record_promotion persistable row rows = Inr (stored, rows')) \<and> d = d0"
    if "record_decision persistable pid r d0 ?lease rows = (Inr d, rows')" for d0
    using that by (auto simp: record_decision_def split: sum.splits prod.splits)
  have dis: "(?refusals \<noteq> [] \<and> d = ?refused \<and> s'' = s' \<and> record_decision persistable pid r d ?lease rows = (Inr d, rows'))
    \<or> (?refusals = [] \<and> (\<exists>l. campaign ops (fs_election_controller fs) (fs_election_scope fs) (fs_election_ttl fs)
          (pr_forced r) now s' = Inr (l, s'') \<and> decision_from_campaign r (ll_term l) now = Inr d
          \<and> record_decision persistable pid r d ?lease rows = (Inr d, rows')))"
  proof (cases "?refusals = []")
    case True
    then show ?thesis using assms c require_promotable_ok [of r now] rec
      by (fastforce simp: promote_def Let_def split: sum.splits prod.splits)
  next
    case False
    then show ?thesis using assms c rec
      by (fastforce simp: promote_def Let_def decision_validate_def split: prod.splits)
  qed
  show "la_term (pr_assessment r) = pr_term r" by (rule same)
  show "\<exists>row. promotion_record pid r d ?lease = Inr row
      \<and> (\<exists>stored. record_promotion persistable row rows = Inr (stored, rows'))"
    using dis rec by blast
  show "pd_outcome d = REFUSED \<Longrightarrow> s'' = s' \<and> pd_new_term d = None
      \<and> pd_refusals d = order_promotion_refusals ?refusals \<and> pd_refusals d \<noteq> []"
    using dis by (auto simp: decision_from_campaign_def decision_validate_def split: if_splits)
  show "pd_outcome d = PROMOTED \<Longrightarrow> request_refusals r = [] \<and> state_refusals fs r ?lease now = []
      \<and> (\<exists>l. campaign ops (fs_election_controller fs) (fs_election_scope fs) (fs_election_ttl fs)
            (pr_forced r) now s' = Inr (l, s'') \<and> pd_new_term d = Some (ll_term l) \<and> pr_term r < ll_term l)"
    using dis by (auto simp: decision_from_campaign_def decision_validate_def split: if_splits)
qed

text \<open>A service wired to its own election, and a request it would build.\<close>

definition wired :: "FailoverService \<Rightarrow> bool" where
  "wired fs \<longleftrightarrow> fs_election_controller fs = fs_controller fs \<and> fs_election_scope fs = fs_scope fs"

definition own_request :: "FailoverService \<Rightarrow> PromotionRequest \<Rightarrow> bool" where
  "own_request fs r \<longleftrightarrow> request_validate r = Inr r \<and> pr_scope r = fs_scope fs \<and> pr_standby r = fs_controller fs
     \<and> la_term (pr_assessment r) = pr_term r"

text \<open>The abstract specification of a takeover.\<close>

definition may_take_over :: "'s store_ops \<Rightarrow> FailoverService \<Rightarrow> PromotionRequest \<Rightarrow> instant \<Rightarrow> 's \<Rightarrow> bool" where
  "may_take_over ops fs r now s \<longleftrightarrow>
     py_strip (pr_operator r) \<noteq> [] \<and> la_status (pr_assessment r) = DEAD
     \<and> (\<exists>l. load_lease ops s (fs_scope fs) = Some l \<and> ll_term l = pr_term r \<and> ll_leader l \<noteq> fs_controller fs
          \<and> (lease_is_expired_at l now \<or> pr_forced r))"

lemma may_take_over_iff:
  "wired fs \<Longrightarrow> may_take_over ops fs r now s \<longleftrightarrow>
     request_refusals r = [] \<and> state_refusals fs r (load_lease ops s (fs_election_scope fs)) now = []"
  by (auto simp: may_take_over_def request_refusals_empty_iff state_refusals_empty_iff promotable_def wired_def)

lemma record_promotion_fresh:
  assumes "\<forall>x. persistable x" "pm_id row \<notin> pm_id ` set rows"
    and "pm_promoted row \<Longrightarrow> \<forall>x\<in>set rows. pm_scope x = pm_scope row \<longrightarrow> pm_new_term x \<noteq> pm_new_term row"
  shows "record_promotion persistable row rows = Inr (row, rows @ [row])"
proof -
  have "find (\<lambda>x. pm_id x = pm_id row) rows = None" using assms(2) unfolding find_None_iff by (metis imageI)
  then show ?thesis using assms(1,3) by (auto simp: record_promotion_def)
qed

context leadership_store
begin

lemma promote_refuses:
  assumes "wired fs" "own_request fs r" "promotions_ok ops s rows"
    and "valid_ident pid" "pid \<notin> pm_id ` set rows" "\<forall>x. persistable x" "\<not> may_take_over ops fs r now s"
  shows "\<exists>d row. promote ops fs persistable pid r now s s rows = (Inr d, s, rows @ [row])
    \<and> pd_outcome d = REFUSED \<and> \<not> pm_promoted row \<and> pm_refusals row = pd_refusals d
    \<and> promotions_ok ops s (rows @ [row])"
proof -
  let ?lease = "load_lease ops s (fs_election_scope fs)"
  let ?refusals = "request_refusals r @ state_refusals fs r ?lease now"
  let ?d = "\<lparr>pd_request = r, pd_outcome = REFUSED, pd_refusals = order_promotion_refusals ?refusals,
              pd_new_term = None, pd_at = now\<rparr>"
  let ?row = "\<lparr>pm_id = pid, pm_scope = pr_scope r, pm_standby = pr_standby r,
        pm_deposed = (case ?lease of None \<Rightarrow> [] | Some l \<Rightarrow> ll_leader l),
        pm_deposed_term = (case ?lease of None \<Rightarrow> 0 | Some l \<Rightarrow> ll_term l), pm_new_term = 0,
        pm_operator = pr_operator r, pm_reason = pr_reason r, pm_forced = pr_forced r,
        pm_promoted = False, pm_refusals = order_promotion_refusals ?refusals,
        pm_evidence = pr_assessment r, pm_at = now\<rparr>"
  have ne: "?refusals \<noteq> []" using assms(7) unfolding may_take_over_iff [OF assms(1)] by simp
  have c: "assert_assessment_consistent (pr_assessment r) (pr_term r) = Inr ()"
    using assms(2) by (simp add: own_request_def assert_assessment_consistent_def)
  have "0 \<le> pm_deposed_term ?row" using assms(3) by (fastforce simp: promotions_ok_def split: option.split)
  then have v: "promotion_record pid r ?d ?lease = Inr ?row"
    using assms(2,4) by (simp add: promotion_record_def record_validate_def own_request_def request_validate_def
        split: if_splits)
  have "record_promotion persistable ?row rows = Inr (?row, rows @ [?row])"
    by (rule record_promotion_fresh) (use assms(5,6) in simp_all)
  then have "record_decision persistable pid r ?d ?lease rows = (Inr ?d, rows @ [?row])"
    by (simp add: record_decision_def v)
  moreover have "decision_validate ?d = Inr ?d" by (simp add: decision_validate_def)
  ultimately have "promote ops fs persistable pid r now s s rows = (Inr ?d, s, rows @ [?row])"
    using ne unfolding promote_def c Let_def by simp
  moreover have "promotions_ok ops s (rows @ [?row])" using assms(3) by (simp add: promotions_ok_def)
  ultimately show ?thesis by (intro exI [of _ ?d] exI [of _ ?row]) simp
qed

text \<open>Where nothing stands in the way, the promotion claims the scope and then records.\<close>

lemma promote_claims:
  assumes "wired fs" "own_request fs r" "promotions_ok ops s rows" "may_take_over ops fs r now s"
  obtains old l s' d where "load_lease ops s (fs_scope fs) = Some old" "ll_term old = pr_term r" "1 \<le> ll_term old"
    "load_lease ops s' = (load_lease ops s)(fs_scope fs \<mapsto> l)"
    "l = \<lparr>ll_scope = fs_scope fs, ll_term = ll_term old + 1, ll_leader = fs_controller fs, ll_acquired = now,
          ll_expires = now + fs_election_ttl fs\<rparr>"
    "d = \<lparr>pd_request = r, pd_outcome = PROMOTED, pd_refusals = [], pd_new_term = Some (ll_term l), pd_at = now\<rparr>"
    "\<And>persistable pid. promote ops fs persistable pid r now s s rows
        = (case record_decision persistable pid r d (Some old) rows of (res, rows') \<Rightarrow> (res, s', rows'))"
proof -
  let ?sc = "fs_scope fs"
  have w: "fs_election_controller fs = fs_controller fs" "fs_election_scope fs = ?sc" using assms(1) by (simp_all add: wired_def)
  obtain old where old: "load_lease ops s ?sc = Some old" "ll_term old = pr_term r" "ll_leader old \<noteq> fs_controller fs"
    "lease_is_expired_at old now \<or> pr_forced r" using assms(4) by (auto simp: may_take_over_def)
  have no: "request_refusals r = []" "state_refusals fs r (load_lease ops s (fs_election_scope fs)) now = []"
    using assms(4) unfolding may_take_over_iff [OF assms(1)] by simp_all
  have c: "assert_assessment_consistent (pr_assessment r) (pr_term r) = Inr ()"
    using assms(2) by (simp add: own_request_def assert_assessment_consistent_def)
  define l where "l = \<lparr>ll_scope = ?sc, ll_term = ll_term old + 1, ll_leader = fs_controller fs, ll_acquired = now,
                       ll_expires = now + fs_election_ttl fs\<rparr>"
  have "\<exists>s'. claim ops (pr_forced r) l s = Inr s'"
    by (rule claim_succeeds) (use old in \<open>auto simp: l_def\<close>)
  then obtain s' where s': "claim ops (pr_forced r) l s = Inr s'" by blast
  then have camp: "campaign ops (fs_controller fs) ?sc (fs_election_ttl fs) (pr_forced r) now s = Inr (l, s')"
    using old(1) by (simp add: campaign_def l_def Let_def)
  have lead: "load_lease ops s' = (load_lease ops s)(?sc \<mapsto> l)" using claim_stores [OF s'] by (simp add: l_def)
  have tm: "1 \<le> ll_term old" using assms(3) old(1) by (simp add: promotions_ok_def)
  let ?d = "\<lparr>pd_request = r, pd_outcome = PROMOTED, pd_refusals = [], pd_new_term = Some (ll_term l), pd_at = now\<rparr>"
  have d: "decision_from_campaign r (ll_term l) now = Inr ?d"
    using tm old(2) by (simp add: decision_from_campaign_def decision_validate_def l_def)
  have "promote ops fs persistable pid r now s s rows
      = (case record_decision persistable pid r ?d (Some old) rows of (res, rows') \<Rightarrow> (res, s', rows'))" for persistable pid
    unfolding promote_def c Let_def using no w old(1) camp d require_promotable_ok [OF no(1)] by simp
  then show thesis using that [OF old(1,2) tm lead l_def refl] by blast
qed

lemma promoted_row_valid:
  assumes "own_request fs r" "may_take_over ops' fs r now s'" "valid_ident pid" "1 \<le> ll_term old" "n = ll_term old + 1"
  shows "promotion_record pid r \<lparr>pd_request = r, pd_outcome = PROMOTED, pd_refusals = [], pd_new_term = Some n, pd_at = now\<rparr>
      (Some old)
    = Inr \<lparr>pm_id = pid, pm_scope = pr_scope r, pm_standby = pr_standby r, pm_deposed = ll_leader old,
        pm_deposed_term = ll_term old, pm_new_term = n,
        pm_operator = pr_operator r, pm_reason = pr_reason r, pm_forced = pr_forced r,
        pm_promoted = True, pm_refusals = [], pm_evidence = pr_assessment r, pm_at = now\<rparr>"
  using assms by (simp add: promotion_record_def record_validate_def own_request_def request_validate_def
      may_take_over_def split: if_splits)

lemma promote_takes_over:
  assumes "wired fs" "own_request fs r" "promotions_ok ops s rows"
    and "valid_ident pid" "pid \<notin> pm_id ` set rows" "\<forall>x. persistable x" "may_take_over ops fs r now s"
  shows "\<exists>d row l s'. promote ops fs persistable pid r now s s rows = (Inr d, s', rows @ [row])
    \<and> pd_outcome d = PROMOTED \<and> pd_new_term d = Some (ll_term l)
    \<and> load_lease ops s' = (load_lease ops s)(fs_scope fs \<mapsto> l) \<and> ll_leader l = fs_controller fs
    \<and> ll_term l = pr_term r + 1 \<and> pm_promoted row \<and> pm_new_term row = ll_term l
    \<and> promotions_ok ops s' (rows @ [row])"
proof (rule promote_claims [OF assms(1-3,7)])
  fix old l s' d
  let ?sc = "fs_scope fs"
  assume old: "load_lease ops s ?sc = Some old" "ll_term old = pr_term r" and tm: "1 \<le> ll_term old"
    and lead: "load_lease ops s' = (load_lease ops s)(?sc \<mapsto> l)"
    and l_def: "l = \<lparr>ll_scope = ?sc, ll_term = ll_term old + 1, ll_leader = fs_controller fs, ll_acquired = now,
          ll_expires = now + fs_election_ttl fs\<rparr>"
    and d: "d = \<lparr>pd_request = r, pd_outcome = PROMOTED, pd_refusals = [], pd_new_term = Some (ll_term l), pd_at = now\<rparr>"
    and p: "\<And>persistable pid. promote ops fs persistable pid r now s s rows
        = (case record_decision persistable pid r d (Some old) rows of (res, rows') \<Rightarrow> (res, s', rows'))"
  let ?row = "\<lparr>pm_id = pid, pm_scope = pr_scope r, pm_standby = pr_standby r, pm_deposed = ll_leader old,
        pm_deposed_term = ll_term old, pm_new_term = ll_term l,
        pm_operator = pr_operator r, pm_reason = pr_reason r, pm_forced = pr_forced r,
        pm_promoted = True, pm_refusals = [], pm_evidence = pr_assessment r, pm_at = now\<rparr>"
  have v: "promotion_record pid r d (Some old) = Inr ?row"
    unfolding d by (rule promoted_row_valid [OF assms(2,7,4) tm]) (simp add: l_def)
  have newer: "\<forall>x\<in>set rows. pm_scope x = pm_scope ?row \<longrightarrow> pm_new_term x \<noteq> pm_new_term ?row"
  proof (intro ballI impI)
    fix x assume x: "x \<in> set rows" "pm_scope x = pm_scope ?row"
    then have "pm_new_term x \<le> ll_term old"
      using assms(2,3) old(1) tm by (fastforce simp: promotions_ok_def own_request_def split: if_splits)
    then show "pm_new_term x \<noteq> pm_new_term ?row" by (simp add: l_def)
  qed
  have rp: "record_promotion persistable ?row rows = Inr (?row, rows @ [?row])"
    by (rule record_promotion_fresh) (use assms(5,6) newer in simp_all)
  have rec: "promote ops fs persistable pid r now s s rows = (Inr d, s', rows @ [?row])"
    by (simp only: p record_decision_def v sum.case rp prod.case)
  have "promotions_ok ops s' (rows @ [?row])"
  proof -
    have leases: "\<forall>sc x. load_lease ops s' sc = Some x \<longrightarrow> ll_scope x = sc \<and> 1 \<le> ll_term x"
      using assms(3) tm unfolding promotions_ok_def lead by (simp add: l_def)
    have "if pm_promoted x then \<exists>y. load_lease ops s' (pm_scope x) = Some y \<and> pm_new_term x \<le> ll_term y
        else pm_new_term x = 0" if x: "x \<in> set rows" for x
    proof (cases "pm_promoted x")
      case True
      then obtain y where y: "load_lease ops s (pm_scope x) = Some y" "pm_new_term x \<le> ll_term y"
        using assms(3) x unfolding promotions_ok_def by meson
      show ?thesis using True y old(1) unfolding lead by (cases "pm_scope x = ?sc") (auto simp: l_def)
    next
      case False
      then show ?thesis using assms(3) x unfolding promotions_ok_def by meson
    qed
    moreover have "load_lease ops s' (pr_scope r) = Some l" using assms(2) by (simp add: lead own_request_def)
    ultimately show ?thesis using leases unfolding promotions_ok_def by simp
  qed
  then show ?thesis using rec lead old(2)
    by (intro exI [of _ d] exI [of _ ?row] exI [of _ l] exI [of _ s']) (simp add: l_def d)
qed

end

section \<open>A promotion, and what else the model shows\<close>

definition demo_service :: FailoverService where
  "demo_service = \<lparr>fs_controller = ''b'', fs_scope = ''r'', fs_bound = 30, fs_election_controller = ''b'',
                   fs_election_scope = ''r'', fs_election_ttl = 10\<rparr>"

definition demo_held :: "string \<Rightarrow> int \<Rightarrow> instant \<Rightarrow> LeaderTables" where
  "demo_held who n until = empty_tables\<lparr>tbl_leaders :=
     [''r'' \<mapsto> \<lparr>ll_scope = ''r'', ll_term = n, ll_leader = who, ll_acquired = 0, ll_expires = until\<rparr>]\<rparr>"

definition demo_seen :: "LivenessEvidenceKind \<Rightarrow> LivenessObservation" where
  "demo_seen k = \<lparr>ob_kind = k, ob_term = 1, ob_at = 15, ob_source = ''s'', ob_detail = ''s''\<rparr>"

definition demo_request :: "bool \<Rightarrow> PromotionRequest" where
  "demo_request forced = \<lparr>pr_scope = ''r'', pr_standby = ''b'', pr_term = 1,
     pr_assessment = \<lparr>la_term = 1, la_status = DEAD, la_reason = DEATH_ESTABLISHED,
       la_admitted = [demo_seen PRIMARY_PROCESS_GONE], la_excluded = [], la_at = 20, la_bound = 30\<rparr>,
     pr_forced = forced, pr_operator = ''s'', pr_reason = ''s'', pr_at = 20\<rparr>"

lemma demo_strip: "py_strip ''s'' = ''s''"
  by code_simp

lemma demo_wired: "wired demo_service"
  by (simp add: wired_def demo_service_def)

lemma demo_held_ok: "1 \<le> n \<Longrightarrow> promotions_ok sqlite_ops (demo_held who n until) []"
  by (simp add: promotions_ok_def sqlite_ops_def demo_held_def empty_tables_def)

lemma demo_own: "own_request demo_service (demo_request forced)"
  using demo_idents by (simp add: own_request_def request_validate_def demo_request_def demo_service_def)

lemma demo_may: "may_take_over sqlite_ops demo_service (demo_request forced) 20 (demo_held ''a'' 1 10)"
  by (simp add: may_take_over_def demo_strip demo_request_def demo_service_def demo_held_def sqlite_ops_def
      lease_is_expired_at_def)

section \<open>Properties\<close>

lemma py_strip_idem [simp]: "py_strip (py_strip s) = py_strip s"
proof (cases "py_strip s = []")
  case True
  moreover have "py_strip [] = []" by (simp add: py_strip_def)
  ultimately show ?thesis by simp
next
  case False
  define t where "t = dropWhile py_isspace s"
  define u where "u = rev (dropWhile py_isspace (rev t))"
  have u: "py_strip s = u" by (simp add: py_strip_def t_def u_def)
  then have ne: "u \<noteq> []" using False by simp
  have "t = u @ rev (takeWhile py_isspace (rev t))"
    unfolding u_def by (metis rev_append rev_rev_ident takeWhile_dropWhile_id)
  then have "hd u = hd t" "t \<noteq> []" using ne by (metis hd_append2, auto)
  then have "\<not> py_isspace (hd u)" by (metis hd_dropWhile t_def)
  then have "dropWhile py_isspace u = u" using ne by (cases u) simp_all
  moreover have "\<not> py_isspace (last u)"
    using ne hd_dropWhile [of py_isspace "rev t"] by (auto simp: u_def last_rev)
  then have "dropWhile py_isspace (rev u) = rev u" using ne by (cases u rule: rev_cases) simp_all
  ultimately have "py_strip u = u" by (simp add: py_strip_def)
  then show ?thesis by (simp only: u)
qed

definition death_established :: "int \<Rightarrow> instant \<Rightarrow> duration \<Rightarrow> LivenessObservation list \<Rightarrow> bool" where
  "death_established expected now bound obs \<longleftrightarrow>
     (\<exists>ob\<in>set obs. counts expected now bound ob \<and> establishes_death ob)
     \<and> (\<forall>ob\<in>set obs. counts expected now bound ob \<longrightarrow> \<not> establishes_liveness ob)"

definition takeover_due :: "FailoverService \<Rightarrow> LivenessObservation list \<Rightarrow> bool \<Rightarrow> instant \<Rightarrow> LeaderLease \<Rightarrow> bool" where
  "takeover_due fs obs forced now l \<longleftrightarrow> ll_leader l \<noteq> fs_controller fs \<and> (lease_is_expired_at l now \<or> forced)
     \<and> death_established (ll_term l) now (fs_bound fs) obs"

lemma assess_primary_dead_iff:
  assumes "assess_primary obs expected now bound = Inr a"
  shows "la_status a = DEAD \<longleftrightarrow> death_established expected now bound obs" "la_term a = expected"
proof -
  have "1 \<le> expected" "0 < bound" using assms by (auto simp: assess_primary_def split: if_splits)
  from assess_primary_total [OF this, of obs now] assms
  have f: "la_term a = expected" "la_admitted a = filter (counts expected now bound) obs"
    "(la_status a, la_reason a) = verdict_of (la_admitted a)" by auto
  from f(3) have "la_status a = fst (verdict_of (la_admitted a))" by (metis fst_conv)
  then show "la_status a = DEAD \<longleftrightarrow> death_established expected now bound obs"
    by (auto simp: verdict_dead_iff f(2) death_established_def)
  show "la_term a = expected" by (rule f(1))
qed

text \<open>
  C7. A takeover is earned. Whatever other controllers do between the moment a promotion reads the
  lease and the moment it claims, a promotion that went through was for the term it read, against
  another controller whose lease had expired or under force, with an assessment of DEAD for that very
  term and a named operator; it leaves the scope with a term higher than the one read and than the
  one it found, so that every earlier leader is refused; and its row says so.
\<close>

theorem promotion_earned:
  assumes "promote sqlite_ops fs persistable pid r now s s' rows = (Inr d, s'', rows')" "pd_outcome d = PROMOTED"
    and "\<forall>sc l. tbl_leaders s sc = Some l \<longrightarrow> ll_scope l = sc" "pid \<notin> pm_id ` set rows"
  shows "\<exists>old new row. tbl_leaders s (fs_election_scope fs) = Some old \<and> ll_term old = pr_term r
    \<and> ll_leader old \<noteq> fs_controller fs \<and> (lease_is_expired_at old now \<or> pr_forced r)
    \<and> la_status (pr_assessment r) = DEAD \<and> la_term (pr_assessment r) = pr_term r \<and> py_strip (pr_operator r) \<noteq> []
    \<and> tbl_leaders s'' = (tbl_leaders s')(fs_election_scope fs \<mapsto> new) \<and> ll_leader new = fs_election_controller fs
    \<and> ll_term old < ll_term new
    \<and> (\<forall>cur. tbl_leaders s' (fs_election_scope fs) = Some cur \<longrightarrow> ll_term cur < ll_term new)
    \<and> require_leader sqlite_ops old t s'' = Inl LeaderNotCurrent
    \<and> rows' = rows @ [row] \<and> pm_promoted row \<and> pm_new_term row = ll_term new \<and> pm_deposed row = ll_leader old"
proof -
  let ?sc = "fs_election_scope fs"
  have o: "load_lease sqlite_ops = tbl_leaders" by (simp add: sqlite_ops_def)
  note p = promote_Inr [OF assms(1)]
  obtain old where old: "tbl_leaders s ?sc = Some old" "ll_term old = pr_term r" "ll_leader old \<noteq> fs_controller fs"
    "lease_is_expired_at old now \<or> pr_forced r"
    using p(3) [OF assms(2)] by (auto simp: state_refusals_empty_iff o)
  obtain new where new: "campaign sqlite_ops (fs_election_controller fs) ?sc (fs_election_ttl fs) (pr_forced r) now s' = Inr (new, s'')"
    "pd_new_term d = Some (ll_term new)" "pr_term r < ll_term new"
    using p(3) [OF assms(2)] by blast
  note i = sqlite.campaign_installs [OF new(1), unfolded o]
  have lead: "tbl_leaders s'' = (tbl_leaders s')(?sc \<mapsto> new)" by (rule i(1))
  have "ll_scope old = ?sc" using assms(3) old(1) by blast
  then have refused: "require_leader sqlite_ops old t s'' = Inl LeaderNotCurrent"
    using lead new(3) old(2) by (simp add: require_leader_def o)
  obtain row stored where row: "promotion_record pid r d (Some old) = Inr row"
    "record_promotion persistable row rows = Inr (stored, rows')" using p(4) old(1) by (auto simp: o)
  have f: "pm_id row = pid" "pm_promoted row" "pm_new_term row = ll_term new" "pm_deposed row = ll_leader old"
    using row(1) assms(2) new(2) by (auto simp: promotion_record_def record_validate_def split: if_splits)
  have "find (\<lambda>x. pm_id x = pm_id row) rows = None" using assms(4) f(1) unfolding find_None_iff by (metis imageI)
  then have "rows' = rows @ [row]" using row(2) by (auto simp: record_promotion_def split: if_splits)
  moreover have "la_status (pr_assessment r) = DEAD" "py_strip (pr_operator r) \<noteq> []"
    using p(3) [OF assms(2)] by (simp_all add: request_refusals_empty_iff promotable_def)
  moreover have "\<forall>cur. tbl_leaders s' ?sc = Some cur \<longrightarrow> ll_term cur < ll_term new" using i(7) by auto
  ultimately show ?thesis using old f refused lead i(4) new(3) p(1) by auto
qed

theorem promotion_earned_witness:
  "\<exists>d s'' row. promote sqlite_ops demo_service (\<lambda>_. True) ''a'' (demo_request False) 20
       (demo_held ''a'' 1 10) (demo_held ''a'' 1 10) [] = (Inr d, s'', [row])
     \<and> pm_deposed row = ''a'' \<and> (\<exists>new. tbl_leaders s'' ''r'' = Some new \<and> ll_leader new = ''b'' \<and> 1 < ll_term new)"
proof -
  let ?s = "demo_held ''a'' 1 10"
  have "\<exists>d row l s''. promote sqlite_ops demo_service (\<lambda>_. True) ''a'' (demo_request False) 20 ?s ?s []
      = (Inr d, s'', [] @ [row]) \<and> pd_outcome d = PROMOTED"
    using sqlite.promote_takes_over [OF demo_wired demo_own demo_held_ok demo_idents(4) _ _ demo_may] by fastforce
  then obtain d row s'' where p: "promote sqlite_ops demo_service (\<lambda>_. True) ''a'' (demo_request False) 20 ?s ?s []
      = (Inr d, s'', [row])" "pd_outcome d = PROMOTED" by auto
  have k: "\<forall>sc l. tbl_leaders ?s sc = Some l \<longrightarrow> ll_scope l = sc" by (simp add: demo_held_def empty_tables_def)
  have fresh: "''a'' \<notin> pm_id ` set []" by simp
  obtain old new row' where e: "tbl_leaders ?s (fs_election_scope demo_service) = Some old"
    "tbl_leaders s'' = (tbl_leaders ?s)(fs_election_scope demo_service \<mapsto> new)"
    "ll_leader new = fs_election_controller demo_service" "ll_term old < ll_term new" "[row] = [] @ [row']"
    "pm_deposed row' = ll_leader old"
    using promotion_earned [OF p k fresh] by blast
  then have "ll_leader old = ''a''" "ll_term old = 1" by (auto simp: demo_held_def demo_service_def)
  with p e show ?thesis by (auto simp: demo_service_def)
qed



text \<open>
  A missing heartbeat or an unreachable probe is counted as evidence that the primary is alive: it
  vetoes any promotion, and alone it makes the verdict ALIVE. A refusal needs no reason. A forced
  promotion takes the scope from whoever claimed it in between, on the evidence of an earlier term, and
  its row names the leader it read. And when the row cannot be written the scope has moved already: the
  promotion is on no record, and presenting the request again records a refusal.
\<close>

lemma silence_vetoes:
  assumes "assess_primary obs expected now bound = Inr a" "ob \<in> set obs" "counts expected now bound ob"
    and "ob_kind ob = HEARTBEAT_MISSING \<or> ob_kind ob = PROBE_UNREACHABLE"
  shows "la_status a \<noteq> DEAD"
  using assms assess_primary_dead_iff(1) [OF assms(1)]
  by (auto simp: death_established_def establishes_liveness_def liveness_evidence_def)

lemma unreachable_is_alive:
  "\<exists>a. assess_primary [demo_seen PROBE_UNREACHABLE] 1 20 30 = Inr a \<and> la_status a = ALIVE
     \<and> la_reason a = LIVENESS_OBSERVED"
  by (simp add: assess_primary_def demo_seen_def screen_def age_at_def verdict_of_def establishes_death_def
      establishes_liveness_def death_evidence_def liveness_evidence_def assessment_validate_def Let_def)

lemma refusal_without_reason:
  "decision_validate \<lparr>pd_request = r, pd_outcome = REFUSED, pd_refusals = [], pd_new_term = None, pd_at = t\<rparr>
     = Inr \<lparr>pd_request = r, pd_outcome = REFUSED, pd_refusals = [], pd_new_term = None, pd_at = t\<rparr>"
  by (simp add: decision_validate_def)

lemma forced_deposes_unseen:
  "\<exists>d s'' row. promote sqlite_ops demo_service (\<lambda>_. True) ''a'' (demo_request True) 20
       (demo_held ''a'' 1 10) (demo_held ''agent'' 2 99) [] = (Inr d, s'', [row])
     \<and> pd_outcome d = PROMOTED \<and> pm_deposed row = ''a'' \<and> pm_deposed_term row = 1 \<and> pm_new_term row = 3"
proof -
  have no: "request_refusals (demo_request True) = []"
    by (simp add: request_refusals_empty_iff promotable_def demo_strip demo_request_def)
  show ?thesis
    using no require_promotable_ok [OF no, of 20] demo_idents demo_strip
    by (simp add: promote_def assert_assessment_consistent_def state_refusals_def demo_service_def demo_held_def sqlite_ops_def
        campaign_def sqlite_claim_def decision_from_campaign_def decision_validate_def record_decision_def
        promotion_record_def record_validate_def record_promotion_def lease_is_expired_at_def Let_def)
      (simp add: demo_request_def demo_strip record_promotion_def)
qed

lemma unrecorded_takeover:
  assumes "wired fs" "may_take_over sqlite_ops fs r now s" "own_request fs r" "promotions_ok sqlite_ops s rows"
    and "valid_ident pid" "\<forall>x. \<not> persistable x"
  shows "\<exists>s' new. promote sqlite_ops fs persistable pid r now s s rows = (Inl Unpersistable, s', rows)
    \<and> tbl_leaders s' (fs_scope fs) = Some new \<and> ll_leader new = fs_controller fs \<and> ll_term new = pr_term r + 1
    \<and> TERM_MOVED \<in> set (state_refusals fs r (tbl_leaders s' (fs_scope fs)) later)"
proof (rule sqlite.promote_claims [OF assms(1,3,4,2)])
  fix old l s' d
  have o: "load_lease sqlite_ops = tbl_leaders" by (simp add: sqlite_ops_def)
  assume old: "ll_term old = pr_term r" "1 \<le> ll_term old"
    and lead: "load_lease sqlite_ops s' = (load_lease sqlite_ops s)(fs_scope fs \<mapsto> l)"
    and l: "l = \<lparr>ll_scope = fs_scope fs, ll_term = ll_term old + 1, ll_leader = fs_controller fs, ll_acquired = now,
          ll_expires = now + fs_election_ttl fs\<rparr>"
    and d: "d = \<lparr>pd_request = r, pd_outcome = PROMOTED, pd_refusals = [], pd_new_term = Some (ll_term l), pd_at = now\<rparr>"
    and p: "\<And>persistable pid. promote sqlite_ops fs persistable pid r now s s rows
        = (case record_decision persistable pid r d (Some old) rows of (res, rows') \<Rightarrow> (res, s', rows'))"
  have "\<exists>row. promotion_record pid r d (Some old) = Inr row"
    unfolding d using sqlite.promoted_row_valid [OF assms(3,2,5) old(2), of "ll_term l"] by (simp add: l)
  then have "promote sqlite_ops fs persistable pid r now s s rows = (Inl Unpersistable, s', rows)"
    using assms(6) by (auto simp: p record_decision_def record_promotion_def)
  then show ?thesis using lead old(1) unfolding o by (auto simp: l state_refusals_def)
qed

end
