(* ===== verification/Identity_Scope.thy ===== *)
theory Identity_Scope
  imports Python_Text
begin

text \<open>
  \<open>domain/identity.py\<close>: the keys under which workloads and processes are stored, and the
  enterprise vocabulary of principals, memberships, environment scopes and role grants that decides
  who may approve and who may execute.
\<close>

section \<open>Runtime identities and their keys\<close>

record RuntimeIdentity =
  ri_runtime :: string
  ri_host :: "string option"
  ri_id :: string

definition runtime_identity_validate :: "RuntimeIdentity \<Rightarrow> py_error + RuntimeIdentity" where
  "runtime_identity_validate i =
     (if py_strip (ri_runtime i) = [] \<or> py_strip (ri_id i) = [] then Inl ValueErr else Inr i)"

definition runtime_resolve_key :: "RuntimeIdentity \<Rightarrow> string" where
  "runtime_resolve_key i = ri_runtime i @ ''|'' @ or_empty (ri_host i) @ ''|'' @ ri_id i"

definition runtime_from_key :: "string \<Rightarrow> py_error + RuntimeIdentity" where
  "runtime_from_key key =
     (case py_split (CHR ''|'') 2 key of
        [runtime, host, rid] \<Rightarrow>
          runtime_identity_validate \<lparr>ri_runtime = runtime, ri_host = or_none host, ri_id = rid\<rparr>
      | _ \<Rightarrow> Inl ValueErr)"

record ProcessRuntimeIdentity =
  pi_host :: string
  pi_pid :: int
  pi_boot :: "int option"
  pi_container :: "string option"

definition process_identity_validate :: "ProcessRuntimeIdentity \<Rightarrow> py_error + ProcessRuntimeIdentity" where
  "process_identity_validate i = (if pi_pid i \<le> 0 then Inl ValueErr else Inr i)"

definition process_resolve_key :: "ProcessRuntimeIdentity \<Rightarrow> string" where
  "process_resolve_key i =
     pi_host i @ ''|'' @ py_str (pi_pid i) @ ''|''
     @ (case pi_boot i of None \<Rightarrow> [] | Some b \<Rightarrow> if b = 0 then [] else py_str b) @ ''|''
     @ or_empty (pi_container i)"

definition process_from_key :: "string \<Rightarrow> py_error + ProcessRuntimeIdentity" where
  "process_from_key key =
     (case py_split (CHR ''|'') 3 key of
        [host, pid, boot, container] \<Rightarrow>
          (case (py_int pid, if boot = [] then Some None else map_option Some (py_int boot)) of
             (Some p, Some b) \<Rightarrow>
               process_identity_validate
                 \<lparr>pi_host = host, pi_pid = p, pi_boot = b, pi_container = or_none container\<rparr>
           | _ \<Rightarrow> Inl ValueErr)
      | _ \<Rightarrow> Inl ValueErr)"

section \<open>Principals, scopes, grants\<close>

datatype PrincipalKind = HUMAN | SERVICE_ACCOUNT | WORKLOAD

record Principal =
  pp_id :: string
  pp_kind :: PrincipalKind
  pp_display :: string
  pp_email :: string
  pp_external :: string
  pp_disabled :: bool

definition trimmed :: "string \<Rightarrow> bool" where
  "trimmed s \<longleftrightarrow> py_strip s \<noteq> [] \<and> s = py_strip s"

definition principal_validate :: "Principal \<Rightarrow> py_error + Principal" where
  "principal_validate p =
     (if \<not> trimmed (pp_id p) then Inl (InvariantViolation ''principal_id_not_blank'') else Inr p)"

text \<open>Equality of principals, which compares the id and nothing else.\<close>

definition same_principal :: "Principal \<Rightarrow> Principal \<Rightarrow> bool" where
  "same_principal a b \<longleftrightarrow> pp_id a = pp_id b"

definition valid_team_id :: "string \<Rightarrow> bool" where
  "valid_team_id s \<longleftrightarrow> s \<noteq> [] \<and> length s \<le> 128
     \<and> hd s \<in> set ''abcdefghijklmnopqrstuvwxyz0123456789''
     \<and> set (tl s) \<subseteq> set ''abcdefghijklmnopqrstuvwxyz0123456789._:-''"

record TeamMembership =
  tm_principal :: Principal
  tm_team :: string
  tm_joined :: instant
  tm_until :: "instant option"

definition membership_validate :: "TeamMembership \<Rightarrow> py_error + TeamMembership" where
  "membership_validate m =
     (if \<not> valid_team_id (tm_team m) then Inl ValueErr
      else if (case tm_until m of None \<Rightarrow> False | Some u \<Rightarrow> u \<le> tm_joined m)
      then Inl (InvariantViolation ''membership.window'')
      else Inr m)"

definition membership_is_active :: "TeamMembership \<Rightarrow> instant \<Rightarrow> bool" where
  "membership_is_active m now \<longleftrightarrow>
     \<not> pp_disabled (tm_principal m) \<and> (case tm_until m of None \<Rightarrow> True | Some u \<Rightarrow> now < u)"

record EnvironmentScope =
  es_environment :: string
  es_project :: string
  es_organization :: string

definition any_environment :: string where
  "any_environment = ''*''"

definition scope_validate :: "EnvironmentScope \<Rightarrow> py_error + EnvironmentScope" where
  "scope_validate s =
     (if \<not> trimmed (es_environment s) then Inl (InvariantViolation ''environment_not_blank'')
      else if (es_project s \<noteq> [] \<and> es_project s \<noteq> py_strip (es_project s))
              \<or> (es_organization s \<noteq> [] \<and> es_organization s \<noteq> py_strip (es_organization s))
      then Inl (InvariantViolation ''scope_field_not_trimmed'')
      else Inr s)"

definition is_wildcard :: "EnvironmentScope \<Rightarrow> bool" where
  "is_wildcard s \<longleftrightarrow> es_environment s = any_environment"

definition contradicts :: "string \<Rightarrow> string \<Rightarrow> bool" where
  "contradicts left right \<longleftrightarrow> left \<noteq> [] \<and> right \<noteq> [] \<and> left \<noteq> right"

definition covers :: "EnvironmentScope \<Rightarrow> EnvironmentScope \<Rightarrow> bool" where
  "covers s other \<longleftrightarrow>
     \<not> (\<not> is_wildcard s \<and> es_environment s \<noteq> es_environment other)
     \<and> \<not> contradicts (es_organization s) (es_organization other)
     \<and> \<not> contradicts (es_project s) (es_project other)"

datatype Role = VIEW | DESIGN | PLAN | APPROVE | EXECUTE | EMERGENCY_STOP | ADMINISTER | EVIDENCE_ADMIN

record RoleGrant =
  rg_role :: Role
  rg_scope :: EnvironmentScope
  rg_principal :: "Principal option"
  rg_team :: string
  rg_granted :: instant
  rg_expires :: "instant option"
  rg_granted_by :: string
  rg_ticket :: string

text \<open>The default of \<open>team_id\<close> is not checked against its pattern; a stated one is.\<close>

definition grant_validate :: "bool \<Rightarrow> RoleGrant \<Rightarrow> py_error + RoleGrant" where
  "grant_validate team_stated g =
     (if team_stated \<and> \<not> valid_team_id (rg_team g) then Inl ValueErr
      else if (rg_principal g \<noteq> None) = (rg_team g \<noteq> []) then Inl (InvariantViolation ''role_grant.addressee'')
      else if (case rg_expires g of None \<Rightarrow> False | Some e \<Rightarrow> e \<le> rg_granted g)
      then Inl (InvariantViolation ''role_grant.window'')
      else Inr g)"

definition addressee :: "RoleGrant \<Rightarrow> string" where
  "addressee g = (case rg_principal g of Some p \<Rightarrow> pp_id p | None \<Rightarrow> rg_team g)"

definition grant_is_active :: "RoleGrant \<Rightarrow> instant \<Rightarrow> bool" where
  "grant_is_active g now \<longleftrightarrow> (case rg_expires g of None \<Rightarrow> True | Some e \<Rightarrow> now < e)"

definition applies_to ::
  "RoleGrant \<Rightarrow> Principal \<Rightarrow> EnvironmentScope \<Rightarrow> TeamMembership list \<Rightarrow> instant \<Rightarrow> bool" where
  "applies_to g p scope memberships now =
     (if pp_disabled p \<or> \<not> grant_is_active g now then False
      else if \<not> covers (rg_scope g) scope then False
      else case rg_principal g of
             Some q \<Rightarrow> same_principal q p
           | None \<Rightarrow> list_ex (\<lambda>m. same_principal (tm_principal m) p \<and> tm_team m = rg_team g
                                \<and> membership_is_active m now) memberships)"

definition team_ids_for :: "Principal \<Rightarrow> TeamMembership list \<Rightarrow> instant \<Rightarrow> string set" where
  "team_ids_for p memberships now =
     set (map tm_team (filter (\<lambda>m. same_principal (tm_principal m) p \<and> membership_is_active m now) memberships))"

definition effective_roles ::
  "RoleGrant list \<Rightarrow> Principal \<Rightarrow> EnvironmentScope \<Rightarrow> TeamMembership list \<Rightarrow> instant \<Rightarrow> Role set" where
  "effective_roles grants p scope memberships now =
     set (map rg_role (filter (\<lambda>g. applies_to g p scope memberships now) grants))"

definition has_role ::
  "RoleGrant list \<Rightarrow> Principal \<Rightarrow> Role \<Rightarrow> EnvironmentScope \<Rightarrow> TeamMembership list \<Rightarrow> instant \<Rightarrow> bool" where
  "has_role grants p role scope memberships now \<longleftrightarrow> role \<in> effective_roles grants p scope memberships now"

section \<open>Keys round trip\<close>

lemma or_none_or_empty: "x \<noteq> Some [] \<Longrightarrow> or_none (or_empty x) = x"
  by (cases x) (auto simp: or_none_def or_empty_def)

lemma decimal_no_bar: "CHR ''|'' \<notin> set (decimal n)"
  using decimal_digits [of "CHR ''|''" n] by (auto simp: is_digit_def)

lemma py_int_decimal: "py_int (decimal n) = Some (int n)"
  using py_int_digits [of "decimal n"] decimal_digits digits_value_decimal by auto

definition bar_free :: "string \<Rightarrow> bool" where
  "bar_free s \<longleftrightarrow> CHR ''|'' \<notin> set s"

text \<open>
  Stored identities read back. A workload identity whose runtime and host hold no separator and
  whose host, when given, is not empty is rebuilt from its key as it was, whatever its object id holds;
  so is a process identity with such a host, a positive pid, a boot time that is absent or positive,
  and a container that is absent or not empty. So two such identities have one key only if they are one.
\<close>

theorem identity_keys_roundtrip:
  assumes "runtime_identity_validate i = Inr i" "bar_free (ri_runtime i)" "bar_free (or_empty (ri_host i))" "ri_host i \<noteq> Some []"
    and "process_identity_validate p = Inr p" "bar_free (pi_host p)" "\<forall>b. pi_boot p = Some b \<longrightarrow> 0 < b" "pi_container p \<noteq> Some []"
  shows "runtime_from_key (runtime_resolve_key i) = Inr i \<and> process_from_key (process_resolve_key p) = Inr p"
proof
  have n: "(2::nat) = Suc (Suc 0)" "(3::nat) = Suc (Suc (Suc 0))" by simp_all
  have "py_split (CHR ''|'') 2 (runtime_resolve_key i) = [ri_runtime i, or_empty (ri_host i), ri_id i]"
    using assms(2,3) py_split_step unfolding n runtime_resolve_key_def bar_free_def by simp
  then show "runtime_from_key (runtime_resolve_key i) = Inr i"
    using assms(1,4) by (cases i) (simp add: runtime_from_key_def or_none_or_empty)
  define boot where "boot = (case pi_boot p of None \<Rightarrow> [] | Some b \<Rightarrow> if b = 0 then [] else py_str b)"
  have pid: "py_str (pi_pid p) = decimal (nat (pi_pid p))" "0 < pi_pid p"
    using assms(5) by (auto simp: process_identity_validate_def py_str_def split: if_splits)
  have boot: "bar_free boot" "(if boot = [] then Some None else map_option Some (py_int boot)) = Some (pi_boot p)"
    using assms(7) by (cases "pi_boot p"; auto simp: boot_def bar_free_def py_str_def decimal_no_bar py_int_decimal)+
  have "py_split (CHR ''|'') 3 (process_resolve_key p)
      = [pi_host p, py_str (pi_pid p), boot, or_empty (pi_container p)]"
    using assms(6) boot(1) py_split_step decimal_no_bar
    unfolding n process_resolve_key_def bar_free_def pid(1) boot_def [symmetric] by (simp del: py_split.simps(2))
  then have "process_from_key (process_resolve_key p)
      = process_identity_validate \<lparr>pi_host = pi_host p, pi_pid = pi_pid p, pi_boot = pi_boot p, pi_container = pi_container p\<rparr>"
    using pid assms(8) unfolding process_from_key_def by (simp add: boot(2) py_int_decimal or_none_or_empty)
  then show "process_from_key (process_resolve_key p) = Inr p" using assms(5) by (cases p) simp
qed

theorem identity_keys_roundtrip_witness:
  "runtime_from_key (runtime_resolve_key \<lparr>ri_runtime = ''docker'', ri_host = Some ''h'', ri_id = ''a|b''\<rparr>)
     = Inr \<lparr>ri_runtime = ''docker'', ri_host = Some ''h'', ri_id = ''a|b''\<rparr>
   \<and> process_from_key (process_resolve_key \<lparr>pi_host = ''h'', pi_pid = 7, pi_boot = Some 5, pi_container = None\<rparr>)
     = Inr \<lparr>pi_host = ''h'', pi_pid = 7, pi_boot = Some 5, pi_container = None\<rparr>"
proof -
  have "py_strip ''docker'' \<noteq> []" "py_strip ''a|b'' \<noteq> []" by code_simp+
  then show ?thesis
    by (intro identity_keys_roundtrip)
      (simp_all add: runtime_identity_validate_def process_identity_validate_def bar_free_def or_empty_def)
qed

text \<open>A process started at tick zero shares its key with one whose start is unknown.\<close>

lemma boot_zero_is_unknown:
  "process_resolve_key \<lparr>pi_host = h, pi_pid = n, pi_boot = Some 0, pi_container = c\<rparr>
     = process_resolve_key \<lparr>pi_host = h, pi_pid = n, pi_boot = None, pi_container = c\<rparr>"
  by (simp add: process_resolve_key_def)

section \<open>Who holds what\<close>

lemma covers_refl [simp]: "covers s s"
  by (simp add: covers_def contradicts_def)

lemma same_principal_refl [simp]: "same_principal p p"
  by (simp add: same_principal_def)

lemma applies_to_team:
  "rg_principal g = None \<Longrightarrow> applies_to g p scope ms now \<longleftrightarrow>
     \<not> pp_disabled p \<and> grant_is_active g now \<and> covers (rg_scope g) scope \<and> rg_team g \<in> team_ids_for p ms now"
  by (auto simp: applies_to_def team_ids_for_def list_ex_iff image_iff)

lemma applies_to_principal:
  "rg_principal g = Some q \<Longrightarrow> applies_to g p scope ms now \<longleftrightarrow>
     \<not> pp_disabled p \<and> grant_is_active g now \<and> covers (rg_scope g) scope \<and> same_principal q p"
  by (simp add: applies_to_def)

lemma disabled_holds_nothing: "pp_disabled p \<Longrightarrow> effective_roles grants p scope ms now = {}"
  by (simp add: effective_roles_def applies_to_def)

lemma effective_roles_mono:
  "set grants \<subseteq> set grants' \<Longrightarrow> set ms \<subseteq> set ms' \<Longrightarrow>
     effective_roles grants p scope ms now \<subseteq> effective_roles grants' p scope ms' now"
proof -
  assume g: "set grants \<subseteq> set grants'" and m: "set ms \<subseteq> set ms'"
  have "applies_to g p scope ms now \<Longrightarrow> applies_to g p scope ms' now" for g
    using m by (cases "rg_principal g") (auto simp: applies_to_def list_ex_iff split: if_splits)
  with g show ?thesis by (auto simp: effective_roles_def)
qed

text \<open>
  Roles only ever lapse: the passage of time takes roles away and never gives one, for
  \<open>granted_at\<close> and \<open>joined_at\<close> are not consulted, so that a grant or a membership is in force
  before it begins.
\<close>

lemma effective_roles_lapse:
  assumes "now \<le> later"
  shows "effective_roles grants p scope ms later \<subseteq> effective_roles grants p scope ms now"
proof -
  have m: "membership_is_active m later \<Longrightarrow> membership_is_active m now" for m
    using assms by (auto simp: membership_is_active_def split: option.splits)
  have "applies_to g p scope ms later \<Longrightarrow> applies_to g p scope ms now" for g
    using assms m by (auto simp: applies_to_def grant_is_active_def list_ex_iff split: option.splits if_splits)
  then show ?thesis by (auto simp: effective_roles_def)
qed

lemma grant_active_before_granted: "rg_expires g = None \<Longrightarrow> now < rg_granted g \<Longrightarrow> grant_is_active g now"
  by (simp add: grant_is_active_def)

text \<open>
  The flag \<open>disabled\<close> is read off the copy of the principal that asks, not off the grant's: the
  record that disables a principal has no effect on a copy made before.
\<close>

lemma disabled_record_ignored:
  assumes "rg_principal g = Some (p\<lparr>pp_disabled := True\<rparr>)" "\<not> pp_disabled p" "rg_expires g = None"
  shows "rg_role g \<in> effective_roles [g] p (rg_scope g) ms now"
  using assms by (simp add: effective_roles_def applies_to_def grant_is_active_def same_principal_def)

end
