(* ===== verification/Safety_Case.thy ===== *)
theory Safety_Case
  imports Mayhem_Prelude
begin

text \<open>
  \<open>domain/safety_proof.py\<close>: the obligations a plan had to satisfy, with the gate outputs they cite,
  the verdict of the proof, and the residue lines that are discharged after the run. The digest of a
  whole proof (a hash of its JSON form) and the texts of details are left out.
\<close>

section \<open>Lines\<close>

definition hex_digest :: "string \<Rightarrow> bool" where
  "hex_digest s \<longleftrightarrow> length s = 64 \<and> list_all (\<lambda>c. c \<in> set ''0123456789abcdef'') s"

datatype ObligationStatus = OB_PASS | OB_FAIL | OB_VOID

datatype ProofVerdict = PROOF_PASS | PROOF_FAIL | PROOF_VOID

definition required_obligations :: "string list" where
  "required_obligations =
     [''max_concurrent_faults'', ''max_duration'', ''damage_budget'', ''target_policy'',
      ''capability_requirements'', ''compensation'', ''recovery_path'', ''stop_conditions'', ''required_approvals'']"

datatype ResiduePredicate =
    NO_TC_RULES | NO_IPTABLES_ENTRIES | NO_MARKER_PROCESSES | NO_FILES | NO_CGROUP_OVERRIDES | NO_LEASES_HELD

definition residue_predicate_order :: "ResiduePredicate list" where
  "residue_predicate_order =
     [NO_TC_RULES, NO_IPTABLES_ENTRIES, NO_MARKER_PROCESSES, NO_FILES, NO_CGROUP_OVERRIDES, NO_LEASES_HELD]"

definition residue_obligation_name :: "string \<Rightarrow> string" where
  "residue_obligation_name fault = ''residue:'' @ fault"

text \<open>A line is an obligation, or, with the fault and the predicates stated, a residue obligation.\<close>

record ProofLine =
  pl_name :: string
  pl_status :: ObligationStatus
  pl_gate :: string
  pl_evidence :: string
  pl_at :: instant
  pl_residue :: "(string \<times> ResiduePredicate list) option"

definition line_validate :: "ProofLine \<Rightarrow> py_error + ProofLine" where
  "line_validate l =
     (if py_strip (pl_name l) = [] \<or> pl_name l \<noteq> py_strip (pl_name l)
      then Inl (InvariantViolation ''obligation_name_not_blank'')
      else if pl_status l = OB_PASS \<and> \<not> hex_digest (pl_gate l)
      then Inl (InvariantViolation ''pass_requires_cited_gate_digest'')
      else if pl_status l = OB_PASS \<and> py_strip (pl_evidence l) = []
      then Inl (InvariantViolation ''pass_requires_citation'')
      else case pl_residue l of
             None \<Rightarrow> Inr l
           | Some (fault, preds) \<Rightarrow>
               if set preds \<noteq> set residue_predicate_order then Inl (InvariantViolation ''residue_predicates_incomplete'')
               else if pl_name l \<noteq> residue_obligation_name fault
               then Inl (InvariantViolation ''residue_name_not_canonical'')
               else Inr l)"

text \<open>Building a residue line without a name takes the canonical one.\<close>

definition default_name :: "ProofLine \<Rightarrow> ProofLine" where
  "default_name l =
     (case pl_residue l of
        None \<Rightarrow> l
      | Some (fault, _) \<Rightarrow>
          if py_strip (pl_name l) = [] \<and> py_strip fault \<noteq> [] then l\<lparr>pl_name := residue_obligation_name fault\<rparr> else l)"

record ResidueScan =
  rs_fault :: string
  rs_scanned :: bool
  rs_dirty :: "ResiduePredicate list"
  rs_gate :: string
  rs_evidence :: string
  rs_at :: instant

definition scan_validate :: "ResidueScan \<Rightarrow> py_error + ResidueScan" where
  "scan_validate s =
     (if \<not> distinct (rs_dirty s) then Inl (InvariantViolation ''residue_scan_no_duplicates'')
      else if rs_scanned s \<and> rs_dirty s \<noteq> [] \<and> py_strip (rs_gate s) = []
      then Inl (InvariantViolation ''residue_finding_requires_citation'')
      else Inr s)"

definition rebuild_line :: "ProofLine \<Rightarrow> ObligationStatus \<Rightarrow> ResidueScan \<Rightarrow> py_error + ProofLine" where
  "rebuild_line l status s =
     line_validate (default_name (l\<lparr>pl_status := status, pl_gate := rs_gate s, pl_evidence := rs_evidence s,
                                    pl_at := rs_at s\<rparr>))"

definition line_discharged :: "ProofLine \<Rightarrow> bool" where
  "line_discharged l \<longleftrightarrow> pl_status l \<noteq> OB_VOID"

text \<open>\<open>discharge\<close> is a method of residue lines only.\<close>

definition discharge :: "ProofLine \<Rightarrow> ResidueScan \<Rightarrow> py_error + ProofLine" where
  "discharge l s =
     (case pl_residue l of
        None \<Rightarrow> Inl AttributeErr
      | Some (fault, preds) \<Rightarrow>
          if rs_fault s \<noteq> fault then Inl (InvariantViolation ''residue_scan_fault_mismatch'')
          else if \<not> rs_scanned s then rebuild_line l OB_FAIL s
          else if filter (\<lambda>p. p \<in> set preds) (rs_dirty s) \<noteq> [] then rebuild_line l OB_VOID s
          else rebuild_line l OB_PASS s)"

section \<open>The proof\<close>

record SafetyProof =
  sp_plan :: string
  sp_lines :: "ProofLine list"
  sp_verdict :: ProofVerdict
  sp_void_reason :: string
  sp_at :: instant

definition missing_obligations :: "SafetyProof \<Rightarrow> string list" where
  "missing_obligations p = filter (\<lambda>n. n \<notin> pl_name ` set (sp_lines p)) required_obligations"

definition find_obligation :: "SafetyProof \<Rightarrow> string \<Rightarrow> ProofLine option" where
  "find_obligation p n = find (\<lambda>l. pl_name l = n) (sp_lines p)"

definition recompute_verdict :: "SafetyProof \<Rightarrow> ProofVerdict" where
  "recompute_verdict p =
     (if list_ex (\<lambda>l. pl_status l = OB_VOID) (sp_lines p) then PROOF_VOID
      else if list_ex (\<lambda>l. pl_status l = OB_FAIL) (sp_lines p) then PROOF_FAIL
      else if sp_lines p = [] \<or> missing_obligations p \<noteq> [] then PROOF_VOID
      else PROOF_PASS)"

definition proof_validate :: "SafetyProof \<Rightarrow> py_error + SafetyProof" where
  "proof_validate p =
     (if \<not> hex_digest (sp_plan p) then Inl (InvariantViolation ''plan_digest_not_canonical'')
      else if \<not> distinct (map pl_name (sp_lines p)) then Inl (InvariantViolation ''obligation_names_unique'')
      else if sp_verdict p \<noteq> PROOF_VOID \<and> sp_void_reason p \<noteq> []
      then Inl (InvariantViolation ''void_reason_only_when_void'')
      else if sp_verdict p = PROOF_VOID \<and> sp_void_reason p = []
      then Inl (InvariantViolation ''void_proof_requires_reason'')
      else if sp_verdict p \<noteq> PROOF_VOID \<and> sp_verdict p \<noteq> recompute_verdict p
      then Inl (InvariantViolation ''verdict_must_match_obligations'')
      else Inr p)"

datatype VoidReason = PlanSuperseded | ObligationsAbsent "string list" | NoObligations

definition void_reasons :: "SafetyProof \<Rightarrow> string \<Rightarrow> VoidReason list" where
  "void_reasons p d =
     (if sp_plan p \<noteq> d then [PlanSuperseded] else [])
     @ (if missing_obligations p \<noteq> [] then [ObligationsAbsent (missing_obligations p)] else [])
     @ (if sp_lines p = [] then [NoObligations] else [])"

definition evaluate :: "SafetyProof \<Rightarrow> string \<Rightarrow> ProofVerdict" where
  "evaluate p d = (if void_reasons p d \<noteq> [] then PROOF_VOID else recompute_verdict p)"

definition proof_is_valid :: "SafetyProof \<Rightarrow> string \<Rightarrow> bool" where
  "proof_is_valid p d \<longleftrightarrow> evaluate p d = PROOF_PASS"

text \<open>The rendering of the reasons, which is never empty, is an argument.\<close>

definition voided :: "(VoidReason list \<Rightarrow> string) \<Rightarrow> SafetyProof \<Rightarrow> string \<Rightarrow> py_error + SafetyProof" where
  "voided render p d =
     (if void_reasons p d = [] then Inr p
      else proof_validate (p\<lparr>sp_verdict := PROOF_VOID, sp_void_reason := render (void_reasons p d)\<rparr>))"

definition proof_ok :: "SafetyProof \<Rightarrow> bool" where
  "proof_ok p \<longleftrightarrow> proof_validate p = Inr p \<and> (\<forall>l\<in>set (sp_lines p). line_validate l = Inr l)"

section \<open>Properties\<close>

lemma line_pass_cited:
  "line_validate l = Inr l \<Longrightarrow> pl_status l = OB_PASS \<Longrightarrow> hex_digest (pl_gate l) \<and> py_strip (pl_evidence l) \<noteq> []"
  by (auto simp: line_validate_def split: if_splits)

lemma line_validate_Inr: "line_validate l = Inr l' \<Longrightarrow> l' = l"
  by (auto simp: line_validate_def split: if_splits option.splits prod.splits)

lemma missing_Nil_iff: "missing_obligations p = [] \<longleftrightarrow> set required_obligations \<subseteq> pl_name ` set (sp_lines p)"
  by (auto simp: missing_obligations_def filter_empty_iff_all)

lemma not_pass_iff: "x \<noteq> OB_PASS \<longleftrightarrow> x = OB_VOID \<or> x = OB_FAIL"
  by (cases x) auto

lemma recompute_pass_iff:
  "recompute_verdict p = PROOF_PASS \<longleftrightarrow>
     (\<forall>l\<in>set (sp_lines p). pl_status l = OB_PASS) \<and> set required_obligations \<subseteq> pl_name ` set (sp_lines p)"
proof -
  have "sp_lines p = [] \<Longrightarrow> missing_obligations p \<noteq> []"
    by (simp add: missing_obligations_def required_obligations_def)
  then show ?thesis
    by (auto simp: recompute_verdict_def list_ex_iff missing_Nil_iff [symmetric] not_pass_iff split: if_splits)
      (metis ObligationStatus.exhaust)+
qed

lemma evaluate_pass_iff:
  "evaluate p d = PROOF_PASS \<longleftrightarrow> sp_plan p = d \<and> recompute_verdict p = PROOF_PASS"
proof -
  have "recompute_verdict p = PROOF_PASS \<Longrightarrow> missing_obligations p = [] \<and> sp_lines p \<noteq> []"
    by (auto simp: recompute_verdict_def split: if_splits)
  then show ?thesis by (auto simp: evaluate_def void_reasons_def)
qed

text \<open>
  C34. A proof says no more than its evidence. A proof that was built is valid for a plan exactly when it
  is of that plan's digest, carries each of the nine required checks, and every line passed citing a
  gate digest and an evidence reference; a verdict of PASS is stored only then; and a proof voided for
  another plan is stored as VOID, where validity for its own plan is left to the lines.
\<close>

theorem proof_no_stronger_than_evidence:
  assumes "proof_ok p" "render (void_reasons p d) \<noteq> []"
  shows "(proof_is_valid p d \<longleftrightarrow> sp_plan p = d \<and> set required_obligations \<subseteq> pl_name ` set (sp_lines p)
      \<and> (\<forall>l\<in>set (sp_lines p). pl_status l = OB_PASS \<and> hex_digest (pl_gate l) \<and> py_strip (pl_evidence l) \<noteq> []))
    \<and> (sp_verdict p = PROOF_PASS \<longrightarrow> proof_is_valid p (sp_plan p))
    \<and> (sp_plan p \<noteq> d \<longrightarrow> (\<exists>q. voided render p d = Inr q \<and> proof_ok q \<and> sp_verdict q = PROOF_VOID
          \<and> \<not> proof_is_valid q d \<and> proof_is_valid q (sp_plan p) = proof_is_valid p (sp_plan p)))"
proof (intro conjI impI)
  show "proof_is_valid p d \<longleftrightarrow> sp_plan p = d \<and> set required_obligations \<subseteq> pl_name ` set (sp_lines p)
      \<and> (\<forall>l\<in>set (sp_lines p). pl_status l = OB_PASS \<and> hex_digest (pl_gate l) \<and> py_strip (pl_evidence l) \<noteq> [])"
    using assms(1) line_pass_cited
    by (auto simp: proof_is_valid_def evaluate_pass_iff recompute_pass_iff proof_ok_def)
next
  assume "sp_verdict p = PROOF_PASS"
  then have "recompute_verdict p = PROOF_PASS"
    using assms(1) by (auto simp: proof_ok_def proof_validate_def split: if_splits)
  then show "proof_is_valid p (sp_plan p)" by (simp add: proof_is_valid_def evaluate_pass_iff)
next
  assume moved: "sp_plan p \<noteq> d"
  let ?q = "p\<lparr>sp_verdict := PROOF_VOID, sp_void_reason := render (void_reasons p d)\<rparr>"
  have v: "proof_validate ?q = Inr ?q"
    using assms by (auto simp: proof_ok_def proof_validate_def split: if_splits)
  have "voided render p d = Inr ?q"
    using v moved by (simp add: voided_def void_reasons_def)
  moreover have "proof_ok ?q" using assms(1) v by (simp add: proof_ok_def)
  moreover have "recompute_verdict ?q = recompute_verdict p"
    by (simp add: recompute_verdict_def missing_obligations_def)
  ultimately show "\<exists>q. voided render p d = Inr q \<and> proof_ok q \<and> sp_verdict q = PROOF_VOID
      \<and> \<not> proof_is_valid q d \<and> proof_is_valid q (sp_plan p) = proof_is_valid p (sp_plan p)"
    using moved by (intro exI [of _ ?q]) (simp add: proof_is_valid_def evaluate_pass_iff)
qed

definition demo_digest :: "char \<Rightarrow> string" where
  "demo_digest c = replicate 64 c"

definition demo_proof :: SafetyProof where
  "demo_proof = \<lparr>sp_plan = demo_digest (CHR ''a''),
     sp_lines = map (\<lambda>n. \<lparr>pl_name = n, pl_status = OB_PASS, pl_gate = demo_digest (CHR ''b''), pl_evidence = ''e'',
                          pl_at = 0, pl_residue = None\<rparr>) required_obligations,
     sp_verdict = PROOF_PASS, sp_void_reason = [], sp_at = 0\<rparr>"

lemma demo_digest_hex: "c \<in> set ''0123456789abcdef'' \<Longrightarrow> hex_digest (demo_digest c)"
  by (simp add: hex_digest_def demo_digest_def list_all_iff)

lemma demo_proof_ok: "proof_ok demo_proof"
proof -
  have names: "list_all (\<lambda>n. py_strip n \<noteq> [] \<and> n = py_strip n) required_obligations" "py_strip ''e'' \<noteq> []"
    by code_simp+
  have hex: "hex_digest (demo_digest (CHR ''a''))" "hex_digest (demo_digest (CHR ''b''))"
    by (simp_all add: demo_digest_hex)
  have "\<forall>l\<in>set (sp_lines demo_proof). line_validate l = Inr l"
    using names hex by (auto simp: demo_proof_def line_validate_def list_all_iff)
  moreover have "recompute_verdict demo_proof = PROOF_PASS"
    by (auto simp: recompute_pass_iff demo_proof_def image_image)
  moreover have "distinct (map pl_name (sp_lines demo_proof))"
    by (simp add: demo_proof_def o_def required_obligations_def)
  ultimately show ?thesis using hex by (simp add: proof_ok_def proof_validate_def) (simp add: demo_proof_def)
qed

lemma demo_proof_valid: "sp_verdict demo_proof = PROOF_PASS" "proof_is_valid demo_proof (demo_digest (CHR ''a''))"
  by (auto simp: proof_is_valid_def evaluate_pass_iff recompute_pass_iff demo_proof_def image_image)

theorem proof_no_stronger_than_evidence_witness:
  "proof_is_valid demo_proof (demo_digest (CHR ''a''))
   \<and> (\<exists>q. voided (\<lambda>_. ''superseded'') demo_proof (demo_digest (CHR ''c'')) = Inr q \<and> proof_ok q
        \<and> \<not> proof_is_valid q (demo_digest (CHR ''c'')))"
proof -
  have plan: "sp_plan demo_proof = demo_digest (CHR ''a'')" "sp_verdict demo_proof = PROOF_PASS"
    by (simp_all add: demo_proof_def)
  have moved: "sp_plan demo_proof \<noteq> demo_digest (CHR ''c'')" by (simp add: plan demo_digest_def)
  have say: "(\<lambda>_. ''superseded'') (void_reasons demo_proof (demo_digest (CHR ''c''))) \<noteq> []" by simp
  show ?thesis
    using proof_no_stronger_than_evidence [OF demo_proof_ok, of "\<lambda>_. ''superseded''" "demo_digest (CHR ''c'')"] plan moved
    by auto
qed

text \<open>
  A residue line is discharged as PASS only by a scan of its own fault that ran, found nothing and
  cites its output; a finding voids it, and a scan that never ran fails it.
\<close>

lemma discharge_outcome:
  assumes "discharge l s = Inr l'"
  shows "(pl_status l' = OB_PASS \<longleftrightarrow> rs_scanned s \<and> (\<forall>p\<in>set (rs_dirty s). \<exists>f ps. pl_residue l = Some (f, ps) \<and> p \<notin> set ps))
    \<and> (pl_status l' = OB_FAIL \<longleftrightarrow> \<not> rs_scanned s)
    \<and> (pl_status l' = OB_PASS \<longrightarrow> hex_digest (rs_gate s) \<and> py_strip (rs_evidence s) \<noteq> [])"
proof -
  obtain f ps where r: "pl_residue l = Some (f, ps)"
    using assms by (auto simp: discharge_def split: option.splits)
  have b: "pl_status l' = st \<and> pl_gate l' = rs_gate s \<and> pl_evidence l' = rs_evidence s \<and> line_validate l' = Inr l'"
    if "rebuild_line l st s = Inr l'" for st
  proof -
    have "l' = default_name (l\<lparr>pl_status := st, pl_gate := rs_gate s, pl_evidence := rs_evidence s, pl_at := rs_at s\<rparr>)"
      using that line_validate_Inr unfolding rebuild_line_def by blast
    moreover have "line_validate l' = Inr l'" using that line_validate_Inr unfolding rebuild_line_def by metis
    ultimately show ?thesis by (simp add: default_name_def split: option.splits prod.splits)
  qed
  consider "\<not> rs_scanned s" "rebuild_line l OB_FAIL s = Inr l'"
    | "rs_scanned s" "filter (\<lambda>p. p \<in> set ps) (rs_dirty s) \<noteq> []" "rebuild_line l OB_VOID s = Inr l'"
    | "rs_scanned s" "filter (\<lambda>p. p \<in> set ps) (rs_dirty s) = []" "rebuild_line l OB_PASS s = Inr l'"
    using assms r by (auto simp: discharge_def split: if_splits)
  then show ?thesis
  proof cases
    case 1
    then show ?thesis using b by fastforce
  next
    case 2
    then show ?thesis using b [OF 2(3)] r by (auto simp: filter_empty_iff_all)
  next
    case 3
    then show ?thesis using b [OF 3(3)] line_pass_cited [of l'] r by (auto simp: filter_empty_iff_all)
  qed
qed

end
