(* ===== verification/Approval.thy ===== *)
theory Approval
  imports Identity_Scope Safety_Case "HOL-Library.List_Lexorder" "HOL-Library.Char_ord"
begin

text \<open>
  \<open>domain/approval.py\<close>, \<open>controller/approval_gate.py\<close> and its verdict types
  (\<open>domain/approval_gate_result.py\<close>): what an approval authorizes, the gate at admission, and the
  ledger that mints, revokes and consumes approvals. The digest of a proof and of an approval (hashes
  of their JSON forms) are arguments; texts of refusals and the sealed evidence are left out.
\<close>

section \<open>The record\<close>

record ChangeTicket =
  ct_system :: string
  ct_key :: string
  ct_url :: string

definition ticket_validate :: "ChangeTicket \<Rightarrow> py_error + ChangeTicket" where
  "ticket_validate t =
     (if trimmed (ct_system t) \<and> trimmed (ct_key t) then Inr t
      else Inl (InvariantViolation ''change_ticket_not_blank''))"

record Approval =
  ap_id :: string
  ap_plan :: string
  ap_policy :: string
  ap_proof :: string
  ap_approver :: Principal
  ap_environment :: EnvironmentScope
  ap_issued :: instant
  ap_expires :: "instant option"
  ap_tickets :: "ChangeTicket list"
  ap_override :: bool
  ap_override_reason :: string
  ap_revoked_at :: "instant option"
  ap_revoked_by :: string
  ap_note :: string

definition valid_approval_id :: "string \<Rightarrow> bool" where
  "valid_approval_id s \<longleftrightarrow> take 2 s = ''a-'' \<and> 3 \<le> length s \<and> length s \<le> 66
     \<and> set (drop 2 s) \<subseteq> set ''0123456789abcdefghijklmnopqrstuvwxyz''"

definition approval_validate :: "Approval \<Rightarrow> py_error + Approval" where
  "approval_validate a =
     (if \<not> (valid_approval_id (ap_id a) \<and> hex_digest (ap_plan a) \<and> hex_digest (ap_policy a) \<and> hex_digest (ap_proof a))
      then Inl ValueErr
      else if (case ap_expires a of None \<Rightarrow> False | Some e \<Rightarrow> e \<le> ap_issued a)
      then Inl (InvariantViolation ''approval.window'')
      else if ap_revoked_at a \<noteq> None \<and> py_strip (ap_revoked_by a) = []
      then Inl (InvariantViolation ''approval.revocation_needs_actor'')
      else if (case ap_revoked_at a of None \<Rightarrow> False | Some r \<Rightarrow> r < ap_issued a)
      then Inl (InvariantViolation ''approval.revocation_time_order'')
      else Inr a)"

definition approval_is_expired :: "Approval \<Rightarrow> instant \<Rightarrow> bool" where
  "approval_is_expired a now \<longleftrightarrow> (case ap_expires a of None \<Rightarrow> False | Some e \<Rightarrow> now \<ge> e)"

definition revoked :: "Approval \<Rightarrow> bool" where
  "revoked a \<longleftrightarrow> ap_revoked_at a \<noteq> None"

definition speaks_for :: "Approval \<Rightarrow> string \<Rightarrow> string \<Rightarrow> string \<Rightarrow> EnvironmentScope \<Rightarrow> bool" where
  "speaks_for a plan policy prf env \<longleftrightarrow>
     ap_plan a = plan \<and> ap_policy a = policy \<and> ap_proof a = prf \<and> covers (ap_environment a) env"

definition bind_approval ::
  "(SafetyProof \<Rightarrow> string) \<Rightarrow> string \<Rightarrow> SafetyProof \<Rightarrow> string \<Rightarrow> Principal \<Rightarrow> EnvironmentScope \<Rightarrow> instant
     \<Rightarrow> duration option \<Rightarrow> ChangeTicket list \<Rightarrow> bool \<Rightarrow> string \<Rightarrow> string \<Rightarrow> py_error + Approval" where
  "bind_approval dg i p policy approver env issued ttl_s tickets override reason note' =
     (if sp_verdict p \<noteq> PROOF_PASS then Inl (InvariantViolation ''approval.requires_passing_proof'')
      else if (case ttl_s of None \<Rightarrow> False | Some t \<Rightarrow> t < 0) then Inl (InvariantViolation ''approval.negative_ttl'')
      else approval_validate
        \<lparr>ap_id = i, ap_plan = sp_plan p, ap_policy = policy, ap_proof = dg p, ap_approver = approver,
         ap_environment = env, ap_issued = issued, ap_expires = map_option (\<lambda>t. issued + t) ttl_s,
         ap_tickets = tickets, ap_override = override, ap_override_reason = reason,
         ap_revoked_at = None, ap_revoked_by = [], ap_note = note'\<rparr>)"

section \<open>What an approval authorizes\<close>

datatype InvalidationReason =
    PLAN_DIGEST_MISMATCH
  | POLICY_DIGEST_MISMATCH
  | PROOF_DIGEST_MISMATCH
  | EXPIRED
  | ENVIRONMENT_SCOPE
  | APPROVER_ROLE
  | OVERRIDE_WITHOUT_REASON
  | SELF_APPROVED
  | REVOKED
  | REPLAYED
  | NO_APPROVALS
  | QUORUM_NOT_MET

definition reason_order :: "InvalidationReason list" where
  "reason_order =
     [PLAN_DIGEST_MISMATCH, POLICY_DIGEST_MISMATCH, PROOF_DIGEST_MISMATCH, EXPIRED, ENVIRONMENT_SCOPE, APPROVER_ROLE,
      OVERRIDE_WITHOUT_REASON, SELF_APPROVED, REVOKED, REPLAYED, NO_APPROVALS, QUORUM_NOT_MET]"

interpretation invalidation_reasons: canonical_enum reason_order
proof unfold_locales
  show "r \<in> set reason_order" for r by (cases r) (simp_all add: reason_order_def)
  show "distinct reason_order" by (simp add: reason_order_def)
qed

definition order_reasons :: "InvalidationReason list \<Rightarrow> InvalidationReason list" where
  "order_reasons reasons = canon reason_order reasons"

text \<open>The keyword arguments an evaluation is about.\<close>

record Question =
  q_plan :: string
  q_policy :: string
  q_proof :: string
  q_environment :: EnvironmentScope
  q_grants :: "RoleGrant list"
  q_memberships :: "TeamMembership list"
  q_author :: "string option"
  q_separation :: bool
  q_consumed :: "string set"
  q_now :: instant

definition approval_reasons :: "Question \<Rightarrow> Approval \<Rightarrow> InvalidationReason list" where
  "approval_reasons q a = order_reasons
     ((if ap_plan a \<noteq> q_plan q then [PLAN_DIGEST_MISMATCH] else [])
      @ (if ap_policy a \<noteq> q_policy q then [POLICY_DIGEST_MISMATCH] else [])
      @ (if ap_proof a \<noteq> q_proof q then [PROOF_DIGEST_MISMATCH] else [])
      @ (if \<not> covers (ap_environment a) (q_environment q) then [ENVIRONMENT_SCOPE] else [])
      @ (if approval_is_expired a (q_now q) then [EXPIRED] else [])
      @ (if revoked a then [REVOKED] else [])
      @ (if ap_override a \<and> py_strip (ap_override_reason a) = [] then [OVERRIDE_WITHOUT_REASON] else [])
      @ (if ap_id a \<in> q_consumed q then [REPLAYED] else [])
      @ (if APPROVE \<notin> effective_roles (q_grants q) (ap_approver a) (q_environment q) (q_memberships q) (q_now q)
         then [APPROVER_ROLE] else [])
      @ (if q_separation q \<and> q_author q = Some (pp_id (ap_approver a)) then [SELF_APPROVED] else []))"

record DiscardedApproval =
  da_id :: string
  da_approver :: string
  da_reasons :: "InvalidationReason list"

record ApprovalState =
  as_valid :: bool
  as_reasons :: "InvalidationReason list"
  as_approvers :: "string list"
  as_required :: int
  as_discarded :: "DiscardedApproval list"

definition quorum_met :: "ApprovalState \<Rightarrow> bool" where
  "quorum_met s \<longleftrightarrow> QUORUM_NOT_MET \<notin> set (as_reasons s) \<and> NO_APPROVALS \<notin> set (as_reasons s)"

definition counting :: "Question \<Rightarrow> Approval list \<Rightarrow> Approval list" where
  "counting q offered = filter (\<lambda>a. approval_reasons q a = []) offered"

definition discarded :: "Question \<Rightarrow> Approval list \<Rightarrow> DiscardedApproval list" where
  "discarded q offered =
     map (\<lambda>a. \<lparr>da_id = ap_id a, da_approver = pp_id (ap_approver a), da_reasons = approval_reasons q a\<rparr>)
       (filter (\<lambda>a. approval_reasons q a \<noteq> []) offered)"

definition evaluate_approvals :: "Approval list \<Rightarrow> Question \<Rightarrow> int \<Rightarrow> py_error + ApprovalState" where
  "evaluate_approvals offered q required =
     (if required < 1 then Inl (InvariantViolation ''approval.quorum_arithmetic'')
      else let approvers = sorted_list_of_set (set (map (\<lambda>a. pp_id (ap_approver a)) (counting q offered)));
               met = (offered \<noteq> [] \<and> int (length approvers) \<ge> required);
               ordered = order_reasons
                 ((if offered = [] then [NO_APPROVALS] else [])
                  @ (if \<not> met
                     then concat (map da_reasons (discarded q offered)) @ (if offered \<noteq> [] then [QUORUM_NOT_MET] else [])
                     else []))
           in Inr \<lparr>as_valid = (ordered = []), as_reasons = ordered, as_approvers = approvers,
                   as_required = required, as_discarded = discarded q offered\<rparr>)"

section \<open>The gate\<close>

record ApprovalGateInputs =
  gi_now :: instant
  gi_environment :: EnvironmentScope
  gi_executor :: Principal
  gi_proof :: SafetyProof
  gi_policy :: string
  gi_approvals :: "Approval list"
  gi_grants :: "RoleGrant list"
  gi_memberships :: "TeamMembership list"
  gi_plan :: string
  gi_required :: int
  gi_separation :: bool
  gi_consumed :: "string set"

definition gate_inputs_validate :: "ApprovalGateInputs \<Rightarrow> py_error + ApprovalGateInputs" where
  "gate_inputs_validate g =
     (if \<not> hex_digest (gi_policy g) then Inl (InvariantViolation ''approval.gate_digest_malformed'')
      else if gi_plan g \<noteq> [] \<and> \<not> hex_digest (gi_plan g) then Inl (InvariantViolation ''approval.gate_digest_malformed'')
      else if gi_required g < 1 then Inl (InvariantViolation ''approval.gate_quorum_arithmetic'')
      else Inr g)"

text \<open>The levels of the policy requirements; only their number counts.\<close>

definition quorum_from_requirements :: "string list \<Rightarrow> int \<Rightarrow> int" where
  "quorum_from_requirements levels configured = max 1 (max configured (int (card (set levels))))"

definition resolved_plan_digest :: "ApprovalGateInputs \<Rightarrow> string \<Rightarrow> string" where
  "resolved_plan_digest g candidate = (if gi_plan g \<noteq> [] then gi_plan g else candidate)"

definition gate_proof_verdict :: "SafetyProof \<Rightarrow> string \<Rightarrow> ProofVerdict" where
  "gate_proof_verdict p plan = (if sp_verdict p = PROOF_PASS then evaluate p plan else sp_verdict p)"

datatype gate_rule = RULE_EXECUTOR_UNAUTHORIZED | RULE_PROOF_NOT_PASS | RULE_APPROVAL_REQUIRED

record ApprovalRefusal =
  rf_rule :: gate_rule
  rf_triggers :: "InvalidationReason list"

definition executor_refusal :: "Role set \<Rightarrow> ApprovalRefusal option" where
  "executor_refusal roles =
     (if EXECUTE \<in> roles then None else Some \<lparr>rf_rule = RULE_EXECUTOR_UNAUTHORIZED, rf_triggers = []\<rparr>)"

definition proof_refusal :: "SafetyProof \<Rightarrow> string \<Rightarrow> ApprovalRefusal option" where
  "proof_refusal p plan =
     (if gate_proof_verdict p plan = PROOF_PASS then None
      else Some \<lparr>rf_rule = RULE_PROOF_NOT_PASS,
                 rf_triggers = order_reasons (if sp_plan p \<noteq> plan then [PROOF_DIGEST_MISMATCH] else [])\<rparr>)"

definition approval_refusal :: "ApprovalState \<Rightarrow> ApprovalRefusal option" where
  "approval_refusal s =
     (if as_valid s then None
      else Some \<lparr>rf_rule = RULE_APPROVAL_REQUIRED, rf_triggers = order_reasons (as_reasons s)\<rparr>)"

record ApprovalGateResult =
  gr_state :: ApprovalState
  gr_roles :: "Role set"
  gr_verdict :: ProofVerdict
  gr_plan :: string
  gr_required :: int
  gr_overrides :: "(string \<times> string \<times> string) list"
  gr_refusal :: "ApprovalRefusal option"

definition gate_question :: "(SafetyProof \<Rightarrow> string) \<Rightarrow> ApprovalGateInputs \<Rightarrow> string \<Rightarrow> Question" where
  "gate_question dg g plan =
     \<lparr>q_plan = plan, q_policy = gi_policy g, q_proof = dg (gi_proof g), q_environment = gi_environment g,
      q_grants = gi_grants g, q_memberships = gi_memberships g,
      q_author = (if gi_separation g then Some (pp_id (gi_executor g)) else None),
      q_separation = gi_separation g, q_consumed = gi_consumed g, q_now = gi_now g\<rparr>"

definition verify_approvals ::
  "(SafetyProof \<Rightarrow> string) \<Rightarrow> string \<Rightarrow> ApprovalGateInputs \<Rightarrow> string list \<Rightarrow> py_error + ApprovalGateResult" where
  "verify_approvals dg candidate g levels =
     (let plan = resolved_plan_digest g candidate;
          roles = effective_roles (gi_grants g) (gi_executor g) (gi_environment g) (gi_memberships g) (gi_now g);
          required = quorum_from_requirements levels (gi_required g)
      in case evaluate_approvals (gi_approvals g) (gate_question dg g plan) required of
           Inl e \<Rightarrow> Inl e
         | Inr state \<Rightarrow>
             let overrides = map (\<lambda>a. (ap_id a, pp_id (ap_approver a), ap_override_reason a))
                   (filter (\<lambda>a. ap_override a \<and> pp_id (ap_approver a) \<in> set (as_approvers state)) (gi_approvals g));
                 refusal = or_else (executor_refusal roles)
                   (or_else (proof_refusal (gi_proof g) plan) (approval_refusal state))
             in Inr \<lparr>gr_state = state, gr_roles = roles, gr_verdict = gate_proof_verdict (gi_proof g) plan,
                     gr_plan = plan, gr_required = required, gr_overrides = overrides,
                     gr_refusal = map_option
                       (\<lambda>r. r\<lparr>rf_triggers := order_reasons (rf_triggers r @ as_reasons state)\<rparr>) refusal\<rparr>)"

definition gate_allowed :: "ApprovalGateResult \<Rightarrow> bool" where
  "gate_allowed r \<longleftrightarrow> gr_refusal r = None"

definition overridden :: "ApprovalGateResult \<Rightarrow> bool" where
  "overridden r \<longleftrightarrow> gr_overrides r \<noteq> []"

definition executor_may_run :: "ApprovalGateInputs \<Rightarrow> Role \<Rightarrow> bool" where
  "executor_may_run g role = has_role (gi_grants g) (gi_executor g) role (gi_environment g) (gi_memberships g) (gi_now g)"

section \<open>The ledger\<close>

record ApprovalLedger =
  al_approvals :: "Approval list"
  al_grants :: "RoleGrant list"
  al_memberships :: "TeamMembership list"
  al_consumed :: "string set"

definition find_approval :: "ApprovalLedger \<Rightarrow> string \<Rightarrow> Approval option" where
  "find_approval L i = find (\<lambda>a. ap_id a = i) (al_approvals L)"

definition mint ::
  "(SafetyProof \<Rightarrow> string) \<Rightarrow> string \<Rightarrow> SafetyProof \<Rightarrow> string \<Rightarrow> Principal \<Rightarrow> EnvironmentScope \<Rightarrow> instant
     \<Rightarrow> duration option \<Rightarrow> ChangeTicket list \<Rightarrow> bool \<Rightarrow> string \<Rightarrow> string \<Rightarrow> ApprovalLedger \<Rightarrow> py_error + ApprovalLedger" where
  "mint dg i p policy approver env now ttl_s tickets override reason note' L =
     (if override \<and> py_strip reason = [] then Inl (InvariantViolation ''approval.override_requires_reason'')
      else if \<not> has_role (al_grants L) approver APPROVE env (al_memberships L) now
      then Inl (InvariantViolation ''approval.minting_unauthorized'')
      else if find_approval L i \<noteq> None then Inl (InvariantViolation ''approval.duplicate_id'')
      else if i \<in> al_consumed L then Inl (InvariantViolation ''approval.consumed_id'')
      else case bind_approval dg i p policy approver env now ttl_s tickets override reason note' of
             Inl e \<Rightarrow> Inl e
           | Inr a \<Rightarrow> Inr (L\<lparr>al_approvals := al_approvals L @ [a]\<rparr>))"

definition revoke :: "string \<Rightarrow> string \<Rightarrow> instant \<Rightarrow> ApprovalLedger \<Rightarrow> py_error + ApprovalLedger" where
  "revoke i by' now L =
     (case find_approval L i of
        None \<Rightarrow> Inl (InvariantViolation ''approval.unknown'')
      | Some target \<Rightarrow>
          if revoked target then Inr L
          else (case approval_validate (target\<lparr>ap_revoked_at := Some now, ap_revoked_by := by'\<rparr>) of
                  Inl e \<Rightarrow> Inl e
                | Inr a \<Rightarrow> Inr (L\<lparr>al_approvals := map (\<lambda>x. if ap_id x = i then a else x) (al_approvals L)\<rparr>)))"

definition consume :: "string list \<Rightarrow> ApprovalLedger \<Rightarrow> py_error + ApprovalLedger" where
  "consume ids L =
     (if filter (\<lambda>i. find_approval L i = None) (dict_fromkeys ids) \<noteq> []
      then Inl (InvariantViolation ''approval.consume_unknown'')
      else Inr (L\<lparr>al_consumed := al_consumed L \<union> set (dict_fromkeys ids)\<rparr>))"

text \<open>\<open>expire\<close> reports the lapsed and the live; \<open>next_expiry\<close> the soonest window of the live.\<close>

definition expire :: "ApprovalLedger \<Rightarrow> instant \<Rightarrow> Approval list \<times> Approval list" where
  "expire L now = (filter (\<lambda>a. approval_is_expired a now) (al_approvals L),
                   filter (\<lambda>a. \<not> approval_is_expired a now) (al_approvals L))"

definition next_expiry :: "Approval list \<Rightarrow> instant option" where
  "next_expiry live =
     (let windows = List.map_filter ap_expires live in if windows = [] then None else Some (Min (set windows)))"

text \<open>\<open>PlanMerge\<close> over the ledger's approvals: the invalidated and the surviving.\<close>

definition invalidate_on_plan_change ::
  "ApprovalLedger \<Rightarrow> string \<Rightarrow> string \<Rightarrow> Approval list \<times> Approval list" where
  "invalidate_on_plan_change L checked merged =
     (if checked \<noteq> merged then (al_approvals L, [])
      else (filter (\<lambda>a. ap_plan a \<noteq> merged) (al_approvals L), filter (\<lambda>a. \<not> ap_plan a \<noteq> merged) (al_approvals L)))"

definition ledger_gate_inputs ::
  "ApprovalLedger \<Rightarrow> instant \<Rightarrow> EnvironmentScope \<Rightarrow> Principal \<Rightarrow> SafetyProof \<Rightarrow> string \<Rightarrow> py_error + ApprovalGateInputs" where
  "ledger_gate_inputs L now env executor p policy = gate_inputs_validate
     \<lparr>gi_now = now, gi_environment = env, gi_executor = executor, gi_proof = p, gi_policy = policy,
      gi_approvals = al_approvals L, gi_grants = al_grants L, gi_memberships = al_memberships L, gi_plan = [],
      gi_required = 1, gi_separation = False, gi_consumed = al_consumed L\<rparr>"

section \<open>What counts\<close>

text \<open>The statement an approval makes, and the signers of a question.\<close>

definition counts_toward :: "Question \<Rightarrow> Approval \<Rightarrow> bool" where
  "counts_toward q a \<longleftrightarrow>
     speaks_for a (q_plan q) (q_policy q) (q_proof q) (q_environment q)
     \<and> \<not> approval_is_expired a (q_now q) \<and> \<not> revoked a \<and> ap_id a \<notin> q_consumed q
     \<and> (ap_override a \<longrightarrow> py_strip (ap_override_reason a) \<noteq> [])
     \<and> has_role (q_grants q) (ap_approver a) APPROVE (q_environment q) (q_memberships q) (q_now q)
     \<and> \<not> (q_separation q \<and> q_author q = Some (pp_id (ap_approver a)))"

definition signers :: "Question \<Rightarrow> Approval list \<Rightarrow> string set" where
  "signers q offered = (\<lambda>a. pp_id (ap_approver a)) ` {a \<in> set offered. counts_toward q a}"

lemma set_order_reasons [simp]: "set (order_reasons rs) = set rs"
  by (simp add: order_reasons_def)

lemma order_reasons_Nil [simp]: "order_reasons rs = [] \<longleftrightarrow> rs = []"
  by (simp add: order_reasons_def)

lemma order_reasons_cong: "set rs = set rs' \<Longrightarrow> order_reasons rs = order_reasons rs'"
  unfolding order_reasons_def by (rule invalidation_reasons.canon_cong)

lemma approval_reasons_Nil_iff: "approval_reasons q a = [] \<longleftrightarrow> counts_toward q a"
  by (auto simp: approval_reasons_def counts_toward_def speaks_for_def has_role_def)

lemma counting_signers: "set (map (\<lambda>a. pp_id (ap_approver a)) (counting q offered)) = signers q offered"
  by (auto simp: counting_def signers_def approval_reasons_Nil_iff)

lemma finite_signers [simp]: "finite (signers q offered)"
  by (simp add: signers_def)

lemma discarded_reasons: "set (concat (map da_reasons (discarded q offered))) = (\<Union>a\<in>set offered. set (approval_reasons q a))"
  by (auto simp: discarded_def)

definition refusal_reasons :: "Question \<Rightarrow> Approval list \<Rightarrow> InvalidationReason set" where
  "refusal_reasons q offered =
     (if offered = [] then {NO_APPROVALS} else insert QUORUM_NOT_MET (\<Union>a\<in>set offered. set (approval_reasons q a)))"

lemma evaluate_approvals_Inr:
  assumes "1 \<le> required"
  obtains st where "evaluate_approvals offered q required = Inr st"
    "as_valid st \<longleftrightarrow> required \<le> int (card (signers q offered))" "as_approvers st = sorted_list_of_set (signers q offered)"
    "set (as_reasons st) = (if as_valid st then {} else refusal_reasons q offered)"
    "as_reasons st = order_reasons (as_reasons st)" "as_required st = required" "as_discarded st = discarded q offered"
proof -
  let ?met = "offered \<noteq> [] \<and> required \<le> int (card (signers q offered))"
  let ?rs = "(if offered = [] then [NO_APPROVALS] else [])
      @ (if \<not> ?met then concat (map da_reasons (discarded q offered)) @ (if offered \<noteq> [] then [QUORUM_NOT_MET] else []) else [])"
  let ?st = "\<lparr>as_valid = (order_reasons ?rs = []), as_reasons = order_reasons ?rs,
              as_approvers = sorted_list_of_set (signers q offered), as_required = required, as_discarded = discarded q offered\<rparr>"
  have e: "evaluate_approvals offered q required = Inr ?st"
    using assms unfolding evaluate_approvals_def Let_def counting_signers by simp
  have none: "offered = [] \<Longrightarrow> card (signers q offered) = 0" by (simp add: signers_def)
  have valid: "as_valid ?st \<longleftrightarrow> required \<le> int (card (signers q offered))"
    using assms none by auto
  have rs: "set ?rs = (if ?met then {} else refusal_reasons q offered)"
    using discarded_reasons [of q offered] by (auto simp: refusal_reasons_def signers_def discarded_def)
  have "set (as_reasons ?st) = (if as_valid ?st then {} else refusal_reasons q offered)"
    using rs valid none assms by (simp del: set_append set_concat)
  moreover have "as_reasons ?st = order_reasons (as_reasons ?st)"
    by (simp only: ApprovalState.select_convs order_reasons_def invalidation_reasons.canon_idem)
  ultimately show thesis using that [OF e valid] by simp
qed

section \<open>A run, and what else the model shows\<close>

definition demo_scope :: EnvironmentScope where
  "demo_scope = \<lparr>es_environment = ''prod'', es_project = [], es_organization = []\<rparr>"

definition demo_person :: "string \<Rightarrow> Principal" where
  "demo_person i = \<lparr>pp_id = i, pp_kind = HUMAN, pp_display = [], pp_email = [], pp_external = [], pp_disabled = False\<rparr>"

definition demo_grant :: "Role \<Rightarrow> string \<Rightarrow> RoleGrant" where
  "demo_grant role i = \<lparr>rg_role = role, rg_scope = demo_scope, rg_principal = Some (demo_person i), rg_team = [],
     rg_granted = 0, rg_expires = None, rg_granted_by = [], rg_ticket = []\<rparr>"

definition demo_approval :: "string \<Rightarrow> bool \<Rightarrow> instant option \<Rightarrow> Approval" where
  "demo_approval i override revoked_at =
     \<lparr>ap_id = i, ap_plan = demo_digest (CHR ''a''), ap_policy = demo_digest (CHR ''b''), ap_proof = demo_digest (CHR ''c''),
      ap_approver = demo_person ''u'', ap_environment = demo_scope, ap_issued = 0, ap_expires = Some 100, ap_tickets = [],
      ap_override = override, ap_override_reason = ''x'', ap_revoked_at = revoked_at, ap_revoked_by = ''x'', ap_note = []\<rparr>"

definition demo_gate :: "Approval list \<Rightarrow> ApprovalGateInputs" where
  "demo_gate offered =
     \<lparr>gi_now = 5, gi_environment = demo_scope, gi_executor = demo_person ''x'', gi_proof = demo_proof,
      gi_policy = demo_digest (CHR ''b''), gi_approvals = offered, gi_grants = [demo_grant APPROVE ''u'', demo_grant EXECUTE ''x''],
      gi_memberships = [], gi_plan = [], gi_required = 1, gi_separation = True, gi_consumed = {}\<rparr>"

abbreviation demo_question :: Question where
  "demo_question \<equiv> gate_question (\<lambda>_. demo_digest (CHR ''c'')) (demo_gate []) (demo_digest (CHR ''a''))"

lemma demo_question_of: "gate_question dg (demo_gate offered) = gate_question dg (demo_gate [])"
  by (simp add: gate_question_def demo_gate_def fun_eq_iff)

lemma demo_x: "py_strip ''x'' = ''x''"
  by code_simp

lemma demo_counts: "counts_toward demo_question (demo_approval i override r) \<longleftrightarrow> r = None"
  by (simp add: counts_toward_def speaks_for_def gate_question_def demo_gate_def demo_approval_def demo_x
      approval_is_expired_def revoked_def has_role_def effective_roles_def applies_to_def demo_grant_def
      grant_is_active_def demo_person_def same_principal_def)

lemma demo_approver: "pp_id (ap_approver (demo_approval i override r)) = ''u''"
  by (simp add: demo_approval_def demo_person_def)

lemma demo_signers: "signers demo_question [demo_approval i override None] = {''u''}"
  by (auto simp: signers_def demo_counts demo_approver)

lemma demo_gate_ok: "gate_inputs_validate (demo_gate offered) = Inr (demo_gate offered)"
  by (simp add: gate_inputs_validate_def demo_gate_def demo_digest_hex)

lemma demo_approval_ok: "approval_validate (demo_approval ''a-1'' False r) = Inr (demo_approval ''a-1'' False r)
    \<longleftrightarrow> (case r of None \<Rightarrow> True | Some m \<Rightarrow> 0 \<le> m)"
  by (simp add: approval_validate_def demo_approval_def valid_approval_id_def demo_digest_hex demo_x split: option.split)

text \<open>
  C32. An approval is a statement about an exact plan. The approvals offered authorize a run exactly
  when the distinct principals behind those that count reach the quorum; to count, an approval must
  name the plan, the policy and the proof that are run, cover the environment, be unexpired,
  unrevoked, not yet consumed, say why if it is an override, and come from a principal who holds the
  approve role there and, under separation of duties, is not the author. A refusal carries every
  reason of every approval offered, in the canonical order.
\<close>

theorem approvals_authorize:
  assumes "1 \<le> required"
  shows "\<exists>st. evaluate_approvals offered q required = Inr st
    \<and> (as_valid st \<longleftrightarrow> required \<le> int (card (signers q offered)))
    \<and> as_approvers st = sorted_list_of_set (signers q offered)
    \<and> as_reasons st = filter (\<lambda>r. \<not> as_valid st \<and> r \<in> refusal_reasons q offered) reason_order
    \<and> (\<forall>a\<in>set offered. ap_plan a \<noteq> q_plan q \<longrightarrow> \<not> counts_toward q a)"
proof -
  obtain st where st: "evaluate_approvals offered q required = Inr st"
    "as_valid st \<longleftrightarrow> required \<le> int (card (signers q offered))" "as_approvers st = sorted_list_of_set (signers q offered)"
    "set (as_reasons st) = (if as_valid st then {} else refusal_reasons q offered)"
    "as_reasons st = order_reasons (as_reasons st)"
    using evaluate_approvals_Inr [OF assms] by metis
  have "as_reasons st = filter (\<lambda>r. r \<in> set (as_reasons st)) reason_order"
    using st(5) by (simp add: order_reasons_def canon_def)
  also have "\<dots> = filter (\<lambda>r. \<not> as_valid st \<and> r \<in> refusal_reasons q offered) reason_order"
    unfolding st(4) by (rule filter_cong) auto
  finally show ?thesis using st(1-3) by (auto simp: counts_toward_def speaks_for_def)
qed

theorem approvals_authorize_witness:
  "\<exists>st. evaluate_approvals [demo_approval ''a-1'' False None] demo_question 1 = Inr st \<and> as_valid st"
proof -
  have "(1::int) \<le> 1" by simp
  from approvals_authorize [OF this, of "[demo_approval ''a-1'' False None]" demo_question]
  show ?thesis by (auto simp: demo_signers)
qed



text \<open>
  The result lists as overrides every override whose principal was counted, also one that was itself
  discarded: here a revoked override, beside an ordinary approval of the same person, makes the run
  read as overridden. And an approval counts before it was issued.
\<close>

lemma discarded_override_reported:
  "\<exists>r. verify_approvals (\<lambda>_. demo_digest (CHR ''c'')) (demo_digest (CHR ''a''))
       (demo_gate [demo_approval ''a-1'' False None, demo_approval ''a-2'' True (Some 1)]) [] = Inr r
     \<and> overridden r \<and> \<not> counts_toward demo_question (demo_approval ''a-2'' True (Some 1))"
proof -
  let ?o = "[demo_approval ''a-1'' False None, demo_approval ''a-2'' True (Some 1)]"
  have req: "quorum_from_requirements [] (gi_required (demo_gate ?o)) = 1"
    by (simp add: quorum_from_requirements_def demo_gate_def)
  obtain st where st: "evaluate_approvals ?o demo_question 1 = Inr st" "as_approvers st = sorted_list_of_set (signers demo_question ?o)"
    using evaluate_approvals_Inr [of 1 ?o demo_question] by (metis order_refl)
  have ov: "ap_override (demo_approval ''a-2'' True (Some 1))" by (simp add: demo_approval_def)
  have "{a \<in> set ?o. counts_toward demo_question a} = {demo_approval ''a-1'' False None}" by (auto simp: demo_counts)
  then have "signers demo_question ?o = {''u''}" unfolding signers_def by (simp add: demo_approver)
  then have "''u'' \<in> set (as_approvers st)" using st(2) by simp
  then have "filter (\<lambda>a. ap_override a \<and> pp_id (ap_approver a) \<in> set (as_approvers st)) ?o \<noteq> []"
    using ov by (simp add: demo_approver)
  moreover have "resolved_plan_digest (demo_gate ?o) (demo_digest (CHR ''a'')) = demo_digest (CHR ''a'')"
    "gi_approvals (demo_gate ?o) = ?o"
    by (simp_all add: resolved_plan_digest_def demo_gate_def)
  ultimately show ?thesis
    using st(1) unfolding verify_approvals_def Let_def req overridden_def
    by (simp add: demo_question_of [of _ ?o] demo_counts del: filter.simps)
qed

lemma counts_before_issued:
  "counts_toward (demo_question\<lparr>q_now := - 7\<rparr>) (demo_approval i override None)"
  by (simp add: counts_toward_def speaks_for_def gate_question_def demo_gate_def demo_approval_def demo_x
      approval_is_expired_def revoked_def has_role_def effective_roles_def applies_to_def demo_grant_def
      grant_is_active_def demo_person_def same_principal_def)

section \<open>The ledger over time\<close>

datatype LedgerCommand =
    Mint string SafetyProof string Principal EnvironmentScope instant "duration option" "ChangeTicket list" bool string string
  | Revoke string string instant
  | Consume "string list"

fun ledger_command :: "(SafetyProof \<Rightarrow> string) \<Rightarrow> LedgerCommand \<Rightarrow> ApprovalLedger \<Rightarrow> py_error + ApprovalLedger" where
  "ledger_command dg (Mint i p policy approver env now ttl_s tickets override reason note') L =
     mint dg i p policy approver env now ttl_s tickets override reason note' L"
| "ledger_command dg (Revoke i by' now) L = revoke i by' now L"
| "ledger_command dg (Consume ids) L = consume ids L"

text \<open>A refused request leaves the ledger the caller keeps as it was.\<close>

definition ledger_step :: "(SafetyProof \<Rightarrow> string) \<Rightarrow> LedgerCommand \<Rightarrow> ApprovalLedger \<Rightarrow> ApprovalLedger" where
  "ledger_step dg c L = (case ledger_command dg c L of Inl _ \<Rightarrow> L | Inr L' \<Rightarrow> L')"

definition ledger_ok :: "ApprovalLedger \<Rightarrow> bool" where
  "ledger_ok L \<longleftrightarrow> distinct (map ap_id (al_approvals L)) \<and> al_consumed L \<subseteq> ap_id ` set (al_approvals L)
     \<and> (\<forall>a\<in>set (al_approvals L). approval_validate a = Inr a)"

text \<open>One approval at two moments: only a revocation may have been added.\<close>

definition same_but_revoked :: "Approval \<Rightarrow> Approval \<Rightarrow> bool" where
  "same_but_revoked a b \<longleftrightarrow> b = a \<or>
     (\<not> revoked a \<and> (\<exists>r w. b = a\<lparr>ap_revoked_at := Some r, ap_revoked_by := w\<rparr>))"

definition ledger_grew :: "ApprovalLedger \<Rightarrow> ApprovalLedger \<Rightarrow> bool" where
  "ledger_grew L L' \<longleftrightarrow> (\<exists>ys zs. al_approvals L' = ys @ zs \<and> list_all2 same_but_revoked (al_approvals L) ys)
     \<and> al_consumed L \<subseteq> al_consumed L'"

lemma same_but_revoked_refl [simp]: "same_but_revoked a a"
  by (simp add: same_but_revoked_def)

lemma same_but_revoked_trans: "same_but_revoked a b \<Longrightarrow> same_but_revoked b c \<Longrightarrow> same_but_revoked a c"
  by (auto simp: same_but_revoked_def revoked_def)

lemma same_but_revoked_keeps:
  assumes "same_but_revoked a b"
  shows "ap_id b = ap_id a" "revoked a \<Longrightarrow> revoked b"
    and "speaks_for b plan policy prf env = speaks_for a plan policy prf env"
    and "ap_approver b = ap_approver a" "ap_issued b = ap_issued a" "ap_expires b = ap_expires a"
  using assms by (auto simp: same_but_revoked_def revoked_def speaks_for_def)

lemma same_but_revoked_list_refl [simp]: "list_all2 same_but_revoked xs xs"
  by (induction xs) auto

lemma ledger_grew_refl: "ledger_grew L L"
  unfolding ledger_grew_def by (intro conjI exI [of _ "al_approvals L"] exI [of _ "[]"]) simp_all

lemma ledger_grew_trans:
  assumes "ledger_grew L1 L2" "ledger_grew L2 L3"
  shows "ledger_grew L1 L3"
proof -
  obtain y z where 1: "al_approvals L2 = y @ z" "list_all2 same_but_revoked (al_approvals L1) y" "al_consumed L1 \<subseteq> al_consumed L2"
    using assms(1) by (auto simp: ledger_grew_def)
  obtain u v where 2: "al_approvals L3 = u @ v" "list_all2 same_but_revoked (y @ z) u" "al_consumed L2 \<subseteq> al_consumed L3"
    using assms(2) 1(1) by (auto simp: ledger_grew_def)
  obtain u1 u2 where u: "u = u1 @ u2" "list_all2 same_but_revoked y u1"
    using 2(2) by (auto simp: list_all2_append1)
  have "list_all2 same_but_revoked (al_approvals L1) u1"
    using list_all2_trans [OF _ 1(2) u(2)] same_but_revoked_trans by blast
  then show ?thesis using 1(3) 2(1,3) u(1) unfolding ledger_grew_def
    by (intro conjI exI [of _ u1] exI [of _ "u2 @ v"]) auto
qed

lemma approval_validate_Inr: "approval_validate a = Inr b \<Longrightarrow> b = a"
  by (auto simp: approval_validate_def split: if_splits)

lemma find_approval_None_iff: "find_approval L i = None \<longleftrightarrow> i \<notin> ap_id ` set (al_approvals L)"
  by (auto simp: find_approval_def find_None_iff)

lemma mint_Inr:
  assumes "mint dg i p policy approver env now ttl_s tk ov reason note' L = Inr L'"
  obtains a where "L' = L\<lparr>al_approvals := al_approvals L @ [a]\<rparr>" "ap_id a = i" "approval_validate a = Inr a"
    "i \<notin> ap_id ` set (al_approvals L)" "has_role (al_grants L) approver APPROVE env (al_memberships L) now"
proof -
  obtain a where a: "bind_approval dg i p policy approver env now ttl_s tk ov reason note' = Inr a"
    "L' = L\<lparr>al_approvals := al_approvals L @ [a]\<rparr>"
    using assms by (auto simp: mint_def split: if_splits sum.splits)
  have "approval_validate a = Inr a \<and> ap_id a = i"
    using a(1) approval_validate_Inr by (fastforce simp: bind_approval_def split: if_splits)
  then show thesis using that a(2) assms by (auto simp: mint_def find_approval_None_iff split: if_splits)
qed

lemma revoke_Inr:
  assumes "revoke i by' now L = Inr L'"
  obtains "L' = L" | t where "find_approval L i = Some t" "\<not> revoked t"
    "approval_validate (t\<lparr>ap_revoked_at := Some now, ap_revoked_by := by'\<rparr>) = Inr (t\<lparr>ap_revoked_at := Some now, ap_revoked_by := by'\<rparr>)"
    "L' = L\<lparr>al_approvals := map (\<lambda>x. if ap_id x = i then t\<lparr>ap_revoked_at := Some now, ap_revoked_by := by'\<rparr> else x) (al_approvals L)\<rparr>"
  using assms approval_validate_Inr by (fastforce simp: revoke_def split: option.splits if_splits sum.splits)

lemma distinct_id_unique: "distinct (map f xs) \<Longrightarrow> x \<in> set xs \<Longrightarrow> y \<in> set xs \<Longrightarrow> f x = f y \<Longrightarrow> x = y"
  by (metis distinct_map inj_onD)

lemma ledger_ok_update:
  assumes "ledger_ok L" "map ap_id xs = map ap_id (al_approvals L)" "\<forall>x\<in>set xs. approval_validate x = Inr x"
  shows "ledger_ok (L\<lparr>al_approvals := xs\<rparr>)"
proof -
  have "ap_id ` set xs = ap_id ` set (al_approvals L)" using arg_cong [OF assms(2), of set] by (simp only: set_map)
  then show ?thesis using assms by (simp add: ledger_ok_def)
qed

lemma ledger_step_grows:
  assumes ok: "ledger_ok L"
  shows "ledger_grew L (ledger_step dg c L) \<and> ledger_ok (ledger_step dg c L)"
proof (cases "ledger_command dg c L")
  case (Inl e)
  then show ?thesis using ok ledger_grew_refl by (simp add: ledger_step_def)
next
  case (Inr L')
  then have step: "ledger_step dg c L = L'" by (simp add: ledger_step_def)
  show ?thesis
  proof (cases c)
    case (Mint i p policy approver env now ttl_s tk ov reason note')
    then obtain a where a: "L' = L\<lparr>al_approvals := al_approvals L @ [a]\<rparr>" "ap_id a = i" "approval_validate a = Inr a"
      "i \<notin> ap_id ` set (al_approvals L)" using Inr mint_Inr by (metis ledger_command.simps(1))
    have "ledger_grew L L'" unfolding ledger_grew_def a(1)
      by (intro conjI exI [of _ "al_approvals L"] exI [of _ "[a]"]) simp_all
    moreover have "ledger_ok L'" using ok a by (auto simp: ledger_ok_def)
    ultimately show ?thesis by (simp add: step)
  next
    case (Revoke i by' now)
    from Inr have "revoke i by' now L = Inr L'" by (simp add: Revoke)
    then show ?thesis
    proof (cases rule: revoke_Inr)
      case 1
      then show ?thesis using ok ledger_grew_refl by (simp add: step)
    next
      case (2 t)
      let ?b = "t\<lparr>ap_revoked_at := Some now, ap_revoked_by := by'\<rparr>"
      let ?f = "\<lambda>x. if ap_id x = i then ?b else x"
      have t: "t \<in> set (al_approvals L)" "ap_id t = i"
        using 2(1) by (auto simp: find_approval_def find_Some_iff)
      have each: "same_but_revoked x (?f x)" if "x \<in> set (al_approvals L)" for x
      proof (cases "ap_id x = i")
        case True
        then have "x = t" using distinct_id_unique [of ap_id, OF _ that t(1)] ok t(2) by (simp add: ledger_ok_def)
        then show ?thesis using 2(2) t(2) by (auto simp: same_but_revoked_def)
      qed simp
      have "list_all2 same_but_revoked (al_approvals L) (map ?f (al_approvals L))"
        using each by (simp add: list_all2_map2 list.rel_refl_strong)
      then have "ledger_grew L L'" unfolding ledger_grew_def 2(4)
        by (intro conjI exI [of _ "map ?f (al_approvals L)"] exI [of _ "[]"]) simp_all
      moreover have ids: "map ap_id (map ?f (al_approvals L)) = map ap_id (al_approvals L)"
        using t(2) by simp
      have "\<forall>x\<in>set (map ?f (al_approvals L)). approval_validate x = Inr x"
        using ok 2(3) by (auto simp: ledger_ok_def)
      then have "ledger_ok L'" unfolding 2(4) by (rule ledger_ok_update [OF ok ids])
      ultimately show ?thesis by (simp add: step)
    qed
  next
    case (Consume ids)
    then have c: "L' = L\<lparr>al_consumed := al_consumed L \<union> set ids\<rparr>" "set ids \<subseteq> ap_id ` set (al_approvals L)"
      using Inr by (auto simp: consume_def find_approval_None_iff filter_empty_iff_all split: if_splits)
    have "ledger_grew L L'" unfolding ledger_grew_def c(1)
      by (intro conjI exI [of _ "al_approvals L"] exI [of _ "[]"]) auto
    moreover have "ledger_ok L'" using ok c by (auto simp: ledger_ok_def)
    ultimately show ?thesis by (simp add: step)
  qed
qed

lemma ledger_run_grows:
  "ledger_ok L \<Longrightarrow> ledger_grew L (fold (ledger_step dg) cs L) \<and> ledger_ok (fold (ledger_step dg) cs L)"
proof (induction cs arbitrary: L)
  case Nil
  then show ?case using ledger_grew_refl by simp
next
  case (Cons c cs)
  then show ?case using ledger_step_grows [OF Cons.prems, of dg c] ledger_grew_trans by fastforce
qed

text \<open>
  C33. Authority only runs out. Whatever is minted, revoked and consumed on a ledger, refused requests
  included, its ids stay unique, and no operation changes what an approval is bound to, who gave it
  or when it lapses; and an approval that was revoked or consumed at one moment is still held at every
  later one and counts toward no question asked of the ledger from then on.
\<close>

theorem spent_authority_stays_spent:
  assumes "ledger_ok L" "a \<in> set (al_approvals L)"
  shows "\<exists>b\<in>set (al_approvals (fold (ledger_step dg) cs L)).
      ap_id b = ap_id a \<and> ap_approver b = ap_approver a \<and> ap_expires b = ap_expires a
      \<and> speaks_for b plan policy prf env = speaks_for a plan policy prf env
      \<and> (\<forall>c\<in>set (al_approvals (fold (ledger_step dg) cs L)). ap_id c = ap_id a \<longrightarrow> c = b)
      \<and> (revoked a \<or> ap_id a \<in> al_consumed L \<longrightarrow>
           (\<forall>q. q_consumed q = al_consumed (fold (ledger_step dg) cs L) \<longrightarrow> \<not> counts_toward q b))"
proof -
  let ?L = "fold (ledger_step dg) cs L"
  have g: "ledger_grew L ?L" "ledger_ok ?L" using ledger_run_grows [OF assms(1)] by blast+
  obtain ys zs where y: "al_approvals ?L = ys @ zs" "list_all2 same_but_revoked (al_approvals L) ys"
    "al_consumed L \<subseteq> al_consumed ?L" using g(1) by (auto simp: ledger_grew_def)
  obtain i where i: "i < length (al_approvals L)" "al_approvals L ! i = a"
    using assms(2) by (auto simp: in_set_conv_nth)
  let ?b = "ys ! i"
  have len: "i < length ys" using y(2) i(1) by (simp add: list_all2_lengthD [symmetric])
  have sb: "same_but_revoked a ?b" using list_all2_nthD [OF y(2) i(1)] i(2) by simp
  note keep = same_but_revoked_keeps [OF sb]
  have b: "?b \<in> set (al_approvals ?L)" using len y(1) by simp
  have unique: "\<forall>c\<in>set (al_approvals ?L). ap_id c = ap_id a \<longrightarrow> c = ?b"
    using distinct_id_unique [of ap_id "al_approvals ?L"] g(2) b keep(1) unfolding ledger_ok_def by metis
  have spent: "\<not> counts_toward q ?b"
    if "revoked a \<or> ap_id a \<in> al_consumed L" "q_consumed q = al_consumed ?L" for q
    using that keep(1,2) y(3) by (auto simp: counts_toward_def)
  show ?thesis by (rule bexI [OF _ b], intro conjI keep unique) (use spent in blast)
qed

theorem spent_authority_stays_spent_witness:
  "\<exists>b\<in>set (al_approvals (ledger_step (\<lambda>_. demo_digest (CHR ''c'')) (Consume [''a-1''])
       \<lparr>al_approvals = [demo_approval ''a-1'' False (Some 3)], al_grants = [], al_memberships = [], al_consumed = {}\<rparr>)).
     ap_id b = ''a-1'' \<and> \<not> counts_toward (demo_question\<lparr>q_consumed := {''a-1''}\<rparr>) b"
proof -
  let ?a = "demo_approval ''a-1'' False (Some 3)"
  let ?L = "\<lparr>al_approvals = [?a], al_grants = [], al_memberships = [], al_consumed = {}\<rparr>"
  have ok: "ledger_ok ?L" by (simp add: ledger_ok_def demo_approval_ok)
  have a: "?a \<in> set (al_approvals ?L)" "ap_id ?a = ''a-1''" "revoked ?a"
    by (simp_all add: demo_approval_def revoked_def)
  have run: "al_consumed (fold (ledger_step (\<lambda>_. demo_digest (CHR ''c''))) [Consume [''a-1'']] ?L) = {''a-1''}"
    by (simp add: ledger_step_def consume_def find_approval_def a(2) dict_fromkeys_def)
  obtain b where b: "b \<in> set (al_approvals (fold (ledger_step (\<lambda>_. demo_digest (CHR ''c''))) [Consume [''a-1'']] ?L))" "ap_id b = ap_id ?a"
    "revoked ?a \<or> ap_id ?a \<in> al_consumed ?L \<longrightarrow>
       (\<forall>q. q_consumed q = al_consumed (fold (ledger_step (\<lambda>_. demo_digest (CHR ''c''))) [Consume [''a-1'']] ?L) \<longrightarrow> \<not> counts_toward q b)"
    using spent_authority_stays_spent [OF ok a(1), of "\<lambda>_. demo_digest (CHR ''c'')" "[Consume [''a-1'']]"] by blast
  have "\<not> counts_toward (demo_question\<lparr>q_consumed := {''a-1''}\<rparr>) b" using b(3) a(3) run by simp
  moreover have "fold (ledger_step (\<lambda>_. demo_digest (CHR ''c''))) [Consume [''a-1'']] ?L = ledger_step (\<lambda>_. demo_digest (CHR ''c'')) (Consume [''a-1'']) ?L" by simp
  ultimately show ?thesis using b(1,2) a(2) by (intro bexI [of _ b]) simp_all
qed

end
