(* ===== verification/Steady_State.thy ===== *)
theory Steady_State
  imports Mayhem_Prelude
begin

text \<open>
  \<open>domain/steady_state.py\<close>: the authored steady-state block with its validators, the bounds a
  measurement is judged by, and \<open>classify\<close>, which turns one measurement, one captured baseline
  and one assertion into a verdict. A \<open>float\<close> is a rational or not finite: no comparison of the
  code tells \<open>nan\<close> from \<open>inf\<close>, since each is guarded by \<open>isfinite\<close>. Every arithmetic operation
  is followed by the rounding \<open>fl\<close>, a parameter; an overflow of that rounding is not modelled,
  and authored bounds are finite. Notes are their kind, not their text.
\<close>

section \<open>Vocabulary\<close>

datatype Phase = PRE | DURING | POST
datatype Severity = CRITICAL_SIGNAL | WARNING_SIGNAL | INFO_SIGNAL
datatype AssertionVerb = UNCHANGED | DEGRADED | RECOVERED

datatype Verdict =
    AS_HYPOTHESISED
  | DEGRADED_WITHIN_TOLERANCE
  | DEGRADED_BEYOND_TOLERANCE
  | NO_EFFECT
  | NOT_RECOVERED

datatype SignalNote =
    NO_NOTE
  | SAFETY_MOVED_NOTE
  | NO_EFFECT_NOTE
  | BEYOND_TOLERANCE_NOTE
  | NOT_RECOVERED_NOTE
  | INSUFFICIENT_BASELINE int int
  | NON_FINITE_BASELINE

datatype measured = Finite rat | NonFinite

fun isfinite :: "measured \<Rightarrow> bool" where
  "isfinite (Finite _) = True"
| "isfinite NonFinite = False"

definition UNCHANGED_EPSILON :: rat where
  "UNCHANGED_EPSILON = 1 / 10 ^ 9"

text \<open>\<open>Identifier\<close> of \<open>domain/capabilities.py\<close>: \<open>^[a-z][a-z0-9_.-]{1,63}$\<close>.\<close>

definition capability_ident :: "string \<Rightarrow> bool" where
  "capability_ident s \<longleftrightarrow>
     s \<noteq> [] \<and> 2 \<le> length s \<and> length s \<le> 64
     \<and> hd s \<in> set ''abcdefghijklmnopqrstuvwxyz''
     \<and> list_all (\<lambda>c. c \<in> set ''abcdefghijklmnopqrstuvwxyz0123456789_.-'') (tl s)"

section \<open>The authored block\<close>

record CaptureSpec =
  cap_samples :: int
  cap_window :: duration

definition capture_validate :: "CaptureSpec \<Rightarrow> py_error + CaptureSpec" where
  "capture_validate c = (if 1 \<le> cap_samples c then Inr c else Inl ValueErr)"

record AbsoluteExpect =
  ae_lte :: "rat option"
  ae_gte :: "rat option"
  ae_eq :: "rat option"

definition expect_validate :: "AbsoluteExpect \<Rightarrow> py_error + AbsoluteExpect" where
  "expect_validate e =
     (if ae_lte e = None \<and> ae_gte e = None \<and> ae_eq e = None
      then Inl (InvariantViolation ''steady_state.expect_empty'') else Inr e)"

record Tolerance =
  tol_at_most :: "rat option"
  tol_relative :: "rat option"

definition tolerance_validate :: "Tolerance \<Rightarrow> py_error + Tolerance" where
  "tolerance_validate t =
     (if (case tol_at_most t of None \<Rightarrow> False | Some x \<Rightarrow> x < 0) then Inl ValueErr
      else if (case tol_relative t of None \<Rightarrow> False | Some x \<Rightarrow> x < 1)
      then Inl (InvariantViolation ''steady_state.tolerance_relative_below_one'')
      else if tol_at_most t = None \<and> tol_relative t = None
      then Inl (InvariantViolation ''steady_state.tolerance_empty'')
      else Inr t)"

record SteadyStateSignal =
  sig_name :: string
  sig_source :: string
  sig_metric :: string
  sig_expect :: "AbsoluteExpect option"
  sig_tolerance :: "Tolerance option"
  sig_window :: "duration option"
  sig_severity :: Severity

definition signal_validate :: "SteadyStateSignal \<Rightarrow> py_error + SteadyStateSignal" where
  "signal_validate s =
     (if \<not> capability_ident (sig_name s) then Inl ValueErr
      else if sig_expect s \<noteq> None \<and> sig_tolerance s \<noteq> None
      then Inl (InvariantViolation ''steady_state.signal_mixes_bases'')
      else if sig_window s \<noteq> None \<and> sig_tolerance s = None
      then Inl (InvariantViolation ''steady_state.baseline_window_without_tolerance'')
      else Inr s)"

record PhaseChecks =
  pc_unchanged :: "string list"
  pc_degraded :: "string list"
  pc_recovered :: "string list"
  pc_within :: "rat option"

definition checks_validate :: "PhaseChecks \<Rightarrow> py_error + PhaseChecks" where
  "checks_validate c =
     (if \<not> list_all capability_ident (pc_unchanged c @ pc_degraded c @ pc_recovered c)
         \<or> (case pc_within c of None \<Rightarrow> False | Some w \<Rightarrow> w \<le> 0) then Inl ValueErr
      else if pc_within c \<noteq> None \<and> pc_degraded c = []
      then Inl (InvariantViolation ''steady_state.within_without_degraded'')
      else if pc_unchanged c = [] \<and> pc_degraded c = [] \<and> pc_recovered c = []
      then Inl (InvariantViolation ''steady_state.phase_asserts_nothing'')
      else Inr c)"

record PhaseAssertion =
  pa_pre :: "PhaseChecks option"
  pa_during :: "PhaseChecks option"
  pa_post :: "PhaseChecks option"

definition phase_checks :: "PhaseAssertion \<Rightarrow> (Phase \<times> PhaseChecks option) list" where
  "phase_checks p = [(PRE, pa_pre p), (DURING, pa_during p), (POST, pa_post p)]"

definition phase_validate :: "PhaseAssertion \<Rightarrow> py_error + PhaseAssertion" where
  "phase_validate p =
     (let declared = filter (\<lambda>(_, c). c \<noteq> None) (phase_checks p)
      in if 1 < length declared then Inl (InvariantViolation ''steady_state.phase_has_multiple_keys'')
         else if declared = [] then Inl (InvariantViolation ''steady_state.phase_missing'')
         else Inr p)"

record SteadyStateSpec =
  ss_capture :: CaptureSpec
  ss_signals :: "SteadyStateSignal list"
  ss_phases :: "PhaseAssertion list"

text \<open>The names one phase entry asserts, in the order the validator meets them.\<close>

definition asserted_names :: "PhaseChecks \<Rightarrow> (AssertionVerb \<times> string) list" where
  "asserted_names c =
     map (Pair UNCHANGED) (pc_unchanged c) @ map (Pair DEGRADED) (pc_degraded c)
     @ map (Pair RECOVERED) (pc_recovered c)"

definition phase_names :: "PhaseAssertion \<Rightarrow> (AssertionVerb \<times> string) list" where
  "phase_names p = concat (map (\<lambda>(_, c). case c of None \<Rightarrow> [] | Some x \<Rightarrow> asserted_names x) (phase_checks p))"

definition spec_validate :: "SteadyStateSpec \<Rightarrow> py_error + SteadyStateSpec" where
  "spec_validate s =
     (if \<not> distinct (map sig_name (ss_signals s))
      then Inl (InvariantViolation ''steady_state.duplicate_signal'')
      else if list_ex (\<lambda>(_, n). n \<notin> set (map sig_name (ss_signals s))) (concat (map phase_names (ss_phases s)))
      then Inl (InvariantViolation ''steady_state.undeclared_signal'')
      else if ss_signals s = [] \<and> ss_phases s = []
      then Inl (InvariantViolation ''steady_state.empty_block'')
      else Inr s)"

definition spec_signal :: "SteadyStateSpec \<Rightarrow> string \<Rightarrow> SteadyStateSignal option" where
  "spec_signal s n = find (\<lambda>x. sig_name x = n) (ss_signals s)"

section \<open>Results\<close>

record Baseline =
  bl_value :: measured
  bl_samples :: int

record Assertion =
  as_verb :: AssertionVerb
  as_name :: string
  as_expect :: "AbsoluteExpect option"
  as_tolerance :: "Tolerance option"
  as_within :: "rat option"
  as_required :: int
  as_severity :: Severity

definition for_signal ::
  "SteadyStateSignal \<Rightarrow> AssertionVerb \<Rightarrow> int \<Rightarrow> rat option \<Rightarrow> Assertion" where
  "for_signal s v n w =
     \<lparr>as_verb = v, as_name = sig_name s, as_expect = sig_expect s, as_tolerance = sig_tolerance s,
      as_within = w, as_required = n, as_severity = sig_severity s\<rparr>"

definition reference_value :: "Assertion \<Rightarrow> rat option" where
  "reference_value a = (case as_expect a of None \<Rightarrow> None | Some e \<Rightarrow> ae_lte e)"

record SignalResult =
  sr_name :: string
  sr_asserted :: AssertionVerb
  sr_baseline :: "rat option"
  sr_during :: "measured option"
  sr_after :: "measured option"
  sr_delta :: "rat option"
  sr_limit :: "rat option"
  sr_within :: "rat option"
  sr_passed :: bool
  sr_note :: SignalNote
  sr_severity :: Severity

record AssertionResult =
  ar_verdict :: "Verdict option"
  ar_signals :: "SignalResult list"
  ar_sufficient :: bool
  ar_note :: SignalNote

definition result_passed :: "AssertionResult \<Rightarrow> bool" where
  "result_passed r \<longleftrightarrow> ar_verdict r \<noteq> None \<and> ar_sufficient r \<and> list_all sr_passed (ar_signals r)"

definition result_graded :: "AssertionResult \<Rightarrow> bool" where
  "result_graded r \<longleftrightarrow> ar_verdict r \<noteq> None"

section \<open>The maths\<close>

definition delta_pct :: "(rat \<Rightarrow> rat) \<Rightarrow> measured \<Rightarrow> measured \<Rightarrow> rat option" where
  "delta_pct fl b d =
     (case (b, d) of
        (Finite x, Finite y) \<Rightarrow> if x = 0 then None else Some (fl (fl (fl (y - x) / \<bar>x\<bar>) * 100))
      | _ \<Rightarrow> None)"

definition within_absolute :: "measured \<Rightarrow> AbsoluteExpect \<Rightarrow> bool" where
  "within_absolute m e =
     (case m of NonFinite \<Rightarrow> False
      | Finite x \<Rightarrow>
          if (case ae_eq e of None \<Rightarrow> False | Some v \<Rightarrow> x \<noteq> v) then False
          else if (case ae_lte e of None \<Rightarrow> False | Some v \<Rightarrow> x > v) then False
          else if (case ae_gte e of None \<Rightarrow> False | Some v \<Rightarrow> x < v) then False
          else ae_eq e \<noteq> None \<or> ae_lte e \<noteq> None \<or> ae_gte e \<noteq> None)"

definition within_relative :: "(rat \<Rightarrow> rat) \<Rightarrow> measured option \<Rightarrow> measured \<Rightarrow> Tolerance option \<Rightarrow> bool" where
  "within_relative fl b m tol =
     (case (tol, m) of
        (Some t, Finite x) \<Rightarrow>
          if (case tol_at_most t of None \<Rightarrow> False | Some v \<Rightarrow> x \<le> v) then True
          else (case (tol_relative t, b) of
                  (Some r, Some (Finite y)) \<Rightarrow> \<bar>fl (x - y)\<bar> \<le> fl (\<bar>y\<bar> * r)
                | _ \<Rightarrow> False)
      | _ \<Rightarrow> False)"

definition degradation_limit :: "(rat \<Rightarrow> rat) \<Rightarrow> rat \<Rightarrow> Assertion \<Rightarrow> rat option" where
  "degradation_limit fl b a =
     (case as_within a of None \<Rightarrow> None
      | Some w \<Rightarrow>
          (case reference_value a of
             Some r \<Rightarrow> Some (fl (\<bar>r\<bar> * w))
           | None \<Rightarrow> if as_tolerance a \<noteq> None then Some (fl (\<bar>b\<bar> * w)) else None))"

definition finite_values :: "measured list \<Rightarrow> rat list" where
  "finite_values ms = sort (concat (map (\<lambda>m. case m of Finite x \<Rightarrow> [x] | NonFinite \<Rightarrow> []) ms))"

definition sample_baseline :: "(rat \<Rightarrow> rat) \<Rightarrow> rat \<Rightarrow> measured list \<Rightarrow> Baseline option" where
  "sample_baseline fl p ms =
     (let xs = finite_values ms; n = int (length xs)
      in if xs = [] then None
         else let rank = min n (max 1 \<lceil>fl (fl (p / 100) * of_int n)\<rceil>)
              in Some \<lparr>bl_value = Finite (xs ! nat (rank - 1)), bl_samples = n\<rparr>)"

definition moved :: "(rat \<Rightarrow> rat) \<Rightarrow> measured \<Rightarrow> measured \<Rightarrow> bool" where
  "moved fl b m =
     (case (b, m) of
        (Finite x, Finite y) \<Rightarrow> \<bar>fl (y - x)\<bar> > fl (\<bar>x\<bar> * UNCHANGED_EPSILON)
      | _ \<Rightarrow> True)"

definition within_ceiling :: "rat \<Rightarrow> measured \<Rightarrow> rat \<Rightarrow> Assertion \<Rightarrow> bool" where
  "within_ceiling b m limit a =
     (case m of NonFinite \<Rightarrow> False
      | Finite x \<Rightarrow>
          if \<bar>x\<bar> > limit then False
          else if (case reference_value a of None \<Rightarrow> b | Some r \<Rightarrow> r) \<ge> 0 then x \<ge> 0 else x \<le> 0)"

definition degraded_within :: "(rat \<Rightarrow> rat) \<Rightarrow> rat \<Rightarrow> measured \<Rightarrow> rat option \<Rightarrow> Assertion \<Rightarrow> bool" where
  "degraded_within fl b m limit a =
     (case limit of
        Some l \<Rightarrow> within_ceiling b m l a
      | None \<Rightarrow>
          (case as_expect a of
             Some e \<Rightarrow> within_absolute m e
           | None \<Rightarrow> if as_tolerance a \<noteq> None then within_relative fl (Some (Finite b)) m (as_tolerance a) else True))"

definition recovered :: "(rat \<Rightarrow> rat) \<Rightarrow> rat \<Rightarrow> measured \<Rightarrow> Assertion \<Rightarrow> bool" where
  "recovered fl b m a =
     (if as_tolerance a \<noteq> None then within_relative fl (Some (Finite b)) m (as_tolerance a)
      else (case as_expect a of
              Some e \<Rightarrow> within_absolute m e
            | None \<Rightarrow> \<not> moved fl (Finite b) m))"

section \<open>The verdict\<close>

text \<open>
  The \<open>baseline\<close> argument is the one place a caller gets no help from a type checker: it is a
  \<open>Baseline\<close>, nothing, or some other object, which is refused.
\<close>

datatype baseline_arg = NotCaptured | Captured Baseline | NotABaseline

fun checked_baseline :: "baseline_arg \<Rightarrow> py_error + Baseline option" where
  "checked_baseline NotCaptured = Inr None"
| "checked_baseline (Captured b) = Inr (Some b)"
| "checked_baseline NotABaseline = Inl (InvariantViolation ''steady_state.baseline_not_captured'')"

definition grade ::
  "(rat \<Rightarrow> rat) \<Rightarrow> measured \<Rightarrow> rat \<Rightarrow> rat option \<Rightarrow> Assertion \<Rightarrow> bool \<times> Verdict \<times> SignalNote" where
  "grade fl m b limit a =
     (case as_verb a of
        UNCHANGED \<Rightarrow> if \<not> moved fl (Finite b) m then (True, AS_HYPOTHESISED, NO_NOTE)
                     else (False, DEGRADED_BEYOND_TOLERANCE, SAFETY_MOVED_NOTE)
      | DEGRADED \<Rightarrow> if \<not> moved fl (Finite b) m then (False, NO_EFFECT, NO_EFFECT_NOTE)
                    else if degraded_within fl b m limit a
                    then (True, DEGRADED_WITHIN_TOLERANCE, NO_NOTE)
                    else (False, DEGRADED_BEYOND_TOLERANCE, BEYOND_TOLERANCE_NOTE)
      | RECOVERED \<Rightarrow> if recovered fl b m a then (True, AS_HYPOTHESISED, NO_NOTE)
                     else (False, NOT_RECOVERED, NOT_RECOVERED_NOTE))"

definition signal_result ::
  "measured \<Rightarrow> rat option \<Rightarrow> Assertion \<Rightarrow> rat option \<Rightarrow> rat option \<Rightarrow> bool \<Rightarrow> SignalNote \<Rightarrow> SignalResult" where
  "signal_result m b a delta limit passed n =
     \<lparr>sr_name = as_name a, sr_asserted = as_verb a, sr_baseline = b,
      sr_during = (if as_verb a = RECOVERED then None else Some m),
      sr_after = (if as_verb a = RECOVERED then Some m else None),
      sr_delta = delta, sr_limit = limit, sr_within = as_within a, sr_passed = passed, sr_note = n,
      sr_severity = as_severity a\<rparr>"

definition ungraded :: "measured \<Rightarrow> rat option \<Rightarrow> Assertion \<Rightarrow> SignalNote \<Rightarrow> AssertionResult" where
  "ungraded m b a n =
     \<lparr>ar_verdict = None, ar_signals = [signal_result m b a None None False n], ar_sufficient = False,
      ar_note = n\<rparr>"

definition classify ::
  "(rat \<Rightarrow> rat) \<Rightarrow> measured \<Rightarrow> baseline_arg \<Rightarrow> Assertion \<Rightarrow> py_error + AssertionResult" where
  "classify fl m arg a =
     (case checked_baseline arg of
        Inl e \<Rightarrow> Inl e
      | Inr None \<Rightarrow> Inr (ungraded m None a (INSUFFICIENT_BASELINE 0 (as_required a)))
      | Inr (Some bl) \<Rightarrow>
          (case bl_value bl of
             NonFinite \<Rightarrow> Inr (ungraded m None a NON_FINITE_BASELINE)
           | Finite b \<Rightarrow>
               if bl_samples bl < as_required a
               then Inr (ungraded m (Some b) a (INSUFFICIENT_BASELINE (bl_samples bl) (as_required a)))
               else let limit = degradation_limit fl b a; (passed, verdict, n) = grade fl m b limit a
                    in Inr \<lparr>ar_verdict = Some verdict,
                            ar_signals = [signal_result m (Some b) a (delta_pct fl (Finite b) m) limit passed n],
                            ar_sufficient = True, ar_note = NO_NOTE\<rparr>))"

section \<open>Lemmas\<close>

text \<open>
  The interface of a bound: a test of a measurement that a measurement nobody took never passes.
  Every test of this file is one, and a threshold of a stop condition is built from them.
\<close>

locale fail_closed =
  fixes ok :: "measured \<Rightarrow> bool"
  assumes fails_closed: "\<not> ok NonFinite"
begin

lemma passes_finite: "ok m \<Longrightarrow> isfinite m"
  using fails_closed by (cases m) auto

lemma passes_value: "ok m \<Longrightarrow> \<exists>x. m = Finite x \<and> ok (Finite x)"
  using fails_closed by (cases m) auto

end

interpretation absolute_bound: fail_closed "\<lambda>m. within_absolute m e" for e
  by unfold_locales (simp add: within_absolute_def)

interpretation relative_bound: fail_closed "\<lambda>m. within_relative fl b m t" for fl b t
  by unfold_locales (simp add: within_relative_def split: option.splits)

interpretation ceiling_bound: fail_closed "\<lambda>m. within_ceiling b m l a" for b l a
  by unfold_locales (simp add: within_ceiling_def)

interpretation stayed: fail_closed "\<lambda>m. \<not> moved fl b m" for fl b
  by unfold_locales (simp add: moved_def split: measured.splits)

interpretation recovery_bound: fail_closed "\<lambda>m. recovered fl b m a" for fl b a
  by unfold_locales
    (simp add: recovered_def relative_bound.fails_closed absolute_bound.fails_closed
      stayed.fails_closed [simplified] split: option.splits)

lemma within_absolute_Finite:
  "within_absolute (Finite x) e \<longleftrightarrow>
     (ae_eq e \<noteq> None \<or> ae_lte e \<noteq> None \<or> ae_gte e \<noteq> None)
     \<and> (\<forall>v. ae_eq e = Some v \<longrightarrow> x = v) \<and> (\<forall>v. ae_lte e = Some v \<longrightarrow> x \<le> v) \<and> (\<forall>v. ae_gte e = Some v \<longrightarrow> v \<le> x)"
  by (auto simp: within_absolute_def not_le not_less split: option.splits)

lemma expect_validate_Inr [simp]:
  "expect_validate e = Inr e' \<longleftrightarrow> e' = e \<and> (ae_eq e \<noteq> None \<or> ae_lte e \<noteq> None \<or> ae_gte e \<noteq> None)"
  by (auto simp: expect_validate_def)

lemma tolerance_validate_Inr [simp]:
  "tolerance_validate t = Inr t' \<longleftrightarrow> t' = t \<and> (tol_at_most t \<noteq> None \<or> tol_relative t \<noteq> None)
     \<and> (\<forall>x. tol_at_most t = Some x \<longrightarrow> 0 \<le> x) \<and> (\<forall>x. tol_relative t = Some x \<longrightarrow> 1 \<le> x)"
  by (auto simp: tolerance_validate_def not_less split: option.splits)

text \<open>A relative bound without a ceiling measures deviation: it does not see the direction of a move.\<close>

lemma relative_bound_symmetric:
  assumes "\<forall>x. fl (- x) = - fl x" "tol_at_most t = None"
  shows "within_relative fl (Some (Finite b)) (Finite (b + d)) (Some t)
       = within_relative fl (Some (Finite b)) (Finite (b - d)) (Some t)"
  using assms by (simp add: within_relative_def split: option.splits)

lemma grade_passed:
  "fst (grade fl m b l a) \<longleftrightarrow> fst (snd (grade fl m b l a)) \<in> {AS_HYPOTHESISED, DEGRADED_WITHIN_TOLERANCE}"
  by (cases "as_verb a") (simp_all add: grade_def)

lemma grade_no_effect:
  "fst (snd (grade fl m b l a)) = NO_EFFECT \<longleftrightarrow> as_verb a = DEGRADED \<and> \<not> moved fl (Finite b) m"
  by (cases "as_verb a") (simp_all add: grade_def)

lemma degraded_within_unmeasured:
  "degraded_within fl b NonFinite l a \<longleftrightarrow> l = None \<and> as_expect a = None \<and> as_tolerance a = None"
  by (simp add: degraded_within_def ceiling_bound.fails_closed absolute_bound.fails_closed
      relative_bound.fails_closed split: option.splits)

lemma grade_unmeasured:
  "fst (grade fl NonFinite b l a)
     \<longleftrightarrow> as_verb a = DEGRADED \<and> l = None \<and> as_expect a = None \<and> as_tolerance a = None"
  using stayed.fails_closed [of fl "Finite b"]
  by (cases "as_verb a") (simp_all add: grade_def degraded_within_unmeasured recovery_bound.fails_closed)

text \<open>What a usable baseline is: captured, finite, and of enough samples.\<close>

fun usable_baseline :: "int \<Rightarrow> baseline_arg \<Rightarrow> rat option" where
  "usable_baseline n (Captured b) =
     (case bl_value b of Finite x \<Rightarrow> if n \<le> bl_samples b then Some x else None | NonFinite \<Rightarrow> None)"
| "usable_baseline n _ = None"

lemma classify_cases:
  assumes "classify fl m arg a = Inr r"
  obtains (ungraded) b n where "usable_baseline (as_required a) arg = None" "r = ungraded m b a n"
  | (graded) b where "usable_baseline (as_required a) arg = Some b"
      "r = \<lparr>ar_verdict = Some (fst (snd (grade fl m b (degradation_limit fl b a) a))),
            ar_signals = [signal_result m (Some b) a (delta_pct fl (Finite b) m) (degradation_limit fl b a)
              (fst (grade fl m b (degradation_limit fl b a) a)) (snd (snd (grade fl m b (degradation_limit fl b a) a)))],
            ar_sufficient = True, ar_note = NO_NOTE\<rparr>"
proof (cases arg)
  case NotCaptured
  then show thesis using assms that(1) by (auto simp: classify_def)
next
  case NotABaseline
  then show thesis using assms by (simp add: classify_def)
next
  case (Captured bl)
  show thesis
  proof (cases "bl_value bl")
    case NonFinite
    then show thesis using assms Captured that(1) by (auto simp: classify_def)
  next
    case (Finite b)
    then show thesis using assms Captured that
      by (cases "bl_samples bl < as_required a") (auto simp: classify_def Let_def case_prod_beta)
  qed
qed

lemma classify_refuses: "classify fl m arg a = Inl e \<longleftrightarrow>
    arg = NotABaseline \<and> e = InvariantViolation ''steady_state.baseline_not_captured''"
  by (cases arg) (auto simp: classify_def Let_def case_prod_beta split: measured.splits)

section \<open>The verdict is earned\<close>

definition demo_assertion :: "AssertionVerb \<Rightarrow> rat option \<Rightarrow> Assertion" where
  "demo_assertion v w = \<lparr>as_verb = v, as_name = ''p99'', as_expect = Some \<lparr>ae_lte = Some 250, ae_gte = None, ae_eq = None\<rparr>,
     as_tolerance = None, as_within = w, as_required = 5, as_severity = WARNING_SIGNAL\<rparr>"

definition demo_baseline :: baseline_arg where
  "demo_baseline = Captured \<lparr>bl_value = Finite 100, bl_samples = 5\<rparr>"

text \<open>
  C36. \<open>classify\<close> never guesses. Without a captured, finite baseline of enough samples the result
  carries no verdict, is insufficient and does not pass. With one, it passes exactly on the
  verdicts \<open>AS_HYPOTHESISED\<close> and \<open>DEGRADED_WITHIN_TOLERANCE\<close>; \<open>NO_EFFECT\<close> is the verdict exactly
  of a degradation that did not move the signal; and a measurement that was never taken can pass
  only as a degradation of a signal that declares no bound at all. The one signal of the result
  quotes the measurement, under \<open>after\<close> exactly for a recovery.
\<close>

theorem classify_earned:
  assumes "classify fl m arg a = Inr r"
  shows "(result_graded r \<longleftrightarrow> usable_baseline (as_required a) arg \<noteq> None)
    \<and> (\<not> result_graded r \<longrightarrow> \<not> ar_sufficient r \<and> \<not> result_passed r)
    \<and> (result_passed r \<longleftrightarrow> ar_verdict r \<in> {Some AS_HYPOTHESISED, Some DEGRADED_WITHIN_TOLERANCE})
    \<and> (ar_verdict r = Some NO_EFFECT \<longleftrightarrow>
         as_verb a = DEGRADED \<and> (\<exists>b. usable_baseline (as_required a) arg = Some b \<and> \<not> moved fl (Finite b) m))
    \<and> (m = NonFinite \<and> result_passed r \<longrightarrow>
         as_verb a = DEGRADED \<and> as_expect a = None \<and> as_tolerance a = None)
    \<and> (\<exists>sg. ar_signals r = [sg] \<and> sr_name sg = as_name a \<and> sr_asserted sg = as_verb a
          \<and> (if as_verb a = RECOVERED then sr_after sg = Some m \<and> sr_during sg = None
             else sr_during sg = Some m \<and> sr_after sg = None))"
  using assms
proof (cases rule: classify_cases)
  case (ungraded b n)
  then show ?thesis
    by (simp add: ungraded_def result_graded_def result_passed_def signal_result_def)
next
  case (graded b)
  have 1: "result_passed r \<longleftrightarrow> fst (grade fl m b (degradation_limit fl b a) a)"
    by (simp add: graded(2) result_passed_def signal_result_def)
  show ?thesis
    using graded(1) grade_passed [of fl m b "degradation_limit fl b a" a]
      grade_no_effect [of fl m b "degradation_limit fl b a" a]
      grade_unmeasured [of fl b "degradation_limit fl b a" a]
    unfolding 1 by (auto simp: graded(2) result_graded_def signal_result_def)
qed

theorem classify_earned_witness:
  "\<exists>r. classify (\<lambda>x. x) (Finite 400) demo_baseline (demo_assertion DEGRADED (Some 2)) = Inr r
     \<and> result_passed r \<and> ar_verdict r = Some DEGRADED_WITHIN_TOLERANCE"
proof -
  have "classify (\<lambda>x. x) (Finite 400) demo_baseline (demo_assertion DEGRADED (Some 2)) =
    Inr \<lparr>ar_verdict = Some DEGRADED_WITHIN_TOLERANCE,
         ar_signals = [signal_result (Finite 400) (Some 100) (demo_assertion DEGRADED (Some 2)) (Some 300) (Some 500) True NO_NOTE],
         ar_sufficient = True, ar_note = NO_NOTE\<rparr>"
    by (simp add: classify_def demo_baseline_def demo_assertion_def grade_def moved_def UNCHANGED_EPSILON_def
        degraded_within_def degradation_limit_def reference_value_def within_ceiling_def delta_pct_def)
  from classify_earned [OF this] this show ?thesis by simp
qed

text \<open>The hole: a degradation asserted of a signal without a bound passes on a probe that returned nothing.\<close>

lemma unmeasured_degradation_passes:
  "\<exists>r. classify fl NonFinite demo_baseline ((demo_assertion DEGRADED None)\<lparr>as_expect := None\<rparr>) = Inr r
     \<and> result_passed r \<and> ar_verdict r = Some DEGRADED_WITHIN_TOLERANCE"
  by (simp add: classify_def demo_baseline_def demo_assertion_def grade_def moved_def degraded_within_def
      degradation_limit_def result_passed_def signal_result_def)

section \<open>The baseline is a nearest-rank percentile\<close>

lemma sorted_rank_le:
  assumes "sorted xs" "i < length xs"
  shows "Suc i \<le> length (filter (\<lambda>x. x \<le> xs ! i) xs)"
proof -
  have "list_all (\<lambda>x. x \<le> xs ! i) (take (Suc i) xs)"
    using assms by (auto simp: list_all_length sorted_nth_mono)
  then have "filter (\<lambda>x. x \<le> xs ! i) (take (Suc i) xs) = take (Suc i) xs"
    by (simp add: list_all_iff)
  then have "length (filter (\<lambda>x. x \<le> xs ! i) (take (Suc i) xs @ drop (Suc i) xs)) \<ge> Suc i"
    using assms(2) unfolding filter_append by simp
  then show ?thesis by simp
qed

lemma sorted_rank_less:
  assumes "sorted xs" "i < length xs"
  shows "length (filter (\<lambda>x. x < xs ! i) xs) \<le> i"
proof -
  have "filter (\<lambda>x. x < xs ! i) (drop i xs) = []"
    using assms by (auto simp: filter_empty_conv in_set_conv_nth not_less sorted_nth_mono)
  then have "length (filter (\<lambda>x. x < xs ! i) (take i xs @ drop i xs)) \<le> i"
    unfolding filter_append by (simp add: le_trans [OF length_filter_le])
  then show ?thesis by simp
qed

lemma set_finite_values: "x \<in> set (finite_values ms) \<longleftrightarrow> Finite x \<in> set ms"
  by (auto simp: finite_values_def split: measured.splits)

lemma sorted_finite_values [simp]: "sorted (finite_values ms)"
  by (simp add: finite_values_def)

lemma nearest_rank:
  fixes p :: rat
  assumes "0 < p" "p \<le> 100" "0 < n"
  defines "k \<equiv> min n (max 1 \<lceil>p / 100 * of_int n\<rceil>)"
  shows "1 \<le> k" "k \<le> n" "of_int (k - 1) < p / 100 * of_int n" "p / 100 * of_int n \<le> of_int k"
proof -
  have q: "0 < p / 100 * of_int n" "p / 100 * of_int n \<le> of_int n"
    using assms by (simp_all add: mult_left_le_one_le)
  have c: "1 \<le> \<lceil>p / 100 * of_int n\<rceil>" "\<lceil>p / 100 * of_int n\<rceil> \<le> n"
    using q by (simp_all add: ceiling_le_iff one_le_ceiling)
  then have k: "k = \<lceil>p / 100 * of_int n\<rceil>" by (simp add: k_def)
  show "1 \<le> k" "k \<le> n" using c k by simp_all
  show "of_int (k - 1) < p / 100 * of_int n" unfolding k of_int_diff of_int_1
    using ceiling_correct [of "p / 100 * of_int n"] by (rule conjunct1)
  show "p / 100 * of_int n \<le> of_int k" unfolding k by simp
qed

text \<open>
  \<open>sample_baseline\<close> is the nearest-rank percentile of the samples that were measured: it is
  \<open>None\<close> only when none was, and otherwise it is one of them, fewer than \<open>p\<close> percent of them lie
  below it, at least \<open>p\<close> percent lie at or below it, and it counts exactly the finite ones.
\<close>

theorem baseline_nearest_rank:
  assumes "0 < p" "p \<le> 100"
  shows "case sample_baseline (\<lambda>x. x) p ms of
       None \<Rightarrow> set ms \<subseteq> {NonFinite}
     | Some b \<Rightarrow> \<exists>v. bl_value b = Finite v \<and> Finite v \<in> set ms \<and> bl_samples b = int (length (filter isfinite ms))
         \<and> of_nat (length (filter (\<lambda>x. x < v) (finite_values ms))) < p / 100 * of_int (bl_samples b)
         \<and> p / 100 * of_int (bl_samples b) \<le> of_nat (length (filter (\<lambda>x. x \<le> v) (finite_values ms)))"
proof (cases "finite_values ms = []")
  case True
  then have "\<forall>x. Finite x \<notin> set ms" using set_finite_values [of _ ms] by auto
  then have "set ms \<subseteq> {NonFinite}" by (metis measured.exhaust subsetI singletonI)
  with True show ?thesis by (simp add: sample_baseline_def)
next
  case False
  let ?xs = "finite_values ms"
  define k where "k = min (int (length ?xs)) (max 1 \<lceil>p / 100 * of_int (int (length ?xs))\<rceil>)"
  have n: "0 < int (length ?xs)" using False by simp
  note r = nearest_rank [OF assms n, folded k_def]
  have i: "nat (k - 1) < length ?xs" using r(1,2) by linarith
  have lens: "length ?xs = length (filter isfinite ms)"
    unfolding finite_values_def length_sort by (induction ms) (auto split: measured.splits)
  have less: "length (filter (\<lambda>x. x < ?xs ! nat (k - 1)) ?xs) \<le> nat (k - 1)"
    and le: "Suc (nat (k - 1)) \<le> length (filter (\<lambda>x. x \<le> ?xs ! nat (k - 1)) ?xs)"
    using sorted_rank_less [OF sorted_finite_values i] sorted_rank_le [OF sorted_finite_values i] by auto
  have "of_nat (length (filter (\<lambda>x. x < ?xs ! nat (k - 1)) ?xs)) \<le> (of_int (k - 1) :: rat)"
    using less r(1) by (metis nat_le_iff of_int_le_iff of_int_of_nat_eq int_nat_eq of_nat_le_iff diff_ge_0_iff_ge)
  moreover have "(of_int k :: rat) \<le> of_nat (length (filter (\<lambda>x. x \<le> ?xs ! nat (k - 1)) ?xs))"
  proof -
    have "k \<le> int (length (filter (\<lambda>x. x \<le> ?xs ! nat (k - 1)) ?xs))" using le r(1) by linarith
    then show ?thesis by (metis of_int_le_iff of_int_of_nat_eq)
  qed
  moreover have "Finite (?xs ! nat (k - 1)) \<in> set ms" using i set_finite_values nth_mem by blast
  ultimately show ?thesis
    using False r(3,4) lens unfolding sample_baseline_def Let_def k_def [symmetric]
    by (auto intro!: exI [of _ "?xs ! nat (k - 1)"])
qed

theorem baseline_nearest_rank_witness:
  "set (finite_values [Finite 30, NonFinite, Finite 10, Finite 20]) = {10, 20, 30}
   \<and> (case sample_baseline (\<lambda>x. x) 50 [Finite 30, NonFinite, Finite 10, Finite 20] of
        None \<Rightarrow> False | Some b \<Rightarrow> bl_samples b = 3)"
  using baseline_nearest_rank [of 50 "[Finite 30, NonFinite, Finite 10, Finite 20]"]
  by (auto simp: finite_values_def split: option.splits)

end
