(* ===== verification/Stop_Conditions.thy ===== *)
theory Stop_Conditions
  imports Steady_State
begin

text \<open>
  \<open>domain/stop_conditions.py\<close>, with the observations and SLO criteria of
  \<open>domain/observations.py\<close> it reads: what may interrupt a run, and the samples that prove it did.
  Values are those of \<open>Steady_State\<close>; instants and durations are seconds, rationals, rounded by
  \<open>fl\<close> where the code computes with them. A path is the list of its steps, and the notes of a
  result are left out: both are texts for a reader.
\<close>

section \<open>Observations\<close>

datatype CriterionKind = LATENCY | ERROR_BUDGET | RECOVERY_TIME | SATURATION | ABSENCE
datatype CriterionOperator = OP_LT | OP_LTE | OP_GT | OP_GTE | OP_EQ
datatype ObservationStatus = OBS_OK | OBS_MISSING | OBS_ERROR | OBS_REDACTED

record ObservationResult =
  ob_metric :: string
  ob_value :: "measured option"
  ob_unit :: string
  ob_window_s :: rat
  ob_status :: ObservationStatus
  ob_provenance :: string
  ob_source :: string
  ob_detail :: string

definition ob_available :: "ObservationResult \<Rightarrow> bool" where
  "ob_available x \<longleftrightarrow> ob_status x = OBS_OK \<and> ob_value x \<noteq> None"

record SloCriterion =
  sc_kind :: CriterionKind
  sc_metric :: string
  sc_operator :: CriterionOperator
  sc_threshold :: rat
  sc_unit :: string
  sc_window_s :: rat
  sc_name :: string

text \<open>
  \<open>SloCriterion.evaluate(...).passed\<close>. The one caller of this development has checked that the
  value is finite; the comparison of a non-finite one is not modelled and fails.
\<close>

fun operator_holds :: "CriterionOperator \<Rightarrow> rat \<Rightarrow> rat \<Rightarrow> bool" where
  "operator_holds OP_LT x t = (x < t)"
| "operator_holds OP_LTE x t = (x \<le> t)"
| "operator_holds OP_GT x t = (x > t)"
| "operator_holds OP_GTE x t = (x \<ge> t)"
| "operator_holds OP_EQ x t = (x = t)"

definition criterion_passed :: "SloCriterion \<Rightarrow> ObservationResult \<Rightarrow> bool" where
  "criterion_passed c x =
     (if \<not> ob_available x then False
      else (case ob_value x of
              Some (Finite v) \<Rightarrow> operator_holds (sc_operator c) v (sc_threshold c)
            | _ \<Rightarrow> False))"

section \<open>Samples\<close>

record Sample =
  sm_obs :: ObservationResult
  sm_at :: rat

definition sample_of :: "ObservationResult \<Rightarrow> measured \<Rightarrow> py_error + Sample" where
  "sample_of x t =
     (case t of NonFinite \<Rightarrow> Inl (InvariantViolation ''stop_conditions.sample_time_not_finite'')
      | Finite s \<Rightarrow> Inr \<lparr>sm_obs = x, sm_at = s\<rparr>)"

abbreviation sm_metric :: "Sample \<Rightarrow> string" where
  "sm_metric s \<equiv> ob_metric (sm_obs s)"

abbreviation sm_value :: "Sample \<Rightarrow> measured option" where
  "sm_value s \<equiv> ob_value (sm_obs s)"

abbreviation sm_available :: "Sample \<Rightarrow> bool" where
  "sm_available s \<equiv> ob_available (sm_obs s)"

section \<open>Thresholds\<close>

datatype ToleranceKind = ABSOLUTE | RATIO | PERCENTAGE | OPERATOR
datatype FiresWhen = BROKEN | MET
datatype ConditionNode = NODE_ALL | NODE_ANY | NODE_METRIC
datatype ConditionStatus = FIRED | CLEAR | PENDING | UNMEASURED | EXPIRED | SUPPRESSED
datatype SampleState = S_BREACH | S_CLEAR | S_HOLD

record Threshold =
  th_kind :: ToleranceKind
  th_fires :: FiresWhen
  th_expect :: "AbsoluteExpect option"
  th_tolerance :: "Tolerance option"
  th_criterion :: "SloCriterion option"
  th_percent :: "rat option"
  th_baseline :: "measured option"

fun payload_present :: "Threshold \<Rightarrow> ToleranceKind \<Rightarrow> bool" where
  "payload_present t ABSOLUTE = (th_expect t \<noteq> None)"
| "payload_present t RATIO = (th_tolerance t \<noteq> None)"
| "payload_present t PERCENTAGE = (th_percent t \<noteq> None)"
| "payload_present t OPERATOR = (th_criterion t \<noteq> None)"

definition threshold_validate :: "Threshold \<Rightarrow> py_error + Threshold" where
  "threshold_validate t =
     (if (case th_percent t of None \<Rightarrow> False | Some p \<Rightarrow> p < 0) then Inl ValueErr
      else if \<not> payload_present t (th_kind t)
      then Inl (InvariantViolation ''stop_conditions.threshold_payload_missing'')
      else if list_ex (\<lambda>k. k \<noteq> th_kind t \<and> payload_present t k) [ABSOLUTE, RATIO, PERCENTAGE, OPERATOR]
      then Inl (InvariantViolation ''stop_conditions.threshold_payload_mixed'')
      else if th_baseline t \<noteq> None \<and> th_kind t \<notin> {RATIO, PERCENTAGE}
      then Inl (InvariantViolation ''stop_conditions.baseline_on_absolute_bound'')
      else Inr t)"

definition supports_hysteresis :: "Threshold \<Rightarrow> bool" where
  "supports_hysteresis t =
     (if th_kind t = RATIO then False
      else (case (th_kind t, th_expect t) of
              (ABSOLUTE, Some e) \<Rightarrow>
                (if ae_eq e \<noteq> None then 1 else 0) + (if ae_lte e \<noteq> None then 1 else 0)
                + (if ae_gte e \<noteq> None then 1 else 0) \<le> (1::nat)
            | _ \<Rightarrow> True))"

definition expect_bound :: "AbsoluteExpect \<Rightarrow> (CriterionOperator \<times> rat) option" where
  "expect_bound e =
     (case ae_eq e of Some v \<Rightarrow> Some (OP_EQ, v)
      | None \<Rightarrow> (case ae_lte e of Some v \<Rightarrow> Some (OP_GT, v)
                 | None \<Rightarrow> map_option (\<lambda>v. (OP_LT, v)) (ae_gte e)))"

definition governing_bound :: "Threshold \<Rightarrow> (CriterionOperator \<times> rat) option" where
  "governing_bound t =
     (case (th_kind t, th_expect t, th_criterion t, th_percent t) of
        (ABSOLUTE, Some e, _, _) \<Rightarrow> expect_bound e
      | (OPERATOR, _, Some c, _) \<Rightarrow> Some (sc_operator c, sc_threshold c)
      | (PERCENTAGE, _, _, Some p) \<Rightarrow> Some (OP_EQ, p)
      | _ \<Rightarrow> None)"

definition resolved_baseline :: "Threshold \<Rightarrow> measured option \<Rightarrow> measured option" where
  "resolved_baseline t override = (case override of Some b \<Rightarrow> Some b | None \<Rightarrow> th_baseline t)"

definition change_from :: "(rat \<Rightarrow> rat) \<Rightarrow> Threshold \<Rightarrow> measured option \<Rightarrow> measured \<Rightarrow> rat option" where
  "change_from fl t b m = (case resolved_baseline t b of None \<Rightarrow> None | Some x \<Rightarrow> delta_pct fl x m)"

definition holds :: "(rat \<Rightarrow> rat) \<Rightarrow> Threshold \<Rightarrow> Sample \<Rightarrow> measured option \<Rightarrow> bool" where
  "holds fl t s b =
     (case sm_value s of None \<Rightarrow> False | Some m \<Rightarrow>
        if \<not> isfinite m then False
        else (case (th_kind t, th_expect t, th_tolerance t, th_percent t) of
                (ABSOLUTE, Some e, _, _) \<Rightarrow> within_absolute m e
              | (RATIO, _, Some tol, _) \<Rightarrow> within_relative fl (resolved_baseline t b) m (Some tol)
              | (PERCENTAGE, _, _, Some p) \<Rightarrow>
                  (case change_from fl t b m of None \<Rightarrow> False | Some c \<Rightarrow> \<bar>c\<bar> \<le> p)
              | _ \<Rightarrow> (case th_criterion t of None \<Rightarrow> False | Some c \<Rightarrow> criterion_passed c (sm_obs s))))"

definition breaches :: "(rat \<Rightarrow> rat) \<Rightarrow> Threshold \<Rightarrow> Sample \<Rightarrow> measured option \<Rightarrow> bool" where
  "breaches fl t s b = (if th_fires t = MET then holds fl t s b else \<not> holds fl t s b)"

definition band_state :: "(rat \<Rightarrow> rat) \<Rightarrow> rat \<Rightarrow> rat \<Rightarrow> CriterionOperator \<Rightarrow> rat \<Rightarrow> SampleState" where
  "band_state fl x limit op band =
     (if op = OP_EQ then (if \<bar>fl (x - limit)\<bar> > band then S_BREACH else S_CLEAR)
      else let signed = (if op \<in> {OP_GT, OP_GTE} then fl (x - limit) else fl (limit - x))
           in if signed \<ge> band then S_BREACH else if signed > - band then S_HOLD else S_CLEAR)"

fun invert_state :: "SampleState \<Rightarrow> SampleState" where
  "invert_state S_BREACH = S_CLEAR"
| "invert_state S_CLEAR = S_BREACH"
| "invert_state S_HOLD = S_HOLD"

definition sample_state ::
  "(rat \<Rightarrow> rat) \<Rightarrow> Threshold \<Rightarrow> Sample \<Rightarrow> measured option \<Rightarrow> rat \<Rightarrow> SampleState" where
  "sample_state fl t s b band =
     (let exact = (if breaches fl t s b then S_BREACH else S_CLEAR);
          banded = (\<lambda>x limit op. let st = band_state fl x limit op band
                                 in if th_fires t = MET then invert_state st else st)
      in case sm_value s of
           Some (Finite x) \<Rightarrow>
             if band \<le> 0 then exact
             else (case governing_bound t of
                     None \<Rightarrow> exact
                   | Some (op, limit) \<Rightarrow>
                       if th_kind t = PERCENTAGE
                       then (case change_from fl t b (Finite x) of
                               None \<Rightarrow> exact | Some c \<Rightarrow> banded \<bar>c\<bar> limit op)
                       else banded x limit op)
         | _ \<Rightarrow> exact)"

text \<open>\<open>Threshold.assertion\<close>: the same bound in the vocabulary of \<open>classify\<close>.\<close>

definition expect_from_operator :: "SloCriterion \<Rightarrow> AbsoluteExpect" where
  "expect_from_operator c =
     (case sc_operator c of
        OP_EQ \<Rightarrow> \<lparr>ae_lte = None, ae_gte = None, ae_eq = Some (sc_threshold c)\<rparr>
      | OP_LT \<Rightarrow> \<lparr>ae_lte = Some (sc_threshold c), ae_gte = None, ae_eq = None\<rparr>
      | OP_LTE \<Rightarrow> \<lparr>ae_lte = Some (sc_threshold c), ae_gte = None, ae_eq = None\<rparr>
      | OP_GT \<Rightarrow> \<lparr>ae_lte = None, ae_gte = Some (sc_threshold c), ae_eq = None\<rparr>
      | OP_GTE \<Rightarrow> \<lparr>ae_lte = None, ae_gte = Some (sc_threshold c), ae_eq = None\<rparr>)"

definition threshold_assertion :: "string \<Rightarrow> AssertionVerb \<Rightarrow> Threshold \<Rightarrow> py_error + Assertion" where
  "threshold_assertion nm v t =
     (let a = \<lparr>as_verb = v, as_name = nm, as_expect = None, as_tolerance = None, as_within = None,
               as_required = 1, as_severity = WARNING_SIGNAL\<rparr>
      in case (th_kind t, th_percent t, th_criterion t) of
           (ABSOLUTE, _, _) \<Rightarrow> Inr (a\<lparr>as_expect := th_expect t\<rparr>)
         | (RATIO, _, _) \<Rightarrow> Inr (a\<lparr>as_tolerance := th_tolerance t\<rparr>)
         | (PERCENTAGE, Some p, _) \<Rightarrow>
             Inr (a\<lparr>as_expect := Some \<lparr>ae_lte = Some p, ae_gte = Some (- p), ae_eq = None\<rparr>\<rparr>)
         | (_, _, Some c) \<Rightarrow> Inr (a\<lparr>as_expect := Some (expect_from_operator c)\<rparr>)
         | _ \<Rightarrow> Inl (InvariantViolation ''stop_conditions.threshold_unprojectable''))"

section \<open>The condition tree\<close>

record MetricReference =
  mr_metric :: string
  mr_source :: string

definition reference_validate :: "MetricReference \<Rightarrow> py_error + MetricReference" where
  "reference_validate r = (if mr_metric r = [] then Inl ValueErr else Inr r)"

definition describe_reference :: "MetricReference \<Rightarrow> string" where
  "describe_reference r = (if mr_source r = [] then mr_metric r else mr_metric r @ ''@'' @ mr_source r)"

fun node_value :: "ConditionNode \<Rightarrow> string" where
  "node_value NODE_ALL = ''all''"
| "node_value NODE_ANY = ''any''"
| "node_value NODE_METRIC = ''metric''"

text \<open>The controls of a node; the shape is in the tree.\<close>

record Controls =
  ct_hysteresis :: "rat option"
  ct_hysteresis_absolute :: "rat option"
  ct_for_samples :: int
  ct_debounce :: rat
  ct_cooldown :: rat
  ct_max_duration :: "rat option"

datatype Condition = Condition
  (cn_name: string) (cn_kind: ConditionNode) (cn_operands: "Condition list")
  (cn_reference: "MetricReference option") (cn_threshold: "Threshold option") (cn_controls: Controls)

definition no_controls :: Controls where
  "no_controls = \<lparr>ct_hysteresis = None, ct_hysteresis_absolute = None, ct_for_samples = 1, ct_debounce = 0,
                  ct_cooldown = 0, ct_max_duration = None\<rparr>"

definition condition_all :: "Condition list \<Rightarrow> string \<Rightarrow> rat \<Rightarrow> rat option \<Rightarrow> Condition" where
  "condition_all cs nm cooldown m =
     Condition nm NODE_ALL cs None None (no_controls\<lparr>ct_cooldown := cooldown, ct_max_duration := m\<rparr>)"

definition condition_any :: "Condition list \<Rightarrow> string \<Rightarrow> rat \<Rightarrow> rat option \<Rightarrow> Condition" where
  "condition_any cs nm cooldown m =
     Condition nm NODE_ANY cs None None (no_controls\<lparr>ct_cooldown := cooldown, ct_max_duration := m\<rparr>)"

definition condition_metric :: "string \<Rightarrow> Threshold \<Rightarrow> string \<Rightarrow> string \<Rightarrow> Controls \<Rightarrow> Condition" where
  "condition_metric m t src nm k = Condition nm NODE_METRIC [] (Some \<lparr>mr_metric = m, mr_source = src\<rparr>) (Some t) k"

definition describe_name :: "Condition \<Rightarrow> string" where
  "describe_name c =
     (if cn_name c \<noteq> [] then cn_name c
      else case cn_reference c of Some r \<Rightarrow> describe_reference r
           | None \<Rightarrow> node_value (cn_kind c) @ '' node'')"

text \<open>The fields of a node (\<open>Duration\<close> is not negative), then its three shape validators in order.\<close>

definition controls_ok :: "Controls \<Rightarrow> bool" where
  "controls_ok k \<longleftrightarrow>
     (case ct_hysteresis k of None \<Rightarrow> True | Some h \<Rightarrow> 0 \<le> h \<and> h < 1)
     \<and> (case ct_hysteresis_absolute k of None \<Rightarrow> True | Some h \<Rightarrow> 0 \<le> h)
     \<and> 1 \<le> ct_for_samples k \<and> 0 \<le> ct_debounce k \<and> 0 \<le> ct_cooldown k
     \<and> (case ct_max_duration k of None \<Rightarrow> True | Some d \<Rightarrow> 0 \<le> d)"

definition shape_matches_kind :: "Condition \<Rightarrow> py_error option" where
  "shape_matches_kind c =
     (if cn_kind c = NODE_METRIC
      then if cn_reference c = None \<or> cn_threshold c = None
           then Some (InvariantViolation ''stop_conditions.leaf_without_threshold'')
           else if cn_operands c \<noteq> [] then Some (InvariantViolation ''stop_conditions.leaf_with_operands'')
           else None
      else if cn_operands c = [] then Some (InvariantViolation ''stop_conditions.composite_without_operands'')
      else if cn_reference c \<noteq> None \<or> cn_threshold c \<noteq> None
      then Some (InvariantViolation ''stop_conditions.composite_with_threshold'')
      else None)"

definition value_controls_on_leaves :: "Condition \<Rightarrow> py_error option" where
  "value_controls_on_leaves c =
     (let k = cn_controls c
      in if cn_kind c \<noteq> NODE_METRIC
            \<and> (ct_hysteresis k \<noteq> None \<or> ct_hysteresis_absolute k \<noteq> None \<or> ct_for_samples k \<noteq> 1 \<or> ct_debounce k > 0)
         then Some (InvariantViolation ''stop_conditions.composite_holds_value_controls'') else None)"

definition hysteresis_expressible :: "Condition \<Rightarrow> py_error option" where
  "hysteresis_expressible c =
     (case (cn_kind c, cn_threshold c) of
        (NODE_METRIC, Some t) \<Rightarrow>
          if ct_hysteresis (cn_controls c) = None \<and> ct_hysteresis_absolute (cn_controls c) = None then None
          else if supports_hysteresis t then None
          else Some (InvariantViolation ''stop_conditions.hysteresis_not_expressible'')
      | _ \<Rightarrow> None)"

definition condition_validate :: "Condition \<Rightarrow> py_error + Condition" where
  "condition_validate c =
     (if \<not> controls_ok (cn_controls c) then Inl ValueErr
      else case shape_matches_kind c of Some e \<Rightarrow> Inl e
      | None \<Rightarrow> (case value_controls_on_leaves c of Some e \<Rightarrow> Inl e
      | None \<Rightarrow> (case hysteresis_expressible c of Some e \<Rightarrow> Inl e | None \<Rightarrow> Inr c)))"

fun references :: "Condition \<Rightarrow> MetricReference list" where
  "references (Condition nm kind ops r t k) =
     (if kind = NODE_METRIC then (case r of None \<Rightarrow> [] | Some x \<Rightarrow> [x]) else concat (map references ops))"

definition condition_metrics :: "Condition \<Rightarrow> string list" where
  "condition_metrics c = dict_fromkeys (map mr_metric (references c))"

definition validate_references :: "string list \<Rightarrow> Condition \<Rightarrow> py_error option" where
  "validate_references declared c =
     (if list_ex (\<lambda>r. mr_metric r \<notin> set declared) (references c)
      then Some (InvariantViolation ''stop_conditions.unknown_metric'') else None)"

definition condition_band :: "(rat \<Rightarrow> rat) \<Rightarrow> Condition \<Rightarrow> rat" where
  "condition_band fl c =
     (let k = cn_controls c; absolute = (case ct_hysteresis_absolute k of None \<Rightarrow> 0 | Some h \<Rightarrow> h)
      in case cn_threshold c of None \<Rightarrow> absolute
         | Some t \<Rightarrow>
             let magnitude = (case governing_bound t of None \<Rightarrow> 0 | Some (_, b) \<Rightarrow> \<bar>b\<bar>)
             in fl (absolute + fl (magnitude * (case ct_hysteresis k of None \<Rightarrow> 0 | Some h \<Rightarrow> h))))"

section \<open>Results\<close>

type_synonym path = "(ConditionNode \<times> nat) list"

record ConditionResult =
  cr_name :: string
  cr_status :: ConditionStatus
  cr_samples :: "Sample list"
  cr_fired_at :: "rat option"
  cr_window :: "rat option"
  cr_path :: path

definition result_init :: "ConditionResult \<Rightarrow> py_error + ConditionResult" where
  "result_init r =
     (if cr_status r = FIRED \<and> cr_samples r = []
      then Inl (InvariantViolation ''stop_conditions.firing_without_citations'')
      else if cr_status r = FIRED \<and> cr_fired_at r = None
      then Inl (InvariantViolation ''stop_conditions.firing_without_timestamp'')
      else Inr r)"

record Firing =
  fg_name :: string
  fg_samples :: "Sample list"
  fg_at :: rat
  fg_path :: path

definition firing_init :: "Firing \<Rightarrow> py_error + Firing" where
  "firing_init f =
     (if fg_samples f = [] then Inl (InvariantViolation ''stop_conditions.firing_without_citations'')
      else if list_ex (\<lambda>s. \<not> sm_available s) (fg_samples f)
      then Inl (InvariantViolation ''stop_conditions.firing_cites_unavailable_sample'')
      else Inr f)"

definition to_firing :: "ConditionResult \<Rightarrow> py_error + Firing" where
  "to_firing r =
     (if cr_status r \<noteq> FIRED then Inl (InvariantViolation ''stop_conditions.not_fired'')
      else case cr_fired_at r of None \<Rightarrow> Inl AssertionErr
           | Some t \<Rightarrow> firing_init \<lparr>fg_name = cr_name r, fg_samples = cr_samples r, fg_at = t, fg_path = cr_path r\<rparr>)"

definition cites :: "Firing \<Rightarrow> Sample \<Rightarrow> bool" where
  "cites f s \<longleftrightarrow> s \<in> set (fg_samples f)"

section \<open>Evaluation\<close>

record Qualification =
  q_start :: rat
  q_samples :: "Sample list"

text \<open>The arguments of \<open>evaluate\<close> that every branch is handed unchanged.\<close>

record EvalArgs =
  ev_samples :: "Sample list"
  ev_now :: rat
  ev_last :: "rat option"
  ev_baselines :: "string \<Rightarrow> measured option"

definition index_by_metric :: "Sample list \<Rightarrow> rat \<Rightarrow> string \<Rightarrow> Sample list" where
  "index_by_metric samples now m = filter (\<lambda>s. \<not> sm_at s > now \<and> sm_metric s = m) samples"

definition resolve_series :: "MetricReference \<Rightarrow> (string \<Rightarrow> Sample list) \<Rightarrow> Sample list" where
  "resolve_series r index =
     sort_key sm_at (if mr_source r = [] then index (mr_metric r)
                     else filter (\<lambda>s. ob_source (sm_obs s) = mr_source r) (index (mr_metric r)))"

definition qualifying ::
  "(rat \<Rightarrow> rat) \<Rightarrow> Sample list \<Rightarrow> int \<Rightarrow> rat \<Rightarrow> rat \<Rightarrow> rat \<Rightarrow> rat option \<Rightarrow> Qualification option" where
  "qualifying fl run for_samples debounce now window_start max_duration =
     (case run of [] \<Rightarrow> None
      | s # _ \<Rightarrow>
          if int (length run) < for_samples then None
          else if (case max_duration of None \<Rightarrow> False | Some d \<Rightarrow> sm_at s > fl (window_start + d)) then None
          else if fl (now - sm_at s) < debounce then None
          else Some \<lparr>q_start = sm_at s, q_samples = run\<rparr>)"

definition in_cooldown :: "(rat \<Rightarrow> rat) \<Rightarrow> EvalArgs \<Rightarrow> Condition \<Rightarrow> bool" where
  "in_cooldown fl args c \<longleftrightarrow>
     ct_cooldown (cn_controls c) > 0
     \<and> (case ev_last args of None \<Rightarrow> False | Some t \<Rightarrow> fl (ev_now args - t) < ct_cooldown (cn_controls c))"

definition window_closed :: "(rat \<Rightarrow> rat) \<Rightarrow> EvalArgs \<Rightarrow> Condition \<Rightarrow> rat option \<Rightarrow> bool" where
  "window_closed fl args c w \<longleftrightarrow>
     (case (ct_max_duration (cn_controls c), w) of
        (Some d, Some start) \<Rightarrow> fl (ev_now args - start) \<ge> d
      | _ \<Rightarrow> False)"

definition gate ::
  "(rat \<Rightarrow> rat) \<Rightarrow> EvalArgs \<Rightarrow> Condition \<Rightarrow> Qualification option \<Rightarrow> ConditionStatus \<Rightarrow> rat option \<Rightarrow> path
     \<Rightarrow> py_error + ConditionResult" where
  "gate fl args c q otherwise w path =
     (let result = (\<lambda>st samples fired. result_init
            \<lparr>cr_name = describe_name c, cr_status = st, cr_samples = samples, cr_fired_at = fired,
             cr_window = w, cr_path = path\<rparr>)
      in if in_cooldown fl args c
         then result (if q \<noteq> None then SUPPRESSED else otherwise)
                (case q of None \<Rightarrow> [] | Some x \<Rightarrow> q_samples x) None
         else (case q of
                 Some x \<Rightarrow> result FIRED (q_samples x) (Some (ev_now args))
               | None \<Rightarrow> if window_closed fl args c w then result EXPIRED [] None
                         else result otherwise [] None))"

text \<open>The run of breaching samples the replay ends with: a clear sample empties it, a held one leaves it.\<close>

definition run_step ::
  "(rat \<Rightarrow> rat) \<Rightarrow> Threshold \<Rightarrow> measured option \<Rightarrow> rat \<Rightarrow> Sample \<Rightarrow> Sample list \<Rightarrow> Sample list" where
  "run_step fl t b band s run =
     (case sample_state fl t s b band of
        S_BREACH \<Rightarrow> run @ [s] | S_CLEAR \<Rightarrow> [] | S_HOLD \<Rightarrow> run)"

definition evaluate_leaf ::
  "(rat \<Rightarrow> rat) \<Rightarrow> EvalArgs \<Rightarrow> Condition \<Rightarrow> py_error + ConditionResult" where
  "evaluate_leaf fl args c =
     (case (cn_reference c, cn_threshold c) of
        (Some r, Some t) \<Rightarrow>
          let k = cn_controls c; series = resolve_series r (index_by_metric (ev_samples args) (ev_now args));
              available = filter sm_available series
          in if series = [] then Inl (InvariantViolation ''stop_conditions.unknown_metric'')
             else if available = [] then gate fl args c None UNMEASURED (Some (sm_at (hd series))) []
             else let w = sm_at (hd available);
                      run = fold (run_step fl t (ev_baselines args (mr_metric r)) (condition_band fl c)) available [];
                      q = qualifying fl run (ct_for_samples k) (ct_debounce k) (ev_now args) w (ct_max_duration k)
                  in (case q of
                        None \<Rightarrow> gate fl args c None (if run \<noteq> [] then PENDING else CLEAR) (Some w) []
                      | Some x \<Rightarrow> gate fl args c (Some x) CLEAR (Some w) [])
      | _ \<Rightarrow> Inl AssertionErr)"

definition and_status :: "ConditionStatus set \<Rightarrow> ConditionStatus" where
  "and_status st =
     (if EXPIRED \<in> st then EXPIRED else if SUPPRESSED \<in> st then SUPPRESSED
      else if UNMEASURED \<in> st then UNMEASURED else if PENDING \<in> st then PENDING else CLEAR)"

definition any_status :: "ConditionStatus set \<Rightarrow> ConditionStatus" where
  "any_status st = (if PENDING \<in> st then PENDING else CLEAR)"

definition least :: "rat list \<Rightarrow> rat option" where
  "least xs = (case xs of [] \<Rightarrow> None | x # ys \<Rightarrow> Some (fold min ys x))"

definition combine ::
  "(rat \<Rightarrow> rat) \<Rightarrow> EvalArgs \<Rightarrow> Condition \<Rightarrow> path \<Rightarrow> ConditionResult list \<Rightarrow> py_error + ConditionResult" where
  "combine fl args c path rs =
     (let statuses = set (map cr_status rs);
          w = least (List.map_filter cr_window rs)
      in if cn_kind c = NODE_ALL
         then if statuses = {FIRED}
              then (case least (List.map_filter cr_fired_at rs) of
                      None \<Rightarrow> Inl ValueErr
                    | Some start \<Rightarrow>
                        gate fl args c (Some \<lparr>q_start = start, q_samples = dict_fromkeys (concat (map cr_samples rs))\<rparr>)
                          CLEAR w path)
              else gate fl args c None (and_status statuses) w path
         else (case find (\<lambda>r. cr_status r = FIRED) rs of
                 Some r \<Rightarrow>
                   gate fl args c
                     (Some \<lparr>q_start = (case cr_fired_at r of None \<Rightarrow> ev_now args
                                       | Some t \<Rightarrow> if t = 0 then ev_now args else t),
                            q_samples = cr_samples r\<rparr>) CLEAR w path
               | None \<Rightarrow> gate fl args c None (any_status statuses) w path))"

text \<open>
  \<open>evaluate\<close>: a leaf is not handed its path on, as in the code; a composite evaluates its operands
  in order, and the first that raises ends it.
\<close>

fun evaluate_condition ::
  "(rat \<Rightarrow> rat) \<Rightarrow> EvalArgs \<Rightarrow> path \<Rightarrow> Condition \<Rightarrow> py_error + ConditionResult"
and evaluate_operands ::
  "(rat \<Rightarrow> rat) \<Rightarrow> EvalArgs \<Rightarrow> path \<Rightarrow> ConditionNode \<Rightarrow> nat \<Rightarrow> Condition list \<Rightarrow> py_error + ConditionResult list" where
  "evaluate_condition fl args path (Condition nm kind ops r t k) =
     (if kind = NODE_METRIC then evaluate_leaf fl args (Condition nm kind ops r t k)
      else case evaluate_operands fl args path kind 0 ops of
             Inl e \<Rightarrow> Inl e
           | Inr rs \<Rightarrow> combine fl args (Condition nm kind ops r t k) path rs)"
| "evaluate_operands fl args path kind i [] = Inr []"
| "evaluate_operands fl args path kind i (c # cs) =
     (case evaluate_condition fl args (path @ [(kind, i)]) c of
        Inl e \<Rightarrow> Inl e
      | Inr x \<Rightarrow> (case evaluate_operands fl args path kind (Suc i) cs of
                    Inl e \<Rightarrow> Inl e | Inr xs \<Rightarrow> Inr (x # xs)))"

end
