(* ===== verification/Stop_Evidence.thy ===== *)
theory Stop_Evidence
  imports Stop_Conditions
begin

text \<open>
  What \<open>Condition.evaluate\<close> promises: a firing cites recorded evidence, a tree fires exactly when
  its declarative reading does, a reference without samples is refused, and the future is ignored;
  and what the dead band promises and, for two kinds of threshold, does not keep.
\<close>

section \<open>Conditions as they are built\<close>

fun built :: "Condition \<Rightarrow> bool" where
  "built (Condition nm kind ops r t k) =
     (condition_validate (Condition nm kind ops r t k) = Inr (Condition nm kind ops r t k) \<and> list_all built ops)"

lemma condition_validate_Inr:
  "condition_validate c = Inr c' \<longleftrightarrow> c' = c \<and> controls_ok (cn_controls c) \<and> shape_matches_kind c = None
     \<and> value_controls_on_leaves c = None \<and> hysteresis_expressible c = None"
  by (auto simp: condition_validate_def split: option.splits)

lemma built_valid: "built c \<Longrightarrow> condition_validate c = Inr c"
  by (cases c) simp

lemma built_leaf:
  assumes "built c" "cn_kind c = NODE_METRIC"
  obtains r t where "cn_reference c = Some r" "cn_threshold c = Some t" "1 \<le> ct_for_samples (cn_controls c)"
  using built_valid [OF assms(1)] assms(2)
  by (auto simp: condition_validate_Inr shape_matches_kind_def controls_ok_def split: if_splits)

lemma built_composite:
  assumes "built (Condition nm kind ops r t k)" "kind \<noteq> NODE_METRIC"
  shows "ops \<noteq> []" "list_all built ops"
  using assms by (auto simp: condition_validate_Inr shape_matches_kind_def split: if_splits)

section \<open>Series and runs\<close>

text \<open>A sample answers a reference at an instant: its metric, its source, not from the future.\<close>

definition answers :: "EvalArgs \<Rightarrow> MetricReference \<Rightarrow> Sample \<Rightarrow> bool" where
  "answers args r s \<longleftrightarrow> s \<in> set (ev_samples args) \<and> sm_at s \<le> ev_now args \<and> sm_metric s = mr_metric r
     \<and> (mr_source r = [] \<or> ob_source (sm_obs s) = mr_source r)"

abbreviation series_of :: "EvalArgs \<Rightarrow> MetricReference \<Rightarrow> Sample list" where
  "series_of args r \<equiv> resolve_series r (index_by_metric (ev_samples args) (ev_now args))"

lemma set_series: "set (series_of args r) = {s. answers args r s}"
  by (auto simp: resolve_series_def index_by_metric_def answers_def not_less)

lemma series_empty_iff: "series_of args r = [] \<longleftrightarrow> (\<forall>s. \<not> answers args r s)"
  using set_series [of r args] by (metis empty_Collect_eq set_empty)

text \<open>The samples since the last clear one, and the breaches among them.\<close>

definition since_clear :: "(Sample \<Rightarrow> SampleState) \<Rightarrow> Sample list \<Rightarrow> Sample list" where
  "since_clear st xs = rev (takeWhile (\<lambda>s. st s \<noteq> S_CLEAR) (rev xs))"

definition breach_run :: "(Sample \<Rightarrow> SampleState) \<Rightarrow> Sample list \<Rightarrow> Sample list" where
  "breach_run st xs = filter (\<lambda>s. st s = S_BREACH) (since_clear st xs)"

lemma run_is_breach_run:
  "fold (run_step fl t b band) xs [] = breach_run (\<lambda>s. sample_state fl t s b band) xs"
proof (induction xs rule: rev_induct)
  case Nil
  then show ?case by (simp add: breach_run_def since_clear_def)
next
  case (snoc x xs)
  then show ?case
    by (cases "sample_state fl t x b band") (simp_all add: run_step_def breach_run_def since_clear_def)
qed

lemma set_breach_run: "set (breach_run st xs) \<subseteq> set xs"
  by (auto simp: breach_run_def since_clear_def dest: set_takeWhileD)

lemma qualifying_Some_iff:
  "qualifying fl run n d now w m = Some q \<longleftrightarrow>
     run \<noteq> [] \<and> n \<le> int (length run) \<and> (\<forall>x. m = Some x \<longrightarrow> sm_at (hd run) \<le> fl (w + x))
     \<and> d \<le> fl (now - sm_at (hd run)) \<and> q = \<lparr>q_start = sm_at (hd run), q_samples = run\<rparr>"
  by (cases run) (auto simp: qualifying_def not_less split: option.splits)

section \<open>The gate\<close>

lemma result_init_Inr [simp]:
  "result_init r = Inr r' \<longleftrightarrow> r' = r \<and> (cr_status r = FIRED \<longrightarrow> cr_samples r \<noteq> [] \<and> cr_fired_at r \<noteq> None)"
  by (auto simp: result_init_def)

lemma gate_fired:
  assumes "gate fl args c q st w path = Inr r" "st \<noteq> FIRED"
  shows "cr_status r = FIRED \<longleftrightarrow> \<not> in_cooldown fl args c \<and> q \<noteq> None"
  using assms by (auto simp: gate_def Let_def split: if_splits option.splits)

lemma gate_fired_at:
  "gate fl args c q st w path = Inr r \<Longrightarrow> cr_status r = FIRED \<Longrightarrow> st \<noteq> FIRED \<Longrightarrow>
   cr_fired_at r = Some (ev_now args) \<and> cr_samples r \<noteq> []"
  by (auto simp: gate_def Let_def split: if_splits option.splits)

lemma gate_samples:
  "gate fl args c q st w path = Inr r \<Longrightarrow> set (cr_samples r) \<subseteq> (case q of None \<Rightarrow> {} | Some x \<Rightarrow> set (q_samples x))"
  by (auto simp: gate_def Let_def split: if_splits option.splits)

lemma gate_accepts:
  assumes "st \<noteq> FIRED" "\<forall>x. q = Some x \<longrightarrow> q_samples x \<noteq> []"
  shows "\<exists>r. gate fl args c q st w path = Inr r"
  using assms by (auto simp: gate_def Let_def split: option.splits)

lemma and_status_not_fired: "and_status st \<noteq> FIRED" and any_status_not_fired: "any_status st \<noteq> FIRED"
  by (simp_all add: and_status_def any_status_def)

section \<open>Leaves\<close>

text \<open>The declarative reading of a leaf: the run since the last clear sample is long, old and early enough.\<close>

definition leaf_due :: "(rat \<Rightarrow> rat) \<Rightarrow> EvalArgs \<Rightarrow> Condition \<Rightarrow> MetricReference \<Rightarrow> Threshold \<Rightarrow> bool" where
  "leaf_due fl args c r t \<longleftrightarrow>
     (let k = cn_controls c; available = filter sm_available (series_of args r);
          run = breach_run (\<lambda>s. sample_state fl t s (ev_baselines args (mr_metric r)) (condition_band fl c)) available
      in run \<noteq> [] \<and> ct_for_samples k \<le> int (length run)
         \<and> (\<forall>d. ct_max_duration k = Some d \<longrightarrow> sm_at (hd run) \<le> fl (sm_at (hd available) + d))
         \<and> ct_debounce k \<le> fl (ev_now args - sm_at (hd run)))"

lemma leaf_cases:
  assumes "evaluate_leaf fl args c = Inr x" "cn_reference c = Some r" "cn_threshold c = Some t"
  obtains q st w where "gate fl args c q st w [] = Inr x" "st \<noteq> FIRED" "q \<noteq> None \<longleftrightarrow> leaf_due fl args c r t"
    "\<forall>y. q = Some y \<longrightarrow> set (q_samples y) \<subseteq> {s. answers args r s \<and> sm_available s}"
proof -
  define available where "available = filter sm_available (series_of args r)"
  define run where "run = breach_run (\<lambda>s. sample_state fl t s (ev_baselines args (mr_metric r)) (condition_band fl c)) available"
  define q where "q = qualifying fl run (ct_for_samples (cn_controls c)) (ct_debounce (cn_controls c)) (ev_now args)
     (sm_at (hd available)) (ct_max_duration (cn_controls c))"
  have due: "q \<noteq> None \<longleftrightarrow> leaf_due fl args c r t"
    unfolding q_def leaf_due_def Let_def available_def [symmetric] run_def [symmetric]
    by (auto simp: qualifying_Some_iff)
  have run: "set run \<subseteq> {s. answers args r s \<and> sm_available s}"
    using set_breach_run [of _ available] set_series [of r args] by (fastforce simp: run_def available_def)
  show thesis
  proof (cases "available = []")
    case True
    then have "run = []" by (simp add: run_def breach_run_def since_clear_def)
    then have "q = None" by (simp add: q_def qualifying_def)
    then show thesis
      using assms True that [of None UNMEASURED] due
      by (auto simp: evaluate_leaf_def Let_def available_def [symmetric] split: if_splits)
  next
    case False
    have ne: "series_of args r \<noteq> []" using False by (auto simp: available_def)
    have "gate fl args c q (if q = None \<and> run \<noteq> [] then PENDING else CLEAR) (Some (sm_at (hd available))) [] = Inr x"
      using assms False ne
      by (auto simp: evaluate_leaf_def Let_def available_def [symmetric] run_is_breach_run run_def [symmetric]
          q_def [symmetric] split: option.splits)
    then show thesis
      by (rule that) (use due run in \<open>auto simp: q_def qualifying_Some_iff\<close>)
  qed
qed

lemma leaf_error:
  assumes "cn_reference c = Some r" "cn_threshold c = Some t"
  shows "evaluate_leaf fl args c = Inl e \<longleftrightarrow>
    e = InvariantViolation ''stop_conditions.unknown_metric'' \<and> (\<forall>s. \<not> answers args r s)"
proof (cases "series_of args r = []")
  case True
  then show ?thesis using assms series_empty_iff [of r args] by (auto simp: evaluate_leaf_def)
next
  case False
  let ?available = "filter sm_available (series_of args r)"
  have "\<exists>x. evaluate_leaf fl args c = Inr x"
  proof (cases "?available = []")
    case True
    then show ?thesis
      using False assms gate_accepts [of UNMEASURED None] by (simp add: evaluate_leaf_def)
  next
    case Av: False
    show ?thesis
      using False Av assms
      by (auto simp: evaluate_leaf_def Let_def qualifying_Some_iff intro!: gate_accepts split: option.splits)
  qed
  then show ?thesis using False series_empty_iff [of r args] by auto
qed

section \<open>Composites\<close>

lemma least_None_iff [simp]: "least xs = None \<longleftrightarrow> xs = []"
  by (simp add: least_def split: list.splits)

lemma find_Some_mem: "find P xs = Some x \<Longrightarrow> x \<in> set xs \<and> P x"
  by (auto simp: find_Some_iff)

lemma combine_fired:
  assumes "combine fl args c path rs = Inr x"
  shows "cr_status x = FIRED \<longleftrightarrow> \<not> in_cooldown fl args c \<and>
     (if cn_kind c = NODE_ALL then cr_status ` set rs = {FIRED} else FIRED \<in> cr_status ` set rs)"
proof (cases "cn_kind c = NODE_ALL")
  case True
  then show ?thesis
    using assms and_status_not_fired
    by (auto simp: combine_def Let_def gate_fired split: if_splits option.splits)
next
  case False
  then show ?thesis
    using assms any_status_not_fired
    by (force simp: combine_def Let_def gate_fired find_None_iff dest: find_Some_mem split: option.splits)
qed

lemma combine_gate:
  assumes "combine fl args c path rs = Inr x"
  obtains q st w where "gate fl args c q st w path = Inr x" "st \<noteq> FIRED"
    "\<forall>y. q = Some y \<longrightarrow> set (q_samples y) \<subseteq> (\<Union>r\<in>{r\<in>set rs. cr_status r = FIRED}. set (cr_samples r))"
proof (cases "cn_kind c = NODE_ALL")
  case True
  show thesis
  proof (cases "set (map cr_status rs) = {FIRED}")
    case fired: True
    then have all: "\<forall>r\<in>set rs. cr_status r = FIRED" by (auto simp: set_eq_iff image_iff)
    obtain start where "gate fl args c (Some \<lparr>q_start = start, q_samples = dict_fromkeys (concat (map cr_samples rs))\<rparr>)
       CLEAR (least (List.map_filter cr_window rs)) path = Inr x"
      using assms True fired by (auto simp: combine_def Let_def split: option.splits)
    then show thesis by (rule that) (use all in auto)
  next
    case False
    then have "gate fl args c None (and_status (set (map cr_status rs))) (least (List.map_filter cr_window rs)) path = Inr x"
      using assms True by (simp add: combine_def Let_def)
    then show thesis by (rule that) (simp_all add: and_status_not_fired)
  qed
next
  case False
  show thesis
  proof (cases "find (\<lambda>r. cr_status r = FIRED) rs")
    case None
    then have "gate fl args c None (any_status (set (map cr_status rs))) (least (List.map_filter cr_window rs)) path = Inr x"
      using assms False by (simp add: combine_def Let_def)
    then show thesis by (rule that) (simp_all add: any_status_not_fired)
  next
    case (Some r)
    then obtain start where "gate fl args c (Some \<lparr>q_start = start, q_samples = cr_samples r\<rparr>) CLEAR
       (least (List.map_filter cr_window rs)) path = Inr x"
      using assms False by (auto simp: combine_def Let_def)
    then show thesis by (rule that) (use find_Some_mem [OF Some] in auto)
  qed
qed

lemma combine_accepts:
  assumes "rs \<noteq> []" "\<forall>r\<in>set rs. cr_status r = FIRED \<longrightarrow> cr_samples r \<noteq> [] \<and> cr_fired_at r \<noteq> None"
  shows "\<exists>x. combine fl args c path rs = Inr x"
proof (cases "cn_kind c = NODE_ALL")
  case True
  show ?thesis
  proof (cases "set (map cr_status rs) = {FIRED}")
    case fired: True
    then have hd: "cr_status (hd rs) = FIRED" using assms(1) by (metis hd_in_set image_eqI set_map singletonD)
    with assms obtain s u where "cr_fired_at (hd rs) = Some u" "s \<in> set (cr_samples (hd rs))"
      by (metis hd_in_set list.set_sel(1) not_None_eq)
    then have "List.map_filter cr_fired_at rs \<noteq> []" "concat (map cr_samples rs) \<noteq> []"
      using assms(1) by (cases rs; auto simp: List.map_filter_def)+
    then show ?thesis
      using True fired gate_accepts [of CLEAR]
      by (cases "least (List.map_filter cr_fired_at rs)") (auto simp: combine_def Let_def)
  next
    case False
    then show ?thesis using True gate_accepts and_status_not_fired by (simp add: combine_def Let_def)
  qed
next
  case False
  show ?thesis
  proof (cases "find (\<lambda>r. cr_status r = FIRED) rs")
    case None
    then show ?thesis using False gate_accepts any_status_not_fired by (simp add: combine_def Let_def)
  next
    case (Some r)
    then show ?thesis
      using False assms(2) gate_accepts [of CLEAR] find_Some_mem [OF Some] by (simp add: combine_def Let_def)
  qed
qed

section \<open>Trees\<close>

text \<open>The declarative reading of a tree: leaves that are due, every or some branch, no cooldown.\<close>

fun fires :: "(rat \<Rightarrow> rat) \<Rightarrow> EvalArgs \<Rightarrow> Condition \<Rightarrow> bool" where
  "fires fl args (Condition nm kind ops r t k) \<longleftrightarrow>
     \<not> in_cooldown fl args (Condition nm kind ops r t k)
     \<and> (case kind of
          NODE_METRIC \<Rightarrow> (case (r, t) of
             (Some x, Some y) \<Rightarrow> leaf_due fl args (Condition nm kind ops r t k) x y | _ \<Rightarrow> False)
        | NODE_ALL \<Rightarrow> list_all (fires fl args) ops
        | NODE_ANY \<Rightarrow> list_ex (fires fl args) ops)"

lemma list_all2_mem: "list_all2 P xs ys \<Longrightarrow> y \<in> set ys \<Longrightarrow> \<exists>x\<in>set xs. P x y"
  by (induction xs ys rule: list_all2_induct) auto

lemma image_singleton_iff: "A \<noteq> {} \<Longrightarrow> f ` A = {y} \<longleftrightarrow> (\<forall>x\<in>A. f x = y)"
  by auto

lemma list_all2_all_ex:
  "list_all2 (\<lambda>x y. Q y \<longleftrightarrow> P x) xs ys \<Longrightarrow> (list_all P xs \<longleftrightarrow> (\<forall>y\<in>set ys. Q y)) \<and> (list_ex P xs \<longleftrightarrow> (\<exists>y\<in>set ys. Q y))"
  by (induction xs ys rule: list_all2_induct) auto

text \<open>What a fired result cites: recorded, available samples that answer a reference of the tree.\<close>

definition evidence :: "EvalArgs \<Rightarrow> Condition \<Rightarrow> ConditionResult \<Rightarrow> bool" where
  "evidence args c x \<longleftrightarrow>
     (cr_status x = FIRED \<longrightarrow> cr_samples x \<noteq> [] \<and> cr_fired_at x = Some (ev_now args)
        \<and> (\<forall>s\<in>set (cr_samples x). sm_available s \<and> (\<exists>r\<in>set (references c). answers args r s)))"

lemma evaluate_evidence:
  "evaluate_condition fl args path c = Inr x \<Longrightarrow> evidence args c x"
  "evaluate_operands fl args path kind i cs = Inr xs \<Longrightarrow> list_all2 (evidence args) cs xs"
proof (induction fl args path c and fl args path kind i cs arbitrary: x and xs
    rule: evaluate_condition_evaluate_operands.induct)
  case (1 fl args path nm kind ops r t k)
  let ?c = "Condition nm kind ops r t k"
  show ?case
  proof (cases "kind = NODE_METRIC")
    case True
    with "1.prems" obtain r' t' where rt: "r = Some r'" "t = Some t'"
      by (auto simp: evaluate_leaf_def split: option.splits)
    have "evaluate_leaf fl args ?c = Inr x" using "1.prems" True by simp
    then obtain q st w where "gate fl args ?c q st w [] = Inr x" "st \<noteq> FIRED"
      "\<forall>y. q = Some y \<longrightarrow> set (q_samples y) \<subseteq> {s. answers args r' s \<and> sm_available s}"
      by (rule leaf_cases [where r = r' and t = t']) (use rt in auto)
    then show ?thesis
      using gate_fired_at gate_samples [of fl args ?c q st w "[]" x] True rt
      unfolding evidence_def by (cases q) fastforce+
  next
    case False
    with "1.prems" obtain rs where rs: "evaluate_operands fl args path kind 0 ops = Inr rs"
      "combine fl args ?c path rs = Inr x" by (auto split: sum.splits)
    have ih: "list_all2 (evidence args) ops rs" using "1.IH" [OF False] rs(1) by blast
    obtain q st w where g: "gate fl args ?c q st w path = Inr x" "st \<noteq> FIRED"
      "\<forall>y. q = Some y \<longrightarrow> set (q_samples y) \<subseteq> (\<Union>r\<in>{r\<in>set rs. cr_status r = FIRED}. set (cr_samples r))"
      by (rule combine_gate [OF rs(2)])
    have "set (cr_samples x) \<subseteq> (\<Union>r\<in>{r\<in>set rs. cr_status r = FIRED}. set (cr_samples r))"
      using gate_samples [OF g(1)] g(3) by (cases q) auto
    moreover have "sm_available s \<and> (\<exists>r\<in>set (references ?c). answers args r s)"
      if "y \<in> set rs" "cr_status y = FIRED" "s \<in> set (cr_samples y)" for y s
    proof -
      obtain op where "op \<in> set ops" "evidence args op y"
        using list_all2_mem [OF ih] \<open>y \<in> set rs\<close> by blast
      then show ?thesis
        using \<open>cr_status y = FIRED\<close> \<open>s \<in> set (cr_samples y)\<close> False unfolding evidence_def by fastforce
    qed
    ultimately show ?thesis
      using gate_fired_at [OF g(1) _ g(2)] unfolding evidence_def by blast
  qed
next
  case (2 fl args path kind i)
  then show ?case by simp
next
  case (3 fl args path kind i c cs)
  then show ?case by (auto split: sum.splits)
qed

text \<open>
  C35. A stop can name the samples behind it. A condition that fires cites at least one sample;
  each was recorded in the buffer no later than the moment of evaluation, is available, and answers
  a reference of the tree; the firing carries that moment, and promoting the result to a
  \<open>Firing\<close> succeeds with exactly these citations. A result that did not fire cannot be promoted.
\<close>

theorem firing_cites_evidence:
  assumes "evaluate_condition fl args path c = Inr x"
  shows "if cr_status x = FIRED
     then cr_samples x \<noteq> []
        \<and> (\<forall>s\<in>set (cr_samples x). s \<in> set (ev_samples args) \<and> sm_at s \<le> ev_now args \<and> sm_available s
             \<and> sm_metric s \<in> set (condition_metrics c))
        \<and> to_firing x = Inr \<lparr>fg_name = cr_name x, fg_samples = cr_samples x, fg_at = ev_now args, fg_path = cr_path x\<rparr>
     else to_firing x = Inl (InvariantViolation ''stop_conditions.not_fired'')"
  using evaluate_evidence(1) [OF assms]
  by (auto simp: evidence_def to_firing_def firing_init_def list_ex_iff condition_metrics_def answers_def)

lemma evaluate_fires:
  "evaluate_condition fl args path c = Inr x \<Longrightarrow> built c \<Longrightarrow> cr_status x = FIRED \<longleftrightarrow> fires fl args c"
  "evaluate_operands fl args path kind i cs = Inr xs \<Longrightarrow> list_all built cs \<Longrightarrow>
     list_all2 (\<lambda>c x. cr_status x = FIRED \<longleftrightarrow> fires fl args c) cs xs"
proof (induction fl args path c and fl args path kind i cs arbitrary: x and xs
    rule: evaluate_condition_evaluate_operands.induct)
  case (1 fl args path nm kind ops r t k)
  let ?c = "Condition nm kind ops r t k"
  show ?case
  proof (cases "kind = NODE_METRIC")
    case True
    with "1.prems" obtain r' t' where rt: "r = Some r'" "t = Some t'"
      by (auto simp: evaluate_leaf_def split: option.splits)
    have "evaluate_leaf fl args ?c = Inr x" using "1.prems" True by simp
    then obtain q st w where "gate fl args ?c q st w [] = Inr x" "st \<noteq> FIRED" "q \<noteq> None \<longleftrightarrow> leaf_due fl args ?c r' t'"
      by (rule leaf_cases [where r = r' and t = t']) (use rt in auto)
    then show ?thesis using gate_fired True rt by simp
  next
    case False
    with "1.prems" obtain rs where rs: "evaluate_operands fl args path kind 0 ops = Inr rs"
      "combine fl args ?c path rs = Inr x" by (auto split: sum.splits)
    have ops: "ops \<noteq> []" "list_all built ops" using built_composite [OF "1.prems"(2) False] .
    have ih: "list_all2 (\<lambda>c x. cr_status x = FIRED \<longleftrightarrow> fires fl args c) ops rs"
      using "1.IH" [OF False] rs(1) ops(2) by blast
    have "set rs \<noteq> {}" using ih ops(1) by auto
    then have "cr_status ` set rs = {FIRED} \<longleftrightarrow> list_all (fires fl args) ops"
      unfolding list_all2_all_ex [OF ih, THEN conjunct1] by (rule image_singleton_iff)
    moreover have "FIRED \<in> cr_status ` set rs \<longleftrightarrow> list_ex (fires fl args) ops"
      unfolding list_all2_all_ex [OF ih, THEN conjunct2] by (simp only: image_iff eq_commute)
    ultimately show ?thesis
      using combine_fired [OF rs(2)] False by (cases kind) simp_all
  qed
next
  case (2 fl args path kind i)
  then show ?case by simp
next
  case (3 fl args path kind i c cs)
  then show ?case by (auto split: sum.splits)
qed

lemma evaluate_errors:
  "built c \<Longrightarrow> (\<exists>e. evaluate_condition fl args path c = Inl e) \<longleftrightarrow> (\<exists>r\<in>set (references c). \<forall>s. \<not> answers args r s)"
  "list_all built cs \<Longrightarrow> (\<exists>e. evaluate_operands fl args path kind i cs = Inl e)
     \<longleftrightarrow> (\<exists>c\<in>set cs. \<exists>r\<in>set (references c). \<forall>s. \<not> answers args r s)"
proof (induction fl args path c and fl args path kind i cs rule: evaluate_condition_evaluate_operands.induct)
  case (1 fl args path nm kind ops r t k)
  let ?c = "Condition nm kind ops r t k"
  show ?case
  proof (cases "kind = NODE_METRIC")
    case True
    then obtain r' t' where "r = Some r'" "t = Some t'" using built_leaf [OF "1.prems"] by (metis Condition.sel(2,4,5))
    then show ?thesis using True leaf_error [of ?c r' t' fl args] by simp
  next
    case False
    have ops: "ops \<noteq> []" "list_all built ops" using built_composite [OF "1.prems" False] .
    note ih = "1.IH" [OF False ops(2)]
    show ?thesis
    proof (cases "evaluate_operands fl args path kind 0 ops")
      case (Inl e)
      then show ?thesis using ih False by auto
    next
      case (Inr rs)
      have ev: "list_all2 (evidence args) ops rs" by (rule evaluate_evidence(2) [OF Inr])
      then have "rs \<noteq> []" using ops(1) by auto
      moreover have "\<forall>r\<in>set rs. cr_status r = FIRED \<longrightarrow> cr_samples r \<noteq> [] \<and> cr_fired_at r \<noteq> None"
        using ev by (induction ops rs rule: list_all2_induct) (auto simp: evidence_def)
      ultimately obtain x where "combine fl args ?c path rs = Inr x" using combine_accepts by blast
      then show ?thesis using ih Inr False by auto
    qed
  qed
next
  case (2 fl args path kind i)
  then show ?case by simp
next
  case (3 fl args path kind i c cs)
  then show ?case by (cases "evaluate_condition fl args (path @ [(kind, i)]) c") (auto split: sum.splits)
qed

text \<open>The only refusal there is.\<close>

lemma evaluate_refusal:
  "built c \<Longrightarrow> evaluate_condition fl args path c = Inl e \<Longrightarrow> e = InvariantViolation ''stop_conditions.unknown_metric''"
  "list_all built cs \<Longrightarrow> evaluate_operands fl args path kind i cs = Inl e \<Longrightarrow>
     e = InvariantViolation ''stop_conditions.unknown_metric''"
proof (induction fl args path c and fl args path kind i cs rule: evaluate_condition_evaluate_operands.induct)
  case (1 fl args path nm kind ops r t k)
  let ?c = "Condition nm kind ops r t k"
  show ?case
  proof (cases "kind = NODE_METRIC")
    case True
    then obtain r' t' where "r = Some r'" "t = Some t'" using built_leaf [OF "1.prems"(1)] by (metis Condition.sel(2,4,5))
    then show ?thesis using True "1.prems"(2) leaf_error [of ?c r' t' fl args e] by simp
  next
    case False
    have ops: "ops \<noteq> []" "list_all built ops" using built_composite [OF "1.prems"(1) False] .
    show ?thesis
    proof (cases "evaluate_operands fl args path kind 0 ops")
      case (Inl e')
      then show ?thesis using "1.IH" [OF False ops(2)] "1.prems"(2) False by simp
    next
      case (Inr rs)
      have ev: "list_all2 (evidence args) ops rs" by (rule evaluate_evidence(2) [OF Inr])
      then have "rs \<noteq> []" using ops(1) by auto
      moreover have "\<forall>r\<in>set rs. cr_status r = FIRED \<longrightarrow> cr_samples r \<noteq> [] \<and> cr_fired_at r \<noteq> None"
        using ev by (induction ops rs rule: list_all2_induct) (auto simp: evidence_def)
      ultimately obtain x where "combine fl args ?c path rs = Inr x" using combine_accepts by blast
      then show ?thesis using Inr False "1.prems"(2) by simp
    qed
  qed
next
  case (2 fl args path kind i)
  then show ?case by simp
next
  case (3 fl args path kind i c cs)
  then show ?case by (auto split: sum.splits)
qed

section \<open>A tree decides what its reading says\<close>

definition demo_obs :: "string \<Rightarrow> rat \<Rightarrow> ObservationResult" where
  "demo_obs m v = \<lparr>ob_metric = m, ob_value = Some (Finite v), ob_unit = ''ms'', ob_window_s = 60, ob_status = OBS_OK,
     ob_provenance = ''local'', ob_source = [], ob_detail = []\<rparr>"

definition demo_sample :: "string \<Rightarrow> rat \<Rightarrow> rat \<Rightarrow> Sample" where
  "demo_sample m v t = \<lparr>sm_obs = demo_obs m v, sm_at = t\<rparr>"

definition demo_threshold :: "rat \<Rightarrow> Threshold" where
  "demo_threshold b = \<lparr>th_kind = ABSOLUTE, th_fires = BROKEN,
     th_expect = Some \<lparr>ae_lte = Some b, ae_gte = None, ae_eq = None\<rparr>, th_tolerance = None, th_criterion = None,
     th_percent = None, th_baseline = None\<rparr>"

definition demo_tree :: Condition where
  "demo_tree = condition_all
     [condition_metric ''latency'' (demo_threshold 250) [] [] (no_controls\<lparr>ct_for_samples := 2, ct_debounce := 5\<rparr>),
      condition_metric ''errors'' (demo_threshold 1) [] [] no_controls] [] 0 None"

definition demo_eval :: EvalArgs where
  "demo_eval = \<lparr>ev_samples = [demo_sample ''latency'' 300 2, demo_sample ''latency'' 100 1, demo_sample ''latency'' 400 5,
       demo_sample ''errors'' 3 4, demo_sample ''latency'' 90 11],
     ev_now = 10, ev_last = None, ev_baselines = (\<lambda>_. None)\<rparr>"

lemma demo_tree_built: "built demo_tree"
  by (simp add: demo_tree_def condition_all_def condition_metric_def condition_validate_Inr controls_ok_def
      no_controls_def shape_matches_kind_def value_controls_on_leaves_def hysteresis_expressible_def)

text \<open>
  C10. Evaluating a tree of built conditions either refuses, for one reason only and exactly when
  some reference of the tree has no recorded sample, or answers. It answers \<open>FIRED\<close> exactly when the
  tree fires in its declarative reading: no cooldown on the way, every or some branch, and at a
  leaf a run of breaches since the last clear sample that is long enough, old enough, and began
  inside the observation window.
\<close>

theorem evaluation_decides:
  assumes "built c"
  shows "case evaluate_condition fl args path c of
       Inl e \<Rightarrow> e = InvariantViolation ''stop_conditions.unknown_metric''
         \<and> (\<exists>r\<in>set (references c). \<forall>s. \<not> answers args r s)
     | Inr x \<Rightarrow> (\<forall>r\<in>set (references c). \<exists>s. answers args r s) \<and> (cr_status x = FIRED \<longleftrightarrow> fires fl args c)"
proof (cases "evaluate_condition fl args path c")
  case (Inl e)
  then have "\<exists>r\<in>set (references c). \<forall>s. \<not> answers args r s"
    using evaluate_errors(1) [OF assms, of fl args path] by blast
  then show ?thesis using Inl evaluate_refusal(1) [OF assms Inl] by simp
next
  case (Inr x)
  then have "\<not> (\<exists>r\<in>set (references c). \<forall>s. \<not> answers args r s)"
    using evaluate_errors(1) [OF assms, of fl args path] by simp
  then show ?thesis using Inr evaluate_fires(1) [OF Inr assms] by auto
qed

theorem evaluation_decides_witness:
  "\<exists>x. evaluate_condition (\<lambda>x. x) demo_eval [] demo_tree = Inr x \<and> cr_status x = FIRED \<and> fires (\<lambda>x. x) demo_eval demo_tree
     \<and> cr_samples x = [demo_sample ''latency'' 300 2, demo_sample ''latency'' 400 5, demo_sample ''errors'' 3 4]"
proof -
  have 1: "evaluate_condition (\<lambda>x. x) demo_eval [] demo_tree = Inr
     \<lparr>cr_name = ''all node'', cr_status = FIRED,
      cr_samples = [demo_sample ''latency'' 300 2, demo_sample ''latency'' 400 5, demo_sample ''errors'' 3 4],
      cr_fired_at = Some 10, cr_window = Some 1, cr_path = []\<rparr>"
    by code_simp
  from evaluation_decides [OF demo_tree_built, where fl = "\<lambda>x. x" and args = demo_eval and path = "[]"] show ?thesis
    unfolding 1 by simp
qed

theorem firing_cites_evidence_witness:
  "\<exists>x f. evaluate_condition (\<lambda>x. x) demo_eval [] demo_tree = Inr x \<and> to_firing x = Inr f \<and> length (fg_samples f) = 3"
proof -
  have 1: "evaluate_condition (\<lambda>x. x) demo_eval [] demo_tree = Inr
     \<lparr>cr_name = ''all node'', cr_status = FIRED,
      cr_samples = [demo_sample ''latency'' 300 2, demo_sample ''latency'' 400 5, demo_sample ''errors'' 3 4],
      cr_fired_at = Some 10, cr_window = Some 1, cr_path = []\<rparr>"
    by code_simp
  from firing_cites_evidence [OF this] 1 show ?thesis by simp
qed

text \<open>Evaluation is replay: samples from after \<open>now\<close> do not change the answer.\<close>

lemma index_ignores_future:
  "index_by_metric (filter (\<lambda>s. sm_at s \<le> now) samples) now = index_by_metric samples now"
  by (auto simp: index_by_metric_def not_less conj_commute intro!: ext filter_cong)

lemma controls_ignore_samples:
  "in_cooldown fl (args\<lparr>ev_samples := xs\<rparr>) = in_cooldown fl args"
  "window_closed fl (args\<lparr>ev_samples := xs\<rparr>) = window_closed fl args"
  by (auto simp: in_cooldown_def window_closed_def fun_eq_iff split: option.splits)

lemma gate_ignores_samples: "gate fl (args\<lparr>ev_samples := xs\<rparr>) c q st w path = gate fl args c q st w path"
  by (cases q) (simp_all add: gate_def controls_ignore_samples Let_def)

lemma combine_ignores_samples: "combine fl (args\<lparr>ev_samples := xs\<rparr>) c path rs = combine fl args c path rs"
  by (simp add: combine_def gate_ignores_samples Let_def cong: option.case_cong if_cong)

lemma evaluation_ignores_future:
  "evaluate_condition fl (args\<lparr>ev_samples := filter (\<lambda>s. sm_at s \<le> ev_now args) (ev_samples args)\<rparr>) path c = evaluate_condition fl args path c"
  "evaluate_operands fl (args\<lparr>ev_samples := filter (\<lambda>s. sm_at s \<le> ev_now args) (ev_samples args)\<rparr>) path kind i cs
     = evaluate_operands fl args path kind i cs"
proof (induction fl args path c and fl args path kind i cs rule: evaluate_condition_evaluate_operands.induct)
  case (1 fl args path nm kind ops r t k)
  let ?args = "args\<lparr>ev_samples := filter (\<lambda>s. sm_at s \<le> ev_now args) (ev_samples args)\<rparr>"
  have "evaluate_leaf fl ?args c = evaluate_leaf fl args c" for c
    by (auto simp: evaluate_leaf_def index_ignores_future gate_ignores_samples Let_def split: option.splits)
  then show ?case using "1.IH" by (cases "kind = NODE_METRIC") (simp_all add: combine_ignores_samples split: sum.splits)
next
  case (2 fl args path kind i)
  then show ?case by simp
next
  case (3 fl args path kind i c cs)
  then show ?case by (auto split: sum.splits)
qed

section \<open>The dead band\<close>

text \<open>
  Around a bound on one side a dead band only ever narrows: a value is taken for a breach only
  if it breaches, for clear only if it does not, whichever side of the bound is the stop. In between
  the previous state is held.
\<close>

theorem dead_band_narrows:
  assumes "th_kind t = ABSOLUTE" "th_expect t = Some e" "ae_eq e = None" "supports_hysteresis t"
    and "sm_value s = Some (Finite x)"
  shows "case sample_state (\<lambda>x. x) t s b band of
      S_BREACH \<Rightarrow> breaches (\<lambda>x. x) t s b | S_CLEAR \<Rightarrow> \<not> breaches (\<lambda>x. x) t s b | S_HOLD \<Rightarrow> 0 < band"
proof (cases "band \<le> 0 \<or> expect_bound e = None")
  case True
  then show ?thesis
    using assms by (auto simp: sample_state_def governing_bound_def Let_def)
next
  case False
  then obtain op l where ol: "expect_bound e = Some (op, l)" "0 < band" by (auto simp: not_le)
  have holds: "holds (\<lambda>x. x) t s b \<longleftrightarrow> within_absolute (Finite x) e"
    using assms by (simp add: holds_def)
  have one: "(op = OP_GT \<and> ae_lte e = Some l \<and> ae_gte e = None) \<or> (op = OP_LT \<and> ae_gte e = Some l \<and> ae_lte e = None)"
    using ol(1) assms(1-4)
    by (auto simp: expect_bound_def supports_hysteresis_def split: option.splits if_splits)
  have st: "sample_state (\<lambda>x. x) t s b band =
     (if th_fires t = MET then invert_state (band_state (\<lambda>x. x) x l op band) else band_state (\<lambda>x. x) x l op band)"
    using assms ol by (simp add: sample_state_def governing_bound_def Let_def)
  show ?thesis
    using one
  proof (elim disjE conjE)
    assume "op = OP_GT" "ae_lte e = Some l" "ae_gte e = None"
    then show ?thesis
      unfolding st breaches_def holds using ol(2) assms(3)
      by (auto simp: band_state_def Let_def within_absolute_Finite not_le not_less)
  next
    assume "op = OP_LT" "ae_gte e = Some l" "ae_lte e = None"
    then show ?thesis
      unfolding st breaches_def holds using ol(2) assms(3)
      by (auto simp: band_state_def Let_def within_absolute_Finite not_le not_less)
  qed
qed

theorem dead_band_narrows_witness:
  "breaches (\<lambda>x. x) (demo_threshold 250) (demo_sample ''m'' 300 0) None"
  using dead_band_narrows [of "demo_threshold 250" "\<lparr>ae_lte = Some 250, ae_gte = None, ae_eq = None\<rparr>"
      "demo_sample ''m'' 300 0" 300 None 25]
  by (simp add: demo_threshold_def demo_sample_def demo_obs_def supports_hysteresis_def sample_state_def
      governing_bound_def expect_bound_def band_state_def)

text \<open>
  It does not for an SLO criterion, whose operator is taken for the direction of the breach when it
  is the direction of health: with any band a healthy value breaches and a breaching one is clear.
\<close>

definition demo_criterion :: "CriterionOperator \<Rightarrow> Threshold" where
  "demo_criterion op = \<lparr>th_kind = OPERATOR, th_fires = BROKEN, th_expect = None, th_tolerance = None,
     th_criterion = Some \<lparr>sc_kind = LATENCY, sc_metric = ''m'', sc_operator = op, sc_threshold = 250, sc_unit = ''ms'',
       sc_window_s = 60, sc_name = []\<rparr>, th_percent = None, th_baseline = None\<rparr>"

lemma operator_band_inverted:
  "threshold_validate (demo_criterion OP_LTE) = Inr (demo_criterion OP_LTE)"
  "supports_hysteresis (demo_criterion OP_LTE)"
  "\<not> breaches (\<lambda>x. x) (demo_criterion OP_LTE) (demo_sample ''m'' 100 0) None"
  "sample_state (\<lambda>x. x) (demo_criterion OP_LTE) (demo_sample ''m'' 100 0) None 25 = S_BREACH"
  "breaches (\<lambda>x. x) (demo_criterion OP_LTE) (demo_sample ''m'' 400 0) None"
  "sample_state (\<lambda>x. x) (demo_criterion OP_LTE) (demo_sample ''m'' 400 0) None 25 = S_CLEAR"
  by (simp_all add: threshold_validate_def supports_hysteresis_def breaches_def holds_def sample_state_def
      governing_bound_def band_state_def criterion_passed_def ob_available_def demo_criterion_def demo_sample_def
      demo_obs_def)

text \<open>
  Nor for a percentage, whose bound is read as the value the change should equal: with a band, a
  metric that did not move at all breaches a bound of ten percent.
\<close>

definition demo_percentage :: Threshold where
  "demo_percentage = \<lparr>th_kind = PERCENTAGE, th_fires = BROKEN, th_expect = None, th_tolerance = None,
     th_criterion = None, th_percent = Some 10, th_baseline = Some (Finite 100)\<rparr>"

lemma percentage_band_fires_at_rest:
  "threshold_validate demo_percentage = Inr demo_percentage"
  "supports_hysteresis demo_percentage"
  "\<not> breaches (\<lambda>x. x) demo_percentage (demo_sample ''m'' 100 0) None"
  "sample_state (\<lambda>x. x) demo_percentage (demo_sample ''m'' 100 0) None 1 = S_BREACH"
  by (simp_all add: threshold_validate_def supports_hysteresis_def breaches_def holds_def sample_state_def
      governing_bound_def band_state_def change_from_def resolved_baseline_def delta_pct_def demo_percentage_def
      demo_sample_def demo_obs_def)

text \<open>The projection of a strict operator is not strict: at the bound the two judgements differ.\<close>

lemma strict_projection_disagrees:
  "\<exists>a e. threshold_assertion ''m'' DEGRADED (demo_criterion OP_LT) = Inr a \<and> as_expect a = Some e
     \<and> within_absolute (Finite 250) e \<and> \<not> holds (\<lambda>x. x) (demo_criterion OP_LT) (demo_sample ''m'' 250 0) None"
  by (simp add: threshold_assertion_def expect_from_operator_def within_absolute_def holds_def criterion_passed_def
      ob_available_def demo_criterion_def demo_sample_def demo_obs_def)

section \<open>Where the code loses what it says\<close>

lemma leaf_path_lost:
  assumes "evaluate_condition fl args path c = Inr x" "cn_kind c = NODE_METRIC"
  shows "cr_path x = []"
proof -
  have "evaluate_leaf fl args c = Inr x" using assms by (cases c) simp
  then show ?thesis
    by (auto simp: evaluate_leaf_def gate_def Let_def split: option.splits if_splits)
qed

lemma validate_references_ignores_source:
  "validate_references [''m''] (condition_metric ''m'' (demo_threshold 1) ''prom'' [] no_controls) = None"
  "evaluate_condition (\<lambda>x. x) (demo_eval\<lparr>ev_samples := [demo_sample ''m'' 3 4]\<rparr>) []
     (condition_metric ''m'' (demo_threshold 1) ''prom'' [] no_controls)
   = Inl (InvariantViolation ''stop_conditions.unknown_metric'')"
  by (simp_all add: validate_references_def condition_metric_def evaluate_leaf_def resolve_series_def index_by_metric_def
      demo_eval_def demo_sample_def demo_obs_def)

end
