(* ===== verification/Fair_Share.thy ===== *)
theory Fair_Share
  imports Mayhem_Prelude "HOL-Library.Product_Lexorder" "HOL-Library.List_Lexorder" "HOL-Library.Char_ord"
    "HOL-Library.AList"
begin

text \<open>
  The fairness policy of \<open>domain/scheduling.py\<close>: which team gets the next slot. Shares are
  rationals (finite by the model's type), rounded by \<open>fl\<close> where the code computes a deficit.
  The theorem is the guarantee the policy states of its simulation: under constant demand no team
  goes without a grant for longer than the starvation window plus the number of other teams.
\<close>

section \<open>Grants\<close>

record GrantRecord =
  gt_window :: nat
  gt_team :: string
  gt_schedule :: string

definition grant_validate :: "GrantRecord \<Rightarrow> py_error + GrantRecord" where
  "grant_validate g = (if gt_team g = [] then Inl ValueErr else Inr g)"

text \<open>\<open>grant_counts\<close>: a dict of counters, sorted by team.\<close>

definition grant_counts :: "GrantRecord list \<Rightarrow> (string \<times> nat) list" where
  "grant_counts h =
     (let counts = fold (\<lambda>g d. AList.update (gt_team g)
            ((case map_of d (gt_team g) of None \<Rightarrow> 0 | Some n \<Rightarrow> n) + 1) d) h []
      in map (\<lambda>t. (t, the (map_of counts t))) (sort (map fst counts)))"

fun skip_scan :: "int \<Rightarrow> int \<Rightarrow> nat list \<Rightarrow> int \<times> int" where
  "skip_scan longest previous [] = (longest, previous)"
| "skip_scan longest previous (i # is) = skip_scan (max longest (int i - previous - 1)) (int i) is"

definition longest_skip :: "GrantRecord list \<Rightarrow> nat \<Rightarrow> string \<Rightarrow> int" where
  "longest_skip h windows team =
     (case skip_scan 0 (- 1) (sort (map gt_window (filter (\<lambda>g. gt_team g = team) h))) of
        (longest, previous) \<Rightarrow> max longest (int windows - 1 - previous))"

definition longest_skip_runs :: "GrantRecord list \<Rightarrow> string list \<Rightarrow> nat \<Rightarrow> (string \<times> int) list" where
  "longest_skip_runs h teams windows = map (\<lambda>t. (t, longest_skip h windows t)) (sort teams)"

section \<open>The policy\<close>

record FairnessPolicy =
  fp_id :: string
  fp_shares :: "(string \<times> rat) list"
  fp_default :: rat
  fp_starvation :: int
  fp_max_grants :: int

definition slug_char :: "char \<Rightarrow> bool" where
  "slug_char c \<longleftrightarrow> c \<in> set ''abcdefghijklmnopqrstuvwxyz0123456789''"

text \<open>The pattern \<open>^[a-z0-9][a-z0-9._:-]{0,127}$\<close> of every identifier of the module.\<close>

definition slug_ok :: "string \<Rightarrow> bool" where
  "slug_ok s \<longleftrightarrow> s \<noteq> [] \<and> length s \<le> 128 \<and> slug_char (hd s) \<and> list_all (\<lambda>c. slug_char c \<or> c \<in> set ''._:-'') (tl s)"

definition policy_validate :: "FairnessPolicy \<Rightarrow> py_error + FairnessPolicy" where
  "policy_validate p =
     (if \<not> slug_ok (fp_id p) \<or> fp_default p < 0 \<or> fp_starvation p < 1 \<or> fp_max_grants p < 1 then Inl ValueErr
      else if fp_shares p = [] then Inl (InvariantViolation ''fairness.no_shares'')
      else if list_ex (\<lambda>(t, _). t = []) (fp_shares p) then Inl (InvariantViolation ''fairness.empty_team'')
      else if list_ex (\<lambda>(_, w). w < 0) (fp_shares p) then Inl (InvariantViolation ''fairness.share_range'')
      else if sum_list (map snd (fp_shares p)) \<le> 0 then Inl (InvariantViolation ''fairness.share_total'')
      else Inr p)"

definition share_of :: "FairnessPolicy \<Rightarrow> string \<Rightarrow> rat" where
  "share_of p t = (case map_of (fp_shares p) t of None \<Rightarrow> fp_default p | Some w \<Rightarrow> w)"

definition policy_teams :: "FairnessPolicy \<Rightarrow> string list" where
  "policy_teams p = sort (map fst (fp_shares p))"

definition normalised_deficit ::
  "(rat \<Rightarrow> rat) \<Rightarrow> FairnessPolicy \<Rightarrow> string \<Rightarrow> string list \<Rightarrow> GrantRecord list \<Rightarrow> rat" where
  "normalised_deficit fl p team pending h =
     (let total_share = fl (sum_list (map (share_of p) pending))
      in if total_share \<le> 0 then 0
         else let granted = length (filter (\<lambda>g. gt_team g = team) h);
                  served = (if h = [] then 0 else fl (of_nat granted / of_nat (length h)))
              in fl (fl (share_of p team / total_share) - served))"

definition granted_in :: "GrantRecord list \<Rightarrow> string \<Rightarrow> nat \<Rightarrow> bool" where
  "granted_in h team i \<longleftrightarrow> list_ex (\<lambda>g. gt_team g = team \<and> gt_window g = i) h"

text \<open>\<open>consecutive_skips\<close>: the loop walks the windows back from the one before \<open>window_index\<close>.\<close>

fun consecutive_skips :: "GrantRecord list \<Rightarrow> string \<Rightarrow> nat \<Rightarrow> nat" where
  "consecutive_skips h team 0 = 0"
| "consecutive_skips h team (Suc i) = (if granted_in h team i then 0 else Suc (consecutive_skips h team i))"

definition is_starving :: "FairnessPolicy \<Rightarrow> string \<Rightarrow> GrantRecord list \<Rightarrow> nat \<Rightarrow> bool" where
  "is_starving p team h i \<longleftrightarrow> int (consecutive_skips h team i) \<ge> fp_starvation p"

definition priority_key ::
  "(rat \<Rightarrow> rat) \<Rightarrow> FairnessPolicy \<Rightarrow> string list \<Rightarrow> GrantRecord list \<Rightarrow> nat \<Rightarrow> string
     \<Rightarrow> int \<times> int \<times> rat \<times> string" where
  "priority_key fl p pending h i team =
     (if is_starving p team h i then 0 else 1,
      if is_starving p team h i then - int (consecutive_skips h team i) else 0,
      - round_to fl 9 (normalised_deficit fl p team pending h), team)"

definition select_team ::
  "(rat \<Rightarrow> rat) \<Rightarrow> FairnessPolicy \<Rightarrow> string list \<Rightarrow> GrantRecord list \<Rightarrow> nat \<Rightarrow> string option" where
  "select_team fl p pending h i =
     (case sort_key (priority_key fl p pending h i) pending of [] \<Rightarrow> None | t # _ \<Rightarrow> Some t)"

section \<open>The simulation\<close>

record FairnessSimulation =
  sim_policy :: string
  sim_windows :: nat
  sim_grants :: "string list list"
  sim_counts :: "(string \<times> nat) list"
  sim_skips :: "(string \<times> int) list"

fun grant_slots ::
  "(rat \<Rightarrow> rat) \<Rightarrow> FairnessPolicy \<Rightarrow> nat \<Rightarrow> nat \<Rightarrow> string list \<Rightarrow> GrantRecord list \<Rightarrow> string list
     \<Rightarrow> GrantRecord list \<times> string list" where
  "grant_slots fl p i 0 available h granted = (h, granted)"
| "grant_slots fl p i (Suc k) available h granted =
     (case select_team fl p available h i of
        None \<Rightarrow> (h, granted)
      | Some pick \<Rightarrow> grant_slots fl p i k (remove1 pick available)
           (h @ [\<lparr>gt_window = i, gt_team = pick, gt_schedule = []\<rparr>]) (granted @ [pick]))"

text \<open>The windows \<open>i\<close>, \<open>i + 1\<close>, ... of which \<open>k\<close> remain.\<close>

fun run_windows ::
  "(rat \<Rightarrow> rat) \<Rightarrow> FairnessPolicy \<Rightarrow> string list \<Rightarrow> nat \<Rightarrow> nat \<Rightarrow> GrantRecord list
     \<Rightarrow> GrantRecord list \<times> string list list" where
  "run_windows fl p demanding i 0 h = (h, [])"
| "run_windows fl p demanding i (Suc k) h =
     (case grant_slots fl p i (nat (fp_max_grants p)) demanding h [] of
        (h', granted) \<Rightarrow> (case run_windows fl p demanding (Suc i) k h' of (h'', rest) \<Rightarrow> (h'', granted # rest)))"

definition simulate_fairness ::
  "(rat \<Rightarrow> rat) \<Rightarrow> FairnessPolicy \<Rightarrow> string list \<Rightarrow> int \<Rightarrow> py_error + FairnessSimulation" where
  "simulate_fairness fl p teams windows =
     (let demanding = sort (remdups teams)
      in if demanding = [] then Inl (InvariantViolation ''fairness.no_teams'')
         else if windows < 1 then Inl (InvariantViolation ''fairness.window_count'')
         else case run_windows fl p demanding 0 (nat windows) [] of
                (h, per_window) \<Rightarrow> Inr
                  \<lparr>sim_policy = fp_id p, sim_windows = nat windows, sim_grants = per_window,
                   sim_counts = grant_counts h, sim_skips = longest_skip_runs h demanding (nat windows)\<rparr>)"

definition starvation_bound :: "FairnessSimulation \<Rightarrow> FairnessPolicy \<Rightarrow> int" where
  "starvation_bound s p = fp_starvation p + max 0 (int (length (sim_skips s)) - 1)"

definition honours_policy :: "FairnessSimulation \<Rightarrow> FairnessPolicy \<Rightarrow> bool" where
  "honours_policy s p = list_all (\<lambda>(_, skips). skips \<le> starvation_bound s p) (sim_skips s)"

definition starved_teams :: "FairnessSimulation \<Rightarrow> FairnessPolicy \<Rightarrow> string list" where
  "starved_teams s p = sort (map fst (filter (\<lambda>(_, skips). skips > starvation_bound s p) (sim_skips s)))"

section \<open>Which team is picked\<close>

lemma hd_sort_key_least:
  assumes "sort_key f xs = y # ys" "x \<in> set xs"
  shows "f y \<le> f x"
proof -
  have "sorted (map f (y # ys))" using assms(1) by (metis sorted_sort_key)
  moreover have "x \<in> set (y # ys)" using assms by (metis set_sort)
  ultimately show ?thesis by auto
qed

lemma select_team_Some:
  assumes "select_team fl p pending h i = Some t"
  shows "t \<in> set pending" "x \<in> set pending \<Longrightarrow> priority_key fl p pending h i t \<le> priority_key fl p pending h i x"
proof -
  obtain ts where s: "sort_key (priority_key fl p pending h i) pending = t # ts"
    using assms by (auto simp: select_team_def split: list.splits)
  show "t \<in> set pending" using s by (metis list.set_intros(1) set_sort)
  show "x \<in> set pending \<Longrightarrow> priority_key fl p pending h i t \<le> priority_key fl p pending h i x"
    by (rule hd_sort_key_least [OF s])
qed

lemma select_team_empty [simp]: "select_team fl p [] h i = None"
  by (simp add: select_team_def)

lemma select_team_None: "select_team fl p pending h i = None \<longleftrightarrow> pending = []"
  using set_sort [of "priority_key fl p pending h i" pending]
  by (cases "sort_key (priority_key fl p pending h i) pending") (auto simp: select_team_def)

text \<open>A starving team is only passed over for one that is starving for at least as long.\<close>

lemma select_team_longest:
  assumes "select_team fl p pending h i = Some t" "x \<in> set pending" "is_starving p x h i"
  shows "is_starving p t h i" "consecutive_skips h x i \<le> consecutive_skips h t i"
  using select_team_Some(2) [OF assms(1,2)] assms(3)
  by (auto simp: priority_key_def less_eq_prod_def less_prod_def split: if_splits)

lemma grant_slots_appends:
  "\<exists>new. grant_slots fl p i k available h granted
     = (h @ map (\<lambda>t. \<lparr>gt_window = i, gt_team = t, gt_schedule = []\<rparr>) new, granted @ new)
     \<and> (\<forall>t. k \<noteq> 0 \<longrightarrow> select_team fl p available h i = Some t \<longrightarrow> t \<in> set new)"
proof (induction k arbitrary: available h granted)
  case 0
  then show ?case by (intro exI [of _ "[]"]) simp
next
  case (Suc k)
  show ?case
  proof (cases "select_team fl p available h i")
    case None
    then show ?thesis by (intro exI [of _ "[]"]) simp
  next
    case (Some pick)
    obtain new where "grant_slots fl p i k (remove1 pick available)
        (h @ [\<lparr>gt_window = i, gt_team = pick, gt_schedule = []\<rparr>]) (granted @ [pick])
      = ((h @ [\<lparr>gt_window = i, gt_team = pick, gt_schedule = []\<rparr>])
          @ map (\<lambda>t. \<lparr>gt_window = i, gt_team = t, gt_schedule = []\<rparr>) new, (granted @ [pick]) @ new)"
      using Suc.IH by blast
    then show ?thesis using Some by (intro exI [of _ "pick # new"]) simp
  qed
qed

section \<open>How long a team waits\<close>

lemma granted_in_append: "granted_in (h @ h') t i \<longleftrightarrow> granted_in h t i \<or> granted_in h' t i"
  by (simp add: granted_in_def)

lemma skips_later_grants:
  "(\<forall>g\<in>set h'. i \<le> gt_window g) \<Longrightarrow> j \<le> i \<Longrightarrow> consecutive_skips (h @ h') t j = consecutive_skips h t j"
proof (induction j)
  case 0
  then show ?case by simp
next
  case (Suc j)
  then have "\<not> granted_in h' t j" by (auto simp: granted_in_def list_ex_iff)
  then show ?case using Suc by (simp add: granted_in_append)
qed

lemma skips_gap:
  "(\<forall>k. previous < int k \<and> k < i \<longrightarrow> \<not> granted_in h t k) \<Longrightarrow> - 1 \<le> previous \<Longrightarrow>
   int i - previous - 1 \<le> int (consecutive_skips h t i)"
proof (induction i)
  case 0
  then show ?case by simp
next
  case (Suc i)
  show ?case
  proof (cases "previous < int i")
    case True
    then have "\<not> granted_in h t i" using Suc.prems(1) by blast
    then show ?thesis using Suc by auto
  next
    case False
    then show ?thesis by simp
  qed
qed

lemma skip_scan_bounded:
  assumes "sorted xs" "\<forall>x\<in>set xs. previous \<le> int x" "\<forall>k. granted_in h t k \<and> previous < int k \<longrightarrow> k \<in> set xs"
    and "\<forall>x\<in>set xs. x < n" "\<forall>i\<le>n. int (consecutive_skips h t i) \<le> B"
    and "longest \<le> B" "- 1 \<le> previous" "previous < int n" "0 \<le> B"
  shows "(case skip_scan longest previous xs of (l, q) \<Rightarrow> max l (int n - 1 - q)) \<le> B"
  using assms
proof (induction xs arbitrary: longest previous)
  case Nil
  then have "int n - previous - 1 \<le> int (consecutive_skips h t n)" by (intro skips_gap) auto
  moreover have "int (consecutive_skips h t n) \<le> B" using Nil.prems(5) by blast
  ultimately show ?case using Nil.prems(6) by simp
next
  case (Cons x xs)
  have "\<forall>k. previous < int k \<and> k < x \<longrightarrow> \<not> granted_in h t k"
  proof (intro allI impI notI)
    fix k
    assume "previous < int k \<and> k < x" "granted_in h t k"
    with Cons.prems(3) have "k \<in> set (x # xs)" by blast
    with Cons.prems(1) have "x \<le> k" by auto
    with \<open>previous < int k \<and> k < x\<close> show False by simp
  qed
  then have "int x - previous - 1 \<le> int (consecutive_skips h t x)" using Cons.prems(7) by (rule skips_gap)
  moreover have "int (consecutive_skips h t x) \<le> B" using Cons.prems(4,5) by (metis less_imp_le list.set_intros(1))
  ultimately have gap: "int x - previous - 1 \<le> B" by simp
  show ?case
    unfolding skip_scan.simps
  proof (rule Cons.IH)
    show "\<forall>k. granted_in h t k \<and> int x < int k \<longrightarrow> k \<in> set xs"
    proof (intro allI impI)
      fix k
      assume k: "granted_in h t k \<and> int x < int k"
      have "previous \<le> int x" using Cons.prems(2) by simp
      with k have "previous < int k" by linarith
      with k Cons.prems(3) have "k \<in> set (x # xs)" by blast
      with k show "k \<in> set xs" by auto
    qed
  qed (use Cons.prems gap in auto)
qed

lemma longest_skip_bounded:
  assumes "\<forall>g\<in>set h. gt_window g < n" "\<forall>i\<le>n. int (consecutive_skips h t i) \<le> B" "0 \<le> B"
  shows "longest_skip h n t \<le> B"
  unfolding longest_skip_def
  by (rule skip_scan_bounded [where h = h and t = t])
    (use assms in \<open>auto simp: granted_in_def list_ex_iff\<close>)

section \<open>No team starves\<close>

text \<open>
  The counting invariant: fewer and fewer teams wait longer and longer beyond the starvation window.
\<close>

definition waiting :: "FairnessPolicy \<Rightarrow> string set \<Rightarrow> GrantRecord list \<Rightarrow> nat \<Rightarrow> nat \<Rightarrow> string set" where
  "waiting p D h i j = {t \<in> D. fp_starvation p + int j \<le> int (consecutive_skips h t i)}"

definition waits_bounded :: "FairnessPolicy \<Rightarrow> string set \<Rightarrow> GrantRecord list \<Rightarrow> nat \<Rightarrow> bool" where
  "waits_bounded p D h i \<longleftrightarrow> (\<forall>j\<ge>1. waiting p D h i j = {} \<or> card (waiting p D h i j) + j \<le> card D)"

lemma waits_bounded_skip:
  assumes "waits_bounded p D h i" "finite D" "t \<in> D"
  shows "int (consecutive_skips h t i) \<le> fp_starvation p + int (card D) - 1"
proof (rule ccontr)
  assume "\<not> ?thesis"
  then have t: "t \<in> waiting p D h i (card D)" using assms(3) by (simp add: waiting_def)
  have "1 \<le> card D" using assms(2,3) by (metis Suc_leI card_gt_0_iff empty_iff One_nat_def)
  then have "card (waiting p D h i (card D)) = 0" using assms(1) t unfolding waits_bounded_def by fastforce
  moreover have "finite (waiting p D h i (card D))" using assms(2) by (simp add: waiting_def)
  ultimately show False using t by simp
qed

text \<open>One window: the first pick is among those who waited longest, and everyone else waits one more.\<close>

lemma window_step:
  assumes "waits_bounded p (set D) h i" "\<forall>g\<in>set h. gt_window g < i" "D \<noteq> []"
    and "h' = h @ map (\<lambda>t. \<lparr>gt_window = i, gt_team = t, gt_schedule = []\<rparr>) new"
    and "\<forall>t. select_team fl p D h i = Some t \<longrightarrow> t \<in> set new" "1 \<le> fp_starvation p"
  shows "waits_bounded p (set D) h' (Suc i)"
proof -
  obtain pick where pick: "select_team fl p D h i = Some pick" "pick \<in> set D" "pick \<in> set new"
    using assms(3,5) select_team_None [of fl p D h i] select_team_Some(1) [of fl p D h i] by (metis option.exhaust)
  have later: "consecutive_skips h' t i = consecutive_skips h t i" for t
    unfolding assms(4) by (rule skips_later_grants [where i = i]) auto
  have gr: "granted_in h' pick i" using pick(3) by (force simp: assms(4) granted_in_def list_ex_iff)
  have sub: "waiting p (set D) h' (Suc i) (Suc j) \<subseteq> waiting p (set D) h i j - {pick}" for j
    using gr later assms(6) by (auto simp: waiting_def split: if_splits)
  have in_front: "pick \<in> waiting p (set D) h i j" if "waiting p (set D) h i j \<noteq> {}" for j
  proof -
    obtain x where x: "x \<in> set D" "fp_starvation p + int j \<le> int (consecutive_skips h x i)"
      using \<open>waiting p (set D) h i j \<noteq> {}\<close> unfolding waiting_def by blast
    then have "is_starving p x h i" by (simp add: is_starving_def)
    from select_team_longest(2) [OF pick(1) x(1) this] x(2) pick(2) show ?thesis by (simp add: waiting_def)
  qed
  show ?thesis
    unfolding waits_bounded_def
  proof (intro allI impI)
    fix j :: nat
    assume "1 \<le> j"
    then obtain l where l: "j = Suc l" by (cases j) auto
    let ?old = "waiting p (set D) h i l"
    have fin: "finite ?old" by (simp add: waiting_def)
    show "waiting p (set D) h' (Suc i) j = {} \<or> card (waiting p (set D) h' (Suc i) j) + j \<le> card (set D)"
    proof (cases "?old = {}")
      case True
      then show ?thesis using sub [of l] l by auto
    next
      case False
      have old: "card ?old + l \<le> card (set D)"
      proof (cases "l = 0")
        case True
        then show ?thesis by (simp add: waiting_def card_mono)
      next
        case l0: False
        then have "1 \<le> l" by simp
        then show ?thesis using assms(1) False unfolding waits_bounded_def by blast
      qed
      have "card (waiting p (set D) h' (Suc i) j) \<le> card (?old - {pick})"
        unfolding l by (rule card_mono [OF _ sub]) (simp add: fin)
      also have "\<dots> = card ?old - 1" using in_front [OF False] by (simp add: fin)
      finally have "card (waiting p (set D) h' (Suc i) j) \<le> card ?old - 1" .
      moreover have "0 < card ?old" using False fin by (simp add: card_gt_0_iff)
      ultimately show ?thesis using old l by linarith
    qed
  qed
qed

lemma run_windows_bounded:
  assumes "run_windows fl p D i k h = (h', gs)" "waits_bounded p (set D) h i" "\<forall>g\<in>set h. gt_window g < i"
    and "D \<noteq> []" "1 \<le> fp_max_grants p" "1 \<le> fp_starvation p"
    and "\<forall>t\<in>set D. \<forall>j\<le>i. int (consecutive_skips h t j) \<le> B" "B = fp_starvation p + int (card (set D)) - 1"
  shows "(\<forall>g\<in>set h'. gt_window g < i + k) \<and> (\<forall>t\<in>set D. \<forall>j\<le>i + k. int (consecutive_skips h' t j) \<le> B)"
  using assms(1-3,7)
proof (induction k arbitrary: i h h' gs)
  case 0
  then show ?case by simp
next
  case (Suc k)
  obtain new where new: "grant_slots fl p i (nat (fp_max_grants p)) D h []
       = (h @ map (\<lambda>t. \<lparr>gt_window = i, gt_team = t, gt_schedule = []\<rparr>) new, [] @ new)"
    "\<forall>t. nat (fp_max_grants p) \<noteq> 0 \<longrightarrow> select_team fl p D h i = Some t \<longrightarrow> t \<in> set new"
    using grant_slots_appends [of fl p i "nat (fp_max_grants p)" D h "[]"] by blast
  define h1 where "h1 = h @ map (\<lambda>t. \<lparr>gt_window = i, gt_team = t, gt_schedule = []\<rparr>) new"
  obtain gs' where run: "run_windows fl p D (Suc i) k h1 = (h', gs')"
    using Suc.prems(1) by (auto simp: new(1) h1_def split: prod.splits)
  have slots: "nat (fp_max_grants p) \<noteq> 0" using assms(5) by simp
  have b: "waits_bounded p (set D) h1 (Suc i)"
    using window_step [OF Suc.prems(2,3) assms(4) h1_def _ assms(6)] new(2) slots by blast
  have w: "\<forall>g\<in>set h1. gt_window g < Suc i" using Suc.prems(3) by (auto simp: h1_def)
  have old: "consecutive_skips h1 t j = consecutive_skips h t j" if "j \<le> i" for t j
    unfolding h1_def by (rule skips_later_grants [OF _ that]) auto
  have "\<forall>t\<in>set D. \<forall>j\<le>Suc i. int (consecutive_skips h1 t j) \<le> B"
  proof (intro ballI allI impI)
    fix t j
    assume t: "t \<in> set D" and j: "j \<le> Suc i"
    show "int (consecutive_skips h1 t j) \<le> B"
    proof (cases "j \<le> i")
      case True
      then show ?thesis using old Suc.prems(4) t by simp
    next
      case False
      then have "j = Suc i" using j by simp
      then show ?thesis using waits_bounded_skip [OF b _ t] assms(8) by simp
    qed
  qed
  from Suc.IH [OF run b w this] show ?case by simp
qed

definition demo_policy :: FairnessPolicy where
  "demo_policy = \<lparr>fp_id = ''fair'', fp_shares = [(''a'', 9), (''b'', 1), (''c'', 1)], fp_default = 1,
                  fp_starvation = 3, fp_max_grants = 1\<rparr>"

text \<open>
  C37. The starvation guarantee. However the weights are set, and however the deficits round, a
  simulation of a valid policy under constant demand honours its bound: no demanding team goes
  without a grant for more than \<open>starvation_window + teams - 1\<close> windows, gaps before the first and
  after the last grant included; no team is reported starved.
\<close>

theorem simulation_honours_policy:
  assumes "policy_validate p = Inr p" "simulate_fairness fl p teams windows = Inr s"
  shows "honours_policy s p \<and> starved_teams s p = []
    \<and> (\<forall>(t, skips)\<in>set (sim_skips s). skips \<le> fp_starvation p + int (card (set teams)) - 1)"
proof -
  define D where "D = sort (remdups teams)"
  have D: "set D = set teams" "length D = card (set teams)"
    by (simp_all add: D_def length_remdups_card_conv)
  obtain h gs where run: "run_windows fl p D 0 (nat windows) [] = (h, gs)" by fastforce
  have ne: "D \<noteq> []" and s: "sim_skips s = longest_skip_runs h D (nat windows)"
    using assms(2) run unfolding simulate_fairness_def D_def [symmetric] Let_def by (auto split: if_splits)
  have p: "1 \<le> fp_max_grants p" "1 \<le> fp_starvation p"
    using assms(1) by (auto simp: policy_validate_def split: if_splits)
  let ?B = "fp_starvation p + int (card (set D)) - 1"
  have B: "0 \<le> ?B" using p(2) by simp
  have init: "waits_bounded p (set D) [] 0"
    using p(2) by (auto simp: waits_bounded_def waiting_def)
  have "(\<forall>g\<in>set h. gt_window g < 0 + nat windows)
     \<and> (\<forall>t\<in>set D. \<forall>j\<le>0 + nat windows. int (consecutive_skips h t j) \<le> ?B)"
    by (rule run_windows_bounded [OF run init _ ne p]) (use B in auto)
  then have "\<forall>t\<in>set D. longest_skip h (nat windows) t \<le> ?B"
    using longest_skip_bounded [OF _ _ B] by auto
  then have all: "\<forall>(t, skips)\<in>set (sim_skips s). skips \<le> ?B"
    by (auto simp: s longest_skip_runs_def)
  have "length (sim_skips s) = card (set D)" using D by (simp add: s longest_skip_runs_def)
  then have "starvation_bound s p = ?B"
    using ne by (simp add: starvation_bound_def Suc_leI card_gt_0_iff)
  moreover from this all have "filter (\<lambda>(_, skips). skips > starvation_bound s p) (sim_skips s) = []"
    by (auto simp: filter_empty_conv not_less)
  ultimately show ?thesis
    using all unfolding honours_policy_def starved_teams_def list_all_iff D(1) by simp
qed

theorem simulation_honours_policy_witness:
  "\<exists>s. simulate_fairness (\<lambda>x. x) demo_policy [''c'', ''a'', ''b''] 9 = Inr s \<and> honours_policy s demo_policy
     \<and> sim_skips s = [(''a'', 1), (''b'', 3), (''c'', 3)]"
proof -
  have valid: "policy_validate demo_policy = Inr demo_policy" by code_simp
  have "simulate_fairness (\<lambda>x. x) demo_policy [''c'', ''a'', ''b''] 9 = Inr
     \<lparr>sim_policy = ''fair'', sim_windows = 9,
      sim_grants = [[''a''], [''b''], [''a''], [''c''], [''a''], [''b''], [''a''], [''c''], [''a'']],
      sim_counts = [(''a'', 5), (''b'', 2), (''c'', 2)], sim_skips = [(''a'', 1), (''b'', 3), (''c'', 3)]\<rparr>"
    by code_simp
  from simulation_honours_policy [OF valid this] this show ?thesis by simp
qed

end
