(* ===== verification/Run_Concurrency.thy ===== *)
theory Run_Concurrency
  imports Fair_Share
begin

text \<open>
  The concurrency model of \<open>domain/scheduling.py\<close> over the resource locks of \<open>domain/policy.py\<close>:
  which runs may overlap, which run is in the way of a request, and the admission of a request to
  the set of active ones. Texts of reasons are left out.
\<close>

section \<open>Resource locks\<close>

record ResourceLock =
  lk_id :: string
  lk_resource :: string
  lk_experiment :: string
  lk_owner :: string
  lk_acquired :: instant
  lk_expires :: instant

definition lock_validate :: "ResourceLock \<Rightarrow> py_error + ResourceLock" where
  "lock_validate l =
     (if \<not> slug_ok (lk_id l) \<or> lk_resource l = [] \<or> lk_experiment l = [] \<or> lk_owner l = [] then Inl ValueErr
      else if lk_expires l \<le> lk_acquired l then Inl (InvariantViolation ''lock.window'')
      else Inr l)"

definition lock_is_expired :: "ResourceLock \<Rightarrow> instant \<Rightarrow> bool" where
  "lock_is_expired l now \<longleftrightarrow> now \<ge> lk_expires l"

definition lock_is_live :: "ResourceLock \<Rightarrow> instant \<Rightarrow> bool" where
  "lock_is_live l now \<longleftrightarrow> \<not> lock_is_expired l now"

definition lock_conflicts :: "ResourceLock \<Rightarrow> ResourceLock \<Rightarrow> bool" where
  "lock_conflicts existing requested =
     (if lk_resource existing \<noteq> lk_resource requested then False
      else if lk_experiment existing = lk_experiment requested then False
      else lk_expires existing > lk_acquired requested \<and> lk_expires requested > lk_acquired existing)"

definition blocking_locks :: "ResourceLock list \<Rightarrow> ResourceLock \<Rightarrow> instant \<Rightarrow> ResourceLock list" where
  "blocking_locks locks requested now =
     sort_key lk_id (filter (\<lambda>l. lock_is_live l now \<and> lock_conflicts l requested) locks)"

record LockVerdict =
  lv_granted :: bool
  lv_resource :: string
  lv_requested_by :: string
  lv_blockers :: "string list"
  lv_holder_experiment :: string
  lv_holder_run :: string
  lv_holder_expires :: "instant option"

definition acquire_lock :: "ResourceLock list \<Rightarrow> ResourceLock \<Rightarrow> instant \<Rightarrow> LockVerdict" where
  "acquire_lock locks requested now =
     (case blocking_locks locks requested now of
        [] \<Rightarrow> \<lparr>lv_granted = True, lv_resource = lk_resource requested, lv_requested_by = lk_owner requested,
               lv_blockers = [], lv_holder_experiment = [], lv_holder_run = [], lv_holder_expires = None\<rparr>
      | first # rest \<Rightarrow>
          \<lparr>lv_granted = False, lv_resource = lk_resource requested, lv_requested_by = lk_owner requested,
           lv_blockers = map lk_id (first # rest), lv_holder_experiment = lk_experiment first,
           lv_holder_run = lk_owner first, lv_holder_expires = Some (lk_expires first)\<rparr>)"

section \<open>Classes\<close>

datatype ConcurrencyClass = PARALLEL | EXCLUSIVE | SHARED_RESOURCE | CONFLICTING | PREEMPTIBLE

fun lock_compatibility :: "ConcurrencyClass \<Rightarrow> ConcurrencyClass set" where
  "lock_compatibility PARALLEL = {PARALLEL, EXCLUSIVE, SHARED_RESOURCE, CONFLICTING, PREEMPTIBLE}"
| "lock_compatibility EXCLUSIVE = {PARALLEL}"
| "lock_compatibility SHARED_RESOURCE = {PARALLEL, SHARED_RESOURCE, PREEMPTIBLE}"
| "lock_compatibility CONFLICTING = {PARALLEL}"
| "lock_compatibility PREEMPTIBLE = {PARALLEL, SHARED_RESOURCE, PREEMPTIBLE}"

definition classes_compatible :: "ConcurrencyClass \<Rightarrow> ConcurrencyClass \<Rightarrow> bool" where
  "classes_compatible l r \<longleftrightarrow> r \<in> lock_compatibility l \<and> l \<in> lock_compatibility r"

text \<open>
  \<open>_lock_id\<close>: lower case, every run of characters outside the identifier set becomes one hyphen,
  hyphens stripped at both ends, and the whole cut at 128 characters.
\<close>

definition lock_char :: "char \<Rightarrow> bool" where
  "lock_char c \<longleftrightarrow> slug_char c \<or> c \<in> set ''._:-''"

fun collapse_others :: "bool \<Rightarrow> string \<Rightarrow> string" where
  "collapse_others inside [] = []"
| "collapse_others inside (c # cs) =
     (if lock_char c then c # collapse_others False cs
      else if inside then collapse_others True cs else CHR ''-'' # collapse_others True cs)"

definition strip_hyphens :: "string \<Rightarrow> string" where
  "strip_hyphens s = rev (dropWhile (\<lambda>c. c = CHR ''-'') (rev (dropWhile (\<lambda>c. c = CHR ''-'') s)))"

definition lock_id :: "string \<Rightarrow> string \<Rightarrow> string" where
  "lock_id run_id resource =
     (let cleaned = strip_hyphens (collapse_others False (py_lower resource))
      in take 128 (run_id @ ''--'' @ (if cleaned = [] then ''resource'' else cleaned)))"

section \<open>Requests\<close>

record ConcurrencyRequest =
  cq_run :: string
  cq_experiment :: string
  cq_team :: string
  cq_class :: ConcurrencyClass
  cq_resources :: "string list"
  cq_acquired :: instant
  cq_expires :: instant
  cq_priority :: int

text \<open>The constructor; the two instants may arrive naive.\<close>

definition concurrency_request ::
  "string \<Rightarrow> string \<Rightarrow> string \<Rightarrow> ConcurrencyClass \<Rightarrow> string list \<Rightarrow> pydatetime \<Rightarrow> pydatetime \<Rightarrow> int
     \<Rightarrow> py_error + ConcurrencyRequest" where
  "concurrency_request run experiment team cls resources acquired expires priority =
     (if \<not> slug_ok run \<or> experiment = [] then Inl ValueErr
      else case require_aware ''concurrency.naive'' acquired of Inl e \<Rightarrow> Inl e
      | Inr a \<Rightarrow> (case require_aware ''concurrency.naive'' expires of Inl e \<Rightarrow> Inl e
      | Inr x \<Rightarrow>
          if x \<le> a then Inl (InvariantViolation ''concurrency.window'')
          else if \<not> distinct resources then Inl (InvariantViolation ''concurrency.resource_duplicate'')
          else if cls = PARALLEL \<and> resources \<noteq> [] then Inl (InvariantViolation ''concurrency.parallel_resources'')
          else Inr \<lparr>cq_run = run, cq_experiment = experiment, cq_team = team, cq_class = cls,
                    cq_resources = resources, cq_acquired = a, cq_expires = x, cq_priority = priority\<rparr>))"

definition request_is_live :: "ConcurrencyRequest \<Rightarrow> instant \<Rightarrow> bool" where
  "request_is_live r now \<longleftrightarrow> now < cq_expires r"

definition shares_resource :: "ConcurrencyRequest \<Rightarrow> ConcurrencyRequest \<Rightarrow> bool" where
  "shares_resource a b \<longleftrightarrow> set (cq_resources a) \<inter> set (cq_resources b) \<noteq> {}"

definition lock_for :: "ConcurrencyRequest \<Rightarrow> string \<Rightarrow> py_error + ResourceLock" where
  "lock_for r resource = lock_validate
     \<lparr>lk_id = lock_id (cq_run r) resource, lk_resource = resource, lk_experiment = cq_experiment r,
      lk_owner = cq_run r, lk_acquired = cq_acquired r, lk_expires = cq_expires r\<rparr>"

record ConcurrencyVerdict =
  cv_runnable :: bool
  cv_run :: string
  cv_class :: ConcurrencyClass
  cv_blocking_run :: string
  cv_blocking_experiment :: string
  cv_blocking_resource :: string
  cv_blockers :: "string list"

definition conflicting_runs ::
  "ConcurrencyRequest list \<Rightarrow> ConcurrencyRequest \<Rightarrow> instant \<Rightarrow> ConcurrencyRequest list" where
  "conflicting_runs active requested now = sort_key cq_run
     (filter (\<lambda>x. cq_run x \<noteq> cq_run requested \<and> request_is_live x now \<and> request_is_live x (cq_acquired requested)
        \<and> shares_resource x requested \<and> \<not> classes_compatible (cq_class x) (cq_class requested)) active)"

definition first_shared_resource :: "ConcurrencyRequest \<Rightarrow> ConcurrencyRequest \<Rightarrow> string" where
  "first_shared_resource a b =
     (case sort (remdups (filter (\<lambda>x. x \<in> set (cq_resources b)) (cq_resources a))) of [] \<Rightarrow> [] | x # _ \<Rightarrow> x)"

definition class_conflict_verdict ::
  "ConcurrencyRequest \<Rightarrow> ConcurrencyRequest \<Rightarrow> ConcurrencyRequest list \<Rightarrow> ConcurrencyVerdict" where
  "class_conflict_verdict requested first rest =
     \<lparr>cv_runnable = False, cv_run = cq_run requested, cv_class = cq_class requested, cv_blocking_run = cq_run first,
      cv_blocking_experiment = cq_experiment first, cv_blocking_resource = first_shared_resource requested first,
      cv_blockers = map cq_run (first # rest)\<rparr>"

definition runnable_verdict :: "ConcurrencyRequest \<Rightarrow> ConcurrencyVerdict" where
  "runnable_verdict r =
     \<lparr>cv_runnable = True, cv_run = cq_run r, cv_class = cq_class r, cv_blocking_run = [],
      cv_blocking_experiment = [], cv_blocking_resource = [], cv_blockers = []\<rparr>"

fun lock_layer ::
  "ResourceLock list \<Rightarrow> ConcurrencyRequest \<Rightarrow> instant \<Rightarrow> string list \<Rightarrow> py_error + ConcurrencyVerdict" where
  "lock_layer locks r now [] = Inr (runnable_verdict r)"
| "lock_layer locks r now (x # xs) =
     (case lock_for r x of Inl e \<Rightarrow> Inl e
      | Inr l \<Rightarrow>
          (let v = acquire_lock locks l now
           in if lv_granted v then lock_layer locks r now xs
              else Inr \<lparr>cv_runnable = False, cv_run = cq_run r, cv_class = cq_class r,
                        cv_blocking_run = lv_holder_run v, cv_blocking_experiment = lv_holder_experiment v,
                        cv_blocking_resource = x, cv_blockers = lv_blockers v\<rparr>))"

definition evaluate_concurrency ::
  "ConcurrencyRequest list \<Rightarrow> ConcurrencyRequest \<Rightarrow> ResourceLock list \<Rightarrow> pydatetime \<Rightarrow> py_error + ConcurrencyVerdict" where
  "evaluate_concurrency active r locks now =
     (case require_aware ''concurrency.naive'' now of Inl e \<Rightarrow> Inl e
      | Inr t \<Rightarrow>
          (case conflicting_runs active r t of
             first # rest \<Rightarrow> Inr (class_conflict_verdict r first rest)
           | [] \<Rightarrow> lock_layer locks r t (cq_resources r)))"

definition admit_run ::
  "ConcurrencyRequest list \<Rightarrow> ConcurrencyRequest \<Rightarrow> pydatetime \<Rightarrow> ResourceLock list
     \<Rightarrow> py_error + (ConcurrencyVerdict \<times> ConcurrencyRequest list)" where
  "admit_run active r now locks =
     (case evaluate_concurrency active r locks now of Inl e \<Rightarrow> Inl e
      | Inr v \<Rightarrow> Inr (v, if cv_runnable v then active @ [r] else active))"

section \<open>Lemmas\<close>

lemma classes_compatible_sym: "classes_compatible l r = classes_compatible r l"
  by (auto simp: classes_compatible_def)

lemma table_symmetric: "r \<in> lock_compatibility l \<longleftrightarrow> l \<in> lock_compatibility r"
  by (cases l; cases r) simp_all

lemma shares_resource_sym: "shares_resource a b = shares_resource b a"
  by (auto simp: shares_resource_def)

lemma exclusive_alone: "classes_compatible EXCLUSIVE c \<longleftrightarrow> c = PARALLEL"
  by (cases c) (simp_all add: classes_compatible_def)

text \<open>A lock id built from a valid run id is always a valid one.\<close>

lemma collapse_others_chars: "c \<in> set (collapse_others b s) \<Longrightarrow> lock_char c"
  by (induction b s rule: collapse_others.induct) (auto simp: lock_char_def split: if_splits)

lemma slug_ok_chars: "slug_ok s \<longleftrightarrow> s \<noteq> [] \<and> length s \<le> 128 \<and> slug_char (hd s) \<and> list_all lock_char s"
  by (cases s) (auto simp: slug_ok_def lock_char_def list_all_iff)

lemma lock_id_ok:
  assumes "slug_ok run"
  shows "slug_ok (lock_id run resource)"
proof -
  have "list_all lock_char (strip_hyphens (collapse_others False (py_lower resource)))"
    by (auto simp: list_all_iff strip_hyphens_def dest!: set_dropWhileD intro: collapse_others_chars)
  moreover define rest where "rest = ''--'' @ (if strip_hyphens (collapse_others False (py_lower resource)) = []
       then ''resource'' else strip_hyphens (collapse_others False (py_lower resource)))"
  ultimately have all: "list_all lock_char (run @ rest)"
    using assms by (auto simp: slug_ok_chars lock_char_def slug_char_def)
  have "run \<noteq> []" using assms by (simp add: slug_ok_def)
  then have "hd (take 128 (run @ rest)) = hd run" "take 128 (run @ rest) \<noteq> []" by (cases run; simp)+
  moreover have "list_all lock_char (take 128 (run @ rest))"
    using all unfolding list_all_iff by (blast dest: in_set_takeD)
  moreover have "lock_id run resource = take 128 (run @ rest)" by (simp add: lock_id_def Let_def rest_def)
  moreover have "length (take 128 (run @ rest)) \<le> 128" by (simp only: length_take min.cobounded2)
  ultimately show ?thesis using assms unfolding slug_ok_chars by metis
qed

lemma lock_layer_runnable:
  assumes "lock_layer locks r now xs = Inr v" "cv_runnable v"
  shows "v = runnable_verdict r" "x \<in> set xs \<Longrightarrow> l \<in> set locks \<Longrightarrow> lk_resource l = x \<Longrightarrow>
    lk_experiment l \<noteq> cq_experiment r \<Longrightarrow> lk_expires l \<le> now \<or> lk_expires l \<le> cq_acquired r \<or> cq_expires r \<le> lk_acquired l"
proof -
  have 1: "v = runnable_verdict r \<and> (\<forall>x\<in>set xs. \<forall>l\<in>set locks. lk_resource l = x \<longrightarrow> lk_experiment l \<noteq> cq_experiment r \<longrightarrow>
     lk_expires l \<le> now \<or> lk_expires l \<le> cq_acquired r \<or> cq_expires r \<le> lk_acquired l)"
    using assms
  proof (induction xs)
    case Nil
    then show ?case by simp
  next
    case (Cons y ys)
    obtain k where k: "lock_for r y = Inr k" using Cons.prems(1) by (cases "lock_for r y") auto
    have kk: "lk_resource k = y" "lk_experiment k = cq_experiment r" "lk_acquired k = cq_acquired r" "lk_expires k = cq_expires r"
      using k by (auto simp: lock_for_def lock_validate_def split: if_splits)
    have g: "lv_granted (acquire_lock locks k now)"
    proof (rule ccontr)
      assume "\<not> ?thesis"
      then have "v = \<lparr>cv_runnable = False, cv_run = cq_run r, cv_class = cq_class r,
          cv_blocking_run = lv_holder_run (acquire_lock locks k now),
          cv_blocking_experiment = lv_holder_experiment (acquire_lock locks k now),
          cv_blocking_resource = y, cv_blockers = lv_blockers (acquire_lock locks k now)\<rparr>"
        using Cons.prems(1) k by (simp add: Let_def)
      then show False using Cons.prems(2) by simp
    qed
    then have "blocking_locks locks k now = []"
      by (auto simp: acquire_lock_def split: list.splits)
    then have "filter (\<lambda>l. lock_is_live l now \<and> lock_conflicts l k) locks = []"
      unfolding blocking_locks_def by (metis set_empty set_sort)
    then have "\<forall>l\<in>set locks. \<not> (lock_is_live l now \<and> lock_conflicts l k)"
      by (simp add: filter_empty_conv)
    then have "\<forall>l\<in>set locks. lk_resource l = y \<longrightarrow> lk_experiment l \<noteq> cq_experiment r \<longrightarrow>
      lk_expires l \<le> now \<or> lk_expires l \<le> cq_acquired r \<or> cq_expires r \<le> lk_acquired l"
      by (auto simp: lock_is_live_def lock_is_expired_def lock_conflicts_def kk not_less not_le)
    moreover have "lock_layer locks r now ys = Inr v" using Cons.prems(1) k g by (simp add: Let_def)
    ultimately show ?case using Cons.IH Cons.prems(2) by auto
  qed
  then show "v = runnable_verdict r" by simp
  show "x \<in> set xs \<Longrightarrow> l \<in> set locks \<Longrightarrow> lk_resource l = x \<Longrightarrow> lk_experiment l \<noteq> cq_experiment r \<Longrightarrow>
    lk_expires l \<le> now \<or> lk_expires l \<le> cq_acquired r \<or> cq_expires r \<le> lk_acquired l"
    using 1 by blast
qed

text \<open>What being runnable means, in both layers.\<close>

lemma evaluate_runnable_iff:
  assumes "evaluate_concurrency active r locks (Aware now) = Inr v"
  shows "cv_runnable v \<longleftrightarrow> conflicting_runs active r now = [] \<and> lock_layer locks r now (cq_resources r) = Inr (runnable_verdict r)"
proof (cases "conflicting_runs active r now")
  case Nil
  then have l: "lock_layer locks r now (cq_resources r) = Inr v"
    using assms by (simp add: evaluate_concurrency_def require_aware_def)
  then show ?thesis using Nil lock_layer_runnable(1) [OF l] by (auto simp: runnable_verdict_def)
next
  case (Cons x xs)
  then show ?thesis
    using assms by (auto simp: evaluate_concurrency_def require_aware_def class_conflict_verdict_def)
qed

lemma no_conflicting_runs:
  assumes "conflicting_runs active r now = []" "x \<in> set active" "cq_run x \<noteq> cq_run r" "shares_resource x r"
    and "\<not> classes_compatible (cq_class x) (cq_class r)"
  shows "cq_expires x \<le> now \<or> cq_expires x \<le> cq_acquired r"
proof -
  have "set (conflicting_runs active r now) = {}" using assms(1) by simp
  then show ?thesis
    using assms(2-) by (auto simp: conflicting_runs_def request_is_live_def not_less)
qed

text \<open>
  A refused request leaves the active set as it was, and names a run that is in its way: a live one
  of an incompatible class on a resource they share, or the owner of a live lock.
\<close>

lemma refusal_names_blocker:
  assumes "admit_run active r (Aware now) locks = Inr (v, active')" "\<not> cv_runnable v"
  shows "active' = active \<and>
    ((\<exists>x\<in>set active. cv_blocking_run v = cq_run x \<and> request_is_live x now \<and> shares_resource x r
        \<and> \<not> classes_compatible (cq_class x) (cq_class r))
     \<or> (\<exists>l\<in>set locks. cv_blocking_run v = lk_owner l \<and> lock_is_live l now \<and> lk_resource l \<in> set (cq_resources r)
        \<and> lk_experiment l \<noteq> cq_experiment r))"
proof -
  have e: "evaluate_concurrency active r locks (Aware now) = Inr v" and a: "active' = active"
    using assms by (auto simp: admit_run_def split: sum.splits if_splits)
  show ?thesis
  proof (cases "conflicting_runs active r now")
    case (Cons x xs)
    then have "x \<in> set (conflicting_runs active r now)" by simp
    then show ?thesis
      using e a Cons
      by (auto simp: evaluate_concurrency_def require_aware_def class_conflict_verdict_def conflicting_runs_def)
  next
    case Nil
    then have l: "lock_layer locks r now (cq_resources r) = Inr v"
      using e by (simp add: evaluate_concurrency_def require_aware_def)
    have "\<exists>l\<in>set locks. cv_blocking_run v = lk_owner l \<and> lock_is_live l now \<and> lk_resource l \<in> set ys
        \<and> lk_experiment l \<noteq> cq_experiment r"
      if "lock_layer locks r now ys = Inr v" for ys
      using that
    proof (induction ys)
      case Nil
      then show ?case using assms(2) by (auto simp: runnable_verdict_def)
    next
      case (Cons y ys)
      obtain k where k: "lock_for r y = Inr k" using Cons.prems by (cases "lock_for r y") auto
      have kk: "lk_resource k = y" "lk_experiment k = cq_experiment r"
        using k by (auto simp: lock_for_def lock_validate_def split: if_splits)
      show ?case
      proof (cases "blocking_locks locks k now")
        case Nil
        then have "lock_layer locks r now ys = Inr v"
          using Cons.prems k by (simp add: acquire_lock_def Let_def)
        then show ?thesis using Cons.IH by auto
      next
        case (Cons b bs)
        then have "b \<in> set (blocking_locks locks k now)" by simp
        then have "b \<in> set locks" "lock_is_live b now" "lock_conflicts b k" by (auto simp: blocking_locks_def)
        moreover have "cv_blocking_run v = lk_owner b"
          using Cons.prems k Cons by (auto simp: acquire_lock_def Let_def)
        ultimately show ?thesis using kk by (auto simp: lock_conflicts_def split: if_splits)
      qed
    qed
    from this [OF l] show ?thesis using a by blast
  qed
qed

section \<open>Incompatible runs never hold a resource together\<close>

text \<open>Admissions one after the other, each at its own moment and over the locks of that moment.\<close>

definition admit_step ::
  "ConcurrencyRequest \<times> instant \<times> ResourceLock list \<Rightarrow> ConcurrencyRequest list \<Rightarrow> py_error + ConcurrencyRequest list" where
  "admit_step st active =
     (case st of (r, now, locks) \<Rightarrow> (case admit_run active r (Aware now) locks of
        Inl e \<Rightarrow> Inl e | Inr (_, active') \<Rightarrow> Inr active'))"

definition in_force :: "ConcurrencyRequest \<Rightarrow> instant \<Rightarrow> bool" where
  "in_force r t \<longleftrightarrow> cq_acquired r \<le> t \<and> t < cq_expires r"

definition exclusive_at :: "ConcurrencyRequest list \<Rightarrow> instant \<Rightarrow> bool" where
  "exclusive_at active t \<longleftrightarrow>
     (\<forall>a\<in>set active. \<forall>b\<in>set active. cq_run a \<noteq> cq_run b \<and> shares_resource a b \<and> in_force a t \<and> in_force b t
        \<longrightarrow> classes_compatible (cq_class a) (cq_class b))"

lemma admit_step_exclusive:
  assumes "admit_step (r, now, locks) active = Inr active'" "exclusive_at active t" "now \<le> t"
  shows "exclusive_at active' t"
proof -
  obtain v where v: "evaluate_concurrency active r locks (Aware now) = Inr v"
    "active' = (if cv_runnable v then active @ [r] else active)"
    using assms(1) by (auto simp: admit_step_def admit_run_def split: sum.splits)
  show ?thesis
  proof (cases "cv_runnable v")
    case False
    then show ?thesis using v(2) assms(2) by simp
  next
    case True
    then have nc: "conflicting_runs active r now = []" using evaluate_runnable_iff [OF v(1)] by simp
    have new: "classes_compatible (cq_class x) (cq_class r)"
      if "x \<in> set active" "cq_run x \<noteq> cq_run r" "shares_resource x r" "in_force x t" "in_force r t" for x
      using no_conflicting_runs [OF nc that(1-3)] that(4,5) assms(3) unfolding in_force_def by linarith
    show ?thesis
      unfolding exclusive_at_def v(2)
    proof (intro ballI impI)
      fix a b
      assume ab: "a \<in> set (if cv_runnable v then active @ [r] else active)"
          "b \<in> set (if cv_runnable v then active @ [r] else active)"
        "cq_run a \<noteq> cq_run b \<and> shares_resource a b \<and> in_force a t \<and> in_force b t"
      then consider "a \<in> set active" "b \<in> set active" | "a \<in> set active" "b = r" | "a = r" "b \<in> set active"
        using True by auto
      then show "classes_compatible (cq_class a) (cq_class b)"
      proof cases
        case 1
        then show ?thesis using assms(2) ab(3) unfolding exclusive_at_def by blast
      next
        case 2
        then show ?thesis using new ab(3) by blast
      next
        case 3
        then show ?thesis
          using new [of b] ab(3) shares_resource_sym [of a b] classes_compatible_sym [of "cq_class a" "cq_class b"] by auto
      qed
    qed
  qed
qed

definition demo_request :: "string \<Rightarrow> ConcurrencyClass \<Rightarrow> instant \<Rightarrow> instant \<Rightarrow> ConcurrencyRequest" where
  "demo_request i cls a x = \<lparr>cq_run = i, cq_experiment = ''exp'' @ i, cq_team = [], cq_class = cls,
     cq_resources = [''db''], cq_acquired = a, cq_expires = x, cq_priority = 0\<rparr>"

text \<open>
  C11. However runs ask for admission, at whatever moments and over whatever locks, the active set
  never holds two different runs that are in force at the same time on a resource they share while
  their classes forbid it, at any moment from the last admission on.
\<close>

theorem admitted_runs_exclude:
  assumes "run_all admit_step steps [] = Inr active" "\<forall>(r, now, locks)\<in>set steps. now \<le> t"
    and "a \<in> set active" "b \<in> set active" "cq_run a \<noteq> cq_run b" "shares_resource a b" "in_force a t" "in_force b t"
  shows "classes_compatible (cq_class a) (cq_class b)"
proof -
  have "run_all admit_step steps act = Inr active \<Longrightarrow> exclusive_at act t \<Longrightarrow> exclusive_at active t" for act
    using assms(2)
  proof (induction steps arbitrary: act)
    case Nil
    then show ?case by simp
  next
    case (Cons st steps)
    obtain r now locks where st: "st = (r, now, locks)" by (cases st)
    obtain act' where "admit_step st act = Inr act'" "run_all admit_step steps act' = Inr active"
      using Cons.prems(1) by (auto split: sum.splits)
    then show ?case
      using Cons.IH [of act'] admit_step_exclusive [of r now locks act act' t] Cons.prems(2,3) st by auto
  qed
  from this [OF assms(1)] have "exclusive_at active t" by (simp add: exclusive_at_def)
  then show ?thesis using assms(3-) unfolding exclusive_at_def by blast
qed

theorem admitted_runs_exclude_witness:
  "\<exists>active. run_all admit_step
     [(demo_request ''r1'' SHARED_RESOURCE 0 100, 0, []), (demo_request ''r2'' EXCLUSIVE 10 50, 10, []),
      (demo_request ''r3'' PREEMPTIBLE 20 60, 20, [])] [] = Inr active
     \<and> map cq_run active = [''r1'', ''r3''] \<and> classes_compatible SHARED_RESOURCE PREEMPTIBLE"
proof -
  let ?steps = "[(demo_request ''r1'' SHARED_RESOURCE 0 100, 0, []), (demo_request ''r2'' EXCLUSIVE 10 50, 10, []),
      (demo_request ''r3'' PREEMPTIBLE 20 60, 20, [])]"
  have run: "run_all admit_step ?steps [] = Inr [demo_request ''r1'' SHARED_RESOURCE 0 100, demo_request ''r3'' PREEMPTIBLE 20 60]"
    by code_simp
  have "classes_compatible (cq_class (demo_request ''r1'' SHARED_RESOURCE 0 100)) (cq_class (demo_request ''r3'' PREEMPTIBLE 20 60))"
    by (rule admitted_runs_exclude [OF run, of 20])
      (auto simp: demo_request_def shares_resource_def in_force_def)
  then show ?thesis unfolding run by (simp add: demo_request_def)
qed

section \<open>Two readings of one resource\<close>

text \<open>
  Two spellings of a resource give one lock id, but locks are compared by the spelling: the second
  lock is granted beside the first. And a lock is re-entrant for the experiment, not for the run.
\<close>

lemma spellings_make_two_locks:
  assumes "lock_for r ''Data/Primary DB'' = Inr l" "lock_for r ''data/primary db'' = Inr m"
  shows "lk_id l = lk_id m \<and> lv_granted (acquire_lock [l\<lparr>lk_experiment := e\<rparr>] m now)"
proof -
  have "strip_hyphens (collapse_others False (py_lower ''Data/Primary DB''))
      = strip_hyphens (collapse_others False (py_lower ''data/primary db''))" by code_simp
  then have "lk_id l = lk_id m"
    using assms by (auto simp: lock_for_def lock_validate_def lock_id_def split: if_splits)
  moreover have "lk_resource l = ''Data/Primary DB''" "lk_resource m = ''data/primary db''"
    using assms by (auto simp: lock_for_def lock_validate_def split: if_splits)
  ultimately show ?thesis by (simp add: acquire_lock_def blocking_locks_def lock_conflicts_def)
qed

lemma locks_reentrant_per_experiment:
  assumes "lk_experiment l = lk_experiment m" "lk_owner l \<noteq> lk_owner m"
  shows "lv_granted (acquire_lock [l] m now)"
  using assms by (simp add: acquire_lock_def blocking_locks_def lock_conflicts_def)

end
