(* ===== verification/Cron_Calendar.thy ===== *)
theory Cron_Calendar
  imports Python_Text
begin

text \<open>
  The cron dialect of \<open>domain/scheduling.py\<close>: its parser, the wall clock it is matched against, and
  the search for the next occurrence. A wall clock is the number of microseconds a clock showing it
  would have counted since 1970-01-01 00:00 of its own; the time zone database is the record of the
  three conversions the code asks of a \<open>ZoneInfo\<close>, and its laws, where one is used, are hypotheses.
\<close>

section \<open>Wall clocks\<close>

definition minute_us :: int where "minute_us = 60000000"
definition day_us :: int where "day_us = 86400000000"

definition wall_minute :: "int \<Rightarrow> int" where "wall_minute w = (w div minute_us) mod 60"
definition wall_hour :: "int \<Rightarrow> int" where "wall_hour w = (w div (60 * minute_us)) mod 24"
definition wall_day_number :: "int \<Rightarrow> int" where "wall_day_number w = w div day_us"
definition wall_time :: "int \<Rightarrow> int" where "wall_time w = w mod day_us"

text \<open>\<open>weekday()\<close>: 0 is Monday; day 0 was a Thursday.\<close>

definition wall_weekday :: "int \<Rightarrow> int" where "wall_weekday w = (wall_day_number w + 3) mod 7"

text \<open>Month and day of a proleptic Gregorian day number, by the era of 400 years it falls in.\<close>

definition civil_of_day :: "int \<Rightarrow> int \<times> int \<times> int" where
  "civil_of_day n =
     (let z = n + 719468; era = z div 146097; doe = z mod 146097;
          yoe = (doe - doe div 1460 + doe div 36524 - doe div 146096) div 365;
          doy = doe - (365 * yoe + yoe div 4 - yoe div 100);
          mp = (5 * doy + 2) div 153;
          d = doy - (153 * mp + 2) div 5 + 1;
          m = (if mp < 10 then mp + 3 else mp - 9)
      in (yoe + era * 400 + (if m \<le> 2 then 1 else 0), m, d))"

definition wall_month :: "int \<Rightarrow> int" where "wall_month w = fst (snd (civil_of_day (wall_day_number w)))"
definition wall_day :: "int \<Rightarrow> int" where "wall_day w = snd (snd (civil_of_day (wall_day_number w)))"

text \<open>
  A zone: \<open>astimezone(tz)\<close> of an instant as a wall clock, and the instant of a wall clock under
  \<open>fold=0\<close> and \<open>fold=1\<close>.
\<close>

record Zone =
  zn_local :: "instant \<Rightarrow> int"
  zn_first :: "int \<Rightarrow> instant"
  zn_second :: "int \<Rightarrow> instant"

definition local_time_exists :: "int \<Rightarrow> Zone \<Rightarrow> bool" where
  "local_time_exists w z \<longleftrightarrow> zn_local z (zn_first z w) = w"

definition local_time_is_ambiguous :: "int \<Rightarrow> Zone \<Rightarrow> bool" where
  "local_time_is_ambiguous w z \<longleftrightarrow> zn_first z w \<noteq> zn_second z w"

definition resolve_local :: "int \<Rightarrow> Zone \<Rightarrow> instant option" where
  "resolve_local w z = (if \<not> local_time_exists w z then None else Some (zn_first z w))"

section \<open>Fields\<close>

datatype CronField = F_MINUTE | F_HOUR | F_DAY | F_MONTH | F_WEEKDAY

fun field_bounds :: "CronField \<Rightarrow> int \<times> int" where
  "field_bounds F_MINUTE = (0, 59)"
| "field_bounds F_HOUR = (0, 23)"
| "field_bounds F_DAY = (1, 31)"
| "field_bounds F_MONTH = (1, 12)"
| "field_bounds F_WEEKDAY = (0, 7)"

definition month_aliases :: "(string \<times> int) list" where
  "month_aliases = [(''jan'', 1), (''feb'', 2), (''mar'', 3), (''apr'', 4), (''may'', 5), (''jun'', 6), (''jul'', 7),
     (''aug'', 8), (''sep'', 9), (''oct'', 10), (''nov'', 11), (''dec'', 12)]"

definition weekday_aliases :: "(string \<times> int) list" where
  "weekday_aliases = [(''sun'', 0), (''mon'', 1), (''tue'', 2), (''wed'', 3), (''thu'', 4), (''fri'', 5), (''sat'', 6)]"

fun field_aliases :: "CronField \<Rightarrow> (string \<times> int) list option" where
  "field_aliases F_MONTH = Some month_aliases"
| "field_aliases F_WEEKDAY = Some weekday_aliases"
| "field_aliases _ = None"

text \<open>\<open>s.isdigit()\<close> and \<open>int(s)\<close> of a token; the filter of the parser leaves ASCII only.\<close>

definition py_isdigit :: "string \<Rightarrow> bool" where
  "py_isdigit s \<longleftrightarrow> s \<noteq> [] \<and> list_all is_digit s"

definition cron_value :: "CronField \<Rightarrow> string \<Rightarrow> py_error + int" where
  "cron_value f token =
     (let txt = py_strip token
      in if \<not> py_isdigit txt
         then (case field_aliases f of
                 Some al \<Rightarrow> (case map_of al (py_lower txt) of Some v \<Rightarrow> Inr v
                             | None \<Rightarrow> Inl (InvariantViolation ''schedule.cron_token''))
               | None \<Rightarrow> Inl (InvariantViolation ''schedule.cron_token''))
         else Inr (digits_value 0 txt))"

text \<open>\<open>token.partition(sep)\<close> without the separator, for a separator that occurs.\<close>

definition py_partition :: "char \<Rightarrow> string \<Rightarrow> string \<times> string" where
  "py_partition sep s = (takeWhile (\<lambda>c. c \<noteq> sep) s, tl (dropWhile (\<lambda>c. c \<noteq> sep) s))"

definition cron_step :: "string \<Rightarrow> py_error + string \<times> int" where
  "cron_step token =
     (if CHR ''/'' \<in> set token
      then (case py_partition (CHR ''/'') token of (tok, txt) \<Rightarrow>
              if \<not> py_isdigit txt then Inl (InvariantViolation ''schedule.cron_step'')
              else if digits_value 0 txt < 1 then Inl (InvariantViolation ''schedule.cron_step'')
              else Inr (tok, digits_value 0 txt))
      else Inr (token, 1))"

definition cron_span :: "CronField \<Rightarrow> string \<Rightarrow> py_error + int \<times> int" where
  "cron_span f token =
     (if py_strip token = ''*'' then Inr (field_bounds f)
      else if CHR ''-'' \<in> set token
      then (case py_partition (CHR ''-'') token of (low_text, high_text) \<Rightarrow>
              (case cron_value f low_text of Inl e \<Rightarrow> Inl e
               | Inr low \<Rightarrow> (case cron_value f high_text of Inl e \<Rightarrow> Inl e
               | Inr high \<Rightarrow> if low > high then Inl (InvariantViolation ''schedule.cron_range'') else Inr (low, high))))
      else (case cron_value f token of Inl e \<Rightarrow> Inl e | Inr v \<Rightarrow> Inr (v, v)))"

text \<open>\<open>range(low, high + 1, step)\<close>, as the set it is collected into.\<close>

definition stepped :: "int \<Rightarrow> int \<Rightarrow> int \<Rightarrow> int list" where
  "stepped low high step = filter (\<lambda>v. (v - low) mod step = 0) [low..high]"

definition cron_part :: "CronField \<Rightarrow> string \<Rightarrow> py_error + int list" where
  "cron_part f part =
     (let token = py_strip part
      in if token = [] then Inl (InvariantViolation ''schedule.cron_field'')
         else case cron_step token of Inl e \<Rightarrow> Inl e
         | Inr (tok, step) \<Rightarrow> (case cron_span f tok of Inl e \<Rightarrow> Inl e
         | Inr (low, high) \<Rightarrow>
             if low < fst (field_bounds f) \<or> high > snd (field_bounds f)
             then Inl (InvariantViolation ''schedule.cron_range'')
             else Inr (stepped low high step)))"

fun cron_parts :: "CronField \<Rightarrow> string list \<Rightarrow> py_error + int list" where
  "cron_parts f [] = Inr []"
| "cron_parts f (x # xs) =
     (case cron_part f x of Inl e \<Rightarrow> Inl e
      | Inr vs \<Rightarrow> (case cron_parts f xs of Inl e \<Rightarrow> Inl e | Inr ws \<Rightarrow> Inr (vs @ ws)))"

definition parse_cron_field :: "CronField \<Rightarrow> string \<Rightarrow> py_error + int set" where
  "parse_cron_field f raw =
     (case cron_parts f (py_split (CHR '','') (length raw) raw) of Inl e \<Rightarrow> Inl e
      | Inr vs \<Rightarrow>
          if vs = [] then Inl (InvariantViolation ''schedule.cron_field'')
          else if f = F_WEEKDAY \<and> 7 \<in> set vs then Inr (set vs - {7} \<union> {0})
          else Inr (set vs))"

section \<open>Expressions\<close>

record CronSpec =
  cron_expression :: string
  cron_minutes :: "int set"
  cron_hours :: "int set"
  cron_days :: "int set"
  cron_months :: "int set"
  cron_weekdays :: "int set"
  cron_day_restricted :: bool
  cron_weekday_restricted :: bool

definition cron_nicknames :: "(string \<times> string) list" where
  "cron_nicknames = [(''@yearly'', ''0 0 1 1 *''), (''@annually'', ''0 0 1 1 *''), (''@monthly'', ''0 0 1 * *''),
     (''@weekly'', ''0 0 * * 0''), (''@daily'', ''0 0 * * *''), (''@midnight'', ''0 0 * * *''), (''@hourly'', ''0 * * * *'')]"

definition cron_allowed :: "char \<Rightarrow> bool" where
  "cron_allowed c \<longleftrightarrow> c \<in> set ''ABCDEFGHIJKLMNOPQRSTUVWXYZabcdefghijklmnopqrstuvwxyz0123456789*,-/#''"

text \<open>
  The text is first rid of every run of other characters, each a blank, and then split at blanks;
  its fields are the runs of allowed characters.
\<close>

fun allowed_runs :: "string \<Rightarrow> string \<Rightarrow> string list" where
  "allowed_runs acc [] = (if acc = [] then [] else [acc])"
| "allowed_runs acc (c # cs) =
     (if cron_allowed c then allowed_runs (acc @ [c]) cs
      else if acc = [] then allowed_runs [] cs else acc # allowed_runs [] cs)"

definition cron_parts_of :: "string \<Rightarrow> py_error + string list" where
  "cron_parts_of expression =
     (let raw = py_strip expression
      in if py_startswith raw ''@''
         then (case map_of cron_nicknames (py_lower raw) of
                 None \<Rightarrow> Inl (InvariantViolation ''schedule.cron_shorthand'')
               | Some txt \<Rightarrow> Inr (allowed_runs [] txt))
         else Inr (allowed_runs [] raw))"

definition parse_cron :: "string \<Rightarrow> py_error + CronSpec" where
  "parse_cron expression =
     (case cron_parts_of expression of Inl e \<Rightarrow> Inl e
      | Inr [mi, ho, dm, mo, dw] \<Rightarrow>
          (case parse_cron_field F_MINUTE mi of Inl e \<Rightarrow> Inl e | Inr v1 \<Rightarrow>
          (case parse_cron_field F_HOUR ho of Inl e \<Rightarrow> Inl e | Inr v2 \<Rightarrow>
          (case parse_cron_field F_DAY dm of Inl e \<Rightarrow> Inl e | Inr v3 \<Rightarrow>
          (case parse_cron_field F_MONTH mo of Inl e \<Rightarrow> Inl e | Inr v4 \<Rightarrow>
          (case parse_cron_field F_WEEKDAY dw of Inl e \<Rightarrow> Inl e | Inr v5 \<Rightarrow>
             Inr \<lparr>cron_expression = py_strip expression, cron_minutes = v1, cron_hours = v2, cron_days = v3,
                  cron_months = v4, cron_weekdays = v5, cron_day_restricted = py_strip dm \<noteq> ''*'',
                  cron_weekday_restricted = py_strip dw \<noteq> ''*''\<rparr>)))))
      | Inr _ \<Rightarrow> Inl (InvariantViolation ''schedule.cron_field_count''))"

definition cron_matches :: "CronSpec \<Rightarrow> int \<Rightarrow> bool" where
  "cron_matches c w =
     (if wall_minute w \<notin> cron_minutes c \<or> wall_hour w \<notin> cron_hours c then False
      else if wall_month w \<notin> cron_months c then False
      else let day_hit = wall_day w \<in> cron_days c; weekday_hit = (wall_weekday w + 1) mod 7 \<in> cron_weekdays c
           in if cron_day_restricted c \<and> cron_weekday_restricted c then day_hit \<or> weekday_hit
              else day_hit \<and> weekday_hit)"

section \<open>The next occurrence\<close>

definition CRON_SEARCH_LIMIT_MINUTES :: nat where
  "CRON_SEARCH_LIMIT_MINUTES = 366 * 24 * 60"

fun cron_search :: "CronSpec \<Rightarrow> Zone \<Rightarrow> instant \<Rightarrow> nat \<Rightarrow> int \<Rightarrow> instant option" where
  "cron_search c z after 0 w = None"
| "cron_search c z after (Suc n) w =
     (case (if cron_matches c w then resolve_local w z else None) of
        Some i \<Rightarrow> if i > after then Some i else cron_search c z after n (w + minute_us)
      | None \<Rightarrow> cron_search c z after n (w + minute_us))"

text \<open>\<open>replace(second=0, microsecond=0)\<close>\<close>

definition whole_minute :: "int \<Rightarrow> int" where
  "whole_minute w = w - w mod minute_us"

definition cron_next_after :: "CronSpec \<Rightarrow> Zone \<Rightarrow> nat \<Rightarrow> instant \<Rightarrow> instant option" where
  "cron_next_after c z max_steps after =
     cron_search c z after max_steps (whole_minute (zn_local z after) + minute_us)"

end
