(* ===== verification/Schedule_Fire.thy ===== *)
theory Schedule_Fire
  imports Cron_Calendar Fair_Share
begin

text \<open>
  \<open>Schedule\<close> of \<open>domain/scheduling.py\<close>: the windows a fire time must clear, the three kinds of
  recurrence, and the decision to fire with its code. Instants of a schedule are aware by their
  type; the zone database and the hash a jitter is drawn from are arguments, and texts are left out.
\<close>

section \<open>Windows\<close>

definition windows_overlap :: "instant \<Rightarrow> instant \<Rightarrow> instant \<Rightarrow> instant \<Rightarrow> bool" where
  "windows_overlap s1 e1 s2 e2 \<longleftrightarrow> s1 < e2 \<and> s2 < e1"

record MaintenanceWindow =
  mw_id :: string
  mw_starts :: instant
  mw_ends :: instant

definition maintenance_window :: "string \<Rightarrow> pydatetime \<Rightarrow> pydatetime \<Rightarrow> py_error + MaintenanceWindow" where
  "maintenance_window i starts ends =
     (if \<not> slug_ok i then Inl ValueErr
      else case require_aware ''schedule.window_naive'' starts of Inl e \<Rightarrow> Inl e
      | Inr s \<Rightarrow> (case require_aware ''schedule.window_naive'' ends of Inl e \<Rightarrow> Inl e
      | Inr e \<Rightarrow> if e \<le> s then Inl (InvariantViolation ''schedule.window_empty'')
                 else Inr \<lparr>mw_id = i, mw_starts = s, mw_ends = e\<rparr>))"

definition mw_contains :: "MaintenanceWindow \<Rightarrow> instant \<Rightarrow> bool" where
  "mw_contains w now \<longleftrightarrow> mw_starts w \<le> now \<and> now < mw_ends w"

definition mw_overlaps :: "MaintenanceWindow \<Rightarrow> MaintenanceWindow \<Rightarrow> bool" where
  "mw_overlaps a b \<longleftrightarrow> windows_overlap (mw_starts a) (mw_ends a) (mw_starts b) (mw_ends b)"

text \<open>A \<open>time\<close> is a number of microseconds below a day.\<close>

record DailyWindow =
  dw_days :: "int set"
  dw_start :: int
  dw_end :: int
  dw_excluded :: "int set"

definition daily_validate :: "DailyWindow \<Rightarrow> py_error + DailyWindow" where
  "daily_validate d =
     (if \<exists>x \<in> dw_days d \<union> dw_excluded d. \<not> (0 \<le> x \<and> x \<le> 6) then Inl (InvariantViolation ''schedule.weekday_range'')
      else if dw_days d \<inter> dw_excluded d \<noteq> {} then Inl (InvariantViolation ''schedule.weekday_excluded'')
      else Inr d)"

definition dw_overnight :: "DailyWindow \<Rightarrow> bool" where
  "dw_overnight d \<longleftrightarrow> dw_end d \<le> dw_start d"

definition dw_applies :: "DailyWindow \<Rightarrow> int \<Rightarrow> bool" where
  "dw_applies d weekday \<longleftrightarrow> weekday \<in> dw_days d \<and> weekday \<notin> dw_excluded d"

definition dw_covers_same_day :: "DailyWindow \<Rightarrow> int \<Rightarrow> bool" where
  "dw_covers_same_day d clock =
     (if dw_overnight d then clock \<ge> dw_start d else dw_start d \<le> clock \<and> clock < dw_end d)"

definition dw_contains :: "DailyWindow \<Rightarrow> int \<Rightarrow> bool" where
  "dw_contains d w =
     (let clock = wall_time w; weekday = wall_weekday w
      in if dw_applies d weekday \<and> dw_covers_same_day d clock then True
         else if \<not> dw_overnight d then False
         else dw_applies d ((weekday - 1) mod 7) \<and> clock < dw_end d)"

definition hours_validate :: "DailyWindow list \<Rightarrow> py_error + DailyWindow list" where
  "hours_validate ws = (if ws = [] then Inl (InvariantViolation ''schedule.business_hours_empty'') else Inr ws)"

definition hours_contains :: "DailyWindow list \<Rightarrow> int \<Rightarrow> bool" where
  "hours_contains ws w = list_ex (\<lambda>d. dw_contains d w) ws"

definition window_for :: "DailyWindow list \<Rightarrow> int \<Rightarrow> DailyWindow option" where
  "window_for ws w = find (\<lambda>d. dw_contains d w) ws"

text \<open>Blackout dates are day numbers of the wall clock.\<close>

definition blackout_hits :: "int set \<Rightarrow> int \<Rightarrow> int option" where
  "blackout_hits dates w = (let day = wall_day_number w in if day \<in> dates then Some day else None)"

section \<open>Jitter\<close>

text \<open>\<open>timedelta(seconds=x)\<close> keeps whole microseconds, an exact half to even.\<close>

definition us_of_seconds :: "rat \<Rightarrow> int" where
  "us_of_seconds x = round_half_even (x * 1000000)"

definition total_seconds :: "(rat \<Rightarrow> rat) \<Rightarrow> int \<Rightarrow> rat" where
  "total_seconds fl us = fl (of_int us / 1000000)"

definition JITTER_BUCKETS :: nat where "JITTER_BUCKETS = 1000000"

definition jitter_offset_s ::
  "(rat \<Rightarrow> rat) \<Rightarrow> (string \<Rightarrow> instant \<Rightarrow> nat) \<Rightarrow> rat \<Rightarrow> string \<Rightarrow> instant \<Rightarrow> rat" where
  "jitter_offset_s fl bucket bound seed nominal =
     (if bound \<le> 0 then 0
      else let fraction = fl (of_nat (bucket seed nominal mod JITTER_BUCKETS) / of_nat JITTER_BUCKETS)
           in round_to fl 6 (fl (- bound + fl (fraction * fl (2 * bound)))))"

definition jitter_apply ::
  "(rat \<Rightarrow> rat) \<Rightarrow> (string \<Rightarrow> instant \<Rightarrow> nat) \<Rightarrow> rat \<Rightarrow> string \<Rightarrow> instant \<Rightarrow> instant" where
  "jitter_apply fl bucket bound seed nominal =
     (if \<not> bound > 0 then nominal else nominal + us_of_seconds (jitter_offset_s fl bucket bound seed nominal))"

section \<open>Intervals and calendar windows\<close>

record IntervalSpec =
  iv_every :: rat
  iv_anchor :: instant
  iv_max :: "int option"

definition interval_spec :: "rat \<Rightarrow> pydatetime \<Rightarrow> int option \<Rightarrow> py_error + IntervalSpec" where
  "interval_spec every anchor m =
     (if every \<le> 0 \<or> (case m of None \<Rightarrow> False | Some n \<Rightarrow> n < 1) then Inl ValueErr
      else case require_aware ''schedule.interval_naive'' anchor of Inl e \<Rightarrow> Inl e
      | Inr a \<Rightarrow> Inr \<lparr>iv_every = every, iv_anchor = a, iv_max = m\<rparr>)"

definition iv_period :: "IntervalSpec \<Rightarrow> int" where
  "iv_period v = us_of_seconds (iv_every v)"

definition occurrence_at :: "IntervalSpec \<Rightarrow> int \<Rightarrow> py_error + instant" where
  "occurrence_at v i =
     (if i < 0 then Inl (InvariantViolation ''schedule.interval_index'') else Inr (iv_anchor v + iv_period v * i))"

definition index_of :: "(rat \<Rightarrow> rat) \<Rightarrow> IntervalSpec \<Rightarrow> instant \<Rightarrow> int" where
  "index_of fl v t = \<lfloor>fl (total_seconds fl (t - iv_anchor v) / iv_every v)\<rfloor>"

definition exhausted_at :: "IntervalSpec \<Rightarrow> int \<Rightarrow> bool" where
  "exhausted_at v i \<longleftrightarrow> (case iv_max v of None \<Rightarrow> False | Some n \<Rightarrow> i \<ge> n)"

definition interval_next_after :: "(rat \<Rightarrow> rat) \<Rightarrow> IntervalSpec \<Rightarrow> instant \<Rightarrow> py_error + instant option" where
  "interval_next_after fl v after =
     (if after < iv_anchor v then Inr (Some (iv_anchor v))
      else let i = index_of fl v after + 1
           in if exhausted_at v i then Inr None
              else (case occurrence_at v i of Inl e \<Rightarrow> Inl e | Inr t \<Rightarrow> Inr (Some t)))"

record CalendarWindow =
  cw_name :: string
  cw_starts :: instant
  cw_ends :: instant

definition calendar_window :: "string \<Rightarrow> pydatetime \<Rightarrow> pydatetime \<Rightarrow> py_error + CalendarWindow" where
  "calendar_window nm starts ends =
     (case require_aware ''schedule.window_naive'' starts of Inl e \<Rightarrow> Inl e
      | Inr s \<Rightarrow> (case require_aware ''schedule.window_naive'' ends of Inl e \<Rightarrow> Inl e
      | Inr e \<Rightarrow> if e \<le> s then Inl (InvariantViolation ''schedule.window_empty'')
                 else Inr \<lparr>cw_name = nm, cw_starts = s, cw_ends = e\<rparr>))"

definition cw_contains :: "CalendarWindow \<Rightarrow> instant \<Rightarrow> bool" where
  "cw_contains w now \<longleftrightarrow> cw_starts w \<le> now \<and> now < cw_ends w"

section \<open>Schedules\<close>

datatype ScheduleKind = CRON | INTERVAL | CALENDAR

datatype FireCode =
    FIRE_FIRED
  | FIRE_NOT_DUE
  | FIRE_MISSED
  | FIRE_PREMATURE
  | FIRE_EXPIRED
  | FIRE_EXHAUSTED
  | FIRE_OUTSIDE_BUSINESS_HOURS
  | FIRE_MAINTENANCE
  | FIRE_BLACKOUT

definition is_non_fire :: "FireCode \<Rightarrow> bool" where
  "is_non_fire c \<longleftrightarrow> c \<noteq> FIRE_FIRED"

text \<open>What \<open>blocked_by\<close> names, by kind.\<close>

datatype Blocker =
    BY_CREATED_AT | BY_MAX_RUNS | BY_ENDS_AT | BY_POLL_RESOLUTION
  | BY_BLACKOUT int | BY_MAINTENANCE string | BY_BUSINESS_HOURS

record FireDecision =
  fd_fired :: bool
  fd_code :: FireCode
  fd_schedule :: string
  fd_now :: instant
  fd_slot :: "instant option"
  fd_nominal :: "instant option"
  fd_effective :: "instant option"
  fd_resolution :: rat
  fd_blocked :: "Blocker list"

definition jittered :: "FireDecision \<Rightarrow> bool" where
  "jittered d \<longleftrightarrow> fd_effective d \<noteq> None \<and> fd_nominal d \<noteq> None \<and> fd_effective d \<noteq> fd_nominal d"

definition lateness_s :: "(rat \<Rightarrow> rat) \<Rightarrow> FireDecision \<Rightarrow> rat" where
  "lateness_s fl d =
     (case fd_nominal d of None \<Rightarrow> 0
      | Some n \<Rightarrow> if \<not> fd_fired d then 0 else round_to fl 6 (total_seconds fl (fd_now d - n)))"

definition missed_window :: "FireDecision \<Rightarrow> bool" where
  "missed_window d \<longleftrightarrow> fd_code d = FIRE_MISSED"

record Schedule =
  sd_id :: string
  sd_team :: string
  sd_kind :: ScheduleKind
  sd_cron :: "CronSpec option"
  sd_interval :: "IntervalSpec option"
  sd_calendar :: "CalendarWindow list"
  sd_zone_name :: string
  sd_hours :: "DailyWindow list option"
  sd_maintenance :: "MaintenanceWindow list"
  sd_blackout :: "int set option"
  sd_jitter :: "rat option"
  sd_created :: instant
  sd_ends :: "instant option"
  sd_max_runs :: "int option"
  sd_poll :: rat

definition resolve_zone :: "(string \<Rightarrow> Zone option) \<Rightarrow> string \<Rightarrow> py_error + Zone" where
  "resolve_zone zones nm =
     (case zones nm of None \<Rightarrow> Inl (InvariantViolation ''schedule.unknown_timezone'') | Some z \<Rightarrow> Inr z)"

text \<open>\<open>_check_recurrence\<close>: the source of the kind is there, and neither of the others.\<close>

definition check_recurrence :: "Schedule \<Rightarrow> bool" where
  "check_recurrence s =
     (let c = sd_cron s \<noteq> None; i = sd_interval s \<noteq> None; k = sd_calendar s \<noteq> []
      in case sd_kind s of
           CRON \<Rightarrow> c \<and> \<not> (i \<or> k)
         | INTERVAL \<Rightarrow> i \<and> \<not> (c \<or> k)
         | CALENDAR \<Rightarrow> k \<and> \<not> (c \<or> i))"

definition check_horizon :: "Schedule \<Rightarrow> bool" where
  "check_horizon s \<longleftrightarrow>
     sd_kind s = CALENDAR \<or> sd_ends s \<noteq> None \<or> sd_max_runs s \<noteq> None
     \<or> (case sd_interval s of None \<Rightarrow> False | Some v \<Rightarrow> iv_max v \<noteq> None)"

definition schedule_validate :: "(string \<Rightarrow> Zone option) \<Rightarrow> Schedule \<Rightarrow> py_error + Schedule" where
  "schedule_validate zones s =
     (if \<not> slug_ok (sd_id s) \<or> (case sd_max_runs s of None \<Rightarrow> False | Some n \<Rightarrow> n < 1) \<or> sd_poll s \<le> 0 then Inl ValueErr
      else if (case sd_ends s of None \<Rightarrow> False | Some t \<Rightarrow> t \<le> sd_created s)
      then Inl (InvariantViolation ''schedule.horizon'')
      else case resolve_zone zones (sd_zone_name s) of Inl e \<Rightarrow> Inl e
      | Inr _ \<Rightarrow>
          if \<not> check_recurrence s then Inl (InvariantViolation ''schedule.recurrence_source'')
          else if \<not> check_horizon s then Inl (InvariantViolation ''schedule.unbounded_recurrence'')
          else if \<not> distinct (map mw_id (sd_maintenance s)) then Inl (InvariantViolation ''schedule.window_duplicate'')
          else Inr s)"

definition blocking_maintenance :: "Schedule \<Rightarrow> instant \<Rightarrow> MaintenanceWindow list" where
  "blocking_maintenance s now = sort_key mw_id (filter (\<lambda>w. mw_contains w now) (sd_maintenance s))"

definition blacked_out_on :: "Schedule \<Rightarrow> int \<Rightarrow> int option" where
  "blacked_out_on s w = (case sd_blackout s of None \<Rightarrow> None | Some dates \<Rightarrow> blackout_hits dates w)"

definition calendar_slot :: "Schedule \<Rightarrow> instant \<Rightarrow> instant option" where
  "calendar_slot s t = map_option cw_starts (find (\<lambda>w. cw_contains w t) (sd_calendar s))"

definition cron_slot :: "Zone \<Rightarrow> Schedule \<Rightarrow> instant \<Rightarrow> instant option" where
  "cron_slot z s t =
     (case sd_cron s of None \<Rightarrow> None
      | Some c \<Rightarrow> (let w = whole_minute (zn_local z t)
                   in if \<not> cron_matches c w then None else resolve_local w z))"

definition interval_slot :: "(rat \<Rightarrow> rat) \<Rightarrow> Schedule \<Rightarrow> instant \<Rightarrow> instant option" where
  "interval_slot fl s t =
     (case sd_interval s of None \<Rightarrow> None
      | Some v \<Rightarrow>
          if t < iv_anchor v then None
          else let i = index_of fl v t
               in if exhausted_at v i then None
                  else let start = iv_anchor v + iv_period v * i
                       in if total_seconds fl (t - start) < sd_poll s then Some start else None)"

definition past_horizon :: "Schedule \<Rightarrow> instant \<Rightarrow> bool" where
  "past_horizon s t \<longleftrightarrow> (case sd_ends s of None \<Rightarrow> False | Some e \<Rightarrow> t > e)"

definition slot_start :: "(rat \<Rightarrow> rat) \<Rightarrow> Zone \<Rightarrow> Schedule \<Rightarrow> instant \<Rightarrow> instant option" where
  "slot_start fl z s t =
     (if past_horizon s t then None
      else case sd_kind s of
             CALENDAR \<Rightarrow> calendar_slot s t | CRON \<Rightarrow> cron_slot z s t | INTERVAL \<Rightarrow> interval_slot fl s t)"

definition interval_missed :: "(rat \<Rightarrow> rat) \<Rightarrow> Schedule \<Rightarrow> instant \<Rightarrow> instant option" where
  "interval_missed fl s t =
     (case sd_interval s of None \<Rightarrow> None
      | Some v \<Rightarrow>
          if sd_kind s \<noteq> INTERVAL then None
          else if t < iv_anchor v then None
          else let i = index_of fl v t
               in if exhausted_at v i then None
                  else let missed = iv_anchor v + iv_period v * i
                       in if total_seconds fl (t - missed) < sd_poll s then None
                          else if past_horizon s missed then None
                          else Some missed)"

definition budget_spent :: "Schedule \<Rightarrow> int \<Rightarrow> bool" where
  "budget_spent s run_count \<longleftrightarrow> (case sd_max_runs s of None \<Rightarrow> False | Some n \<Rightarrow> run_count \<ge> n)"

definition is_due :: "(rat \<Rightarrow> rat) \<Rightarrow> Zone \<Rightarrow> Schedule \<Rightarrow> instant \<Rightarrow> int \<Rightarrow> bool" where
  "is_due fl z s t run_count = (if budget_spent s run_count then False else slot_start fl z s t \<noteq> None)"

definition earliest :: "instant list \<Rightarrow> instant option" where
  "earliest xs = (case xs of [] \<Rightarrow> None | x # ys \<Rightarrow> Some (fold min ys x))"

definition next_fire_time :: "(rat \<Rightarrow> rat) \<Rightarrow> Zone \<Rightarrow> Schedule \<Rightarrow> instant \<Rightarrow> py_error + instant option" where
  "next_fire_time fl z s after =
     (case (case sd_kind s of
              CALENDAR \<Rightarrow> Inr (earliest (filter (\<lambda>t. t > after) (map cw_starts (sd_calendar s))))
            | CRON \<Rightarrow> (case sd_cron s of None \<Rightarrow> Inr None
                        | Some c \<Rightarrow> Inr (cron_next_after c z CRON_SEARCH_LIMIT_MINUTES after))
            | INTERVAL \<Rightarrow> (case sd_interval s of None \<Rightarrow> Inr None | Some v \<Rightarrow> interval_next_after fl v after))
      of Inl e \<Rightarrow> Inl e
      | Inr None \<Rightarrow> Inr None
      | Inr (Some t) \<Rightarrow> Inr (if past_horizon s t then None else Some t))"

section \<open>The decision\<close>

definition hold_fire :: "Schedule \<Rightarrow> FireCode \<Rightarrow> instant \<Rightarrow> instant option \<Rightarrow> Blocker list \<Rightarrow> FireDecision" where
  "hold_fire s code t slot blocked =
     \<lparr>fd_fired = False, fd_code = code, fd_schedule = sd_id s, fd_now = t, fd_slot = slot, fd_nominal = None,
      fd_effective = None, fd_resolution = sd_poll s, fd_blocked = blocked\<rparr>"

definition budget_refusal :: "Schedule \<Rightarrow> instant \<Rightarrow> int \<Rightarrow> FireDecision option" where
  "budget_refusal s t run_count =
     (if t < sd_created s then Some (hold_fire s FIRE_PREMATURE t None [BY_CREATED_AT])
      else if budget_spent s run_count then Some (hold_fire s FIRE_EXHAUSTED t None [BY_MAX_RUNS])
      else None)"

definition no_slot_refusal :: "(rat \<Rightarrow> rat) \<Rightarrow> Schedule \<Rightarrow> instant \<Rightarrow> FireDecision" where
  "no_slot_refusal fl s t =
     (if past_horizon s t then hold_fire s FIRE_EXPIRED t None [BY_ENDS_AT]
      else case interval_missed fl s t of
             Some m \<Rightarrow> hold_fire s FIRE_MISSED t (Some m) [BY_POLL_RESOLUTION]
           | None \<Rightarrow> hold_fire s FIRE_NOT_DUE t None [])"

definition calendar_refusal :: "(rat \<Rightarrow> rat) \<Rightarrow> Zone \<Rightarrow> Schedule \<Rightarrow> instant \<Rightarrow> FireDecision option" where
  "calendar_refusal fl z s t =
     (case slot_start fl z s t of
        None \<Rightarrow> Some (no_slot_refusal fl s t)
      | Some slot \<Rightarrow>
          (case blacked_out_on s (zn_local z t) of
             Some day \<Rightarrow> Some (hold_fire s FIRE_BLACKOUT t (Some slot) [BY_BLACKOUT day])
           | None \<Rightarrow>
               if blocking_maintenance s t \<noteq> []
               then Some (hold_fire s FIRE_MAINTENANCE t (Some slot)
                            (map (\<lambda>w. BY_MAINTENANCE (mw_id w)) (blocking_maintenance s t)))
               else if (case sd_hours s of None \<Rightarrow> False | Some h \<Rightarrow> \<not> hours_contains h (zn_local z t))
               then Some (hold_fire s FIRE_OUTSIDE_BUSINESS_HOURS t (Some slot) [BY_BUSINESS_HOURS])
               else None))"

definition fire_decision ::
  "(rat \<Rightarrow> rat) \<Rightarrow> (string \<Rightarrow> instant \<Rightarrow> nat) \<Rightarrow> Zone \<Rightarrow> Schedule \<Rightarrow> instant \<Rightarrow> int \<Rightarrow> FireDecision" where
  "fire_decision fl bucket z s t run_count =
     (case budget_refusal s t run_count of Some d \<Rightarrow> d
      | None \<Rightarrow> (case calendar_refusal fl z s t of Some d \<Rightarrow> d
      | None \<Rightarrow>
          (let slot = slot_start fl z s t;
               nominal = (if sd_kind s = CALENDAR then t else case slot of None \<Rightarrow> t | Some x \<Rightarrow> x);
               effective = (case sd_jitter s of None \<Rightarrow> nominal | Some b \<Rightarrow> jitter_apply fl bucket b (sd_id s) nominal)
           in \<lparr>fd_fired = True, fd_code = FIRE_FIRED, fd_schedule = sd_id s, fd_now = t, fd_slot = slot,
               fd_nominal = Some nominal, fd_effective = Some effective, fd_resolution = sd_poll s,
               fd_blocked = []\<rparr>)))"

definition evaluate_schedule ::
  "(rat \<Rightarrow> rat) \<Rightarrow> (string \<Rightarrow> instant \<Rightarrow> nat) \<Rightarrow> (string \<Rightarrow> Zone option) \<Rightarrow> Schedule \<Rightarrow> pydatetime \<Rightarrow> int
     \<Rightarrow> py_error + FireDecision" where
  "evaluate_schedule fl bucket zones s now run_count =
     (case require_aware ''schedule.evaluate_naive'' now of Inl e \<Rightarrow> Inl e
      | Inr t \<Rightarrow> (case resolve_zone zones (sd_zone_name s) of Inl e \<Rightarrow> Inl e
      | Inr z \<Rightarrow> Inr (fire_decision fl bucket z s t run_count)))"

end
