(* ===== verification/Schedule_Laws.thy ===== *)
theory Schedule_Laws
  imports Schedule_Fire
begin

text \<open>
  What schedules promise: nothing fires through a closed gate, every announced fire time is due when
  it comes, a daily band is an interval of the wall clock also over midnight, a jitter stays within
  its bound; and where an interval of a fractional period, or an hour that comes twice, breaks it.
\<close>

section \<open>Cron searches\<close>

definition cron_hit :: "CronSpec \<Rightarrow> Zone \<Rightarrow> instant \<Rightarrow> int \<Rightarrow> instant \<Rightarrow> bool" where
  "cron_hit c z after w i \<longleftrightarrow> cron_matches c w \<and> resolve_local w z = Some i \<and> after < i"

lemma cron_search_Some:
  "cron_search c z after n w = Some i \<Longrightarrow>
     \<exists>k<n. cron_hit c z after (w + int k * minute_us) i \<and> (\<forall>j<k. \<forall>i'. \<not> cron_hit c z after (w + int j * minute_us) i')"
proof (induction n arbitrary: w)
  case 0
  then show ?case by simp
next
  case (Suc n)
  show ?case
  proof (cases "\<exists>i'. cron_hit c z after w i'")
    case True
    then have "cron_hit c z after w i" using Suc.prems by (auto simp: cron_hit_def)
    then show ?thesis by (intro exI [of _ 0]) simp
  next
    case False
    then have "cron_search c z after n (w + minute_us) = Some i"
      using Suc.prems by (auto simp: cron_hit_def split: option.splits if_splits)
    from Suc.IH [OF this] obtain k where k: "k < n" "cron_hit c z after (w + minute_us + int k * minute_us) i"
      "\<forall>j<k. \<forall>i'. \<not> cron_hit c z after (w + minute_us + int j * minute_us) i'" by blast
    have shift: "w + minute_us + int j * minute_us = w + int (Suc j) * minute_us" for j by (simp add: algebra_simps)
    show ?thesis
    proof (intro exI [of _ "Suc k"] conjI allI impI)
      show "Suc k < Suc n" using k(1) by simp
      show "cron_hit c z after (w + int (Suc k) * minute_us) i" using k(2) unfolding shift .
      show "\<not> cron_hit c z after (w + int j * minute_us) i'" if "j < Suc k" for j i'
      proof (cases j)
        case 0
        then show ?thesis using False by simp
      next
        case (Suc l)
        then show ?thesis using k(3) that unfolding shift by simp
      qed
    qed
  qed
qed

lemma cron_search_None:
  "cron_search c z after n w = None \<longleftrightarrow> (\<forall>k<n. \<forall>i. \<not> cron_hit c z after (w + int k * minute_us) i)"
proof (induction n arbitrary: w)
  case 0
  then show ?case by simp
next
  case (Suc n)
  have shift: "w + minute_us + int j * minute_us = w + int (Suc j) * minute_us" for j by (simp add: algebra_simps)
  have "cron_search c z after (Suc n) w = None \<longleftrightarrow>
     (\<forall>i. \<not> cron_hit c z after w i) \<and> cron_search c z after n (w + minute_us) = None"
    by (auto simp: cron_hit_def split: option.splits)
  also have "\<dots> \<longleftrightarrow> (\<forall>k<Suc n. \<forall>i. \<not> cron_hit c z after (w + int k * minute_us) i)"
    unfolding Suc.IH shift by (auto simp: less_Suc_eq_0_disj)
  finally show ?case .
qed

lemma minute_us_pos: "0 < minute_us"
  by (simp add: minute_us_def)

lemma whole_minute_mod: "w mod minute_us = 0 \<Longrightarrow> whole_minute w = w"
  by (simp add: whole_minute_def)

lemma whole_minute_step: "(whole_minute w + minute_us + k * minute_us) mod minute_us = 0"
  by (simp add: whole_minute_def mod_simps minus_mod_eq_mult_div)

text \<open>
  The cron search answers the first minute that matches and happens, counted from the one after
  \<open>after\<close>, and gives up exactly when none does within its limit.
\<close>

lemma cron_next_first:
  "case cron_next_after c z n after of
     None \<Rightarrow> \<forall>k<n. \<forall>i. \<not> cron_hit c z after (whole_minute (zn_local z after) + minute_us + int k * minute_us) i
   | Some i \<Rightarrow> after < i \<and> cron_matches c (zn_local z i) \<and> whole_minute (zn_local z i) = zn_local z i
       \<and> zn_first z (zn_local z i) = i
       \<and> (\<exists>k<n. zn_local z i = whole_minute (zn_local z after) + minute_us + int k * minute_us
            \<and> (\<forall>j<k. \<forall>i'. \<not> cron_hit c z after (whole_minute (zn_local z after) + minute_us + int j * minute_us) i'))"
proof (cases "cron_next_after c z n after")
  case None
  show ?thesis unfolding None option.case using None unfolding cron_next_after_def cron_search_None .
next
  case (Some i)
  then obtain k where k: "k < n"
    "cron_hit c z after (whole_minute (zn_local z after) + minute_us + int k * minute_us) i"
    "\<forall>j<k. \<forall>i'. \<not> cron_hit c z after (whole_minute (zn_local z after) + minute_us + int j * minute_us) i'"
    unfolding cron_next_after_def by (blast dest: cron_search_Some)
  let ?w = "whole_minute (zn_local z after) + minute_us + int k * minute_us"
  have w: "zn_local z i = ?w" "zn_first z ?w = i" "cron_matches c ?w" "after < i"
    using k(2) by (auto simp: cron_hit_def resolve_local_def local_time_exists_def split: if_splits)
  then show ?thesis
    using Some k(1,3) whole_minute_mod [OF whole_minute_step, of "zn_local z after" "int k"] by auto
qed

section \<open>Intervals\<close>

text \<open>A period of whole microseconds, in exact arithmetic.\<close>

definition whole_period :: "IntervalSpec \<Rightarrow> bool" where
  "whole_period v \<longleftrightarrow> (\<exists>p>0. iv_every v = of_int p / 1000000)"

lemma round_half_even_int [simp]: "round_half_even (of_int n) = n"
  by (simp add: round_half_even_def)

lemma whole_period_pos:
  assumes "whole_period v"
  shows "0 < iv_period v" "iv_every v = of_int (iv_period v) / 1000000"
proof -
  obtain p where "0 < p" "iv_every v = of_int p / 1000000" using assms by (auto simp: whole_period_def)
  moreover from this have "iv_period v = p"
    using round_half_even_int [of p] by (simp add: iv_period_def us_of_seconds_def)
  ultimately show "0 < iv_period v" "iv_every v = of_int (iv_period v) / 1000000" by simp_all
qed

lemma index_of_exact:
  assumes "whole_period v"
  shows "index_of (\<lambda>x. x) v t = (t - iv_anchor v) div iv_period v"
proof -
  have "(of_int (t - iv_anchor v) / 1000000) / iv_every v = (of_int (t - iv_anchor v) / of_int (iv_period v) :: rat)"
    using whole_period_pos [OF assms] by simp
  then show ?thesis
    unfolding index_of_def total_seconds_def by (simp only: floor_divide_of_int_eq)
qed

lemma interval_next_Some:
  assumes "interval_next_after (\<lambda>x. x) v after = Inr (Some t)" "whole_period v"
  shows "after < t" "(t - iv_anchor v) mod iv_period v = 0" "iv_anchor v \<le> t"
    "\<And>u. after < u \<Longrightarrow> iv_anchor v \<le> u \<Longrightarrow> (u - iv_anchor v) mod iv_period v = 0 \<Longrightarrow> t \<le> u"
    "(case iv_max v of None \<Rightarrow> True | Some n \<Rightarrow> 1 \<le> n) \<Longrightarrow> \<not> exhausted_at v (index_of (\<lambda>x. x) v t)"
proof -
  note p = whole_period_pos [OF assms(2)]
  let ?p = "iv_period v" and ?a = "iv_anchor v"
  let ?i = "(after - ?a) div ?p + 1"
  consider (early) "after < ?a" "t = ?a" | (later) "?a \<le> after" "t = ?a + ?p * ?i" "\<not> exhausted_at v ?i"
    using assms(1) by (auto simp: interval_next_after_def index_of_exact [OF assms(2)] occurrence_at_def Let_def
        split: if_splits)
  note cases = this
  have split: "after - ?a = (after - ?a) div ?p * ?p + (after - ?a) mod ?p" by simp
  have rest: "0 \<le> (after - ?a) mod ?p" "(after - ?a) mod ?p < ?p" using p(1) by simp_all
  have div: "(after - ?a) div ?p * ?p \<le> after - ?a" using split rest(1) by linarith
  have "?p * ?i = (after - ?a) div ?p * ?p + ?p" by (simp only: distrib_left mult.right_neutral mult.commute)
  then have above: "after < ?a + ?p * ?i" using split rest(2) by linarith
  show "after < t" using cases above by cases auto
  show "(t - ?a) mod ?p = 0" using cases by cases auto
  show "?a \<le> t"
    using cases
  proof cases
    case later
    then have "0 \<le> ?i" using p(1) by (simp add: pos_imp_zdiv_nonneg_iff)
    then show ?thesis using later p(1) by simp
  qed simp
  show "t \<le> u" if u: "after < u" "?a \<le> u" "(u - ?a) mod ?p = 0" for u
    using cases
  proof cases
    case later
    obtain k where k: "u - ?a = ?p * k" using u(3) by (auto simp: mod_eq_0_iff_dvd elim: dvdE)
    have "(after - ?a) div ?p < k"
    proof (rule ccontr)
      assume "\<not> ?thesis"
      then have "?p * k \<le> ?p * ((after - ?a) div ?p)" using p(1) by simp
      also have "\<dots> \<le> after - ?a" using div by (simp add: mult.commute)
      finally show False using k u(1) by simp
    qed
    then have "?p * ?i \<le> ?p * k" using p(1) by simp
    then show ?thesis using later(2) k by simp
  qed (use u in simp)
  show "\<not> exhausted_at v (index_of (\<lambda>x. x) v t)" if "case iv_max v of None \<Rightarrow> True | Some n \<Rightarrow> 1 \<le> n"
    using cases
  proof cases
    case early
    then show ?thesis using that by (auto simp: index_of_exact [OF assms(2)] exhausted_at_def split: option.splits)
  next
    case later
    then have "index_of (\<lambda>x. x) v t = ?i" using p(1) by (simp add: index_of_exact [OF assms(2)])
    then show ?thesis using later(3) by simp
  qed
qed

section \<open>Announced fire times\<close>

lemma earliest_in: "earliest xs = Some t \<Longrightarrow> t \<in> set xs"
proof -
  have "fold min ys x \<in> insert x (set ys)" for ys :: "instant list" and x
  proof (induction ys arbitrary: x)
    case (Cons y ys)
    then show ?case using Cons [of "min y x"] by (auto simp: min_def split: if_splits)
  qed simp
  then show "earliest xs = Some t \<Longrightarrow> t \<in> set xs"
    unfolding earliest_def by (cases xs) fastforce+
qed

lemma next_fire_source:
  assumes "next_fire_time fl z s after = Inr (Some t)"
  shows "\<not> past_horizon s t"
    "sd_kind s = CALENDAR \<Longrightarrow> after < t \<and> (\<exists>w\<in>set (sd_calendar s). t = cw_starts w)"
    "sd_kind s = CRON \<Longrightarrow> \<exists>c. sd_cron s = Some c \<and> cron_next_after c z CRON_SEARCH_LIMIT_MINUTES after = Some t"
    "sd_kind s = INTERVAL \<Longrightarrow> \<exists>v. sd_interval s = Some v \<and> interval_next_after fl v after = Inr (Some t)"
proof -
  show "\<not> past_horizon s t"
    using assms unfolding next_fire_time_def by (auto split: sum.splits option.splits if_splits)
  show "sd_kind s = CALENDAR \<Longrightarrow> after < t \<and> (\<exists>w\<in>set (sd_calendar s). t = cw_starts w)"
    using assms unfolding next_fire_time_def by (auto split: option.splits if_splits dest!: earliest_in)
  show "sd_kind s = CRON \<Longrightarrow> \<exists>c. sd_cron s = Some c \<and> cron_next_after c z CRON_SEARCH_LIMIT_MINUTES after = Some t"
    using assms unfolding next_fire_time_def by (auto split: option.splits if_splits)
  show "sd_kind s = INTERVAL \<Longrightarrow> \<exists>v. sd_interval s = Some v \<and> interval_next_after fl v after = Inr (Some t)"
    using assms unfolding next_fire_time_def by (auto split: sum.splits option.splits if_splits)
qed

lemma interval_slot_at:
  assumes "sd_interval s = Some v" "whole_period v" "iv_anchor v \<le> t" "(t - iv_anchor v) mod iv_period v = 0"
    "\<not> exhausted_at v (index_of (\<lambda>x. x) v t)" "0 < sd_poll s"
  shows "interval_slot (\<lambda>x. x) s t = Some t"
proof -
  have "iv_anchor v + iv_period v * index_of (\<lambda>x. x) v t = t"
    using assms(4) by (simp add: index_of_exact [OF assms(2)] minus_mod_eq_mult_div [symmetric])
  then show ?thesis
    using assms(1,3,5,6) by (simp add: interval_slot_def Let_def total_seconds_def)
qed

lemma calendar_slot_at:
  assumes "w \<in> set (sd_calendar s)" "\<forall>w\<in>set (sd_calendar s). cw_starts w < cw_ends w"
  shows "calendar_slot s (cw_starts w) \<noteq> None"
  using assms by (auto simp: calendar_slot_def cw_contains_def find_None_iff)


text \<open>A team's interval schedule: every minute from the epoch, ten times, polled each second.\<close>

definition minutely :: Schedule where
  "minutely =
     \<lparr>sd_id = ''minutely'', sd_team = ''core'', sd_kind = INTERVAL, sd_cron = None,
      sd_interval = Some \<lparr>iv_every = 60, iv_anchor = 0, iv_max = Some 10\<rparr>, sd_calendar = [],
      sd_zone_name = ''UTC'', sd_hours = None, sd_maintenance = [], sd_blackout = None, sd_jitter = None,
      sd_created = 0, sd_ends = None, sd_max_runs = Some 5, sd_poll = 1\<rparr>"

definition utc :: Zone where
  "utc = \<lparr>zn_local = (\<lambda>i. i), zn_first = (\<lambda>w. w), zn_second = (\<lambda>w. w)\<rparr>"

definition only_utc :: "string \<Rightarrow> Zone option" where
  "only_utc nm = (if nm = ''UTC'' then Some utc else None)"


section \<open>The gates of a fire\<close>

definition hours_open :: "Zone \<Rightarrow> Schedule \<Rightarrow> instant \<Rightarrow> bool" where
  "hours_open z s t \<longleftrightarrow> (case sd_hours s of None \<Rightarrow> True | Some h \<Rightarrow> list_ex (\<lambda>d. dw_contains d (zn_local z t)) h)"

lemma blocking_maintenance_none: "blocking_maintenance s t = [] \<longleftrightarrow> (\<forall>w\<in>set (sd_maintenance s). \<not> mw_contains w t)"
  by (metis (no_types, lifting) blocking_maintenance_def filter_False filter_empty_conv length_0_conv length_sort)

lemma fire_fields [simp]:
  "fd_fired (hold_fire s c t slot b) \<longleftrightarrow> False" "fd_code (hold_fire s c t slot b) = c" "fd_blocked (hold_fire s c t slot b) = b"
  by (simp_all add: hold_fire_def)

lemma budget_refusal_cases:
  "budget_refusal s t n = None \<longleftrightarrow> sd_created s \<le> t \<and> \<not> budget_spent s n"
  "budget_refusal s t n = Some d \<Longrightarrow> \<not> fd_fired d \<and> fd_code d \<noteq> FIRE_FIRED \<and> fd_code d \<noteq> FIRE_NOT_DUE \<and> fd_blocked d \<noteq> []"
  by (auto simp: budget_refusal_def split: if_splits)

lemma no_slot_refusal_cases:
  "\<not> fd_fired (no_slot_refusal fl s t) \<and> fd_code (no_slot_refusal fl s t) \<noteq> FIRE_FIRED
   \<and> (fd_blocked (no_slot_refusal fl s t) = [] \<longrightarrow> fd_code (no_slot_refusal fl s t) = FIRE_NOT_DUE)"
  by (simp add: no_slot_refusal_def split: option.split)

lemma calendar_refusal_None:
  "calendar_refusal fl z s t = None \<longleftrightarrow>
     slot_start fl z s t \<noteq> None \<and> blacked_out_on s (zn_local z t) = None
     \<and> (\<forall>w\<in>set (sd_maintenance s). \<not> mw_contains w t) \<and> hours_open z s t"
  by (auto simp: calendar_refusal_def blocking_maintenance_none hours_open_def hours_contains_def
      split: option.splits if_splits)

lemma calendar_refusal_Some:
  assumes "calendar_refusal fl z s t = Some d"
  shows "\<not> fd_fired d \<and> fd_code d \<noteq> FIRE_FIRED \<and> (fd_blocked d = [] \<longrightarrow> fd_code d = FIRE_NOT_DUE)"
  using assms no_slot_refusal_cases [of fl s t]
  by (auto simp: calendar_refusal_def split: option.splits if_splits)

text \<open>
  C12. Nothing fires through a closed gate, and nothing else stops it: a schedule fires at an instant
  exactly when that is not before its creation, its run budget is not spent, a slot of its recurrence
  covers the instant, no maintenance window does, the local day is not blacked out and, where it keeps
  business hours, they are open; its code says so; and any refusal other than "not due" names what
  blocked it.
\<close>

theorem schedule_fires_only_when_allowed:
  assumes "evaluate_schedule fl bucket zones s (Aware t) run_count = Inr d"
  shows "\<exists>z. zones (sd_zone_name s) = Some z
    \<and> (fd_fired d \<longleftrightarrow> sd_created s \<le> t \<and> \<not> budget_spent s run_count \<and> slot_start fl z s t \<noteq> None
         \<and> blacked_out_on s (zn_local z t) = None \<and> (\<forall>w\<in>set (sd_maintenance s). \<not> mw_contains w t) \<and> hours_open z s t)
    \<and> (fd_fired d \<longleftrightarrow> fd_code d = FIRE_FIRED)
    \<and> (\<not> fd_fired d \<and> fd_code d \<noteq> FIRE_NOT_DUE \<longrightarrow> fd_blocked d \<noteq> [])"
proof -
  obtain z where z: "zones (sd_zone_name s) = Some z" "d = fire_decision fl bucket z s t run_count"
    using assms by (auto simp: evaluate_schedule_def require_aware_def resolve_zone_def split: option.splits)
  have "(fd_fired d \<longleftrightarrow> budget_refusal s t run_count = None \<and> calendar_refusal fl z s t = None)
     \<and> (fd_fired d \<longleftrightarrow> fd_code d = FIRE_FIRED) \<and> (\<not> fd_fired d \<and> fd_code d \<noteq> FIRE_NOT_DUE \<longrightarrow> fd_blocked d \<noteq> [])"
  proof (cases "budget_refusal s t run_count")
    case (Some b)
    show ?thesis using budget_refusal_cases(2) [OF Some] unfolding z(2) fire_decision_def Some by auto
  next
    case none: None
    show ?thesis
    proof (cases "calendar_refusal fl z s t")
      case (Some b)
      show ?thesis using calendar_refusal_Some [OF Some] unfolding z(2) fire_decision_def none Some by auto
    qed (simp add: z(2) fire_decision_def none Let_def)
  qed
  then show ?thesis using z(1) unfolding budget_refusal_cases(1) calendar_refusal_None by blast
qed

theorem schedule_fires_only_when_allowed_witness:
  "\<exists>d. evaluate_schedule (\<lambda>x. x) (\<lambda>_ _. 0) only_utc minutely (Aware 120000000) 0 = Inr d \<and> fd_fired d"
proof -
  obtain d where d: "evaluate_schedule (\<lambda>x. x) (\<lambda>_ _. 0) only_utc minutely (Aware 120000000) 0 = Inr d"
    by (simp add: evaluate_schedule_def require_aware_def resolve_zone_def only_utc_def minutely_def)
  have "only_utc (sd_zone_name minutely) = Some utc" by (simp add: only_utc_def minutely_def)
  moreover have "sd_created minutely \<le> 120000000 \<and> \<not> budget_spent minutely 0
     \<and> slot_start (\<lambda>x. x) utc minutely 120000000 \<noteq> None \<and> blacked_out_on minutely (zn_local utc 120000000) = None
     \<and> (\<forall>w\<in>set (sd_maintenance minutely). \<not> mw_contains w 120000000) \<and> hours_open utc minutely 120000000"
    by code_simp
  ultimately show ?thesis using schedule_fires_only_when_allowed [OF d] d by auto
qed

section \<open>Daily bands\<close>

lemma day_split: "n * day_us + a \<le> w \<and> w < n * day_us + b \<longleftrightarrow> a \<le> (w div day_us - n) * day_us + w mod day_us \<and> (w div day_us - n) * day_us + w mod day_us < b"
  using div_mult_mod_eq [of w day_us] unfolding left_diff_distrib by linarith

text \<open>
  A daily band is an interval of the wall clock: a moment lies in it exactly when it falls, for
  some day the band applies on, from that day's start up to its end, the end being on the next day
  when the band runs over midnight; the days are judged by where the band starts.
\<close>

theorem daily_band:
  assumes "0 \<le> dw_start d" "dw_start d < day_us" "0 \<le> dw_end d" "dw_end d < day_us"
  shows "dw_contains d w \<longleftrightarrow>
    (\<exists>n. dw_applies d ((n + 3) mod 7) \<and> n * day_us + dw_start d \<le> w
       \<and> w < n * day_us + (dw_end d + (if dw_overnight d then day_us else 0)))" (is "_ = (\<exists>n. ?P n)")
proof -
  have pos: "0 < day_us" by (simp add: day_us_def)
  let ?n = "w div day_us" and ?c = "w mod day_us"
  have c: "0 \<le> ?c" "?c < day_us" using pos by simp_all
  have only: "n = ?n \<or> n = ?n - 1" if "?P n" for n
  proof -
    from that have r: "dw_start d \<le> (?n - n) * day_us + ?c" "(?n - n) * day_us + ?c < dw_end d + day_us"
      using pos day_split by (auto split: if_splits)
    have "- 1 * day_us < (?n - n) * day_us" "(?n - n) * day_us < 2 * day_us" using r c assms by linarith+
    then have "- 1 < ?n - n" "?n - n < 2" using pos mult_less_cancel_right_pos [OF pos] by metis+
    then show ?thesis by linarith
  qed
  have late: "?c < dw_end d + day_us" using c assms by linarith
  have today: "?P ?n \<longleftrightarrow> dw_applies d (wall_weekday w) \<and> dw_covers_same_day d (wall_time w)"
    using c assms late by (auto simp: day_split dw_covers_same_day_def wall_weekday_def wall_day_number_def wall_time_def)
  have yest: "?P (?n - 1) \<longleftrightarrow> dw_overnight d \<and> dw_applies d ((wall_weekday w - 1) mod 7) \<and> wall_time w < dw_end d"
  proof -
    have "(wall_weekday w - 1) mod 7 = (?n - 1 + 3) mod 7"
      by (simp add: wall_weekday_def wall_day_number_def mod_simps)
    moreover have "dw_start d \<le> day_us + ?c \<longleftrightarrow> True" "day_us + ?c < dw_end d \<longleftrightarrow> False"
      using c assms unfolding eq_True eq_False by linarith+
    ultimately show ?thesis by (simp add: day_split wall_time_def conj_commute)
  qed
  have "(\<exists>n. ?P n) \<longleftrightarrow> ?P ?n \<or> ?P (?n - 1)" using only by blast
  then show ?thesis unfolding today yest by (auto simp: dw_contains_def Let_def)
qed

theorem daily_band_witness:
  "let d = \<lparr>dw_days = {4}, dw_start = 22 * 3600000000, dw_end = 6 * 3600000000, dw_excluded = {}\<rparr>
   in dw_contains d (2 * day_us + 3600000000)"
proof -
  let ?d = "\<lparr>dw_days = {4}, dw_start = 22 * 3600000000, dw_end = 6 * 3600000000, dw_excluded = {}\<rparr>"
  have "dw_contains ?d (2 * day_us + 3600000000)"
    by (subst daily_band) (auto simp: day_us_def dw_applies_def dw_overnight_def intro!: exI [of _ 1])
  then show ?thesis unfolding Let_def .
qed

section \<open>Where an announcement or a slot goes wrong\<close>

text \<open>
  A period of a tenth of a second is not the double it is kept as: the quotient of \<open>index_of\<close> falls
  below 3 at the third occurrence, so the time answered as "strictly after" is the one asked from, and
  a poll exactly on the occurrence is told it was missed.
\<close>

lemma tenth_second_stuck:
  assumes "fl (3 / 10) = 5404319552844595 / 18014398509481984"
    and "fl ((5404319552844595 / 18014398509481984) / (3602879701896397 / 36028797018963968)) = 6755399441055743 / 2251799813685248"
    and "fl (1 / 10) = 3602879701896397 / 36028797018963968"
    and "sd_interval s = Some v" "iv_every v = 3602879701896397 / 36028797018963968" "iv_max v = None"
      "sd_kind s = INTERVAL" "sd_poll s = 1 / 20" "sd_ends s = None"
  shows "interval_next_after fl v (iv_anchor v + 300000) = Inr (Some (iv_anchor v + 300000))"
    "interval_slot fl s (iv_anchor v + 300000) = None"
    "interval_missed fl s (iv_anchor v + 300000) = Some (iv_anchor v + 200000)"
proof -
  have ts: "total_seconds fl 300000 = 5404319552844595 / 18014398509481984" "total_seconds fl 100000 = 3602879701896397 / 36028797018963968"
    using assms(1,3) by (simp_all add: total_seconds_def)
  have i: "index_of fl v (iv_anchor v + 300000) = 2"
    unfolding index_of_def add_diff_cancel_left' ts assms(5) assms(2) by (simp add: floor_eq_iff)
  have p: "iv_period v = 100000" 
  proof -
    have "\<lfloor>56294995342131203125 / 562949953421312 :: rat\<rfloor> = 100000" by (simp add: floor_eq_iff)
    then show ?thesis by (simp add: iv_period_def assms(5) us_of_seconds_def round_half_even_def Let_def)
  qed
  show "interval_next_after fl v (iv_anchor v + 300000) = Inr (Some (iv_anchor v + 300000))"
    by (simp add: interval_next_after_def i p exhausted_at_def assms(6) occurrence_at_def)
  show "interval_slot fl s (iv_anchor v + 300000) = None"
    by (simp add: interval_slot_def i p exhausted_at_def assms ts)
  show "interval_missed fl s (iv_anchor v + 300000) = Some (iv_anchor v + 200000)"
    by (simp add: interval_missed_def i p exhausted_at_def assms ts past_horizon_def)
qed

text \<open>
  An hour the clock shows twice: in the second pass a cron slot still answers the first, so the
  schedule fires again, late by the whole shift.
\<close>

lemma fall_back_fires_late:
  assumes "sd_kind s = CRON" "sd_cron s = Some c" "sd_ends s = None" "cron_matches c w" "whole_minute w = w"
    and "zn_local z (zn_first z w) = w" "zn_local z (zn_second z w) = w"
    and "calendar_refusal fl z s (zn_second z w) = None" "budget_refusal s (zn_second z w) n = None"
  shows "fd_fired (fire_decision fl bucket z s (zn_second z w) n)
    \<and> fd_slot (fire_decision fl bucket z s (zn_second z w) n) = Some (zn_first z w)
    \<and> lateness_s fl (fire_decision fl bucket z s (zn_second z w) n)
        = round_to fl 6 (total_seconds fl (zn_second z w - zn_first z w))"
proof -
  have "slot_start fl z s (zn_second z w) = Some (zn_first z w)"
    using assms by (simp add: slot_start_def past_horizon_def cron_slot_def resolve_local_def local_time_exists_def)
  then show ?thesis
    using assms by (simp add: fire_decision_def lateness_s_def Let_def)
qed

text \<open>Any character outside the dialect separates fields instead of being refused.\<close>

lemma cron_reads_separators:
  "case parse_cron ''0;0$*~*~7'' of Inl _ \<Rightarrow> False
   | Inr c \<Rightarrow> (case parse_cron ''0 0 * * 7'' of Inl _ \<Rightarrow> False
                | Inr d \<Rightarrow> c = d\<lparr>cron_expression := ''0;0$*~*~7''\<rparr>)"
  by code_simp

section \<open>Jitter\<close>

lemma round_half_even_le: "x \<le> of_int n \<Longrightarrow> round_half_even x \<le> n"
  by (simp add: round_half_even_def Let_def) linarith

lemma round_half_even_ge: "of_int n \<le> x \<Longrightarrow> n \<le> round_half_even x"
  by (simp add: round_half_even_def Let_def flip: le_floor_iff)

text \<open>In exact arithmetic a jitter whose bound is whole microseconds stays within it.\<close>

lemma jitter_within:
  assumes "0 \<le> b"
  shows "\<bar>jitter_apply (\<lambda>x. x) bucket (of_int b / 1000000) seed nominal - nominal\<bar> \<le> b"
proof (cases "b = 0")
  case True
  then show ?thesis by (simp add: jitter_apply_def)
next
  case False
  define f where "f = (of_nat (bucket seed nominal mod JITTER_BUCKETS) / of_nat JITTER_BUCKETS :: rat)"
  have "bucket seed nominal mod JITTER_BUCKETS \<le> JITTER_BUCKETS" by (simp add: JITTER_BUCKETS_def)
  then have f: "0 \<le> f" "f \<le> 1" unfolding f_def JITTER_BUCKETS_def by simp_all
  let ?x = "- (of_int b / 1000000) + f * (2 * (of_int b / 1000000)) :: rat"
  have "- of_int b \<le> ?x * 1000000" using f(1) assms by simp
  moreover have "?x * 1000000 \<le> of_int b" using f(2) assms mult_right_mono [of f 1 "2 * of_int b"] by simp
  ultimately have r: "- b \<le> round_half_even (?x * 1000000)" "round_half_even (?x * 1000000) \<le> b"
    by (auto intro: round_half_even_le round_half_even_ge)
  have "jitter_apply (\<lambda>x. x) bucket (of_int b / 1000000) seed nominal = nominal + round_half_even (?x * 1000000)"
    using False assms unfolding f_def
    by (simp add: jitter_apply_def jitter_offset_s_def round_to_def us_of_seconds_def Let_def mult.commute)
  then show ?thesis using r by simp
qed

end
