(* ===== verification/Policy_Rules.thy ===== *)
theory Policy_Rules
  imports Python_Text "HOL-Library.AList" "HOL-Library.List_Lexorder" "HOL-Library.Char_ord" "HOL-Library.Product_Lexorder"
begin

text \<open>
  The rule vocabulary of \<open>domain/policy.py\<close>: predicates over observed facts, rules, bundles with
  their inheritance, the verdict over them, and the collision graph between faults. Digests are the
  functions of the record \<open>Digests\<close>; what a message says beyond the rule it names is left out.
\<close>

section \<open>Facts and predicates\<close>

datatype PolicyDimension =
    DIM_ENVIRONMENT | DIM_TEAM | DIM_FAULT_FAMILY | DIM_RISK | DIM_TARGET | DIM_CAPABILITY | DIM_SCHEDULE
  | DIM_MAINTENANCE_WINDOW | DIM_DAMAGE_BUDGET | DIM_CLOUD_COST | DIM_APPROVAL_LEVEL | DIM_CONCURRENCY
  | DIM_DEPLOYMENT_STATE | DIM_INCIDENT_STATE

fun dimension_value :: "PolicyDimension \<Rightarrow> string" where
  "dimension_value DIM_ENVIRONMENT = ''environment''"
| "dimension_value DIM_TEAM = ''team''"
| "dimension_value DIM_FAULT_FAMILY = ''fault_family''"
| "dimension_value DIM_RISK = ''risk''"
| "dimension_value DIM_TARGET = ''target''"
| "dimension_value DIM_CAPABILITY = ''capability''"
| "dimension_value DIM_SCHEDULE = ''schedule''"
| "dimension_value DIM_MAINTENANCE_WINDOW = ''maintenance_window''"
| "dimension_value DIM_DAMAGE_BUDGET = ''damage_budget''"
| "dimension_value DIM_CLOUD_COST = ''cloud_cost''"
| "dimension_value DIM_APPROVAL_LEVEL = ''approval_level''"
| "dimension_value DIM_CONCURRENCY = ''concurrency''"
| "dimension_value DIM_DEPLOYMENT_STATE = ''deployment_state''"
| "dimension_value DIM_INCIDENT_STATE = ''incident_state''"

datatype PolicyEffect = EFFECT_ALLOW | EFFECT_DENY

datatype PolicyOperator = OP_IN | OP_NOT_IN | OP_ALL_IN | OP_EXACT | OP_AT_LEAST | OP_AT_MOST | OP_PRESENT | OP_ABSENT

definition numeric_operators :: "PolicyOperator set" where "numeric_operators = {OP_AT_LEAST, OP_AT_MOST}"
definition presence_operators :: "PolicyOperator set" where "presence_operators = {OP_PRESENT, OP_ABSENT}"

type_synonym PolicyFacts = "PolicyDimension \<Rightarrow> string list option"

definition observed :: "PolicyFacts \<Rightarrow> PolicyDimension \<Rightarrow> string set option" where
  "observed facts d = map_option set (facts d)"

definition with_values :: "PolicyFacts \<Rightarrow> PolicyDimension \<Rightarrow> string list \<Rightarrow> PolicyFacts" where
  "with_values facts d vs = facts(d \<mapsto> vs)"

record PolicyPredicate =
  pp_operator :: PolicyOperator
  pp_values :: "string list"

definition is_numeric :: "(rat \<Rightarrow> rat) \<Rightarrow> string \<Rightarrow> bool" where
  "is_numeric fl v \<longleftrightarrow> py_float fl v \<noteq> None"

definition predicate_validate :: "(rat \<Rightarrow> rat) \<Rightarrow> PolicyPredicate \<Rightarrow> py_error + PolicyPredicate" where
  "predicate_validate fl p =
     (if pp_operator p \<notin> presence_operators \<and> pp_values p = [] then Inl (InvariantViolation ''policy.predicate_values'')
      else if pp_operator p \<in> numeric_operators \<and> (length (pp_values p) \<noteq> 1 \<or> \<not> is_numeric fl (hd (pp_values p)))
      then Inl (InvariantViolation ''policy.predicate_values'')
      else Inr p)"

text \<open>\<open>sorted(observed)\<close> sorts the texts; the last of them that is a number is the one compared.\<close>

definition worst_number :: "(rat \<Rightarrow> rat) \<Rightarrow> string set \<Rightarrow> pyfloat option" where
  "worst_number fl obs =
     (case concat (map (\<lambda>v. case py_float fl v of None \<Rightarrow> [] | Some x \<Rightarrow> [x]) (sorted_list_of_set obs)) of
        [] \<Rightarrow> None | x # xs \<Rightarrow> Some (last (x # xs)))"

definition threshold_number :: "(rat \<Rightarrow> rat) \<Rightarrow> string list \<Rightarrow> pyfloat" where
  "threshold_number fl vs = (case vs of [] \<Rightarrow> PNan | v # _ \<Rightarrow> (case py_float fl v of None \<Rightarrow> PNan | Some x \<Rightarrow> x))"

definition at_least :: "(rat \<Rightarrow> rat) \<Rightarrow> string set \<Rightarrow> string list \<Rightarrow> bool" where
  "at_least fl obs vs \<longleftrightarrow> (case worst_number fl obs of None \<Rightarrow> False | Some w \<Rightarrow> pf_le (threshold_number fl vs) w)"

definition at_most :: "(rat \<Rightarrow> rat) \<Rightarrow> string set \<Rightarrow> string list \<Rightarrow> bool" where
  "at_most fl obs vs \<longleftrightarrow> (case worst_number fl obs of None \<Rightarrow> False | Some w \<Rightarrow> pf_le w (threshold_number fl vs))"

definition set_operator :: "(rat \<Rightarrow> rat) \<Rightarrow> PolicyOperator \<Rightarrow> string set \<Rightarrow> string list \<Rightarrow> bool" where
  "set_operator fl op obs vs =
     (case op of
        OP_IN \<Rightarrow> obs \<inter> set vs \<noteq> {}
      | OP_NOT_IN \<Rightarrow> obs \<inter> set vs = {}
      | OP_ALL_IN \<Rightarrow> obs \<subseteq> set vs
      | OP_EXACT \<Rightarrow> obs = set vs
      | OP_AT_LEAST \<Rightarrow> at_least fl obs vs
      | OP_AT_MOST \<Rightarrow> at_most fl obs vs
      | OP_PRESENT \<Rightarrow> False
      | OP_ABSENT \<Rightarrow> False)"

definition predicate_matches :: "(rat \<Rightarrow> rat) \<Rightarrow> PolicyPredicate \<Rightarrow> string set option \<Rightarrow> bool" where
  "predicate_matches fl p obs =
     (if pp_operator p = OP_PRESENT then obs \<noteq> None
      else if pp_operator p = OP_ABSENT then obs = None
      else case obs of None \<Rightarrow> False
      | Some vs \<Rightarrow> if vs = {} then False else set_operator fl (pp_operator p) vs (pp_values p))"

section \<open>Rules and bundles\<close>

record PolicyRule =
  rl_id :: string
  rl_dimension :: PolicyDimension
  rl_predicate :: PolicyPredicate
  rl_effect :: PolicyEffect
  rl_precedence :: int
  rl_reason :: string
  rl_remediation :: string

definition rule_matches :: "(rat \<Rightarrow> rat) \<Rightarrow> PolicyRule \<Rightarrow> PolicyFacts \<Rightarrow> bool" where
  "rule_matches fl r facts \<longleftrightarrow> predicate_matches fl (rl_predicate r) (observed facts (rl_dimension r))"

definition precedence_key :: "PolicyRule \<Rightarrow> int \<times> string \<times> string" where
  "precedence_key r = (- rl_precedence r, dimension_value (rl_dimension r), rl_id r)"

datatype CompatibilityVerdict = COMPAT_PERMITTED | COMPAT_CONFLICTING | COMPAT_CONDITIONALLY_SAFE

record CompatibilityCondition =
  cc_dimension :: PolicyDimension
  cc_values :: "string list"

definition condition_check :: "CompatibilityCondition \<Rightarrow> py_error + CompatibilityCondition" where
  "condition_check c = (if cc_values c = [] then Inl (InvariantViolation ''compat.empty_condition'') else Inr c)"

definition condition_holds :: "CompatibilityCondition \<Rightarrow> PolicyFacts \<Rightarrow> bool" where
  "condition_holds c facts \<longleftrightarrow>
     (case observed facts (cc_dimension c) of None \<Rightarrow> False | Some vs \<Rightarrow> vs \<inter> set (cc_values c) \<noteq> {})"

record CompatibilityEdge =
  ce_left :: string
  ce_right :: string
  ce_verdict :: CompatibilityVerdict
  ce_reason :: string
  ce_conditions :: "CompatibilityCondition list"

definition edge_validate :: "CompatibilityEdge \<Rightarrow> py_error + CompatibilityEdge" where
  "edge_validate e =
     (if ce_left e = [] \<or> ce_right e = [] then Inl ValueErr
      else if ce_left e = ce_right e then Inl (InvariantViolation ''compat.self_pair'')
      else if ce_verdict e = COMPAT_CONFLICTING \<and> ce_reason e = [] then Inl (InvariantViolation ''compat.reason_required'')
      else if ce_verdict e = COMPAT_CONDITIONALLY_SAFE \<and> ce_conditions e = []
      then Inl (InvariantViolation ''compat.conditions_required'')
      else Inr e)"

definition edge_pair :: "CompatibilityEdge \<Rightarrow> string set" where
  "edge_pair e = {ce_left e, ce_right e}"

record PolicyBundle =
  bn_id :: string
  bn_version :: nat
  bn_rules :: "PolicyRule list"
  bn_edges :: "CompatibilityEdge list"
  bn_parents :: "string list"
  bn_default :: PolicyEffect
  bn_created :: instant
  bn_expires :: "instant option"
  bn_pin :: "string option"

text \<open>The canonical digests: of a bundle without its pin, of a rule list, of facts, of a bare rule set.\<close>

record Digests =
  dg_bundle :: "PolicyBundle \<Rightarrow> string"
  dg_rules :: "PolicyRule list \<Rightarrow> string"
  dg_facts :: "PolicyFacts \<Rightarrow> string"
  dg_reference :: "string \<Rightarrow> nat \<Rightarrow> PolicyEffect \<Rightarrow> string \<Rightarrow> string"

definition compute_digest :: "Digests \<Rightarrow> PolicyBundle \<Rightarrow> string" where
  "compute_digest dg b = dg_bundle dg (b\<lparr>bn_pin := None\<rparr>)"

definition is_pinned :: "PolicyBundle \<Rightarrow> bool" where
  "is_pinned b \<longleftrightarrow> bn_pin b \<noteq> None"

definition pin_bundle :: "Digests \<Rightarrow> PolicyBundle \<Rightarrow> PolicyBundle" where
  "pin_bundle dg b = b\<lparr>bn_pin := Some (compute_digest dg b)\<rparr>"

definition verify_pin :: "Digests \<Rightarrow> PolicyBundle \<Rightarrow> py_error + unit" where
  "verify_pin dg b =
     (case bn_pin b of None \<Rightarrow> Inr ()
      | Some p \<Rightarrow> if p \<noteq> compute_digest dg b then Inl (InvariantViolation ''policy.bundle_digest_mismatch'') else Inr ())"

definition bundle_validate :: "Digests \<Rightarrow> PolicyBundle \<Rightarrow> py_error + PolicyBundle" where
  "bundle_validate dg b =
     (if bn_version b < 1 then Inl ValueErr
      else case verify_pin dg b of Inl e \<Rightarrow> Inl e
      | Inr _ \<Rightarrow> if (case bn_expires b of None \<Rightarrow> False | Some t \<Rightarrow> t \<le> bn_created b)
                then Inl (InvariantViolation ''policy.bundle_window'') else Inr b)"

definition bundle_is_expired :: "PolicyBundle \<Rightarrow> instant \<Rightarrow> bool" where
  "bundle_is_expired b now \<longleftrightarrow> (case bn_expires b of None \<Rightarrow> False | Some t \<Rightarrow> now \<ge> t)"

definition authorizes :: "PolicyBundle \<Rightarrow> instant \<Rightarrow> bool" where
  "authorizes b now \<longleftrightarrow> \<not> bundle_is_expired b now"

definition describes_pair :: "PolicyBundle \<Rightarrow> string \<Rightarrow> string \<Rightarrow> bool" where
  "describes_pair b x y \<longleftrightarrow> {x, y} \<in> edge_pair ` set (bn_edges b)"

section \<open>Inheritance\<close>

text \<open>The dict of resolved rules: a rule of a known id replaces the value and keeps its place.\<close>

definition put_rule :: "PolicyRule \<Rightarrow> (string \<times> PolicyRule) list \<Rightarrow> (string \<times> PolicyRule) list" where
  "put_rule r resolved = AList.update (rl_id r) r resolved"

definition put_rules :: "PolicyRule list \<Rightarrow> (string \<times> PolicyRule) list \<Rightarrow> (string \<times> PolicyRule) list" where
  "put_rules rs resolved = fold put_rule rs resolved"

type_synonym BundleIndex = "(string \<times> PolicyBundle) list"

definition open_ids :: "BundleIndex \<Rightarrow> string list \<Rightarrow> string set" where
  "open_ids ix stack = bn_id ` snd ` set ix - set stack"

lemma open_ids_finite [simp]: "finite (open_ids ix stack)"
  by (simp add: open_ids_def)

text \<open>
  Recursion ends because every call below the first looks at a bundle of the index whose id is not
  yet on the stack.
\<close>

function inherited_rules :: "BundleIndex \<Rightarrow> string list \<Rightarrow> PolicyBundle \<Rightarrow> py_error + PolicyRule list"
  and fold_parents :: "BundleIndex \<Rightarrow> string list \<Rightarrow> string list \<Rightarrow> (string \<times> PolicyRule) list
        \<Rightarrow> py_error + (string \<times> PolicyRule) list" where
  "inherited_rules ix stack b =
     (if bn_id b \<in> set stack then Inl (InvariantViolation ''policy.bundle_cycle'')
      else case fold_parents ix (stack @ [bn_id b]) (bn_parents b) [] of Inl e \<Rightarrow> Inl e
      | Inr resolved \<Rightarrow> Inr (map snd (put_rules (bn_rules b) resolved)))"
| "fold_parents ix stack [] resolved = Inr resolved"
| "fold_parents ix stack (p # ps) resolved =
     (case map_of ix p of None \<Rightarrow> Inl (InvariantViolation ''policy.bundle_parent_missing'')
      | Some q \<Rightarrow> (case inherited_rules ix stack q of Inl e \<Rightarrow> Inl e
                   | Inr rs \<Rightarrow> fold_parents ix stack ps (put_rules rs resolved)))"
  by pat_completeness auto
termination
proof (relation "measures
    [\<lambda>x. case x of Inl (ix, stack, b) \<Rightarrow> card (open_ids ix stack) + (if bn_id b \<in> bn_id ` snd ` set ix then 0 else 1)
                | Inr (ix, stack, ps, _) \<Rightarrow> card (open_ids ix stack),
     \<lambda>x. case x of Inl _ \<Rightarrow> 0 | Inr (_, _, ps, _) \<Rightarrow> Suc (length ps)]", goal_cases)
  case 1
  then show ?case by simp
next
  case (2 ix stack b)
  have eq: "open_ids ix (stack @ [bn_id b]) = open_ids ix stack - {bn_id b}" by (auto simp: open_ids_def)
  show ?case
  proof (cases "bn_id b \<in> bn_id ` snd ` set ix")
    case True
    with 2 have "bn_id b \<in> open_ids ix stack" by (simp add: open_ids_def)
    then have "card (open_ids ix stack - {bn_id b}) < card (open_ids ix stack)" by (intro psubset_card_mono) auto
    then show ?thesis using True by (simp add: eq)
  next
    case False
    then have "open_ids ix stack - {bn_id b} = open_ids ix stack" by (auto simp: open_ids_def)
    then show ?thesis using False by (simp add: eq)
  qed
next
  case (3 ix stack p ps resolved q)
  then have "bn_id q \<in> bn_id ` snd ` set ix" by (force dest: map_of_SomeD)
  then show ?case by simp
next
  case 4
  then show ?case by simp
qed

declare inherited_rules.simps [simp del]

definition resolve_precedence :: "PolicyRule list \<Rightarrow> PolicyRule list" where
  "resolve_precedence rs = sort_key precedence_key rs"

definition effective_rules :: "PolicyBundle \<Rightarrow> BundleIndex \<Rightarrow> py_error + PolicyRule list" where
  "effective_rules b ix =
     (case inherited_rules ix [] b of Inl e \<Rightarrow> Inl e | Inr rs \<Rightarrow> Inr (resolve_precedence rs))"

section \<open>The verdict\<close>

text \<open>What a reason names: the rule that spoke, the default, or the expiry of the bundle.\<close>

datatype PolicyReason = RULE_SPOKE string | DEFAULT_DENIES | BUNDLE_EXPIRED

record PolicyDecision =
  pv_allowed :: bool
  pv_reasons :: "PolicyReason list"
  pv_matched :: "string list"
  pv_bundle :: string
  pv_version :: nat
  pv_rule_digest :: string
  pv_policy_digest :: string
  pv_facts_digest :: string

definition denying :: "(rat \<Rightarrow> rat) \<Rightarrow> PolicyRule list \<Rightarrow> PolicyFacts \<Rightarrow> PolicyRule list" where
  "denying fl rs facts = filter (\<lambda>r. rule_matches fl r facts \<and> rl_effect r = EFFECT_DENY) rs"

definition allowing :: "(rat \<Rightarrow> rat) \<Rightarrow> PolicyRule list \<Rightarrow> PolicyFacts \<Rightarrow> PolicyRule list" where
  "allowing fl rs facts = filter (\<lambda>r. rule_matches fl r facts \<and> rl_effect r \<noteq> EFFECT_DENY) rs"

definition evaluate_rules ::
  "(rat \<Rightarrow> rat) \<Rightarrow> Digests \<Rightarrow> PolicyRule list \<Rightarrow> PolicyFacts \<Rightarrow> string \<Rightarrow> nat \<Rightarrow> PolicyEffect \<Rightarrow> string option
     \<Rightarrow> PolicyDecision" where
  "evaluate_rules fl dg rules facts bundle version fallback policy_digest =
     (let ordered = resolve_precedence rules;
          denies = denying fl ordered facts;
          allows = allowing fl ordered facts;
          rule_digest = dg_rules dg ordered;
          policy_ref = (if truthy policy_digest then the policy_digest else dg_reference dg bundle version fallback rule_digest);
          verdict = (\<lambda>ok reasons matched.
            \<lparr>pv_allowed = ok, pv_reasons = reasons, pv_matched = matched, pv_bundle = bundle, pv_version = version,
             pv_rule_digest = rule_digest, pv_policy_digest = policy_ref, pv_facts_digest = dg_facts dg facts\<rparr>)
      in if denies \<noteq> [] then verdict False (map (\<lambda>r. RULE_SPOKE (rl_id r)) denies) (map rl_id denies)
         else if fallback = EFFECT_DENY \<and> allows = [] then verdict False [DEFAULT_DENIES] []
         else verdict True (map (\<lambda>r. RULE_SPOKE (rl_id r)) allows) (map rl_id allows))"

definition evaluate_bundle ::
  "(rat \<Rightarrow> rat) \<Rightarrow> Digests \<Rightarrow> PolicyBundle \<Rightarrow> PolicyFacts \<Rightarrow> instant \<Rightarrow> BundleIndex \<Rightarrow> py_error + PolicyDecision" where
  "evaluate_bundle fl dg b facts now ix =
     (case effective_rules b ix of Inl e \<Rightarrow> Inl e
      | Inr rules \<Rightarrow>
          if \<not> authorizes b now
          then Inr \<lparr>pv_allowed = False, pv_reasons = [BUNDLE_EXPIRED], pv_matched = [], pv_bundle = bn_id b,
                    pv_version = bn_version b, pv_rule_digest = dg_rules dg rules,
                    pv_policy_digest = compute_digest dg b, pv_facts_digest = dg_facts dg facts\<rparr>
          else Inr (evaluate_rules fl dg rules facts (bn_id b) (bn_version b) (bn_default b) (Some (compute_digest dg b))))"

section \<open>The collision graph\<close>

record CompatibilityOutcome =
  co_verdict :: CompatibilityVerdict
  co_left :: string
  co_right :: string
  co_declared :: bool
  co_unsatisfied :: "string list"

definition outcome_safe :: "CompatibilityOutcome \<Rightarrow> bool" where
  "outcome_safe c \<longleftrightarrow> co_verdict c \<noteq> COMPAT_CONFLICTING"

definition outcome_conditional :: "CompatibilityOutcome \<Rightarrow> bool" where
  "outcome_conditional c \<longleftrightarrow> co_verdict c = COMPAT_CONDITIONALLY_SAFE"

definition compatibility_edge :: "CompatibilityEdge list \<Rightarrow> string \<Rightarrow> string \<Rightarrow> CompatibilityEdge option" where
  "compatibility_edge edges x y = find (\<lambda>e. edge_pair e = {x, y}) (sort_key (\<lambda>e. (ce_left e, ce_right e)) edges)"

definition evaluate_compatibility ::
  "CompatibilityEdge list \<Rightarrow> string \<Rightarrow> string \<Rightarrow> PolicyFacts \<Rightarrow> CompatibilityOutcome" where
  "evaluate_compatibility edges x y facts =
     (let outcome = (\<lambda>v declared unmet. \<lparr>co_verdict = v, co_left = x, co_right = y, co_declared = declared, co_unsatisfied = unmet\<rparr>)
      in case compatibility_edge edges x y of
           None \<Rightarrow> outcome COMPAT_PERMITTED False []
         | Some e \<Rightarrow>
             (case ce_verdict e of
                COMPAT_PERMITTED \<Rightarrow> outcome COMPAT_PERMITTED True []
              | COMPAT_CONFLICTING \<Rightarrow> outcome COMPAT_CONFLICTING True []
              | COMPAT_CONDITIONALLY_SAFE \<Rightarrow>
                  (let unmet = map (\<lambda>c. dimension_value (cc_dimension c)) (filter (\<lambda>c. \<not> condition_holds c facts) (ce_conditions e))
                   in if unmet \<noteq> [] then outcome COMPAT_CONFLICTING True unmet
                      else outcome COMPAT_CONDITIONALLY_SAFE True [])))"

section \<open>Inheritance, resolved\<close>

definition find_rule :: "string \<Rightarrow> PolicyRule list \<Rightarrow> PolicyRule option" where
  "find_rule i rs = find (\<lambda>r. rl_id r = i) rs"

definition keyed :: "(string \<times> PolicyRule) list \<Rightarrow> bool" where
  "keyed kv \<longleftrightarrow> distinct (map fst kv) \<and> (\<forall>(k, r)\<in>set kv. k = rl_id r)"

lemma keyed_put_rule: "keyed kv \<Longrightarrow> keyed (put_rule r kv)"
proof -
  have "\<forall>(k, v)\<in>set (AList.update (rl_id r) r kv). k = rl_id v" if "\<forall>(k, v)\<in>set kv. k = rl_id v"
    using that by (induction kv) auto
  then show "keyed kv \<Longrightarrow> keyed (put_rule r kv)"
    unfolding keyed_def put_rule_def by (simp add: distinct_update)
qed

lemma keyed_put_rules: "keyed kv \<Longrightarrow> keyed (put_rules rs kv)"
  unfolding put_rules_def by (induction rs arbitrary: kv) (simp_all add: keyed_put_rule)

lemma map_of_put_rules: "map_of (put_rules rs kv) i = or_else (find_rule i (rev rs)) (map_of kv i)"
  unfolding put_rules_def
  by (induction rs arbitrary: kv) (auto simp: put_rule_def update_conv find_rule_def find_append or_else_assoc)

lemma find_rule_keyed: "keyed kv \<Longrightarrow> find_rule i (map snd kv) = map_of kv i"
  by (induction kv) (auto simp: keyed_def find_rule_def)

lemma keyed_ids: "keyed kv \<Longrightarrow> distinct (map rl_id (map snd kv))"
proof -
  assume k: "keyed kv"
  have "map rl_id (map snd kv) = map fst kv" using k by (auto simp: keyed_def)
  moreover have "distinct (map fst kv)" using k by (simp add: keyed_def)
  ultimately show "distinct (map rl_id (map snd kv))" by (simp only:)
qed

lemma inherited_smaller_stack:
  "inherited_rules ix stack b = Inr rs \<Longrightarrow> set s \<subseteq> set stack \<Longrightarrow> inherited_rules ix s b = Inr rs"
  "fold_parents ix stack ps res = Inr out \<Longrightarrow> set s \<subseteq> set stack \<Longrightarrow> fold_parents ix s ps res = Inr out"
proof (induction ix stack b and ix stack ps res arbitrary: rs s and out s rule: inherited_rules_fold_parents.induct)
  case (1 ix stack b)
  from 1(2) obtain out where n: "bn_id b \<notin> set stack"
    and f: "fold_parents ix (stack @ [bn_id b]) (bn_parents b) [] = Inr out"
    and rs: "rs = map snd (put_rules (bn_rules b) out)"
    unfolding inherited_rules.simps [of ix stack b] by (simp split: if_splits sum.splits)
  have "fold_parents ix (s @ [bn_id b]) (bn_parents b) [] = Inr out"
    by (rule 1(1) [OF n f]) (use 1(3) in auto)
  moreover have "bn_id b \<notin> set s" using n 1(3) by blast
  ultimately show ?case unfolding inherited_rules.simps [of ix s b] rs by simp
next
  case (2 ix stack resolved)
  then show ?case by simp
next
  case (3 ix stack p ps resolved)
  from 3(3) obtain q rs where q: "map_of ix p = Some q" "inherited_rules ix stack q = Inr rs"
    "fold_parents ix stack ps (put_rules rs resolved) = Inr out"
    by (auto split: option.splits sum.splits)
  show ?case using 3(1) [OF q(1,2) 3(4)] 3(2) [OF q(1,2,3) 3(4)] q(1) by simp
qed

text \<open>What a parent named in \<open>parents\<close> brings: its own resolved rules.\<close>

definition rules_of :: "BundleIndex \<Rightarrow> string \<Rightarrow> PolicyRule list" where
  "rules_of ix p =
     (case map_of ix p of None \<Rightarrow> []
      | Some q \<Rightarrow> (case inherited_rules ix [] q of Inl _ \<Rightarrow> [] | Inr rs \<Rightarrow> rs))"

lemma fold_parents_keyed: "fold_parents ix stack ps res = Inr out \<Longrightarrow> keyed res \<Longrightarrow> keyed out"
  by (induction ps arbitrary: res) (auto split: option.splits sum.splits intro: keyed_put_rules)

lemma keyed_Nil [simp]: "keyed []"
  by (simp add: keyed_def)

lemma inherited_distinct: "inherited_rules ix stack b = Inr rs \<Longrightarrow> distinct (map rl_id rs)"
  by (auto simp: inherited_rules.simps [of ix stack] simp del: map_map split: if_splits sum.splits
      intro!: keyed_ids keyed_put_rules dest: fold_parents_keyed)

lemma find_rule_rev: "distinct (map rl_id rs) \<Longrightarrow> find_rule i (rev rs) = find_rule i rs"
proof (induction rs)
  case (Cons a rs)
  then have "find (\<lambda>r. rl_id r = rl_id a) rs = None" by (auto simp: find_None_iff image_iff)
  then show ?case using Cons by (auto simp: find_rule_def find_append)
qed simp

lemma fold_parents_lookup:
  "fold_parents ix stack ps res = Inr out \<Longrightarrow>
     map_of out i = or_else (first_some (map (\<lambda>p. find_rule i (rules_of ix p)) (rev ps))) (map_of res i)"
proof (induction ps arbitrary: res)
  case Nil
  then show ?case by simp
next
  case (Cons p ps)
  from Cons.prems obtain q rs where q: "map_of ix p = Some q" "inherited_rules ix stack q = Inr rs"
    "fold_parents ix stack ps (put_rules rs res) = Inr out"
    by (auto split: option.splits sum.splits)
  have "rules_of ix p = rs" using q(1) inherited_smaller_stack(1) [OF q(2), of "[]"] by (simp add: rules_of_def)
  moreover have "find_rule i (rev rs) = find_rule i rs" using inherited_distinct [OF q(2)] by (rule find_rule_rev)
  ultimately show ?case using Cons.IH [OF q(3)] by (simp add: map_of_put_rules first_some_append or_else_assoc)
qed

text \<open>
  The nearest declaration wins. A resolved bundle holds one rule per id; it is the last one the
  bundle itself declares under the id or, where it declares none, what the last of its parents that
  knows the id resolves it to, by the same rule.
\<close>

theorem inheritance_nearest_wins:
  assumes "inherited_rules ix [] b = Inr rs"
  shows "distinct (map rl_id rs)
    \<and> find_rule i rs = or_else (find_rule i (rev (bn_rules b)))
        (first_some (map (\<lambda>p. find_rule i (rules_of ix p)) (rev (bn_parents b))))"
proof -
  from assms obtain out where out: "fold_parents ix [bn_id b] (bn_parents b) [] = Inr out"
    "rs = map snd (put_rules (bn_rules b) out)"
    by (auto simp: inherited_rules.simps [of ix "[]"] split: sum.splits)
  have k: "keyed (put_rules (bn_rules b) out)"
    using fold_parents_keyed [OF out(1)] by (simp add: keyed_put_rules)
  show ?thesis
    unfolding out(2) find_rule_keyed [OF k] using keyed_ids [OF k] fold_parents_lookup [OF out(1), of i]
    by (simp add: map_of_put_rules)
qed

definition rule_on :: "string \<Rightarrow> PolicyEffect \<Rightarrow> string \<Rightarrow> PolicyRule" where
  "rule_on i e team =
     \<lparr>rl_id = i, rl_dimension = DIM_TEAM, rl_predicate = \<lparr>pp_operator = OP_IN, pp_values = [team]\<rparr>, rl_effect = e,
      rl_precedence = 0, rl_reason = [], rl_remediation = []\<rparr>"

definition bundle_of :: "string \<Rightarrow> PolicyRule list \<Rightarrow> string list \<Rightarrow> PolicyBundle" where
  "bundle_of i rs ps =
     \<lparr>bn_id = i, bn_version = 1, bn_rules = rs, bn_edges = [], bn_parents = ps, bn_default = EFFECT_DENY,
      bn_created = 0, bn_expires = Some 100, bn_pin = None\<rparr>"

definition family :: BundleIndex where
  "family =
     [(''base'', bundle_of ''base'' [rule_on ''r'' EFFECT_DENY ''a'', rule_on ''s'' EFFECT_ALLOW ''a''] []),
      (''mid'', bundle_of ''mid'' [rule_on ''r'' EFFECT_ALLOW ''b''] [''base''])]"

theorem inheritance_nearest_wins_witness:
  "\<exists>rs. inherited_rules family [] (bundle_of ''top'' [] [''base'', ''mid'']) = Inr rs
      \<and> find_rule ''r'' rs = Some (rule_on ''r'' EFFECT_ALLOW ''b'')"
proof -
  let ?b = "bundle_of ''top'' [] [''base'', ''mid'']"
  have "\<not> (case inherited_rules family [] ?b of Inl _ \<Rightarrow> True | Inr _ \<Rightarrow> False)" by code_simp
  then obtain rs where rs: "inherited_rules family [] ?b = Inr rs" by (cases "inherited_rules family [] ?b") auto
  have "or_else (find_rule ''r'' (rev (bn_rules ?b)))
     (first_some (map (\<lambda>p. find_rule ''r'' (rules_of family p)) (rev (bn_parents ?b)))) = Some (rule_on ''r'' EFFECT_ALLOW ''b'')"
    by code_simp
  then show ?thesis using inheritance_nearest_wins [OF rs, of "''r''"] rs by auto
qed

section \<open>Deny overrides allow\<close>

lemma set_resolve [simp]: "set (resolve_precedence rs) = set rs"
  by (simp add: resolve_precedence_def)

text \<open>The declarative verdict of a rule set: refused by any matching denial, else by default unless allowed.\<close>

definition permits :: "(rat \<Rightarrow> rat) \<Rightarrow> PolicyRule set \<Rightarrow> PolicyEffect \<Rightarrow> PolicyFacts \<Rightarrow> bool" where
  "permits fl rs fallback facts \<longleftrightarrow>
     (\<forall>r\<in>rs. rule_matches fl r facts \<longrightarrow> rl_effect r = EFFECT_ALLOW)
     \<and> (fallback = EFFECT_ALLOW \<or> (\<exists>r\<in>rs. rule_matches fl r facts))"

lemma not_deny: "x \<noteq> EFFECT_DENY \<longleftrightarrow> x = EFFECT_ALLOW"
  by (cases x) simp_all

lemma not_allow: "x \<noteq> EFFECT_ALLOW \<longleftrightarrow> x = EFFECT_DENY"
  by (cases x) simp_all

lemma evaluate_rules_decides:
  "pv_allowed (evaluate_rules fl dg rs facts b v fallback p) \<longleftrightarrow> permits fl (set rs) fallback facts"
  by (auto simp: evaluate_rules_def Let_def permits_def denying_def allowing_def filter_empty_conv not_deny)

lemma evaluate_rules_matched:
  "pv_matched (evaluate_rules fl dg rs facts b v fallback p) =
     map rl_id (filter (\<lambda>r. rule_matches fl r facts \<and>
       (rl_effect r = EFFECT_ALLOW \<longleftrightarrow> permits fl (set rs) fallback facts)) (resolve_precedence rs))"
proof -
  let ?o = "resolve_precedence rs"
  have d: "filter (\<lambda>r. rule_matches fl r facts \<and> rl_effect r \<noteq> EFFECT_ALLOW) ?o = denying fl ?o facts"
    by (simp add: denying_def not_allow)
  have a: "filter (\<lambda>r. rule_matches fl r facts \<and> rl_effect r = EFFECT_ALLOW) ?o = allowing fl ?o facts"
    by (simp add: allowing_def not_deny)
  consider (deny) "denying fl ?o facts \<noteq> []" | (clear) "denying fl ?o facts = []" by blast
  then show ?thesis
  proof cases
    case deny
    then have "\<not> permits fl (set rs) fallback facts"
      by (auto simp: permits_def denying_def filter_empty_conv not_deny)
    then show ?thesis using deny unfolding evaluate_rules_def by (simp add: Let_def d)
  next
    case clear
    show ?thesis
    proof (cases "permits fl (set rs) fallback facts")
      case True
      then have "\<not> (fallback = EFFECT_DENY \<and> allowing fl ?o facts = [])"
        by (auto simp: permits_def allowing_def filter_empty_conv not_deny)
      then show ?thesis using clear True unfolding evaluate_rules_def by (simp add: Let_def a)
    next
      case False
      then have "fallback = EFFECT_DENY \<and> allowing fl ?o facts = []"
        using clear by (auto simp: permits_def allowing_def denying_def filter_empty_conv not_deny not_allow)
      then show ?thesis using clear False unfolding evaluate_rules_def by (simp add: Let_def d)
    qed
  qed
qed

lemma bundle_verdict_of:
  assumes "evaluate_bundle fl dg b facts now ix = Inr d"
  shows "\<exists>rs. inherited_rules ix [] b = Inr rs
    \<and> (pv_allowed d \<longleftrightarrow> \<not> bundle_is_expired b now \<and> permits fl (set rs) (bn_default b) facts)
    \<and> (\<not> bundle_is_expired b now \<longrightarrow> set (pv_matched d) =
         rl_id ` {r \<in> set rs. rule_matches fl r facts \<and> (rl_effect r = EFFECT_ALLOW \<longleftrightarrow> pv_allowed d)})"
proof -
  obtain rs where rs: "inherited_rules ix [] b = Inr rs"
    using assms by (auto simp: evaluate_bundle_def effective_rules_def split: sum.splits)
  have d: "d = (if bundle_is_expired b now then
      \<lparr>pv_allowed = False, pv_reasons = [BUNDLE_EXPIRED], pv_matched = [], pv_bundle = bn_id b,
       pv_version = bn_version b, pv_rule_digest = dg_rules dg (resolve_precedence rs),
       pv_policy_digest = compute_digest dg b, pv_facts_digest = dg_facts dg facts\<rparr>
     else evaluate_rules fl dg (resolve_precedence rs) facts (bn_id b) (bn_version b) (bn_default b) (Some (compute_digest dg b)))"
    using assms by (auto simp: evaluate_bundle_def effective_rules_def authorizes_def rs)
  show ?thesis
  proof (intro exI [of _ rs] conjI impI)
    show "pv_allowed d \<longleftrightarrow> \<not> bundle_is_expired b now \<and> permits fl (set rs) (bn_default b) facts"
      unfolding d by (simp add: evaluate_rules_decides)
    show "set (pv_matched d) =
         rl_id ` {r \<in> set rs. rule_matches fl r facts \<and> (rl_effect r = EFFECT_ALLOW \<longleftrightarrow> pv_allowed d)}"
      if "\<not> bundle_is_expired b now"
      unfolding d using that by (simp add: evaluate_rules_decides evaluate_rules_matched)
  qed (rule rs)
qed

text \<open>
  C39. Deny overrides allow, and silence denies. A bundle that resolves allows facts exactly when it has
  not expired, no rule in force that matches them denies, and either its default allows or some rule
  matches; whatever precedence the rules claim, it only orders the report. The rules named are exactly
  the matching ones of the effect decided.
\<close>

theorem bundle_verdict:
  assumes "evaluate_bundle fl dg b facts now ix = Inr d"
  shows "\<exists>rs. inherited_rules ix [] b = Inr rs
    \<and> (pv_allowed d \<longleftrightarrow> \<not> bundle_is_expired b now \<and> permits fl (set rs) (bn_default b) facts)
    \<and> (\<not> bundle_is_expired b now \<longrightarrow> set (pv_matched d) =
         rl_id ` {r \<in> set rs. rule_matches fl r facts \<and> (rl_effect r = EFFECT_ALLOW \<longleftrightarrow> pv_allowed d)})"
  using assms by (rule bundle_verdict_of)

definition bare_digests :: Digests where
  "bare_digests = \<lparr>dg_bundle = (\<lambda>_. ''d''), dg_rules = (\<lambda>_. ''d''), dg_facts = (\<lambda>_. ''d''), dg_reference = (\<lambda>_ _ _ _. ''d'')\<rparr>"

theorem bundle_verdict_witness:
  "\<exists>d. evaluate_bundle (\<lambda>x. x) bare_digests (bundle_of ''top'' [] [''mid'']) [DIM_TEAM \<mapsto> [''b'']] 5 family = Inr d \<and> pv_allowed d"
proof -
  let ?b = "bundle_of ''top'' [] [''mid'']"
  have "\<not> (case evaluate_bundle (\<lambda>x. x) bare_digests ?b [DIM_TEAM \<mapsto> [''b'']] 5 family of Inl _ \<Rightarrow> True | Inr d \<Rightarrow> False)"
    by code_simp
  then obtain d where d: "evaluate_bundle (\<lambda>x. x) bare_digests ?b [DIM_TEAM \<mapsto> [''b'']] 5 family = Inr d"
    by (cases "evaluate_bundle (\<lambda>x. x) bare_digests ?b [DIM_TEAM \<mapsto> [''b'']] 5 family") auto
  have p: "case inherited_rules family [] ?b of Inl _ \<Rightarrow> False
     | Inr rs \<Rightarrow> list_all (\<lambda>r. rule_matches (\<lambda>x. x) r [DIM_TEAM \<mapsto> [''b'']] \<longrightarrow> rl_effect r = EFFECT_ALLOW) rs
         \<and> list_ex (\<lambda>r. rule_matches (\<lambda>x. x) r [DIM_TEAM \<mapsto> [''b'']]) rs" by code_simp
  have "\<not> bundle_is_expired ?b 5" by code_simp
  then show ?thesis
    using bundle_verdict [OF d] d p by (auto simp: permits_def list_all_iff list_ex_iff)
qed

section \<open>Fault pairs\<close>

lemma find_cases: "find P xs = Some x \<Longrightarrow> x \<in> set xs \<and> P x"
  by (induction xs) (auto split: if_splits)

text \<open>
  The collision graph can only tighten, and only by an edge it declares. With one edge per pair,
  the order a pair is asked in does not matter; it is unsafe exactly when the graph holds an edge of
  the pair that conflicts, or one that is conditional and some condition of which no observed value
  meets.
\<close>

theorem compatibility_decides:
  assumes "distinct (map edge_pair edges)"
  shows "outcome_safe (evaluate_compatibility edges x y facts) = outcome_safe (evaluate_compatibility edges y x facts)
    \<and> (\<not> outcome_safe (evaluate_compatibility edges x y facts) \<longleftrightarrow>
         (\<exists>e\<in>set edges. edge_pair e = {x, y} \<and>
            (ce_verdict e = COMPAT_CONFLICTING
             \<or> ce_verdict e = COMPAT_CONDITIONALLY_SAFE \<and> (\<exists>c\<in>set (ce_conditions e). \<not> condition_holds c facts))))"
proof
  have sym: "compatibility_edge edges x y = compatibility_edge edges y x"
    by (simp add: compatibility_edge_def insert_commute)
  then show "outcome_safe (evaluate_compatibility edges x y facts) = outcome_safe (evaluate_compatibility edges y x facts)"
    by (auto simp: evaluate_compatibility_def outcome_safe_def Let_def split: option.split CompatibilityVerdict.split)
  let ?bad = "\<lambda>e. ce_verdict e = COMPAT_CONFLICTING
     \<or> ce_verdict e = COMPAT_CONDITIONALLY_SAFE \<and> (\<exists>c\<in>set (ce_conditions e). \<not> condition_holds c facts)"
  show "\<not> outcome_safe (evaluate_compatibility edges x y facts) \<longleftrightarrow> (\<exists>e\<in>set edges. edge_pair e = {x, y} \<and> ?bad e)"
  proof (cases "compatibility_edge edges x y")
    case None
    then have "\<forall>e\<in>set edges. edge_pair e \<noteq> {x, y}" by (simp add: compatibility_edge_def find_None_iff)
    then show ?thesis by (auto simp: evaluate_compatibility_def outcome_safe_def None Let_def)
  next
    case (Some e)
    then have e: "e \<in> set edges" "edge_pair e = {x, y}"
      unfolding compatibility_edge_def by (auto dest: find_cases)
    have only: "f = e" if "f \<in> set edges" "edge_pair f = {x, y}" for f
      using assms that e unfolding distinct_map by (metis inj_onD)
    have "\<not> outcome_safe (evaluate_compatibility edges x y facts) \<longleftrightarrow> ?bad e"
      by (cases "ce_verdict e") (auto simp: evaluate_compatibility_def outcome_safe_def Some Let_def filter_empty_conv)
    also have "\<dots> \<longleftrightarrow> (\<exists>e\<in>set edges. edge_pair e = {x, y} \<and> ?bad e)" using e only by blast
    finally show ?thesis .
  qed
qed

definition edge_of :: "string \<Rightarrow> string \<Rightarrow> CompatibilityVerdict \<Rightarrow> CompatibilityEdge" where
  "edge_of x y v = \<lparr>ce_left = x, ce_right = y, ce_verdict = v, ce_reason = ''r'', ce_conditions = []\<rparr>"

theorem compatibility_decides_witness:
  "\<not> outcome_safe (evaluate_compatibility [edge_of ''b'' ''a'' COMPAT_CONFLICTING] ''a'' ''b'' Map.empty)"
proof -
  have "distinct (map edge_pair [edge_of ''b'' ''a'' COMPAT_CONFLICTING])" by simp
  from conjunct2 [OF compatibility_decides [OF this, of "''a''" "''b''" Map.empty]]
  show ?thesis by (auto simp: edge_of_def edge_pair_def)
qed

section \<open>Where the rules fall short of their text\<close>

text \<open>The largest observed number is the last in the order of the texts: 9 counts as larger than 10.\<close>

lemma float_of_small: "of_nat m < OVERFLOW \<Longrightarrow> float_of fl False m 0 = PFinite (fl (of_nat m))"
  by (simp add: float_of_def)

lemma float_texts [simp]: "py_float (\<lambda>x. x) ''9'' = Some (PFinite 9)" "py_float (\<lambda>x. x) ''10'' = Some (PFinite 10)"
proof -
  have "(9 :: rat) < OVERFLOW" "(10 :: rat) < OVERFLOW" by (simp_all add: OVERFLOW_def)
  then have "float_of (\<lambda>x. x) False 9 0 = PFinite 9" "float_of (\<lambda>x. x) False 10 0 = PFinite 10"
    using float_of_small [of 9] float_of_small [of 10] by simp_all
  then show "py_float (\<lambda>x. x) ''9'' = Some (PFinite 9)" "py_float (\<lambda>x. x) ''10'' = Some (PFinite 10)"
    by (simp_all add: py_float_def py_strip_def py_lower_def py_isspace_def py_sign_def py_exponent_def is_digit_def Let_def)
qed

lemma ten_below_nine:
  "predicate_matches (\<lambda>x. x) \<lparr>pp_operator = OP_AT_MOST, pp_values = [''9'']\<rparr> (Some {''9'', ''10''})
   \<and> \<not> predicate_matches (\<lambda>x. x) \<lparr>pp_operator = OP_AT_LEAST, pp_values = [''10'']\<rparr> (Some {''9'', ''10''})"
proof -
  have "sorted_list_of_set {''9'', ''10''} = [''10'', ''9'']" by code_simp
  then have "worst_number (\<lambda>x. x) {''9'', ''10''} = Some (PFinite 9)" by (simp add: worst_number_def)
  then show ?thesis
    by (simp add: predicate_matches_def set_operator_def at_most_def at_least_def threshold_number_def)
qed

text \<open>An expired bundle is refused only after its rules resolved; an unknown parent raises instead.\<close>

lemma expired_bundle_raises:
  "bundle_is_expired (bundle_of ''top'' [] [''gone'']) 200
   \<and> evaluate_bundle fl dg (bundle_of ''top'' [] [''gone'']) facts 200 [] = Inl (InvariantViolation ''policy.bundle_parent_missing'')"
  by (simp add: bundle_is_expired_def bundle_of_def evaluate_bundle_def effective_rules_def inherited_rules.simps)

text \<open>Two edges for one pair: the one whose left name sorts first decides, though the other conflicts.\<close>

lemma reversed_edge_hides_conflict:
  "outcome_safe (evaluate_compatibility [edge_of ''b'' ''a'' COMPAT_CONFLICTING, edge_of ''a'' ''b'' COMPAT_PERMITTED]
     ''a'' ''b'' Map.empty)"
  by code_simp

text \<open>\<open>NOT_IN\<close> does not match an observed but empty dimension either, though no value is in the list.\<close>

lemma observed_empty_matches_nothing:
  "\<not> predicate_matches fl \<lparr>pp_operator = OP_NOT_IN, pp_values = [''a'']\<rparr> (Some {})"
  by (simp add: predicate_matches_def)

end
