(* ===== verification/Budget_Tree.thy ===== *)
theory Budget_Tree
  imports Mayhem_Prelude "HOL-Library.Sublist"
begin

text \<open>
  The hierarchical damage budget of \<open>domain/policy.py\<close>: the tree of limits, a charge posted to a leaf
  and every level above it, and the ledger of posted charges folded back into an authored tree. Floats
  are rationals; every result of float arithmetic goes through \<open>fl\<close>.
\<close>

section \<open>Nodes\<close>

datatype BudgetScope = BUDGET_TEAM | BUDGET_ENVIRONMENT | BUDGET_SERVICE | BUDGET_EXPERIMENT | BUDGET_FAULT

fun scope_order :: "BudgetScope \<Rightarrow> nat" where
  "scope_order BUDGET_TEAM = 0"
| "scope_order BUDGET_ENVIRONMENT = 1"
| "scope_order BUDGET_SERVICE = 2"
| "scope_order BUDGET_EXPERIMENT = 3"
| "scope_order BUDGET_FAULT = 4"

fun next_scope :: "BudgetScope \<Rightarrow> BudgetScope option" where
  "next_scope BUDGET_TEAM = Some BUDGET_ENVIRONMENT"
| "next_scope BUDGET_ENVIRONMENT = Some BUDGET_SERVICE"
| "next_scope BUDGET_SERVICE = Some BUDGET_EXPERIMENT"
| "next_scope BUDGET_EXPERIMENT = Some BUDGET_FAULT"
| "next_scope BUDGET_FAULT = None"

definition DAMAGE_PRECISION :: nat where "DAMAGE_PRECISION = 6"

record BudgetCharge =
  bc_scope :: BudgetScope
  bc_key :: string
  bc_amount :: rat
  bc_before :: rat
  bc_after :: rat
  bc_limit :: "rat option"

definition bc_headroom :: "(rat \<Rightarrow> rat) \<Rightarrow> BudgetCharge \<Rightarrow> rat option" where
  "bc_headroom fl c = map_option (\<lambda>l. round_to fl DAMAGE_PRECISION (fl (l - bc_after c))) (bc_limit c)"

definition bc_exceeded :: "BudgetCharge \<Rightarrow> bool" where
  "bc_exceeded c \<longleftrightarrow> (case bc_limit c of None \<Rightarrow> False | Some l \<Rightarrow> bc_after c > l)"

datatype BudgetNode = BudgetNode
  (bd_scope: BudgetScope) (bd_key: string) (bd_limit: "rat option") (bd_spent: rat) (bd_children: "BudgetNode list")

fun check_children :: "BudgetScope \<Rightarrow> string list \<Rightarrow> BudgetNode list \<Rightarrow> py_error + unit" where
  "check_children s seen [] = Inr ()"
| "check_children s seen (c # cs) =
     (if bd_key c \<in> set seen then Inl (InvariantViolation ''budget.duplicate_child'')
      else if next_scope s \<noteq> Some (bd_scope c) then Inl (InvariantViolation ''budget.scope_order'')
      else check_children s (bd_key c # seen) cs)"

definition node_validate :: "BudgetNode \<Rightarrow> py_error + BudgetNode" where
  "node_validate n =
     (if bd_key n = [] then Inl (InvariantViolation ''budget.empty_key'')
      else if (case bd_limit n of None \<Rightarrow> False | Some l \<Rightarrow> l < 0) then Inl (InvariantViolation ''budget.damage_negative_limit'')
      else if bd_spent n < 0 then Inl (InvariantViolation ''budget.negative_spend'')
      else case check_children (bd_scope n) [] (bd_children n) of Inl e \<Rightarrow> Inl e | Inr _ \<Rightarrow> Inr n)"

definition bd_headroom :: "(rat \<Rightarrow> rat) \<Rightarrow> BudgetNode \<Rightarrow> rat option" where
  "bd_headroom fl n = map_option (\<lambda>l. round_to fl DAMAGE_PRECISION (fl (l - bd_spent n))) (bd_limit n)"

definition node_exhausted :: "BudgetNode \<Rightarrow> bool" where
  "node_exhausted n \<longleftrightarrow> (case bd_limit n of None \<Rightarrow> False | Some l \<Rightarrow> bd_spent n > l)"

fun is_exhausted :: "BudgetNode \<Rightarrow> bool" where
  "is_exhausted (BudgetNode s k l x cs) = (node_exhausted (BudgetNode s k l x cs) \<or> (\<exists>c\<in>set cs. is_exhausted c))"

definition budget_child :: "BudgetNode \<Rightarrow> BudgetScope \<Rightarrow> string \<Rightarrow> BudgetNode option" where
  "budget_child n s k =
     (if Some s \<noteq> next_scope (bd_scope n) then None
      else find (\<lambda>c. bd_scope c = s \<and> bd_key c = k) (bd_children n))"

fun budget_find :: "BudgetScope \<Rightarrow> string \<Rightarrow> BudgetNode \<Rightarrow> BudgetNode option" where
  "budget_find s k (BudgetNode s' k' l x cs) =
     (if s' = s \<and> k' = k then Some (BudgetNode s' k' l x cs) else first_some (map (budget_find s k) cs))"

definition down :: "BudgetNode \<Rightarrow> string \<Rightarrow> BudgetNode option" where
  "down n k = (case next_scope (bd_scope n) of None \<Rightarrow> None | Some s \<Rightarrow> budget_child n s k)"

text \<open>
  The walk of \<open>path\<close> from depth \<open>i\<close> on, standing on the node the keys so far named, or on none.
\<close>

fun walk_path :: "nat \<Rightarrow> BudgetNode option \<Rightarrow> string list \<Rightarrow> py_error + BudgetNode list" where
  "walk_path i n [] = Inl (InvariantViolation ''budget.path_missing'')"
| "walk_path i None (k # ks) = Inl (InvariantViolation ''budget.path_missing'')"
| "walk_path i (Some n) (k # ks) =
     (if i \<noteq> 0 \<and> scope_order (bd_scope n) \<noteq> i then Inl (InvariantViolation ''budget.path_order'')
      else if ks = [] then Inr [n]
      else case walk_path (i + 1) (down n (hd ks)) ks of Inl e \<Rightarrow> Inl e | Inr ns \<Rightarrow> Inr (n # ns))"

definition budget_path :: "BudgetNode \<Rightarrow> string list \<Rightarrow> py_error + BudgetNode list" where
  "budget_path t keys = walk_path 0 (Some t) keys"

section \<open>Charges\<close>

definition with_child :: "BudgetNode \<Rightarrow> BudgetNode \<Rightarrow> py_error + BudgetNode" where
  "with_child n c =
     (if next_scope (bd_scope n) \<noteq> Some (bd_scope c) then Inl (InvariantViolation ''budget.scope_order'')
      else if budget_child n (bd_scope c) (bd_key c) \<noteq> None then Inl (InvariantViolation ''budget.duplicate_child'')
      else Inr (BudgetNode (bd_scope n) (bd_key n) (bd_limit n) (bd_spent n) (bd_children n @ [c])))"

definition charged_to :: "(rat \<Rightarrow> rat) \<Rightarrow> rat \<Rightarrow> rat \<Rightarrow> rat" where
  "charged_to fl amount spent = round_to fl DAMAGE_PRECISION (fl (spent + amount))"

definition charge_node :: "(rat \<Rightarrow> rat) \<Rightarrow> rat \<Rightarrow> BudgetNode \<Rightarrow> BudgetNode \<times> BudgetCharge" where
  "charge_node fl amount n =
     (let after = charged_to fl amount (bd_spent n)
      in (BudgetNode (bd_scope n) (bd_key n) (bd_limit n) after (bd_children n),
          \<lparr>bc_scope = bd_scope n, bc_key = bd_key n, bc_amount = amount, bc_before = bd_spent n, bc_after = after,
           bc_limit = bd_limit n\<rparr>))"

text \<open>The first child that is the one charged gives way to its rebuilt form.\<close>

fun replace_child :: "BudgetNode \<Rightarrow> BudgetNode \<Rightarrow> BudgetNode list \<Rightarrow> BudgetNode list option" where
  "replace_child old new [] = None"
| "replace_child old new (c # cs) =
     (if bd_scope c = bd_scope old \<and> bd_key c = bd_key old then Some (new # cs)
      else map_option (\<lambda>ds. c # ds) (replace_child old new cs))"

fun rebuild :: "(rat \<Rightarrow> rat) \<Rightarrow> rat \<Rightarrow> BudgetNode list \<Rightarrow> py_error + BudgetNode" where
  "rebuild fl amount [] = Inl LookupErr"
| "rebuild fl amount [n] = Inr (fst (charge_node fl amount n))"
| "rebuild fl amount (n # m # ns) =
     (case rebuild fl amount (m # ns) of Inl e \<Rightarrow> Inl e
      | Inr r \<Rightarrow>
          (let parent = fst (charge_node fl amount n)
           in case replace_child m r (bd_children parent) of
                None \<Rightarrow> Inl (InvariantViolation ''budget.path_broken'')
              | Some cs \<Rightarrow> Inr (BudgetNode (bd_scope parent) (bd_key parent) (bd_limit parent) (bd_spent parent) cs)))"

definition post_charge ::
  "(rat \<Rightarrow> rat) \<Rightarrow> BudgetNode \<Rightarrow> string list \<Rightarrow> rat \<Rightarrow> py_error + (BudgetNode \<times> BudgetCharge list)" where
  "post_charge fl t keys amount =
     (if amount < 0 then Inl (InvariantViolation ''budget.negative_charge'')
      else case budget_path t keys of Inl e \<Rightarrow> Inl e
      | Inr ns \<Rightarrow> (case rebuild fl amount ns of Inl e \<Rightarrow> Inl e
                   | Inr t' \<Rightarrow> Inr (t', map (\<lambda>n. snd (charge_node fl amount n)) ns)))"

section \<open>The ledger of posted charges\<close>

record BudgetLedgerEntry =
  be_scope :: BudgetScope
  be_key :: string
  be_amount :: rat
  be_run :: string
  be_at :: instant

definition entry_validate :: "BudgetLedgerEntry \<Rightarrow> py_error + BudgetLedgerEntry" where
  "entry_validate e =
     (if be_key e = [] then Inl (InvariantViolation ''budget.empty_key'')
      else if be_amount e < 0 then Inl (InvariantViolation ''budget.negative_charge'')
      else Inr e)"

definition entry_from_charge :: "string \<Rightarrow> instant \<Rightarrow> BudgetCharge \<Rightarrow> BudgetLedgerEntry" where
  "entry_from_charge run now c =
     \<lparr>be_scope = bc_scope c, be_key = bc_key c, be_amount = bc_amount c, be_run = run, be_at = now\<rparr>"

definition posted_total :: "(rat \<Rightarrow> rat) \<Rightarrow> BudgetLedgerEntry list \<Rightarrow> BudgetScope \<Rightarrow> string \<Rightarrow> rat" where
  "posted_total fl es s k =
     foldl (\<lambda>acc e. if be_scope e = s \<and> be_key e = k then fl (acc + be_amount e) else acc) 0 es"

fun fold_node :: "(rat \<Rightarrow> rat) \<Rightarrow> (BudgetScope \<Rightarrow> string \<Rightarrow> rat) \<Rightarrow> BudgetNode \<Rightarrow> BudgetNode" where
  "fold_node fl posted (BudgetNode s k l x cs) =
     BudgetNode s k l (if posted s k \<noteq> 0 then charged_to fl (posted s k) x else x) (map (fold_node fl posted) cs)"

definition fold_spend :: "(rat \<Rightarrow> rat) \<Rightarrow> BudgetNode \<Rightarrow> BudgetLedgerEntry list \<Rightarrow> BudgetNode" where
  "fold_spend fl t es = fold_node fl (posted_total fl es) t"

section \<open>Addresses\<close>

text \<open>A node by the keys below the root that lead to it.\<close>

fun node_at :: "BudgetNode \<Rightarrow> string list \<Rightarrow> BudgetNode option" where
  "node_at n [] = Some n"
| "node_at n (k # ks) = (case down n k of None \<Rightarrow> None | Some c \<Rightarrow> node_at c ks)"

lemma down_Some: "down n k = Some c \<Longrightarrow> bd_key c = k \<and> next_scope (bd_scope n) = Some (bd_scope c) \<and> c \<in> set (bd_children n)"
  by (auto simp: down_def budget_child_def find_Some_iff split: option.splits if_splits)

lemma walk_path_nodes:
  "walk_path i (Some n) (k # ks) = Inr ns \<Longrightarrow>
     length ns = Suc (length ks) \<and> hd ns = n \<and> (\<forall>j\<le>length ks. node_at n (take j ks) = Some (ns ! j))"
proof (induction ks arbitrary: i n k ns)
  case Nil
  then show ?case by (auto split: if_splits)
next
  case (Cons a ks)
  then obtain ms where ms: "ns = n # ms" "walk_path (i + 1) (down n a) (a # ks) = Inr ms"
    by (auto split: if_splits sum.splits)
  then obtain c where c: "down n a = Some c" by (cases "down n a") auto
  have step: "length ms = Suc (length ks)" "hd ms = c" "\<forall>j\<le>length ks. node_at c (take j ks) = Some (ms ! j)"
    using Cons.IH [of "i + 1" c a ms] ms(2) unfolding c by blast+
  have "node_at n (take j (a # ks)) = Some (ns ! j)" if "j \<le> length (a # ks)" for j
    using that step(3) c by (cases j) (simp_all add: ms(1))
  then show ?case using step(1) by (simp add: ms(1))
qed

lemma walk_path_Cons:
  assumes "walk_path i (Some n) (k # a # ks) = Inr ns"
  obtains c ms where "ns = n # ms" "down n a = Some c" "walk_path (i + 1) (Some c) (a # ks) = Inr ms" "hd ms = c" "ms \<noteq> []"
proof -
  from assms obtain ms where ms: "ns = n # ms" "walk_path (i + 1) (down n a) (a # ks) = Inr ms"
    by (auto split: if_splits sum.splits)
  then obtain c where c: "down n a = Some c" by (cases "down n a") auto
  have "length ms = Suc (length ks) \<and> hd ms = c"
    using walk_path_nodes [of "i + 1" c a ks ms] ms(2) unfolding c by blast
  then show thesis using that [of ms c] ms c by (cases ms) auto
qed

lemma replace_child_find:
  assumes "bd_scope r = bd_scope m" "bd_key r = bd_key m"
  shows "replace_child m r cs = Some ds \<Longrightarrow>
    find (\<lambda>c. bd_scope c = s \<and> bd_key c = k) ds =
      (if s = bd_scope m \<and> k = bd_key m then Some r else find (\<lambda>c. bd_scope c = s \<and> bd_key c = k) cs)"
proof (induction cs arbitrary: ds)
  case (Cons c cs)
  then show ?case using assms by (auto split: if_splits)
qed simp

lemma replace_child_present: "m \<in> set cs \<Longrightarrow> replace_child m r cs \<noteq> None"
  by (induction cs) auto

definition level :: "BudgetNode \<Rightarrow> BudgetScope \<times> string \<times> rat option \<times> rat" where
  "level n = (bd_scope n, bd_key n, bd_limit n, bd_spent n)"

text \<open>The level a charge leaves at an address: those on the way to the leaf are charged.\<close>

definition charged_level ::
  "(rat \<Rightarrow> rat) \<Rightarrow> rat \<Rightarrow> bool \<Rightarrow> BudgetNode \<Rightarrow> BudgetScope \<times> string \<times> rat option \<times> rat" where
  "charged_level fl amount hit n =
     (bd_scope n, bd_key n, bd_limit n, if hit then charged_to fl amount (bd_spent n) else bd_spent n)"

lemma level_charged [simp]: "charged_level fl a False = level"
  by (simp add: fun_eq_iff level_def charged_level_def)

lemma down_same [simp]: "down (BudgetNode (bd_scope n) key l x (bd_children n)) a = down n a"
  by (simp add: down_def budget_child_def split: option.split)

lemma rebuild_effect:
  assumes "walk_path i (Some n) (k # ks) = Inr ns"
  shows "\<exists>t. rebuild fl amount ns = Inr t \<and> bd_scope t = bd_scope n \<and> bd_key t = bd_key n \<and>
    (\<forall>addr. map_option level (node_at t addr) = map_option (charged_level fl amount (prefix addr ks)) (node_at n addr))"
  using assms
proof (induction ks arbitrary: i n k ns)
  case Nil
  then have "ns = [n]" by (auto split: if_splits)
  moreover have "map_option level (node_at (fst (charge_node fl amount n)) addr) =
      map_option (charged_level fl amount (prefix addr [])) (node_at n addr)" for addr
    by (cases addr) (simp_all add: charge_node_def level_def charged_level_def Let_def)
  ultimately show ?case by (simp add: charge_node_def Let_def)
next
  case (Cons a ks)
  from walk_path_Cons [OF Cons.prems] obtain c ms where ms: "ns = n # ms" "down n a = Some c"
    "walk_path (i + 1) (Some c) (a # ks) = Inr ms" "hd ms = c" "ms \<noteq> []" .
  from Cons.IH [OF ms(3)] obtain r where r: "rebuild fl amount ms = Inr r" "bd_scope r = bd_scope c" "bd_key r = bd_key c"
    "\<forall>addr. map_option level (node_at r addr) = map_option (charged_level fl amount (prefix addr ks)) (node_at c addr)"
    by blast
  from ms(4,5) obtain rest where rest: "ms = c # rest" by (cases ms) auto
  note dn = down_Some [OF ms(2)]
  obtain ds where ds: "replace_child c r (bd_children n) = Some ds"
    using replace_child_present [of c "bd_children n" r] dn by auto
  let ?t = "BudgetNode (bd_scope n) (bd_key n) (bd_limit n) (charged_to fl amount (bd_spent n)) ds"
  have t: "rebuild fl amount ns = Inr ?t"
    unfolding ms(1) rest using r(1) ds by (simp add: rest charge_node_def Let_def)
  have dt: "down ?t k' = (if k' = a then Some r else down n k')" for k'
    using replace_child_find [OF r(2,3) ds] dn ms(2) by (auto simp: down_def budget_child_def)
  have "map_option level (node_at ?t addr) = map_option (charged_level fl amount (prefix addr (a # ks))) (node_at n addr)" for addr
  proof (cases addr)
    case Nil
    then show ?thesis by (simp add: level_def charged_level_def)
  next
    case (Cons k' addr')
    then show ?thesis using r(4) ms(2) by (simp add: dt split: option.split)
  qed
  then show ?case using t by simp
qed

text \<open>
  A charge lands on the named leaf and on every level above it, and nowhere else. When the path
  resolves, posting succeeds; it answers one charge per level, widest first, each with the spend found
  and the spend left; in the new tree exactly the nodes on the way to the leaf have the charged spend,
  and no node appears, disappears or changes its limit.
\<close>

theorem post_charge_effect:
  assumes "budget_path t (k # ks) = Inr ns" "0 \<le> amount"
  shows "\<exists>t' cs. post_charge fl t (k # ks) amount = Inr (t', cs)
    \<and> length cs = Suc (length ks)
    \<and> (\<forall>j\<le>length ks. \<exists>n. node_at t (take j ks) = Some n
          \<and> cs ! j = \<lparr>bc_scope = bd_scope n, bc_key = bd_key n, bc_amount = amount, bc_before = bd_spent n,
                    bc_after = charged_to fl amount (bd_spent n), bc_limit = bd_limit n\<rparr>)
    \<and> (\<forall>addr. map_option level (node_at t' addr) = map_option (charged_level fl amount (prefix addr ks)) (node_at t addr))"
proof -
  have w: "walk_path 0 (Some t) (k # ks) = Inr ns" using assms(1) by (simp add: budget_path_def)
  note nodes = walk_path_nodes [OF w]
  from rebuild_effect [OF w, of fl amount] obtain t' where t': "rebuild fl amount ns = Inr t'"
    "\<forall>addr. map_option level (node_at t' addr) = map_option (charged_level fl amount (prefix addr ks)) (node_at t addr)"
    by blast
  let ?cs = "map (\<lambda>n. snd (charge_node fl amount n)) ns"
  have "post_charge fl t (k # ks) amount = Inr (t', ?cs)"
    using assms t'(1) by (simp add: post_charge_def)
  moreover have "?cs ! j = \<lparr>bc_scope = bd_scope (ns ! j), bc_key = bd_key (ns ! j), bc_amount = amount,
      bc_before = bd_spent (ns ! j), bc_after = charged_to fl amount (bd_spent (ns ! j)), bc_limit = bd_limit (ns ! j)\<rparr>"
    if "j \<le> length ks" for j
    using that nodes by (simp add: charge_node_def Let_def)
  ultimately show ?thesis using nodes t'(2) by (intro exI [of _ t'] exI [of _ ?cs]) auto
qed

definition payments :: BudgetNode where
  "payments =
     BudgetNode BUDGET_TEAM ''payments'' (Some 600) 0
       [BudgetNode BUDGET_ENVIRONMENT ''prod'' (Some 300) 10
          [BudgetNode BUDGET_SERVICE ''checkout'' (Some 100) 0 []],
        BudgetNode BUDGET_ENVIRONMENT ''staging'' None 0
          [BudgetNode BUDGET_SERVICE ''checkout'' (Some 100) 0 []]]"

theorem post_charge_effect_witness:
  "\<exists>t'. map_option level (node_at t' [''prod'']) = Some (BUDGET_ENVIRONMENT, ''prod'', Some 300, 15)
      \<and> map_option level (node_at t' [''staging'']) = Some (BUDGET_ENVIRONMENT, ''staging'', None, 0)"
proof -
  have "\<not> (case budget_path payments [''payments'', ''prod'', ''checkout''] of Inl _ \<Rightarrow> True | Inr _ \<Rightarrow> False)" by code_simp
  then obtain ns where ns: "budget_path payments [''payments'', ''prod'', ''checkout''] = Inr ns"
    by (cases "budget_path payments [''payments'', ''prod'', ''checkout'']") auto
  have a: "0 \<le> (5 :: rat)" by simp
  have n: "map_option (charged_level (\<lambda>x. x) 5 True) (node_at payments [''prod'']) = Some (BUDGET_ENVIRONMENT, ''prod'', Some 300, 15)"
    "map_option level (node_at payments [''staging'']) = Some (BUDGET_ENVIRONMENT, ''staging'', None, 0)"
    by code_simp+
  have pre: "prefix [''prod''] [''prod'', ''checkout''] = True" "prefix [''staging''] [''prod'', ''checkout''] = False"
    by simp_all
  from post_charge_effect [OF ns a, of "\<lambda>x. x"] obtain t' where t':
    "\<forall>addr. map_option level (node_at t' addr) =
       map_option (charged_level (\<lambda>x. x) 5 (prefix addr [''prod'', ''checkout''])) (node_at payments addr)" by blast
  show ?thesis
    using spec [OF t', of "[''prod'']"] spec [OF t', of "[''staging'']"] unfolding pre level_charged n
    by (intro exI [of _ t'] conjI)
qed

section \<open>The ledger replays\<close>

text \<open>Spend counted in whole millionths: what every charge leaves, being rounded to six places.\<close>

definition micro :: "rat \<Rightarrow> bool" where
  "micro x \<longleftrightarrow> (\<exists>n. x = of_int n / 10 ^ 6)"

lemma micro_add: "micro x \<Longrightarrow> micro y \<Longrightarrow> micro (x + y)"
  unfolding micro_def by (metis add_divide_distrib of_int_add)

lemma micro_0 [simp]: "micro 0"
  by (auto simp: micro_def intro: exI [of _ 0])

lemma round_half_even_whole: "round_half_even (of_int n) = n"
  by (simp add: round_half_even_def)

lemma charged_to_micro: "micro x \<Longrightarrow> micro a \<Longrightarrow> charged_to (\<lambda>x. x) a x = x + a"
proof -
  assume "micro x" "micro a"
  then obtain n where n: "x + a = of_int n / 10 ^ 6" using micro_add micro_def by blast
  have "round_half_even ((x + a) * 10 ^ DAMAGE_PRECISION) = n"
    unfolding n using round_half_even_whole [of n] by (simp add: DAMAGE_PRECISION_def)
  then show ?thesis unfolding charged_to_def round_to_def using n by (simp add: DAMAGE_PRECISION_def)
qed

fun micro_tree :: "BudgetNode \<Rightarrow> bool" where
  "micro_tree (BudgetNode s k l x cs) = (micro x \<and> (\<forall>c\<in>set cs. micro_tree c))"

fun labels :: "BudgetNode \<Rightarrow> (BudgetScope \<times> string) list" where
  "labels (BudgetNode s k l x cs) = (s, k) # concat (map labels cs)"

text \<open>The tree with the spend of every node raised by what its label is owed.\<close>

fun bump :: "(BudgetScope \<Rightarrow> string \<Rightarrow> rat) \<Rightarrow> BudgetNode \<Rightarrow> BudgetNode" where
  "bump f (BudgetNode s k l x cs) = BudgetNode s k l (x + f s k) (map (bump f) cs)"

lemma fold_node_bump:
  "micro_tree t \<Longrightarrow> (\<And>s k. micro (f s k)) \<Longrightarrow> fold_node (\<lambda>x. x) f t = bump f t"
  by (induction t rule: micro_tree.induct) (simp add: charged_to_micro)

lemma bump_bump: "bump g (bump f t) = bump (\<lambda>s k. f s k + g s k) t"
  by (induction t rule: labels.induct) (simp add: add.assoc)

lemma bump_micro: "micro_tree t \<Longrightarrow> (\<And>s k. micro (f s k)) \<Longrightarrow> micro_tree (bump f t)"
  by (induction t rule: micro_tree.induct) (auto intro: micro_add)

lemma bump_labels [simp]: "labels (bump f t) = labels t"
  by (induction t rule: labels.induct) (simp add: comp_def cong: map_cong)

lemma bump_cong: "(\<And>s k. (s, k) \<in> set (labels t) \<Longrightarrow> f s k = g s k) \<Longrightarrow> bump f t = bump g t"
  by (induction t rule: labels.induct) auto

lemma bump_zero: "(\<And>s k. (s, k) \<in> set (labels t) \<Longrightarrow> f s k = 0) \<Longrightarrow> bump f t = t"
proof (induction t rule: labels.induct)
  case (1 s k l x cs)
  have "map (bump f) cs = cs" by (rule map_idI) (use 1 in auto)
  then show ?case using 1(2) by simp
qed

definition label_of :: "BudgetNode \<Rightarrow> BudgetScope \<times> string" where
  "label_of n = (bd_scope n, bd_key n)"

definition owed :: "(BudgetScope \<times> string) set \<Rightarrow> rat \<Rightarrow> BudgetScope \<Rightarrow> string \<Rightarrow> rat" where
  "owed ls a s k = (if (s, k) \<in> ls then a else 0)"

lemma label_in: "label_of n \<in> set (labels n)"
  by (cases n) (simp add: label_of_def)

lemma replace_child_bump:
  assumes "c \<in> set cs" "distinct (concat (map labels cs))" "set L \<subseteq> set (labels c)"
  shows "replace_child c (bump (owed (set L) a) c) cs = Some (map (bump (owed (set L) a)) cs)"
  using assms
proof (induction cs)
  case (Cons d cs)
  show ?case
  proof (cases "d = c")
    case True
    have "bump (owed (set L) a) e = e" if "e \<in> set cs" for e
    proof (rule bump_zero)
      fix s k assume "(s, k) \<in> set (labels e)"
      then have "(s, k) \<notin> set (labels c)" using Cons.prems(2) True that by auto
      then show "owed (set L) a s k = 0" using Cons.prems(3) by (auto simp: owed_def)
    qed
    then have "map (bump (owed (set L) a)) cs = cs" by (rule map_idI)
    then show ?thesis using True by simp
  next
    case False
    then have c: "c \<in> set cs" using Cons.prems(1) by simp
    have disj: "set (labels d) \<inter> set (labels c) = {}" using Cons.prems(2) c by auto
    have "label_of d \<noteq> label_of c" using disj label_in [of d] label_in [of c] by (metis disjoint_iff)
    moreover have "bump (owed (set L) a) d = d"
    proof (rule bump_zero)
      fix s k assume "(s, k) \<in> set (labels d)"
      then show "owed (set L) a s k = 0" using Cons.prems(3) disj by (auto simp: owed_def)
    qed
    ultimately show ?thesis using Cons.IH [OF c] Cons.prems(2,3) by (auto simp: label_of_def)
  qed
qed simp

lemma walk_labels:
  "walk_path i (Some n) (k # ks) = Inr ns \<Longrightarrow> distinct (labels n) \<Longrightarrow>
     set (map label_of ns) \<subseteq> set (labels n) \<and> distinct (map label_of ns)"
proof (induction ks arbitrary: i n k ns)
  case Nil
  then have "ns = [n]" by (auto split: if_splits)
  then show ?case using label_in by simp
next
  case (Cons a ks)
  from walk_path_Cons [OF Cons.prems(1)] obtain c ms where ms: "ns = n # ms" "down n a = Some c"
    "walk_path (i + 1) (Some c) (a # ks) = Inr ms" "hd ms = c" "ms \<noteq> []" .
  from down_Some [OF ms(2)] have c: "c \<in> set (bd_children n)" by simp
  obtain s key l x cs where n: "n = BudgetNode s key l x cs" by (cases n)
  have dc: "distinct (labels c)" "set (labels c) \<subseteq> set (concat (map labels cs))" "(s, key) \<notin> set (concat (map labels cs))"
    using Cons.prems(2) c by (auto simp: n distinct_concat_iff)
  from Cons.IH [OF ms(3) dc(1)] have "set (map label_of ms) \<subseteq> set (labels c)" "distinct (map label_of ms)" by auto
  moreover have "label_of n = (s, key)" "set (labels n) = insert (s, key) (set (concat (map labels cs)))"
    by (simp_all add: n label_of_def)
  ultimately show ?case using dc(2,3) unfolding ms(1) by auto
qed

lemma rebuild_bump:
  "walk_path i (Some n) (k # ks) = Inr ns \<Longrightarrow> distinct (labels n) \<Longrightarrow> micro_tree n \<Longrightarrow> micro a \<Longrightarrow>
     rebuild (\<lambda>x. x) a ns = Inr (bump (owed (set (map label_of ns)) a) n)"
proof (induction ks arbitrary: i n k ns)
  case Nil
  then have ns: "ns = [n]" by (auto split: if_splits)
  obtain s key l x cs where n: "n = BudgetNode s key l x cs" by (cases n)
  have "map (bump (owed {(s, key)} a)) cs = cs"
  proof (rule map_idI, rule bump_zero)
    fix c s' k' assume "c \<in> set cs" "(s', k') \<in> set (labels c)"
    then show "owed {(s, key)} a s' k' = 0" using Nil.prems(2) by (auto simp: n owed_def)
  qed
  moreover have "micro x" using Nil.prems(3) by (simp add: n)
  moreover have "owed {(s, key)} a s key = a" "label_of n = (s, key)" by (simp_all add: owed_def n label_of_def)
  ultimately show ?case
    using Nil.prems(4) by (simp add: ns n charge_node_def charged_to_micro Let_def)
next
  case (Cons b ks)
  from walk_path_Cons [OF Cons.prems(1)] obtain c ms where ms: "ns = n # ms" "down n b = Some c"
    "walk_path (i + 1) (Some c) (b # ks) = Inr ms" "hd ms = c" "ms \<noteq> []" .
  from ms(4,5) obtain rest where rest: "ms = c # rest" by (cases ms) auto
  obtain s key l x cs where n: "n = BudgetNode s key l x cs" by (cases n)
  have c: "c \<in> set cs" using down_Some [OF ms(2)] by (simp add: n)
  have dc: "distinct (labels c)" "distinct (concat (map labels cs))" "(s, key) \<notin> set (concat (map labels cs))" "micro_tree c" "micro x"
    using Cons.prems(2,3) c by (auto simp: n distinct_concat_iff)
  let ?L = "map label_of ms"
  have sub: "set ?L \<subseteq> set (labels c)" using walk_labels [OF ms(3) dc(1)] by simp
  have IH: "rebuild (\<lambda>x. x) a ms = Inr (bump (owed (set ?L) a) c)"
    using Cons.IH [OF ms(3) dc(1,4) Cons.prems(4)] .
  have top: "(s, key) \<notin> set ?L" using sub dc(3) c by auto
  have "map (bump (owed (set (map label_of ns)) a)) cs = map (bump (owed (set ?L) a)) cs"
  proof (rule map_cong [OF refl], rule bump_cong)
    fix d s' k' assume "d \<in> set cs" "(s', k') \<in> set (labels d)"
    then have "(s', k') \<noteq> (s, key)" using dc(3) by auto
    then show "owed (set (map label_of ns)) a s' k' = owed (set ?L) a s' k'"
      by (auto simp: ms(1) n label_of_def owed_def)
  qed
  moreover have "owed (set (map label_of ns)) a s key = a" by (simp add: ms(1) n label_of_def owed_def)
  ultimately show ?case
    using IH replace_child_bump [OF c dc(2) sub, of a] charged_to_micro [OF dc(5) Cons.prems(4)]
    by (simp add: ms(1) rest n charge_node_def Let_def del: map_eq_conv)
qed

lemma posted_total_sum:
  "posted_total (\<lambda>x. x) es s k = sum_list (map (\<lambda>e. if be_scope e = s \<and> be_key e = k then be_amount e else 0) es)"
proof -
  have "foldl (\<lambda>acc e. if be_scope e = s \<and> be_key e = k then acc + be_amount e else acc) b es =
     b + sum_list (map (\<lambda>e. if be_scope e = s \<and> be_key e = k then be_amount e else 0) es)" for b
    by (induction es arbitrary: b) simp_all
  then show ?thesis by (simp add: posted_total_def)
qed

lemma posted_total_append:
  "posted_total (\<lambda>x. x) (es @ fs) s k = posted_total (\<lambda>x. x) es s k + posted_total (\<lambda>x. x) fs s k"
  by (simp add: posted_total_sum)

lemma posted_total_charges:
  "distinct (map label_of ns) \<Longrightarrow>
   posted_total (\<lambda>x. x) (map (entry_from_charge run now) (map (\<lambda>n. snd (charge_node fl a n)) ns)) =
     owed (set (map label_of ns)) a"
proof (induction ns)
  case Nil
  then show ?case by (simp add: fun_eq_iff posted_total_def owed_def)
next
  case (Cons n ns)
  let ?e = "entry_from_charge run now (snd (charge_node fl a n))"
  have "posted_total (\<lambda>x. x) [?e] s k = (if (s, k) = label_of n then a else 0)" for s k
    by (auto simp: posted_total_def entry_from_charge_def charge_node_def label_of_def Let_def)
  then show ?case
    using Cons posted_total_append [of "[?e]"] by (auto simp: fun_eq_iff owed_def)
qed

text \<open>Charges posted one after the other, with the entries the commit appends for each.\<close>

definition post_step ::
  "(rat \<Rightarrow> rat) \<Rightarrow> string \<Rightarrow> instant \<Rightarrow> string list \<times> rat \<Rightarrow> BudgetNode \<times> BudgetLedgerEntry list
     \<Rightarrow> py_error + (BudgetNode \<times> BudgetLedgerEntry list)" where
  "post_step fl run now p s =
     (case post_charge fl (fst s) (fst p) (snd p) of Inl e \<Rightarrow> Inl e
      | Inr (t, cs) \<Rightarrow> Inr (t, snd s @ map (entry_from_charge run now) cs))"

lemma post_step_bump:
  assumes "post_step (\<lambda>x. x) run now (keys, a) (t, es) = Inr (t', es')" "distinct (labels t)" "micro_tree t" "micro a"
  shows "\<exists>f fs. t' = bump f t \<and> es' = es @ fs \<and> posted_total (\<lambda>x. x) fs = f \<and> (\<forall>s k. micro (f s k))"
proof -
  from assms(1) obtain ns where ns: "budget_path t keys = Inr ns" "rebuild (\<lambda>x. x) a ns = Inr t'"
    "es' = es @ map (entry_from_charge run now) (map (\<lambda>n. snd (charge_node (\<lambda>x. x) a n)) ns)"
    by (auto simp: post_step_def post_charge_def split: sum.splits if_splits)
  obtain k ks where keys: "keys = k # ks" using ns(1) by (cases keys) (simp_all add: budget_path_def)
  have w: "walk_path 0 (Some t) (k # ks) = Inr ns" using ns(1) by (simp only: budget_path_def keys)
  have t': "t' = bump (owed (set (map label_of ns)) a) t" using rebuild_bump [OF w assms(2-4)] ns(2) by simp
  have "distinct (map label_of ns)" using walk_labels [OF w assms(2)] by simp
  from posted_total_charges [OF this, of run now "\<lambda>x. x" a] show ?thesis
    using t' ns(3) assms(4) by (intro exI conjI) (auto simp: owed_def)
qed

lemma run_posts_bump:
  assumes "run_all (post_step (\<lambda>x. x) run now) posts (t, es0) = Inr (t', es)"
    and "distinct (labels t)" "micro_tree t" "\<forall>p\<in>set posts. micro (snd p)"
  shows "\<exists>f fs. t' = bump f t \<and> es = es0 @ fs \<and> posted_total (\<lambda>x. x) fs = f \<and> (\<forall>s k. micro (f s k))"
  using assms
proof (induction posts arbitrary: t es0)
  case Nil
  have "bump (\<lambda>_ _. 0) t = t" by (rule bump_zero) simp
  then show ?case using Nil by (auto simp: posted_total_def intro!: exI [of _ "\<lambda>_ _. 0"])
next
  case (Cons p posts)
  obtain keys a where p: "p = (keys, a)" by fastforce
  from Cons.prems(1) obtain t1 es1 where s1: "post_step (\<lambda>x. x) run now (keys, a) (t, es0) = Inr (t1, es1)"
    "run_all (post_step (\<lambda>x. x) run now) posts (t1, es1) = Inr (t', es)"
    by (auto simp: p split: sum.splits)
  have "micro a" using Cons.prems(4) by (simp add: p)
  from post_step_bump [OF s1(1) Cons.prems(2,3) this] obtain f fs where f: "t1 = bump f t" "es1 = es0 @ fs"
    "posted_total (\<lambda>x. x) fs = f" "\<forall>s k. micro (f s k)" by blast
  have "distinct (labels t1)" "micro_tree t1" "\<forall>p\<in>set posts. micro (snd p)"
    using Cons.prems(2,3,4) f(1,4) bump_micro by simp_all
  from Cons.IH [OF s1(2) this] obtain g gs where g: "t' = bump g t1" "es = es1 @ gs"
    "posted_total (\<lambda>x. x) gs = g" "\<forall>s k. micro (g s k)" by blast
  show ?case
  proof (intro exI conjI)
    show "t' = bump (\<lambda>s k. f s k + g s k) t" by (simp add: g(1) f(1) bump_bump)
    show "es = es0 @ (fs @ gs)" by (simp add: g(2) f(2))
    show "posted_total (\<lambda>x. x) (fs @ gs) = (\<lambda>s k. f s k + g s k)"
      by (simp add: fun_eq_iff posted_total_append f(3) g(3))
    show "\<forall>s k. micro (f s k + g s k)" using f(4) g(4) micro_add by blast
  qed
qed

lemma fold_spend_bump:
  assumes "micro_tree t" "\<forall>e\<in>set es. micro (be_amount e)"
  shows "fold_spend (\<lambda>x. x) t es = bump (posted_total (\<lambda>x. x) es) t"
    "micro (posted_total (\<lambda>x. x) es s k)"
proof -
  have m: "micro (posted_total (\<lambda>x. x) es s k)" for s k
    using assms(2) by (induction es) (auto simp: posted_total_sum intro: micro_add)
  then show "micro (posted_total (\<lambda>x. x) es s k)" .
  show "fold_spend (\<lambda>x. x) t es = bump (posted_total (\<lambda>x. x) es) t"
    unfolding fold_spend_def by (rule fold_node_bump [OF assms(1) m])
qed


text \<open>A team with two services, charged twice.\<close>

definition billing :: BudgetNode where
  "billing =
     BudgetNode BUDGET_TEAM ''billing'' (Some 600) 0
       [BudgetNode BUDGET_ENVIRONMENT ''prod'' (Some 300) 0
          [BudgetNode BUDGET_SERVICE ''api'' (Some 100) 0 [], BudgetNode BUDGET_SERVICE ''jobs'' None 0 []]]"


section \<open>Where labels meet\<close>

text \<open>
  An entry names a scope and a key, not a path: with a service of the same name under two
  environments, damage done in one is folded into the budget of the other.
\<close>

lemma same_name_shares_spend:
  "case post_charge (\<lambda>x. x) payments [''payments'', ''prod'', ''checkout''] 60 of Inl _ \<Rightarrow> False
   | Inr (t, cs) \<Rightarrow>
       map_option bd_spent (node_at t [''staging'', ''checkout'']) = Some 0
       \<and> map_option bd_spent (node_at (fold_spend (\<lambda>x. x) payments (map (entry_from_charge ''r'' 0) cs)) [''staging'', ''checkout''])
         = Some 60"
  by code_simp

text \<open>The first key of a path is never compared with the key of the root it is charged to.\<close>

lemma root_key_ignored: "post_charge fl t (k # ks) a = post_charge fl t (k' # ks) a"
  by (simp add: post_charge_def budget_path_def)

end
