(* ===== verification/Policy_Gate.thy ===== *)
theory Policy_Gate
  imports Policy_Rules Budget_Tree Run_Concurrency Safety_Gate
begin

text \<open>
  \<open>domain/policy_gate.py\<close>: the policy gate of a plan, a pure function of the plan and its inputs, and
  the commit that posts the plan's damage to the hierarchical ledger afterwards. The fault catalog is
  an argument, as are the interpreter's \<open>sum\<close> and \<open>str\<close> of floats; what a refusal says beyond the rules
  it names is left out.
\<close>

section \<open>Inputs\<close>

record PolicyGateInputs =
  pg_bundle :: PolicyBundle
  pg_now :: instant
  pg_index :: BundleIndex
  pg_locks :: "ResourceLock list"
  pg_resources :: "string list"
  pg_window_s :: rat
  pg_experiment :: string
  pg_run :: string
  pg_budget :: "BudgetNode option"
  pg_path :: "string list"
  pg_edges :: "CompatibilityEdge list"
  pg_quota :: "DamageQuota option"
  pg_observed :: PolicyFacts

definition gate_inputs_check :: "pydatetime \<Rightarrow> PolicyGateInputs \<Rightarrow> py_error + PolicyGateInputs" where
  "gate_inputs_check now i =
     (case require_aware ''policy.gate_naive_clock'' now of Inl e \<Rightarrow> Inl e
      | Inr t \<Rightarrow>
          if pg_resources i \<noteq> [] \<and> pg_experiment i = [] then Inl (InvariantViolation ''policy.gate_lock_identity'')
          else if pg_window_s i \<le> 0 then Inl (InvariantViolation ''policy.gate_lock_window'')
          else Inr (i\<lparr>pg_now := t\<rparr>))"

definition gate_with_now :: "PolicyGateInputs \<Rightarrow> instant \<Rightarrow> PolicyGateInputs" where
  "gate_with_now i now = i\<lparr>pg_now := now\<rparr>"

datatype ConfigDefect = PIN_DRIFTED | PARENT_MISSING | INHERITANCE_CYCLE | BUDGET_PATH_UNMAPPABLE | MALFORMED

definition config_defects :: "(string \<times> ConfigDefect) list" where
  "config_defects =
     [(''policy.bundle_digest_mismatch'', PIN_DRIFTED), (''policy.bundle_parent_missing'', PARENT_MISSING),
      (''policy.bundle_cycle'', INHERITANCE_CYCLE), (''policy.budget_path_missing'', BUDGET_PATH_UNMAPPABLE),
      (''budget.path_missing'', BUDGET_PATH_UNMAPPABLE), (''budget.path_order'', BUDGET_PATH_UNMAPPABLE),
      (''budget.scope_order'', MALFORMED), (''budget.duplicate_child'', MALFORMED), (''budget.negative_charge'', MALFORMED)]"

definition classify_defect :: "string \<Rightarrow> ConfigDefect" where
  "classify_defect rule = (case map_of config_defects rule of None \<Rightarrow> MALFORMED | Some d \<Rightarrow> d)"

text \<open>A defect with the rule of the invariant it was caught as; other exceptions are not caught.\<close>

definition defect_from_exception :: "py_error \<Rightarrow> py_error + (ConfigDefect \<times> string)" where
  "defect_from_exception e =
     (case e of InvariantViolation rule \<Rightarrow> Inr (classify_defect rule, rule) | _ \<Rightarrow> Inl e)"

definition detect_config_defect :: "Digests \<Rightarrow> PolicyGateInputs \<Rightarrow> py_error + (ConfigDefect \<times> string) option" where
  "detect_config_defect dg i =
     (case verify_pin dg (pg_bundle i) of
        Inl e \<Rightarrow> map_sum id Some (defect_from_exception e)
      | Inr _ \<Rightarrow> (case effective_rules (pg_bundle i) (pg_index i) of
                    Inl e \<Rightarrow> map_sum id Some (defect_from_exception e)
                  | Inr _ \<Rightarrow> Inr None))"

section \<open>Facts\<close>

datatype FaultCategory =
    CAT_PROCESS | CAT_CPU | CAT_MEMORY | CAT_STORAGE | CAT_NETWORK | CAT_CONTAINER | CAT_NODE | CAT_HTTP_API
  | CAT_DATABASE | CAT_LOAD | CAT_FUZZ | CAT_DNS | CAT_TLS | CAT_CLOCK | CAT_FD | CAT_DEPENDENCY | CAT_K8S

fun category_value :: "FaultCategory \<Rightarrow> string" where
  "category_value CAT_PROCESS = ''process''"
| "category_value CAT_CPU = ''cpu''"
| "category_value CAT_MEMORY = ''memory''"
| "category_value CAT_STORAGE = ''storage''"
| "category_value CAT_NETWORK = ''network''"
| "category_value CAT_CONTAINER = ''container''"
| "category_value CAT_NODE = ''node''"
| "category_value CAT_HTTP_API = ''http_api''"
| "category_value CAT_DATABASE = ''database''"
| "category_value CAT_LOAD = ''load''"
| "category_value CAT_FUZZ = ''fuzz''"
| "category_value CAT_DNS = ''dns''"
| "category_value CAT_TLS = ''tls''"
| "category_value CAT_CLOCK = ''clock''"
| "category_value CAT_FD = ''fd''"
| "category_value CAT_DEPENDENCY = ''dependency''"
| "category_value CAT_K8S = ''k8s''"

definition prefix_to_category :: "(string \<times> FaultCategory) list" where
  "prefix_to_category =
     [(''net'', CAT_NETWORK), (''cpu'', CAT_CPU), (''mem'', CAT_MEMORY), (''fs'', CAT_STORAGE), (''disk'', CAT_STORAGE),
      (''storage'', CAT_STORAGE), (''proc'', CAT_PROCESS), (''process'', CAT_PROCESS), (''container'', CAT_CONTAINER),
      (''node'', CAT_NODE), (''http'', CAT_HTTP_API), (''app'', CAT_HTTP_API), (''db'', CAT_DATABASE), (''load'', CAT_LOAD),
      (''fuzz'', CAT_FUZZ), (''dns'', CAT_DNS), (''tls'', CAT_TLS), (''clock'', CAT_CLOCK), (''fd'', CAT_FD),
      (''dependency'', CAT_DEPENDENCY), (''k8s'', CAT_K8S)]"

definition from_fault_id :: "string \<Rightarrow> py_error + FaultCategory" where
  "from_fault_id f =
     (case map_of prefix_to_category (takeWhile (\<lambda>c. c \<noteq> CHR ''.'') f) of
        None \<Rightarrow> Inl (SchemaInvalid ''fault_id'') | Some c \<Rightarrow> Inr c)"

definition family_of :: "string \<Rightarrow> string" where
  "family_of f = (case from_fault_id f of Inl _ \<Rightarrow> hd (py_split (CHR ''.'') 1 f) | Inr c \<Rightarrow> category_value c)"

fun context_value :: "ExecutionContext \<Rightarrow> string" where
  "context_value CTX_HOST = ''host''"
| "context_value CTX_CONTAINER = ''container''"
| "context_value CTX_PROCESS = ''process''"
| "context_value CTX_NETWORK_NAMESPACE = ''network_namespace''"
| "context_value CTX_REMOTE_HOST = ''remote_host''"
| "context_value CTX_REMOTE_CONTAINER = ''remote_container''"

definition sorted_unique :: "string list \<Rightarrow> string list" where
  "sorted_unique vs = sort (remdups vs)"

definition target_values :: "ExecutionPlan \<Rightarrow> string list" where
  "target_values plan = sorted_list_of_set (\<Union> (set (map target_ids (plan_faults plan))))"

definition fault_namespaces :: "PlannedFault \<Rightarrow> string list" where
  "fault_namespaces f =
     (case pf_loci_target f of None \<Rightarrow> [] | Some t \<Rightarrow> if py_startswith t ''network_namespace'' then [t] else [])
     @ (case pf_execution_context f of None \<Rightarrow> []
        | Some c \<Rightarrow> if c \<in> {CTX_NETWORK_NAMESPACE, CTX_PROCESS} then [context_value c] else [])
     @ filter (\<lambda>n. py_startswith n ''net'') (sorted_list_of_set (target_ids f))"

definition fault_permissions :: "PlannedFault \<Rightarrow> string list" where
  "fault_permissions f =
     (if list_ex (\<lambda>n. py_startswith n ''p-'' \<or> py_startswith n ''proc'') (sorted_list_of_set (target_ids f))
      then [''limit''] else [])"

definition capability_values :: "ExecutionPlan \<Rightarrow> string list" where
  "capability_values plan = sorted_unique
     (map (\<lambda>n. ''namespace:'' @ n) (concat (map fault_namespaces (plan_faults plan)))
      @ map (\<lambda>n. ''permission:'' @ n) (concat (map fault_permissions (plan_faults plan))))"

text \<open>The interpreter's arithmetic and the catalog, as the gate reads them.\<close>

record GateEnv =
  ge_fl :: "rat \<Rightarrow> rat"
  ge_sum :: "rat list \<Rightarrow> rat"
  ge_str :: "rat \<Rightarrow> string"
  ge_catalog :: fault_catalog
  ge_digests :: Digests

definition damage_amount :: "GateEnv \<Rightarrow> PlannedFault \<Rightarrow> rat" where
  "damage_amount env f = ge_fl env (pf_duration_s f * damage_weight (ge_catalog env) (pf_fault_id f))"

definition projected_damage_s :: "GateEnv \<Rightarrow> ExecutionPlan \<Rightarrow> rat" where
  "projected_damage_s env plan =
     round_to (ge_fl env) DAMAGE_PRECISION (ge_sum env (map (damage_amount env) (plan_faults plan)))"

definition derived_values :: "GateEnv \<Rightarrow> ExecutionPlan \<Rightarrow> PolicyGateInputs \<Rightarrow> string option \<Rightarrow> PolicyDimension \<Rightarrow> string list" where
  "derived_values env plan i environment d =
     (case d of
        DIM_ENVIRONMENT \<Rightarrow> (case environment of None \<Rightarrow> [] | Some e \<Rightarrow> [e])
      | DIM_TARGET \<Rightarrow> target_values plan
      | DIM_FAULT_FAMILY \<Rightarrow> sorted_unique (map (\<lambda>f. family_of (pf_fault_id f)) (plan_faults plan))
      | DIM_RISK \<Rightarrow> sorted_unique (map (\<lambda>f. risk_value (risk_of (ge_catalog env) (pf_fault_id f))) (plan_faults plan))
      | DIM_CAPABILITY \<Rightarrow> capability_values plan
      | DIM_CONCURRENCY \<Rightarrow> [py_str (int (length (plan_faults plan)))]
      | DIM_DAMAGE_BUDGET \<Rightarrow> if pg_budget i \<noteq> None then [ge_str env (projected_damage_s env plan)] else []
      | _ \<Rightarrow> [])"

definition derive_facts :: "GateEnv \<Rightarrow> ExecutionPlan \<Rightarrow> PolicyGateInputs \<Rightarrow> string option \<Rightarrow> PolicyFacts" where
  "derive_facts env plan i environment =
     (\<lambda>d. let vs = derived_values env plan i environment d in if vs \<noteq> [] then Some vs else pg_observed i d)"

section \<open>The preconditions\<close>

definition token_char :: "char \<Rightarrow> bool" where
  "token_char c \<longleftrightarrow> is_digit c \<or> (97 \<le> (of_char c :: nat) \<and> (of_char c :: nat) \<le> 122) \<or> c \<in> set ''._:-''"

definition lock_token :: "string \<Rightarrow> string" where
  "lock_token raw =
     (let cleaned = dropWhile (\<lambda>c. c \<in> set ''._:-'') (map (\<lambda>c. if token_char c then c else CHR ''-'') (py_lower raw))
      in if cleaned = [] then ''policy-lock''
         else take 128 (if token_char (hd cleaned) \<and> hd cleaned \<notin> set ''._:-'' then cleaned else ''lock-'' @ cleaned))"

definition gate_owner :: "ExecutionPlan \<Rightarrow> PolicyGateInputs \<Rightarrow> string" where
  "gate_owner plan i = (if pg_run i \<noteq> [] then pg_run i else plan_run_id plan)"

definition requested_lock :: "ExecutionPlan \<Rightarrow> PolicyGateInputs \<Rightarrow> string \<Rightarrow> ResourceLock" where
  "requested_lock plan i r =
     \<lparr>lk_id = lock_token (pg_experiment i @ ''.'' @ gate_owner plan i @ ''.'' @ r), lk_resource = r,
      lk_experiment = pg_experiment i, lk_owner = gate_owner plan i, lk_acquired = pg_now i,
      lk_expires = pg_now i + round_half_even (pg_window_s i * 1000000)\<rparr>"

fun lock_verdicts :: "ExecutionPlan \<Rightarrow> PolicyGateInputs \<Rightarrow> string list \<Rightarrow> py_error + LockVerdict list" where
  "lock_verdicts plan i [] = Inr []"
| "lock_verdicts plan i (r # rs) =
     (case lock_validate (requested_lock plan i r) of Inl e \<Rightarrow> Inl e
      | Inr l \<Rightarrow> (case lock_verdicts plan i rs of Inl e \<Rightarrow> Inl e
                  | Inr vs \<Rightarrow> Inr (acquire_lock (pg_locks i) l (pg_now i) # vs)))"

definition check_locks :: "ExecutionPlan \<Rightarrow> PolicyGateInputs \<Rightarrow> py_error + LockVerdict list" where
  "check_locks plan i = lock_verdicts plan i (sorted_unique (pg_resources i))"

definition scope_at :: "nat \<Rightarrow> py_error + BudgetScope" where
  "scope_at depth =
     (case find (\<lambda>s. scope_order s = depth)
        [BUDGET_TEAM, BUDGET_ENVIRONMENT, BUDGET_SERVICE, BUDGET_EXPERIMENT, BUDGET_FAULT] of
        None \<Rightarrow> Inl (InvariantViolation ''policy.budget_depth'') | Some s \<Rightarrow> Inr s)"

fun descend_from :: "nat \<Rightarrow> BudgetNode \<Rightarrow> string list \<Rightarrow> py_error + BudgetNode option" where
  "descend_from depth n [] = Inr (Some n)"
| "descend_from depth n (k # ks) =
     (case scope_at depth of Inl e \<Rightarrow> Inl e
      | Inr s \<Rightarrow> (case budget_child n s k of None \<Rightarrow> Inr None | Some c \<Rightarrow> descend_from (depth + 1) c ks))"

definition descend :: "BudgetNode \<Rightarrow> string list \<Rightarrow> py_error + BudgetNode option" where
  "descend t keys =
     (case keys of [] \<Rightarrow> Inr (Some t)
      | k # ks \<Rightarrow> if bd_key t \<noteq> k then Inr None else descend_from 1 t ks)"

text \<open>The longest prefix of the candidate that names a node, tried from length \<open>n\<close> down.\<close>

fun longest_prefix :: "BudgetNode \<Rightarrow> string list \<Rightarrow> nat \<Rightarrow> py_error + string list" where
  "longest_prefix tree candidate 0 = Inl (InvariantViolation ''policy.budget_path_missing'')"
| "longest_prefix tree candidate (Suc n) =
     (case descend tree (take (Suc n) candidate) of Inl e \<Rightarrow> Inl e
      | Inr (Some _) \<Rightarrow> Inr (take (Suc n) candidate)
      | Inr None \<Rightarrow> longest_prefix tree candidate n)"

definition chargeable_path :: "BudgetNode \<Rightarrow> string list \<Rightarrow> string \<Rightarrow> py_error + string list" where
  "chargeable_path tree keys leaf = longest_prefix tree (keys @ [leaf]) (Suc (length keys))"

definition step_amount :: "GateEnv \<Rightarrow> PlannedFault \<Rightarrow> rat" where
  "step_amount env f = round_to (ge_fl env) DAMAGE_PRECISION (damage_amount env f)"

fun charge_faults ::
  "GateEnv \<Rightarrow> string list \<Rightarrow> PlannedFault list \<Rightarrow> BudgetNode \<Rightarrow> py_error + (BudgetNode \<times> BudgetCharge list)" where
  "charge_faults env keys [] tree = Inr (tree, [])"
| "charge_faults env keys (f # fs) tree =
     (case chargeable_path tree keys (pf_fault_id f) of Inl e \<Rightarrow> Inl e
      | Inr path \<Rightarrow> (case post_charge (ge_fl env) tree path (step_amount env f) of Inl e \<Rightarrow> Inl e
      | Inr (tree', posted) \<Rightarrow> (case charge_faults env keys fs tree' of Inl e \<Rightarrow> Inl e
      | Inr (tree'', charges) \<Rightarrow> Inr (tree'', posted @ charges))))"

definition charge_plan ::
  "GateEnv \<Rightarrow> ExecutionPlan \<Rightarrow> PolicyGateInputs \<Rightarrow> BudgetNode \<Rightarrow> py_error + (BudgetNode \<times> BudgetCharge list)" where
  "charge_plan env plan i tree = charge_faults env (pg_path i) (plan_faults plan) tree"

definition probe_budget :: "GateEnv \<Rightarrow> ExecutionPlan \<Rightarrow> PolicyGateInputs \<Rightarrow> py_error + BudgetCharge list" where
  "probe_budget env plan i =
     (case pg_budget i of None \<Rightarrow> Inr []
      | Some tree \<Rightarrow> (case charge_plan env plan i tree of Inl e \<Rightarrow> Inl e | Inr (_, cs) \<Rightarrow> Inr cs))"

text \<open>The tree, the charges and the defect, on which nothing is charged.\<close>

definition charge_plan_safely ::
  "GateEnv \<Rightarrow> ExecutionPlan \<Rightarrow> PolicyGateInputs \<Rightarrow> BudgetNode
     \<Rightarrow> py_error + (BudgetNode \<times> BudgetCharge list \<times> (ConfigDefect \<times> string) option)" where
  "charge_plan_safely env plan i tree =
     (case charge_plan env plan i tree of
        Inl e \<Rightarrow> map_sum id (\<lambda>d. (tree, [], Some d)) (defect_from_exception e)
      | Inr (tree', cs) \<Rightarrow> Inr (tree', cs, None))"

definition probe_budget_safely ::
  "GateEnv \<Rightarrow> ExecutionPlan \<Rightarrow> PolicyGateInputs \<Rightarrow> py_error + (BudgetCharge list \<times> (ConfigDefect \<times> string) option)" where
  "probe_budget_safely env plan i =
     (case pg_budget i of None \<Rightarrow> Inr ([], None)
      | Some tree \<Rightarrow> map_sum id snd (charge_plan_safely env plan i tree))"

section \<open>Two budgets, one answer\<close>

datatype BudgetAuthority =
  AUTH_NONE | AUTH_BOTH_PERMIT | AUTH_HIERARCHY_PERMITS | AUTH_QUOTA_PERMITS | AUTH_HIERARCHY | AUTH_QUOTA | AUTH_BOTH_REFUSE

record HierarchyView =
  hv_configured :: bool
  hv_charges :: "BudgetCharge list"
  hv_breached :: "BudgetCharge list"

record QuotaView =
  qv_configured :: bool
  qv_charges :: "QuotaCharge list"
  qv_refusal :: "QuotaCharge option"

text \<open>A refusal by its rule id and the rule ids it rests on.\<close>

record PolicyRefusal =
  po_rule :: string
  po_rule_ids :: "string list"

record BudgetReconciliation =
  br_authority :: BudgetAuthority
  br_hierarchy :: HierarchyView
  br_quota :: QuotaView
  br_refusal :: "PolicyRefusal option"

fun quota_charges ::
  "GateEnv \<Rightarrow> DamageQuota \<Rightarrow> PlannedFault list \<Rightarrow> DamageLedger \<Rightarrow> QuotaCharge list" where
  "quota_charges env q [] led = []"
| "quota_charges env q (f # fs) led =
     (if target_ids f = {} then quota_charges env q fs led
      else let (c, led') = charge (ge_fl env) (ge_catalog env) q (pf_fault_id f) (pf_duration_s f) (target_ids f) led
           in if charge_exceeded c then [c] else c # quota_charges env q fs led')"

definition probe_quota :: "GateEnv \<Rightarrow> ExecutionPlan \<Rightarrow> PolicyGateInputs \<Rightarrow> QuotaView" where
  "probe_quota env plan i =
     (case pg_quota i of None \<Rightarrow> \<lparr>qv_configured = False, qv_charges = [], qv_refusal = None\<rparr>
      | Some q \<Rightarrow> (let cs = quota_charges env q (plan_faults plan) empty_ledger
                   in \<lparr>qv_configured = True, qv_charges = cs, qv_refusal = find charge_exceeded cs\<rparr>))"

definition budget_refusal_of :: "BudgetCharge list \<Rightarrow> QuotaCharge option \<Rightarrow> PolicyRefusal option" where
  "budget_refusal_of breached quota_refusal =
     (let rules = (if filter bc_exceeded breached \<noteq> [] then [''policy.damage_budget_exhausted''] else [])
                  @ (case quota_refusal of None \<Rightarrow> [] | Some c \<Rightarrow> [ch_rule c])
      in if rules = [] then None else Some \<lparr>po_rule = hd rules, po_rule_ids = rules\<rparr>)"

definition reconcile_budgets :: "HierarchyView \<Rightarrow> QuotaView \<Rightarrow> BudgetReconciliation" where
  "reconcile_budgets h q =
     (let refused_h = hv_breached h \<noteq> []; refused_q = qv_refusal q \<noteq> None
      in \<lparr>br_authority =
             (if refused_h \<and> refused_q then AUTH_BOTH_REFUSE
              else if refused_h then AUTH_HIERARCHY
              else if refused_q then AUTH_QUOTA
              else if \<not> hv_configured h \<and> \<not> qv_configured q then AUTH_NONE
              else if hv_configured h \<and> qv_configured q then AUTH_BOTH_PERMIT
              else if qv_configured q then AUTH_QUOTA_PERMITS
              else AUTH_HIERARCHY_PERMITS),
           br_hierarchy = h, br_quota = q, br_refusal = budget_refusal_of (hv_breached h) (qv_refusal q)\<rparr>)"

definition within_budget :: "BudgetReconciliation \<Rightarrow> bool" where
  "within_budget r \<longleftrightarrow> br_refusal r = None"

section \<open>Pairs and approvals\<close>

definition effective_compatibility :: "PolicyGateInputs \<Rightarrow> CompatibilityEdge list" where
  "effective_compatibility i =
     (let declared = bn_edges (pg_bundle i)
      in if pg_edges i = [] then declared
         else declared @ filter (\<lambda>e. edge_pair e \<notin> edge_pair ` set declared) (pg_edges i))"

fun pair_outcomes ::
  "CompatibilityEdge list \<Rightarrow> PolicyFacts \<Rightarrow> string list \<Rightarrow> string list \<Rightarrow> CompatibilityOutcome list" where
  "pair_outcomes edges facts seen [] = []"
| "pair_outcomes edges facts seen (f # fs) =
     map (\<lambda>earlier. evaluate_compatibility edges earlier f facts) (sorted_unique (filter (\<lambda>p. p \<noteq> f) seen))
     @ pair_outcomes edges facts (seen @ [f]) fs"

definition check_compatibility :: "ExecutionPlan \<Rightarrow> PolicyGateInputs \<Rightarrow> PolicyFacts \<Rightarrow> CompatibilityOutcome list" where
  "check_compatibility plan i facts =
     pair_outcomes (effective_compatibility i) facts [] (map pf_fault_id (plan_faults plan))"

record RequiredApproval =
  ra_level :: string
  ra_rule :: string

definition rule_approvals :: "(rat \<Rightarrow> rat) \<Rightarrow> PolicyFacts \<Rightarrow> PolicyRule \<Rightarrow> RequiredApproval list" where
  "rule_approvals fl facts r =
     (if rl_dimension r \<noteq> DIM_APPROVAL_LEVEL then []
      else if \<not> rule_matches fl r facts then []
      else map (\<lambda>l. \<lparr>ra_level = l, ra_rule = rl_id r\<rparr>)
             (filter (\<lambda>l. l \<notin> (case observed facts DIM_APPROVAL_LEVEL of None \<Rightarrow> {} | Some h \<Rightarrow> h)) (pp_values (rl_predicate r))))"

definition outstanding_approvals :: "(rat \<Rightarrow> rat) \<Rightarrow> PolicyRule list \<Rightarrow> PolicyFacts \<Rightarrow> RequiredApproval list" where
  "outstanding_approvals fl rules facts =
     sort_key (\<lambda>a. (ra_level a, ra_rule a)) (concat (map (rule_approvals fl facts) (resolve_precedence rules)))"

section \<open>Refusals\<close>

definition expiry_refusal :: "PolicyGateInputs \<Rightarrow> PolicyRefusal option" where
  "expiry_refusal i =
     (if authorizes (pg_bundle i) (pg_now i) then None
      else Some \<lparr>po_rule = ''policy.bundle_expired'', po_rule_ids = []\<rparr>)"

definition lock_refusal :: "LockVerdict list \<Rightarrow> PolicyRefusal option" where
  "lock_refusal vs =
     (case filter (\<lambda>v. \<not> lv_granted v) vs of [] \<Rightarrow> None
      | _ # _ \<Rightarrow> Some \<lparr>po_rule = ''policy.resource_lock_contended'', po_rule_ids = []\<rparr>)"

definition compatibility_refusal :: "CompatibilityOutcome list \<Rightarrow> PolicyRefusal option" where
  "compatibility_refusal os =
     (case filter (\<lambda>c. \<not> outcome_safe c) os of [] \<Rightarrow> None
      | _ # _ \<Rightarrow> Some \<lparr>po_rule = ''policy.compatibility_conflict'', po_rule_ids = []\<rparr>)"

definition decision_refusal :: "PolicyDecision \<Rightarrow> PolicyRefusal option" where
  "decision_refusal d =
     (if pv_allowed d then None else Some \<lparr>po_rule = ''policy.bundle_deny'', po_rule_ids = pv_matched d\<rparr>)"

definition config_refusal :: PolicyRefusal where
  "config_refusal = \<lparr>po_rule = ''policy.config_invalid'', po_rule_ids = []\<rparr>"

definition config_decision :: "PolicyGateInputs \<Rightarrow> PolicyDecision" where
  "config_decision i =
     \<lparr>pv_allowed = False, pv_reasons = [], pv_matched = [], pv_bundle = bn_id (pg_bundle i),
      pv_version = bn_version (pg_bundle i), pv_rule_digest = [], pv_policy_digest = [], pv_facts_digest = []\<rparr>"

section \<open>The gate\<close>

record PolicyGateResult =
  pr_decision :: PolicyDecision
  pr_facts :: PolicyFacts
  pr_refusal :: "PolicyRefusal option"
  pr_locks :: "LockVerdict list"
  pr_charges :: "BudgetCharge list"
  pr_compatibility :: "CompatibilityOutcome list"
  pr_approvals :: "RequiredApproval list"
  pr_simulated :: bool
  pr_budget :: "BudgetReconciliation option"
  pr_defect :: "(ConfigDefect \<times> string) option"

definition gate_result_allowed :: "PolicyGateResult \<Rightarrow> bool" where
  "gate_result_allowed r \<longleftrightarrow> pr_refusal r = None \<and> pv_allowed (pr_decision r)"

definition refused_by_config ::
  "GateEnv \<Rightarrow> ExecutionPlan \<Rightarrow> PolicyGateInputs \<Rightarrow> (ConfigDefect \<times> string) \<Rightarrow> string option \<Rightarrow> PolicyGateResult" where
  "refused_by_config env plan i defect environment =
     \<lparr>pr_decision = config_decision i, pr_facts = derive_facts env plan i environment, pr_refusal = Some config_refusal,
      pr_locks = [], pr_charges = [], pr_compatibility = [], pr_approvals = [], pr_simulated = False,
      pr_budget = None, pr_defect = Some defect\<rparr>"

text \<open>The result once the configuration is known to be readable.\<close>

definition budget_answer :: "GateEnv \<Rightarrow> ExecutionPlan \<Rightarrow> PolicyGateInputs \<Rightarrow> BudgetCharge list \<Rightarrow> BudgetReconciliation" where
  "budget_answer env plan i charges =
     reconcile_budgets
       \<lparr>hv_configured = (pg_budget i \<noteq> None), hv_charges = charges, hv_breached = filter bc_exceeded charges\<rparr>
       (probe_quota env plan i)"

definition decide_gate ::
  "GateEnv \<Rightarrow> ExecutionPlan \<Rightarrow> PolicyGateInputs \<Rightarrow> BudgetCharge list \<Rightarrow> string option \<Rightarrow> py_error + PolicyGateResult" where
  "decide_gate env plan i charges environment =
     (case effective_rules (pg_bundle i) (pg_index i) of Inl e \<Rightarrow> Inl e
      | Inr rules \<Rightarrow>
          (let facts = derive_facts env plan i environment
           in case evaluate_bundle (ge_fl env) (ge_digests env) (pg_bundle i) facts (pg_now i) (pg_index i) of Inl e \<Rightarrow> Inl e
           | Inr decision \<Rightarrow> (case check_locks plan i of Inl e \<Rightarrow> Inl e
           | Inr verdicts \<Rightarrow>
               (let outcomes = check_compatibility plan i facts;
                    budget = budget_answer env plan i charges
                in Inr \<lparr>pr_decision = decision, pr_facts = facts,
                        pr_refusal = first_some [expiry_refusal i, lock_refusal verdicts, br_refusal budget,
                                                compatibility_refusal outcomes, decision_refusal decision],
                        pr_locks = verdicts, pr_charges = charges, pr_compatibility = outcomes,
                        pr_approvals = outstanding_approvals (ge_fl env) rules facts, pr_simulated = False,
                        pr_budget = Some budget, pr_defect = None\<rparr>))))"

definition evaluate_gate ::
  "GateEnv \<Rightarrow> ExecutionPlan \<Rightarrow> PolicyGateInputs \<Rightarrow> string option \<Rightarrow> py_error + PolicyGateResult" where
  "evaluate_gate env plan i environment =
     (case detect_config_defect (ge_digests env) i of Inl e \<Rightarrow> Inl e
      | Inr (Some d) \<Rightarrow> Inr (refused_by_config env plan i d environment)
      | Inr None \<Rightarrow> (case probe_budget_safely env plan i of Inl e \<Rightarrow> Inl e
                     | Inr (_, Some d) \<Rightarrow> Inr (refused_by_config env plan i d environment)
                     | Inr (charges, None) \<Rightarrow> decide_gate env plan i charges environment))"

definition simulate_gate ::
  "GateEnv \<Rightarrow> ExecutionPlan \<Rightarrow> PolicyGateInputs \<Rightarrow> string option \<Rightarrow> py_error + PolicyGateResult" where
  "simulate_gate env plan i environment = map_sum id (\<lambda>r. r\<lparr>pr_simulated := True\<rparr>) (evaluate_gate env plan i environment)"

section \<open>The commit\<close>

definition persisted_budget :: "(rat \<Rightarrow> rat) \<Rightarrow> BudgetNode \<Rightarrow> BudgetLedgerEntry list \<Rightarrow> BudgetNode" where
  "persisted_budget fl tree ledger = fold_spend fl tree ledger"

record BudgetCommit =
  cm_charges :: "BudgetCharge list"
  cm_tree :: "BudgetNode option"
  cm_breached :: "BudgetCharge list"
  cm_entries :: nat
  cm_defect :: "(ConfigDefect \<times> string) option"
  cm_refusal :: "PolicyRefusal option"

definition commit_posted :: "BudgetCommit \<Rightarrow> bool" where
  "commit_posted c \<longleftrightarrow> cm_entries c > 0"

definition empty_commit :: BudgetCommit where
  "empty_commit = \<lparr>cm_charges = [], cm_tree = None, cm_breached = [], cm_entries = 0, cm_defect = None, cm_refusal = None\<rparr>"

text \<open>A ledger is the list of its entries in the order they were appended.\<close>

definition commit_budget ::
  "GateEnv \<Rightarrow> ExecutionPlan \<Rightarrow> PolicyGateInputs \<Rightarrow> BudgetLedgerEntry list
     \<Rightarrow> py_error + (BudgetCommit \<times> BudgetLedgerEntry list)" where
  "commit_budget env plan i ledger =
     (case pg_budget i of None \<Rightarrow> Inr (empty_commit, ledger)
      | Some mounted \<Rightarrow>
          (case charge_plan_safely env plan i (persisted_budget (ge_fl env) mounted ledger) of Inl e \<Rightarrow> Inl e
           | Inr (tree, _, Some d) \<Rightarrow>
               Inr (empty_commit\<lparr>cm_tree := Some tree, cm_defect := Some d, cm_refusal := Some config_refusal\<rparr>, ledger)
           | Inr (tree, charges, None) \<Rightarrow>
               Inr (\<lparr>cm_charges = charges, cm_tree = Some tree, cm_breached = filter bc_exceeded charges,
                     cm_entries = length charges, cm_defect = None,
                     cm_refusal = budget_refusal_of (filter bc_exceeded charges) None\<rparr>,
                    ledger @ map (entry_from_charge (gate_owner plan i) (pg_now i)) charges)))"

end
