(* ===== verification/Policy_Laws.thy ===== *)
theory Policy_Laws
  imports Policy_Gate Safety_Admission
begin

text \<open>
  What the policy gate promises: when it lets a plan through and on what it refuses, what a plan the
  safety gate accepted under it satisfies, and that a commit carries the spend of a plan to the next;
  and where an approval requirement stays silent.
\<close>

section \<open>The gate decides\<close>

lemma refusal_iff: "(case xs of [] \<Rightarrow> None | _ # _ \<Rightarrow> Some a) = None \<longleftrightarrow> xs = []"
  by (cases xs) simp_all

lemma acquire_lock_granted:
  "lv_granted (acquire_lock locks l now) \<longleftrightarrow> (\<forall>m\<in>set locks. lock_is_live m now \<longrightarrow> \<not> lock_conflicts m l)"
proof -
  have "lv_granted (acquire_lock locks l now) \<longleftrightarrow> blocking_locks locks l now = []"
    by (cases "blocking_locks locks l now") (simp_all add: acquire_lock_def)
  also have "\<dots> \<longleftrightarrow> filter (\<lambda>m. lock_is_live m now \<and> lock_conflicts m l) locks = []"
    unfolding blocking_locks_def sort_key_Nil_iff ..
  finally show ?thesis by (auto simp: filter_empty_conv)
qed

lemma lock_verdicts_granted:
  "lock_verdicts plan i rs = Inr vs \<Longrightarrow>
     filter (\<lambda>v. \<not> lv_granted v) vs = [] \<longleftrightarrow>
     (\<forall>r\<in>set rs. \<forall>l\<in>set (pg_locks i). lock_is_live l (pg_now i) \<longrightarrow> \<not> lock_conflicts l (requested_lock plan i r))"
proof (induction rs arbitrary: vs)
  case Nil
  then show ?case by simp
next
  case (Cons r rs)
  from Cons.prems obtain l ws where l: "lock_validate (requested_lock plan i r) = Inr l"
    "lock_verdicts plan i rs = Inr ws" "vs = acquire_lock (pg_locks i) l (pg_now i) # ws"
    by (auto split: sum.splits)
  have "l = requested_lock plan i r" using l(1) by (auto simp: lock_validate_def split: if_splits)
  then show ?case using Cons.IH [OF l(2)] by (simp add: l(3) acquire_lock_granted)
qed

definition locks_free :: "ExecutionPlan \<Rightarrow> PolicyGateInputs \<Rightarrow> bool" where
  "locks_free plan i \<longleftrightarrow>
     (\<forall>r\<in>set (pg_resources i). \<forall>l\<in>set (pg_locks i). lock_is_live l (pg_now i) \<longrightarrow> \<not> lock_conflicts l (requested_lock plan i r))"

lemma lock_refusal_None:
  "check_locks plan i = Inr vs \<Longrightarrow> lock_refusal vs = None \<longleftrightarrow> locks_free plan i"
  using lock_verdicts_granted [of plan i "sorted_unique (pg_resources i)" vs]
  by (simp add: check_locks_def lock_refusal_def refusal_iff locks_free_def sorted_unique_def)

lemma pair_outcomes_all:
  "list_all P (pair_outcomes edges facts seen fs) \<longleftrightarrow>
     (\<forall>j<length fs. \<forall>a\<in>set (seen @ take j fs). a \<noteq> fs ! j \<longrightarrow> P (evaluate_compatibility edges a (fs ! j) facts))"
proof (induction fs arbitrary: seen)
  case Nil
  then show ?case by simp
next
  case (Cons f fs)
  have "list_all P (pair_outcomes edges facts seen (f # fs)) \<longleftrightarrow>
      (\<forall>a\<in>set seen. a \<noteq> f \<longrightarrow> P (evaluate_compatibility edges a f facts))
      \<and> (\<forall>j<length fs. \<forall>a\<in>set ((seen @ [f]) @ take j fs). a \<noteq> fs ! j \<longrightarrow> P (evaluate_compatibility edges a (fs ! j) facts))"
    using Cons.IH [of "seen @ [f]"] by (auto simp: list_all_iff sorted_unique_def)
  then show ?case by (auto simp: All_less_Suc2)
qed

definition pairs_safe :: "ExecutionPlan \<Rightarrow> PolicyGateInputs \<Rightarrow> PolicyFacts \<Rightarrow> bool" where
  "pairs_safe plan i facts \<longleftrightarrow>
     (let ids = map pf_fault_id (plan_faults plan)
      in \<forall>j<length ids. \<forall>a\<in>set (take j ids). a \<noteq> ids ! j \<longrightarrow>
           outcome_safe (evaluate_compatibility (effective_compatibility i) a (ids ! j) facts))"

lemma compatibility_refusal_None: "compatibility_refusal (check_compatibility plan i facts) = None \<longleftrightarrow> pairs_safe plan i facts"
proof -
  have "compatibility_refusal os = None \<longleftrightarrow> list_all outcome_safe os" for os
    by (simp add: compatibility_refusal_def refusal_iff list_all_iff filter_empty_conv)
  then show ?thesis
    by (simp only: check_compatibility_def pair_outcomes_all pairs_safe_def Let_def append_Nil)
qed

lemma quota_charge_rule: "find charge_exceeded cs = Some c \<Longrightarrow> ch_rule c \<noteq> []"
  by (auto simp: find_Some_iff charge_exceeded_def)

lemma budget_answer_None:
  "br_refusal (budget_answer env plan i charges) = None \<longleftrightarrow>
     list_all (\<lambda>c. \<not> bc_exceeded c) charges \<and> qv_refusal (probe_quota env plan i) = None"
  by (auto simp: budget_answer_def reconcile_budgets_def budget_refusal_of_def list_all_iff filter_empty_conv Let_def
      split: option.split)

lemma first_some_None: "first_some xs = None \<longleftrightarrow> (\<forall>x\<in>set xs. x = None)"
proof (induction xs)
  case (Cons x xs)
  then show ?case by (cases x) auto
qed simp

text \<open>What it takes to pass: a readable configuration, and each of the five questions answered well.\<close>

definition policy_satisfied ::
  "GateEnv \<Rightarrow> ExecutionPlan \<Rightarrow> PolicyGateInputs \<Rightarrow> string option \<Rightarrow> bool" where
  "policy_satisfied env plan i environment \<longleftrightarrow>
     verify_pin (ge_digests env) (pg_bundle i) = Inr ()
     \<and> (\<exists>rules. inherited_rules (pg_index i) [] (pg_bundle i) = Inr rules
          \<and> permits (ge_fl env) (set rules) (bn_default (pg_bundle i)) (derive_facts env plan i environment))
     \<and> (\<exists>charges. probe_budget env plan i = Inr charges \<and> list_all (\<lambda>c. \<not> bc_exceeded c) charges)
     \<and> \<not> bundle_is_expired (pg_bundle i) (pg_now i)
     \<and> locks_free plan i
     \<and> qv_refusal (probe_quota env plan i) = None
     \<and> pairs_safe plan i (derive_facts env plan i environment)"

lemma defect_of_detect:
  "detect_config_defect dg i = Inr None \<longleftrightarrow>
     verify_pin dg (pg_bundle i) = Inr () \<and> (\<exists>rules. inherited_rules (pg_index i) [] (pg_bundle i) = Inr rules)"
  by (auto simp: detect_config_defect_def effective_rules_def defect_from_exception_def split: sum.splits py_error.splits)

lemma probe_safely:
  "probe_budget_safely env plan i = Inr (charges, None) \<longleftrightarrow> probe_budget env plan i = Inr charges"
  by (auto simp: probe_budget_safely_def probe_budget_def charge_plan_safely_def defect_from_exception_def
      split: option.splits sum.splits py_error.splits)

lemma config_refuses: "\<not> gate_result_allowed (refused_by_config env plan i d environment)"
  by (simp add: gate_result_allowed_def refused_by_config_def)

lemma decide_gate_allows:
  assumes "decide_gate env plan i charges environment = Inr r"
    and "inherited_rules (pg_index i) [] (pg_bundle i) = Inr rules"
  shows "gate_result_allowed r \<longleftrightarrow>
     \<not> bundle_is_expired (pg_bundle i) (pg_now i) \<and> locks_free plan i
     \<and> list_all (\<lambda>c. \<not> bc_exceeded c) charges \<and> qv_refusal (probe_quota env plan i) = None
     \<and> pairs_safe plan i (derive_facts env plan i environment)
     \<and> permits (ge_fl env) (set rules) (bn_default (pg_bundle i)) (derive_facts env plan i environment)"
    "pr_refusal r = None \<longleftrightarrow> gate_result_allowed r"
proof -
  let ?facts = "derive_facts env plan i environment"
  from assms(1) obtain d vs where d:
    "evaluate_bundle (ge_fl env) (ge_digests env) (pg_bundle i) ?facts (pg_now i) (pg_index i) = Inr d"
    "check_locks plan i = Inr vs" "pr_decision r = d"
    "pr_refusal r = first_some [expiry_refusal i, lock_refusal vs, br_refusal (budget_answer env plan i charges),
       compatibility_refusal (check_compatibility plan i ?facts), decision_refusal d]"
    by (auto simp: decide_gate_def Let_def effective_rules_def split: sum.splits)
  from bundle_verdict_of [OF d(1)] assms(2) have allowed:
    "pv_allowed d \<longleftrightarrow> \<not> bundle_is_expired (pg_bundle i) (pg_now i) \<and> permits (ge_fl env) (set rules) (bn_default (pg_bundle i)) ?facts"
    by auto
  have none: "pr_refusal r = None \<longleftrightarrow> authorizes (pg_bundle i) (pg_now i) \<and> locks_free plan i
     \<and> (list_all (\<lambda>c. \<not> bc_exceeded c) charges \<and> qv_refusal (probe_quota env plan i) = None)
     \<and> pairs_safe plan i ?facts \<and> pv_allowed d"
    unfolding d(4) first_some_None
    by (simp add: expiry_refusal_def decision_refusal_def lock_refusal_None [OF d(2)] budget_answer_None compatibility_refusal_None)
  then show "gate_result_allowed r \<longleftrightarrow>
     \<not> bundle_is_expired (pg_bundle i) (pg_now i) \<and> locks_free plan i
     \<and> list_all (\<lambda>c. \<not> bc_exceeded c) charges \<and> qv_refusal (probe_quota env plan i) = None
     \<and> pairs_safe plan i ?facts
     \<and> permits (ge_fl env) (set rules) (bn_default (pg_bundle i)) ?facts"
    unfolding gate_result_allowed_def d(3) allowed authorizes_def by blast
  show "pr_refusal r = None \<longleftrightarrow> gate_result_allowed r"
    unfolding gate_result_allowed_def d(3) using none by blast
qed

lemma policy_gate_sound:
  assumes "evaluate_gate env plan i environment = Inr r"
  shows "(gate_result_allowed r \<longleftrightarrow> policy_satisfied env plan i environment)
    \<and> (pr_refusal r = None \<longleftrightarrow> gate_result_allowed r)
    \<and> (pr_defect r \<noteq> None \<longrightarrow> map_option po_rule (pr_refusal r) = Some ''policy.config_invalid'')
    \<and> simulate_gate env plan i environment = Inr (r\<lparr>pr_simulated := True\<rparr>)"
proof -
  have sim: "simulate_gate env plan i environment = Inr (r\<lparr>pr_simulated := True\<rparr>)"
    by (simp add: simulate_gate_def assms)
  consider (config) d where "r = refused_by_config env plan i d environment" "\<not> policy_satisfied env plan i environment"
    | (charged) charges where "detect_config_defect (ge_digests env) i = Inr None"
        "probe_budget env plan i = Inr charges" "decide_gate env plan i charges environment = Inr r"
  proof (cases "detect_config_defect (ge_digests env) i")
    case (Inl e)
    then show thesis using assms by (simp add: evaluate_gate_def)
  next
    case det: (Inr d)
    show thesis
    proof (cases d)
      case (Some x)
      have "\<not> policy_satisfied env plan i environment"
        using det Some defect_of_detect [of "ge_digests env" i] by (auto simp: policy_satisfied_def)
      then show thesis using config [of x] assms det Some by (simp add: evaluate_gate_def)
    next
      case None
      show thesis
      proof (cases "probe_budget_safely env plan i")
        case (Inl e)
        then show thesis using assms det None by (simp add: evaluate_gate_def)
      next
        case (Inr p)
        obtain charges y where p: "p = (charges, y)" by fastforce
        show thesis
        proof (cases y)
          case y: None
          show thesis
            using charged [of charges] assms det None Inr p y probe_safely [of env plan i charges]
            by (simp add: evaluate_gate_def)
        next
          case y: (Some x)
          have "probe_budget env plan i \<noteq> Inr cs" for cs
            using probe_safely [of env plan i cs] Inr p y by auto
          then have "\<not> policy_satisfied env plan i environment" by (auto simp: policy_satisfied_def)
          then show thesis using config [of x] assms det None Inr p y by (simp add: evaluate_gate_def)
        qed
      qed
    qed
  qed
  then show ?thesis
  proof cases
    case config
    then show ?thesis
      using sim config_refuses [of env plan i d environment]
      by (simp add: refused_by_config_def config_refusal_def)
  next
    case charged
    from charged(1) obtain rules where rules: "verify_pin (ge_digests env) (pg_bundle i) = Inr ()"
      "inherited_rules (pg_index i) [] (pg_bundle i) = Inr rules" unfolding defect_of_detect by blast
    have "pr_defect r = None"
      using charged(3) by (auto simp: decide_gate_def Let_def split: sum.splits)
    moreover have "gate_result_allowed r \<longleftrightarrow> policy_satisfied env plan i environment"
      unfolding decide_gate_allows(1) [OF charged(3) rules(2)] policy_satisfied_def using rules charged(2) by auto
    ultimately show ?thesis using sim decide_gate_allows(2) [OF charged(3) rules(2)] by simp
  qed
qed

text \<open>
  C4. The policy gate answers one conjunction. It lets a plan through exactly when its configuration
  can be read - the pin holds, the inheritance resolves, every charge finds its budget - and the bundle
  has not expired, no live lock of another experiment stands on a wanted resource, no level of the
  hierarchy is overspent, the per-target quota holds, no two faults of the plan conflict, and the rules
  permit the facts. Without a refusal it allows; the same plan simulated gets the same answer.
\<close>

theorem policy_gate_decides:
  assumes "evaluate_gate env plan i environment = Inr r"
  shows "(gate_result_allowed r \<longleftrightarrow> policy_satisfied env plan i environment)
    \<and> (pr_refusal r = None \<longleftrightarrow> gate_result_allowed r)
    \<and> (pr_defect r \<noteq> None \<longrightarrow> map_option po_rule (pr_refusal r) = Some ''policy.config_invalid'')
    \<and> simulate_gate env plan i environment = Inr (r\<lparr>pr_simulated := True\<rparr>)"
  using assms by (rule policy_gate_sound)

definition exact_env :: GateEnv where
  "exact_env =
     \<lparr>ge_fl = (\<lambda>x. x), ge_sum = sum_list, ge_str = (\<lambda>_. ''0.0''), ge_catalog = demo_catalog, ge_digests = bare_digests\<rparr>"

definition network_bundle :: PolicyBundle where
  "network_bundle =
     \<lparr>bn_id = ''open'', bn_version = 1,
      bn_rules = [\<lparr>rl_id = ''net-only'', rl_dimension = DIM_FAULT_FAMILY,
                   rl_predicate = \<lparr>pp_operator = OP_ALL_IN, pp_values = [''network'']\<rparr>, rl_effect = EFFECT_ALLOW,
                   rl_precedence = 0, rl_reason = [], rl_remediation = []\<rparr>],
      bn_edges = [], bn_parents = [], bn_default = EFFECT_DENY, bn_created = 0, bn_expires = Some 100, bn_pin = None\<rparr>"

definition demo_inputs :: PolicyGateInputs where
  "demo_inputs =
     \<lparr>pg_bundle = network_bundle, pg_now = 5, pg_index = [], pg_locks = [], pg_resources = [''db''], pg_window_s = 3600,
      pg_experiment = ''exp'', pg_run = ''r1'', pg_budget = Some billing, pg_path = [''billing'', ''prod'', ''api''],
      pg_edges = [], pg_quota = None, pg_observed = Map.empty\<rparr>"

definition one_fault :: ExecutionPlan where
  "one_fault = demo_plan [demo_fault ''net.delay'' {''a''}]"

theorem policy_gate_decides_witness:
  "\<exists>r. evaluate_gate exact_env one_fault demo_inputs None = Inr r \<and> policy_satisfied exact_env one_fault demo_inputs None"
proof -
  let ?g = "evaluate_gate exact_env one_fault demo_inputs None"
  have ok: "case ?g of Inl _ \<Rightarrow> False | Inr r \<Rightarrow> gate_result_allowed r" by code_simp
  then obtain r where r: "?g = Inr r" by (cases ?g) auto
  show ?thesis using policy_gate_decides [OF r] ok r by auto
qed

section \<open>Under the safety gate\<close>

text \<open>
  The verdict \<open>validate_plan\<close> reads off a gate result. An exception of the gate ends the pass without
  admitting the plan, like a refusal.
\<close>

definition policy_verdict_of ::
  "GateEnv \<Rightarrow> PolicyGateInputs \<Rightarrow> string option \<Rightarrow> ExecutionPlan \<Rightarrow> PolicyVerdict" where
  "policy_verdict_of env i environment plan =
     (case evaluate_gate env plan i environment of
        Inl _ \<Rightarrow> \<lparr>pv_required = [], pv_refusal = Some ''exception''\<rparr>
      | Inr r \<Rightarrow> \<lparr>pv_required = map ra_level (pr_approvals r), pv_refusal = map_option po_rule (pr_refusal r)\<rparr>)"

lemma verdict_satisfied:
  assumes "pv_refusal (policy_verdict_of env i environment plan) = None"
  shows "policy_satisfied env plan i environment"
proof -
  obtain r where r: "evaluate_gate env plan i environment = Inr r" "pr_refusal r = None"
    using assms by (auto simp: policy_verdict_of_def split: sum.splits)
  then show ?thesis using policy_gate_sound [OF r(1)] by simp
qed

text \<open>
  C8. No way around the policy. A plan the safety gate admits while the policy gate is configured
  satisfies the policy: the bundle reads, is current and permits its facts, the resources it wants are
  free, no budget level and no target is overspent, and no two of its faults conflict - on top of
  everything else the safety gate demands.
\<close>

theorem admitted_plan_satisfies_policy:
  assumes "fst (validate_plan fl catalog select adapter scope plan g ctx s) = None"
    and "ctx_policy_gate ctx = Some (policy_verdict_of env i (ctx_environment ctx))"
  shows "policy_satisfied env plan i (ctx_environment ctx)
    \<and> plan_admissible fl catalog select adapter scope plan g ctx"
proof -
  have adm: "plan_admissible fl catalog select adapter scope plan g ctx"
    using assms(1) by (simp add: validate_plan_admits)
  then have "pv_refusal (policy_verdict_of env i (ctx_environment ctx) plan) = None"
    using assms(2) by (simp add: plan_admissible_def plan_level_admissible_def)
  then show ?thesis using adm verdict_satisfied by blast
qed

definition gated_context :: SafetyContext where
  "gated_context = demo_context\<lparr>ctx_policy_gate := Some (policy_verdict_of exact_env demo_inputs None)\<rparr>"

lemma step_under_gate:
  "step_admissible fl catalog g (ctx\<lparr>ctx_policy_gate := v\<rparr>) scope run so_far led f
     \<longleftrightarrow> step_admissible fl catalog g ctx scope run so_far led f"
  by (simp add: step_admissible_def step_within_def fault_admissible_def Let_def)

lemma environment_under_gate: "environment_denied (ctx\<lparr>ctx_policy_gate := v\<rparr>) \<longleftrightarrow> environment_denied ctx"
  by (simp add: environment_denied_def cong: option.case_cong)

lemma plan_under_gate:
  assumes "plan_admissible fl catalog select adapter scope plan g ctx"
    and "pv_refusal (eval plan) = None" "ctx_approval_gate ctx = None"
  shows "plan_admissible fl catalog select adapter scope plan g (ctx\<lparr>ctx_policy_gate := Some eval\<rparr>)"
  using assms by (simp add: plan_admissible_def plan_level_admissible_def step_under_gate environment_under_gate)

theorem admitted_plan_satisfies_policy_witness:
  "policy_satisfied exact_env one_fault demo_inputs None"
proof -
  have "plan_admissible exact demo_catalog (\<lambda>_. Inr None) None None one_fault demo_graph demo_context"
    using demo_plan_passes by (simp add: one_fault_def validate_plan_admits)
  moreover have "pv_refusal (policy_verdict_of exact_env demo_inputs None one_fault) = None" by code_simp
  moreover have "ctx_approval_gate demo_context = None" by (simp add: demo_context_def)
  ultimately have "plan_admissible exact demo_catalog (\<lambda>_. Inr None) None None one_fault demo_graph gated_context"
    unfolding gated_context_def by (rule plan_under_gate)
  then have pass: "fst (validate_plan exact demo_catalog (\<lambda>_. Inr None) None None one_fault demo_graph gated_context demo_state) = None"
    by (simp add: validate_plan_admits)
  have "ctx_environment gated_context = None" by (simp add: gated_context_def demo_context_def)
  moreover from this have "ctx_policy_gate gated_context = Some (policy_verdict_of exact_env demo_inputs (ctx_environment gated_context))"
    by (simp add: gated_context_def)
  ultimately show ?thesis using admitted_plan_satisfies_policy [OF pass, of exact_env demo_inputs] by simp
qed

section \<open>The commit\<close>

lemma post_step_of:
  assumes "post_charge fl tree path a = Inr (tree', posted)"
  shows "post_step fl run now (path, a) (tree, es) = Inr (tree', es @ map (entry_from_charge run now) posted)"
  using assms by (simp add: post_step_def)

lemma charge_faults_posts:
  "charge_faults env keys fs tree = Inr (tree', charges) \<Longrightarrow>
     \<exists>posts. (\<forall>p\<in>set posts. \<exists>f. snd p = step_amount env f)
       \<and> run_all (post_step (ge_fl env) run now) posts (tree, es) =
         Inr (tree', es @ map (entry_from_charge run now) charges)"
proof (induction fs arbitrary: tree charges es)
  case Nil
  then show ?case by (intro exI [of _ "[]"]) simp
next
  case (Cons f fs)
  from Cons.prems obtain path t1 posted rest where
    p: "post_charge (ge_fl env) tree path (step_amount env f) = Inr (t1, posted)"
      "charge_faults env keys fs t1 = Inr (tree', rest)" "charges = posted @ rest"
    by (auto split: sum.splits prod.splits)
  from Cons.IH [OF p(2), of "es @ map (entry_from_charge run now) posted"] obtain posts where
    posts: "\<forall>p\<in>set posts. \<exists>f. snd p = step_amount env f"
      "run_all (post_step (ge_fl env) run now) posts (t1, es @ map (entry_from_charge run now) posted) =
         Inr (tree', (es @ map (entry_from_charge run now) posted) @ map (entry_from_charge run now) rest)" by blast
  show ?case
    using posts post_step_of [OF p(1)] by (intro exI [of _ "(path, step_amount env f) # posts"]) (auto simp: p(3))
qed

lemma step_amount_micro: "ge_fl env = (\<lambda>x. x) \<Longrightarrow> micro (step_amount env f)"
  by (auto simp: step_amount_def round_to_def micro_def DAMAGE_PRECISION_def)

lemma commit_cases:
  assumes "commit_budget env plan i ledger = Inr (c, ledger')" "pg_budget i = Some mounted"
  obtains (defect) d where "ledger' = ledger" "cm_defect c = Some d" "cm_charges c = []" "cm_entries c = 0"
    "cm_refusal c = Some config_refusal"
  | (posted) tree where "charge_plan env plan i (persisted_budget (ge_fl env) mounted ledger) = Inr (tree, cm_charges c)"
    "cm_tree c = Some tree" "cm_entries c = length (cm_charges c)" "cm_defect c = None"
    "ledger' = ledger @ map (entry_from_charge (gate_owner plan i) (pg_now i)) (cm_charges c)"
    "cm_refusal c = budget_refusal_of (filter bc_exceeded (cm_charges c)) None"
proof (cases "charge_plan env plan i (persisted_budget (ge_fl env) mounted ledger)")
  case (Inl e)
  obtain d where d: "defect_from_exception e = Inr d"
    using assms Inl by (cases "defect_from_exception e") (auto simp: commit_budget_def charge_plan_safely_def)
  show thesis
    by (rule defect [of d])
      (use assms Inl d in \<open>auto simp: commit_budget_def charge_plan_safely_def empty_commit_def\<close>)
next
  case (Inr p)
  obtain tree charges where p: "p = (tree, charges)" by fastforce
  have "c = \<lparr>cm_charges = charges, cm_tree = Some tree, cm_breached = filter bc_exceeded charges,
       cm_entries = length charges, cm_defect = None, cm_refusal = budget_refusal_of (filter bc_exceeded charges) None\<rparr>"
    "ledger' = ledger @ map (entry_from_charge (gate_owner plan i) (pg_now i)) charges"
    using assms Inr p by (auto simp: commit_budget_def charge_plan_safely_def)
  then show thesis using posted [of tree] Inr p by simp
qed

text \<open>
  A commit charges, then judges, and the next run pays. It only appends to the ledger, one entry
  per charge, also when it refuses; it refuses exactly on a defect, posting nothing, or on an overspent
  level, keeping what it posted. In exact millionths, and with labels of their own, folding the new
  ledger into the hierarchy as authored is the tree the commit ended with: what the next gate reads.
\<close>

theorem commit_carries_forward:
  assumes "commit_budget env plan i ledger = Inr (c, ledger')" "pg_budget i = Some mounted"
    and "ge_fl env = (\<lambda>x. x)" "distinct (labels mounted)" "micro_tree mounted" "\<forall>e\<in>set ledger. micro (be_amount e)"
  shows "ledger' = ledger @ map (entry_from_charge (gate_owner plan i) (pg_now i)) (cm_charges c)
    \<and> cm_entries c = length (cm_charges c)
    \<and> (cm_refusal c \<noteq> None \<longleftrightarrow> cm_defect c \<noteq> None \<or> list_ex bc_exceeded (cm_charges c))
    \<and> (cm_defect c \<noteq> None \<longrightarrow> cm_charges c = [])
    \<and> (cm_defect c = None \<longrightarrow> cm_tree c = Some (persisted_budget (ge_fl env) mounted ledger'))"
  using assms(1,2)
proof (cases rule: commit_cases)
  case (defect d)
  then show ?thesis by simp
next
  case (posted tree)
  let ?now = "pg_now i" and ?run = "gate_owner plan i"
  let ?start = "persisted_budget (\<lambda>x. x) mounted ledger"
  have start: "?start = bump (posted_total (\<lambda>x. x) ledger) mounted"
    "\<And>s k. micro (posted_total (\<lambda>x. x) ledger s k)"
    unfolding persisted_budget_def using fold_spend_bump [OF assms(5,6)] by auto
  have ok: "distinct (labels ?start)" "micro_tree ?start"
    unfolding start(1) using assms(4,5) start(2) bump_micro by simp_all
  have "charge_faults env (pg_path i) (plan_faults plan) ?start = Inr (tree, cm_charges c)"
    using posted(1) by (simp add: charge_plan_def assms(3))
  from charge_faults_posts [OF this, of ?run ?now "[]"] obtain posts where
    posts: "\<forall>p\<in>set posts. \<exists>f. snd p = step_amount env f"
      "run_all (post_step (\<lambda>x. x) ?run ?now) posts (?start, []) =
         Inr (tree, map (entry_from_charge ?run ?now) (cm_charges c))" by (auto simp: assms(3))
  have "\<forall>p\<in>set posts. micro (snd p)" using posts(1) step_amount_micro [OF assms(3)] by metis
  from run_posts_bump [OF posts(2) ok this] obtain f where f: "tree = bump f ?start"
    "posted_total (\<lambda>x. x) (map (entry_from_charge ?run ?now) (cm_charges c)) = f" "\<forall>s k. micro (f s k)" by auto
  have "posted_total (\<lambda>x. x) ledger' = (\<lambda>s k. posted_total (\<lambda>x. x) ledger s k + f s k)"
    using f(2) by (auto simp: posted(5) fun_eq_iff posted_total_append)
  then have "persisted_budget (\<lambda>x. x) mounted ledger' = tree"
    unfolding persisted_budget_def fold_spend_def
    using fold_node_bump [OF assms(5), of "posted_total (\<lambda>x. x) ledger'"] start(2) f(3) micro_add
    by (simp add: f(1) start(1) bump_bump)
  moreover have "budget_refusal_of (filter bc_exceeded (cm_charges c)) None \<noteq> None \<longleftrightarrow> list_ex bc_exceeded (cm_charges c)"
    by (auto simp: budget_refusal_of_def list_ex_iff filter_empty_conv Let_def)
  ultimately show ?thesis using posted(2-6) assms(3) by simp
qed

theorem commit_carries_forward_witness:
  "\<exists>c ledger'. commit_budget exact_env one_fault demo_inputs [] = Inr (c, ledger')
     \<and> cm_tree c = Some (persisted_budget (\<lambda>x. x) billing ledger') \<and> length ledger' = 3"
proof -
  let ?c = "commit_budget exact_env one_fault demo_inputs []"
  have ok: "case ?c of Inl _ \<Rightarrow> False | Inr (c, ledger') \<Rightarrow> cm_defect c = None \<and> length ledger' = 3" by code_simp
  then obtain c ledger' where run: "?c = Inr (c, ledger')" by (cases ?c) auto
  have b: "pg_budget demo_inputs = Some billing" by (simp add: demo_inputs_def)
  have fl: "ge_fl exact_env = (\<lambda>x. x)" by (simp add: exact_env_def)
  have d: "distinct (labels billing)" by code_simp
  have m: "micro_tree billing" by (simp add: billing_def)
  show ?thesis using commit_carries_forward [OF run b fl d m] ok run fl by (intro exI [of _ c] exI [of _ ledger']) auto
qed

section \<open>Approvals nobody holds\<close>

text \<open>
  A requirement is authored as \<open>approval_level in (...)\<close>, and is reported only when that rule matched;
  with no level on hand the rule cannot match, so nothing is required just when everything is missing.
\<close>

lemma approvals_silent:
  assumes "observed facts DIM_APPROVAL_LEVEL = None"
    and "\<forall>r\<in>set rules. rl_dimension r = DIM_APPROVAL_LEVEL \<longrightarrow> pp_operator (rl_predicate r) = OP_IN"
  shows "outstanding_approvals fl rules facts = []"
proof -
  have "rule_approvals fl facts r = []" if "r \<in> set rules" for r
    using that assms by (auto simp: rule_approvals_def rule_matches_def predicate_matches_def)
  then have "concat (map (rule_approvals fl facts) (resolve_precedence rules)) = []" by simp
  then show ?thesis unfolding outstanding_approvals_def sort_key_Nil_iff .
qed

end
