(* ===== verification/Coverage_Model.thy ===== *)
theory Coverage_Model
  imports Python_Text
begin

text \<open>
  \<open>domain/coverage.py\<close>: the cells of the resilience landscape, their keys, the states a cell goes
  through, the filters of a query and the summary over a landscape. A key is injective on the cells
  that have one; a verdict once reached is never demoted to "planned" or "unknown".
\<close>

section \<open>Cells and their keys\<close>

record CoverageCell =
  cc_target :: string
  cc_fault :: string
  cc_context :: string
  cc_band :: string

text \<open>The unit separator \<open>\x1f\<close>.\<close>

definition unit_sep :: char where
  "unit_sep = char_of (31 :: nat)"

lemma unit_sep_char: "unit_sep = CHR 0x1F"
  by code_simp

definition cell_key :: "string \<Rightarrow> string \<Rightarrow> string \<Rightarrow> string \<Rightarrow> py_error + string" where
  "cell_key target fault_kind execution_context parameter_band =
     (let parts = [target, fault_kind, execution_context, parameter_band]
      in if \<exists>p\<in>set parts. unit_sep \<in> set p then Inl ValueErr else Inr (py_join [unit_sep] parts))"

definition cell_key_of :: "CoverageCell \<Rightarrow> py_error + string" where
  "cell_key_of c = cell_key (cc_target c) (cc_fault c) (cc_context c) (cc_band c)"

definition cell_to_tuple :: "CoverageCell \<Rightarrow> string \<times> string \<times> string \<times> string" where
  "cell_to_tuple c = (cc_target c, cc_fault c, cc_context c, cc_band c)"

fun cell_from_tuple :: "string \<times> string \<times> string \<times> string \<Rightarrow> CoverageCell" where
  "cell_from_tuple (t, f, x, b) = \<lparr>cc_target = t, cc_fault = f, cc_context = x, cc_band = b\<rparr>"

lemma cell_from_to_tuple [simp]: "cell_from_tuple (cell_to_tuple c) = c"
  by (simp add: cell_to_tuple_def)

lemma key_splits:
  assumes "cell_key_of c = Inr k"
  shows "py_split unit_sep 3 k = [cc_target c, cc_fault c, cc_context c, cc_band c]"
  using assms py_split_step [of unit_sep]
  by (auto simp: cell_key_of_def cell_key_def Let_def numeral_3_eq_3 split: if_splits)

lemma cell_key_injective:
  assumes "cell_key_of c = Inr k" and "cell_key_of d = Inr k"
  shows "c = d"
  using key_splits [OF assms(1)] key_splits [OF assms(2)] by (cases c; cases d) simp

lemma cell_key_refused_iff:
  "(\<exists>e. cell_key_of c = Inl e)
     \<longleftrightarrow> (\<exists>p\<in>{cc_target c, cc_fault c, cc_context c, cc_band c}. unit_sep \<in> set p)"
  by (auto simp: cell_key_of_def cell_key_def Let_def)

section \<open>States of a cell\<close>

datatype CellState =
    CELL_UNKNOWN | CELL_PLANNED | CELL_EXECUTED | CELL_PASSED | CELL_INCONCLUSIVE | CELL_FAILED
  | CELL_BLOCKED | CELL_SKIPPED

fun cell_state_value :: "CellState \<Rightarrow> string" where
  "cell_state_value CELL_UNKNOWN = ''unknown''"
| "cell_state_value CELL_PLANNED = ''planned''"
| "cell_state_value CELL_EXECUTED = ''executed''"
| "cell_state_value CELL_PASSED = ''passed''"
| "cell_state_value CELL_INCONCLUSIVE = ''inconclusive''"
| "cell_state_value CELL_FAILED = ''failed''"
| "cell_state_value CELL_BLOCKED = ''blocked''"
| "cell_state_value CELL_SKIPPED = ''skipped''"

definition all_cell_states :: "CellState list" where
  "all_cell_states = [CELL_UNKNOWN, CELL_PLANNED, CELL_EXECUTED, CELL_PASSED, CELL_INCONCLUSIVE,
     CELL_FAILED, CELL_BLOCKED, CELL_SKIPPED]"

text \<open>\<open>CellState(value)\<close>, with \<open>_missing_\<close> for the old word "covered".\<close>

definition cell_state_of :: "string \<Rightarrow> py_error + CellState" where
  "cell_state_of v =
     (case find (\<lambda>s. cell_state_value s = v) all_cell_states of
        Some s \<Rightarrow> Inr s
      | None \<Rightarrow> if v = ''covered'' then Inr CELL_PASSED else Inl ValueErr)"

lemma cell_state_of_value [simp]: "cell_state_of (cell_state_value s) = Inr s"
  by (cases s) (simp_all add: cell_state_of_def all_cell_states_def)

fun cell_transitions :: "CellState \<Rightarrow> CellState set" where
  "cell_transitions CELL_UNKNOWN = set all_cell_states"
| "cell_transitions CELL_PLANNED =
     {CELL_EXECUTED, CELL_PASSED, CELL_INCONCLUSIVE, CELL_FAILED, CELL_BLOCKED, CELL_SKIPPED}"
| "cell_transitions CELL_EXECUTED = {CELL_PASSED, CELL_INCONCLUSIVE, CELL_FAILED}"
| "cell_transitions CELL_PASSED = {CELL_EXECUTED, CELL_INCONCLUSIVE, CELL_FAILED}"
| "cell_transitions CELL_INCONCLUSIVE = {CELL_EXECUTED, CELL_PASSED, CELL_FAILED}"
| "cell_transitions CELL_FAILED = {CELL_EXECUTED, CELL_PASSED}"
| "cell_transitions CELL_BLOCKED =
     {CELL_PLANNED, CELL_EXECUTED, CELL_PASSED, CELL_INCONCLUSIVE, CELL_FAILED}"
| "cell_transitions CELL_SKIPPED = {}"

definition cell_transition :: "CellState option \<Rightarrow> CellState \<Rightarrow> py_error + CellState" where
  "cell_transition current new =
     (case current of
        None \<Rightarrow> Inr new
      | Some c \<Rightarrow>
          if c = new then Inr c
          else if c = CELL_FAILED \<and> new = CELL_INCONCLUSIVE then Inr c
          else if new \<notin> cell_transitions c then Inl ValueErr
          else Inr new)"

text \<open>A sequence of reports on one cell; a refused report leaves the cell where it was.\<close>

fun cell_history :: "CellState option \<Rightarrow> CellState list \<Rightarrow> CellState option" where
  "cell_history s [] = s"
| "cell_history s (r # rs) =
     cell_history (case cell_transition s r of Inl _ \<Rightarrow> s | Inr s' \<Rightarrow> Some s') rs"

definition tested :: "CellState \<Rightarrow> bool" where
  "tested s \<longleftrightarrow> s \<in> {CELL_EXECUTED, CELL_PASSED, CELL_INCONCLUSIVE, CELL_FAILED}"

lemma cell_transition_tested:
  "tested s \<Longrightarrow> cell_transition (Some s) r = Inr s' \<Longrightarrow> tested s'"
  by (cases s) (auto simp: tested_def cell_transition_def split: if_splits)

lemma tested_stays: "tested s \<Longrightarrow> \<exists>s'. cell_history (Some s) rs = Some s' \<and> tested s'"
proof (induction rs arbitrary: s)
  case Nil
  then show ?case by simp
next
  case (Cons r rs)
  then show ?case by (cases "cell_transition (Some s) r") (auto dest: cell_transition_tested)
qed

text \<open>A failed cell is left only by a fresh execution or a pass; a skipped cell never.\<close>

lemma failed_left_by_retest:
  "cell_transition (Some CELL_FAILED) r = Inr s' \<Longrightarrow>
     s' = CELL_FAILED \<or> (s' = r \<and> r \<in> {CELL_EXECUTED, CELL_PASSED})"
  by (auto simp: cell_transition_def split: if_splits)

lemma skipped_stays: "cell_history (Some CELL_SKIPPED) rs = Some CELL_SKIPPED"
  by (induction rs) (auto simp: cell_transition_def)

section \<open>Filters\<close>

record ResilienceCell =
  rc_target :: string
  rc_failure_domain :: string
  rc_fault :: string
  rc_engine :: string
  rc_risk :: string
  rc_maturity :: string
  rc_state :: CellState
  rc_last_run :: string
  rc_next_rationale :: string
  rc_service :: string
  rc_target_profile :: string
  rc_context :: string
  rc_band :: string

definition coverage_cell :: "ResilienceCell \<Rightarrow> CoverageCell" where
  "coverage_cell r =
     \<lparr>cc_target = rc_target r, cc_fault = rc_fault r, cc_context = rc_context r, cc_band = rc_band r\<rparr>"

record CellFilters =
  fi_target_profile :: "string option"
  fi_engine :: "string option"
  fi_service :: "string option"
  fi_failure_domain :: "string option"
  fi_risk :: "string option"
  fi_maturity :: "string option"
  fi_state :: "(CellState + string) option"

definition filter_matches :: "CellFilters \<Rightarrow> ResilienceCell \<Rightarrow> py_error + bool" where
  "filter_matches f cell =
     (let rest = list_all (\<lambda>(have, want). want = None \<or> want = Some have)
            [(rc_target_profile cell, fi_target_profile f), (rc_engine cell, fi_engine f),
             (rc_service cell, fi_service f), (rc_failure_domain cell, fi_failure_domain f),
             (rc_risk cell, fi_risk f), (rc_maturity cell, fi_maturity f)]
      in case fi_state f of
           None \<Rightarrow> Inr rest
         | Some s \<Rightarrow>
             and_then (case s of Inl st \<Rightarrow> Inr st | Inr v \<Rightarrow> cell_state_of v)
               (\<lambda>expected. if rc_state cell \<noteq> expected then Inr False else Inr rest))"

lemma filter_state_spelling:
  "filter_matches (f\<lparr>fi_state := Some (Inr (cell_state_value s))\<rparr>) cell
     = filter_matches (f\<lparr>fi_state := Some (Inl s)\<rparr>) cell"
  by (simp add: filter_matches_def)

section \<open>Summary over a landscape\<close>

record CoverageSummary =
  cs_covered :: "string set"
  cs_total :: int
  cs_counts :: "(CellState \<times> int) list"

definition state_count :: "CoverageSummary \<Rightarrow> CellState \<Rightarrow> int" where
  "state_count s st = (case map_of (cs_counts s) st of None \<Rightarrow> 0 | Some n \<Rightarrow> n)"

definition covered_count :: "CoverageSummary \<Rightarrow> int" where
  "covered_count s = int (card (cs_covered s))"

definition noncovered_tested_count :: "CoverageSummary \<Rightarrow> int" where
  "noncovered_tested_count s =
     sum_list (map snd (filter (\<lambda>(st, n). st \<noteq> CELL_PASSED) (cs_counts s)))"

definition unknown_count :: "CoverageSummary \<Rightarrow> int" where
  "unknown_count s = cs_total s - covered_count s - noncovered_tested_count s"

definition testable_count :: "CoverageSummary \<Rightarrow> int" where
  "testable_count s = cs_total s - state_count s CELL_BLOCKED"

definition coverage_fraction :: "(rat \<Rightarrow> rat) \<Rightarrow> CoverageSummary \<Rightarrow> rat" where
  "coverage_fraction fl s =
     (if testable_count s = 0 then 0 else fl (of_int (covered_count s) / of_int (testable_count s)))"

definition is_covered :: "CoverageSummary \<Rightarrow> CoverageCell \<Rightarrow> py_error + bool" where
  "is_covered s c = and_then (cell_key_of c) (\<lambda>k. Inr (k \<in> cs_covered s))"

text \<open>The tuple comprehension: the first cell without a key raises.\<close>

fun unknown_cells :: "CoverageSummary \<Rightarrow> CoverageCell list \<Rightarrow> py_error + CoverageCell list" where
  "unknown_cells s [] = Inr []"
| "unknown_cells s (c # cs) =
     and_then (is_covered s c) (\<lambda>b.
       and_then (unknown_cells s cs) (\<lambda>rest. Inr (if b then rest else c # rest)))"

lemma unknown_cells_spec:
  "unknown_cells s cs = Inr us \<Longrightarrow> us = filter (\<lambda>c. is_covered s c = Inr False) cs"
  by (induction cs arbitrary: us) (auto simp: and_then_Inr_iff split: if_splits)

end
