(* ===== verification/Campaign_Loop.thy ===== *)
theory Campaign_Loop
  imports Risk_Ladder Coverage_Model
begin

text \<open>
  The intelligence-loop campaign: candidates (\<open>domain/candidates.py\<close>), the gate pipeline
  (\<open>infra/candidate_gates.py\<close>), the campaign's data (\<open>domain/m5_campaign.py\<close>) and the engine that
  iterates until a stop (\<open>infra/campaign_engine.py\<close>). The injected collaborators act on a world of
  their own and may raise; the clock is read through it, so that it can advance at every reading.
  A candidate's free-form \<open>params\<close> are left out: nothing here reads them.
\<close>

section \<open>Candidates and gates\<close>

record ExperimentCandidate =
  ec_target :: string
  ec_faults :: "string list"
  ec_context :: string
  ec_effect :: string
  ec_risk :: RiskLevel
  ec_seed :: int

text \<open>The stable id; \<open>sha\<close> is \<open>hashlib.sha256(...).hexdigest()\<close>.\<close>

definition candidate_id :: "(string \<Rightarrow> string) \<Rightarrow> ExperimentCandidate \<Rightarrow> string" where
  "candidate_id sha c =
     ''cand-'' @ take 16 (sha (py_join [unit_sep]
       [ec_target c, py_join '','' (ec_faults c), ec_context c, risk_value (ec_risk c),
        py_str (ec_seed c)]))"

definition primary_fault :: "ExperimentCandidate \<Rightarrow> string" where
  "primary_fault c = (case ec_faults c of [] \<Rightarrow> [] | f # _ \<Rightarrow> f)"

datatype CandidateGate = GATE_SAFETY | GATE_FEASIBILITY | GATE_RESOURCE_CONFLICT

record CandidateDecision =
  cd_candidate :: ExperimentCandidate
  cd_rejected :: bool
  cd_gate :: "CandidateGate option"
  cd_reason :: string

definition accept_candidate :: "ExperimentCandidate \<Rightarrow> CandidateDecision" where
  "accept_candidate c = \<lparr>cd_candidate = c, cd_rejected = False, cd_gate = None, cd_reason = []\<rparr>"

definition reject_candidate :: "ExperimentCandidate \<Rightarrow> CandidateGate \<Rightarrow> string \<Rightarrow> CandidateDecision" where
  "reject_candidate c g reason =
     \<lparr>cd_candidate = c, cd_rejected = True, cd_gate = Some g, cd_reason = reason\<rparr>"

text \<open>A checker passes with \<open>None\<close> or rejects with a reason.\<close>

type_synonym gate_checker = "ExperimentCandidate \<Rightarrow> string option"

fun check_forbidden :: "string set \<Rightarrow> string list \<Rightarrow> string option" where
  "check_forbidden forbidden [] = None"
| "check_forbidden forbidden (f # fs) =
     (if f \<in> forbidden then Some (''fault '' @ py_repr f @ '' is forbidden by safety policy'')
      else check_forbidden forbidden fs)"

definition safety_gate :: "string list \<Rightarrow> gate_checker" where
  "safety_gate forbidden c =
     (case check_forbidden (set forbidden) (ec_faults c) of
        Some r \<Rightarrow> Some r
      | None \<Rightarrow> if ec_target c = [] then Some ''candidate has no target'' else None)"

fun check_supported :: "string set \<Rightarrow> string set \<Rightarrow> string list \<Rightarrow> string option" where
  "check_supported supported unsupported [] = None"
| "check_supported supported unsupported (f # fs) =
     (if f \<in> unsupported
      then Some (''fault '' @ py_repr f @ '' is UNSUPPORTED by the runtime (not feasible)'')
      else if f \<notin> supported
      then Some (''fault '' @ py_repr f @ '' is not in the supported capability set'')
      else check_supported supported unsupported fs)"

definition feasibility_gate :: "string list \<Rightarrow> string list \<Rightarrow> gate_checker" where
  "feasibility_gate supported unsupported c =
     check_supported (set supported) (set unsupported) (ec_faults c)"

definition resource_conflict_gate :: "string list \<Rightarrow> gate_checker" where
  "resource_conflict_gate busy c =
     (if ec_target c \<in> set busy
      then Some (''target '' @ py_repr (ec_target c) @ '' has an in-flight resource conflict'')
      else None)"

definition permissive_gate :: gate_checker where
  "permissive_gate c = None"

record gate_pipeline =
  gp_safety :: gate_checker
  gp_feasibility :: gate_checker
  gp_resource :: gate_checker

definition make_pipeline :: "gate_checker option \<Rightarrow> gate_checker option \<Rightarrow> gate_checker option
    \<Rightarrow> gate_pipeline" where
  "make_pipeline s f r =
     \<lparr>gp_safety = (case s of Some g \<Rightarrow> g | None \<Rightarrow> safety_gate []),
      gp_feasibility = (case f of Some g \<Rightarrow> g | None \<Rightarrow> feasibility_gate [] []),
      gp_resource = (case r of Some g \<Rightarrow> g | None \<Rightarrow> resource_conflict_gate [])\<rparr>"

definition permissive_pipeline :: gate_pipeline where
  "permissive_pipeline =
     make_pipeline (Some permissive_gate) (Some permissive_gate) (Some permissive_gate)"

definition gate_candidate :: "gate_pipeline \<Rightarrow> ExperimentCandidate \<Rightarrow> CandidateDecision" where
  "gate_candidate p c =
     (case gp_safety p c of Some r \<Rightarrow> reject_candidate c GATE_SAFETY r
      | None \<Rightarrow>
     (case gp_feasibility p c of Some r \<Rightarrow> reject_candidate c GATE_FEASIBILITY r
      | None \<Rightarrow>
     (case gp_resource p c of Some r \<Rightarrow> reject_candidate c GATE_RESOURCE_CONFLICT r
      | None \<Rightarrow> accept_candidate c)))"

definition gate_many :: "gate_pipeline \<Rightarrow> ExperimentCandidate list \<Rightarrow> CandidateDecision list" where
  "gate_many p cs = map (gate_candidate p) cs"

definition passes :: "gate_pipeline \<Rightarrow> ExperimentCandidate \<Rightarrow> bool" where
  "passes p c \<longleftrightarrow> gp_safety p c = None \<and> gp_feasibility p c = None \<and> gp_resource p c = None"

lemma gate_candidate_accepts: "\<not> cd_rejected (gate_candidate p c) \<longleftrightarrow> passes p c"
  by (auto simp: gate_candidate_def passes_def reject_candidate_def accept_candidate_def
           split: option.splits)

lemma gate_candidate_conflict:
  "cd_gate (gate_candidate p c) = Some GATE_RESOURCE_CONFLICT \<longleftrightarrow>
     gp_safety p c = None \<and> gp_feasibility p c = None \<and> gp_resource p c \<noteq> None"
  by (auto simp: gate_candidate_def reject_candidate_def accept_candidate_def split: option.splits)

lemma check_forbidden_None: "check_forbidden fb fs = None \<longleftrightarrow> set fs \<inter> fb = {}"
  by (induction fs) auto

lemma check_supported_None: "check_supported s u fs = None \<longleftrightarrow> set fs \<subseteq> s - u"
  by (induction fs) auto

text \<open>
  The pipeline over the three stock gates: targeted, nothing forbidden, everything supported, not
  busy. The default pipeline supports no fault at all, so it passes only a candidate without faults.
\<close>

lemma stock_pipeline_passes:
  "passes (make_pipeline (Some (safety_gate fb)) (Some (feasibility_gate s u))
                         (Some (resource_conflict_gate busy))) c
   \<longleftrightarrow> ec_target c \<noteq> [] \<and> set (ec_faults c) \<inter> set fb = {}
       \<and> set (ec_faults c) \<subseteq> set s - set u \<and> ec_target c \<notin> set busy"
  by (auto simp: passes_def make_pipeline_def safety_gate_def feasibility_gate_def
      resource_conflict_gate_def check_supported_None check_forbidden_None
      split: option.splits)
     (metis check_forbidden_None option.distinct(1))+

lemma default_pipeline_passes:
  "passes (make_pipeline None None None) c \<longleftrightarrow> ec_target c \<noteq> [] \<and> ec_faults c = []"
  by (auto simp: passes_def make_pipeline_def safety_gate_def feasibility_gate_def
      resource_conflict_gate_def check_supported_None split: option.splits)

section \<open>Campaigns, progress, the plan\<close>

datatype CampaignMode = SUPERVISED | AUTONOMOUS

datatype CampaignState =
  CAMP_DRAFT | CAMP_APPROVED | CAMP_RUNNING | CAMP_PAUSED | CAMP_COMPLETED | CAMP_ABORTED | CAMP_ARCHIVED

datatype CampaignStopReason =
  COVERAGE_REACHED | BUDGET_EXHAUSTED | DEADLINE_PASSED | STOP_CONDITION | RESOURCE_CONFLICT | NOT_STARTED

datatype ApproveDecision = APP_PENDING | APP_APPROVED | APP_DENIED

record CampaignLogEntry =
  le_candidate :: string
  le_decision :: ApproveDecision
  le_rationale :: string
  le_run :: "string option"
  le_outcome :: "string option"

record M5Campaign =
  mc_id :: string
  mc_name :: string
  mc_targets :: "string list"
  mc_coverage_target :: int
  mc_max_runs :: int
  mc_mode :: CampaignMode
  mc_risk_ceiling :: RiskLevel
  mc_deadline :: "rat option"
  mc_stop_condition :: string
  mc_target_profiles :: "string list"
  mc_engine_policy :: string
  mc_budget :: "int option"
  mc_stop_conditions :: "string list"

definition new_campaign :: "string \<Rightarrow> string \<Rightarrow> M5Campaign" where
  "new_campaign i name =
     \<lparr>mc_id = i, mc_name = name, mc_targets = [], mc_coverage_target = 1, mc_max_runs = 100,
      mc_mode = SUPERVISED, mc_risk_ceiling = HIGH, mc_deadline = None, mc_stop_condition = [],
      mc_target_profiles = [], mc_engine_policy = [], mc_budget = None, mc_stop_conditions = []\<rparr>"

record CampaignManifestEntry =
  me_candidate :: string
  me_target :: string
  me_fault :: string
  me_state :: string

record CampaignExecutionManifest =
  em_campaign :: string
  em_entries :: "CampaignManifestEntry list"
  em_engine_policy :: string
  em_target_profiles :: "string list"
  em_budget :: "int option"
  em_deadline :: "rat option"
  em_stop_conditions :: "string list"

definition plan_campaign :: "(string \<Rightarrow> string) \<Rightarrow> M5Campaign \<Rightarrow> ExperimentCandidate list
    \<Rightarrow> CampaignExecutionManifest" where
  "plan_campaign sha c source_candidates =
     \<lparr>em_campaign = mc_id c,
      em_entries = map (\<lambda>k. \<lparr>me_candidate = candidate_id sha k, me_target = ec_target k,
                              me_fault = primary_fault k, me_state = ''planned''\<rparr>) source_candidates,
      em_engine_policy = mc_engine_policy c, em_target_profiles = mc_target_profiles c,
      em_budget = Some (case mc_budget c of Some b \<Rightarrow> b | None \<Rightarrow> mc_max_runs c),
      em_deadline = mc_deadline c,
      em_stop_conditions =
        (if mc_stop_condition c \<noteq> []
         then (if mc_stop_conditions c \<noteq> [] then mc_stop_conditions c else [mc_stop_condition c])
         else mc_stop_conditions c)\<rparr>"

record CampaignProgress =
  pg_runs :: int
  pg_cells :: int
  pg_rejected :: int
  pg_pending :: int
  pg_denied :: int
  pg_aborted :: int
  pg_log :: "CampaignLogEntry list"

definition fresh_progress :: CampaignProgress where
  "fresh_progress = \<lparr>pg_runs = 0, pg_cells = 0, pg_rejected = 0, pg_pending = 0, pg_denied = 0,
     pg_aborted = 0, pg_log = []\<rparr>"

definition log_decision :: "string \<Rightarrow> ApproveDecision \<Rightarrow> string \<Rightarrow> CampaignProgress \<Rightarrow> CampaignProgress" where
  "log_decision i d why p =
     p\<lparr>pg_log := pg_log p @ [\<lparr>le_candidate = i, le_decision = d, le_rationale = why, le_run = None,
                              le_outcome = None\<rparr>]\<rparr>"

section \<open>The engine\<close>

text \<open>
  The constructor's arguments. Each collaborator is a function of the candidate and of the world
  \<open>'w\<close> it acts on; the left summand is an exception of its own, which the engine lets through.
  No collaborator holds the engine.
\<close>

record 'w collaborators =
  co_campaign :: M5Campaign
  co_sha :: "string \<Rightarrow> string"
  co_next :: "'w \<Rightarrow> (py_error + ExperimentCandidate option) \<times> 'w"
  co_gates :: gate_pipeline
  co_run :: "ExperimentCandidate \<Rightarrow> 'w \<Rightarrow> (py_error + string \<times> string \<times> CoverageCell) \<times> 'w"
  co_approver :: "(ExperimentCandidate \<Rightarrow> 'w \<Rightarrow> (py_error + bool) \<times> 'w) option"
  co_target :: "(M5Campaign \<Rightarrow> CampaignProgress \<Rightarrow> int) option"
  co_blast :: "(ExperimentCandidate \<Rightarrow> CampaignProgress \<Rightarrow> string option) option"
  co_rationale :: "(ExperimentCandidate \<Rightarrow> string) option"
  co_now :: "'w \<Rightarrow> rat \<times> 'w"
  co_persist :: "(CampaignState \<Rightarrow> CampaignState \<Rightarrow> 'w \<Rightarrow> (py_error + unit) \<times> 'w) option"

record 'w engine =
  en_progress :: CampaignProgress
  en_stack :: "CampaignStopReason list"
  en_covered :: "string set"
  en_stop :: bool
  en_state :: CampaignState
  en_recovery :: string
  en_world :: 'w

definition new_engine :: "'w \<Rightarrow> 'w engine" where
  "new_engine w = \<lparr>en_progress = fresh_progress, en_stack = [], en_covered = {}, en_stop = False,
     en_state = CAMP_DRAFT, en_recovery = ''not_started'', en_world = w\<rparr>"

text \<open>What an engine call can raise: the stop, or an exception.\<close>

datatype engine_exit = CampaignStop CampaignStopReason | Raised py_error

text \<open>Statements in sequence: an exception keeps the state reached so far.\<close>

definition seq_do :: "('e + 'a) \<times> 's \<Rightarrow> ('a \<Rightarrow> 's \<Rightarrow> ('e + 'b) \<times> 's) \<Rightarrow> ('e + 'b) \<times> 's" where
  "seq_do r k = (case r of (Inl x, s) \<Rightarrow> (Inl x, s) | (Inr a, s) \<Rightarrow> k a s)"

lemma seq_do_simps [simp]: "seq_do (Inl x, s) k = (Inl x, s)" "seq_do (Inr a, s) k = k a s"
  by (simp_all add: seq_do_def)

definition call_out :: "('w \<Rightarrow> (py_error + 'a) \<times> 'w) \<Rightarrow> 'w engine \<Rightarrow> (engine_exit + 'a) \<times> 'w engine" where
  "call_out f e =
     (case f (en_world e) of
        (Inl x, w) \<Rightarrow> (Inl (Raised x), e\<lparr>en_world := w\<rparr>)
      | (Inr a, w) \<Rightarrow> (Inr a, e\<lparr>en_world := w\<rparr>))"

fun campaign_successors :: "CampaignState \<Rightarrow> CampaignState set" where
  "campaign_successors CAMP_DRAFT = {CAMP_APPROVED, CAMP_ABORTED}"
| "campaign_successors CAMP_APPROVED = {CAMP_RUNNING, CAMP_ABORTED}"
| "campaign_successors CAMP_RUNNING = {CAMP_PAUSED, CAMP_COMPLETED, CAMP_ABORTED}"
| "campaign_successors CAMP_PAUSED = {CAMP_RUNNING, CAMP_ABORTED}"
| "campaign_successors CAMP_COMPLETED = {CAMP_ARCHIVED}"
| "campaign_successors CAMP_ABORTED = {CAMP_ARCHIVED}"
| "campaign_successors CAMP_ARCHIVED = {}"

definition engine_transition :: "'w collaborators \<Rightarrow> CampaignState \<Rightarrow> 'w engine
    \<Rightarrow> (engine_exit + unit) \<times> 'w engine" where
  "engine_transition co new e =
     (if new \<notin> campaign_successors (en_state e) then (Inl (Raised ValueErr), e)
      else case co_persist co of
             None \<Rightarrow> (Inr (), e\<lparr>en_state := new\<rparr>)
           | Some f \<Rightarrow> call_out (f (en_state e) new) (e\<lparr>en_state := new\<rparr>))"

definition engine_start :: "'w collaborators \<Rightarrow> 'w engine \<Rightarrow> (engine_exit + unit) \<times> 'w engine" where
  "engine_start co e =
     seq_do (if en_state e = CAMP_DRAFT then engine_transition co CAMP_APPROVED e else (Inr (), e))
       (\<lambda>_ e1. seq_do (if en_state e1 = CAMP_APPROVED then engine_transition co CAMP_RUNNING e1
                      else (Inr (), e1))
       (\<lambda>_ e2. (Inr (), e2\<lparr>en_recovery := ''ready''\<rparr>)))"

definition engine_pause :: "'w collaborators \<Rightarrow> 'w engine \<Rightarrow> (engine_exit + unit) \<times> 'w engine" where
  "engine_pause co e =
     seq_do (engine_transition co CAMP_PAUSED e) (\<lambda>_ e1. (Inr (), e1\<lparr>en_recovery := ''paused''\<rparr>))"

definition engine_resume :: "'w collaborators \<Rightarrow> 'w engine \<Rightarrow> (engine_exit + unit) \<times> 'w engine" where
  "engine_resume co e =
     (if en_state e \<noteq> CAMP_PAUSED then (Inl (Raised ValueErr), e)
      else seq_do (engine_transition co CAMP_RUNNING e)
             (\<lambda>_ e1. (Inr (), e1\<lparr>en_recovery := ''resumed''\<rparr>)))"

definition request_stop :: "'w engine \<Rightarrow> 'w engine" where
  "request_stop e = e\<lparr>en_stop := True\<rparr>"

definition budget_exhausted :: "'w collaborators \<Rightarrow> 'w engine \<Rightarrow> bool" where
  "budget_exhausted co e \<longleftrightarrow> pg_runs (en_progress e) \<ge> mc_max_runs (co_campaign co)"

definition deadline_passed :: "'w collaborators \<Rightarrow> 'w engine \<Rightarrow> bool \<times> 'w engine" where
  "deadline_passed co e =
     (case mc_deadline (co_campaign co) of
        None \<Rightarrow> (False, e)
      | Some d \<Rightarrow> (case co_now co (en_world e) of (t, w) \<Rightarrow> (t > d, e\<lparr>en_world := w\<rparr>)))"

definition coverage_goal :: "'w collaborators \<Rightarrow> CampaignProgress \<Rightarrow> int" where
  "coverage_goal co p =
     (case co_target co of
        None \<Rightarrow> mc_coverage_target (co_campaign co)
      | Some f \<Rightarrow> f (co_campaign co) p)"

definition coverage_reached :: "'w collaborators \<Rightarrow> 'w engine \<Rightarrow> bool" where
  "coverage_reached co e \<longleftrightarrow> int (card (en_covered e)) \<ge> coverage_goal co (en_progress e)"

definition stop_reason :: "'w collaborators \<Rightarrow> 'w engine \<Rightarrow> CampaignStopReason option \<times> 'w engine" where
  "stop_reason co e =
     (if budget_exhausted co e then (Some BUDGET_EXHAUSTED, e)
      else case deadline_passed co e of (late, e1) \<Rightarrow>
        (if late then Some DEADLINE_PASSED
         else if en_stop e1 then Some STOP_CONDITION
         else if coverage_reached co e1 then Some COVERAGE_REACHED
         else None, e1))"

definition check_stop :: "'w collaborators \<Rightarrow> 'w engine \<Rightarrow> (engine_exit + unit) \<times> 'w engine" where
  "check_stop co e =
     (case stop_reason co e of
        (None, e1) \<Rightarrow> (Inr (), e1)
      | (Some r, e1) \<Rightarrow> (Inl (CampaignStop r), e1))"

abbreviation note_decision :: "string \<Rightarrow> ApproveDecision \<Rightarrow> string \<Rightarrow> 'w engine \<Rightarrow> 'w engine" where
  "note_decision i d why e \<equiv> e\<lparr>en_progress := log_decision i d why (en_progress e)\<rparr>"

definition count_up :: "(CampaignProgress \<Rightarrow> CampaignProgress) \<Rightarrow> 'w engine \<Rightarrow> 'w engine" where
  "count_up f e = e\<lparr>en_progress := f (en_progress e)\<rparr>"

text \<open>A rejected candidate: a resource conflict stops the campaign, any other is skipped.\<close>

definition turn_away :: "'w collaborators \<Rightarrow> CandidateDecision \<Rightarrow> ExperimentCandidate \<Rightarrow> 'w engine
    \<Rightarrow> (engine_exit + unit) \<times> 'w engine" where
  "turn_away co d c e =
     (if cd_gate d = Some GATE_RESOURCE_CONFLICT
      then (Inl (CampaignStop RESOURCE_CONFLICT),
            note_decision (candidate_id (co_sha co) c) APP_DENIED
              (if cd_reason d = [] then ''resource conflict'' else cd_reason d)
              (count_up (\<lambda>p. p\<lparr>pg_aborted := pg_aborted p + 1\<rparr>) e))
      else (Inr (), count_up (\<lambda>p. p\<lparr>pg_rejected := pg_rejected p + 1\<rparr>) e))"

text \<open>The supervised question: whether the drill may run.\<close>

definition ask_approval :: "'w collaborators \<Rightarrow> ExperimentCandidate \<Rightarrow> 'w engine
    \<Rightarrow> (engine_exit + bool) \<times> 'w engine" where
  "ask_approval co c e =
     (if mc_mode (co_campaign co) \<noteq> SUPERVISED then (Inr True, e)
      else
        let i = candidate_id (co_sha co) c;
            why = (case co_rationale co of None \<Rightarrow> [] | Some f \<Rightarrow> f c);
            e1 = note_decision i APP_PENDING why
                   (count_up (\<lambda>p. p\<lparr>pg_pending := pg_pending p + 1\<rparr>) e)
        in seq_do (case co_approver co of None \<Rightarrow> (Inr False, e1) | Some f \<Rightarrow> call_out (f c) e1)
             (\<lambda>ok e2. if ok then (Inr True, note_decision i APP_APPROVED why e2)
                     else (Inr False, note_decision i APP_DENIED why
                             (count_up (\<lambda>p. p\<lparr>pg_denied := pg_denied p + 1\<rparr>) e2))))"

definition blast_refusal :: "'w collaborators \<Rightarrow> ExperimentCandidate \<Rightarrow> 'w engine \<Rightarrow> string option" where
  "blast_refusal co c e =
     (case co_blast co of None \<Rightarrow> None | Some f \<Rightarrow> f c (en_progress e))"

text \<open>The bound check, the drill, its cell, and the stop check after it.\<close>

definition execute_drill :: "'w collaborators \<Rightarrow> ExperimentCandidate \<Rightarrow> 'w engine
    \<Rightarrow> (engine_exit + unit) \<times> 'w engine" where
  "execute_drill co c e =
     (case blast_refusal co c e of
        Some why \<Rightarrow>
          (Inl (CampaignStop RESOURCE_CONFLICT),
           note_decision (candidate_id (co_sha co) c) APP_DENIED (''bound-abort: '' @ why)
             (count_up (\<lambda>p. p\<lparr>pg_aborted := pg_aborted p + 1\<rparr>) e))
      | None \<Rightarrow>
          seq_do (call_out (co_run co c) e)
            (\<lambda>(run_id, outcome_id, cell) e1.
               let e2 = count_up (\<lambda>p. p\<lparr>pg_runs := pg_runs p + 1\<rparr>) e1
               in case cell_key_of cell of
                    Inl x \<Rightarrow> (Inl (Raised x), e2)
                  | Inr k \<Rightarrow> check_stop co (e2\<lparr>en_covered := insert k (en_covered e2)\<rparr>)))"

definition consider_candidate :: "'w collaborators \<Rightarrow> ExperimentCandidate \<Rightarrow> 'w engine
    \<Rightarrow> (engine_exit + unit) \<times> 'w engine" where
  "consider_candidate co c e =
     (let d = gate_candidate (co_gates co) c
      in if cd_rejected d then turn_away co d c e
         else seq_do (ask_approval co c e)
                (\<lambda>ok e1. if ok then execute_drill co c e1 else (Inr (), e1)))"

definition iterate :: "'w collaborators \<Rightarrow> 'w engine \<Rightarrow> (engine_exit + unit) \<times> 'w engine" where
  "iterate co e =
     seq_do (check_stop co e) (\<lambda>_ e1.
     seq_do (call_out (co_next co) e1) (\<lambda>k e2.
       case k of
         None \<Rightarrow> (Inl (CampaignStop BUDGET_EXHAUSTED), e2\<lparr>en_stack := en_stack e2 @ [BUDGET_EXHAUSTED]\<rparr>)
       | Some c \<Rightarrow> consider_candidate co c e2))"

text \<open>The loop of \<open>run_until_stop\<close>; a campaign that never stops has no value.\<close>

definition finish :: "'w collaborators \<Rightarrow> CampaignStopReason \<Rightarrow> 'w engine \<Rightarrow> (engine_exit + CampaignStopReason) \<times> 'w engine" where
  "finish co r e =
     seq_do (engine_transition co (if r = RESOURCE_CONFLICT then CAMP_ABORTED else CAMP_COMPLETED)
               (e\<lparr>en_stack := en_stack e @ [r]\<rparr>))
       (\<lambda>_ e1. (Inr r, e1))"

fun loop_exit :: "'w collaborators \<Rightarrow> engine_exit \<Rightarrow> 'w engine \<Rightarrow> (engine_exit + CampaignStopReason) \<times> 'w engine" where
  "loop_exit co (CampaignStop r) e = finish co r e"
| "loop_exit co (Raised x) e = (Inl (Raised x), e)"

partial_function (option) drive ::
  "'w collaborators \<Rightarrow> 'w engine \<Rightarrow> ((engine_exit + CampaignStopReason) \<times> 'w engine) option" where
  "drive co e =
     (case iterate co e of
        (Inr _, e1) \<Rightarrow> drive co e1
      | (Inl x, e1) \<Rightarrow> Some (loop_exit co x e1))"

definition run_until_stop :: "'w collaborators \<Rightarrow> 'w engine
    \<Rightarrow> ((engine_exit + CampaignStopReason) \<times> 'w engine) option" where
  "run_until_stop co e =
     (case (if en_state e = CAMP_DRAFT then engine_start co e else (Inr (), e)) of
        (Inl x, e1) \<Rightarrow> Some (Inl x, e1)
      | (Inr _, e1) \<Rightarrow> drive co e1)"

end
