(* ===== verification/Campaign_Laws.thy ===== *)
theory Campaign_Laws
  imports Campaign_Loop
begin

text \<open>
  What holds of the campaign engine over any collaborators: a ghost trace of the questions put to the
  approver and of the drills handed to the runner shows that nothing runs ungated, unapproved or over
  budget; a source that runs dry ends the loop; the reason returned is the reason that held.
\<close>

section \<open>The ghost trace\<close>

text \<open>
  \<open>traced co\<close> is \<open>co\<close> with a list beside its world, newest call first, which nothing reads:
  \<open>traced_iterate\<close> says that forgetting the list gives the engine over \<open>co\<close>.
\<close>

datatype drill_event = Asked ExperimentCandidate bool | Ran ExperimentCandidate bool

definition beside :: "('w \<Rightarrow> 'a \<times> 'w) \<Rightarrow> 'w \<times> 't \<Rightarrow> 'a \<times> ('w \<times> 't)" where
  "beside f = (\<lambda>(w, tr). case f w of (r, w') \<Rightarrow> (r, (w', tr)))"

definition note_call :: "('w \<Rightarrow> 'a \<times> 'w) \<Rightarrow> ('a \<Rightarrow> 't) \<Rightarrow> 'w \<times> 't list \<Rightarrow> 'a \<times> ('w \<times> 't list)" where
  "note_call f ev = (\<lambda>(w, tr). case f w of (r, w') \<Rightarrow> (r, (w', ev r # tr)))"

definition returned :: "'e + 'a \<Rightarrow> bool" where
  "returned r = (case r of Inl _ \<Rightarrow> False | Inr _ \<Rightarrow> True)"

lemma returned_simps [simp]: "\<not> returned (Inl x)" "returned (Inr y)"
  by (simp_all add: returned_def)

definition traced :: "'w collaborators \<Rightarrow> ('w \<times> drill_event list) collaborators" where
  "traced co =
     \<lparr>co_campaign = co_campaign co, co_sha = co_sha co, co_next = beside (co_next co),
      co_gates = co_gates co,
      co_run = (\<lambda>c. note_call (co_run co c) (\<lambda>r. Ran c (returned r))),
      co_approver = map_option (\<lambda>f c. note_call (f c) (\<lambda>r. Asked c (r = Inr True))) (co_approver co),
      co_target = co_target co, co_blast = co_blast co, co_rationale = co_rationale co,
      co_now = beside (co_now co),
      co_persist = map_option (\<lambda>f old new. beside (f old new)) (co_persist co)\<rparr>"

lemma traced_sel [simp]:
  "co_campaign (traced co) = co_campaign co" "co_sha (traced co) = co_sha co"
  "co_gates (traced co) = co_gates co" "co_target (traced co) = co_target co"
  "co_blast (traced co) = co_blast co" "co_rationale (traced co) = co_rationale co"
  "co_next (traced co) = beside (co_next co)" "co_now (traced co) = beside (co_now co)"
  "co_run (traced co) c = note_call (co_run co c) (\<lambda>r. Ran c (returned r))"
  "co_approver (traced co)
     = map_option (\<lambda>f c. note_call (f c) (\<lambda>r. Asked c (r = Inr True))) (co_approver co)"
  by (simp_all add: traced_def)

definition calls :: "('w \<times> 't) engine \<Rightarrow> 't" where
  "calls e = snd (en_world e)"

definition forget :: "('w \<times> 't) engine \<Rightarrow> 'w engine" where
  "forget e = \<lparr>en_progress = en_progress e, en_stack = en_stack e, en_covered = en_covered e,
     en_stop = en_stop e, en_state = en_state e, en_recovery = en_recovery e,
     en_world = fst (en_world e)\<rparr>"

abbreviation forgetting :: "'r \<times> ('w \<times> 't) engine \<Rightarrow> 'r \<times> 'w engine" where
  "forgetting \<equiv> map_prod id forget"

lemma forget_sel [simp]:
  "en_progress (forget e) = en_progress e" "en_stack (forget e) = en_stack e"
  "en_covered (forget e) = en_covered e" "en_stop (forget e) = en_stop e"
  "en_state (forget e) = en_state e" "en_recovery (forget e) = en_recovery e"
  "en_world (forget e) = fst (en_world e)"
  by (simp_all add: forget_def)

lemma forget_upd [simp]:
  "forget (e\<lparr>en_progress := p\<rparr>) = (forget e)\<lparr>en_progress := p\<rparr>"
  "forget (e\<lparr>en_stack := ss\<rparr>) = (forget e)\<lparr>en_stack := ss\<rparr>"
  "forget (e\<lparr>en_covered := cv\<rparr>) = (forget e)\<lparr>en_covered := cv\<rparr>"
  "forget (e\<lparr>en_state := s\<rparr>) = (forget e)\<lparr>en_state := s\<rparr>"
  "forget (e\<lparr>en_recovery := t\<rparr>) = (forget e)\<lparr>en_recovery := t\<rparr>"
  "forget (e\<lparr>en_world := wt\<rparr>) = (forget e)\<lparr>en_world := fst wt\<rparr>"
  by (simp_all add: forget_def)

lemma forget_seq:
  assumes "forgetting r = r'" and "\<And>a e. forgetting (k a e) = k' a (forget e)"
  shows "forgetting (seq_do r k) = seq_do r' k'"
  using assms by (cases r; cases "fst r") (auto simp: seq_do_def)

lemma forget_call_beside: "forgetting (call_out (beside f) e) = call_out f (forget e)"
  by (cases "en_world e") (auto simp: call_out_def beside_def split: prod.splits sum.splits)

lemma forget_call_noting: "forgetting (call_out (note_call f ev) e) = call_out f (forget e)"
  by (cases "en_world e") (auto simp: call_out_def note_call_def split: prod.splits sum.splits)

lemma forget_check: "forgetting (check_stop (traced co) e) = check_stop co (forget e)"
  by (cases "en_world e")
     (auto simp: check_stop_def stop_reason_def budget_exhausted_def deadline_passed_def beside_def
        coverage_reached_def coverage_goal_def split: option.splits prod.splits)

lemma forget_turn_away: "forgetting (turn_away (traced co) d c e) = turn_away co d c (forget e)"
  by (simp add: turn_away_def count_up_def)

lemma forget_ask: "forgetting (ask_approval (traced co) c e) = ask_approval co c (forget e)"
proof (cases "mc_mode (co_campaign co) \<noteq> SUPERVISED \<or> co_approver co = None")
  case True
  then show ?thesis by (auto simp: ask_approval_def Let_def count_up_def)
next
  case False
  then obtain f where f: "co_approver co = Some f" "mc_mode (co_campaign co) = SUPERVISED" by auto
  then show ?thesis
    by (auto simp: ask_approval_def Let_def count_up_def forget_call_noting
             intro!: forget_seq)
qed

lemma forget_blast: "blast_refusal (traced co) c e = blast_refusal co c (forget e)"
  by (auto simp: blast_refusal_def split: option.split)

lemma forget_execute: "forgetting (execute_drill (traced co) c e) = execute_drill co c (forget e)"
  unfolding execute_drill_def forget_blast
  by (auto simp: Let_def forget_call_noting count_up_def forget_check split: sum.splits option.split
           intro!: forget_seq)

lemma traced_iterate: "forgetting (iterate (traced co) e) = iterate co (forget e)"
  unfolding iterate_def consider_candidate_def
  by (intro forget_seq)
     (auto simp: forget_check forget_call_beside forget_turn_away forget_ask forget_execute Let_def
           split: option.split intro!: forget_seq)

section \<open>Bounds\<close>

text \<open>
  A trace is \<open>licensed\<close> when every candidate handed to the runner passes the gates and, under
  supervision, the call just before it was the approver's yes to the same candidate.
\<close>

fun licensed :: "M5Campaign \<Rightarrow> gate_pipeline \<Rightarrow> drill_event list \<Rightarrow> bool" where
  "licensed m p [] = True"
| "licensed m p (Asked c b # tr) = licensed m p tr"
| "licensed m p (Ran c b # tr) =
     (passes p c \<and> (mc_mode m = SUPERVISED \<longrightarrow> tr \<noteq> [] \<and> hd tr = Asked c True) \<and> licensed m p tr)"

fun drills :: "drill_event list \<Rightarrow> int" where
  "drills [] = 0"
| "drills (Ran c b # tr) = drills tr + (if b then 1 else 0)"
| "drills (Asked c b # tr) = drills tr"

abbreviation runs :: "'w engine \<Rightarrow> int" where
  "runs e \<equiv> pg_runs (en_progress e)"

definition in_bounds :: "'w collaborators \<Rightarrow> ('w \<times> drill_event list) engine \<Rightarrow> bool" where
  "in_bounds co e \<longleftrightarrow>
     licensed (co_campaign co) (co_gates co) (calls e) \<and> runs e = drills (calls e)
     \<and> runs e \<le> max 0 (mc_max_runs (co_campaign co))"

text \<open>What each piece does to the trace and to the counter.\<close>

abbreviation same_calls :: "('w \<times> 't) engine \<Rightarrow> ('w \<times> 't) engine \<Rightarrow> bool" where
  "same_calls e e' \<equiv> calls e' = calls e \<and> runs e' = runs e"

lemma calls_upd [simp]:
  "calls (e\<lparr>en_progress := p\<rparr>) = calls e" "calls (e\<lparr>en_stack := ss\<rparr>) = calls e"
  "calls (e\<lparr>en_covered := cv\<rparr>) = calls e" "calls (e\<lparr>en_state := s\<rparr>) = calls e"
  "calls (e\<lparr>en_recovery := t\<rparr>) = calls e" "calls (e\<lparr>en_stop := b\<rparr>) = calls e"
  "calls (e\<lparr>en_world := wt\<rparr>) = snd wt"
  by (simp_all add: calls_def)

lemma runs_log [simp]: "pg_runs (log_decision i d why p) = pg_runs p"
  by (simp add: log_decision_def)

lemma call_beside: "call_out (beside f) e = (r, e') \<Longrightarrow> same_calls e e'"
  by (cases "en_world e") (auto simp: call_out_def beside_def calls_def split: prod.splits sum.splits)

lemma call_asked:
  "call_out (note_call f (\<lambda>r. Asked c (r = Inr True))) e = (r, e') \<Longrightarrow>
     runs e' = runs e \<and> calls e' = Asked c (r = Inr True) # calls e"
  by (cases "en_world e") (auto simp: call_out_def note_call_def calls_def split: prod.splits sum.splits)

lemma call_ran:
  "call_out (note_call f (\<lambda>r. Ran c (returned r))) e = (r, e') \<Longrightarrow>
     runs e' = runs e \<and> calls e' = Ran c (returned r) # calls e"
  by (cases "en_world e") (auto simp: call_out_def note_call_def calls_def split: prod.splits sum.splits)

lemma check_stop_calls:
  "check_stop (traced co) e = (r, e') \<Longrightarrow>
     same_calls e e' \<and> (r = Inr () \<longrightarrow> runs e < mc_max_runs (co_campaign co))"
  by (cases "en_world e")
     (auto simp: check_stop_def stop_reason_def budget_exhausted_def deadline_passed_def beside_def
        calls_def split: option.splits prod.splits if_splits)

lemma turn_away_calls: "turn_away co d c e = (r, e') \<Longrightarrow> same_calls e e'"
  by (auto simp: turn_away_def count_up_def split: if_splits)

lemma ask_calls:
  assumes "ask_approval (traced co) c e = (r, e')"
  shows "runs e' = runs e \<and>
     (calls e' = calls e \<and> (r = Inr True \<longrightarrow> mc_mode (co_campaign co) \<noteq> SUPERVISED)
      \<or> calls e' = Asked c (r = Inr True) # calls e)"
proof (cases "mc_mode (co_campaign co) \<noteq> SUPERVISED \<or> co_approver co = None")
  case True
  then show ?thesis
    using assms by (auto simp: ask_approval_def Let_def count_up_def split: if_splits)
next
  case False
  then obtain f where f: "co_approver co = Some f" "mc_mode (co_campaign co) = SUPERVISED" by auto
  let ?why = "case co_rationale co of None \<Rightarrow> [] | Some f \<Rightarrow> f c"
  let ?e1 = "note_decision (candidate_id (co_sha co) c) APP_PENDING ?why
               (count_up (\<lambda>p. p\<lparr>pg_pending := pg_pending p + 1\<rparr>) e)"
  obtain r1 e1 where c1: "call_out (note_call (f c) (\<lambda>r. Asked c (r = Inr True))) ?e1 = (r1, e1)"
    by fastforce
  note law = call_asked [OF c1]
  have eq: "(r, e') = seq_do (r1, e1)
      (\<lambda>ok e2. if ok then (Inr True, note_decision (candidate_id (co_sha co) c) APP_APPROVED ?why e2)
              else (Inr False, note_decision (candidate_id (co_sha co) c) APP_DENIED ?why
                      (count_up (\<lambda>p. p\<lparr>pg_denied := pg_denied p + 1\<rparr>) e2)))"
    using f c1 assms by (simp add: ask_approval_def Let_def)
  have counted: "runs e1 = runs e" "calls e1 = Asked c (r1 = Inr True) # calls e"
    using law by (simp_all add: count_up_def)
  show ?thesis
  proof (cases r1)
    case (Inl x)
    with eq counted show ?thesis by simp
  next
    case (Inr ok)
    with eq counted show ?thesis by (cases ok) (simp_all add: count_up_def)
  qed
qed

lemma execute_calls:
  assumes "execute_drill (traced co) c e = (r, e')"
  shows "same_calls e e' \<or>
     (\<exists>b. calls e' = Ran c b # calls e \<and> runs e' = runs e + (if b then 1 else 0))"
proof (cases "blast_refusal (traced co) c e")
  case (Some why)
  then have "e' = note_decision (candidate_id (co_sha co) c) APP_DENIED (''bound-abort: '' @ why)
      (count_up (\<lambda>p. p\<lparr>pg_aborted := pg_aborted p + 1\<rparr>) e)"
    using assms by (simp add: execute_drill_def)
  then have "same_calls e e'" by (simp add: count_up_def)
  then show ?thesis ..
next
  case None
  obtain r1 e1 where c1: "call_out (note_call (co_run co c) (\<lambda>r. Ran c (returned r))) e = (r1, e1)"
    by fastforce
  note k1 = call_ran [OF c1]
  show ?thesis
  proof (cases r1)
    case (Inl err)
    then have "e' = e1" using assms None c1 by (simp add: execute_drill_def)
    then show ?thesis using k1 Inl by (intro disjI2 exI [of _ False]) simp
  next
    case (Inr res)
    obtain run_id outcome_id cell where res: "res = (run_id, outcome_id, cell)" by (cases res)
    let ?e2 = "count_up (\<lambda>p. p\<lparr>pg_runs := pg_runs p + 1\<rparr>) e1"
    have drill: "(case cell_key_of cell of Inl x \<Rightarrow> (Inl (Raised x), ?e2)
        | Inr k \<Rightarrow> check_stop (traced co) (?e2\<lparr>en_covered := insert k (en_covered ?e2)\<rparr>)) = (r, e')"
      using assms None c1 Inr res by (simp add: execute_drill_def Let_def)
    have "same_calls ?e2 e'"
    proof (cases "cell_key_of cell")
      case (Inr k)
      then show ?thesis using drill check_stop_calls [of co _ r e'] by simp
    qed (use drill in simp)
    then show ?thesis using k1 Inr by (intro disjI2 exI [of _ True]) (simp add: count_up_def)
  qed
qed

lemma in_boundsI_same: "in_bounds co e \<Longrightarrow> same_calls e e' \<Longrightarrow> in_bounds co e'"
  by (simp add: in_bounds_def)

lemma consider_in_bounds:
  assumes inv: "in_bounds co e" and room: "runs e < mc_max_runs (co_campaign co)"
    and step: "consider_candidate (traced co) c e = (r, e')"
  shows "in_bounds co e'"
proof (cases "passes (co_gates co) c")
  case False
  then have "cd_rejected (gate_candidate (co_gates co) c)"
    using gate_candidate_accepts [of "co_gates co" c] by simp
  then have "turn_away (traced co) (gate_candidate (co_gates co) c) c e = (r, e')"
    using step by (simp add: consider_candidate_def Let_def)
  then show ?thesis using inv turn_away_calls in_boundsI_same by blast
next
  case ok: True
  obtain r3 e3 where s3: "ask_approval (traced co) c e = (r3, e3)" by fastforce
  note k3 = ask_calls [OF s3]
  have inv3: "in_bounds co e3" using inv k3 by (auto simp: in_bounds_def)
  have "\<not> cd_rejected (gate_candidate (co_gates co) c)" using ok gate_candidate_accepts by simp
  then have rest: "seq_do (r3, e3) (\<lambda>ok e1. if ok then execute_drill (traced co) c e1 else (Inr (), e1)) = (r, e')"
    using step s3 by (simp add: consider_candidate_def Let_def)
  show ?thesis
  proof (cases "r3 = Inr True")
    case True
    then have "execute_drill (traced co) c e3 = (r, e')" using rest by simp
    from execute_calls [OF this] show ?thesis
      using inv3 room k3 True ok by (auto simp: in_bounds_def)
  next
    case False
    then have "e' = e3" using rest by (cases r3) auto
    then show ?thesis using inv3 by simp
  qed
qed

lemma iterate_in_bounds:
  assumes inv: "in_bounds co e" and it: "iterate (traced co) e = (r, e')"
  shows "in_bounds co e'"
proof -
  obtain r1 e1 where s1: "check_stop (traced co) e = (r1, e1)" by fastforce
  obtain r2 e2 where s2: "call_out (beside (co_next co)) e1 = (r2, e2)" by fastforce
  note law = check_stop_calls [OF s1] call_beside [OF s2]
  have inv12: "in_bounds co e1" "in_bounds co e2"
    using inv law by (auto intro: in_boundsI_same)
  show ?thesis
  proof (cases r1)
    case (Inl x)
    then show ?thesis using it s1 inv12 by (simp add: iterate_def)
  next
    case ok: (Inr u)
    show ?thesis
    proof (cases r2)
      case (Inl x)
      then show ?thesis using it s1 s2 ok inv12 by (simp add: iterate_def)
    next
      case (Inr k)
      have room: "runs e2 < mc_max_runs (co_campaign co)" using law ok by simp
      have "(case k of
               None \<Rightarrow> (Inl (CampaignStop BUDGET_EXHAUSTED), e2\<lparr>en_stack := en_stack e2 @ [BUDGET_EXHAUSTED]\<rparr>)
             | Some c \<Rightarrow> consider_candidate (traced co) c e2) = (r, e')"
        using it s1 s2 ok Inr by (simp add: iterate_def)
      then show ?thesis
        using inv12 consider_in_bounds [OF inv12(2) room]
        by (cases k) (auto intro: in_boundsI_same)
    qed
  qed
qed

section \<open>Every call of the engine\<close>

text \<open>
  The engines reached by calls in any order, a call that raised included, from the constructor's.
\<close>

inductive engine_reachable :: "'w collaborators \<Rightarrow> 'w engine \<Rightarrow> 'w engine \<Rightarrow> bool" for co e0 where
  here: "engine_reachable co e0 e0"
| started: "engine_reachable co e0 e \<Longrightarrow> engine_start co e = (r, e') \<Longrightarrow> engine_reachable co e0 e'"
| paused: "engine_reachable co e0 e \<Longrightarrow> engine_pause co e = (r, e') \<Longrightarrow> engine_reachable co e0 e'"
| resumed: "engine_reachable co e0 e \<Longrightarrow> engine_resume co e = (r, e') \<Longrightarrow> engine_reachable co e0 e'"
| stopped: "engine_reachable co e0 e \<Longrightarrow> engine_reachable co e0 (request_stop e)"
| iterated: "engine_reachable co e0 e \<Longrightarrow> iterate co e = (r, e') \<Longrightarrow> engine_reachable co e0 e'"
| driven: "engine_reachable co e0 e \<Longrightarrow> run_until_stop co e = Some (q, e') \<Longrightarrow> engine_reachable co e0 e'"

text \<open>The last step of a loop that ended, from a state with any invariant of the steps.\<close>

lemma drive_ends:
  assumes run: "drive co e = Some y" and start: "I e"
    and step: "\<And>e r e'. I e \<Longrightarrow> iterate co e = (r, e') \<Longrightarrow> I e'"
  shows "\<exists>e0 x e1. I e0 \<and> iterate co e0 = (Inl x, e1) \<and> y = loop_exit co x e1"
proof -
  let ?P = "\<lambda>c e y. c = co \<longrightarrow> I e \<longrightarrow>
              (\<exists>e0 x e1. I e0 \<and> iterate co e0 = (Inl x, e1) \<and> y = loop_exit co x e1)"
  have "?P co e y"
  proof (rule drive.raw_induct [where P = ?P, OF _ run])
    fix f c e y
    assume IH: "\<And>c e y. f c e = Some y \<Longrightarrow> ?P c e y"
      and eq: "(case iterate c e of
          (Inl x, e1) \<Rightarrow> Some (loop_exit c x e1) | (Inr _, e1) \<Rightarrow> f c e1) = Some y"
    show "?P c e y"
    proof (intro impI)
      assume c: "c = co" and inv: "I e"
      obtain r e1 where it: "iterate co e = (r, e1)" by fastforce
      show "\<exists>e0 x e1. I e0 \<and> iterate co e0 = (Inl x, e1) \<and> y = loop_exit co x e1"
      proof (cases r)
        case (Inl x)
        then show ?thesis using eq c it inv by auto
      next
        case (Inr u)
        then have "f co e1 = Some y" using eq c it by simp
        from IH [OF this] show ?thesis using step [OF inv it] by simp
      qed
    qed
  qed
  then show ?thesis using start by simp
qed

lemma transition_calls: "engine_transition (traced co) s e = (r, e') \<Longrightarrow> same_calls e e'"
  by (cases "co_persist co")
     (auto simp: engine_transition_def traced_def split: if_splits dest: call_beside)

lemma seq_calls:
  assumes "seq_do r k = (q, e')" and "same_calls e (snd r)"
    and "\<And>a e1 q e'. k a e1 = (q, e') \<Longrightarrow> same_calls e1 e'"
  shows "same_calls e e'"
proof (cases "fst r")
  case (Inl x)
  then show ?thesis using assms(1,2) by (cases r) simp
next
  case (Inr a)
  then have "k a (snd r) = (q, e')" using assms(1) by (cases r) simp
  from assms(3) [OF this] show ?thesis using assms(2) by simp
qed

lemma transition_calls_snd: "same_calls e (snd (engine_transition (traced co) s e))"
  using transition_calls by (metis prod.collapse)

lemma start_calls: "engine_start (traced co) e = (r, e') \<Longrightarrow> same_calls e e'"
  unfolding engine_start_def
  by (erule seq_calls) (auto simp: transition_calls_snd elim!: seq_calls)

lemma pause_calls: "engine_pause (traced co) e = (r, e') \<Longrightarrow> same_calls e e'"
  unfolding engine_pause_def by (erule seq_calls) (auto simp: transition_calls_snd)

lemma resume_calls: "engine_resume (traced co) e = (r, e') \<Longrightarrow> same_calls e e'"
  unfolding engine_resume_def
  by (cases "en_state e \<noteq> CAMP_PAUSED") (auto simp: transition_calls_snd elim!: seq_calls)

lemma finish_calls: "finish (traced co) s e = (q, e') \<Longrightarrow> same_calls e e'"
  unfolding finish_def
  by (erule seq_calls)
     (use transition_calls_snd [where e = "e\<lparr>en_stack := en_stack e @ [s]\<rparr>"] in auto)

lemma loop_exit_calls: "loop_exit (traced co) x e = (q, e') \<Longrightarrow> same_calls e e'"
  by (cases x) (auto dest: finish_calls)

lemma run_in_bounds:
  assumes run: "run_until_stop (traced co) e = Some (q, e')" and inv: "in_bounds co e"
  shows "in_bounds co e'"
proof -
  let ?s = "if en_state e = CAMP_DRAFT then engine_start (traced co) e else (Inr (), e)"
  obtain r1 e1 where s1: "?s = (r1, e1)" by fastforce
  have "same_calls e e1" using s1 by (auto dest: start_calls split: if_splits)
  then have inv1: "in_bounds co e1" using inv in_boundsI_same by blast
  show ?thesis
  proof (cases r1)
    case (Inl x)
    then show ?thesis using run s1 inv1 by (simp add: run_until_stop_def)
  next
    case (Inr u)
    then have "drive (traced co) e1 = Some (q, e')" using run s1 by (simp add: run_until_stop_def)
    then obtain e0 x e2 where last: "in_bounds co e0" "iterate (traced co) e0 = (Inl x, e2)"
        "(q, e') = loop_exit (traced co) x e2"
      using drive_ends [where I = "in_bounds co", OF _ inv1] iterate_in_bounds by blast
    have "in_bounds co e2" using iterate_in_bounds last(1,2) .
    moreover have "same_calls e2 e'" using loop_exit_calls last(3) by metis
    ultimately show ?thesis by (rule in_boundsI_same)
  qed
qed

lemma new_in_bounds: "in_bounds co (new_engine (w, []))"
  by (simp add: in_bounds_def new_engine_def fresh_progress_def calls_def)

lemma reachable_in_bounds:
  "engine_reachable (traced co) e0 e \<Longrightarrow> in_bounds co e0 \<Longrightarrow> in_bounds co e"
proof (induction rule: engine_reachable.induct)
  case (stopped e)
  then show ?case by (simp add: in_bounds_def request_stop_def)
qed (blast intro: in_boundsI_same iterate_in_bounds run_in_bounds
       dest: start_calls pause_calls resume_calls)+

section \<open>A loop over a source that runs dry\<close>

text \<open>
  \<open>left\<close> counts the candidates still to come: each one delivered lowers it, and no collaborator
  brings any back.
\<close>

definition runs_dry :: "'w collaborators \<Rightarrow> ('w \<Rightarrow> nat) \<Rightarrow> bool" where
  "runs_dry co left \<longleftrightarrow>
     (\<forall>w c w'. co_next co w = (Inr (Some c), w') \<longrightarrow> left w' < left w)
     \<and> (\<forall>c w. left (snd (co_run co c w)) \<le> left w)
     \<and> (\<forall>f c w. co_approver co = Some f \<longrightarrow> left (snd (f c w)) \<le> left w)
     \<and> (\<forall>w. left (snd (co_now co w)) \<le> left w)"

lemma call_world: "en_world (snd (call_out f e)) = snd (f (en_world e))"
  by (auto simp: call_out_def split: prod.splits sum.splits)

lemma check_left:
  assumes "runs_dry co left"
  shows "left (en_world (snd (check_stop co e))) \<le> left (en_world e)"
proof -
  have "left (snd (co_now co (en_world e))) \<le> left (en_world e)"
    using assms by (simp add: runs_dry_def)
  then show ?thesis
    by (auto simp: check_stop_def stop_reason_def deadline_passed_def split: option.splits prod.splits)
qed

lemma world_count [simp]: "en_world (count_up f e) = en_world e"
  by (simp add: count_up_def)

lemma seq_left:
  fixes left :: "'w \<Rightarrow> nat"
  assumes "left (en_world (snd r)) \<le> n"
    and "\<And>a e. left (en_world (snd (k a e))) \<le> left (en_world e)"
  shows "left (en_world (snd (seq_do r k))) \<le> n"
proof (cases "fst r")
  case (Inl x)
  then show ?thesis using assms(1) by (cases r) simp
next
  case (Inr a)
  then have "seq_do r k = k a (snd r)" by (cases r) simp
  then show ?thesis using assms(2) [of a "snd r"] assms(1) by simp
qed

lemma ask_left:
  assumes "runs_dry co left"
  shows "left (en_world (snd (ask_approval co c e))) \<le> left (en_world e)"
proof (cases "mc_mode (co_campaign co) \<noteq> SUPERVISED \<or> co_approver co = None")
  case True
  then show ?thesis by (auto simp: ask_approval_def Let_def)
next
  case False
  then obtain f where f: "co_approver co = Some f" "mc_mode (co_campaign co) = SUPERVISED" by auto
  have asked: "left (en_world (snd (call_out (f c) e1))) \<le> left (en_world e)"
    if "en_world e1 = en_world e" for e1 :: "'a engine"
    using assms f(1) that by (simp add: runs_dry_def call_world)
  show ?thesis
    unfolding ask_approval_def Let_def f option.case
    by (simp add: f(2)) (rule seq_left, rule asked, simp, simp)
qed

lemma execute_left:
  assumes "runs_dry co left"
  shows "left (en_world (snd (execute_drill co c e))) \<le> left (en_world e)"
proof (cases "blast_refusal co c e")
  case (Some why)
  then show ?thesis by (simp add: execute_drill_def)
next
  case None
  have drill: "left (en_world (snd (call_out (co_run co c) e))) \<le> left (en_world e)"
    using assms by (simp add: runs_dry_def call_world)
  have after: "left (en_world (snd (check_stop co (e1\<lparr>en_covered := cv\<rparr>)))) \<le> left (en_world e1)"
    for e1 cv using check_left [OF assms, of "e1\<lparr>en_covered := cv\<rparr>"] by simp
  have body: "left (en_world (snd (case cell_key_of cell of Inl x \<Rightarrow> (Inl (Raised x), count_up g e1)
      | Inr k \<Rightarrow> check_stop co ((count_up g e1)\<lparr>en_covered := insert k (en_covered (count_up g e1))\<rparr>))))
      \<le> left (en_world e1)" for cell g e1
    using after [of _ "count_up g e1"] by (cases "cell_key_of cell") simp_all
  show ?thesis
    unfolding execute_drill_def None option.case Let_def
    by (rule seq_left [where left = left, OF drill]) (simp add: body split: prod.split)
qed

lemma consider_left:
  assumes "runs_dry co left"
  shows "left (en_world (snd (consider_candidate co c e))) \<le> left (en_world e)"
proof (cases "cd_rejected (gate_candidate (co_gates co) c)")
  case True
  then show ?thesis by (simp add: consider_candidate_def Let_def turn_away_def)
next
  case False
  show ?thesis
    unfolding consider_candidate_def Let_def if_not_P [OF False]
    by (rule seq_left [where left = left, OF ask_left [OF assms]])
       (simp add: execute_left [OF assms])
qed

lemma iterate_left:
  assumes dry: "runs_dry co left" and it: "iterate co e = (Inr u, e')"
  shows "left (en_world e') < left (en_world e)"
proof -
  obtain r1 e1 where s1: "check_stop co e = (r1, e1)" by fastforce
  then have ok1: "r1 = Inr ()" using it by (cases r1) (auto simp: iterate_def)
  obtain r2 e2 where s2: "call_out (co_next co) e1 = (r2, e2)" by fastforce
  then obtain k where r2: "r2 = Inr k" using it s1 ok1 by (cases r2) (auto simp: iterate_def)
  obtain c where k: "k = Some c" using it s1 ok1 s2 r2 by (cases k) (auto simp: iterate_def)
  have "consider_candidate co c e2 = (Inr u, e')" using it s1 ok1 s2 r2 k by (simp add: iterate_def)
  then have "left (en_world e') \<le> left (en_world e2)" using consider_left [OF dry, of c e2] by simp
  moreover have "left (en_world e2) < left (en_world e1)"
  proof -
    have "co_next co (en_world e1) = (Inr (Some c), en_world e2)"
      using s2 r2 k by (auto simp: call_out_def split: prod.splits sum.splits)
    then show ?thesis using dry by (simp add: runs_dry_def)
  qed
  moreover have "left (en_world e1) \<le> left (en_world e)" using check_left [OF dry, of e] s1 by simp
  ultimately show ?thesis by simp
qed

lemma drive_returns: "runs_dry co left \<Longrightarrow> \<exists>y. drive co e = Some y"
proof (induction "left (en_world e)" arbitrary: e rule: less_induct)
  case less
  obtain r e1 where it: "iterate co e = (r, e1)" by fastforce
  show ?case
  proof (cases r)
    case (Inl x)
    then show ?thesis using it by (simp add: drive.simps)
  next
    case (Inr u)
    then have "left (en_world e1) < left (en_world e)" using iterate_left less.prems it by blast
    from less.hyps [OF this less.prems] show ?thesis using it Inr by (simp add: drive.simps)
  qed
qed

end
