(* ===== verification/Campaign_Guarantees.thy ===== *)
theory Campaign_Guarantees
  imports Campaign_Laws
begin

text \<open>
  What a campaign guarantees over any collaborators, with its state machine, and where the engine and
  the words about it part ways.
\<close>

section \<open>The state machine\<close>

definition fire_campaign :: "'w collaborators \<Rightarrow> CampaignState \<Rightarrow> 'w engine \<Rightarrow> engine_exit + 'w engine" where
  "fire_campaign co s e =
     (case engine_transition co s e of (Inl x, e1) \<Rightarrow> Inl x | (Inr _, e1) \<Rightarrow> Inr e1)"

lemma call_out_state: "call_out f e = (r, e') \<Longrightarrow> en_state e' = en_state e"
  by (auto simp: call_out_def split: prod.splits sum.splits)

lemma transition_cases:
  "engine_transition co s e = (r, e') \<Longrightarrow>
     (s \<in> campaign_successors (en_state e) \<and> en_state e' = s)
     \<or> (s \<notin> campaign_successors (en_state e) \<and> r = Inl (Raised ValueErr) \<and> e' = e)"
  by (auto simp: engine_transition_def split: if_splits option.splits dest: call_out_state)

interpretation campaign_machine:
  guarded_machine en_state campaign_successors "\<lambda>s. s" "fire_campaign co" for co
proof unfold_locales
  fix s x y
  assume fired: "fire_campaign co s x = Inr y"
  obtain r e1 where t: "engine_transition co s x = (r, e1)" by fastforce
  then have "e1 = y \<and> r = Inr ()" using fired by (cases r) (auto simp: fire_campaign_def)
  with transition_cases [OF t] show "s \<in> campaign_successors (en_state x)" and "en_state y = s" by auto
qed

text \<open>An archived campaign stays archived; any refused move leaves the engine as it was.\<close>

lemma archived_is_final:
  "en_state e = CAMP_ARCHIVED \<Longrightarrow> run_all (fire_campaign co) ss e = Inr e' \<Longrightarrow> ss = [] \<and> e' = e"
  by (rule campaign_machine.stuck_when_terminal) simp_all

section \<open>The reason returned\<close>

definition stop_justified :: "'w collaborators \<Rightarrow> CampaignStopReason \<Rightarrow> 'w engine \<Rightarrow> bool" where
  "stop_justified co s e =
     (case s of
        BUDGET_EXHAUSTED \<Rightarrow> budget_exhausted co e \<or> (\<exists>w. fst (co_next co w) = Inr None)
      | DEADLINE_PASSED \<Rightarrow> (\<exists>d w. mc_deadline (co_campaign co) = Some d \<and> fst (co_now co w) > d)
      | STOP_CONDITION \<Rightarrow> en_stop e
      | COVERAGE_REACHED \<Rightarrow> coverage_reached co e
      | RESOURCE_CONFLICT \<Rightarrow>
          pg_log (en_progress e) \<noteq> [] \<and> le_decision (last (pg_log (en_progress e))) = APP_DENIED
      | NOT_STARTED \<Rightarrow> False)"

lemma check_stop_justified:
  "check_stop co e = (Inl x, e') \<Longrightarrow> \<exists>s. x = CampaignStop s \<and> stop_justified co s e'"
  by (auto simp: check_stop_def stop_reason_def deadline_passed_def stop_justified_def
        split: option.splits prod.splits if_splits) (metis fst_conv)+

lemma call_out_exit: "call_out f e = (Inl x, e') \<Longrightarrow> \<exists>p. x = Raised p"
  by (auto simp: call_out_def split: prod.splits sum.splits)

lemma seq_exit:
  assumes "seq_do r k = (Inl x, e')"
  shows "r = (Inl x, e') \<or> (\<exists>a e1. r = (Inr a, e1) \<and> k a e1 = (Inl x, e'))"
  using assms by (cases r; cases "fst r") (auto simp: seq_do_def)

lemma ask_exit: "ask_approval co c e = (Inl x, e') \<Longrightarrow> \<exists>p. x = Raised p"
  by (auto simp: ask_approval_def Let_def split: if_splits option.splits
        dest!: seq_exit call_out_exit)

lemma denied_justified: "stop_justified co RESOURCE_CONFLICT (note_decision i APP_DENIED why e)"
  by (simp add: stop_justified_def log_decision_def)

lemma execute_exit:
  "execute_drill co c e = (Inl (CampaignStop s), e') \<Longrightarrow> stop_justified co s e'"
  unfolding execute_drill_def
  by (auto simp: Let_def denied_justified split: option.splits sum.splits
        dest!: seq_exit dest: call_out_exit check_stop_justified)

lemma consider_exit:
  "consider_candidate co c e = (Inl (CampaignStop s), e') \<Longrightarrow> stop_justified co s e'"
  unfolding consider_candidate_def Let_def
  by (auto simp: turn_away_def denied_justified split: if_splits
        dest!: seq_exit dest: ask_exit execute_exit)

lemma iterate_exit:
  assumes "iterate co e = (Inl (CampaignStop s), e')"
  shows "stop_justified co s e'"
proof -
  consider "check_stop co e = (Inl (CampaignStop s), e')"
    | e1 where "call_out (co_next co) e1 = (Inl (CampaignStop s), e')"
    | e1 e2 where "call_out (co_next co) e1 = (Inr None, e2)" "s = BUDGET_EXHAUSTED"
    | c e2 where "consider_candidate co c e2 = (Inl (CampaignStop s), e')"
    using assms unfolding iterate_def
    by (auto dest!: seq_exit split: option.splits)
  then show ?thesis
  proof cases
    case 3
    then have "fst (co_next co (en_world e1)) = Inr None"
      by (auto simp: call_out_def split: prod.splits sum.splits)
    then show ?thesis using 3(2) by (auto simp: stop_justified_def)
  qed (auto dest: check_stop_justified call_out_exit consider_exit)
qed

lemma loop_exit_honest:
  assumes "loop_exit co x e = (Inr s, e')" and "\<And>r. x = CampaignStop r \<Longrightarrow> stop_justified co r e"
  shows "en_state e' = (if s = RESOURCE_CONFLICT then CAMP_ABORTED else CAMP_COMPLETED)
     \<and> last (en_stack e') = s \<and> stop_justified co s e'"
proof -
  let ?goal = "if s = RESOURCE_CONFLICT then CAMP_ABORTED else CAMP_COMPLETED"
  let ?e = "e\<lparr>en_stack := en_stack e @ [s]\<rparr>"
  have x: "x = CampaignStop s" and t: "engine_transition co ?goal ?e = (Inr (), e')"
    using assms(1) by (cases x; auto simp: finish_def seq_do_def split: prod.splits sum.splits)+
  have kept: "en_progress e' = en_progress e \<and> en_covered e' = en_covered e \<and> en_stop e' = en_stop e
      \<and> en_stack e' = en_stack e @ [s]"
    using t by (auto simp: engine_transition_def call_out_def split: if_splits option.splits prod.splits sum.splits)
  moreover have "stop_justified co s e" using assms(2) x by simp
  ultimately have "stop_justified co s e'"
    by (auto simp: stop_justified_def budget_exhausted_def coverage_reached_def split: CampaignStopReason.splits)
  moreover have "en_state e' = ?goal" using transition_cases [OF t] by auto
  ultimately show ?thesis using kept by simp
qed

lemma run_honest:
  assumes "run_until_stop co e = Some (Inr s, e')"
  shows "en_state e' = (if s = RESOURCE_CONFLICT then CAMP_ABORTED else CAMP_COMPLETED)
     \<and> last (en_stack e') = s \<and> stop_justified co s e'"
proof -
  obtain e1 where "drive co e1 = Some (Inr s, e')"
    using assms by (auto simp: run_until_stop_def split: prod.splits sum.splits)
  then obtain e0 x e2 where last: "iterate co e0 = (Inl x, e2)" "loop_exit co x e2 = (Inr s, e')"
    using drive_ends [where I = "\<lambda>_. True", of co e1] by (metis TrueI)
  then show ?thesis using loop_exit_honest iterate_exit by blast
qed

lemma run_returns:
  assumes "runs_dry co left"
  shows "\<exists>q e'. run_until_stop co e = Some (q, e')"
proof -
  obtain r e1 where s: "(if en_state e = CAMP_DRAFT then engine_start co e else (Inr (), e)) = (r, e1)"
    by fastforce
  obtain q e' where "drive co e1 = Some (q, e')" using drive_returns [OF assms] by (metis surj_pair)
  then show ?thesis using s by (cases r) (auto simp: run_until_stop_def)
qed

section \<open>Properties\<close>

text \<open>A campaign over a list of candidates, each drill covering the cell of its target.\<close>

definition sample_candidate :: "string \<Rightarrow> ExperimentCandidate" where
  "sample_candidate t = \<lparr>ec_target = t, ec_faults = [''fs.fill''], ec_context = ''container'',
     ec_effect = [], ec_risk = CRITICAL, ec_seed = 0\<rparr>"

definition list_campaign :: "M5Campaign \<Rightarrow> ExperimentCandidate list collaborators" where
  "list_campaign m =
     \<lparr>co_campaign = m, co_sha = id,
      co_next = (\<lambda>w. case w of [] \<Rightarrow> (Inr None, []) | c # cs \<Rightarrow> (Inr (Some c), cs)),
      co_gates = permissive_pipeline,
      co_run = (\<lambda>c w. (Inr (''r'', ''o'', \<lparr>cc_target = ec_target c, cc_fault = ''f'', cc_context = ''x'',
                                         cc_band = ''b''\<rparr>), w)),
      co_approver = Some (\<lambda>c w. (Inr (ec_target c \<noteq> ''db''), w)), co_target = None, co_blast = None,
      co_rationale = None, co_now = (\<lambda>w. (0, w)), co_persist = None\<rparr>"

definition supervised_demo :: "ExperimentCandidate list collaborators" where
  "supervised_demo = list_campaign ((new_campaign ''c'' ''n'')\<lparr>mc_coverage_target := 5\<rparr>)"

definition autonomous_demo :: "M5Campaign \<Rightarrow> ExperimentCandidate list collaborators" where
  "autonomous_demo m = list_campaign (m\<lparr>mc_mode := AUTONOMOUS, mc_coverage_target := 5\<rparr>)"

lemmas engine_unfolds = run_until_stop_def drive.simps iterate_def check_stop_def stop_reason_def
  budget_exhausted_def deadline_passed_def coverage_reached_def coverage_goal_def call_out_def
  consider_candidate_def gate_candidate_def permissive_pipeline_def make_pipeline_def
  permissive_gate_def accept_candidate_def reject_candidate_def ask_approval_def execute_drill_def
  blast_refusal_def count_up_def log_decision_def engine_start_def engine_transition_def finish_def
  list_campaign_def new_campaign_def new_engine_def fresh_progress_def sample_candidate_def
  cell_key_of_def cell_key_def unit_sep_char

text \<open>
  C20. Whatever the collaborators do and in whatever order the engine is called, a raising call and a
  paused engine included: every candidate handed to the runner had passed the three gates and, in a
  supervised campaign, was approved by the call just before; the drills that completed are the ones
  counted, and never more than the campaign's \<open>max_runs\<close>.
\<close>

theorem campaign_stays_in_bounds:
  assumes "engine_reachable (traced co) (new_engine (w, [])) e"
  shows "licensed (co_campaign co) (co_gates co) (calls e) \<and> runs e = drills (calls e)
     \<and> runs e \<le> max 0 (mc_max_runs (co_campaign co))"
  using reachable_in_bounds [OF assms new_in_bounds] by (simp add: in_bounds_def)

theorem campaign_stays_in_bounds_witness:
  "\<exists>e. engine_reachable (traced supervised_demo)
          (new_engine ([sample_candidate ''db'', sample_candidate ''api''], [])) e
     \<and> runs e = 1 \<and> length (calls e) = 3
     \<and> licensed (co_campaign supervised_demo) (co_gates supervised_demo) (calls e)"
proof -
  let ?e0 = "new_engine ([sample_candidate ''db'', sample_candidate ''api''], [])"
  obtain q e where run: "run_until_stop (traced supervised_demo) ?e0 = Some (q, e)"
      and e: "runs e = 1 \<and> length (calls e) = 3"
    by (simp add: engine_unfolds supervised_demo_def traced_def beside_def note_call_def calls_def Let_def)
  have "engine_reachable (traced supervised_demo) ?e0 e" using engine_reachable.driven [OF engine_reachable.here run] .
  with campaign_stays_in_bounds [OF this] e show ?thesis by blast
qed


lemma list_campaign_runs_dry: "runs_dry (list_campaign m) length"
  by (auto simp: runs_dry_def list_campaign_def split: list.splits)


section \<open>Where the engine and its words part\<close>

text \<open>
  Neither \<open>iterate\<close> nor \<open>run_until_stop\<close> looks at the state: a paused campaign runs its drill, and
  only then the move from PAUSED to COMPLETED is refused.
\<close>

theorem paused_campaign_runs:
  "\<exists>e1 e2. engine_pause co (snd (engine_start co (new_engine [sample_candidate ''api'']))) = (Inr (), e1)
     \<and> en_state e1 = CAMP_PAUSED
     \<and> run_until_stop co e1 = Some (Inl (Raised ValueErr), e2)
     \<and> runs e2 = 1 \<and> en_state e2 = CAMP_PAUSED"
  if "co = autonomous_demo (new_campaign ''c'' ''n'')"
  by (simp add: that engine_unfolds autonomous_demo_def engine_pause_def Let_def)

text \<open>The campaign's risk ceiling is read by nothing: a CRITICAL drill runs under a ceiling of LOW.\<close>

theorem ceiling_unread:
  "\<exists>e. run_until_stop (autonomous_demo ((new_campaign ''c'' ''n'')\<lparr>mc_risk_ceiling := LOW\<rparr>))
          (new_engine [sample_candidate ''api'']) = Some (Inr BUDGET_EXHAUSTED, e)
     \<and> ec_risk (sample_candidate ''api'') = CRITICAL \<and> runs e = 1"
  by (simp add: engine_unfolds autonomous_demo_def Let_def)

text \<open>
  The plan announces \<open>budget\<close>; the loop counts against \<open>max_runs\<close>. The covered cells are a set beside
  the progress, whose \<open>cells_covered\<close> stays 0. A source that is empty records its reason twice.
\<close>

theorem planned_budget_overrun:
  "\<exists>e. em_budget (plan_campaign sha m [sample_candidate ''api'', sample_candidate ''web'']) = Some 1
     \<and> run_until_stop (autonomous_demo m) (new_engine [sample_candidate ''api'', sample_candidate ''web''])
         = Some (Inr BUDGET_EXHAUSTED, e)
     \<and> runs e = 2 \<and> card (en_covered e) = 2 \<and> pg_cells (en_progress e) = 0
     \<and> en_stack e = [BUDGET_EXHAUSTED, BUDGET_EXHAUSTED]"
  if "m = (new_campaign ''c'' ''n'')\<lparr>mc_budget := Some 1\<rparr>"
  by (simp add: that engine_unfolds autonomous_demo_def plan_campaign_def Let_def)

text \<open>
  A candidate turned away costs nothing, so no budget bounds a source that keeps proposing one: the
  loop has no value.
\<close>

definition stubborn_demo :: "unit collaborators" where
  "stubborn_demo =
     \<lparr>co_campaign = new_campaign ''c'' ''n'', co_sha = id,
      co_next = (\<lambda>w. (Inr (Some (sample_candidate [])), w)), co_gates = make_pipeline None None None,
      co_run = (\<lambda>c w. (Inl ValueErr, w)), co_approver = None, co_target = None, co_blast = None,
      co_rationale = None, co_now = (\<lambda>w. (0, w)), co_persist = None\<rparr>"

lemma stubborn_step:
  assumes "pg_runs (en_progress e) = 0" "\<not> en_stop e" "en_covered e = {}"
  shows "iterate stubborn_demo e = (Inr (), count_up (\<lambda>p. p\<lparr>pg_rejected := pg_rejected p + 1\<rparr>) e)"
  using assms
  by (simp add: engine_unfolds stubborn_demo_def turn_away_def safety_gate_def feasibility_gate_def
      resource_conflict_gate_def Let_def)

theorem rejections_never_stop: "run_until_stop stubborn_demo (new_engine ()) = None"
proof (rule ccontr)
  let ?I = "\<lambda>e :: unit engine. pg_runs (en_progress e) = 0 \<and> \<not> en_stop e \<and> en_covered e = {}"
  assume "run_until_stop stubborn_demo (new_engine ()) \<noteq> None"
  moreover have "run_until_stop stubborn_demo (new_engine ())
      = drive stubborn_demo ((new_engine ())\<lparr>en_state := CAMP_RUNNING, en_recovery := ''ready''\<rparr>)"
    by (simp add: run_until_stop_def engine_start_def engine_transition_def new_engine_def stubborn_demo_def)
  ultimately obtain y where
    "drive stubborn_demo ((new_engine ())\<lparr>en_state := CAMP_RUNNING, en_recovery := ''ready''\<rparr>) = Some y"
    by auto
  moreover have "?I ((new_engine ())\<lparr>en_state := CAMP_RUNNING, en_recovery := ''ready''\<rparr>)"
    by (simp add: new_engine_def fresh_progress_def)
  moreover have "?I e'" if "?I e" "iterate stubborn_demo e = (r, e')" for e r e'
    using that stubborn_step by (auto simp: count_up_def)
  ultimately obtain e0 x e1 where "?I e0" "iterate stubborn_demo e0 = (Inl x, e1)"
    using drive_ends [where I = ?I] by blast
  then show False using stubborn_step by auto
qed

end
