(* ===== verification/Campaign_Resume.thy ===== *)
theory Campaign_Resume
  imports Mayhem_Prelude "HOL-Library.Multiset" "HOL-Library.List_Lexorder" "HOL-Library.Char_ord"
begin

text \<open>
  \<open>domain/campaign_checkpoint.py\<close> and \<open>infra/campaign_checkpoint_repository.py\<close>: where each
  experiment of a campaign got to, the table that survives the process, and the planner that decides
  what a resume may run. The table has one row per campaign and experiment; \<open>INSERT OR REPLACE\<close>
  drops the old row and appends the new one.
\<close>

section \<open>Checkpoints\<close>

datatype CheckpointState =
    CP_PENDING | CP_RUNNING | CP_VERIFIED | CP_COMPENSATING | CP_COMPENSATED | CP_RETRYABLE
  | CP_BLOCKED | CP_COMPLETED | CP_ABORTED

fun checkpoint_value :: "CheckpointState \<Rightarrow> string" where
  "checkpoint_value CP_PENDING = ''pending''"
| "checkpoint_value CP_RUNNING = ''running''"
| "checkpoint_value CP_VERIFIED = ''verified''"
| "checkpoint_value CP_COMPENSATING = ''compensating''"
| "checkpoint_value CP_COMPENSATED = ''compensated''"
| "checkpoint_value CP_RETRYABLE = ''retryable''"
| "checkpoint_value CP_BLOCKED = ''blocked''"
| "checkpoint_value CP_COMPLETED = ''completed''"
| "checkpoint_value CP_ABORTED = ''aborted''"

definition checkpoint_states :: "CheckpointState list" where
  "checkpoint_states = [CP_PENDING, CP_RUNNING, CP_VERIFIED, CP_COMPENSATING, CP_COMPENSATED,
     CP_RETRYABLE, CP_BLOCKED, CP_COMPLETED, CP_ABORTED]"

definition checkpoint_of :: "string \<Rightarrow> py_error + CheckpointState" where
  "checkpoint_of v =
     (case find (\<lambda>s. checkpoint_value s = v) checkpoint_states of
        None \<Rightarrow> Inl ValueErr | Some s \<Rightarrow> Inr s)"

lemma checkpoint_of_value [simp]: "checkpoint_of (checkpoint_value s) = Inr s"
  by (cases s) (simp_all add: checkpoint_of_def checkpoint_states_def)

definition terminal_states :: "CheckpointState set" where
  "terminal_states = {CP_VERIFIED, CP_COMPLETED, CP_COMPENSATED}"

definition in_flight_states :: "CheckpointState set" where
  "in_flight_states = {CP_RUNNING, CP_COMPENSATING}"

definition schema_version :: string where
  "schema_version = ''1.0''"

record CampaignCheckpoint =
  cp_campaign :: string
  cp_experiment :: string
  cp_state :: CheckpointState
  cp_lease :: string
  cp_attempt :: int
  cp_fingerprint :: string
  cp_resume_safe :: bool
  cp_updated :: string
  cp_detail :: string
  cp_schema :: string

definition checkpoint_key :: "CampaignCheckpoint \<Rightarrow> string" where
  "checkpoint_key c = cp_campaign c @ '':'' @ cp_experiment c"

definition cp_terminal :: "CampaignCheckpoint \<Rightarrow> bool" where
  "cp_terminal c \<longleftrightarrow> cp_state c \<in> terminal_states"

definition cp_in_flight :: "CampaignCheckpoint \<Rightarrow> bool" where
  "cp_in_flight c \<longleftrightarrow> cp_state c \<in> in_flight_states"

definition with_state :: "CheckpointState \<Rightarrow> int option \<Rightarrow> string option \<Rightarrow> string option \<Rightarrow> bool option
    \<Rightarrow> string option \<Rightarrow> CampaignCheckpoint \<Rightarrow> CampaignCheckpoint" where
  "with_state s attempt lease detail safe updated c =
     c\<lparr>cp_state := s,
       cp_attempt := (case attempt of None \<Rightarrow> cp_attempt c | Some x \<Rightarrow> x),
       cp_lease := (case lease of None \<Rightarrow> cp_lease c | Some x \<Rightarrow> x),
       cp_detail := (case detail of None \<Rightarrow> cp_detail c | Some x \<Rightarrow> x),
       cp_resume_safe := (case safe of None \<Rightarrow> cp_resume_safe c | Some x \<Rightarrow> x),
       cp_updated := (case updated of None \<Rightarrow> cp_updated c | Some x \<Rightarrow> x)\<rparr>"

text \<open>
  The joined key is not injective: a colon in an identifier moves the border. The table is keyed by
  the pair.
\<close>

theorem joined_key_collides:
  "\<exists>c d. checkpoint_key c = checkpoint_key d \<and> cp_campaign c \<noteq> cp_campaign d"
proof -
  let ?cp = "\<lambda>a b. \<lparr>cp_campaign = a, cp_experiment = b, cp_state = CP_PENDING, cp_lease = [],
     cp_attempt = 0, cp_fingerprint = [], cp_resume_safe = True, cp_updated = [], cp_detail = [],
     cp_schema = schema_version\<rparr>"
  have "checkpoint_key (?cp ''a:b'' ''c'') = checkpoint_key (?cp ''a'' ''b:c'')"
    by (simp add: checkpoint_key_def)
  moreover have "cp_campaign (?cp ''a:b'' ''c'') \<noteq> cp_campaign (?cp ''a'' ''b:c'')" by simp
  ultimately show ?thesis by blast
qed

section \<open>The planner\<close>

record ResumePlan =
  rp_campaign :: string
  rp_resume :: "string list"
  rp_skip_verified :: "string list"
  rp_blocked :: "string list"
  rp_in_flight :: "string list"
  rp_stale :: "string list"
  rp_exhausted :: "string list"
  rp_fingerprint :: string

definition plan_safe :: "ResumePlan \<Rightarrow> bool" where
  "plan_safe p \<longleftrightarrow> rp_in_flight p = [] \<and> rp_stale p = [] \<and> rp_exhausted p = []"

text \<open>The dict comprehension: of several checkpoints of one experiment the last one counts.\<close>

definition latest_checkpoint :: "CampaignCheckpoint list \<Rightarrow> string \<Rightarrow> CampaignCheckpoint option" where
  "latest_checkpoint cps = map_of (rev (map (\<lambda>c. (cp_experiment c, c)) cps))"

text \<open>One turn of the loop: the list an experiment is appended to.\<close>

definition place :: "(string \<Rightarrow> CampaignCheckpoint option) \<Rightarrow> bool \<Rightarrow> int \<Rightarrow> string \<Rightarrow> string
    \<Rightarrow> ResumePlan \<Rightarrow> ResumePlan" where
  "place latest retry_verified max_attempts current i p =
     (case latest i of
        None \<Rightarrow> p\<lparr>rp_resume := rp_resume p @ [i]\<rparr>
      | Some c \<Rightarrow>
          if cp_state c = CP_ABORTED then p\<lparr>rp_blocked := rp_blocked p @ [i]\<rparr>
          else if cp_state c = CP_BLOCKED then p\<lparr>rp_blocked := rp_blocked p @ [i]\<rparr>
          else if cp_in_flight c then p\<lparr>rp_in_flight := rp_in_flight p @ [i]\<rparr>
          else if cp_terminal c \<and> \<not> retry_verified
          then p\<lparr>rp_skip_verified := rp_skip_verified p @ [i]\<rparr>
          else if current \<noteq> [] \<and> cp_fingerprint c \<noteq> [] \<and> cp_fingerprint c \<noteq> current
          then p\<lparr>rp_stale := rp_stale p @ [i]\<rparr>
          else if cp_attempt c \<ge> max_attempts then p\<lparr>rp_exhausted := rp_exhausted p @ [i]\<rparr>
          else if \<not> cp_resume_safe c then p\<lparr>rp_blocked := rp_blocked p @ [i]\<rparr>
          else p\<lparr>rp_resume := rp_resume p @ [i]\<rparr>)"

definition plan_resume :: "CampaignCheckpoint list \<Rightarrow> string \<Rightarrow> string list \<Rightarrow> bool \<Rightarrow> int \<Rightarrow> string
    \<Rightarrow> ResumePlan" where
  "plan_resume cps campaign pending retry_verified max_attempts current =
     fold (place (latest_checkpoint cps) retry_verified max_attempts current) pending
       \<lparr>rp_campaign = campaign, rp_resume = [], rp_skip_verified = [], rp_blocked = [],
        rp_in_flight = [], rp_stale = [], rp_exhausted = [], rp_fingerprint = current\<rparr>"

text \<open>What a resume may run, said without the chain of tests.\<close>

definition may_run :: "bool \<Rightarrow> int \<Rightarrow> string \<Rightarrow> CampaignCheckpoint \<Rightarrow> bool" where
  "may_run retry_verified max_attempts current c \<longleftrightarrow>
     cp_state c \<in> {CP_PENDING, CP_RETRYABLE} \<union> (if retry_verified then terminal_states else {})
     \<and> (current = [] \<or> cp_fingerprint c \<in> {[], current})
     \<and> cp_attempt c < max_attempts \<and> cp_resume_safe c"

lemma place_resume:
  "rp_resume (place latest rv n cur i p) =
     rp_resume p @ (if (case latest i of None \<Rightarrow> True | Some c \<Rightarrow> may_run rv n cur c) then [i] else [])"
  by (cases "latest i"; cases "cp_state (the (latest i))")
     (auto simp: place_def may_run_def cp_in_flight_def in_flight_states_def cp_terminal_def
        terminal_states_def)

lemma place_fields:
  "mset (rp_resume (place latest rv n cur i p)) + mset (rp_skip_verified (place latest rv n cur i p))
     + mset (rp_blocked (place latest rv n cur i p)) + mset (rp_in_flight (place latest rv n cur i p))
     + mset (rp_stale (place latest rv n cur i p)) + mset (rp_exhausted (place latest rv n cur i p))
   = mset (rp_resume p) + mset (rp_skip_verified p) + mset (rp_blocked p) + mset (rp_in_flight p)
     + mset (rp_stale p) + mset (rp_exhausted p) + {#i#}"
  by (simp add: place_def split: option.split)

lemma place_in_flight:
  "rp_in_flight (place latest rv n cur i p) =
     rp_in_flight p @ (if (case latest i of None \<Rightarrow> False | Some c \<Rightarrow> cp_in_flight c) then [i] else [])"
  by (cases "latest i"; cases "cp_state (the (latest i))")
     (auto simp: place_def cp_in_flight_def in_flight_states_def cp_terminal_def terminal_states_def)

lemma fold_resume:
  "rp_resume (fold (place latest rv n cur) xs p) =
     rp_resume p @ filter (\<lambda>i. case latest i of None \<Rightarrow> True | Some c \<Rightarrow> may_run rv n cur c) xs"
  by (induction xs arbitrary: p) (simp_all add: place_resume)

lemma fold_in_flight:
  "rp_in_flight (fold (place latest rv n cur) xs p) =
     rp_in_flight p @ filter (\<lambda>i. case latest i of None \<Rightarrow> False | Some c \<Rightarrow> cp_in_flight c) xs"
  by (induction xs arbitrary: p) (simp_all add: place_in_flight)

lemma fold_fields:
  "mset (rp_resume (fold (place l rv n cur) xs p)) + mset (rp_skip_verified (fold (place l rv n cur) xs p))
     + mset (rp_blocked (fold (place l rv n cur) xs p)) + mset (rp_in_flight (fold (place l rv n cur) xs p))
     + mset (rp_stale (fold (place l rv n cur) xs p)) + mset (rp_exhausted (fold (place l rv n cur) xs p))
   = mset (rp_resume p) + mset (rp_skip_verified p) + mset (rp_blocked p) + mset (rp_in_flight p)
     + mset (rp_stale p) + mset (rp_exhausted p) + mset xs"
proof (induction xs arbitrary: p)
  case Nil
  then show ?case by simp
next
  case (Cons i xs)
  show ?case using Cons.IH [of "place l rv n cur i p"] place_fields [of l rv n cur i p]
    by (simp add: ac_simps)
qed

lemma plan_resume_resume:
  "rp_resume (plan_resume cps cid pending rv n cur) =
     filter (\<lambda>i. case latest_checkpoint cps i of None \<Rightarrow> True | Some c \<Rightarrow> may_run rv n cur c) pending"
  by (simp add: plan_resume_def fold_resume)

lemma plan_resume_in_flight:
  "rp_in_flight (plan_resume cps cid pending rv n cur) =
     filter (\<lambda>i. case latest_checkpoint cps i of None \<Rightarrow> False | Some c \<Rightarrow> cp_in_flight c) pending"
  by (simp add: plan_resume_def fold_in_flight)

lemma plan_resume_partition:
  "(let p = plan_resume cps cid pending rv n cur
    in mset (rp_resume p) + mset (rp_skip_verified p) + mset (rp_blocked p) + mset (rp_in_flight p)
       + mset (rp_stale p) + mset (rp_exhausted p)) = mset pending"
  by (simp add: plan_resume_def Let_def fold_fields)

text \<open>A plan with blocked experiments still calls itself safe.\<close>

lemma blocked_plan_is_safe:
  "\<exists>cps. let p = plan_resume cps ''c'' [''e''] False 3 [] in plan_safe p \<and> rp_blocked p = [''e'']"
  by (rule exI [of _ "[\<lparr>cp_campaign = ''c'', cp_experiment = ''e'', cp_state = CP_ABORTED, cp_lease = [],
     cp_attempt = 0, cp_fingerprint = [], cp_resume_safe = True, cp_updated = [], cp_detail = [],
     cp_schema = schema_version\<rparr>]"])
     (simp add: plan_resume_def place_def latest_checkpoint_def plan_safe_def Let_def)

section \<open>The repository\<close>

record checkpoint_row =
  cr_campaign :: string
  cr_experiment :: string
  cr_state :: string
  cr_lease :: string
  cr_attempt :: int
  cr_fingerprint :: string
  cr_resume_safe :: int
  cr_detail :: string
  cr_updated :: string

type_synonym checkpoint_table = "checkpoint_row list"

definition cr_key :: "checkpoint_row \<Rightarrow> string \<times> string" where
  "cr_key r = (cr_campaign r, cr_experiment r)"

definition or_else_text :: "string \<Rightarrow> string \<Rightarrow> string" where
  "or_else_text a b = (if a = [] then b else a)"

definition checkpoint_to_row :: "string \<Rightarrow> CampaignCheckpoint \<Rightarrow> checkpoint_row" where
  "checkpoint_to_row stamp c =
     \<lparr>cr_campaign = cp_campaign c, cr_experiment = cp_experiment c,
      cr_state = checkpoint_value (cp_state c), cr_lease = cp_lease c, cr_attempt = cp_attempt c,
      cr_fingerprint = cp_fingerprint c, cr_resume_safe = (if cp_resume_safe c then 1 else 0),
      cr_detail = cp_detail c, cr_updated = stamp\<rparr>"

text \<open>\<open>clock\<close> is what \<open>_now()\<close> reads, used when neither argument carries a stamp.\<close>

definition checkpoint_save :: "string \<Rightarrow> string \<Rightarrow> CampaignCheckpoint \<Rightarrow> checkpoint_table
    \<Rightarrow> CampaignCheckpoint \<times> checkpoint_table" where
  "checkpoint_save clock now c t =
     (let stamp = or_else_text now (or_else_text (cp_updated c) clock)
      in (c\<lparr>cp_updated := stamp\<rparr>,
          filter (\<lambda>r. cr_key r \<noteq> (cp_campaign c, cp_experiment c)) t @ [checkpoint_to_row stamp c]))"

definition row_to_checkpoint :: "checkpoint_row \<Rightarrow> py_error + CampaignCheckpoint" where
  "row_to_checkpoint r =
     and_then (checkpoint_of (cr_state r)) (\<lambda>s. Inr
       \<lparr>cp_campaign = cr_campaign r, cp_experiment = cr_experiment r, cp_state = s,
        cp_lease = cr_lease r, cp_attempt = cr_attempt r, cp_fingerprint = cr_fingerprint r,
        cp_resume_safe = (cr_resume_safe r \<noteq> 0), cp_updated = cr_updated r,
        cp_detail = cr_detail r, cp_schema = schema_version\<rparr>)"

fun read_rows :: "checkpoint_row list \<Rightarrow> py_error + CampaignCheckpoint list" where
  "read_rows [] = Inr []"
| "read_rows (r # rs) =
     and_then (row_to_checkpoint r) (\<lambda>c. and_then (read_rows rs) (\<lambda>cs. Inr (c # cs)))"

definition checkpoint_load :: "string \<Rightarrow> checkpoint_table \<Rightarrow> py_error + CampaignCheckpoint list" where
  "checkpoint_load cid t = read_rows (sort_key cr_experiment (filter (\<lambda>r. cr_campaign r = cid) t))"

definition checkpoint_get :: "string \<Rightarrow> string \<Rightarrow> checkpoint_table
    \<Rightarrow> py_error + CampaignCheckpoint option" where
  "checkpoint_get cid eid t =
     and_then (checkpoint_load cid t) (\<lambda>cs. Inr (find (\<lambda>c. cp_experiment c = eid) cs))"

definition checkpoint_delete :: "string \<Rightarrow> checkpoint_table \<Rightarrow> int \<times> checkpoint_table" where
  "checkpoint_delete cid t =
     (int (length (filter (\<lambda>r. cr_campaign r = cid) t)), filter (\<lambda>r. cr_campaign r \<noteq> cid) t)"

section \<open>What survives a crash\<close>

datatype checkpoint_op = Save string string CampaignCheckpoint | Delete string

fun run_checkpoint_ops :: "checkpoint_op list \<Rightarrow> checkpoint_table \<Rightarrow> checkpoint_table" where
  "run_checkpoint_ops [] t = t"
| "run_checkpoint_ops (Save clock now c # ops) t =
     run_checkpoint_ops ops (snd (checkpoint_save clock now c t))"
| "run_checkpoint_ops (Delete cid # ops) t = run_checkpoint_ops ops (snd (checkpoint_delete cid t))"

fun op_touches :: "string \<times> string \<Rightarrow> checkpoint_op \<Rightarrow> bool" where
  "op_touches k (Save clock now c) \<longleftrightarrow> (cp_campaign c, cp_experiment c) = k"
| "op_touches k (Delete cid) \<longleftrightarrow> cid = fst k"

definition rows_ok :: "checkpoint_table \<Rightarrow> bool" where
  "rows_ok t \<longleftrightarrow> (\<forall>r\<in>set t. \<exists>s. cr_state r = checkpoint_value s)"

definition rows_at :: "string \<times> string \<Rightarrow> checkpoint_table \<Rightarrow> checkpoint_row list" where
  "rows_at k t = filter (\<lambda>r. cr_key r = k) t"

lemma checkpoint_row_key [simp]: "cr_key (checkpoint_to_row stamp c) = (cp_campaign c, cp_experiment c)"
  by (simp add: cr_key_def checkpoint_to_row_def)

lemma run_ops_append:
  "run_checkpoint_ops (xs @ ys) t = run_checkpoint_ops ys (run_checkpoint_ops xs t)"
  by (induction xs t rule: run_checkpoint_ops.induct) simp_all

lemma save_rows_ok: "rows_ok t \<Longrightarrow> rows_ok (snd (checkpoint_save clock now c t))"
  by (auto simp: rows_ok_def checkpoint_save_def checkpoint_to_row_def Let_def)

lemma run_ops_rows_ok: "rows_ok t \<Longrightarrow> rows_ok (run_checkpoint_ops ops t)"
  by (induction ops t rule: run_checkpoint_ops.induct)
     (simp_all add: save_rows_ok, simp add: rows_ok_def checkpoint_delete_def)

lemma rows_at_save:
  "rows_at k (snd (checkpoint_save clock now c t)) =
     (if (cp_campaign c, cp_experiment c) = k
      then [checkpoint_to_row (or_else_text now (or_else_text (cp_updated c) clock)) c]
      else rows_at k t)"
  by (auto simp: rows_at_def checkpoint_save_def Let_def intro: filter_cong)

lemma rows_at_delete:
  "fst k \<noteq> cid \<Longrightarrow> rows_at k (snd (checkpoint_delete cid t)) = rows_at k t"
  by (auto simp: rows_at_def checkpoint_delete_def cr_key_def intro: filter_cong)

lemma rows_at_untouched:
  "\<forall>op\<in>set ops. \<not> op_touches k op \<Longrightarrow> rows_at k (run_checkpoint_ops ops t) = rows_at k t"
  by (induction ops t rule: run_checkpoint_ops.induct) (auto simp: rows_at_save rows_at_delete)

lemma row_reads: "rows_ok t \<Longrightarrow> r \<in> set t \<Longrightarrow> row_to_checkpoint r = Inr (projr (row_to_checkpoint r))"
  by (auto simp: rows_ok_def row_to_checkpoint_def)

lemma read_rows_all:
  "\<forall>r\<in>set rs. row_to_checkpoint r = Inr (projr (row_to_checkpoint r)) \<Longrightarrow>
     read_rows rs = Inr (map (\<lambda>r. projr (row_to_checkpoint r)) rs)"
  by (induction rs) (auto simp: and_then_def split: sum.splits)

lemma checkpoint_load_ok:
  assumes "rows_ok t"
  shows "checkpoint_load cid t = Inr (map (\<lambda>r. projr (row_to_checkpoint r))
           (sort_key cr_experiment (filter (\<lambda>r. cr_campaign r = cid) t)))"
  unfolding checkpoint_load_def by (rule read_rows_all) (use assms row_reads in auto)

lemma latest_checkpoint_last:
  "latest_checkpoint cps i = (case rev (filter (\<lambda>c. cp_experiment c = i) cps) of [] \<Rightarrow> None | d # _ \<Rightarrow> Some d)"
  by (induction cps rule: rev_induct) (simp_all add: latest_checkpoint_def)

lemma reads_back:
  "row_to_checkpoint (checkpoint_to_row stamp c) = Inr (c\<lparr>cp_updated := stamp, cp_schema := schema_version\<rparr>)"
  by (simp add: row_to_checkpoint_def checkpoint_to_row_def)

lemma row_experiment: "row_to_checkpoint r = Inr c \<Longrightarrow> cp_experiment c = cr_experiment r"
  by (auto simp: row_to_checkpoint_def and_then_Inr_iff)

lemma loaded_at:
  assumes ok: "rows_ok t" and row: "rows_at (cid, eid) t = [r]"
  shows "\<exists>cps. checkpoint_load cid t = Inr cps
           \<and> filter (\<lambda>c. cp_experiment c = eid) cps = [projr (row_to_checkpoint r)]"
proof -
  let ?rows = "sort_key cr_experiment (filter (\<lambda>r. cr_campaign r = cid) t)"
  let ?read = "\<lambda>r. projr (row_to_checkpoint r)"
  have "mset (filter (\<lambda>r. cr_experiment r = eid) ?rows) = mset (rows_at (cid, eid) t)"
    by (simp add: rows_at_def cr_key_def filter_filter_mset)
  then have here: "filter (\<lambda>r. cr_experiment r = eid) ?rows = [r]"
    unfolding row by (metis mset_single_iff mset_single_iff_right mset.simps)
  have "filter (\<lambda>c. cp_experiment c = eid) (map ?read ?rows)
      = map ?read (filter (\<lambda>r. cr_experiment r = eid) ?rows)"
    unfolding filter_map comp_def
    by (rule arg_cong [where f = "map ?read"], rule filter_cong)
       (use ok row_reads row_experiment in force)+
  then show ?thesis using checkpoint_load_ok [OF ok] here by simp
qed

lemma saved_is_latest:
  assumes untouched: "\<forall>op\<in>set later. \<not> op_touches (cp_campaign c, cp_experiment c) op"
  shows "\<exists>cps stamp. checkpoint_load (cp_campaign c)
             (run_checkpoint_ops (earlier @ Save clock now c # later) []) = Inr cps
           \<and> latest_checkpoint cps (cp_experiment c) = Some (c\<lparr>cp_updated := stamp, cp_schema := schema_version\<rparr>)"
proof -
  let ?t = "run_checkpoint_ops (earlier @ Save clock now c # later) []"
  let ?stamp = "or_else_text now (or_else_text (cp_updated c) clock)"
  have ok: "rows_ok ?t" by (rule run_ops_rows_ok) (simp add: rows_ok_def)
  have "rows_at (cp_campaign c, cp_experiment c) ?t = [checkpoint_to_row ?stamp c]"
    using rows_at_untouched [OF untouched] by (simp add: run_ops_append rows_at_save)
  from loaded_at [OF ok this] show ?thesis by (auto simp: latest_checkpoint_last reads_back)
qed

text \<open>
  C21. Whatever was recorded before, and whatever is recorded afterwards for other experiments and
  campaigns, the checkpoint saved last for an experiment is the one a resume is planned on: the
  campaign's checkpoints load, and a plan runs the experiment exactly when it was asked for and that
  checkpoint allows it - never while it is in flight, aborted or blocked, verified work only on an
  explicit retry, never on another environment's fingerprint, over the attempts allowed or when not
  resume safe. Every experiment asked for lands in exactly one of the plan's six lists.
\<close>

theorem resume_respects_checkpoint:
  assumes "\<forall>op\<in>set later. \<not> op_touches (cp_campaign c, cp_experiment c) op"
  shows "\<exists>cps. checkpoint_load (cp_campaign c)
             (run_checkpoint_ops (earlier @ Save clock now c # later) []) = Inr cps
     \<and> (let p = plan_resume cps (cp_campaign c) pending retry n current
        in (cp_experiment c \<in> set (rp_resume p)
              \<longleftrightarrow> cp_experiment c \<in> set pending \<and> may_run retry n current c)
           \<and> (cp_experiment c \<in> set (rp_in_flight p)
              \<longleftrightarrow> cp_experiment c \<in> set pending \<and> cp_in_flight c)
           \<and> mset (rp_resume p) + mset (rp_skip_verified p) + mset (rp_blocked p)
              + mset (rp_in_flight p) + mset (rp_stale p) + mset (rp_exhausted p) = mset pending)"
proof -
  obtain cps stamp where "checkpoint_load (cp_campaign c)
        (run_checkpoint_ops (earlier @ Save clock now c # later) []) = Inr cps"
      and latest: "latest_checkpoint cps (cp_experiment c) = Some (c\<lparr>cp_updated := stamp, cp_schema := schema_version\<rparr>)"
    using saved_is_latest [OF assms] by blast
  moreover have "may_run retry n current (c\<lparr>cp_updated := stamp, cp_schema := schema_version\<rparr>)
      = may_run retry n current c"
    by (simp add: may_run_def)
  ultimately show ?thesis
    using plan_resume_partition [of cps "cp_campaign c" pending retry n current]
    by (auto simp: Let_def plan_resume_resume plan_resume_in_flight latest cp_in_flight_def)
qed

definition sample_checkpoint :: "string \<Rightarrow> CheckpointState \<Rightarrow> CampaignCheckpoint" where
  "sample_checkpoint e s =
     \<lparr>cp_campaign = ''c'', cp_experiment = e, cp_state = s, cp_lease = [], cp_attempt = 1,
      cp_fingerprint = ''f'', cp_resume_safe = True, cp_updated = [], cp_detail = [],
      cp_schema = schema_version\<rparr>"

theorem resume_respects_checkpoint_witness:
  "\<exists>cps. checkpoint_load ''c''
         (run_checkpoint_ops ([] @ Save ''t'' [] (sample_checkpoint ''a'' CP_VERIFIED)
            # [Save ''t'' [] (sample_checkpoint ''b'' CP_RUNNING)]) []) = Inr cps
       \<and> ''a'' \<notin> set (rp_resume (plan_resume cps ''c'' [''a'', ''b''] False 3 ''f''))"
proof -
  have free: "\<forall>op\<in>set [Save ''t'' [] (sample_checkpoint ''b'' CP_RUNNING)].
       \<not> op_touches (cp_campaign (sample_checkpoint ''a'' CP_VERIFIED),
                  cp_experiment (sample_checkpoint ''a'' CP_VERIFIED)) op"
    by (simp add: sample_checkpoint_def)
  have at: "cp_campaign (sample_checkpoint ''a'' CP_VERIFIED) = ''c''"
    "cp_experiment (sample_checkpoint ''a'' CP_VERIFIED) = ''a''"
    "\<not> may_run False 3 ''f'' (sample_checkpoint ''a'' CP_VERIFIED)"
    by (simp_all add: sample_checkpoint_def may_run_def)
  with resume_respects_checkpoint [OF free, of "[]" "''t''" "[]" "[''a'', ''b'']" False 3 "''f''"] at
  show ?thesis unfolding Let_def by metis
qed

end
