(* ===== verification/Campaign_Runs.thy ===== *)
theory Campaign_Runs
  imports Mayhem_Prelude
begin

text \<open>
  The scheduled campaign: its lifecycle (\<open>domain/campaigns.py\<close>), the row the commands of
  \<open>cli/campaign.py\<close> move, and the sequence \<open>run_campaign_sequence\<close> (\<open>cli/services.py\<close>) that runs
  its experiments under the failure policy and the window. Each command is atomic, except \<open>run\<close>,
  whose row is written before the first experiment and after the last.
\<close>

section \<open>Lifecycle\<close>

datatype CampaignStatus =
    CS_DRAFT | CS_SCHEDULED | CS_APPROVED | CS_RUNNING | CS_PAUSED | CS_COMPLETED | CS_ABORTED
  | CS_ARCHIVED

fun status_value :: "CampaignStatus \<Rightarrow> string" where
  "status_value CS_DRAFT = ''draft''"
| "status_value CS_SCHEDULED = ''scheduled''"
| "status_value CS_APPROVED = ''approved''"
| "status_value CS_RUNNING = ''running''"
| "status_value CS_PAUSED = ''paused''"
| "status_value CS_COMPLETED = ''completed''"
| "status_value CS_ABORTED = ''aborted''"
| "status_value CS_ARCHIVED = ''archived''"

definition status_of :: "string \<Rightarrow> py_error + CampaignStatus" where
  "status_of v =
     (case find (\<lambda>s. status_value s = v)
             [CS_DRAFT, CS_SCHEDULED, CS_APPROVED, CS_RUNNING, CS_PAUSED, CS_COMPLETED, CS_ABORTED,
              CS_ARCHIVED] of
        None \<Rightarrow> Inl ValueErr | Some s \<Rightarrow> Inr s)"

lemma status_of_value [simp]: "status_of (status_value s) = Inr s"
  by (cases s) (simp_all add: status_of_def)

fun campaign_transitions :: "CampaignStatus \<Rightarrow> CampaignStatus set" where
  "campaign_transitions CS_DRAFT = {CS_APPROVED, CS_ABORTED}"
| "campaign_transitions CS_APPROVED = {CS_RUNNING, CS_ABORTED}"
| "campaign_transitions CS_SCHEDULED = {CS_RUNNING, CS_ABORTED}"
| "campaign_transitions CS_RUNNING = {CS_PAUSED, CS_COMPLETED, CS_ABORTED}"
| "campaign_transitions CS_PAUSED = {CS_RUNNING, CS_ABORTED}"
| "campaign_transitions CS_COMPLETED = {CS_ARCHIVED}"
| "campaign_transitions CS_ABORTED = {CS_ARCHIVED}"
| "campaign_transitions CS_ARCHIVED = {}"

definition campaign_can_transition :: "CampaignStatus \<Rightarrow> CampaignStatus \<Rightarrow> bool" where
  "campaign_can_transition current new \<longleftrightarrow> new \<in> campaign_transitions current"

definition transition_campaign :: "CampaignStatus \<Rightarrow> CampaignStatus \<Rightarrow> bool \<Rightarrow> py_error + CampaignStatus" where
  "transition_campaign current new legacy_start =
     (if \<not> campaign_can_transition current new
         \<and> \<not> (legacy_start \<and> current = CS_DRAFT \<and> new = CS_RUNNING)
      then Inl ValueErr else Inr new)"

interpretation campaign_status: guarded_machine "\<lambda>s. s" campaign_transitions "\<lambda>s. s"
    "\<lambda>new current. transition_campaign current new False"
  by unfold_locales (auto simp: transition_campaign_def campaign_can_transition_def split: if_splits)

text \<open>Nothing leads to SCHEDULED, and an approved start passes through APPROVED.\<close>

lemma scheduled_unreachable: "CS_SCHEDULED \<notin> campaign_transitions s"
  by (cases s) simp_all

lemma running_was_approved:
  "CS_RUNNING \<in> campaign_transitions s \<Longrightarrow> s \<in> {CS_APPROVED, CS_SCHEDULED, CS_PAUSED}"
  by (cases s) simp_all

record CampaignExperiment =
  ce_ref :: string
  ce_priority :: nat
  ce_delay :: rat
  ce_weight :: rat

text \<open>\<open>sorted(..., reverse=True)\<close> keeps the order of equal priorities.\<close>

definition sorted_experiments :: "CampaignExperiment list \<Rightarrow> CampaignExperiment list" where
  "sorted_experiments es = sort_key (\<lambda>e. - int (ce_priority e)) es"

definition campaign_experiments :: "CampaignExperiment list \<Rightarrow> py_error + CampaignExperiment list" where
  "campaign_experiments es =
     (if es = [] then Inl (InvariantViolation ''campaign_requires_experiments'')
      else Inr es)"

lemma sorted_experiments_stable:
  "filter (\<lambda>e. ce_priority e = p) (sorted_experiments es) = filter (\<lambda>e. ce_priority e = p) es"
proof -
  have eq: "(\<lambda>e. ce_priority e = p) = (\<lambda>e. - int (ce_priority e) = - int p)" by auto
  show ?thesis
    unfolding sorted_experiments_def eq by (rule sort_key_stable)
qed

lemma sorted_experiments_descending:
  "i < j \<Longrightarrow> j < length es \<Longrightarrow>
     ce_priority (sorted_experiments es ! j) \<le> ce_priority (sorted_experiments es ! i)"
  using sorted_sort_key [of "\<lambda>e. - int (ce_priority e)" es]
  by (auto simp: sorted_experiments_def sorted_iff_nth_mono_less dest!: spec)

section \<open>The row and the commands\<close>

record campaign_row =
  row_status :: string
  row_experiments :: "string list"

type_synonym campaign_rows = "string \<Rightarrow> campaign_row option"

datatype cli_error = NotFound | UsageError | Refused py_error | ExecutionError string py_error

definition stored_statuses :: "string set" where
  "stored_statuses = {''draft'', ''scheduled'', ''running'', ''paused'', ''completed'', ''aborted''}"

definition db_status :: "CampaignStatus \<Rightarrow> string" where
  "db_status s =
     (if s = CS_APPROVED then ''scheduled'' else if s = CS_ARCHIVED then ''completed''
      else status_value s)"

definition row_campaign_status :: "string \<Rightarrow> py_error + CampaignStatus" where
  "row_campaign_status v = (if v = ''scheduled'' then Inr CS_APPROVED else status_of v)"

definition transition_row :: "string \<Rightarrow> CampaignStatus \<Rightarrow> bool \<Rightarrow> campaign_rows
    \<Rightarrow> cli_error + campaign_rows" where
  "transition_row i new legacy rows =
     (case rows i of
        None \<Rightarrow> Inl NotFound
      | Some r \<Rightarrow>
          (case and_then (row_campaign_status (row_status r))
                  (\<lambda>current. transition_campaign current new legacy) of
             Inl e \<Rightarrow> Inl (Refused e)
           | Inr next \<Rightarrow> Inr (rows(i \<mapsto> r\<lparr>row_status := db_status next\<rparr>))))"

definition cmd_create :: "string \<Rightarrow> campaign_rows \<Rightarrow> campaign_rows" where
  "cmd_create i rows = rows(i \<mapsto> \<lparr>row_status = ''draft'', row_experiments = []\<rparr>)"

definition cmd_delete :: "string \<Rightarrow> campaign_rows \<Rightarrow> cli_error + campaign_rows" where
  "cmd_delete i rows =
     (case rows i of
        None \<Rightarrow> Inl NotFound
      | Some r \<Rightarrow> if row_status r \<noteq> ''draft'' then Inl UsageError else Inr (rows(i := None)))"

definition cmd_approve :: "string \<Rightarrow> campaign_rows \<Rightarrow> cli_error + campaign_rows" where
  "cmd_approve i rows = transition_row i CS_APPROVED False rows"

definition cmd_pause :: "string \<Rightarrow> campaign_rows \<Rightarrow> cli_error + campaign_rows" where
  "cmd_pause i rows = transition_row i CS_PAUSED False rows"

definition cmd_abort :: "string \<Rightarrow> campaign_rows \<Rightarrow> cli_error + campaign_rows" where
  "cmd_abort i rows = transition_row i CS_ABORTED False rows"

text \<open>The three commands that look at the status before they move the row.\<close>

definition on_status :: "string \<Rightarrow> campaign_rows \<Rightarrow> (CampaignStatus \<Rightarrow> cli_error + campaign_rows)
    \<Rightarrow> cli_error + campaign_rows" where
  "on_status i rows k =
     (case rows i of
        None \<Rightarrow> Inl NotFound
      | Some r \<Rightarrow>
          (case row_campaign_status (row_status r) of Inl e \<Rightarrow> Inl (Refused e) | Inr s \<Rightarrow> k s))"

definition cmd_resume :: "string \<Rightarrow> campaign_rows \<Rightarrow> cli_error + campaign_rows" where
  "cmd_resume i rows =
     on_status i rows (\<lambda>s.
       if s = CS_PAUSED then transition_row i CS_RUNNING False rows
       else if s = CS_RUNNING then Inr rows else Inl UsageError)"

definition cmd_start :: "string \<Rightarrow> campaign_rows \<Rightarrow> cli_error + campaign_rows" where
  "cmd_start i rows =
     on_status i rows (\<lambda>s.
       if s \<notin> {CS_DRAFT, CS_APPROVED} then Inl UsageError
       else transition_row i CS_RUNNING (s = CS_DRAFT) rows)"

definition set_status :: "string \<Rightarrow> string \<Rightarrow> campaign_rows \<Rightarrow> campaign_rows" where
  "set_status i v rows = (case rows i of None \<Rightarrow> rows | Some r \<Rightarrow> rows(i \<mapsto> r\<lparr>row_status := v\<rparr>))"

definition cmd_archive :: "string \<Rightarrow> campaign_rows \<Rightarrow> cli_error + campaign_rows" where
  "cmd_archive i rows =
     on_status i rows (\<lambda>s.
       if s = CS_RUNNING then Inr (set_status i ''completed'' rows)
       else transition_row i CS_ARCHIVED False rows)"

definition cmd_add_experiment :: "string \<Rightarrow> string \<Rightarrow> campaign_rows \<Rightarrow> cli_error + campaign_rows" where
  "cmd_add_experiment i path rows =
     (case rows i of
        None \<Rightarrow> Inl NotFound
      | Some r \<Rightarrow> Inr (rows(i \<mapsto> r\<lparr>row_experiments := row_experiments r @ [path]\<rparr>)))"

text \<open>\<open>_load_campaign\<close> and the write before the first experiment of \<open>run\<close>.\<close>

definition load_campaign :: "string \<Rightarrow> campaign_rows \<Rightarrow> cli_error + campaign_row" where
  "load_campaign i rows =
     (case rows i of
        None \<Rightarrow> Inl NotFound
      | Some r \<Rightarrow>
          if row_experiments r = [] then Inl UsageError
          else if row_status r \<notin> {''draft'', ''scheduled'', ''running'', ''paused''} then Inl UsageError
          else Inr r)"

definition run_begin :: "string \<Rightarrow> campaign_rows \<Rightarrow> cli_error + campaign_row \<times> campaign_rows" where
  "run_begin i rows = and_then (load_campaign i rows) (\<lambda>r. Inr (r, set_status i ''running'' rows))"

definition run_end :: "string \<Rightarrow> bool \<Rightarrow> campaign_rows \<Rightarrow> campaign_rows" where
  "run_end i completed rows = set_status i (if completed then ''completed'' else ''aborted'') rows"

section \<open>What the rows hold\<close>

definition rows_stored :: "campaign_rows \<Rightarrow> bool" where
  "rows_stored rows \<longleftrightarrow> (\<forall>i r. rows i = Some r \<longrightarrow> row_status r \<in> stored_statuses)"

lemma db_status_stored: "s \<noteq> CS_SCHEDULED \<Longrightarrow> db_status s \<in> stored_statuses"
  by (cases s) (simp_all add: db_status_def stored_statuses_def)

lemma transition_row_stored:
  "transition_row i new legacy rows = Inr rows' \<Longrightarrow> rows_stored rows \<Longrightarrow> new \<noteq> CS_SCHEDULED
     \<Longrightarrow> rows_stored rows'"
  by (auto simp: transition_row_def rows_stored_def and_then_Inr_iff transition_campaign_def
        db_status_stored split: option.splits sum.splits if_splits)

lemma set_status_stored:
  "rows_stored rows \<Longrightarrow> v \<in> stored_statuses \<Longrightarrow> rows_stored (set_status i v rows)"
  by (auto simp: rows_stored_def set_status_def split: option.splits)

lemma commands_stored:
  assumes "rows_stored rows"
  shows "rows_stored (cmd_create i rows)"
    and "cmd_delete i rows = Inr rows' \<Longrightarrow> rows_stored rows'"
    and "cmd_approve i rows = Inr rows' \<Longrightarrow> rows_stored rows'"
    and "cmd_pause i rows = Inr rows' \<Longrightarrow> rows_stored rows'"
    and "cmd_abort i rows = Inr rows' \<Longrightarrow> rows_stored rows'"
    and "cmd_resume i rows = Inr rows' \<Longrightarrow> rows_stored rows'"
    and "cmd_start i rows = Inr rows' \<Longrightarrow> rows_stored rows'"
    and "cmd_archive i rows = Inr rows' \<Longrightarrow> rows_stored rows'"
    and "cmd_add_experiment i p rows = Inr rows' \<Longrightarrow> rows_stored rows'"
    and "run_begin i rows = Inr (r, rows') \<Longrightarrow> rows_stored rows'"
    and "rows_stored (run_end i b rows)"
  using assms
  by (auto simp: cmd_create_def cmd_delete_def cmd_approve_def cmd_pause_def cmd_abort_def
      cmd_resume_def cmd_start_def cmd_archive_def cmd_add_experiment_def run_begin_def run_end_def
      on_status_def and_then_Inr_iff stored_statuses_def
      intro!: set_status_stored dest: transition_row_stored
      split: option.splits sum.splits if_splits)
     (auto simp: rows_stored_def stored_statuses_def split: if_splits)

text \<open>What is stored is read back, but for the two statuses the table does not know.\<close>

lemma status_read_back:
  "row_campaign_status (db_status s) = Inr s \<longleftrightarrow> s \<notin> {CS_SCHEDULED, CS_ARCHIVED}"
  by (cases s) (simp_all add: row_campaign_status_def db_status_def status_of_def)

text \<open>
  Findings: an aborted campaign that is archived reads as completed, and is archived again; the run
  process writes its own verdict over an abort given while it ran.
\<close>

theorem archived_abort_reads_completed:
  assumes "rows i = Some r" and "row_status r = ''aborted''"
  shows "\<exists>rows1 rows2. cmd_archive i rows = Inr rows1
     \<and> map_option row_status (rows1 i) = Some ''completed''
     \<and> cmd_archive i rows1 = Inr rows2"
  using assms
  by (simp add: cmd_archive_def on_status_def row_campaign_status_def status_of_def
      transition_row_def transition_campaign_def campaign_can_transition_def db_status_def)

theorem abort_overwritten:
  assumes "rows i = Some r" and "row_status r = ''scheduled''" and "row_experiments r \<noteq> []"
  shows "\<exists>rows1 rows2. run_begin i rows = Inr (r, rows1) \<and> cmd_abort i rows1 = Inr rows2
     \<and> map_option row_status (rows2 i) = Some ''aborted''
     \<and> map_option row_status (run_end i True rows2 i) = Some ''completed''"
  using assms
  by (simp add: run_begin_def load_campaign_def set_status_def cmd_abort_def transition_row_def
      row_campaign_status_def status_of_def transition_campaign_def campaign_can_transition_def
      db_status_def run_end_def)

section \<open>The sequence of experiments\<close>

text \<open>
  \<open>policy\<close> and \<open>window\<close> as the keys the code reads; a missing or zero duration falls to the
  default, as \<open>x or 3600.0\<close> does. The world is what the runner, the clock and the sleep act on.
\<close>

record RunOutcome =
  ro_run :: string
  ro_status :: string
  ro_verdict :: string

record 'w sequence_env =
  sv_on_failure :: "string option"
  sv_max_duration :: "rat option"
  sv_cooldown :: "rat option"
  sv_run_one :: "string \<Rightarrow> 'w \<Rightarrow> (py_error + RunOutcome) \<times> 'w"
  sv_now :: "'w \<Rightarrow> rat \<times> 'w"
  sv_sleep :: "rat \<Rightarrow> 'w \<Rightarrow> 'w"

record CampaignRunEntry =
  cre_spec :: string
  cre_run :: string
  cre_status :: string
  cre_verdict :: string
  cre_plan :: string
  cre_evidence :: string

datatype observation =
    ObsRun nat CampaignRunEntry
  | ObsStop rat
  | ObsDone nat

datatype CampaignOutcome = SEQ_COMPLETED | SEQ_FAILED | SEQ_ABORTED

record 'w sequence_state =
  sq_runs :: "CampaignRunEntry list"
  sq_observed :: "observation list"
  sq_world :: 'w

definition on_failure :: "'w sequence_env \<Rightarrow> string" where
  "on_failure v = (case sv_on_failure v of None \<Rightarrow> ''abort_campaign'' | Some s \<Rightarrow> s)"

definition or_default :: "rat option \<Rightarrow> rat \<Rightarrow> rat" where
  "or_default x d = (case x of None \<Rightarrow> d | Some y \<Rightarrow> if y = 0 then d else y)"

definition max_duration :: "'w sequence_env \<Rightarrow> rat" where
  "max_duration v = or_default (sv_max_duration v) 3600"

definition cooldown :: "'w sequence_env \<Rightarrow> rat" where
  "cooldown v = max 0 (or_default (sv_cooldown v) 0)"

text \<open>\<open>_attempt\<close>: under the abort policy a raising run stops everything, else it yields nothing.\<close>

definition attempt :: "'w sequence_env \<Rightarrow> string \<Rightarrow> 'w sequence_state
    \<Rightarrow> (cli_error + RunOutcome option) \<times> 'w sequence_state" where
  "attempt v path st =
     (case sv_run_one v path (sq_world st) of
        (Inr r, w) \<Rightarrow> (Inr (Some r), st\<lparr>sq_world := w\<rparr>)
      | (Inl e, w) \<Rightarrow>
          (if on_failure v = ''abort_campaign'' then Inl (ExecutionError path e) else Inr None,
           st\<lparr>sq_world := w\<rparr>))"

definition record_run :: "nat \<Rightarrow> string \<Rightarrow> RunOutcome \<Rightarrow> 'w sequence_state \<Rightarrow> 'w sequence_state" where
  "record_run i path r st =
     (let entry = \<lparr>cre_spec = path, cre_run = ro_run r, cre_status = ro_status r,
                   cre_verdict = ro_verdict r, cre_plan = ro_run r,
                   cre_evidence = ''evidence-'' @ ro_run r\<rparr>
      in st\<lparr>sq_runs := sq_runs st @ [entry], sq_observed := sq_observed st @ [ObsRun i entry]\<rparr>)"

definition cool_down :: "'w sequence_env \<Rightarrow> string list \<Rightarrow> 'w sequence_state \<Rightarrow> 'w sequence_state" where
  "cool_down v rest st =
     (if rest \<noteq> [] \<and> cooldown v > 0 then st\<lparr>sq_world := sv_sleep v (cooldown v) (sq_world st)\<rparr> else st)"

text \<open>What the turn of one experiment decides: go on after the cooldown, go on at once, or end.\<close>

datatype turn = Cooled | AtOnce | Ended CampaignOutcome

definition run_turn :: "'w sequence_env \<Rightarrow> nat \<Rightarrow> string \<Rightarrow> 'w sequence_state
    \<Rightarrow> (cli_error + turn) \<times> 'w sequence_state" where
  "run_turn v i path st =
     (case attempt v path st of
        (Inl e, st1) \<Rightarrow> (Inl e, st1)
      | (Inr None, st1) \<Rightarrow>
          (Inr (if on_failure v \<noteq> ''skip_and_continue'' then Ended SEQ_FAILED else Cooled), st1)
      | (Inr (Some r), st1) \<Rightarrow>
          (let st2 = record_run i path r st1
           in if ro_status r = ''completed'' then (Inr Cooled, st2)
              else if on_failure v = ''skip_and_continue'' then (Inr AtOnce, st2)
              else if on_failure v = ''retry_then_abort''
              then (case attempt v path st2 of
                      (Inl e, st3) \<Rightarrow> (Inl e, st3)
                    | (Inr None, st3) \<Rightarrow> (Inr (Ended SEQ_FAILED), st3)
                    | (Inr (Some r2), st3) \<Rightarrow>
                        if ro_status r2 = ''completed'' then (Inr AtOnce, record_run i path r2 st3)
                        else (Inr (Ended SEQ_FAILED), st3))
              else (Inr (Ended SEQ_FAILED), st2)))"

fun run_specs :: "'w sequence_env \<Rightarrow> rat \<Rightarrow> nat \<Rightarrow> string list \<Rightarrow> 'w sequence_state
    \<Rightarrow> (cli_error + CampaignOutcome) \<times> 'w sequence_state" where
  "run_specs v started i [] st = (Inr SEQ_COMPLETED, st)"
| "run_specs v started i (path # rest) st =
     (case sv_now v (sq_world st) of
        (t, w) \<Rightarrow>
          (let elapsed = t - started; st1 = st\<lparr>sq_world := w\<rparr>
           in if elapsed \<ge> max_duration v
              then (Inr SEQ_ABORTED, st1\<lparr>sq_observed := sq_observed st1 @ [ObsStop elapsed]\<rparr>)
              else (case run_turn v i path st1 of
                      (Inl e, st2) \<Rightarrow> (Inl e, st2)
                    | (Inr (Ended out), st2) \<Rightarrow> (Inr out, st2)
                    | (Inr AtOnce, st2) \<Rightarrow> run_specs v started (i + 1) rest st2
                    | (Inr Cooled, st2) \<Rightarrow> run_specs v started (i + 1) rest (cool_down v rest st2))))"

definition run_campaign_sequence :: "'w sequence_env \<Rightarrow> string list \<Rightarrow> 'w
    \<Rightarrow> (cli_error + CampaignOutcome) \<times> 'w sequence_state" where
  "run_campaign_sequence v experiments w =
     (case sv_now v w of
        (started, w1) \<Rightarrow>
          (case run_specs v started 0 experiments \<lparr>sq_runs = [], sq_observed = [], sq_world = w1\<rparr> of
             (Inl e, st) \<Rightarrow> (Inl e, st)
           | (Inr out, st) \<Rightarrow>
               (Inr out,
                if out = SEQ_COMPLETED
                then st\<lparr>sq_observed := sq_observed st @ [ObsDone (length (sq_runs st))]\<rparr> else st)))"

text \<open>\<open>campaign run\<close>: an exception leaves before the last write.\<close>

definition run_campaign :: "string \<Rightarrow> (campaign_row \<Rightarrow> 'w sequence_env) \<Rightarrow> campaign_rows \<Rightarrow> 'w
    \<Rightarrow> (cli_error + CampaignOutcome) \<times> campaign_rows" where
  "run_campaign i env rows w =
     (case run_begin i rows of
        Inl e \<Rightarrow> (Inl e, rows)
      | Inr (r, rows1) \<Rightarrow>
          (case run_campaign_sequence (env r) (row_experiments r) w of
             (Inl e, _) \<Rightarrow> (Inl e, rows1)
           | (Inr out, _) \<Rightarrow> (Inr out, run_end i (out = SEQ_COMPLETED) rows1)))"

end
