(* ===== verification/Campaign_Sequence.thy ===== *)
theory Campaign_Sequence
  imports Campaign_Runs
begin

text \<open>
  What \<open>run_campaign_sequence\<close> does to its runner, over a ghost list of the attempts beside the
  world, oldest first: which experiments are attempted, how often, and what each outcome means; and
  where the sequence and the words about it part.
\<close>

section \<open>The attempts\<close>

definition seen :: "'e + RunOutcome option \<Rightarrow> string option" where
  "seen r = (case r of Inr (Some y) \<Rightarrow> Some (ro_status y) | _ \<Rightarrow> None)"

lemma seen_simps [simp]:
  "seen (Inl e) = None" "seen (Inr None) = None" "seen (Inr (Some y)) = Some (ro_status y)"
  by (simp_all add: seen_def)

type_synonym attempts = "(string \<times> string option) list"

definition watched :: "'w sequence_env \<Rightarrow> ('w \<times> attempts) sequence_env" where
  "watched v =
     \<lparr>sv_on_failure = sv_on_failure v, sv_max_duration = sv_max_duration v,
      sv_cooldown = sv_cooldown v,
      sv_run_one = (\<lambda>p (w, tr). case sv_run_one v p w of
         (r, w') \<Rightarrow> (r, (w', tr @ [(p, case r of Inl _ \<Rightarrow> None | Inr y \<Rightarrow> Some (ro_status y))]))),
      sv_now = (\<lambda>(w, tr). case sv_now v w of (t, w') \<Rightarrow> (t, (w', tr))),
      sv_sleep = (\<lambda>d (w, tr). (sv_sleep v d w, tr))\<rparr>"

lemma watched_policy [simp]:
  "on_failure (watched v) = on_failure v" "max_duration (watched v) = max_duration v"
  "cooldown (watched v) = cooldown v"
  by (simp_all add: watched_def on_failure_def max_duration_def cooldown_def)

definition tried :: "('w \<times> attempts) sequence_state \<Rightarrow> attempts" where
  "tried st = snd (sq_world st)"

lemma tried_upd [simp]:
  "tried (st\<lparr>sq_runs := a\<rparr>) = tried st" "tried (st\<lparr>sq_observed := b\<rparr>) = tried st"
  "tried (st\<lparr>sq_world := wt\<rparr>) = snd wt"
  by (simp_all add: tried_def)

lemma tried_record [simp]: "tried (record_run i p r st) = tried st"
  by (simp add: record_run_def Let_def)

lemma tried_cool [simp]: "tried (cool_down (watched v) rest st) = tried st"
  by (cases "sq_world st") (simp add: cool_down_def watched_def tried_def)

lemma tried_now: "sv_now (watched v) (sq_world st) = (t, w) \<Longrightarrow> snd w = tried st"
  by (cases "sq_world st") (auto simp: watched_def tried_def split: prod.splits)

lemma attempt_tried:
  assumes "attempt (watched v) p st = (r, st')"
  shows "tried st' = tried st @ [(p, seen r)] \<and> (r = Inr None \<longrightarrow> on_failure v \<noteq> ''abort_campaign'')
     \<and> ((\<exists>e. r = Inl e) \<longrightarrow> on_failure v = ''abort_campaign'')"
proof -
  obtain w tr where st: "sq_world st = (w, tr)" by fastforce
  obtain q w' where q: "sv_run_one v p w = (q, w')" by fastforce
  have policy: "on_failure (watched v) = on_failure v" by simp
  have run: "sv_run_one (watched v) p (w, tr)
      = (q, (w', tr @ [(p, case q of Inl _ \<Rightarrow> None | Inr y \<Rightarrow> Some (ro_status y))]))"
    using q by (simp add: watched_def)
  show ?thesis
    using assms unfolding attempt_def st run policy
    by (cases q) (auto simp: tried_def st split: if_splits)
qed

text \<open>
  The attempts at one experiment: one, or under \<open>retry_then_abort\<close> a second after a run that did not
  complete. They settle it when the last one completed, or failures are skipped.
\<close>

definition fair_tries :: "string \<Rightarrow> string option list \<Rightarrow> bool" where
  "fair_tries pol ch \<longleftrightarrow>
     (\<exists>x. ch = [x])
     \<or> (pol = ''retry_then_abort'' \<and> (\<exists>s y. ch = [Some s, y] \<and> s \<noteq> ''completed''))"

definition settles :: "string \<Rightarrow> string option list \<Rightarrow> bool" where
  "settles pol ch \<longleftrightarrow> pol = ''skip_and_continue'' \<or> last ch = Some ''completed''"

lemma run_turn_tried:
  assumes "run_turn (watched v) i p st = (r, st')"
  shows "\<exists>ch. tried st' = tried st @ map (Pair p) ch \<and> fair_tries (on_failure v) ch
     \<and> (if settles (on_failure v) ch then r \<in> {Inr Cooled, Inr AtOnce}
        else r = Inr (Ended SEQ_FAILED) \<or> (\<exists>e. r = Inl e))"
proof -
  obtain q st1 where q: "attempt (watched v) p st = (q, st1)" by fastforce
  note a1 = attempt_tried [OF q]
  consider e where "q = Inl e" | "q = Inr None" | y where "q = Inr (Some y)" by (cases q) auto
  then show ?thesis
  proof cases
    case (1 e)
    then have "r = Inl e" "st' = st1" using assms q by (simp_all add: run_turn_def)
    then show ?thesis using a1 1 by (intro exI [of _ "[None]"]) (simp add: fair_tries_def settles_def)
  next
    case 2
    then have "r = Inr (if on_failure v \<noteq> ''skip_and_continue'' then Ended SEQ_FAILED else Cooled)"
      "st' = st1" using assms q by (simp_all add: run_turn_def)
    then show ?thesis using a1 2 by (intro exI [of _ "[None]"]) (simp add: fair_tries_def settles_def)
  next
    case (3 y)
    let ?st2 = "record_run i p y st1"
    have here: "tried ?st2 = tried st @ [(p, Some (ro_status y))]" using a1 3 by simp
    show ?thesis
    proof (cases "ro_status y \<noteq> ''completed'' \<and> on_failure v = ''retry_then_abort''")
      case False
      then have "st' = ?st2" "if settles (on_failure v) [Some (ro_status y)] then r \<in> {Inr Cooled, Inr AtOnce}
          else r = Inr (Ended SEQ_FAILED)"
        using assms q 3 by (auto simp: run_turn_def Let_def settles_def split: if_splits)
      then show ?thesis
        using here by (intro exI [of _ "[Some (ro_status y)]"]) (auto simp: fair_tries_def split: if_splits)
    next
      case retry: True
      obtain q2 st3 where q2: "attempt (watched v) p ?st2 = (q2, st3)" by fastforce
      note a2 = attempt_tried [OF q2]
      have eq: "(r, st') = (case (q2, st3) of
          (Inl e, st3) \<Rightarrow> (Inl e, st3)
        | (Inr None, st3) \<Rightarrow> (Inr (Ended SEQ_FAILED), st3)
        | (Inr (Some r2), st3) \<Rightarrow>
            if ro_status r2 = ''completed'' then (Inr AtOnce, record_run i p r2 st3)
            else (Inr (Ended SEQ_FAILED), st3))"
        using assms q 3 retry q2 by (simp add: run_turn_def Let_def)
      have "tried st' = tried st @ map (Pair p) [Some (ro_status y), seen q2]
          \<and> (if seen q2 = Some ''completed'' then r = Inr AtOnce
             else r = Inr (Ended SEQ_FAILED) \<or> (\<exists>e. r = Inl e))"
      proof (cases q2)
        case (Inl e)
        then show ?thesis using eq a2 here by simp
      next
        case (Inr k)
        then show ?thesis using eq a2 here by (cases k) (auto split: if_splits)
      qed
      then show ?thesis
        using retry
        by (intro exI [of _ "[Some (ro_status y), seen q2]"]) (auto simp: fair_tries_def settles_def)
    qed
  qed
qed

definition tries :: "string list \<Rightarrow> string option list list \<Rightarrow> attempts" where
  "tries specs chs = concat (map2 (\<lambda>p ch. map (Pair p) ch) specs chs)"

text \<open>What the chunks of attempts say of the outcome.\<close>

definition outcome_fits :: "string \<Rightarrow> nat \<Rightarrow> string option list list \<Rightarrow> 'e + CampaignOutcome \<Rightarrow> bool" where
  "outcome_fits pol n chs r \<longleftrightarrow>
     length chs \<le> n \<and> list_all (fair_tries pol) chs \<and> list_all (settles pol) (butlast chs)
     \<and> (if chs \<noteq> [] \<and> \<not> settles pol (last chs) then r = Inr SEQ_FAILED \<or> (\<exists>e. r = Inl e)
        else if length chs = n then r = Inr SEQ_COMPLETED else r = Inr SEQ_ABORTED)"

lemma outcome_fits_Cons:
  assumes "outcome_fits pol n chs r" and "fair_tries pol ch" and "settles pol ch"
  shows "outcome_fits pol (Suc n) (ch # chs) r"
  using assms by (cases chs) (auto simp: outcome_fits_def split: if_splits)

lemma run_specs_tried:
  assumes "run_specs (watched v) started i specs st = (r, st')"
  shows "\<exists>chs. tried st' = tried st @ tries specs chs \<and> outcome_fits (on_failure v) (length specs) chs r"
  using assms
proof (induction specs arbitrary: i st)
  case Nil
  then show ?case by (intro exI [of _ "[]"]) (simp add: tries_def outcome_fits_def)
next
  case (Cons p rest)
  obtain t w where now: "sv_now (watched v) (sq_world st) = (t, w)"
    by (cases "sv_now (watched v) (sq_world st)")
  let ?st1 = "st\<lparr>sq_world := w\<rparr>"
  have same: "tried ?st1 = tried st" using tried_now [OF now] by simp
  show ?case
  proof (cases "t - started \<ge> max_duration v")
    case True
    then have "r = Inr SEQ_ABORTED" "tried st' = tried st"
      using Cons.prems now same by (auto simp: Let_def)
    then show ?thesis by (intro exI [of _ "[]"]) (simp add: tries_def outcome_fits_def)
  next
    case False
    obtain q st2 where turn: "run_turn (watched v) i p ?st1 = (q, st2)" by fastforce
    obtain ch where ch: "tried st2 = tried st @ map (Pair p) ch" "fair_tries (on_failure v) ch"
        "if settles (on_failure v) ch then q \<in> {Inr Cooled, Inr AtOnce}
         else q = Inr (Ended SEQ_FAILED) \<or> (\<exists>e. q = Inl e)"
      using run_turn_tried [OF turn] same by auto
    show ?thesis
    proof (cases "settles (on_failure v) ch")
      case True
      then have "run_specs (watched v) started (i + 1) rest st2 = (r, st')
          \<or> run_specs (watched v) started (i + 1) rest (cool_down (watched v) rest st2) = (r, st')"
        using Cons.prems now False turn ch(3) by (auto simp: Let_def)
      then obtain st3 where "tried st3 = tried st2" "run_specs (watched v) started (i + 1) rest st3 = (r, st')"
        using tried_cool by metis
      with Cons.IH obtain chs where "tried st' = tried st2 @ tries rest chs"
          "outcome_fits (on_failure v) (length rest) chs r" by metis
      then show ?thesis
        using ch(1,2) True outcome_fits_Cons
        by (intro exI [of _ "ch # chs"]) (simp add: tries_def)
    next
      case no: False
      then have "st' = st2" "r = Inr SEQ_FAILED \<or> (\<exists>e. r = Inl e)"
        using Cons.prems now False turn ch(3) by (auto simp: Let_def)
      then show ?thesis
        using ch(1,2) no by (intro exI [of _ "[ch]"]) (auto simp: tries_def outcome_fits_def)
    qed
  qed
qed

text \<open>
  C22. The experiments of a campaign are attempted one at a time in their order from the first, each
  once, or a second time under \<open>retry_then_abort\<close> after a run that did not complete; nothing is
  attempted after an experiment that was not settled. The campaign is completed exactly when all were
  attempted and settled - each by a completed run unless failures are skipped -, failed or raising
  exactly when the last one attempted was not, and aborted when the window closed before the rest.
\<close>

theorem sequence_accounts_for_attempts:
  assumes "run_campaign_sequence (watched v) experiments (w, []) = (r, st)"
  shows "\<exists>chs. tried st = tries experiments chs
     \<and> outcome_fits (on_failure v) (length experiments) chs r"
proof -
  obtain started w1 where now: "sv_now (watched v) (w, []) = (started, w1)"
    by (cases "sv_now (watched v) (w, [])")
  let ?st0 = "\<lparr>sq_runs = [], sq_observed = [], sq_world = w1\<rparr>"
  have start: "tried ?st0 = []"
    using now by (auto simp: watched_def tried_def split: prod.splits)
  obtain q st1 where specs: "run_specs (watched v) started 0 experiments ?st0 = (q, st1)" by fastforce
  have "r = q" "tried st = tried st1"
    using assms now specs by (cases q; auto simp: run_campaign_sequence_def)+
  then show ?thesis using run_specs_tried [OF specs] start by simp
qed

text \<open>A runner that fails once on "b", under each policy; its world counts the calls.\<close>

definition demo_env :: "string \<Rightarrow> (string \<Rightarrow> nat \<Rightarrow> py_error + RunOutcome) \<Rightarrow> nat sequence_env" where
  "demo_env pol run =
     \<lparr>sv_on_failure = Some pol, sv_max_duration = None, sv_cooldown = Some 5,
      sv_run_one = (\<lambda>p n. (run p n, n + 1)), sv_now = (\<lambda>n. (0, n)), sv_sleep = (\<lambda>d n. n + 100)\<rparr>"

definition outcome_of :: "string \<Rightarrow> RunOutcome" where
  "outcome_of s = \<lparr>ro_run = ''r'', ro_status = s, ro_verdict = []\<rparr>"

lemmas sequence_unfolds = run_campaign_sequence_def run_turn_def attempt_def record_run_def
  cool_down_def max_duration_def cooldown_def or_default_def on_failure_def demo_env_def outcome_of_def

theorem sequence_accounts_for_attempts_witness:
  "\<exists>r st chs. run_campaign_sequence
       (watched (demo_env ''retry_then_abort'' (\<lambda>p n. Inr (outcome_of (if n = 0 then ''failed'' else ''completed'')))))
       [''a'', ''b''] (0, []) = (r, st)
     \<and> r = Inr SEQ_COMPLETED
     \<and> tried st = [(''a'', Some ''failed''), (''a'', Some ''completed''), (''b'', Some ''completed'')]
     \<and> tried st = tries [''a'', ''b''] chs \<and> outcome_fits ''retry_then_abort'' (length [''a'', ''b'']) chs r"
proof -
  let ?v = "demo_env ''retry_then_abort'' (\<lambda>p n. Inr (outcome_of (if n = 0 then ''failed'' else ''completed'')))"
  obtain r st where run: "run_campaign_sequence (watched ?v) [''a'', ''b''] (0, []) = (r, st)"
      and out: "r = Inr SEQ_COMPLETED"
        "tried st = [(''a'', Some ''failed''), (''a'', Some ''completed''), (''b'', Some ''completed'')]"
    by (simp add: sequence_unfolds watched_def tried_def Let_def)
  have "on_failure ?v = ''retry_then_abort''" by (simp add: on_failure_def demo_env_def)
  with sequence_accounts_for_attempts [OF run] obtain chs where
    "tried st = tries [''a'', ''b''] chs"
    "outcome_fits ''retry_then_abort'' (length [''a'', ''b'']) chs r" by metis
  with run out show ?thesis by blast
qed

section \<open>Where the sequence and its words part\<close>

text \<open>
  \<open>retry_then_abort\<close> promises one bounded retry: an experiment whose run raises gets none.
\<close>

theorem raising_run_not_retried:
  "\<exists>st. run_campaign_sequence (watched (demo_env ''retry_then_abort'' (\<lambda>p n. Inl OSErr)))
          [''a''] (0, []) = (Inr SEQ_FAILED, st) \<and> tried st = [(''a'', None)]"
  by (simp add: sequence_unfolds watched_def tried_def Let_def)

text \<open>
  The cooldown "is slept between specs": not after one that failed and was skipped, nor after a
  retry. The demo's sleep adds 100 to the count of calls.
\<close>

theorem cooldown_skipped_after_failure:
  "(\<exists>st. run_campaign_sequence (demo_env ''skip_and_continue'' (\<lambda>p n. Inr (outcome_of ''failed'')))
          [''a'', ''b''] 0 = (Inr SEQ_COMPLETED, st) \<and> sq_world st = 2)
   \<and> (\<exists>st. run_campaign_sequence (demo_env ''skip_and_continue'' (\<lambda>p n. Inr (outcome_of ''completed'')))
          [''a'', ''b''] 0 = (Inr SEQ_COMPLETED, st) \<and> sq_world st = 102)"
  by (simp add: sequence_unfolds Let_def)

text \<open>A run of the last retry that failed leaves no entry: two attempts, one recorded.\<close>

theorem failed_retry_unrecorded:
  "\<exists>st. run_campaign_sequence (watched (demo_env ''retry_then_abort'' (\<lambda>p n. Inr (outcome_of ''failed''))))
          [''a''] (0, []) = (Inr SEQ_FAILED, st)
     \<and> length (tried st) = 2 \<and> length (sq_runs st) = 1"
  by (simp add: sequence_unfolds watched_def tried_def Let_def)

text \<open>A window of 0 seconds is read as the default hour.\<close>

theorem zero_window_is_an_hour: "sv_max_duration v = Some 0 \<Longrightarrow> max_duration v = 3600"
  by (simp add: max_duration_def or_default_def)

text \<open>
  Under the default policy an experiment that raises leaves the campaign's row at "running": the last
  write is not reached.
\<close>

theorem raise_leaves_running:
  assumes "rows i = Some \<lparr>row_status = ''scheduled'', row_experiments = [''a'']\<rparr>"
  shows "\<exists>rows'. run_campaign i (\<lambda>_. demo_env ''abort_campaign'' (\<lambda>p n. Inl OSErr)) rows 0
           = (Inl (ExecutionError ''a'' OSErr), rows')
     \<and> map_option row_status (rows' i) = Some ''running''"
  using assms
  by (simp add: run_campaign_def run_begin_def load_campaign_def set_status_def sequence_unfolds Let_def)

text \<open>A draft nobody approved runs: \<open>run\<close> does not go through the transition table.\<close>

theorem draft_runs_unapproved:
  assumes "rows i = Some \<lparr>row_status = ''draft'', row_experiments = [''a'']\<rparr>"
  shows "\<exists>rows'. run_campaign i (\<lambda>_. demo_env ''abort_campaign'' (\<lambda>p n. Inr (outcome_of ''completed''))) rows 0
           = (Inr SEQ_COMPLETED, rows')
     \<and> map_option row_status (rows' i) = Some ''completed''"
  using assms
  by (simp add: run_campaign_def run_begin_def run_end_def load_campaign_def set_status_def
      sequence_unfolds Let_def)

end
