(* ===== verification/Campaign_Dispatch.thy ===== *)
theory Campaign_Dispatch
  imports Policy_Laws Safety_Case
begin

text \<open>
  The decisions of \<open>controller/campaign_dispatch.py\<close>: whether a compiled run is admissible and which
  proof lines stand in its way, and the probe of the campaign's damage budget, with its comparison
  to the policy gate's own walk of the same tree. The texts of reasons are left out.
\<close>

section \<open>Admissibility\<close>

definition REQUIRED_PROOF_LINES :: "string list" where
  "REQUIRED_PROOF_LINES =
     [''max_concurrent_faults'', ''max_duration'', ''damage_budget'', ''target_policy'',
      ''capability_requirements'', ''compensation'', ''recovery_path'', ''stop_conditions'',
      ''required_approvals'']"

record CampaignDispatch =
  cx_plan :: ExecutionPlan
  cx_digest :: string
  cx_proof :: SafetyProof
  cx_policy :: "PolicyGateResult option"

definition policy_allowed :: "CampaignDispatch \<Rightarrow> bool" where
  "policy_allowed d \<longleftrightarrow> (case cx_policy d of None \<Rightarrow> True | Some r \<Rightarrow> gate_result_allowed r)"

definition dispatch_admissible :: "CampaignDispatch \<Rightarrow> bool" where
  "dispatch_admissible d \<longleftrightarrow> sp_verdict (cx_proof d) = PROOF_PASS \<and> policy_allowed d"

text \<open>The dict of lines: of several of one name the last one counts.\<close>

definition line_status :: "SafetyProof \<Rightarrow> string \<Rightarrow> ObligationStatus option" where
  "line_status p = map_of (rev (map (\<lambda>l. (pl_name l, pl_status l)) (sp_lines p)))"

definition unproven_lines :: "CampaignDispatch \<Rightarrow> string list" where
  "unproven_lines d = filter (\<lambda>n. line_status (cx_proof d) n \<noteq> Some OB_PASS) REQUIRED_PROOF_LINES"

lemma required_lines_are_the_spine: "REQUIRED_PROOF_LINES = required_obligations"
  by (simp add: REQUIRED_PROOF_LINES_def required_obligations_def)

lemma line_status_set: "line_status p n = Some s \<Longrightarrow> \<exists>l\<in>set (sp_lines p). pl_name l = n \<and> pl_status l = s"
proof -
  assume "line_status p n = Some s"
  from map_of_SomeD [OF this [unfolded line_status_def]]
  show "\<exists>l\<in>set (sp_lines p). pl_name l = n \<and> pl_status l = s" by auto
qed

lemma line_status_dom: "line_status p n = None \<longleftrightarrow> n \<notin> pl_name ` set (sp_lines p)"
  by (auto simp: line_status_def map_of_eq_None_iff image_image)

text \<open>
  An admissible dispatch whose proof's verdict is the one its lines give has no unproven line; the
  policy's yes alone never admits.
\<close>

lemma admissible_proves_spine:
  assumes "dispatch_admissible d" and "sp_verdict (cx_proof d) = recompute_verdict (cx_proof d)"
  shows "unproven_lines d = []"
proof -
  let ?p = "cx_proof d"
  have pass: "recompute_verdict ?p = PROOF_PASS" using assms by (simp add: dispatch_admissible_def)
  have all: "pl_status l = OB_PASS" if "l \<in> set (sp_lines ?p)" for l
    using pass that by (cases "pl_status l") (auto simp: recompute_verdict_def list_ex_iff split: if_splits)
  have none: "missing_obligations ?p = []"
    using pass by (auto simp: recompute_verdict_def split: if_splits)
  have "line_status ?p n = Some OB_PASS" if "n \<in> set REQUIRED_PROOF_LINES" for n
  proof -
    have "n \<in> pl_name ` set (sp_lines ?p)"
      using none that by (auto simp: missing_obligations_def filter_empty_iff_all required_lines_are_the_spine)
    then obtain s where s: "line_status ?p n = Some s" using line_status_dom by fastforce
    with line_status_set [OF s] all show ?thesis by auto
  qed
  then show ?thesis by (simp add: unproven_lines_def filter_empty_iff_all)
qed

section \<open>The campaign's budget\<close>

text \<open>\<open>_chargeable\<close>: prefixes from the longest down; a path that does not resolve is passed over.\<close>

definition names_real_nodes :: "BudgetNode \<Rightarrow> string list \<Rightarrow> bool" where
  "names_real_nodes tree ks =
     (case budget_path tree ks of
        Inl _ \<Rightarrow> False
      | Inr resolved \<Rightarrow> list_all2 (\<lambda>n k. bd_key n = k) resolved ks)"

fun campaign_chargeable_from :: "BudgetNode \<Rightarrow> string list \<Rightarrow> nat \<Rightarrow> py_error + string list" where
  "campaign_chargeable_from tree keys 0 = Inl (InvariantViolation ''policy.budget_path_missing'')"
| "campaign_chargeable_from tree keys (Suc n) =
     (if names_real_nodes tree (take (Suc n) keys) then Inr (take (Suc n) keys)
      else campaign_chargeable_from tree keys n)"

definition campaign_chargeable :: "BudgetNode \<Rightarrow> string list \<Rightarrow> py_error + string list" where
  "campaign_chargeable tree keys = campaign_chargeable_from tree keys (length keys)"

fun campaign_charges ::
  "GateEnv \<Rightarrow> string list \<Rightarrow> PlannedFault list \<Rightarrow> BudgetNode \<Rightarrow> py_error + (BudgetNode \<times> BudgetCharge list)" where
  "campaign_charges env path [] tree = Inr (tree, [])"
| "campaign_charges env path (f # fs) tree =
     and_then (campaign_chargeable tree (path @ [pf_fault_id f])) (\<lambda>keys.
     and_then (post_charge (ge_fl env) tree keys (step_amount env f)) (\<lambda>(tree', posted).
     and_then (campaign_charges env path fs tree') (\<lambda>(tree'', charges).
       Inr (tree'', posted @ charges))))"

record CampaignBudgetVerdict =
  bv_allowed :: bool
  bv_charges :: "BudgetCharge list"
  bv_rule :: string
  bv_committed :: "BudgetNode option"

definition campaign_budget_limit :: string where
  "campaign_budget_limit = ''schedule.campaign_budget''"

definition campaign_budget_verdict ::
  "GateEnv \<Rightarrow> BudgetNode option \<Rightarrow> string list \<Rightarrow> ExecutionPlan \<Rightarrow> py_error + CampaignBudgetVerdict" where
  "campaign_budget_verdict env budget path plan =
     (case budget of
        None \<Rightarrow> Inr \<lparr>bv_allowed = True, bv_charges = [], bv_rule = [], bv_committed = None\<rparr>
      | Some tree \<Rightarrow>
          (case campaign_charges env path (plan_faults plan) tree of
             Inl (InvariantViolation rule) \<Rightarrow>
               Inr \<lparr>bv_allowed = False, bv_charges = [], bv_rule = rule, bv_committed = None\<rparr>
           | Inl e \<Rightarrow> Inl e
           | Inr (tree', charges) \<Rightarrow>
               Inr (if list_ex bc_exceeded charges
                    then \<lparr>bv_allowed = False, bv_charges = charges, bv_rule = campaign_budget_limit,
                          bv_committed = None\<rparr>
                    else \<lparr>bv_allowed = True, bv_charges = charges, bv_rule = [],
                          bv_committed = Some tree'\<rparr>)))"

section \<open>One walk or two\<close>

text \<open>
  The policy gate descends by scope and depth, the campaign by \<open>path\<close> and a comparison of keys: on
  paths of at most five keys, the depth of the hierarchy, they name the same nodes.
\<close>

lemma scope_at_order:
  "scope_at d = (if d = 0 then Inr BUDGET_TEAM else if d = 1 then Inr BUDGET_ENVIRONMENT
     else if d = 2 then Inr BUDGET_SERVICE else if d = 3 then Inr BUDGET_EXPERIMENT
     else if d = 4 then Inr BUDGET_FAULT else Inl (InvariantViolation ''policy.budget_depth''))"
  by (simp add: scope_at_def)

lemma scope_at_iff: "d < 5 \<Longrightarrow> scope_at d = Inr s \<longleftrightarrow> scope_order s = d"
  by (cases s) (auto simp: scope_at_order)

lemma scope_at_small: "d < 5 \<Longrightarrow> \<exists>s. scope_at d = Inr s"
  by (auto simp: scope_at_order)

lemma child_scope_key: "budget_child n s k = Some c \<Longrightarrow> bd_scope c = s \<and> bd_key c = k"
  by (auto simp: budget_child_def find_Some_iff split: if_splits)

lemma child_at_depth:
  assumes "scope_at d = Inr s" and "d < 5"
  shows "budget_child n s k =
     (case down n k of None \<Rightarrow> None | Some c \<Rightarrow> if scope_order (bd_scope c) = d then Some c else None)"
proof (cases "next_scope (bd_scope n) = Some s")
  case True
  then have same: "down n k = budget_child n s k" by (simp add: down_def)
  have at: "scope_order s = d" using assms scope_at_iff by simp
  show ?thesis
  proof (cases "budget_child n s k")
    case (Some c)
    then show ?thesis using same at child_scope_key [OF Some] by simp
  qed (simp add: same)
next
  case False
  then have none: "budget_child n s k = None" by (auto simp: budget_child_def)
  have "scope_order (bd_scope c) \<noteq> d" if "down n k = Some c" for c
  proof -
    obtain s' where "next_scope (bd_scope n) = Some s'" "budget_child n s' k = Some c"
      using \<open>down n k = Some c\<close> by (auto simp: down_def split: option.splits)
    then have "bd_scope c \<noteq> s" using False child_scope_key [of n s' k c] by auto
    then show ?thesis using assms scope_at_iff [OF assms(2), of "bd_scope c"] by auto
  qed
  then show ?thesis using none by (auto split: option.splits)
qed

text \<open>From a node that stands where it should, both walks go down alike.\<close>

lemma walks_agree:
  assumes "d \<noteq> 0" and "d + length ks \<le> 5" and "scope_order (bd_scope n) = d - 1 \<or> d = 1"
  shows "(\<exists>m. descend_from d n ks = Inr m)
    \<and> ((\<exists>m. descend_from d n ks = Inr (Some m))
       \<longleftrightarrow> ks = [] \<or> (\<exists>ns. walk_path d (down n (hd ks)) ks = Inr ns \<and> list_all2 (\<lambda>n k. bd_key n = k) ns ks))"
  using assms
proof (induction ks arbitrary: d n)
  case Nil
  then show ?case by simp
next
  case (Cons k ks)
  have d5: "d < 5" using Cons.prems(2) by simp
  obtain s where s: "scope_at d = Inr s" using scope_at_small [OF d5] by auto
  show ?case
  proof (cases "budget_child n s k")
    case None
    then have "down n k = None \<or> (\<exists>c. down n k = Some c \<and> scope_order (bd_scope c) \<noteq> d)"
      using child_at_depth [OF s d5, of n k] by (auto split: option.splits if_splits)
    then show ?thesis using s None Cons.prems(1) by auto
  next
    case (Some c)
    then have c: "down n k = Some c" "scope_order (bd_scope c) = d" "bd_key c = k"
      using child_at_depth [OF s d5, of n k] child_scope_key [OF Some] by (auto split: option.splits if_splits)
    have "(\<exists>m. descend_from (d + 1) c ks = Inr m)
        \<and> ((\<exists>m. descend_from (d + 1) c ks = Inr (Some m))
           \<longleftrightarrow> ks = [] \<or> (\<exists>ns. walk_path (d + 1) (down c (hd ks)) ks = Inr ns
                              \<and> list_all2 (\<lambda>n k. bd_key n = k) ns ks))"
      using Cons.IH [of "d + 1" c] Cons.prems c(2) by simp
    then show ?thesis using s Some c Cons.prems(1)
      by (cases "ks = []") (auto split: sum.splits)
  qed
qed

lemma descend_agrees:
  assumes "ks \<noteq> []" and "length ks \<le> 5"
  shows "(\<exists>m. descend t ks = Inr m) \<and> ((\<exists>m. descend t ks = Inr (Some m)) \<longleftrightarrow> names_real_nodes t ks)"
proof -
  obtain k rest where ks: "ks = k # rest" using assms(1) by (cases ks) auto
  have "(\<exists>m. descend_from 1 t rest = Inr m)
      \<and> ((\<exists>m. descend_from 1 t rest = Inr (Some m))
         \<longleftrightarrow> rest = [] \<or> (\<exists>ns. walk_path 1 (down t (hd rest)) rest = Inr ns
                             \<and> list_all2 (\<lambda>n k. bd_key n = k) ns rest))"
    using walks_agree [of 1 rest t] assms ks by simp
  then show ?thesis
    by (cases "rest = []")
       (auto simp: ks descend_def names_real_nodes_def budget_path_def split: sum.splits)
qed

lemma chargeable_agrees:
  assumes "n \<le> length keys" and "length keys \<le> 5"
  shows "longest_prefix tree keys n = campaign_chargeable_from tree keys n"
  using assms(1)
proof (induction n)
  case 0
  then show ?case by simp
next
  case (Suc n)
  have "take (Suc n) keys \<noteq> []" "length (take (Suc n) keys) \<le> 5" using Suc.prems assms(2) by auto
  from descend_agrees [OF this, of tree] show ?case
    using Suc by (cases "descend tree (take (Suc n) keys)") (auto split: option.splits)
qed

lemma charges_agree:
  assumes "length path \<le> 4"
  shows "campaign_charges env path fs tree = charge_faults env path fs tree"
proof (induction fs arbitrary: tree)
  case Nil
  then show ?case by simp
next
  case (Cons f fs)
  have "campaign_chargeable tree (path @ [pf_fault_id f]) = chargeable_path tree path (pf_fault_id f)"
    using chargeable_agrees [of "Suc (length path)" "path @ [pf_fault_id f]" tree] assms
    by (simp add: campaign_chargeable_def chargeable_path_def)
  then show ?case using Cons.IH by (simp add: and_then_def split: sum.split prod.split)
qed

text \<open>
  C24. The campaign's budget and the policy gate's budget agree: over a path within the hierarchy's
  depth, the verdict allows exactly when the policy's probe of the same tree posts its charges and
  none exceeds its level, it reports those charges, and a tree or a path the probe refuses is refused
  under the same rule. A tree to commit is handed over exactly when the verdict allows.
\<close>

theorem campaign_budget_agrees:
  assumes depth: "length (pg_path i) \<le> 4" and tree: "pg_budget i = Some tree"
    and v: "campaign_budget_verdict env (pg_budget i) (pg_path i) plan = Inr v"
  shows "(bv_allowed v \<longleftrightarrow> (\<exists>cs. probe_budget env plan i = Inr cs \<and> \<not> list_ex bc_exceeded cs))
     \<and> (\<forall>cs. probe_budget env plan i = Inr cs \<longrightarrow> bv_charges v = cs)
     \<and> (\<forall>rule. probe_budget env plan i = Inl (InvariantViolation rule) \<longrightarrow>
            \<not> bv_allowed v \<and> bv_rule v = rule)
     \<and> (bv_committed v \<noteq> None \<longleftrightarrow> bv_allowed v)"
proof -
  have same: "campaign_charges env (pg_path i) (plan_faults plan) tree = charge_plan env plan i tree"
    using charges_agree [OF depth] by (simp add: charge_plan_def)
  show ?thesis
  proof (cases "charge_plan env plan i tree")
    case (Inl e)
    then show ?thesis
      using v tree same by (cases e) (auto simp: campaign_budget_verdict_def probe_budget_def)
  next
    case (Inr p)
    then show ?thesis
      using v tree same
      by (cases p) (auto simp: campaign_budget_verdict_def probe_budget_def split: if_splits)
  qed
qed

theorem campaign_budget_agrees_witness:
  "length (pg_path demo_inputs) \<le> 4 \<and> pg_budget demo_inputs = Some billing
   \<and> (\<exists>v. campaign_budget_verdict exact_env (pg_budget demo_inputs) (pg_path demo_inputs) one_fault = Inr v
          \<and> bv_allowed v \<and> bv_charges v \<noteq> [] \<and> bv_committed v \<noteq> None
          \<and> probe_budget exact_env one_fault demo_inputs = Inr (bv_charges v))"
proof -
  have depth: "length (pg_path demo_inputs) \<le> 4" and tree: "pg_budget demo_inputs = Some billing"
    by (simp_all add: demo_inputs_def)
  let ?v = "campaign_budget_verdict exact_env (pg_budget demo_inputs) (pg_path demo_inputs) one_fault"
  have "case ?v of Inl _ \<Rightarrow> False | Inr v \<Rightarrow> bv_allowed v \<and> bv_charges v \<noteq> []" by code_simp
  then obtain v where v: "?v = Inr v" "bv_allowed v" "bv_charges v \<noteq> []" by (cases ?v) auto
  from campaign_budget_agrees [OF depth tree v(1)] depth tree v show ?thesis by auto
qed

text \<open>
  Finding: "the same contract" ends with the hierarchy's depth. On a path that goes on below the
  fault level the policy gate raises and refuses; the campaign charges the prefix that exists.
\<close>

definition five_levels :: BudgetNode where
  "five_levels =
     BudgetNode BUDGET_TEAM ''t'' None 0
       [BudgetNode BUDGET_ENVIRONMENT ''e'' None 0
          [BudgetNode BUDGET_SERVICE ''s'' None 0
             [BudgetNode BUDGET_EXPERIMENT ''x'' None 0 [BudgetNode BUDGET_FAULT ''f'' None 0 []]]]]"

theorem overlong_path_diverges:
  "chargeable_path five_levels [''t'', ''e'', ''s'', ''x'', ''f''] ''net.delay''
     = Inl (InvariantViolation ''policy.budget_depth'')
   \<and> campaign_chargeable five_levels ([''t'', ''e'', ''s'', ''x'', ''f''] @ [''net.delay''])
     = Inr [''t'', ''e'', ''s'', ''x'', ''f'']"
  by code_simp

end
