(* ===== verification/Fabric_Journal.thy ===== *)
theory Fabric_Journal
  imports Fabric_Command
begin

text \<open>
  \<open>domain/outcomes.py\<close>, the claims and settlements of \<open>controller/fabric_engine.py\<close>, the table of
  \<open>infra/fabric_journal.py\<close> and the journal \<open>SqliteFabricJournal\<close> of
  \<open>controller/fabric_evidence.py\<close>. The engine needs of a journal only the locale
  \<open>fabric_journal\<close>, which the SQLite journal interprets.
\<close>

section \<open>Outcomes\<close>

datatype StepOutcome = SO_COMPLETED | SO_FAILED | SO_TARGET_DRIFT

datatype TargetOutcome = TO_FAILED_TO_APPLY | TO_RESOURCE_CONFLICT | TO_TARGET_DRIFT

definition agreeing_reason :: "StepOutcome \<Rightarrow> TargetOutcome option \<Rightarrow> py_error + TargetOutcome option" where
  "agreeing_reason outcome reason =
     (if outcome = SO_COMPLETED
      then (if reason \<noteq> None then Inl (InvariantViolation ''fabric_outcome_pair'') else Inr None)
      else if outcome = SO_TARGET_DRIFT
      then (if reason \<notin> {None, Some TO_TARGET_DRIFT} then Inl (InvariantViolation ''fabric_outcome_pair'')
            else Inr (Some TO_TARGET_DRIFT))
      else if reason = None then Inl (InvariantViolation ''fabric_outcome_pair'')
      else Inr reason)"

section \<open>Claims and settlements\<close>

record DispatchClaim =
  cl_command :: FabricCommand
  cl_controller :: string
  cl_at :: instant

record DispatchSettlement =
  se_run :: string
  se_step :: string
  se_command :: string
  se_outcome :: StepOutcome
  se_reason :: "TargetOutcome option"
  se_detail :: string
  se_lease :: "string option"
  se_at :: instant

definition settlement_validate :: "DispatchSettlement \<Rightarrow> py_error + DispatchSettlement" where
  "settlement_validate s =
     (case agreeing_reason (se_outcome s) (se_reason s) of Inl e \<Rightarrow> Inl e | Inr _ \<Rightarrow> Inr s)"

datatype JournalEntry = Claimed DispatchClaim | Settled DispatchSettlement

fun entry_run :: "JournalEntry \<Rightarrow> string" where
  "entry_run (Claimed c) = fc_run (cl_command c)"
| "entry_run (Settled s) = se_run s"

fun entry_step :: "JournalEntry \<Rightarrow> string" where
  "entry_step (Claimed c) = fc_step (cl_command c)"
| "entry_step (Settled s) = se_step s"

fun entry_phase :: "JournalEntry \<Rightarrow> string" where
  "entry_phase (Claimed c) = ''claimed''"
| "entry_phase (Settled s) = ''settled''"

fun entry_command :: "JournalEntry \<Rightarrow> string" where
  "entry_command (Claimed c) = fc_id (cl_command c)"
| "entry_command (Settled s) = se_command s"

fun entry_stamp :: "JournalEntry \<Rightarrow> instant" where
  "entry_stamp (Claimed c) = cl_at c"
| "entry_stamp (Settled s) = se_at s"

section \<open>Rows\<close>

text \<open>
  \<open>entry_json\<close> is the canonical JSON of an entry; a row holds the entry that text denotes.
  \<open>content_digest\<close> is an argument: SHA-256 of the canonical text.
\<close>

record FabricJournalRow =
  jr_run :: string
  jr_step :: string
  jr_phase :: string
  jr_command :: string
  jr_epoch :: int
  jr_controller :: string
  jr_recorded :: instant
  jr_digest :: string
  jr_payload :: JournalEntry

text \<open>
  What the index columns of a phase must equal in the payload. A path that is absent from the payload
  (a settlement under a claim's phase, or the reverse) is a fault of shape.
\<close>

definition index_defect :: "FabricJournalRow \<Rightarrow> string option" where
  "index_defect r =
     (if jr_phase r = ''claimed''
      then (case jr_payload r of
              Settled _ \<Rightarrow> Some ''fabric_journal_payload_shape''
            | Claimed c \<Rightarrow>
                if jr_run r = fc_run (cl_command c) \<and> jr_step r = fc_step (cl_command c)
                   \<and> jr_command r = fc_id (cl_command c) \<and> jr_epoch r = ft_epoch (fc_fence (cl_command c))
                then None else Some ''fabric_journal_index_disagreement'')
      else if jr_phase r = ''settled''
      then (case jr_payload r of
              Claimed _ \<Rightarrow> Some ''fabric_journal_payload_shape''
            | Settled s \<Rightarrow>
                if jr_run r = se_run s \<and> jr_step r = se_step s \<and> jr_command r = se_command s
                then None else Some ''fabric_journal_index_disagreement'')
      else Some ''fabric_journal_payload_shape'')"

definition check_payload :: "(JournalEntry \<Rightarrow> string) \<Rightarrow> FabricJournalRow \<Rightarrow> py_error + unit" where
  "check_payload digest r =
     (if digest (jr_payload r) \<noteq> jr_digest r then Inl (InvariantViolation ''fabric_journal_payload_digest'')
      else case index_defect r of
             Some rule \<Rightarrow> Inl (InvariantViolation rule)
           | None \<Rightarrow>
               if entry_stamp (jr_payload r) \<noteq> jr_recorded r
               then Inl (InvariantViolation ''fabric_journal_stamp_disagreement'')
               else Inr ())"

definition row_validate :: "FabricJournalRow \<Rightarrow> py_error + FabricJournalRow" where
  "row_validate r = (if \<not> (1 \<le> jr_epoch r \<and> valid_digest (jr_digest r)) then Inl ValueErr else Inr r)"

definition row_of :: "(JournalEntry \<Rightarrow> string) \<Rightarrow> FabricJournalRow \<Rightarrow> py_error + FabricJournalRow" where
  "row_of digest r =
     (case row_validate (r\<lparr>jr_digest := digest (jr_payload r)\<rparr>) of
        Inl e \<Rightarrow> Inl e
      | Inr r' \<Rightarrow> (case check_payload digest r' of Inl e \<Rightarrow> Inl e | Inr _ \<Rightarrow> Inr r'))"

section \<open>The table\<close>

text \<open>
  The rows in the order of their AUTOINCREMENT keys; rows are never updated or deleted, so a key is
  the position. The evidence boundary (\<open>infra/secret_resolver.py\<close>) that a document passes before the
  transaction is the argument \<open>refuses\<close>. The one UNIQUE index makes a second row of one phase of one
  command an \<open>IntegrityError\<close>; the CHECKs of the schema hold of every row that was built.
\<close>

definition same_key :: "FabricJournalRow \<Rightarrow> FabricJournalRow \<Rightarrow> bool" where
  "same_key a b \<longleftrightarrow> jr_run a = jr_run b \<and> jr_step a = jr_step b \<and> jr_phase a = jr_phase b
     \<and> jr_command a = jr_command b"

definition table_append ::
  "(JournalEntry \<Rightarrow> string) \<Rightarrow> (FabricJournalRow \<Rightarrow> py_error option) \<Rightarrow> FabricJournalRow
     \<Rightarrow> FabricJournalRow list \<Rightarrow> py_error + (int \<times> FabricJournalRow list)" where
  "table_append digest refuses r rows =
     (case check_payload digest r of
        Inl e \<Rightarrow> Inl e
      | Inr _ \<Rightarrow>
          (case refuses r of
             Some e \<Rightarrow> Inl e
           | None \<Rightarrow>
               if list_ex (same_key r) rows then Inl (InvariantViolation ''fabric_journal_duplicate_entry'')
               else Inr (int (length rows) + 1, rows @ [r])))"

definition row_wanted :: "string \<Rightarrow> string option \<Rightarrow> FabricJournalRow \<Rightarrow> bool" where
  "row_wanted run step r \<longleftrightarrow> jr_run r = run \<and> (case step of None \<Rightarrow> True | Some s \<Rightarrow> jr_step r = s)"

fun check_rows :: "(JournalEntry \<Rightarrow> string) \<Rightarrow> FabricJournalRow list \<Rightarrow> py_error + FabricJournalRow list" where
  "check_rows digest [] = Inr []"
| "check_rows digest (r # rs) =
     (case row_validate r of
        Inl e \<Rightarrow> Inl e
      | Inr _ \<Rightarrow>
          (case check_payload digest r of
             Inl e \<Rightarrow> Inl e
           | Inr _ \<Rightarrow> (case check_rows digest rs of Inl e \<Rightarrow> Inl e | Inr rs' \<Rightarrow> Inr (r # rs'))))"

definition table_rows ::
  "(JournalEntry \<Rightarrow> string) \<Rightarrow> FabricJournalRow list \<Rightarrow> string \<Rightarrow> string option \<Rightarrow> py_error + FabricJournalRow list" where
  "table_rows digest rows run step = check_rows digest (filter (row_wanted run step) rows)"

definition table_count :: "FabricJournalRow list \<Rightarrow> string option \<Rightarrow> int" where
  "table_count rows run = int (length (filter (\<lambda>r. case run of None \<Rightarrow> True | Some x \<Rightarrow> jr_run r = x) rows))"

section \<open>The journal over the table\<close>

text \<open>\<open>SqliteFabricJournal._row\<close>: a settlement has no fence, its epoch column holds the floor 1.\<close>

fun entry_to_row :: "(JournalEntry \<Rightarrow> string) \<Rightarrow> JournalEntry \<Rightarrow> py_error + FabricJournalRow" where
  "entry_to_row digest (Claimed c) =
     row_of digest \<lparr>jr_run = fc_run (cl_command c), jr_step = fc_step (cl_command c), jr_phase = ''claimed'',
       jr_command = fc_id (cl_command c), jr_epoch = ft_epoch (fc_fence (cl_command c)),
       jr_controller = cl_controller c, jr_recorded = cl_at c, jr_digest = '''', jr_payload = Claimed c\<rparr>"
| "entry_to_row digest (Settled s) =
     row_of digest \<lparr>jr_run = se_run s, jr_step = se_step s, jr_phase = ''settled'',
       jr_command = se_command s, jr_epoch = 1,
       jr_controller = '''', jr_recorded = se_at s, jr_digest = '''', jr_payload = Settled s\<rparr>"

text \<open>\<open>_entry\<close>: the payload is validated again when it is read.\<close>

fun row_to_entry :: "FabricJournalRow \<Rightarrow> py_error + JournalEntry" where
  "row_to_entry r =
     (case jr_payload r of
        Claimed c \<Rightarrow>
          (case command_validate (cl_command c) of
             Inl (InvariantViolation rule) \<Rightarrow> Inl (InvariantViolation rule)
           | Inl _ \<Rightarrow> Inl (InvariantViolation ''fabric_journal_entry_unreadable'')
           | Inr _ \<Rightarrow> Inr (Claimed c))
      | Settled s \<Rightarrow> (case settlement_validate s of Inl e \<Rightarrow> Inl e | Inr _ \<Rightarrow> Inr (Settled s)))"

declare row_to_entry.simps [simp del]

fun map_entries :: "FabricJournalRow list \<Rightarrow> py_error + JournalEntry list" where
  "map_entries [] = Inr []"
| "map_entries (r # rs) =
     (case row_to_entry r of
        Inl e \<Rightarrow> Inl e
      | Inr x \<Rightarrow> (case map_entries rs of Inl e \<Rightarrow> Inl e | Inr xs \<Rightarrow> Inr (x # xs)))"

definition sqlite_append ::
  "(JournalEntry \<Rightarrow> string) \<Rightarrow> (FabricJournalRow \<Rightarrow> py_error option) \<Rightarrow> JournalEntry
     \<Rightarrow> FabricJournalRow list \<Rightarrow> py_error + FabricJournalRow list" where
  "sqlite_append digest refuses e rows =
     (case entry_to_row digest e of
        Inl x \<Rightarrow> Inl x
      | Inr r \<Rightarrow> (case table_append digest refuses r rows of Inl x \<Rightarrow> Inl x | Inr (_, rows') \<Rightarrow> Inr rows'))"

definition sqlite_entries ::
  "(JournalEntry \<Rightarrow> string) \<Rightarrow> FabricJournalRow list \<Rightarrow> string \<Rightarrow> string option \<Rightarrow> py_error + JournalEntry list" where
  "sqlite_entries digest rows run step =
     (case table_rows digest rows run step of Inl e \<Rightarrow> Inl e | Inr rs \<Rightarrow> map_entries rs)"

section \<open>What the engine needs of a journal\<close>

record 'j FabricJournal =
  jn_append :: "JournalEntry \<Rightarrow> 'j \<Rightarrow> py_error + 'j"
  jn_entries :: "'j \<Rightarrow> string \<Rightarrow> string option \<Rightarrow> py_error + JournalEntry list"

definition sqlite_journal ::
  "(JournalEntry \<Rightarrow> string) \<Rightarrow> (FabricJournalRow \<Rightarrow> py_error option) \<Rightarrow> FabricJournalRow list FabricJournal" where
  "sqlite_journal digest refuses =
     \<lparr>jn_append = sqlite_append digest refuses, jn_entries = sqlite_entries digest\<rparr>"

definition entry_wanted :: "string \<Rightarrow> string option \<Rightarrow> JournalEntry \<Rightarrow> bool" where
  "entry_wanted run step e \<longleftrightarrow> entry_run e = run \<and> (case step of None \<Rightarrow> True | Some s \<Rightarrow> entry_step e = s)"

definition entry_key :: "JournalEntry \<Rightarrow> string \<times> string \<times> string \<times> string" where
  "entry_key e = (entry_run e, entry_step e, entry_phase e, entry_command e)"

text \<open>The entries the model's constructors build.\<close>

fun entry_ok :: "JournalEntry \<Rightarrow> bool" where
  "entry_ok (Claimed c) = command_ok (cl_command c)"
| "entry_ok (Settled s) = (settlement_validate s = Inr s)"

text \<open>
  A journal is an append-only log: reads are the log filtered in its order, an append that succeeds
  adds its entry at the end, and no phase of a command is recorded twice.
\<close>

locale fabric_journal =
  fixes J :: "'j FabricJournal"
    and ok :: "'j \<Rightarrow> bool"
    and logged :: "'j \<Rightarrow> JournalEntry list"
  assumes entries_log: "ok j \<Longrightarrow> jn_entries J j run step = Inr (filter (entry_wanted run step) (logged j))"
    and append_log: "ok j \<Longrightarrow> entry_ok e \<Longrightarrow> jn_append J e j = Inr j' \<Longrightarrow>
      ok j' \<and> logged j' = logged j @ [e] \<and> entry_key e \<notin> entry_key ` set (logged j)"

section \<open>The SQLite journal is one\<close>

definition row_good :: "(JournalEntry \<Rightarrow> string) \<Rightarrow> FabricJournalRow \<Rightarrow> bool" where
  "row_good digest r \<longleftrightarrow> row_validate r = Inr r \<and> check_payload digest r = Inr ()
     \<and> row_to_entry r = Inr (jr_payload r)"

lemma command_ok_validate: "command_ok c \<Longrightarrow> command_validate c = Inr c"
  by (auto simp: command_ok_iff command_validate_def)

lemma check_payload_index:
  assumes "check_payload digest r = Inr ()"
  shows "jr_run r = entry_run (jr_payload r)" "jr_step r = entry_step (jr_payload r)"
    "jr_phase r = entry_phase (jr_payload r)" "jr_command r = entry_command (jr_payload r)"
    "jr_recorded r = entry_stamp (jr_payload r)" "jr_digest r = digest (jr_payload r)"
  using assms
  by (cases "jr_payload r"; simp add: check_payload_def index_defect_def split: if_splits option.splits)+

lemma check_rows_good: "\<forall>r\<in>set rs. row_good digest r \<Longrightarrow> check_rows digest rs = Inr rs"
  by (induction rs) (simp_all add: row_good_def)

lemma map_entries_good: "\<forall>r\<in>set rs. row_good digest r \<Longrightarrow> map_entries rs = Inr (map jr_payload rs)"
  by (induction rs) (simp_all add: row_good_def)

lemma sqlite_entries_good:
  assumes "\<forall>r\<in>set rows. row_good digest r"
  shows "sqlite_entries digest rows run step = Inr (filter (entry_wanted run step) (map jr_payload rows))"
proof -
  have w: "row_wanted run step r = entry_wanted run step (jr_payload r)" if "r \<in> set rows" for r
    using assms that check_payload_index [of digest r] by (cases step) (auto simp: row_good_def row_wanted_def entry_wanted_def)
  have f: "filter (row_wanted run step) rows = filter (\<lambda>r. entry_wanted run step (jr_payload r)) rows"
    by (rule filter_cong) (simp_all add: w)
  have g: "\<forall>r\<in>set (filter (\<lambda>r. entry_wanted run step (jr_payload r)) rows). row_good digest r"
    using assms by simp
  show ?thesis
    by (simp add: sqlite_entries_def table_rows_def f check_rows_good [OF g] map_entries_good [OF g] filter_map o_def)
qed

lemma row_to_entry_ok: "entry_ok e \<Longrightarrow> jr_payload r = e \<Longrightarrow> row_to_entry r = Inr e"
  by (cases e) (simp_all add: row_to_entry.simps command_ok_validate)

lemma entry_to_row_good:
  assumes "entry_to_row digest e = Inr r" "entry_ok e"
  shows "row_good digest r \<and> jr_payload r = e"
proof -
  have "row_validate r = Inr r \<and> check_payload digest r = Inr () \<and> jr_payload r = e"
    using assms(1) by (cases e) (auto simp: row_of_def row_validate_def split: sum.splits if_splits)
  then show ?thesis using row_to_entry_ok [OF assms(2)] by (simp add: row_good_def)
qed

lemma same_key_entry:
  assumes "row_good digest a" "row_good digest b"
  shows "same_key a b \<longleftrightarrow> entry_key (jr_payload a) = entry_key (jr_payload b)"
  using assms check_payload_index [of digest a] check_payload_index [of digest b]
  by (simp add: row_good_def same_key_def entry_key_def)

interpretation sqlite_log: fabric_journal "sqlite_journal digest refuses"
  "\<lambda>rows. \<forall>r\<in>set rows. row_good digest r" "map jr_payload" for digest refuses
proof (unfold_locales, goal_cases)
  case (1 rows run step)
  then show ?case by (simp add: sqlite_journal_def sqlite_entries_good)
next
  case (2 rows e rows')
  then obtain r where r: "entry_to_row digest e = Inr r" "\<not> list_ex (same_key r) rows" "rows' = rows @ [r]"
    by (auto simp: sqlite_journal_def sqlite_append_def table_append_def split: sum.splits option.splits if_splits)
  note g = entry_to_row_good [OF r(1) 2(2)]
  have "entry_key e \<notin> entry_key ` jr_payload ` set rows"
    using r(2) g 2(1) same_key_entry [of digest r] by (auto simp: list_ex_iff)
  with r(3) g 2(1) show ?case by (simp add: ball_Un) 
qed

end
