(* ===== verification/Fabric_Engine.thy ===== *)
theory Fabric_Engine
  imports Fabric_Journal Lease_Client "HOL-Library.List_Lexorder" "HOL-Library.Char_ord"
begin

text \<open>
  \<open>controller/fabric_engine.py\<close>: the dispatch engine. It keeps no state of its own; every decision is a
  projection of the journal and the lease sink. The session, the verifier and the evidence recorder
  are ports; what they do to the world outside is threaded through as its state.
\<close>

section \<open>Results of providers\<close>

text \<open>A quoted value, as the f-strings of the source write it.\<close>

definition quoted :: "string \<Rightarrow> string" where
  "quoted s = [CHR 0x27] @ s @ [CHR 0x27]"

definition py_bool :: "bool \<Rightarrow> string" where
  "py_bool b = (if b then ''True'' else ''False'')"

definition DRIFT_ERROR_CODES :: "string set" where
  "DRIFT_ERROR_CODES = {''target_drift'', ''target_missing'', ''identity_mismatch'', ''no_such_container'',
     ''container_not_found'', ''no_such_pod'', ''pod_not_found'', ''pod_replaced'', ''not_found''}"

definition CONFLICT_ERROR_CODES :: "string set" where
  "CONFLICT_ERROR_CODES = {''resource_conflict'', ''resource_busy'', ''container_busy'', ''operation_conflict'',
     ''lease_held'', ''already_locked''}"

definition refusal_outcome :: "string \<Rightarrow> TargetOutcome" where
  "refusal_outcome code =
     (if code \<in> {''fabric_stale_fence'', ''fabric_resource_conflict'', ''fabric_reservation_expired''}
      then TO_RESOURCE_CONFLICT else TO_FAILED_TO_APPLY)"

record ProviderNormalisation =
  nm_outcome :: StepOutcome
  nm_reason :: "TargetOutcome option"
  nm_detail :: string

record ProviderResult =
  pr_ok :: bool
  pr_detail :: string
  pr_error :: "string option"
  pr_target :: "string option"
  pr_lease :: "FaultLease option"

definition or_text :: "string \<Rightarrow> string \<Rightarrow> string" where
  "or_text a b = (if a \<noteq> [] then a else b)"

definition normalise_provider_result :: "ProviderResult \<Rightarrow> string option \<Rightarrow> ProviderNormalisation" where
  "normalise_provider_result r expected =
     (let code = py_lower (py_strip (or_empty (pr_error r)));
          detail = or_text (pr_detail r) (or_text code ''provider reported failure without a code'')
      in if expected \<noteq> None \<and> pr_target r \<noteq> None \<and> pr_target r \<noteq> expected
         then \<lparr>nm_outcome = SO_TARGET_DRIFT, nm_reason = Some TO_TARGET_DRIFT,
               nm_detail = ''target drift: plan targeted '' @ quoted (the expected)
                 @ '' but the provider addressed '' @ quoted (the (pr_target r))
                 @ '' (provider claimed ok='' @ py_bool (pr_ok r) @ ''); mismatched, not failed''\<rparr>
         else if pr_ok r
         then \<lparr>nm_outcome = SO_COMPLETED, nm_reason = None,
               nm_detail = or_text (pr_detail r) (''applied to '' @ quoted (or_text (or_empty (pr_target r)) ''?''))\<rparr>
         else if code \<in> DRIFT_ERROR_CODES
         then \<lparr>nm_outcome = SO_TARGET_DRIFT, nm_reason = Some TO_TARGET_DRIFT,
               nm_detail = ''target drift: '' @ detail @ '' (mismatched, not failed)''\<rparr>
         else if code \<in> CONFLICT_ERROR_CODES
         then \<lparr>nm_outcome = SO_FAILED, nm_reason = Some TO_RESOURCE_CONFLICT,
               nm_detail = ''resource conflict: '' @ detail\<rparr>
         else \<lparr>nm_outcome = SO_FAILED, nm_reason = Some TO_FAILED_TO_APPLY,
               nm_detail = ''failed to apply: '' @ detail\<rparr>)"

text \<open>What a session does with a command: refuse it, raise, or report.\<close>

datatype session_reply =
    SessionRefused string string string
  | SessionRaised string string
  | SessionReplied ProviderResult

definition normalise_refusal :: "string \<Rightarrow> string \<Rightarrow> string \<Rightarrow> ProviderNormalisation" where
  "normalise_refusal code msg remedy =
     \<lparr>nm_outcome = SO_FAILED, nm_reason = Some (refusal_outcome code),
      nm_detail = ''refused by agent ['' @ code @ '']: '' @ msg @ '' (remediation: '' @ remedy @ '')''\<rparr>"

section \<open>Requests, results\<close>

record DispatchRequest =
  rq_step :: StepSpec
  rq_command :: FabricCommand
  rq_plan :: string
  rq_target :: "string option"
  rq_reservations :: "Reservation list"
  rq_others :: "Reservation list"

record DispatchResult =
  dr_run :: string
  dr_step :: string
  dr_command :: string
  dr_epoch :: int
  dr_outcome :: StepOutcome
  dr_reason :: "TargetOutcome option"
  dr_detail :: string
  dr_refusal :: "string option"
  dr_retried :: bool
  dr_lease :: "string option"

definition dr_ok :: "DispatchResult \<Rightarrow> bool" where
  "dr_ok r \<longleftrightarrow> dr_outcome r = SO_COMPLETED"

definition dr_is_drift :: "DispatchResult \<Rightarrow> bool" where
  "dr_is_drift r \<longleftrightarrow> dr_outcome r = SO_TARGET_DRIFT"

section \<open>Verification\<close>

datatype VerificationCheck =
    CHK_SIGNATURE | CHK_KEY_BINDING | CHK_IDENTITY_USABLE | CHK_CERTIFICATE_LIFETIME
  | CHK_PLAN_BINDING | CHK_FENCE | CHK_NONCE_FRESHNESS

definition CHECK_ORDER :: "VerificationCheck list" where
  "CHECK_ORDER = [CHK_SIGNATURE, CHK_KEY_BINDING, CHK_IDENTITY_USABLE, CHK_CERTIFICATE_LIFETIME,
     CHK_PLAN_BINDING, CHK_FENCE, CHK_NONCE_FRESHNESS]"

definition order_checks :: "VerificationCheck list \<Rightarrow> VerificationCheck list" where
  "order_checks cs = canon CHECK_ORDER cs"

interpretation verification_checks: canonical_enum CHECK_ORDER
proof unfold_locales
  show "c \<in> set CHECK_ORDER" for c by (cases c) (simp_all add: CHECK_ORDER_def)
  show "distinct CHECK_ORDER" by (simp add: CHECK_ORDER_def)
qed

record VerifiedCheck =
  vk_check :: VerificationCheck
  vk_passed :: bool
  vk_detail :: string

record VerifiedCommand =
  vc_command :: FabricCommand
  vc_algorithm :: string
  vc_digest :: string
  vc_version :: int
  vc_at :: instant
  vc_outcomes :: "VerifiedCheck list"

record VerifiedDispatch =
  vd_command :: string
  vd_agent :: string
  vd_algorithm :: string
  vd_digest :: string
  vd_version :: int
  vd_at :: instant
  vd_checks :: "VerifiedCheck list"

definition verified_dispatch_of :: "VerifiedCommand \<Rightarrow> VerifiedDispatch" where
  "verified_dispatch_of v =
     \<lparr>vd_command = fc_id (vc_command v), vd_agent = fc_agent (vc_command v), vd_algorithm = vc_algorithm v,
      vd_digest = vc_digest v, vd_version = vc_version v, vd_at = vc_at v, vd_checks = vc_outcomes v\<rparr>"

definition vd_failed :: "VerifiedDispatch \<Rightarrow> VerificationCheck list" where
  "vd_failed v = map vk_check (filter (\<lambda>c. \<not> vk_passed c) (vd_checks v))"

text \<open>
  What a verifier answers: the verified command, a \<open>CommandRefusedError\<close> with the failed checks, a
  \<open>SignaturePortUnavailableError\<close>, or a refusal of its nonce store, which is not translated.
\<close>

datatype verify_reply =
    VerifyPassed VerifiedCommand
  | VerifyRefused "VerificationCheck list"
  | VerifyUnavailable
  | VerifyReplayed string

fun check_code :: "VerificationCheck \<Rightarrow> string option" where
  "check_code CHK_SIGNATURE = Some ''fabric_undersigned''"
| "check_code CHK_PLAN_BINDING = Some ''fabric_plan_mismatch''"
| "check_code CHK_FENCE = Some ''fabric_stale_fence''"
| "check_code CHK_NONCE_FRESHNESS = Some ''fabric_replayed_nonce''"
| "check_code _ = None"

definition translate_verification_refusal :: "VerificationCheck list \<Rightarrow> fabric_error" where
  "translate_verification_refusal failed =
     FabricRefused (case first_some (map check_code failed) of
       Some code \<Rightarrow> code | None \<Rightarrow> ''fabric_command_unverified'')"

section \<open>The engine and what it is given\<close>

record 'w FabricEvidence =
  ev_claim :: "DispatchClaim \<Rightarrow> VerifiedDispatch option \<Rightarrow> 'w \<Rightarrow> py_error option \<times> 'w"
  ev_settlement :: "DispatchSettlement \<Rightarrow> DispatchResult option \<Rightarrow> 'w \<Rightarrow> py_error option \<times> 'w"
  ev_refusal :: "FabricCommand \<Rightarrow> string \<Rightarrow> 'w \<Rightarrow> py_error option \<times> 'w"

type_synonym 'w verifier =
  "FabricCommand \<Rightarrow> string \<Rightarrow> FencingToken option \<Rightarrow> instant \<Rightarrow> 'w \<Rightarrow> verify_reply \<times> 'w"

record ('j, 's, 'w) FabricEngine =
  fe_session :: "FabricCommand \<Rightarrow> 'w \<Rightarrow> session_reply \<times> 'w"
  fe_journal :: "'j FabricJournal"
  fe_sink :: "'s LeaseSink"
  fe_controller :: string
  fe_verifier :: "'w verifier option"
  fe_evidence :: "'w FabricEvidence option"

text \<open>The durable objects and the world outside.\<close>

record ('j, 's, 'w) fabric_state =
  fs_journal :: 'j
  fs_sink :: 's
  fs_world :: 'w

definition verification_enabled :: "('j, 's, 'w) FabricEngine \<Rightarrow> bool" where
  "verification_enabled E \<longleftrightarrow> fe_verifier E \<noteq> None"

definition evidence_enabled :: "('j, 's, 'w) FabricEngine \<Rightarrow> bool" where
  "evidence_enabled E \<longleftrightarrow> fe_evidence E \<noteq> None"

section \<open>Projections of the journal\<close>

fun claims_of :: "JournalEntry list \<Rightarrow> DispatchClaim list" where
  "claims_of [] = []"
| "claims_of (Claimed c # es) = c # claims_of es"
| "claims_of (Settled s # es) = claims_of es"

fun settlements_of :: "JournalEntry list \<Rightarrow> DispatchSettlement list" where
  "settlements_of [] = []"
| "settlements_of (Claimed c # es) = settlements_of es"
| "settlements_of (Settled s # es) = s # settlements_of es"

definition fabric_claims :: "'j FabricJournal \<Rightarrow> 'j \<Rightarrow> string \<Rightarrow> string option \<Rightarrow> py_error + DispatchClaim list" where
  "fabric_claims J j run step = and_then (jn_entries J j run step) (\<lambda>es. Inr (claims_of es))"

definition fabric_settlements ::
  "'j FabricJournal \<Rightarrow> 'j \<Rightarrow> string \<Rightarrow> string option \<Rightarrow> py_error + DispatchSettlement list" where
  "fabric_settlements J j run step = and_then (jn_entries J j run step) (\<lambda>es. Inr (settlements_of es))"

text \<open>\<open>max(fences, key=epoch)\<close>, the first of equals.\<close>

fun newest :: "FencingToken \<Rightarrow> FencingToken list \<Rightarrow> FencingToken" where
  "newest f [] = f"
| "newest f (g # gs) = newest (if ft_epoch f < ft_epoch g then g else f) gs"

definition max_fence :: "FencingToken list \<Rightarrow> FencingToken option" where
  "max_fence fs = (case fs of [] \<Rightarrow> None | f # gs \<Rightarrow> Some (newest f gs))"

definition claim_fence :: "DispatchClaim \<Rightarrow> FencingToken" where
  "claim_fence c = fc_fence (cl_command c)"

definition served_fence :: "'j FabricJournal \<Rightarrow> 'j \<Rightarrow> string \<Rightarrow> string \<Rightarrow> py_error + FencingToken option" where
  "served_fence J j run step =
     and_then (fabric_claims J j run (Some step)) (\<lambda>cs. Inr (max_fence (map claim_fence cs)))"

definition nonce_ledger :: "'j FabricJournal \<Rightarrow> 'j \<Rightarrow> string \<Rightarrow> string \<Rightarrow> py_error + NonceLedger" where
  "nonce_ledger J j run step =
     and_then (fabric_claims J j run (Some step)) (\<lambda>cs. Inr (set (map (fc_nonce \<circ> cl_command) cs)))"

definition open_claims ::
  "'j FabricJournal \<Rightarrow> 'j \<Rightarrow> string \<Rightarrow> string option \<Rightarrow> py_error + DispatchClaim list" where
  "open_claims J j run step =
     and_then (fabric_settlements J j run None) (\<lambda>ss.
     and_then (fabric_claims J j run step) (\<lambda>cs.
       Inr (filter (\<lambda>c. fc_id (cl_command c) \<notin> set (map se_command ss)) cs)))"

definition unreconciled_leases ::
  "'j FabricJournal \<Rightarrow> 's LeaseSink \<Rightarrow> 'j \<Rightarrow> 's \<Rightarrow> string \<Rightarrow> py_error + FaultLease list" where
  "unreconciled_leases J K j s run =
     and_then (fabric_settlements J j run None) (\<lambda>ss.
       Inr (filter (\<lambda>l. lease_run_id l = run \<and> Some (lease_id l) \<notin> set (map se_lease ss)) (sink_active K s)))"

text \<open>The dict of the last settlement per lease; the steps are sorted.\<close>

definition step_of_lease :: "DispatchSettlement list \<Rightarrow> string \<Rightarrow> string option" where
  "step_of_lease ss l = map_option se_step (find (\<lambda>s. se_lease s = Some l) (rev ss))"

definition unrecovered_steps ::
  "'j FabricJournal \<Rightarrow> 's LeaseSink \<Rightarrow> 'j \<Rightarrow> 's \<Rightarrow> string \<Rightarrow> py_error + string list" where
  "unrecovered_steps J K j s run =
     and_then (fabric_settlements J j run None) (\<lambda>ss.
       Inr (sorted_list_of_set (set (List.map_filter
              (\<lambda>l. if lease_run_id l = run then step_of_lease ss (lease_id l) else None) (sink_active K s)))))"

section \<open>Preflight\<close>

definition claimed_key :: "FabricCommand \<Rightarrow> DispatchClaim list \<Rightarrow> string set" where
  "claimed_key c cs = set (map (fc_id \<circ> cl_command) (filter (\<lambda>x. fc_key (cl_command x) = fc_key c) cs))"

definition claim_ids_for_key :: "'j FabricJournal \<Rightarrow> 'j \<Rightarrow> FabricCommand \<Rightarrow> py_error + string set" where
  "claim_ids_for_key J j c = and_then (fabric_claims J j (fc_run c) (Some (fc_step c))) (\<lambda>cs. Inr (claimed_key c cs))"

definition recorded_outcome ::
  "'j FabricJournal \<Rightarrow> 'j \<Rightarrow> FabricCommand \<Rightarrow> py_error + DispatchSettlement option" where
  "recorded_outcome J j c =
     and_then (claim_ids_for_key J j c) (\<lambda>keys.
     and_then (fabric_settlements J j (fc_run c) (Some (fc_step c))) (\<lambda>ss.
       Inr (find (\<lambda>s. se_command s \<in> keys) ss)))"

definition has_open_claim :: "'j FabricJournal \<Rightarrow> 'j \<Rightarrow> FabricCommand \<Rightarrow> py_error + bool" where
  "has_open_claim J j c =
     and_then (claim_ids_for_key J j c) (\<lambda>keys.
     and_then (open_claims J j (fc_run c) (Some (fc_step c))) (\<lambda>cs.
       Inr (list_ex (\<lambda>x. fc_id (cl_command x) \<in> keys) cs)))"

definition require_signed :: "FabricCommand \<Rightarrow> fabric_error + unit" where
  "require_signed c = (if \<not> is_signed c then Inl (FabricRefused ''fabric_undersigned'') else Inr ())"

definition require_scope :: "StepSpec \<Rightarrow> FabricCommand \<Rightarrow> fabric_error + unit" where
  "require_scope step c =
     (if fc_step c \<noteq> sp_id step \<or> ft_step (fc_fence c) \<noteq> sp_id step
      then Inl (FabricFault (InvariantViolation ''fabric_command_scope''))
      else if ft_run (fc_fence c) \<noteq> fc_run c
      then Inl (FabricFault (InvariantViolation ''fabric_command_scope''))
      else Inr ())"

text \<open>
  The reservations of the request in turn, each against all the others: those before it and after it
  in the request, and those held by others.
\<close>

fun reservations_ok ::
  "FencingToken \<Rightarrow> instant \<Rightarrow> Reservation list \<Rightarrow> Reservation list \<Rightarrow> fabric_error + unit" where
  "reservations_ok fence now seen [] = Inr ()"
| "reservations_ok fence now seen (r # rs) =
     (if rv_is_expired r now then Inl (FabricRefused ''fabric_reservation_expired'')
      else if \<not> is_authorised_by r fence then Inl (FabricRefused ''fabric_resource_conflict'')
      else and_then (assert_reservation_available r (seen @ rs) now)
             (\<lambda>_. reservations_ok fence now (seen @ [r]) rs))"

definition require_reservations :: "DispatchRequest \<Rightarrow> instant \<Rightarrow> fabric_error + unit" where
  "require_reservations q now = reservations_ok (fc_fence (rq_command q)) now (rq_others q) (rq_reservations q)"

definition other_effect :: "FabricCommand \<Rightarrow> DispatchClaim \<Rightarrow> bool" where
  "other_effect c x \<longleftrightarrow> ft_epoch (claim_fence x) = ft_epoch (fc_fence c) \<and> fc_key (cl_command x) \<noteq> fc_key c"

definition lift_fault :: "py_error + 'a \<Rightarrow> fabric_error + 'a" where
  "lift_fault r = (case r of Inl e \<Rightarrow> Inl (FabricFault e) | Inr x \<Rightarrow> Inr x)"

definition require_single_effect :: "'j FabricJournal \<Rightarrow> 'j \<Rightarrow> FabricCommand \<Rightarrow> fabric_error + unit" where
  "require_single_effect J j c =
     and_then (lift_fault (fabric_claims J j (fc_run c) (Some (fc_step c)))) (\<lambda>cs.
       if list_ex (other_effect c) cs then Inl (FabricRefused ''fabric_duplicate_dispatch'') else Inr ())"

definition verify_command ::
  "('j, 's, 'w) FabricEngine \<Rightarrow> DispatchRequest \<Rightarrow> FencingToken option \<Rightarrow> instant \<Rightarrow> 'w
     \<Rightarrow> (fabric_error + VerifiedDispatch option) \<times> 'w" where
  "verify_command E q served now w =
     (case fe_verifier E of
        None \<Rightarrow> (Inr None, w)
      | Some verify \<Rightarrow>
          (case verify (rq_command q) (rq_plan q) served now w of
             (VerifyPassed v, w') \<Rightarrow> (Inr (Some (verified_dispatch_of v)), w')
           | (VerifyRefused failed, w') \<Rightarrow> (Inl (translate_verification_refusal failed), w')
           | (VerifyUnavailable, w') \<Rightarrow> (Inl (FabricRefused ''fabric_command_unverified''), w')
           | (VerifyReplayed code, w') \<Rightarrow> (Inl (FabricRefused code), w')))"

text \<open>The checks before the verifier, in their order; they only read. The result is the served fence.\<close>

definition preflight_checks ::
  "'j FabricJournal \<Rightarrow> DispatchRequest \<Rightarrow> instant \<Rightarrow> 'j \<Rightarrow> fabric_error + FencingToken option" where
  "preflight_checks J q now j =
     (let c = rq_command q; step = sp_id (rq_step q) in
      and_then (require_signed c) (\<lambda>_.
      and_then (require_scope (rq_step q) c) (\<lambda>_.
      and_then (assert_plan_digest_matches c (rq_plan q)) (\<lambda>_.
      and_then (lift_fault (served_fence J j (fc_run c) step)) (\<lambda>served.
      and_then (case served of None \<Rightarrow> Inr () | Some f \<Rightarrow> assert_fence_current c f) (\<lambda>_.
      and_then (require_reservations q now) (\<lambda>_.
      and_then (lift_fault (nonce_ledger J j (fc_run c) step)) (\<lambda>ledger.
      and_then (ledger_accept ledger c) (\<lambda>_.
      and_then (require_single_effect J j c) (\<lambda>_.
      and_then (lift_fault (has_open_claim J j c)) (\<lambda>in_flight.
        if in_flight then Inl (FabricRefused ''fabric_inflight_unresolved'') else Inr served)))))))))))"

definition preflight ::
  "('j, 's, 'w) FabricEngine \<Rightarrow> DispatchRequest \<Rightarrow> instant \<Rightarrow> ('j, 's, 'w) fabric_state
     \<Rightarrow> (fabric_error + VerifiedDispatch option) \<times> ('j, 's, 'w) fabric_state" where
  "preflight E q now st =
     (case preflight_checks (fe_journal E) q now (fs_journal st) of
        Inl e \<Rightarrow> (Inl e, st)
      | Inr served \<Rightarrow>
          (case verify_command E q served now (fs_world st) of (r, w) \<Rightarrow> (r, st\<lparr>fs_world := w\<rparr>)))"

section \<open>Dispatch\<close>

text \<open>The evidence port; a failure while a refusal is recorded is swallowed.\<close>

definition record_claim ::
  "('j, 's, 'w) FabricEngine \<Rightarrow> DispatchClaim \<Rightarrow> VerifiedDispatch option \<Rightarrow> 'w \<Rightarrow> py_error option \<times> 'w" where
  "record_claim E c v w = (case fe_evidence E of None \<Rightarrow> (None, w) | Some ev \<Rightarrow> ev_claim ev c v w)"

definition record_settlement ::
  "('j, 's, 'w) FabricEngine \<Rightarrow> DispatchSettlement \<Rightarrow> DispatchResult option \<Rightarrow> 'w \<Rightarrow> py_error option \<times> 'w" where
  "record_settlement E s r w = (case fe_evidence E of None \<Rightarrow> (None, w) | Some ev \<Rightarrow> ev_settlement ev s r w)"

definition record_refusal ::
  "('j, 's, 'w) FabricEngine \<Rightarrow> FabricCommand \<Rightarrow> string \<Rightarrow> 'w \<Rightarrow> 'w" where
  "record_refusal E c code w = (case fe_evidence E of None \<Rightarrow> w | Some ev \<Rightarrow> snd (ev_refusal ev c code w))"

text \<open>\<open>dispatch\<close> up to the claim: from here on the nonce is spent and the fence served.\<close>

definition claim_step ::
  "('j, 's, 'w) FabricEngine \<Rightarrow> DispatchRequest \<Rightarrow> instant \<Rightarrow> ('j, 's, 'w) fabric_state
     \<Rightarrow> (fabric_error + unit) \<times> ('j, 's, 'w) fabric_state" where
  "claim_step E q now st =
     (case preflight E q now st of
        (Inl (FabricRefused code), st') \<Rightarrow>
          (Inl (FabricRefused code), st'\<lparr>fs_world := record_refusal E (rq_command q) code (fs_world st')\<rparr>)
      | (Inl (FabricFault e), st') \<Rightarrow> (Inl (FabricFault e), st')
      | (Inr v, st') \<Rightarrow>
          (let c = \<lparr>cl_command = rq_command q, cl_controller = fe_controller E, cl_at = now\<rparr> in
           case jn_append (fe_journal E) (Claimed c) (fs_journal st') of
             Inl e \<Rightarrow> (Inl (FabricFault e), st')
           | Inr j \<Rightarrow>
               (case record_claim E c v (fs_world st') of
                  (Some e, w) \<Rightarrow> (Inl (FabricFault e), st'\<lparr>fs_journal := j, fs_world := w\<rparr>)
                | (None, w) \<Rightarrow> (Inr (), st'\<lparr>fs_journal := j, fs_world := w\<rparr>))))"

text \<open>What the settlement of a dispatch will say.\<close>

record Reading =
  rd_outcome :: StepOutcome
  rd_reason :: "TargetOutcome option"
  rd_detail :: string
  rd_refusal :: "string option"
  rd_lease :: "string option"
  rd_retried :: bool

definition reading_of :: "ProviderNormalisation \<Rightarrow> string option \<Rightarrow> FaultLease option \<Rightarrow> Reading" where
  "reading_of n code l =
     \<lparr>rd_outcome = nm_outcome n, rd_reason = nm_reason n, rd_detail = nm_detail n, rd_refusal = code,
      rd_lease = map_option lease_id l, rd_retried = False\<rparr>"

text \<open>
  \<open>_invoke\<close>: whatever a session does is a result. A lease that came back is saved first; a save that
  raises leaves the claim open.
\<close>

definition fabric_invoke ::
  "('j, 's, 'w) FabricEngine \<Rightarrow> DispatchRequest \<Rightarrow> ('j, 's, 'w) fabric_state
     \<Rightarrow> (py_error + Reading) \<times> ('j, 's, 'w) fabric_state" where
  "fabric_invoke E q st =
     (case fe_session E (rq_command q) (fs_world st) of
        (SessionRefused code msg remedy, w) \<Rightarrow>
          (Inr (reading_of (normalise_refusal code msg remedy) (Some code) None), st\<lparr>fs_world := w\<rparr>)
      | (SessionRaised name msg, w) \<Rightarrow>
          (Inr (reading_of \<lparr>nm_outcome = SO_FAILED, nm_reason = Some TO_FAILED_TO_APPLY,
                            nm_detail = ''failed to apply: '' @ name @ '': '' @ msg\<rparr> None None), st\<lparr>fs_world := w\<rparr>)
      | (SessionReplied r, w) \<Rightarrow>
          (let n = normalise_provider_result r (rq_target q) in
           case pr_lease r of
             None \<Rightarrow> (Inr (reading_of n None None), st\<lparr>fs_world := w\<rparr>)
           | Some l \<Rightarrow>
               (case sink_save (fe_sink E) l (fs_sink st) of
                  Inl e \<Rightarrow> (Inl e, st\<lparr>fs_world := w\<rparr>)
                | Inr s \<Rightarrow> (Inr (reading_of n None (Some l)), st\<lparr>fs_sink := s, fs_world := w\<rparr>))))"

definition retry_reading :: "DispatchSettlement \<Rightarrow> Reading" where
  "retry_reading s =
     \<lparr>rd_outcome = se_outcome s, rd_reason = se_reason s,
      rd_detail = ''idempotent retry of '' @ quoted (se_command s) @ '': '' @ se_detail s,
      rd_refusal = None, rd_lease = se_lease s, rd_retried = True\<rparr>"

text \<open>\<open>dispatch\<close> between the claim and the settlement.\<close>

definition effect_step ::
  "('j, 's, 'w) FabricEngine \<Rightarrow> DispatchRequest \<Rightarrow> ('j, 's, 'w) fabric_state
     \<Rightarrow> (py_error + Reading) \<times> ('j, 's, 'w) fabric_state" where
  "effect_step E q st =
     (case recorded_outcome (fe_journal E) (fs_journal st) (rq_command q) of
        Inl e \<Rightarrow> (Inl e, st)
      | Inr (Some s) \<Rightarrow> (Inr (retry_reading s), st)
      | Inr None \<Rightarrow> fabric_invoke E q st)"

text \<open>\<open>_settle\<close>.\<close>

definition settle_step ::
  "('j, 's, 'w) FabricEngine \<Rightarrow> FabricCommand \<Rightarrow> Reading \<Rightarrow> instant \<Rightarrow> ('j, 's, 'w) fabric_state
     \<Rightarrow> (py_error + DispatchResult) \<times> ('j, 's, 'w) fabric_state" where
  "settle_step E c rd now st =
     (case agreeing_reason (rd_outcome rd) (rd_reason rd) of
        Inl e \<Rightarrow> (Inl e, st)
      | Inr reason \<Rightarrow>
          (let s = \<lparr>se_run = fc_run c, se_step = fc_step c, se_command = fc_id c, se_outcome = rd_outcome rd,
                    se_reason = reason, se_detail = rd_detail rd, se_lease = rd_lease rd, se_at = now\<rparr>;
               r = \<lparr>dr_run = fc_run c, dr_step = fc_step c, dr_command = fc_id c, dr_epoch = ft_epoch (fc_fence c),
                    dr_outcome = rd_outcome rd, dr_reason = reason, dr_detail = rd_detail rd,
                    dr_refusal = rd_refusal rd, dr_retried = rd_retried rd, dr_lease = rd_lease rd\<rparr>
           in case settlement_validate s of
                Inl e \<Rightarrow> (Inl e, st)
              | Inr _ \<Rightarrow>
                  (case jn_append (fe_journal E) (Settled s) (fs_journal st) of
                     Inl e \<Rightarrow> (Inl e, st)
                   | Inr j \<Rightarrow>
                       (case record_settlement E s (Some r) (fs_world st) of
                          (Some e, w) \<Rightarrow> (Inl e, st\<lparr>fs_journal := j, fs_world := w\<rparr>)
                        | (None, w) \<Rightarrow> (Inr r, st\<lparr>fs_journal := j, fs_world := w\<rparr>)))))"

definition fabric_dispatch ::
  "('j, 's, 'w) FabricEngine \<Rightarrow> DispatchRequest \<Rightarrow> instant \<Rightarrow> instant \<Rightarrow> ('j, 's, 'w) fabric_state
     \<Rightarrow> (fabric_error + DispatchResult) \<times> ('j, 's, 'w) fabric_state" where
  "fabric_dispatch E q now settled st =
     (case claim_step E q now st of
        (Inl e, st1) \<Rightarrow> (Inl e, st1)
      | (Inr _, st1) \<Rightarrow>
          (case effect_step E q st1 of
             (Inl e, st2) \<Rightarrow> (Inl (FabricFault e), st2)
           | (Inr rd, st2) \<Rightarrow>
               (case settle_step E (rq_command q) rd settled st2 of
                  (r, st3) \<Rightarrow> (lift_fault r, st3))))"

section \<open>Reconciling a claim\<close>

definition settle_claim ::
  "('j, 's, 'w) FabricEngine \<Rightarrow> string \<Rightarrow> string \<Rightarrow> StepOutcome \<Rightarrow> string \<Rightarrow> TargetOutcome option \<Rightarrow> instant
     \<Rightarrow> ('j, 's, 'w) fabric_state \<Rightarrow> (py_error + DispatchSettlement) \<times> ('j, 's, 'w) fabric_state" where
  "settle_claim E run step outcome detail reason now st =
     (case open_claims (fe_journal E) (fs_journal st) run (Some step) of
        Inl e \<Rightarrow> (Inl e, st)
      | Inr cs \<Rightarrow>
          if cs = [] then (Inl (InvariantViolation ''fabric_no_open_claim''), st)
          else (case agreeing_reason outcome reason of
                  Inl e \<Rightarrow> (Inl e, st)
                | Inr why \<Rightarrow>
                    (let s = \<lparr>se_run = run, se_step = step, se_command = fc_id (cl_command (last cs)),
                              se_outcome = outcome, se_reason = why,
                              se_detail = or_text detail (''settled by '' @ fe_controller E @ '' without a provider call''),
                              se_lease = None, se_at = now\<rparr>
                     in case jn_append (fe_journal E) (Settled s) (fs_journal st) of
                          Inl e \<Rightarrow> (Inl e, st)
                        | Inr j \<Rightarrow>
                            (case record_settlement E s None (fs_world st) of
                               (Some e, w) \<Rightarrow> (Inl e, st\<lparr>fs_journal := j, fs_world := w\<rparr>)
                             | (None, w) \<Rightarrow> (Inr s, st\<lparr>fs_journal := j, fs_world := w\<rparr>)))))"

end
