(* ===== verification/Fabric_Laws.thy ===== *)
theory Fabric_Laws
  imports Fabric_Engine
begin

text \<open>
  What the dispatch engine guarantees over any journal: when a command is admitted, what the journal
  of any interleaving of controllers, crashes and reconciliations looks like, and that the provider
  hears of an effect once.
\<close>

section \<open>The journal as a log\<close>

definition claimed :: "JournalEntry list \<Rightarrow> FabricCommand list" where
  "claimed es = map cl_command (claims_of es)"

definition on_step :: "FabricCommand \<Rightarrow> FabricCommand \<Rightarrow> bool" where
  "on_step c d \<longleftrightarrow> fc_run c = fc_run d \<and> fc_step c = fc_step d"

definition effect_key :: "FabricCommand \<Rightarrow> string \<times> string \<times> string" where
  "effect_key c = (fc_run c, fc_step c, fc_key c)"

definition command_key :: "FabricCommand \<Rightarrow> string \<times> string \<times> string" where
  "command_key c = (fc_run c, fc_step c, fc_id c)"

definition fence_scoped :: "FabricCommand \<Rightarrow> bool" where
  "fence_scoped c \<longleftrightarrow> ft_run (fc_fence c) = fc_run c \<and> ft_step (fc_fence c) = fc_step c"

text \<open>A later command of a step: a nonce of its own, no older epoch, at the same epoch the same effect.\<close>

definition follows :: "FabricCommand \<Rightarrow> FabricCommand \<Rightarrow> bool" where
  "follows c d \<longleftrightarrow> (on_step c d \<longrightarrow> fc_nonce c \<noteq> fc_nonce d
     \<and> ft_epoch (fc_fence c) \<le> ft_epoch (fc_fence d)
     \<and> (ft_epoch (fc_fence c) = ft_epoch (fc_fence d) \<longrightarrow> fc_key c = fc_key d))"

definition settled_in_run :: "JournalEntry list \<Rightarrow> FabricCommand \<Rightarrow> bool" where
  "settled_in_run es c \<longleftrightarrow> (\<exists>s\<in>set (settlements_of es). se_run s = fc_run c \<and> se_command s = fc_id c)"

definition settled_in :: "JournalEntry list \<Rightarrow> FabricCommand \<Rightarrow> bool" where
  "settled_in es c \<longleftrightarrow> (\<exists>s\<in>set (settlements_of es). se_run s = fc_run c \<and> se_step s = fc_step c \<and> se_command s = fc_id c)"

definition locks_ready :: "DispatchRequest \<Rightarrow> instant \<Rightarrow> bool" where
  "locks_ready q now \<longleftrightarrow>
     (\<forall>r\<in>set (rq_reservations q). \<not> rv_is_expired r now \<and> is_authorised_by r (fc_fence (rq_command q))
        \<and> (\<forall>x\<in>set (rq_others q) \<union> set (rq_reservations q). \<not> conflicts_with x r now))"

definition dispatch_ready :: "JournalEntry list \<Rightarrow> DispatchRequest \<Rightarrow> instant \<Rightarrow> bool" where
  "dispatch_ready es q now \<longleftrightarrow>
     (let c = rq_command q in
      is_signed c \<and> fc_step c = sp_id (rq_step q) \<and> fence_scoped c \<and> fc_plan c = rq_plan q
      \<and> (\<forall>x\<in>set (claimed es). follows x c)
      \<and> locks_ready q now
      \<and> (\<forall>x\<in>set (claimed es). effect_key x = effect_key c \<longrightarrow> settled_in_run es x))"

lemma claims_of_append [simp]: "claims_of (es @ es') = claims_of es @ claims_of es'"
  by (induction es rule: claims_of.induct) simp_all

lemma settlements_of_append [simp]: "settlements_of (es @ es') = settlements_of es @ settlements_of es'"
  by (induction es rule: settlements_of.induct) simp_all

lemma claims_of_filter:
  "claims_of (filter (entry_wanted run step) es) = filter (\<lambda>c. entry_wanted run step (Claimed c)) (claims_of es)"
  by (induction es rule: claims_of.induct) simp_all

lemma settlements_of_filter:
  "settlements_of (filter (entry_wanted run step) es) = filter (\<lambda>s. entry_wanted run step (Settled s)) (settlements_of es)"
  by (induction es rule: settlements_of.induct) simp_all

lemma claims_of_in: "c \<in> set (claims_of es) \<longleftrightarrow> Claimed c \<in> set es"
  by (induction es rule: claims_of.induct) auto

lemma settlements_of_in: "s \<in> set (settlements_of es) \<longleftrightarrow> Settled s \<in> set es"
  by (induction es rule: settlements_of.induct) auto

lemma wanted_simps [simp]:
  "entry_wanted run (Some step) (Claimed c) \<longleftrightarrow> fc_run (cl_command c) = run \<and> fc_step (cl_command c) = step"
  "entry_wanted run (Some step) (Settled s) \<longleftrightarrow> se_run s = run \<and> se_step s = step"
  "entry_wanted run None (Settled s) \<longleftrightarrow> se_run s = run"
  by (auto simp: entry_wanted_def)

lemma newest_epoch: "ft_epoch (newest f gs) \<le> e \<longleftrightarrow> (\<forall>g\<in>set (f # gs). ft_epoch g \<le> e)"
  by (induction f gs rule: newest.induct) auto

lemma newest_in: "newest f gs \<in> set (f # gs)"
  by (induction f gs rule: newest.induct) auto

lemma max_fence_None [simp]: "max_fence fs = None \<longleftrightarrow> fs = []"
  by (simp add: max_fence_def split: list.splits)

lemma max_fence_Some: "max_fence fs = Some f \<Longrightarrow> f \<in> set fs \<and> (\<forall>e. ft_epoch f \<le> e \<longleftrightarrow> (\<forall>g\<in>set fs. ft_epoch g \<le> e))"
proof -
  assume a: "max_fence fs = Some f"
  then obtain g gs where fs: "fs = g # gs" "f = newest g gs" by (cases fs) (auto simp: max_fence_def)
  show ?thesis using newest_in [of g gs] newest_epoch [of g gs] unfolding fs by blast
qed

lemma lift_fault_simps [simp]: "lift_fault (Inr x) = Inr x" "lift_fault (Inl e) = Inl (FabricFault e)"
  by (simp_all add: lift_fault_def)

lemma reservations_ok_iff:
  "reservations_ok f now seen rs = Inr () \<longleftrightarrow>
     (\<forall>r\<in>set rs. \<not> rv_is_expired r now \<and> is_authorised_by r f
        \<and> (\<forall>x\<in>set seen \<union> set rs. \<not> conflicts_with x r now))"
proof (induction rs arbitrary: seen)
  case Nil
  then show ?case by simp
next
  case (Cons r rs)
  have rr: "\<not> conflicts_with r r now" by (simp add: conflicts_with_def)
  have av: "assert_reservation_available r (seen @ rs) now = Inr () \<longleftrightarrow>
      (\<forall>x\<in>set seen \<union> set rs. \<not> conflicts_with x r now)"
    by (auto simp: assert_reservation_available_def filter_empty_iff_all)
  show ?case
    by (auto simp: and_then_Inr_iff av Cons.IH rr)
qed

section \<open>Admission\<close>

lemma settled_in_run_iff:
  "settled_in_run es c \<longleftrightarrow> fc_id c \<in> se_command ` {s \<in> set (settlements_of es). se_run s = fc_run c}"
  by (force simp: settled_in_run_def)

lemma is_stale_scoped:
  assumes "fence_scoped c" "fence_scoped d" "on_step d c"
  shows "is_stale_against c (fc_fence d) \<longleftrightarrow> ft_epoch (fc_fence c) < ft_epoch (fc_fence d)"
  using assms by (auto simp: is_stale_against_def guards_def is_at_least_def same_scope_def fence_scoped_def on_step_def)

context fabric_journal
begin

lemma fabric_claims_log:
  "ok j \<Longrightarrow> fabric_claims J j run (Some step) =
     Inr (filter (\<lambda>c. fc_run (cl_command c) = run \<and> fc_step (cl_command c) = step) (claims_of (logged j)))"
  by (simp add: fabric_claims_def entries_log claims_of_filter)

lemma fabric_settlements_log:
  "ok j \<Longrightarrow> fabric_settlements J j run (Some step) =
     Inr (filter (\<lambda>s. se_run s = run \<and> se_step s = step) (settlements_of (logged j)))"
  "ok j \<Longrightarrow> fabric_settlements J j run None = Inr (filter (\<lambda>s. se_run s = run) (settlements_of (logged j)))"
  by (simp_all add: fabric_settlements_def entries_log settlements_of_filter)

lemma served_fence_log:
  assumes "ok j" "\<forall>x\<in>set (claimed (logged j)). fence_scoped x" "fence_scoped c"
  shows "\<exists>f. served_fence J j (fc_run c) (fc_step c) = Inr f
     \<and> ((case f of None \<Rightarrow> Inr () | Some g \<Rightarrow> assert_fence_current c g) = Inr ()
         \<longleftrightarrow> (\<forall>x\<in>set (claimed (logged j)). on_step x c \<longrightarrow> ft_epoch (fc_fence x) \<le> ft_epoch (fc_fence c)))"
proof -
  let ?cs = "filter (\<lambda>x. fc_run (cl_command x) = fc_run c \<and> fc_step (cl_command x) = fc_step c) (claims_of (logged j))"
  have s: "served_fence J j (fc_run c) (fc_step c) = Inr (max_fence (map claim_fence ?cs))"
    by (simp add: served_fence_def fabric_claims_log assms(1))
  show ?thesis
  proof (cases "max_fence (map claim_fence ?cs)")
    case None
    then have "?cs = []" by simp
    then have "\<forall>x\<in>set (claimed (logged j)). \<not> on_step x c"
      by (auto simp: claimed_def on_step_def filter_empty_iff_all)
    with s None show ?thesis by auto
  next
    case (Some f)
    note m = max_fence_Some [OF Some]
    obtain x where x: "x \<in> set ?cs" "f = fc_fence (cl_command x)" using m by (auto simp: claim_fence_def)
    then have "is_stale_against c f \<longleftrightarrow> ft_epoch (fc_fence c) < ft_epoch f"
      using assms(2,3) is_stale_scoped [of c "cl_command x"] by (auto simp: claimed_def on_step_def)
    moreover have "ft_epoch f \<le> ft_epoch (fc_fence c) \<longleftrightarrow>
        (\<forall>x\<in>set (claimed (logged j)). on_step x c \<longrightarrow> ft_epoch (fc_fence x) \<le> ft_epoch (fc_fence c))"
      using m by (auto simp: claimed_def on_step_def claim_fence_def)
    ultimately show ?thesis using s Some by (auto simp: assert_fence_current_def not_le)
  qed
qed

lemma nonce_ledger_log:
  "ok j \<Longrightarrow> nonce_ledger J j (fc_run c) (fc_step c) = Inr (fc_nonce ` {x \<in> set (claimed (logged j)). on_step x c})"
  by (auto simp: nonce_ledger_def fabric_claims_log claimed_def on_step_def)

lemma open_claims_log:
  "ok j \<Longrightarrow> open_claims J j run (Some step) =
     Inr (filter (\<lambda>c. fc_run (cl_command c) = run \<and> fc_step (cl_command c) = step
        \<and> \<not> settled_in_run (logged j) (cl_command c)) (claims_of (logged j)))"
  by (simp add: open_claims_def fabric_settlements_log fabric_claims_log settled_in_run_iff conj_ac cong: conj_cong)

lemma claim_ids_log:
  "ok j \<Longrightarrow> claim_ids_for_key J j c = Inr (fc_id ` {x \<in> set (claimed (logged j)). effect_key x = effect_key c})"
  by (auto simp: claim_ids_for_key_def fabric_claims_log claimed_key_def claimed_def effect_key_def)

lemma recorded_outcome_log:
  assumes "ok j"
  shows "recorded_outcome J j c =
     Inr (find (\<lambda>s. se_command s \<in> fc_id ` {x \<in> set (claimed (logged j)). effect_key x = effect_key c})
            (filter (\<lambda>s. se_run s = fc_run c \<and> se_step s = fc_step c) (settlements_of (logged j))))"
  by (simp add: recorded_outcome_def claim_ids_log fabric_settlements_log assms)

lemma recorded_None_iff:
  "ok j \<Longrightarrow> recorded_outcome J j c = Inr None \<longleftrightarrow>
     (\<forall>x\<in>set (claimed (logged j)). effect_key x = effect_key c \<longrightarrow> \<not> settled_in (logged j) x)"
  by (auto simp: recorded_outcome_log find_None_iff settled_in_def effect_key_def)

lemma has_open_claim_log:
  assumes "ok j"
  shows "has_open_claim J j c =
     Inr (\<not> (\<forall>x\<in>set (claimed (logged j)). effect_key x = effect_key c \<longrightarrow> settled_in_run (logged j) x))"
proof -
  let ?ids = "fc_id ` {x \<in> set (claimed (logged j)). effect_key x = effect_key c}"
  let ?P = "\<lambda>y. on_step (cl_command y) c \<and> \<not> settled_in_run (logged j) (cl_command y)"
  have "has_open_claim J j c = Inr (\<exists>y\<in>set (claims_of (logged j)). ?P y \<and> fc_id (cl_command y) \<in> ?ids)"
    by (simp add: has_open_claim_def claim_ids_log open_claims_log list_ex_iff on_step_def assms Bex_def conj_ac)
  moreover have "(\<exists>y\<in>set (claims_of (logged j)). ?P y \<and> fc_id (cl_command y) \<in> ?ids) \<longleftrightarrow>
      \<not> (\<forall>x\<in>set (claimed (logged j)). effect_key x = effect_key c \<longrightarrow> settled_in_run (logged j) x)" (is "?L \<longleftrightarrow> ?R")
  proof
    assume ?L
    then obtain y x where y: "y \<in> set (claims_of (logged j))" "?P y" and x: "x \<in> set (claimed (logged j))"
      "effect_key x = effect_key c" "fc_id x = fc_id (cl_command y)" by auto
    then have "\<not> settled_in_run (logged j) x" by (auto simp: settled_in_run_def effect_key_def on_step_def)
    with x show ?R by blast
  next
    assume ?R
    then obtain x where x: "x \<in> set (claimed (logged j))" "effect_key x = effect_key c" "\<not> settled_in_run (logged j) x" by blast
    from x(1) obtain y where y: "y \<in> set (claims_of (logged j))" "x = cl_command y" by (auto simp: claimed_def)
    have "fc_id (cl_command y) \<in> ?ids" "?P y"
      using x y(2) by (auto simp: effect_key_def on_step_def)
    with y(1) show ?L by blast
  qed
  ultimately show ?thesis by simp
qed

lemma require_single_log:
  "ok j \<Longrightarrow> require_single_effect J j c = Inr () \<longleftrightarrow>
     (\<forall>x\<in>set (claimed (logged j)). on_step x c \<and> ft_epoch (fc_fence x) = ft_epoch (fc_fence c) \<longrightarrow> fc_key x = fc_key c)"
  by (auto simp: require_single_effect_def fabric_claims_log list_ex_iff other_effect_def claim_fence_def claimed_def on_step_def)

lemma preflight_checks_iff:
  assumes "ok j" "\<forall>x\<in>set (claimed (logged j)). fence_scoped x"
  shows "(\<exists>f. preflight_checks J q now j = Inr f) \<longleftrightarrow> dispatch_ready (logged j) q now"
proof -
  let ?c = "rq_command q"
  let ?own = "is_signed ?c \<and> fc_step ?c = sp_id (rq_step q) \<and> fence_scoped ?c"
  show ?thesis
  proof (cases ?own)
    case False
    then show ?thesis
      by (auto simp: preflight_checks_def dispatch_ready_def Let_def and_then_Inr_iff require_signed_def
          require_scope_def fence_scoped_def split: if_splits)
  next
    case True
    then have own: "require_signed ?c = Inr ()" "require_scope (rq_step q) ?c = Inr ()" "sp_id (rq_step q) = fc_step ?c"
      by (auto simp: require_signed_def require_scope_def fence_scoped_def)
    obtain f where f: "served_fence J j (fc_run ?c) (fc_step ?c) = Inr f"
      and stale: "(case f of None \<Rightarrow> Inr () | Some g \<Rightarrow> assert_fence_current ?c g) = Inr () \<longleftrightarrow>
        (\<forall>x\<in>set (claimed (logged j)). on_step x ?c \<longrightarrow> ft_epoch (fc_fence x) \<le> ft_epoch (fc_fence ?c))"
      using served_fence_log [OF assms, of ?c] True by blast
    have locks: "require_reservations q now = Inr () \<longleftrightarrow> locks_ready q now"
      by (simp add: require_reservations_def reservations_ok_iff locks_ready_def)
    have fresh: "(\<exists>l. ledger_accept (fc_nonce ` {x \<in> set (claimed (logged j)). on_step x ?c}) ?c = Inr l) \<longleftrightarrow>
        (\<forall>x\<in>set (claimed (logged j)). on_step x ?c \<longrightarrow> fc_nonce x \<noteq> fc_nonce ?c)"
      by (auto simp: ledger_accept_def is_replayed_def image_iff)
    have plan: "assert_plan_digest_matches ?c (rq_plan q) = Inr () \<longleftrightarrow> fc_plan ?c = rq_plan q"
      by (simp add: assert_plan_digest_matches_def binds_to_def)
    have later: "(\<forall>x\<in>S. follows x ?c) \<longleftrightarrow>
        (\<forall>x\<in>S. on_step x ?c \<longrightarrow> ft_epoch (fc_fence x) \<le> ft_epoch (fc_fence ?c))
        \<and> (\<forall>x\<in>S. on_step x ?c \<longrightarrow> fc_nonce x \<noteq> fc_nonce ?c)
        \<and> (\<forall>x\<in>S. on_step x ?c \<and> ft_epoch (fc_fence x) = ft_epoch (fc_fence ?c) \<longrightarrow> fc_key x = fc_key ?c)" for S
      unfolding follows_def by blast
    have "(\<exists>g. preflight_checks J q now j = Inr g) \<longleftrightarrow>
        assert_plan_digest_matches ?c (rq_plan q) = Inr ()
        \<and> (case f of None \<Rightarrow> Inr () | Some g \<Rightarrow> assert_fence_current ?c g) = Inr ()
        \<and> require_reservations q now = Inr ()
        \<and> (\<exists>l. ledger_accept (fc_nonce ` {x \<in> set (claimed (logged j)). on_step x ?c}) ?c = Inr l)
        \<and> require_single_effect J j ?c = Inr ()
        \<and> (\<forall>x\<in>set (claimed (logged j)). effect_key x = effect_key ?c \<longrightarrow> settled_in_run (logged j) x)"
      unfolding preflight_checks_def Let_def
      by (simp add: own f and_then_Inr_iff nonce_ledger_log has_open_claim_log assms(1) ex_simps)
    also have "\<dots> \<longleftrightarrow> dispatch_ready (logged j) q now"
      unfolding plan stale locks fresh require_single_log [OF assms(1)] dispatch_ready_def Let_def later
      using True by blast
    finally show ?thesis .
  qed
qed

end

section \<open>Controllers, crashes, reconciliations\<close>

text \<open>
  A dispatch is three steps of the system, the claim, the effect and the settlement, and several
  controllers may be anywhere between them. A claim is one step: the journal has one writer. \<open>Die\<close> is
  the end of a controller in the middle of a dispatch. \<open>fw_calls\<close> lists the commands a session was
  handed.
\<close>

datatype fabric_event =
    Begin string DispatchRequest instant
  | Act DispatchRequest
  | Finish DispatchRequest Reading instant
  | Die DispatchRequest
  | Reconcile string string string StepOutcome string "TargetOutcome option" instant

record ('j, 's, 'w) fabric_world =
  fw_state :: "('j, 's, 'w) fabric_state"
  fw_pending :: "DispatchRequest list"
  fw_returned :: "(DispatchRequest \<times> Reading) list"
  fw_calls :: "FabricCommand list"

fun fabric_step :: "('j, 's, 'w) FabricEngine \<Rightarrow> fabric_event \<Rightarrow> ('j, 's, 'w) fabric_world \<Rightarrow> ('j, 's, 'w) fabric_world" where
  "fabric_step E (Begin ctl q now) w =
     (case claim_step (E\<lparr>fe_controller := ctl\<rparr>) q now (fw_state w) of
        (Inl _, st) \<Rightarrow> w\<lparr>fw_state := st\<rparr>
      | (Inr _, st) \<Rightarrow> w\<lparr>fw_state := st, fw_pending := q # fw_pending w\<rparr>)"
| "fabric_step E (Act q) w =
     (if q \<notin> set (fw_pending w) then w
      else case effect_step E q (fw_state w) of
        (r, st) \<Rightarrow>
          w\<lparr>fw_state := st, fw_pending := remove1 q (fw_pending w),
            fw_returned := (case r of Inl _ \<Rightarrow> fw_returned w | Inr rd \<Rightarrow> (q, rd) # fw_returned w),
            fw_calls := (if recorded_outcome (fe_journal E) (fs_journal (fw_state w)) (rq_command q) = Inr None
                         then fw_calls w @ [rq_command q] else fw_calls w)\<rparr>)"
| "fabric_step E (Finish q rd now) w =
     (if (q, rd) \<notin> set (fw_returned w) then w
      else w\<lparr>fw_state := snd (settle_step E (rq_command q) rd now (fw_state w)),
             fw_returned := remove1 (q, rd) (fw_returned w)\<rparr>)"
| "fabric_step E (Die q) w =
     w\<lparr>fw_pending := remove1 q (fw_pending w), fw_returned := filter (\<lambda>x. fst x \<noteq> q) (fw_returned w)\<rparr>"
| "fabric_step E (Reconcile ctl run step outcome detail reason now) w =
     w\<lparr>fw_state := snd (settle_claim (E\<lparr>fe_controller := ctl\<rparr>) run step outcome detail reason now (fw_state w))\<rparr>"

definition fabric_start :: "('j, 's, 'w) fabric_state \<Rightarrow> ('j, 's, 'w) fabric_world" where
  "fabric_start st = \<lparr>fw_state = st, fw_pending = [], fw_returned = [], fw_calls = []\<rparr>"

definition fabric_run ::
  "('j, 's, 'w) FabricEngine \<Rightarrow> fabric_event list \<Rightarrow> ('j, 's, 'w) fabric_state \<Rightarrow> ('j, 's, 'w) fabric_world" where
  "fabric_run E evs st = fold (fabric_step E) evs (fabric_start st)"

text \<open>The commands of the run; each was built by the envelope's constructor.\<close>

fun begun :: "fabric_event list \<Rightarrow> FabricCommand list" where
  "begun [] = []"
| "begun (Begin ctl q now # evs) = rq_command q # begun evs"
| "begun (_ # evs) = begun evs"

definition ids_name_steps :: "FabricCommand set \<Rightarrow> bool" where
  "ids_name_steps U \<longleftrightarrow> (\<forall>c\<in>U. \<forall>d\<in>U. fc_run c = fc_run d \<and> fc_id c = fc_id d \<longrightarrow> fc_step c = fc_step d)"

section \<open>The invariants\<close>

definition earlier_settled :: "JournalEntry list \<Rightarrow> FabricCommand \<Rightarrow> FabricCommand \<Rightarrow> bool" where
  "earlier_settled es c d \<longleftrightarrow> (effect_key c = effect_key d \<longrightarrow> settled_in es c)"

definition log_inv :: "FabricCommand set \<Rightarrow> JournalEntry list \<Rightarrow> bool" where
  "log_inv U es \<longleftrightarrow>
     set (claimed es) \<subseteq> U
     \<and> (\<forall>c\<in>set (claimed es). fence_scoped c)
     \<and> distinct (map command_key (claimed es))
     \<and> (\<forall>s\<in>set (settlements_of es). (se_run s, se_step s, se_command s) \<in> command_key ` set (claimed es))
     \<and> sorted_wrt follows (claimed es)
     \<and> sorted_wrt (earlier_settled es) (claimed es)"

definition threads_inv :: "JournalEntry list \<Rightarrow> DispatchRequest list \<Rightarrow> (DispatchRequest \<times> Reading) list
    \<Rightarrow> FabricCommand list \<Rightarrow> bool" where
  "threads_inv es pending returned calls \<longleftrightarrow>
     rq_command ` set pending \<subseteq> set (claimed es)
     \<and> (\<lambda>x. rq_command (fst x)) ` set returned \<subseteq> set (claimed es)
     \<and> set calls \<subseteq> set (claimed es)
     \<and> distinct (map (\<lambda>q. command_key (rq_command q)) pending)
     \<and> command_key ` set calls \<inter> (\<lambda>q. command_key (rq_command q)) ` set pending = {}
     \<and> distinct (map effect_key calls)"

lemma claimed_append [simp]:
  "claimed (es @ [Claimed c]) = claimed es @ [cl_command c]"
  "claimed (es @ [Settled s]) = claimed es"
  by (simp_all add: claimed_def)

lemma settled_in_mono: "settled_in es c \<Longrightarrow> settled_in (es @ es') c"
  by (auto simp: settled_in_def)

lemma settled_in_simps [simp]: "settled_in (es @ [Claimed c]) d \<longleftrightarrow> settled_in es d"
  by (simp add: settled_in_def)

lemma settled_where_claimed:
  assumes "log_inv U es" "ids_name_steps U" "c \<in> set (claimed es)" "settled_in_run es c"
  shows "settled_in es c"
proof -
  obtain s where s: "s \<in> set (settlements_of es)" "se_run s = fc_run c" "se_command s = fc_id c"
    using assms(4) by (auto simp: settled_in_run_def)
  have "(se_run s, se_step s, se_command s) \<in> command_key ` set (claimed es)"
    using assms(1) s(1) unfolding log_inv_def by blast
  then obtain d where d: "d \<in> set (claimed es)" "se_run s = fc_run d" "se_step s = fc_step d" "se_command s = fc_id d"
    by (auto simp: command_key_def)
  have "c \<in> U" "d \<in> U" using assms(1,3) d(1) unfolding log_inv_def by blast+
  then have "fc_step d = fc_step c"
    using assms(2) d s unfolding ids_name_steps_def by metis
  with s d show ?thesis by (auto simp: settled_in_def)
qed

lemma log_inv_claim:
  assumes inv: "log_inv U es" and ids: "ids_name_steps U" and U: "cl_command c \<in> U"
    and ready: "dispatch_ready es q now" and q: "rq_command q = cl_command c"
    and new: "command_key (cl_command c) \<notin> command_key ` set (claimed es)"
  shows "log_inv U (es @ [Claimed c])"
proof -
  have r: "fence_scoped (cl_command c)" "\<forall>x\<in>set (claimed es). follows x (cl_command c)"
    "\<forall>x\<in>set (claimed es). earlier_settled es x (cl_command c)"
    using ready settled_where_claimed [OF inv ids]
    by (auto simp: dispatch_ready_def Let_def q earlier_settled_def)
  have e: "earlier_settled (es @ [Claimed c]) = earlier_settled es"
    by (intro ext) (simp add: earlier_settled_def)
  show ?thesis
    using inv U new r by (auto simp: log_inv_def e sorted_wrt_append)
qed

lemma log_inv_settle:
  assumes inv: "log_inv U es" and c: "(se_run s, se_step s, se_command s) \<in> command_key ` set (claimed es)"
  shows "log_inv U (es @ [Settled s])"
proof -
  have "sorted_wrt (earlier_settled (es @ [Settled s])) (claimed es)"
  proof (rule sorted_wrt_mono_rel)
    show "sorted_wrt (earlier_settled es) (claimed es)" using inv by (simp add: log_inv_def)
    show "earlier_settled es x y \<Longrightarrow> earlier_settled (es @ [Settled s]) x y" for x y
      using settled_in_mono [of es x "[Settled s]"] by (simp add: earlier_settled_def)
  qed
  with inv c show ?thesis by (simp add: log_inv_def)
qed

lemma only_claim_of_effect:
  assumes "log_inv U es" "c \<in> set (claimed es)" "d \<in> set (claimed es)" "effect_key d = effect_key c"
    and "\<forall>x\<in>set (claimed es). effect_key x = effect_key c \<longrightarrow> \<not> settled_in es x"
  shows "d = c"
proof (rule ccontr)
  assume ne: "d \<noteq> c"
  obtain i j where ij: "i < length (claimed es)" "claimed es ! i = c" "j < length (claimed es)" "claimed es ! j = d"
    using assms(2,3) by (auto simp: in_set_conv_nth)
  have srt: "sorted_wrt (earlier_settled es) (claimed es)" using assms(1) by (simp add: log_inv_def)
  have "i < j \<or> j < i" using ij ne by (cases i j rule: linorder_cases) auto
  then have "settled_in es c \<or> settled_in es d"
    using sorted_wrt_nth_less [OF srt, of i j] sorted_wrt_nth_less [OF srt, of j i] ij assms(4)
    by (auto simp: earlier_settled_def)
  with assms show False by auto
qed

section \<open>Every step keeps them\<close>

lemma claim_step_journal:
  assumes "claim_step E q now st = (r, st')"
  shows "(fs_journal st' = fs_journal st \<and> (\<exists>e. r = Inl e))
     \<or> (\<exists>c. cl_command c = rq_command q \<and> (\<exists>f. preflight_checks (fe_journal E) q now (fs_journal st) = Inr f)
          \<and> jn_append (fe_journal E) (Claimed c) (fs_journal st) = Inr (fs_journal st'))"
    and "fs_sink st' = fs_sink st"
proof -
  have "((fs_journal st' = fs_journal st \<and> (\<exists>e. r = Inl e))
     \<or> (\<exists>c. cl_command c = rq_command q \<and> (\<exists>f. preflight_checks (fe_journal E) q now (fs_journal st) = Inr f)
          \<and> jn_append (fe_journal E) (Claimed c) (fs_journal st) = Inr (fs_journal st')))
     \<and> fs_sink st' = fs_sink st"
  proof (cases "preflight_checks (fe_journal E) q now (fs_journal st)")
    case (Inl e)
    with assms show ?thesis by (cases e) (auto simp: claim_step_def preflight_def)
  next
    case (Inr f)
    obtain v w where v: "verify_command E q f now (fs_world st) = (v, w)" by fastforce
    show ?thesis
    proof (cases v)
      case (Inl e)
      with assms Inr v show ?thesis by (cases e) (auto simp: claim_step_def preflight_def)
    next
      case (Inr vd)
      let ?c = "\<lparr>cl_command = rq_command q, cl_controller = fe_controller E, cl_at = now\<rparr>"
      show ?thesis
      proof (cases "jn_append (fe_journal E) (Claimed ?c) (fs_journal st)")
        case (Inl e)
        with assms Inr v \<open>preflight_checks _ _ _ _ = Inr f\<close> show ?thesis
          by (auto simp: claim_step_def preflight_def Let_def)
      next
        case (Inr j)
        with assms \<open>v = Inr vd\<close> v \<open>preflight_checks _ _ _ _ = Inr f\<close>
        have "fs_journal st' = j" "fs_sink st' = fs_sink st"
          by (auto simp: claim_step_def preflight_def Let_def split: prod.splits option.splits)
        with Inr \<open>preflight_checks _ _ _ _ = Inr f\<close> show ?thesis by (intro conjI disjI2 exI [of _ ?c]) auto
      qed
    qed
  qed
  then show "(fs_journal st' = fs_journal st \<and> (\<exists>e. r = Inl e))
     \<or> (\<exists>c. cl_command c = rq_command q \<and> (\<exists>f. preflight_checks (fe_journal E) q now (fs_journal st) = Inr f)
          \<and> jn_append (fe_journal E) (Claimed c) (fs_journal st) = Inr (fs_journal st'))"
    and "fs_sink st' = fs_sink st" by blast+
qed

lemma fabric_invoke_journal: "fs_journal (snd (fabric_invoke E q st)) = fs_journal st"
  by (auto simp: fabric_invoke_def Let_def split: prod.splits session_reply.splits option.splits sum.splits)

lemma effect_step_journal: "fs_journal (snd (effect_step E q st)) = fs_journal st"
  using fabric_invoke_journal [of E q st] by (auto simp: effect_step_def split: sum.splits option.splits)

text \<open>A journal after at most one settlement of a command with the given key.\<close>

definition settles_once :: "'j FabricJournal \<Rightarrow> string \<times> string \<times> string \<Rightarrow> 'j \<Rightarrow> 'j \<Rightarrow> bool" where
  "settles_once J k j j' \<longleftrightarrow> j' = j \<or> (\<exists>s. (se_run s, se_step s, se_command s) = k
     \<and> settlement_validate s = Inr s \<and> jn_append J (Settled s) j = Inr j')"

lemma agreeing_reason_idem: "agreeing_reason o' r = Inr r' \<Longrightarrow> agreeing_reason o' r' = Inr r'"
  by (auto simp: agreeing_reason_def split: if_splits)

lemma settle_step_journal:
  "settles_once (fe_journal E) (command_key c) (fs_journal st) (fs_journal (snd (settle_step E c rd now st)))"
proof (cases "agreeing_reason (rd_outcome rd) (rd_reason rd)")
  case (Inl e)
  then show ?thesis by (simp add: settle_step_def settles_once_def)
next
  case (Inr reason)
  let ?s = "\<lparr>se_run = fc_run c, se_step = fc_step c, se_command = fc_id c, se_outcome = rd_outcome rd,
             se_reason = reason, se_detail = rd_detail rd, se_lease = rd_lease rd, se_at = now\<rparr>"
  have v: "settlement_validate ?s = Inr ?s"
    using agreeing_reason_idem [OF Inr] by (simp add: settlement_validate_def)
  show ?thesis
  proof (cases "jn_append (fe_journal E) (Settled ?s) (fs_journal st)")
    case (Inl e)
    with Inr v show ?thesis by (simp add: settle_step_def settles_once_def Let_def)
  next
    case (Inr j)
    with \<open>agreeing_reason _ _ = Inr reason\<close> v have "fs_journal (snd (settle_step E c rd now st)) = j"
      by (auto simp: settle_step_def Let_def split: prod.splits option.splits)
    with Inr v show ?thesis unfolding settles_once_def
      by (intro disjI2 exI [of _ ?s]) (simp add: command_key_def)
  qed
qed

lemma settle_claim_journal:
  assumes "open_claims (fe_journal E) (fs_journal st) run (Some step) = Inr cs"
  shows "fs_journal (snd (settle_claim E run step out det r now st)) = fs_journal st
     \<or> (cs \<noteq> [] \<and> settles_once (fe_journal E) (run, step, fc_id (cl_command (last cs))) (fs_journal st)
            (fs_journal (snd (settle_claim E run step out det r now st))))"
proof (cases "cs = []")
  case True
  with assms show ?thesis by (simp add: settle_claim_def)
next
  case False
  show ?thesis
  proof (cases "agreeing_reason out r")
    case (Inl e)
    with False assms show ?thesis by (simp add: settle_claim_def)
  next
    case (Inr why)
    let ?s = "\<lparr>se_run = run, se_step = step, se_command = fc_id (cl_command (last cs)), se_outcome = out,
               se_reason = why,
               se_detail = or_text det (''settled by '' @ fe_controller E @ '' without a provider call''),
               se_lease = None, se_at = now\<rparr>"
    have v: "settlement_validate ?s = Inr ?s"
      using agreeing_reason_idem [OF Inr] by (simp add: settlement_validate_def)
    show ?thesis
    proof (cases "jn_append (fe_journal E) (Settled ?s) (fs_journal st)")
      case (Inl e)
      with Inr False assms show ?thesis by (simp add: settle_claim_def Let_def)
    next
      case (Inr j)
      with \<open>agreeing_reason out r = Inr why\<close> False assms
      have "fs_journal (snd (settle_claim E run step out det r now st)) = j"
        by (auto simp: settle_claim_def Let_def split: prod.splits option.splits)
      with Inr v False show ?thesis unfolding settles_once_def
        by (intro disjI2 conjI exI [of _ ?s]) simp_all
    qed
  qed
qed

definition fabric_inv ::
  "('j \<Rightarrow> bool) \<Rightarrow> ('j \<Rightarrow> JournalEntry list) \<Rightarrow> FabricCommand set \<Rightarrow> ('j, 's, 'w) fabric_world \<Rightarrow> bool" where
  "fabric_inv ok logged U w \<longleftrightarrow> ok (fs_journal (fw_state w)) \<and> log_inv U (logged (fs_journal (fw_state w)))
     \<and> threads_inv (logged (fs_journal (fw_state w))) (fw_pending w) (fw_returned w) (fw_calls w)"

lemma threads_inv_claimed:
  "claimed es' = claimed es \<Longrightarrow> threads_inv es' p r c = threads_inv es p r c"
  by (simp add: threads_inv_def)

lemma threads_inv_drop:
  assumes "threads_inv es p r c" "set p' \<subseteq> set p" "set r' \<subseteq> set r"
    and "distinct (map (\<lambda>q. command_key (rq_command q)) p')"
  shows "threads_inv es p' r' c"
proof -
  have sub: "\<And>q. q \<in> set p' \<Longrightarrow> q \<in> set p" "\<And>x. x \<in> set r' \<Longrightarrow> x \<in> set r" using assms(2,3) by auto
  show ?thesis
    using assms(1,4) sub unfolding threads_inv_def image_subset_iff disjoint_iff image_iff
    by (intro conjI ballI allI impI) (metis, metis, metis, metis, metis, metis)
qed

lemma distinct_map_remove1: "distinct (map f xs) \<Longrightarrow> distinct (map f (remove1 x xs))"
  by (induction xs) (auto dest: notin_set_remove1 set_remove1_subset [THEN subsetD])

lemma threads_inv_begin:
  assumes "threads_inv es p r c" "command_key (rq_command q) \<notin> command_key ` set (claimed es)"
    and "claimed es' = claimed es @ [rq_command q]"
  shows "threads_inv es' p r c" "threads_inv es' (q # p) r c"
proof -
  show a: "threads_inv es' p r c" using assms(1,3) by (auto simp: threads_inv_def)
  have "command_key (rq_command q) \<notin> (\<lambda>q. command_key (rq_command q)) ` set p"
    "command_key (rq_command q) \<notin> command_key ` set c"
    using assms(1,2) unfolding threads_inv_def by blast+
  with a show "threads_inv es' (q # p) r c" using assms(3) by (auto simp: threads_inv_def)
qed

lemma threads_inv_act:
  assumes t: "threads_inv es p r c" and q: "q \<in> set p"
  shows "threads_inv es (remove1 q p) r c" "threads_inv es (remove1 q p) ((q, rd) # r) c"
proof -
  have d: "distinct (map (\<lambda>q. command_key (rq_command q)) (remove1 q p))"
    using t unfolding threads_inv_def by (intro distinct_map_remove1) blast
  show a: "threads_inv es (remove1 q p) r c"
    by (rule threads_inv_drop [OF t _ _ d]) (auto dest: set_remove1_subset [THEN subsetD])
  have "rq_command q \<in> set (claimed es)" using t q unfolding threads_inv_def by blast
  with a show "threads_inv es (remove1 q p) ((q, rd) # r) c" by (simp add: threads_inv_def)
qed

lemma threads_inv_call:
  assumes t: "threads_inv es p r c" and l: "log_inv U es" and q: "q \<in> set p"
    and first: "\<forall>x\<in>set (claimed es). effect_key x = effect_key (rq_command q) \<longrightarrow> \<not> settled_in es x"
    and t': "threads_inv es (remove1 q p) r' c"
  shows "threads_inv es (remove1 q p) r' (c @ [rq_command q])"
proof -
  let ?k = "\<lambda>q. command_key (rq_command q)"
  have cl: "rq_command q \<in> set (claimed es)" using t q unfolding threads_inv_def by blast
  have once: "effect_key (rq_command q) \<notin> effect_key ` set c"
  proof
    assume "effect_key (rq_command q) \<in> effect_key ` set c"
    then obtain d where d: "d \<in> set c" "effect_key d = effect_key (rq_command q)" by auto
    then have "d \<in> set (claimed es)" using t unfolding threads_inv_def by blast
    then have "d = rq_command q" using only_claim_of_effect [OF l cl _ d(2) first] by blast
    then have "?k q \<in> command_key ` set c" using d(1) by blast
    moreover have "?k q \<in> ?k ` set p" using q by blast
    ultimately show False using t unfolding threads_inv_def by blast
  qed
  have dp: "distinct (map ?k p)" using t unfolding threads_inv_def by blast
  have gone: "?k q \<notin> ?k ` set (remove1 q p)"
  proof -
    obtain us vs where p: "p = us @ q # vs" "q \<notin> set us" using q by (meson split_list_first)
    then show ?thesis using dp by (auto simp: remove1_append)
  qed
  show ?thesis using t' cl once gone by (auto simp: threads_inv_def)
qed

context fabric_journal
begin

lemma claim_new:
  assumes "ok j" "command_ok (cl_command c)" "jn_append J (Claimed c) j = Inr j'"
  shows "ok j'" "logged j' = logged j @ [Claimed c]" "command_key (cl_command c) \<notin> command_key ` set (claimed (logged j))"
proof -
  have a: "ok j' \<and> logged j' = logged j @ [Claimed c] \<and> entry_key (Claimed c) \<notin> entry_key ` set (logged j)"
    using append_log [OF assms(1) _ assms(3)] assms(2) by simp
  then show "ok j'" "logged j' = logged j @ [Claimed c]" by blast+
  have "\<not> (\<exists>x. Claimed x \<in> set (logged j) \<and> command_key (cl_command x) = command_key (cl_command c))"
    using a by (force simp: entry_key_def command_key_def)
  then show "command_key (cl_command c) \<notin> command_key ` set (claimed (logged j))"
    by (auto simp: claimed_def claims_of_in)
qed

lemma settle_keeps:
  assumes "ok j" "log_inv U (logged j)" "settles_once J k j j'" "k \<in> command_key ` set (claimed (logged j))"
  shows "ok j'" "log_inv U (logged j')" "claimed (logged j') = claimed (logged j)"
proof -
  have "ok j' \<and> log_inv U (logged j') \<and> claimed (logged j') = claimed (logged j)"
  proof (cases "j' = j")
    case True
    with assms show ?thesis by simp
  next
    case False
    then obtain s where s: "(se_run s, se_step s, se_command s) = k" "settlement_validate s = Inr s"
      "jn_append J (Settled s) j = Inr j'" using assms(3) by (auto simp: settles_once_def)
    then have "ok j' \<and> logged j' = logged j @ [Settled s]" using append_log [OF assms(1) _ s(3)] by simp
    with log_inv_settle [OF assms(2)] s(1) assms(4) show ?thesis by simp
  qed
  then show "ok j'" "log_inv U (logged j')" "claimed (logged j') = claimed (logged j)" by blast+
qed

lemma begin_keeps:
  assumes E: "fe_journal E = J" and inv: "fabric_inv ok logged U w" and ids: "ids_name_steps U"
    and q: "rq_command q \<in> U" "command_ok (rq_command q)"
  shows "fabric_inv ok logged U (fabric_step E (Begin ctl q now) w)"
proof -
  let ?j = "fs_journal (fw_state w)"
  obtain r st where cs: "claim_step (E\<lparr>fe_controller := ctl\<rparr>) q now (fw_state w) = (r, st)" by fastforce
  have i: "ok ?j" "log_inv U (logged ?j)" "threads_inv (logged ?j) (fw_pending w) (fw_returned w) (fw_calls w)"
    using inv by (simp_all add: fabric_inv_def)
  have scoped: "\<forall>x\<in>set (claimed (logged ?j)). fence_scoped x" using i(2) by (simp add: log_inv_def)
  show ?thesis
  proof (cases "fs_journal st = ?j \<and> (\<exists>e. r = Inl e)")
    case True
    then obtain e where e: "r = Inl e" "fs_journal st = ?j" by blast
    then show ?thesis using i by (simp add: fabric_inv_def cs)
  next
    case False
    then obtain c where c: "cl_command c = rq_command q" "\<exists>f. preflight_checks J q now ?j = Inr f"
      "jn_append J (Claimed c) ?j = Inr (fs_journal st)"
      using claim_step_journal(1) [OF cs] E by auto
    have okc: "command_ok (cl_command c)" "cl_command c \<in> U" using q c(1) by simp_all
    note n = claim_new [OF i(1) okc(1) c(3)]
    have ready: "dispatch_ready (logged ?j) q now" using preflight_checks_iff [OF i(1) scoped] c(2) by blast
    have l: "log_inv U (logged (fs_journal st))"
      unfolding n(2) by (rule log_inv_claim [OF i(2) ids okc(2) ready c(1) [symmetric] n(3)])
    have cl: "claimed (logged (fs_journal st)) = claimed (logged ?j) @ [rq_command q]" by (simp add: n(2) c(1))
    have nk: "command_key (rq_command q) \<notin> command_key ` set (claimed (logged ?j))" using n(3) c(1) by simp
    note tb = threads_inv_begin [OF i(3) nk cl]
    show ?thesis using tb l n(1) by (cases r) (simp_all add: fabric_inv_def cs)
  qed
qed

lemma act_keeps:
  assumes E: "fe_journal E = J" and inv: "fabric_inv ok logged U w"
  shows "fabric_inv ok logged U (fabric_step E (Act q) w)"
proof (cases "q \<in> set (fw_pending w)")
  case False
  with inv show ?thesis by simp
next
  case True
  let ?j = "fs_journal (fw_state w)"
  have i: "ok ?j" "log_inv U (logged ?j)" "threads_inv (logged ?j) (fw_pending w) (fw_returned w) (fw_calls w)"
    using inv by (simp_all add: fabric_inv_def)
  obtain r st where es: "effect_step E q (fw_state w) = (r, st)" by fastforce
  have j: "fs_journal st = ?j" using effect_step_journal [of E q "fw_state w"] es by simp
  define ret where "ret = (case r of Inl _ \<Rightarrow> fw_returned w | Inr rd \<Rightarrow> (q, rd) # fw_returned w)"
  have t: "threads_inv (logged ?j) (remove1 q (fw_pending w)) ret (fw_calls w)"
    using threads_inv_act [OF i(3) True] by (cases r) (simp_all add: ret_def)
  have t2: "threads_inv (logged ?j) (remove1 q (fw_pending w)) ret (fw_calls w @ [rq_command q])"
    if "recorded_outcome J ?j (rq_command q) = Inr None"
  proof (rule threads_inv_call [OF i(3,2) True _ t])
    show "\<forall>x\<in>set (claimed (logged ?j)). effect_key x = effect_key (rq_command q) \<longrightarrow> \<not> settled_in (logged ?j) x"
      using that recorded_None_iff [OF i(1)] by blast
  qed
  show ?thesis using True i t t2 by (simp add: fabric_inv_def es j E ret_def [symmetric])
qed

lemma finish_keeps:
  assumes E: "fe_journal E = J" and inv: "fabric_inv ok logged U w"
  shows "fabric_inv ok logged U (fabric_step E (Finish q rd now) w)"
proof (cases "(q, rd) \<in> set (fw_returned w)")
  case False
  with inv show ?thesis by simp
next
  case True
  let ?j = "fs_journal (fw_state w)"
  let ?st = "snd (settle_step E (rq_command q) rd now (fw_state w))"
  have i: "ok ?j" "log_inv U (logged ?j)" "threads_inv (logged ?j) (fw_pending w) (fw_returned w) (fw_calls w)"
    using inv by (simp_all add: fabric_inv_def)
  have "rq_command q \<in> set (claimed (logged ?j))" using i(3) True unfolding threads_inv_def by force
  then have k: "command_key (rq_command q) \<in> command_key ` set (claimed (logged ?j))" by blast
  have so: "settles_once J (command_key (rq_command q)) ?j (fs_journal ?st)"
    using settle_step_journal [of E "rq_command q" "fw_state w" rd now] E by simp
  note s = settle_keeps [OF i(1,2) so k]
  have "threads_inv (logged ?j) (fw_pending w) (remove1 (q, rd) (fw_returned w)) (fw_calls w)"
    using i(3) by (rule threads_inv_drop) (use i(3) in \<open>auto simp: threads_inv_def dest: set_remove1_subset [THEN subsetD]\<close>)
  then show ?thesis using True s threads_inv_claimed [OF s(3)] by (simp add: fabric_inv_def)
qed

lemma die_keeps:
  assumes inv: "fabric_inv ok logged U w"
  shows "fabric_inv ok logged U (fabric_step E (Die q) w)"
proof -
  let ?es = "logged (fs_journal (fw_state w))"
  have t: "threads_inv ?es (fw_pending w) (fw_returned w) (fw_calls w)" using inv by (simp add: fabric_inv_def)
  have d: "distinct (map (\<lambda>q. command_key (rq_command q)) (remove1 q (fw_pending w)))"
    using t unfolding threads_inv_def by (intro distinct_map_remove1) blast
  have "threads_inv ?es (remove1 q (fw_pending w)) (filter (\<lambda>x. fst x \<noteq> q) (fw_returned w)) (fw_calls w)"
    by (rule threads_inv_drop [OF t _ _ d]) (auto dest: set_remove1_subset [THEN subsetD])
  with inv show ?thesis by (simp add: fabric_inv_def)
qed

lemma reconcile_keeps:
  assumes E: "fe_journal E = J" and inv: "fabric_inv ok logged U w"
  shows "fabric_inv ok logged U (fabric_step E (Reconcile ctl run step out det r now) w)"
proof -
  let ?j = "fs_journal (fw_state w)"
  let ?st = "snd (settle_claim (E\<lparr>fe_controller := ctl\<rparr>) run step out det r now (fw_state w))"
  let ?cs = "filter (\<lambda>c. fc_run (cl_command c) = run \<and> fc_step (cl_command c) = step
        \<and> \<not> settled_in_run (logged ?j) (cl_command c)) (claims_of (logged ?j))"
  have i: "ok ?j" "log_inv U (logged ?j)" "threads_inv (logged ?j) (fw_pending w) (fw_returned w) (fw_calls w)"
    using inv by (simp_all add: fabric_inv_def)
  have oc: "open_claims (fe_journal (E\<lparr>fe_controller := ctl\<rparr>)) ?j run (Some step) = Inr ?cs"
    using open_claims_log [OF i(1)] E by simp
  show ?thesis
  proof (cases "fs_journal ?st = ?j")
    case True
    with i show ?thesis by (simp add: fabric_inv_def)
  next
    case False
    then have ne: "?cs \<noteq> []" and so: "settles_once J (run, step, fc_id (cl_command (last ?cs))) ?j (fs_journal ?st)"
      using settle_claim_journal [OF oc, of out det r now] E by auto
    have "last ?cs \<in> set ?cs" using ne by (rule last_in_set)
    then have "cl_command (last ?cs) \<in> set (claimed (logged ?j))"
      "(run, step, fc_id (cl_command (last ?cs))) = command_key (cl_command (last ?cs))"
      by (auto simp: claimed_def command_key_def)
    then have k: "(run, step, fc_id (cl_command (last ?cs))) \<in> command_key ` set (claimed (logged ?j))" by blast
    note s = settle_keeps [OF i(1,2) so k]
    show ?thesis using s i(3) threads_inv_claimed [OF s(3)] by (simp add: fabric_inv_def)
  qed
qed

lemma fabric_run_inv:
  assumes E: "fe_journal E = J" and inv: "fabric_inv ok logged U w" and ids: "ids_name_steps U"
    and U: "set (begun evs) \<subseteq> U" "\<forall>c\<in>U. command_ok c"
  shows "fabric_inv ok logged U (fold (fabric_step E) evs w)"
  using inv U
proof (induction evs arbitrary: w)
  case Nil
  then show ?case by simp
next
  case (Cons ev evs)
  have "fabric_inv ok logged U (fabric_step E ev w)"
  proof (cases ev)
    case (Begin ctl q now)
    with Cons.prems show ?thesis using begin_keeps [OF E Cons.prems(1) ids, of q ctl now] by simp
  qed (use act_keeps [OF E Cons.prems(1)] finish_keeps [OF E Cons.prems(1)] die_keeps [OF Cons.prems(1)]
        reconcile_keeps [OF E Cons.prems(1)] in \<open>simp_all del: fabric_step.simps\<close>)
  moreover have "set (begun evs) \<subseteq> U" using Cons.prems(2) by (cases ev) auto
  ultimately show ?case using Cons.IH Cons.prems(3) by (simp del: fabric_step.simps)
qed

end

end
