(* ===== verification/Fabric_Guarantees.thy ===== *)
theory Fabric_Guarantees
  imports Fabric_Laws
begin

text \<open>
  The guarantees of the dispatch engine over the SQLite journal, from \<open>Fabric_Laws\<close>, with a concrete
  run of two controllers, and the findings about it.
\<close>

section \<open>The engine of the examples\<close>

text \<open>A provider that reports success, the in-memory sink, no verifier.\<close>

definition demo_engine :: "(FabricJournalRow list, lease_dict, unit) FabricEngine" where
  "demo_engine =
     \<lparr>fe_session = (\<lambda>c w. (SessionReplied \<lparr>pr_ok = True, pr_detail = ''done'', pr_error = None,
                                       pr_target = Some ''pod'', pr_lease = None\<rparr>, w)),
      fe_journal = sqlite_journal (\<lambda>_. replicate 64 (CHR ''0'')) (\<lambda>_. None), fe_sink = mem_sink,
      fe_controller = ''A'', fe_verifier = None, fe_evidence = None\<rparr>"

definition demo_state :: "(FabricJournalRow list, lease_dict, unit) fabric_state" where
  "demo_state = \<lparr>fs_journal = [], fs_sink = [], fs_world = ()\<rparr>"

definition demo_token :: "string \<Rightarrow> int \<Rightarrow> FencingToken" where
  "demo_token step e = \<lparr>ft_run = ''r'', ft_step = step, ft_holder = ''agent'', ft_epoch = e, ft_issued = 0, ft_supersedes = None\<rparr>"

definition demo_serial :: "string \<Rightarrow> StepSpec" where
  "demo_serial step =
     \<lparr>sp_id = step, sp_semantic = SEM_SERIAL, sp_depends = [], sp_fan_out = [], sp_condition = None, sp_branches = [],
      sp_bound = None, sp_budget = None, sp_retries = None, sp_backoff = None, sp_timeout = None, sp_joins = [],
      sp_wait = None, sp_approval = None, sp_compensates = None, sp_probe = None, sp_issued = 0\<rparr>"

definition demo_request :: "string \<Rightarrow> string \<Rightarrow> string \<Rightarrow> char \<Rightarrow> int \<Rightarrow> DispatchRequest" where
  "demo_request i step key n e =
     \<lparr>rq_step = demo_serial step, rq_command = command_for i ''r'' step key (replicate 32 n) (demo_token step e),
      rq_plan = replicate 64 (CHR ''0''), rq_target = Some ''pod'', rq_reservations = [], rq_others = []\<rparr>"

text \<open>The run of the witnesses: A dies after its claim, B reconciles, retries and moves on.\<close>

definition demo_reading :: Reading where
  "demo_reading = \<lparr>rd_outcome = SO_COMPLETED, rd_reason = None, rd_detail = ''done'', rd_refusal = None,
                   rd_lease = None, rd_retried = False\<rparr>"

definition demo_events :: "fabric_event list" where
  "demo_events =
     (let x = demo_request ''x'' ''a'' ''k'' (CHR ''0'') 1; y = demo_request ''y'' ''a'' ''k'' (CHR ''1'') 2;
          z = demo_request ''z'' ''a'' ''k2'' (CHR ''2'') 3
      in [Begin ''A'' x 0, Act x, Finish x demo_reading 1, Begin ''B'' y 2, Act y, Die y,
          Reconcile ''B'' ''r'' ''a'' SO_FAILED [] (Some TO_FAILED_TO_APPLY) 3, Begin ''B'' z 4, Act z])"

lemma demo_begun:
  "begun demo_events = [command_for ''x'' ''r'' ''a'' ''k'' (replicate 32 (CHR ''0'')) (demo_token ''a'' 1),
     command_for ''y'' ''r'' ''a'' ''k'' (replicate 32 (CHR ''1'')) (demo_token ''a'' 2),
     command_for ''z'' ''r'' ''a'' ''k2'' (replicate 32 (CHR ''2'')) (demo_token ''a'' 3)]"
  by (simp add: demo_events_def demo_request_def Let_def)

lemma demo_begun_ok: "\<forall>c\<in>set (begun demo_events). command_ok c" "ids_name_steps (set (begun demo_events))"
proof -
  have "valid_ident ''x''" "valid_ident ''y''" "valid_ident ''z''" "valid_ident ''r''" "valid_ident ''a''"
    "valid_ident ''k''" "valid_ident ''k2''" "valid_nonce (replicate 32 (CHR ''0''))"
    "valid_nonce (replicate 32 (CHR ''1''))" "valid_nonce (replicate 32 (CHR ''2''))"
    "fence_validate (demo_token ''a'' 1) = Inr (demo_token ''a'' 1)"
    "fence_validate (demo_token ''a'' 2) = Inr (demo_token ''a'' 2)"
    "fence_validate (demo_token ''a'' 3) = Inr (demo_token ''a'' 3)"
    by code_simp+
  then show "\<forall>c\<in>set (begun demo_events). command_ok c" by (simp add: demo_begun command_for_ok)
  show "ids_name_steps (set (begun demo_events))" by (simp add: demo_begun ids_name_steps_def)
qed

lemma demo_calls: "map fc_id (fw_calls (fabric_run demo_engine demo_events demo_state)) = [''x'', ''z'']"
  by code_simp

lemma demo_claims:
  "map fc_id (claimed (map jr_payload (fs_journal (fw_state (fabric_run demo_engine demo_events demo_state)))))
     = [''x'', ''y'', ''z'']"
  by code_simp

lemma demo_journal: "fe_journal demo_engine = sqlite_journal (\<lambda>_. replicate 64 (CHR ''0'')) (\<lambda>_. None)"
  "fe_verifier demo_engine = None"
  by (simp_all add: demo_engine_def)

section \<open>Results\<close>

definition mismatched :: "ProviderResult \<Rightarrow> string option \<Rightarrow> bool" where
  "mismatched p expected \<longleftrightarrow> expected \<noteq> None \<and> pr_target p \<noteq> None \<and> pr_target p \<noteq> expected"

lemma normalise_completed_iff:
  "nm_outcome (normalise_provider_result p e) = SO_COMPLETED \<longleftrightarrow> pr_ok p \<and> \<not> mismatched p e"
  by (auto simp: normalise_provider_result_def mismatched_def Let_def)

text \<open>The session applied the command to the target the plan named, and says so.\<close>

definition effect_applied :: "('j, 's, 'w) FabricEngine \<Rightarrow> DispatchRequest \<Rightarrow> 'w \<Rightarrow> bool" where
  "effect_applied E q w \<longleftrightarrow>
     (\<exists>p w'. fe_session E (rq_command q) w = (SessionReplied p, w') \<and> pr_ok p \<and> \<not> mismatched p (rq_target q))"

lemma fabric_invoke_earned:
  assumes "fabric_invoke E q st = (Inr rd, st')"
  shows "rd_retried rd = False" "rd_outcome rd = SO_COMPLETED \<longleftrightarrow> effect_applied E q (fs_world st)"
    and "rd_lease rd = Some i \<Longrightarrow> \<exists>l. lease_id l = i \<and> sink_save (fe_sink E) l (fs_sink st) = Inr (fs_sink st')"
  using assms
  by (auto simp: fabric_invoke_def effect_applied_def reading_of_def normalise_refusal_def normalise_completed_iff Let_def
      split: prod.splits session_reply.splits option.splits sum.splits)

lemma settle_step_result:
  assumes "settle_step E c rd now st = (Inr r, st')"
  shows "dr_outcome r = rd_outcome rd" "dr_lease r = rd_lease rd" "dr_retried r = rd_retried rd"
    "agreeing_reason (dr_outcome r) (dr_reason r) = Inr (dr_reason r)" "fs_sink st' = fs_sink st"
  using assms agreeing_reason_idem [of "rd_outcome rd" "rd_reason rd"]
  by (auto simp: settle_step_def Let_def split: sum.splits prod.splits option.splits)

text \<open>
  C14. A dispatch that returns was admitted, and its result is earned. Served from the record it repeats
  the outcome and the lease of the recorded settlement and touches no lease; otherwise it is ok exactly
  when the session reported success on the target the plan named, and a lease it names was saved. The
  reason agrees with the outcome.
\<close>

theorem dispatch_result_earned:
  assumes "fabric_dispatch E q now settled st = (Inr r, st')"
  shows "\<exists>st1 rec. claim_step E q now st = (Inr (), st1)
     \<and> recorded_outcome (fe_journal E) (fs_journal st1) (rq_command q) = Inr rec
     \<and> dr_retried r = (rec \<noteq> None)
     \<and> (case rec of
          Some s \<Rightarrow> dr_outcome r = se_outcome s \<and> dr_lease r = se_lease s \<and> fs_sink st' = fs_sink st1
        | None \<Rightarrow> (dr_ok r \<longleftrightarrow> effect_applied E q (fs_world st1))
            \<and> (\<forall>i. dr_lease r = Some i \<longrightarrow>
                 (\<exists>l. lease_id l = i \<and> sink_save (fe_sink E) l (fs_sink st1) = Inr (fs_sink st'))))
     \<and> agreeing_reason (dr_outcome r) (dr_reason r) = Inr (dr_reason r)"
proof -
  obtain st1 where c: "claim_step E q now st = (Inr (), st1)"
    using assms by (auto simp: fabric_dispatch_def split: prod.splits sum.splits)
  obtain rd st2 where e: "effect_step E q st1 = (Inr rd, st2)"
    using assms c by (cases "effect_step E q st1") (auto simp: fabric_dispatch_def split: sum.splits)
  have s: "settle_step E (rq_command q) rd settled st2 = (Inr r, st')"
    using assms c e by (auto simp: fabric_dispatch_def lift_fault_def split: prod.splits sum.splits)
  note res = settle_step_result [OF s]
  show ?thesis
  proof (cases "recorded_outcome (fe_journal E) (fs_journal st1) (rq_command q)")
    case (Inl x)
    with e show ?thesis by (simp add: effect_step_def)
  next
    case (Inr rec)
    show ?thesis
    proof (cases rec)
      case None
      then have i: "fabric_invoke E q st1 = (Inr rd, st2)" using e Inr by (simp add: effect_step_def)
      show ?thesis using c Inr None res fabric_invoke_earned [OF i] by (intro exI [of _ st1] exI [of _ rec]) (auto simp: dr_ok_def)
    next
      case (Some x)
      then have "rd = retry_reading x" "st2 = st1" using e Inr by (simp_all add: effect_step_def)
      then show ?thesis using c Inr Some res by (intro exI [of _ st1] exI [of _ rec]) (simp add: retry_reading_def)
    qed
  qed
qed

lemma sqlite_run_inv:
  assumes "fe_journal E = sqlite_journal digest refuses"
    and "\<forall>c\<in>set (begun evs). command_ok c" "ids_name_steps (set (begun evs))"
  shows "fabric_inv (\<lambda>rows. \<forall>r\<in>set rows. row_good digest r) (map jr_payload) (set (begun evs))
     (fabric_run E evs \<lparr>fs_journal = [], fs_sink = s, fs_world = v\<rparr>)"
proof -
  have "fabric_inv (\<lambda>rows. \<forall>r\<in>set rows. row_good digest r) (map jr_payload) (set (begun evs))
     (fabric_start \<lparr>fs_journal = [], fs_sink = s, fs_world = v\<rparr>)"
    by (simp add: fabric_inv_def fabric_start_def log_inv_def threads_inv_def claimed_def)
  then show ?thesis
    unfolding fabric_run_def by (rule sqlite_log.fabric_run_inv [OF assms(1) _ assms(3) subset_refl assms(2)])
qed

lemma preflight_refusal:
  assumes "preflight_checks (fe_journal E) q now (fs_journal st) = Inl x"
  shows "\<exists>e st'. fabric_dispatch E q now settled st = (Inl e, st') \<and> fs_journal st' = fs_journal st \<and> fs_sink st' = fs_sink st"
  using assms by (cases x) (simp_all add: fabric_dispatch_def claim_step_def preflight_def)





theorem dispatch_result_earned_witness:
  "\<exists>st1. claim_step demo_engine (demo_request ''x'' ''a'' ''k'' (CHR ''0'') 1) 0 demo_state = (Inr (), st1)
     \<and> effect_applied demo_engine (demo_request ''x'' ''a'' ''k'' (CHR ''0'') 1) (fs_world st1)"
proof -
  let ?q = "demo_request ''x'' ''a'' ''k'' (CHR ''0'') 1"
  obtain r st' where d: "fabric_dispatch demo_engine ?q 0 1 demo_state = (r, st')" by fastforce
  have f: "fst (fabric_dispatch demo_engine ?q 0 1 demo_state) =
      Inr \<lparr>dr_run = ''r'', dr_step = ''a'', dr_command = ''x'', dr_epoch = 1, dr_outcome = SO_COMPLETED, dr_reason = None,
           dr_detail = ''done'', dr_refusal = None, dr_retried = False, dr_lease = None\<rparr>"
    by code_simp
  then have "fabric_dispatch demo_engine ?q 0 1 demo_state =
      (Inr \<lparr>dr_run = ''r'', dr_step = ''a'', dr_command = ''x'', dr_epoch = 1, dr_outcome = SO_COMPLETED, dr_reason = None,
           dr_detail = ''done'', dr_refusal = None, dr_retried = False, dr_lease = None\<rparr>, st')"
    using d by simp
  from dispatch_result_earned [OF this] show ?thesis by (auto simp: dr_ok_def split: option.splits)
qed

text \<open>
  Entries appended to the SQLite journal, one after the other without a refusal, read back as they
  were, in the order of their appends, for a run and for a step of it; no phase of a command is held twice.
\<close>

theorem journal_reads_back:
  assumes "run_all (sqlite_append digest refuses) es [] = Inr rows" "\<forall>e\<in>set es. entry_ok e"
  shows "sqlite_entries digest rows run step = Inr (filter (entry_wanted run step) es)
     \<and> distinct (map entry_key es)"
proof -
  have step: "(\<forall>r\<in>set rows'. row_good digest r) \<and> map jr_payload rows' = map jr_payload rs @ fs
      \<and> (distinct (map entry_key (map jr_payload rs)) \<longrightarrow> distinct (map entry_key (map jr_payload rs @ fs)))"
    if "run_all (sqlite_append digest refuses) fs rs = Inr rows'" "\<forall>e\<in>set fs. entry_ok e"
      "\<forall>r\<in>set rs. row_good digest r" for fs rs rows'
    using that
  proof (induction fs arbitrary: rs)
    case Nil
    then show ?case by simp
  next
    case (Cons e fs)
    obtain rs1 where a: "sqlite_append digest refuses e rs = Inr rs1" "run_all (sqlite_append digest refuses) fs rs1 = Inr rows'"
      using Cons.prems(1) by (auto split: sum.splits)
    have b: "(\<forall>r\<in>set rs1. row_good digest r) \<and> map jr_payload rs1 = map jr_payload rs @ [e]
        \<and> entry_key e \<notin> entry_key ` set (map jr_payload rs)"
      using sqlite_log.append_log [of rs digest e refuses rs1] a(1) Cons.prems(2,3) by (simp add: sqlite_journal_def)
    show ?case using Cons.IH [OF a(2)] Cons.prems(2) b by auto
  qed
  have "(\<forall>r\<in>set rows. row_good digest r) \<and> map jr_payload rows = es \<and> distinct (map entry_key es)"
    using step [of es "[]" rows] assms by simp
  then show ?thesis using sqlite_entries_good [of rows digest run step] by auto
qed


theorem journal_reads_back_witness:
  "\<exists>rows. run_all (sqlite_append (\<lambda>_. replicate 64 (CHR ''0'')) (\<lambda>_. None))
       [Claimed \<lparr>cl_command = command_for ''x'' ''r'' ''a'' ''k'' (replicate 32 (CHR ''0'')) (demo_token ''a'' 1),
                 cl_controller = ''A'', cl_at = 0\<rparr>] [] = Inr rows
     \<and> sqlite_entries (\<lambda>_. replicate 64 (CHR ''0'')) rows ''r'' None =
         Inr [Claimed \<lparr>cl_command = command_for ''x'' ''r'' ''a'' ''k'' (replicate 32 (CHR ''0'')) (demo_token ''a'' 1),
                       cl_controller = ''A'', cl_at = 0\<rparr>]"
proof -
  let ?c = "command_for ''x'' ''r'' ''a'' ''k'' (replicate 32 (CHR ''0'')) (demo_token ''a'' 1)"
  let ?e = "Claimed \<lparr>cl_command = ?c, cl_controller = ''A'', cl_at = 0\<rparr>"
  let ?app = "sqlite_append (\<lambda>_. replicate 64 (CHR ''0'')) (\<lambda>_. None)"
  have ok: "\<forall>e\<in>set [?e]. entry_ok e" using demo_begun_ok(1) by (simp add: demo_begun)
  have "valid_digest (replicate 64 (CHR ''0''))" by code_simp
  then have "\<exists>rows. ?app ?e [] = Inr rows"
    by (simp add: sqlite_append_def table_append_def row_of_def row_validate_def check_payload_def index_defect_def
        demo_token_def)
  then obtain rows where "run_all ?app [?e] [] = Inr rows" by auto
  with journal_reads_back [OF this ok, of "''r''" None] show ?thesis by (auto simp: entry_wanted_def)
qed

section \<open>Findings\<close>

text \<open>
  The open claims of a step are those no settlement of the run names, whatever step it is of: where a
  command id comes back on another step, a claim whose effect is unknown looks settled, and the effect
  is repeated.
\<close>

lemma id_reuse_repeats_effect:
  "let x = demo_request ''x'' ''a'' ''k'' (CHR ''0'') 1; b = demo_request ''x'' ''b'' ''k2'' (CHR ''1'') 1;
       y = demo_request ''y'' ''a'' ''k'' (CHR ''2'') 1
   in map effect_key (fw_calls (fabric_run demo_engine
        [Begin ''A'' x 0, Act x, Die x, Begin ''A'' b 1, Act b, Finish b demo_reading 2, Begin ''B'' y 3, Act y] demo_state))
      = [(''r'', ''a'', ''k''), (''r'', ''b'', ''k2''), (''r'', ''a'', ''k'')]"
  by code_simp

text \<open>
  The checks and the append are not one transaction of the store: two controllers that both check
  before either appends both claim the effect, and neither finds an outcome on record.
\<close>

lemma overlapping_checks_repeat_effect:
  "let x = demo_request ''x'' ''a'' ''k'' (CHR ''0'') 1; y = demo_request ''y'' ''a'' ''k'' (CHR ''1'') 1;
       J = fe_journal demo_engine;
       claim_x = Claimed \<lparr>cl_command = rq_command x, cl_controller = ''A'', cl_at = 0\<rparr>;
       claim_y = Claimed \<lparr>cl_command = rq_command y, cl_controller = ''B'', cl_at = 0\<rparr>
   in preflight_checks J x 0 [] = Inr None \<and> preflight_checks J y 0 [] = Inr None
      \<and> (case run_all (jn_append J) [claim_x, claim_y] [] of Inl _ \<Rightarrow> False
           | Inr j \<Rightarrow> (case recorded_outcome J j (rq_command x) of Inr None \<Rightarrow> True | _ \<Rightarrow> False)
                     \<and> (case recorded_outcome J j (rq_command y) of Inr None \<Rightarrow> True | _ \<Rightarrow> False))"
  by code_simp

text \<open>A retry is recognised by its key alone; the digest of its body is never compared.\<close>

lemma key_collision_served:
  "recorded_outcome J j (c\<lparr>fc_body := b\<rparr>) = recorded_outcome J j c"
  by (simp add: recorded_outcome_def claim_ids_for_key_def claimed_key_def)

text \<open>A failed step may carry the reason of drift.\<close>

lemma failed_may_drift: "agreeing_reason SO_FAILED (Some TO_TARGET_DRIFT) = Inr (Some TO_TARGET_DRIFT)"
  by (simp add: agreeing_reason_def)

text \<open>The controller column of a claim, and the epoch column of a settlement, may be edited unnoticed.\<close>

lemma controller_column_unchecked:
  "check_payload digest (r\<lparr>jr_controller := x\<rparr>) = check_payload digest r"
  by (simp add: check_payload_def index_defect_def cong: JournalEntry.case_cong)

end
