(* ===== verification/Spec2Isabelle.thy ===== *)
theory Spec2Isabelle
  imports Mayhem_Prelude Python_Text Risk_Ladder Lease_Model Lease_Client Lease_Runs Lease_Store Janitor_Sweep
    Recovery_Log Stop_Ladder Topology_Graph Damage_Quota Plan_Model Target_Selector
    Blast_Prediction Safety_Gate Safety_Admission Preview_Agreement Leader_Election Failover
    Identity_Scope Safety_Case Approval Steady_State Stop_Conditions Stop_Evidence
    Fair_Share Run_Concurrency Cron_Calendar Schedule_Fire Schedule_Laws
    Policy_Rules Budget_Tree Policy_Gate Policy_Laws
    Coverage_Model Campaign_Loop Campaign_Laws Campaign_Guarantees Campaign_Resume Campaign_Runs Campaign_Sequence Campaign_Dispatch
    Fabric_Command Fabric_Journal Fabric_Engine Fabric_Laws Fabric_Guarantees
begin

text \<open>
  Mayhem (Python, \<open>src/src/mayhem\<close>) is a chaos-engineering controller. A plan of faults is checked by
  the safety gate and, where one is configured, the policy gate; approvals and a safety proof authorize
  it; the controller that is leader dispatches its steps to agents; every mutation of a target stands
  under a write-ahead lease that is released by an undo or swept by the janitor; stop conditions and an
  emergency stop end a run, and a schedule may start it again. This development models the core logic
  of that system, component by component, and proves what makes each of them correct.

  \<^bold>\<open>The parts and how they meet.\<close> Paths are under \<open>src/src/mayhem\<close>.

  \<^item> \<open>Mayhem_Prelude\<close>, \<open>Python_Text\<close>: the exceptions of \<open>domain/errors.py\<close>, time, the text round trip
    of a \<open>Duration\<close> (\<open>domain/common.py\<close>), strings, numerals and floats read from text; the interfaces
    \<open>guarded_machine\<close>, \<open>ranked_machine\<close> (transition tables) and \<open>canonical_enum\<close> (ordered reasons).
  \<^item> \<open>Lease_Model\<close>, \<open>Lease_Client\<close>, \<open>Lease_Runs\<close>, \<open>Lease_Store\<close>: leases (\<open>domain/leases.py\<close>,
    \<open>domain/resolution.py\<close>), the client and its sink (\<open>agents/lease_client.py\<close>, \<open>agents/sinks.py\<close>), the
    SQLite rows (\<open>infra/lease_repository.py\<close>). \<open>Janitor_Sweep\<close> (\<open>controller/janitor.py\<close>) works over any
    sink, \<open>Recovery_Log\<close> (\<open>controller/recovery.py\<close>) over the janitor.
  \<^item> \<open>Risk_Ladder\<close>, \<open>Topology_Graph\<close>, \<open>Damage_Quota\<close>, \<open>Plan_Model\<close>, \<open>Target_Selector\<close>: the data the gates
    read (\<open>domain/risks.py\<close>, \<open>topology.py\<close>, \<open>quota.py\<close>, \<open>experiments.py\<close>, \<open>target.py\<close>, \<open>policy.py\<close>,
    \<open>target_selector.py\<close>). \<open>Safety_Gate\<close> is \<open>controller/safety.py\<close> check by check, \<open>Safety_Admission\<close> its
    refinement to an abstract admissibility; \<open>Blast_Prediction\<close> (\<open>domain/prediction.py\<close>) is the preview
    and \<open>Preview_Agreement\<close> compares the two.
  \<^item> \<open>Policy_Rules\<close>, \<open>Budget_Tree\<close>, \<open>Policy_Gate\<close>, \<open>Policy_Laws\<close>: rules, bundles and inheritance, the
    budget hierarchy (\<open>domain/policy.py\<close>), the gate and its commit (\<open>domain/policy_gate.py\<close>), and how
    the safety gate consults it.
  \<^item> \<open>Identity_Scope\<close>, \<open>Safety_Case\<close>, \<open>Approval\<close>: identities, roles and scopes (\<open>domain/identity.py\<close>),
    the safety proof (\<open>domain/safety_proof.py\<close>), approvals and their gate (\<open>domain/approval.py\<close>,
    \<open>controller/approval_gate.py\<close>).
  \<^item> \<open>Fabric_Command\<close>, \<open>Leader_Election\<close>, \<open>Failover\<close>: fences, envelopes, step semantics and
    reservations (\<open>domain/fabric.py\<close>); terms and the only door to a dispatch
    (\<open>controller/leader_election.py\<close>); evidence of death and promotion (\<open>domain/failover.py\<close>,
    \<open>controller/failover_service.py\<close>, \<open>infra/failover_store.py\<close>).
  \<^item> \<open>Fabric_Journal\<close>, \<open>Fabric_Engine\<close>, \<open>Fabric_Laws\<close>, \<open>Fabric_Guarantees\<close>: the journal table
    (\<open>infra/fabric_journal.py\<close>, \<open>SqliteFabricJournal\<close> of \<open>controller/fabric_evidence.py\<close>), the dispatch
    engine (\<open>controller/fabric_engine.py\<close>), its invariants over any journal, its guarantees.
  \<^item> \<open>Steady_State\<close>, \<open>Stop_Conditions\<close>, \<open>Stop_Evidence\<close>, \<open>Stop_Ladder\<close>: baselines and verdicts
    (\<open>domain/steady_state.py\<close>), condition trees over samples (\<open>domain/stop_conditions.py\<close>), the stop
    ladder and its report (\<open>domain/stop.py\<close>, \<open>domain/cancellation.py\<close>).
  \<^item> \<open>Fair_Share\<close>, \<open>Run_Concurrency\<close>, \<open>Cron_Calendar\<close>, \<open>Schedule_Fire\<close>, \<open>Schedule_Laws\<close>: fairness,
    admission of runs, cron and calendars, when a schedule fires (\<open>domain/scheduling.py\<close>).
  \<^item> \<open>Coverage_Model\<close>, \<open>Campaign_Loop\<close>, \<open>Campaign_Laws\<close>, \<open>Campaign_Guarantees\<close>: coverage cells
    (\<open>domain/coverage.py\<close>), candidates and their gates (\<open>domain/candidates.py\<close>,
    \<open>infra/candidate_gates.py\<close>), the campaign engine (\<open>domain/m5_campaign.py\<close>,
    \<open>infra/campaign_engine.py\<close>) over any collaborators. \<open>Campaign_Resume\<close>: checkpoints, their table and
    the resume planner (\<open>domain/campaign_checkpoint.py\<close>, \<open>infra/campaign_checkpoint_repository.py\<close>).
    \<open>Campaign_Runs\<close>, \<open>Campaign_Sequence\<close>: the lifecycle and its row (\<open>domain/campaigns.py\<close>,
    \<open>cli/campaign.py\<close>) and the sequence of experiments (\<open>cli/services.py\<close>). \<open>Campaign_Dispatch\<close>:
    admissibility and budget of a dispatched run (\<open>controller/campaign_dispatch.py\<close>), compared with
    the policy gate.

  \<^bold>\<open>How the model corresponds to the code.\<close> A class is a record, an enumeration a datatype, a method a
  definition of the same name (with a prefix where two classes share it); state is passed and
  returned; an exception is the left of a sum, and every raise and early return is a branch. An
  aware \<open>datetime\<close> is its microseconds. Floats are rationals, and every result of float arithmetic goes
  through a rounding \<open>fl\<close>, an argument without laws except where one is named. Loops are structural
  recursion except where the code searches: the cron search runs over the \<open>366 * 24 * 60\<close> minutes of
  \<open>CRON_SEARCH_LIMIT_MINUTES\<close>, so its bound is the code's own; the closures of the topology graph and
  the inheritance of bundles terminate by measures. The campaign engine's loop may run for ever: it is
  a partial function whose value is \<open>None\<close> then, shown to return over every source that runs dry. Where a
  theorem speaks of the calls made to a collaborator, a ghost list beside the world records them.

  \<^bold>\<open>What is an argument.\<close> What the code takes from outside stays an argument: digests (SHA-256 of a
  canonical JSON), the time zone database, the fault catalog, the random draw of a selection, the
  jitter hash, the interpreter's \<open>sum\<close> and \<open>str\<close> of floats, sessions with agents, the command verifier,
  the evidence recorder and its boundary. Their laws, where a theorem needs one, are named hypotheses.

  \<^bold>\<open>Interfaces.\<close> \<open>lease_sink\<close> and \<open>reliable_sink\<close> are what the client and the janitor need of a sink
  (interpreted by the in-memory sink and by one whose saves fail), \<open>leadership_store\<close> what the election
  needs of a store (interpreted by the SQLite tables), \<open>fabric_journal\<close> what the engine needs of a
  journal (interpreted by the SQLite journal), \<open>guarded_machine\<close> and \<open>ranked_machine\<close> (leases, the
  recovery log, both campaign lifecycles), \<open>canonical_enum\<close> (approvals, promotions, verification checks), \<open>fail_closed\<close> (the
  bounds of steady states).

  \<^bold>\<open>What the theorems show.\<close> Leases: mutual exclusion on targets over whole runs, a released lease was
  recoverable, bounded lives, honest and complete sweeps, what survives SQLite. Gates: the safety
  gate, the policy gate, the approval gate and a bundle each accept exactly what an abstract reading
  accepts; an accepted plan is within its limits and satisfies its policy; the preview agrees with the
  gate but for one comparison; ledgers replay into the trees they came from. Distribution: epochs are
  spent once however controllers interleave, a deposed leader is refused, a promotion is earned, the
  provider hears of an effect once and a refused dispatch leaves no trace. Runs: a stop escalates to
  its end, a clean verdict and a firing cite fresh evidence, verdicts of steady states are earned,
  teams are not starved, incompatible runs exclude each other, a schedule fires only when allowed.
  Campaigns: nothing runs ungated, unapproved or over budget, the reason of a stop held, a resume
  follows the last checkpoint, the outcome of a sequence accounts for its attempts.
  Lemmas named in the section \<open>Findings\<close> of a theory, or after its properties, show where the code
  departs from its own documentation.

  \<^bold>\<open>Not modelled.\<close> The message texts of exceptions, unless code branches on them. Code that is input
  and output: the CLI, the HTTP surface, the transports, the executors that change hosts and clusters,
  the runtime adapters, the probe drivers. Tables of data: the fault catalog, the failure modes, the
  low-level parameters, the migrations. Services that join stored rows into reports: analytics,
  advice, prediction, coverage, certification, marketplace. Of the modelled files: the sealed evidence
  chains, the canonical JSON of digests, descriptive metadata. These are out of reach of a shallow
  model either because their meaning is that of another system or because they hold no decision the
  gates above do not already make; budgets of runs, the stop engine, the controller's scheduler service
  and the binding of the campaign pipeline do hold decisions and are the next to model.
\<close>

end
